(* ===== verification/CPrelude.thy ===== *)
theory CPrelude
  imports Main "HOL-Library.Word" "HOL-Library.Monad_Syntax"
begin

text \<open>
  What the component theories share: the integer types of the C code at their widths
  (LP64: \<open>int\<close> is 32 bits, \<open>long\<close> is 64 bits), the convention for undefined behaviour,
  small list and option facts, and the rule collections the component proofs add to.

  Convention: a C operation whose execution may be undefined (a null or dangling
  dereference, an access outside an array, a signed overflow, a failed \<open>assert\<close>) returns
  an \<open>option\<close>; \<open>None\<close> is the undefined execution, and a theorem that the result is
  \<open>Some\<close> is a safety theorem. A C string is the list of its characters without the
  terminating NUL; a byte buffer is a list of \<open>u8\<close>.
\<close>

unbundle bit_operations_syntax

type_synonym u8 = "8 word"
type_synonym u16 = "16 word"
type_synonym u32 = "32 word"
type_synonym u64 = "64 word"

text \<open>Rule collection: \<open>csize\<close> holds the sizes of the buffers and structures of the C code.\<close>

named_theorems csize "the sizes of buffers and structures"

text \<open>A failed C guard: \<open>guard b\<close> continues when \<open>b\<close> holds and is undefined otherwise.\<close>

definition guard :: "bool \<Rightarrow> unit option" where
  "guard b = (if b then Some () else None)"

lemma guard_simps [simp]:
  "guard True = Some ()" "guard False = None"
  by (simp_all add: guard_def)

lemma guard_Some [simp]: "guard b = Some u \<longleftrightarrow> b"
  by (cases b) simp_all

text \<open>Array accesses: undefined outside the array.\<close>

definition rd :: "'a list \<Rightarrow> nat \<Rightarrow> 'a option" where
  "rd xs i = (if i < length xs then Some (xs ! i) else None)"

definition wr :: "'a list \<Rightarrow> nat \<Rightarrow> 'a \<Rightarrow> 'a list option" where
  "wr xs i x = (if i < length xs then Some (xs[i := x]) else None)"

lemma rd_Some [simp]: "rd xs i = Some x \<longleftrightarrow> i < length xs \<and> x = xs ! i"
  by (auto simp: rd_def)

lemma rd_in [simp]: "i < length xs \<Longrightarrow> rd xs i = Some (xs ! i)"
  by (simp add: rd_def)

lemma wr_Some [simp]: "wr xs i x = Some ys \<longleftrightarrow> i < length xs \<and> ys = xs[i := x]"
  by (auto simp: wr_def)

lemma wr_in [simp]: "i < length xs \<Longrightarrow> wr xs i x = Some (xs[i := x])"
  by (simp add: wr_def)

text \<open>\<open>unsigned long\<close> counters: decrementing 0 wraps to the largest value.\<close>

definition ul_dec :: "nat \<Rightarrow> nat" where
  "ul_dec n = (if n = 0 then 2 ^ 64 - 1 else n - 1)"

lemma ul_dec_Suc [simp]: "ul_dec (Suc n) = n"
  by (simp add: ul_dec_def)

lemma ul_dec_pos: "0 < n \<Longrightarrow> ul_dec n = n - 1"
  by (simp add: ul_dec_def)

text \<open>Values of \<open>int\<close>: the range, and the value of an unsigned 32-bit quantity stored in an
  \<open>int\<close>.\<close>

definition INT_MAX :: int where "INT_MAX = 2147483647"
definition INT_MIN :: int where "INT_MIN = -2147483648"

definition in_int :: "int \<Rightarrow> bool" where
  "in_int i \<longleftrightarrow> INT_MIN \<le> i \<and> i \<le> INT_MAX"

lemma in_int_iff: "in_int i \<longleftrightarrow> -2147483648 \<le> i \<and> i \<le> 2147483647"
  by (simp add: in_int_def INT_MAX_def INT_MIN_def)

text \<open>Masking with \<open>2 ^ k - 1\<close> is taking the remainder.\<close>

lemma unat_and_mask: "unat (w AND mask k :: 'a::len word) = unat w mod 2 ^ k"
proof -
  have "unat (w AND mask k) = take_bit k (unat w)"
    by (simp flip: take_bit_eq_mask add: unsigned_take_bit_eq)
  then show ?thesis by (simp add: take_bit_eq_mod)
qed

lemma power_of_two_pred_mask: "(2 ^ k - 1 :: 'a::len word) = mask k"
  by (simp add: mask_eq_exp_minus_1)

lemma and_pow2_minus_1: "a AND (2 ^ k - 1) = a mod 2 ^ k" for a :: nat
proof -
  have "a AND (2 ^ k - 1) = a AND mask k" by (simp only: mask_eq_exp_minus_1)
  then show ?thesis by (simp only: take_bit_eq_mask [symmetric] take_bit_eq_mod)
qed

lemma find_SomeD: "find P xs = Some x \<Longrightarrow> x \<in> set xs \<and> P x"
  by (auto simp: find_Some_iff)

lemma find_NoneD: "find P xs = None \<longleftrightarrow> (\<forall>x \<in> set xs. \<not> P x)"
  by (auto simp: find_None_iff)

lemma map_of_rev_distinct:
  assumes "distinct (map fst xs)"
  shows "map_of (rev xs) = map_of xs"
proof (rule ext)
  fix k
  have d: "distinct (map fst (rev xs))" using assms by (simp add: rev_map [symmetric])
  show "map_of (rev xs) k = map_of xs k"
  proof (cases "map_of xs k")
    case None
    then have "map_of (rev xs) k = None" by (simp add: map_of_eq_None_iff)
    then show ?thesis using None by simp
  next
    case (Some v)
    then have "(k, v) \<in> set (rev xs)" by (simp add: map_of_SomeD)
    then show ?thesis using Some d by (simp add: map_of_eq_Some_iff del: set_rev)
  qed
qed

lemma list_update_id_eq: "xs ! i = x \<Longrightarrow> xs[i := x] = xs"
  by (metis list_update_id)

lemma concat_update_length:
  "i < length xss \<Longrightarrow>
   length (concat (xss[i := ys])) + length (xss ! i) = length (concat xss) + length ys"
  by (induction xss arbitrary: i) (auto simp: nth_Cons split: nat.splits)

lemma in_concat_nth: "x \<in> set (concat xss) \<longleftrightarrow> (\<exists>j < length xss. x \<in> set (xss ! j))"
  by (induction xss) (auto simp: less_Suc_eq_0_disj)

lemma in_concat_update:
  assumes "i < length xss"
  shows "x \<in> set (concat (xss[i := ys])) \<longleftrightarrow>
     x \<in> set ys \<or> (\<exists>j < length xss. j \<noteq> i \<and> x \<in> set (xss ! j))"
proof -
  have "x \<in> set (concat (xss[i := ys])) \<longleftrightarrow>
      (\<exists>j < length xss. x \<in> set (if i = j then ys else xss ! j))"
    unfolding in_concat_nth length_list_update using assms
    by (intro ex_cong1 conj_cong refl) (simp add: nth_list_update)
  moreover have "x \<in> set (if i = j then ys else xss ! j) \<longleftrightarrow>
      i = j \<and> x \<in> set ys \<or> j \<noteq> i \<and> x \<in> set (xss ! j)" for j
    by auto
  ultimately show ?thesis using assms by blast
qed

end
