(* ===== verification/Siphash.thy ===== *)
theory Siphash
  imports CPrelude
begin

text \<open>
  The keyed hash of \<open>utils/basic_struct/siphash.c\<close>: SipHash with one compression and two
  finalisation rounds on \<open>uint64_t\<close> variables, and its case-insensitive variant. A buffer is
  the list of its bytes; both variants read the same \<open>inlen\<close> bytes and the 16 key bytes.
\<close>

section \<open>Words from bytes\<close>

definition ROTL :: "u64 \<Rightarrow> nat \<Rightarrow> u64" where
  "ROTL x b = push_bit b x OR drop_bit (64 - b) x"

definition siptlw :: "u8 \<Rightarrow> u8" where
  "siptlw c = (if 65 \<le> c \<and> c \<le> 90 then c + (97 - 65) else c)"

definition U8TO64_LE :: "u8 list \<Rightarrow> u64" where
  "U8TO64_LE p = ucast (p ! 0) OR push_bit 8 (ucast (p ! 1)) OR push_bit 16 (ucast (p ! 2))
     OR push_bit 24 (ucast (p ! 3)) OR push_bit 32 (ucast (p ! 4))
     OR push_bit 40 (ucast (p ! 5)) OR push_bit 48 (ucast (p ! 6)) OR push_bit 56 (ucast (p ! 7))"

definition U8TO64_LE_NOCASE :: "u8 list \<Rightarrow> u64" where
  "U8TO64_LE_NOCASE p =
     ucast (siptlw (p ! 0)) OR push_bit 8 (ucast (siptlw (p ! 1)))
     OR push_bit 16 (ucast (siptlw (p ! 2))) OR push_bit 24 (ucast (siptlw (p ! 3)))
     OR push_bit 32 (ucast (siptlw (p ! 4))) OR push_bit 40 (ucast (siptlw (p ! 5)))
     OR push_bit 48 (ucast (siptlw (p ! 6))) OR push_bit 56 (ucast (siptlw (p ! 7)))"

definition U32TO8_LE :: "u32 \<Rightarrow> u8 list" where
  "U32TO8_LE v = [ucast v, ucast (drop_bit 8 v), ucast (drop_bit 16 v), ucast (drop_bit 24 v)]"

definition U64TO8_LE :: "u64 \<Rightarrow> u8 list" where
  "U64TO8_LE v = U32TO8_LE (ucast v) @ U32TO8_LE (ucast (drop_bit 32 v))"

section \<open>Rounds\<close>

type_synonym sip = "u64 \<times> u64 \<times> u64 \<times> u64"

definition SIPROUND :: "sip \<Rightarrow> sip" where
  "SIPROUND v =
     (let (v0, v1, v2, v3) = v;
          v0 = v0 + v1; v1 = ROTL v1 13; v1 = v1 XOR v0; v0 = ROTL v0 32;
          v2 = v2 + v3; v3 = ROTL v3 16; v3 = v3 XOR v2;
          v0 = v0 + v3; v3 = ROTL v3 21; v3 = v3 XOR v0;
          v2 = v2 + v1; v1 = ROTL v1 17; v1 = v1 XOR v2; v2 = ROTL v2 32
      in (v0, v1, v2, v3))"

definition sip_start :: "u8 list \<Rightarrow> sip" where
  "sip_start k =
     (let k0 = U8TO64_LE k; k1 = U8TO64_LE (drop 8 k)
      in (0x736f6d6570736575 XOR k0, 0x646f72616e646f6d XOR k1,
          0x6c7967656e657261 XOR k0, 0x7465646279746573 XOR k1))"

definition sip_absorb :: "u64 \<Rightarrow> sip \<Rightarrow> sip" where
  "sip_absorb m v =
     (case v of (v0, v1, v2, v3) \<Rightarrow>
       case SIPROUND (v0, v1, v2, v3 XOR m) of (v0, v1, v2, v3) \<Rightarrow> (v0 XOR m, v1, v2, v3))"

text \<open>The loop over the full 8-byte blocks; \<open>load\<close> is the macro that reads a block.\<close>

fun sip_blocks :: "(u8 list \<Rightarrow> u64) \<Rightarrow> u8 list \<Rightarrow> sip \<Rightarrow> sip \<times> u8 list" where
  "sip_blocks load inp v =
     (if length inp < 8 then (v, inp)
      else sip_blocks load (drop 8 inp) (sip_absorb (load inp) v))"

declare sip_blocks.simps [simp del]

text \<open>The fall-through \<open>switch (left)\<close> over the remaining bytes, \<open>case 7\<close> first.\<close>

definition sip_tail :: "u64 \<Rightarrow> u8 list \<Rightarrow> u64" where
  "sip_tail b inp =
     (let left = length inp;
          b = (if left \<ge> 7 then b OR push_bit 48 (ucast (inp ! 6)) else b);
          b = (if left \<ge> 6 then b OR push_bit 40 (ucast (inp ! 5)) else b);
          b = (if left \<ge> 5 then b OR push_bit 32 (ucast (inp ! 4)) else b);
          b = (if left \<ge> 4 then b OR push_bit 24 (ucast (inp ! 3)) else b);
          b = (if left \<ge> 3 then b OR push_bit 16 (ucast (inp ! 2)) else b);
          b = (if left \<ge> 2 then b OR push_bit 8 (ucast (inp ! 1)) else b)
      in (if left \<ge> 1 then b OR ucast (inp ! 0) else b))"

definition sip_tail_nocase :: "u64 \<Rightarrow> u8 list \<Rightarrow> u64" where
  "sip_tail_nocase b inp =
     (let left = length inp;
          b = (if left \<ge> 7 then b OR push_bit 48 (ucast (siptlw (inp ! 6))) else b);
          b = (if left \<ge> 6 then b OR push_bit 40 (ucast (siptlw (inp ! 5))) else b);
          b = (if left \<ge> 5 then b OR push_bit 32 (ucast (siptlw (inp ! 4))) else b);
          b = (if left \<ge> 4 then b OR push_bit 24 (ucast (siptlw (inp ! 3))) else b);
          b = (if left \<ge> 3 then b OR push_bit 16 (ucast (siptlw (inp ! 2))) else b);
          b = (if left \<ge> 2 then b OR push_bit 8 (ucast (siptlw (inp ! 1))) else b)
      in (if left \<ge> 1 then b OR ucast (siptlw (inp ! 0)) else b))"

definition sip_finish :: "u64 \<Rightarrow> sip \<Rightarrow> u64" where
  "sip_finish b v =
     (case sip_absorb b v of (v0, v1, v2, v3) \<Rightarrow>
       case SIPROUND (SIPROUND (v0, v1, v2 XOR 0xff, v3)) of (v0, v1, v2, v3) \<Rightarrow>
         v0 XOR v1 XOR v2 XOR v3)"

section \<open>The two hashes\<close>

definition siphash :: "u8 list \<Rightarrow> u8 list \<Rightarrow> u64" where
  "siphash inp k =
     (let b = push_bit 56 (of_nat (length inp)) :: u64;
          (v, rest) = sip_blocks U8TO64_LE inp (sip_start k)
      in sip_finish (sip_tail b rest) v)"

definition siphash_nocase :: "u8 list \<Rightarrow> u8 list \<Rightarrow> u64" where
  "siphash_nocase inp k =
     (let b = push_bit 56 (of_nat (length inp)) :: u64;
          (v, rest) = sip_blocks U8TO64_LE_NOCASE inp (sip_start k)
      in sip_finish (sip_tail_nocase b rest) v)"

section \<open>Lemmas\<close>

lemma nth_map_siptlw: "i < length p \<Longrightarrow> siptlw (p ! i) = map siptlw p ! i"
  by simp

lemma U8TO64_LE_NOCASE_map:
  assumes "8 \<le> length p"
  shows "U8TO64_LE_NOCASE p = U8TO64_LE (map siptlw p)"
proof -
  have "siptlw (p ! 0) = map siptlw p ! 0" using assms by (intro nth_map_siptlw) auto
  then show ?thesis using assms by (simp add: U8TO64_LE_NOCASE_def U8TO64_LE_def)
qed

lemma sip_tail_nocase_map: "sip_tail_nocase b p = sip_tail b (map siptlw p)"
proof (cases p)
  case (Cons c cs)
  then have "siptlw (p ! 0) = map siptlw p ! 0" by simp
  then show ?thesis by (simp add: sip_tail_nocase_def sip_tail_def Let_def)
qed (simp add: sip_tail_nocase_def sip_tail_def)

lemma sip_blocks_map:
  "sip_blocks U8TO64_LE (map siptlw inp) v =
     apsnd (map siptlw) (sip_blocks U8TO64_LE_NOCASE inp v)"
proof (induction U8TO64_LE_NOCASE inp v rule: sip_blocks.induct)
  case (1 inp v)
  then show ?case
    by (cases "length inp < 8")
      (simp_all add: sip_blocks.simps [of _ inp] sip_blocks.simps [of _ "map siptlw inp"]
        U8TO64_LE_NOCASE_map drop_map)
qed

lemma sip_blocks_rest: "length (snd (sip_blocks load inp v)) < 8"
proof (induction load inp v rule: sip_blocks.induct)
  case (1 load inp v)
  then show ?case by (subst sip_blocks.simps) auto
qed

section \<open>Properties\<close>

text \<open>
  The case-insensitive hash of a key is the plain hash of the key in lower case, for every
  key length, though the two functions load blocks and tails by different macros; so keys that
  differ in case only get the same hash.
\<close>

theorem siphash_nocase_lower:
  "siphash_nocase inp k = siphash (map siptlw inp) k"
  by (simp add: siphash_nocase_def siphash_def sip_blocks_map sip_tail_nocase_map
      case_prod_beta Let_def)

end
