(* ===== verification/Dict.thy ===== *)
theory Dict
  imports Siphash "HOL-Library.Multiset"
begin

text \<open>
  The hash table of \<open>utils/basic_struct/dict.c\<close>: two bucket arrays, incremental rehashing,
  insertion, lookup, replacement, deletion, clearing, iteration and scanning. An entry has the
  address \<open>malloc\<close> gave it; a chain of \<open>next\<close> pointers is the list of its entries; a
  \<open>NULL\<close> bucket is the empty list and a \<open>NULL\<close> table is \<open>None\<close>. The fields \<open>fresh\<close> (the next
  address), \<open>freed_keys\<close> and \<open>freed_vals\<close> (what the destructors were called on) belong to the
  allocator and not to the C struct. Allocation is assumed to succeed, as the code assumes.
\<close>

section \<open>Types\<close>

record ('k, 'v) dictEntry =
  e_addr :: nat
  e_key :: 'k
  e_val :: 'v

text \<open>The callbacks; \<open>keyDestructor\<close> and \<open>valDestructor\<close> say whether the pointer is set (all of
  the program's are \<open>freeCallback\<close>).\<close>

record ('k, 'v) dictType =
  hashFunction :: "'k \<Rightarrow> u64"
  keyDup :: "('k \<Rightarrow> 'k) option"
  valDup :: "('v \<Rightarrow> 'v) option"
  keyCompare :: "('k \<Rightarrow> 'k \<Rightarrow> bool) option"
  keyDestructor :: bool
  valDestructor :: bool

record ('k, 'v) dictht =
  ht_table :: "('k, 'v) dictEntry list list option"
  ht_size :: nat
  ht_sizemask :: nat
  ht_used :: nat

record ('k, 'v) dict =
  d_type :: "('k, 'v) dictType"
  ht0 :: "('k, 'v) dictht"
  ht1 :: "('k, 'v) dictht"
  rehashidx :: int
  iterators :: nat
  fresh :: nat
  freed_keys :: "'k list"
  freed_vals :: "'v list"

datatype dict_status = DICT_OK | DICT_ERR

definition DICT_HT_INITIAL_SIZE :: nat where "DICT_HT_INITIAL_SIZE = 4"
definition dict_force_resize_ratio :: nat where "dict_force_resize_ratio = 5"
definition LONG_MAX :: nat where "LONG_MAX = 2 ^ 63 - 1"

definition dictIsRehashing :: "('k, 'v) dict \<Rightarrow> bool" where
  "dictIsRehashing d \<longleftrightarrow> rehashidx d \<noteq> -1"

definition dictSize :: "('k, 'v) dict \<Rightarrow> nat" where
  "dictSize d = ht_used (ht0 d) + ht_used (ht1 d)"

definition dictSlots :: "('k, 'v) dict \<Rightarrow> nat" where
  "dictSlots d = ht_size (ht0 d) + ht_size (ht1 d)"

definition dictCompareKeys :: "('k, 'v) dict \<Rightarrow> 'k \<Rightarrow> 'k \<Rightarrow> bool" where
  "dictCompareKeys d k1 k2 = (case keyCompare (d_type d) of Some cmp \<Rightarrow> cmp k1 k2 | None \<Rightarrow> k1 = k2)"

definition dictHashKey :: "('k, 'v) dict \<Rightarrow> 'k \<Rightarrow> u64" where
  "dictHashKey d key = hashFunction (d_type d) key"

definition dictSetKey :: "('k, 'v) dict \<Rightarrow> 'k \<Rightarrow> 'k" where
  "dictSetKey d k = (case keyDup (d_type d) of Some dup \<Rightarrow> dup k | None \<Rightarrow> k)"

definition dictSetVal :: "('k, 'v) dict \<Rightarrow> 'v \<Rightarrow> 'v" where
  "dictSetVal d v = (case valDup (d_type d) of Some dup \<Rightarrow> dup v | None \<Rightarrow> v)"

definition dictFreeKey :: "('k, 'v) dictEntry \<Rightarrow> ('k, 'v) dict \<Rightarrow> ('k, 'v) dict" where
  "dictFreeKey e d = (if keyDestructor (d_type d) then d\<lparr>freed_keys := e_key e # freed_keys d\<rparr> else d)"

definition dictFreeVal :: "('k, 'v) dictEntry \<Rightarrow> ('k, 'v) dict \<Rightarrow> ('k, 'v) dict" where
  "dictFreeVal e d = (if valDestructor (d_type d) then d\<lparr>freed_vals := e_val e # freed_vals d\<rparr> else d)"

text \<open>\<open>d->ht[t]\<close> for the table numbers 0 and 1.\<close>

definition ht :: "('k, 'v) dict \<Rightarrow> nat \<Rightarrow> ('k, 'v) dictht" where
  "ht d t = (if t = 0 then ht0 d else ht1 d)"

definition set_ht :: "nat \<Rightarrow> ('k, 'v) dictht \<Rightarrow> ('k, 'v) dict \<Rightarrow> ('k, 'v) dict" where
  "set_ht t h d = (if t = 0 then d\<lparr>ht0 := h\<rparr> else d\<lparr>ht1 := h\<rparr>)"

section \<open>Creation\<close>

definition dictReset :: "('k, 'v) dictht" where
  "dictReset = \<lparr>ht_table = None, ht_size = 0, ht_sizemask = 0, ht_used = 0\<rparr>"

definition dictCreate :: "('k, 'v) dictType \<Rightarrow> ('k, 'v) dict" where
  "dictCreate ty = \<lparr>d_type = ty, ht0 = dictReset, ht1 = dictReset, rehashidx = -1,
     iterators = 0, fresh = 0, freed_keys = [], freed_vals = []\<rparr>"

text \<open>The callbacks of the program's own dictionary types; a C string is its bytes.\<close>

definition hashCallback :: "u8 list \<Rightarrow> u8 list \<Rightarrow> u64" where
  "hashCallback dict_hash_function_seed key = siphash key dict_hash_function_seed"

definition compareCallback :: "u8 list \<Rightarrow> u8 list \<Rightarrow> bool" where
  "compareCallback key1 key2 =
     (let l1 = length key1; l2 = length key2
      in if l1 \<noteq> l2 then False else take l1 key1 = take l1 key2)"

definition BenchmarkDictType :: "u8 list \<Rightarrow> (u8 list, 'v) dictType" where
  "BenchmarkDictType seed = \<lparr>hashFunction = hashCallback seed, keyDup = None, valDup = None,
     keyCompare = Some compareCallback, keyDestructor = True, valDestructor = True\<rparr>"

definition BenchmarkDictTypeNoFreeValue :: "u8 list \<Rightarrow> (u8 list, 'v) dictType" where
  "BenchmarkDictTypeNoFreeValue seed = (BenchmarkDictType seed)\<lparr>valDestructor := False\<rparr>"

definition dictCreateEx :: "u8 list \<Rightarrow> (u8 list, 'v) dict" where
  "dictCreateEx seed = dictCreate (BenchmarkDictType seed)"

definition dictCreateNoFreeValue :: "u8 list \<Rightarrow> (u8 list, 'v) dict" where
  "dictCreateNoFreeValue seed = dictCreate (BenchmarkDictTypeNoFreeValue seed)"

section \<open>Growing\<close>

text \<open>The loop of \<open>_dictNextPower\<close>; it starts at 4, so the test for 0 only makes the recursion
  total.\<close>

function nextPower_loop :: "nat \<Rightarrow> nat \<Rightarrow> nat" where
  "nextPower_loop i sz = (if i \<ge> sz \<or> i = 0 then i else nextPower_loop (i * 2) sz)"
  by auto
termination by (relation "measure (\<lambda>(i, sz). sz - i)") auto

declare nextPower_loop.simps [simp del]

definition dictNextPower :: "nat \<Rightarrow> nat" where
  "dictNextPower sz =
     (if sz \<ge> LONG_MAX then LONG_MAX else nextPower_loop DICT_HT_INITIAL_SIZE sz)"

definition dictExpand :: "('k, 'v) dict \<Rightarrow> nat \<Rightarrow> ('k, 'v) dict \<times> dict_status" where
  "dictExpand d sz =
     (let realsize = dictNextPower sz
      in if dictIsRehashing d \<or> ht_used (ht0 d) > sz then (d, DICT_ERR)
         else if realsize = ht_size (ht0 d) then (d, DICT_ERR)
         else
           let n = \<lparr>ht_table = Some (replicate realsize []), ht_size = realsize,
                    ht_sizemask = realsize - 1, ht_used = 0\<rparr>
           in if ht_table (ht0 d) = None then (d\<lparr>ht0 := n\<rparr>, DICT_OK)
              else (d\<lparr>ht1 := n, rehashidx := 0\<rparr>, DICT_OK))"

text \<open>\<open>cr\<close> is the static flag \<open>dict_can_resize\<close>.\<close>

definition dictResize :: "bool \<Rightarrow> ('k, 'v) dict \<Rightarrow> ('k, 'v) dict \<times> dict_status" where
  "dictResize cr d =
     (if \<not> cr \<or> dictIsRehashing d then (d, DICT_ERR)
      else let minimal = ht_used (ht0 d);
               minimal = (if minimal < DICT_HT_INITIAL_SIZE then DICT_HT_INITIAL_SIZE else minimal)
           in dictExpand d minimal)"

definition dictExpandIfNeeded :: "bool \<Rightarrow> ('k, 'v) dict \<Rightarrow> ('k, 'v) dict \<times> dict_status" where
  "dictExpandIfNeeded cr d =
     (if dictIsRehashing d then (d, DICT_OK)
      else if ht_size (ht0 d) = 0 then dictExpand d DICT_HT_INITIAL_SIZE
      else if ht_used (ht0 d) \<ge> ht_size (ht0 d)
          \<and> (cr \<or> ht_used (ht0 d) div ht_size (ht0 d) > dict_force_resize_ratio)
        then dictExpand d (ht_used (ht0 d) * 2)
      else (d, DICT_OK))"

section \<open>Incremental rehashing\<close>

text \<open>Move the entries of one bucket of \<open>ht[0]\<close> to the heads of their buckets of \<open>ht[1]\<close>.
  The 64-bit hash is masked first and then truncated to \<open>unsigned int\<close>.\<close>

fun rehash_bucket :: "('k, 'v) dict \<Rightarrow> ('k, 'v) dictEntry list \<Rightarrow> ('k, 'v) dict option" where
  "rehash_bucket d [] = Some d"
| "rehash_bucket d (de # nextde) =
     do { tb \<leftarrow> ht_table (ht1 d);
          let h = unat (ucast (dictHashKey d (e_key de) AND of_nat (ht_sizemask (ht1 d))) :: u32);
          ch \<leftarrow> rd tb h;
          rehash_bucket
            (d\<lparr>ht1 := (ht1 d)\<lparr>ht_table := Some (tb[h := de # ch]), ht_used := ht_used (ht1 d) + 1\<rparr>,
               ht0 := (ht0 d)\<lparr>ht_used := ul_dec (ht_used (ht0 d))\<rparr>\<rparr>) nextde }"

text \<open>Skip the empty buckets: \<open>Inl\<close> when the visits are used up (\<open>return 1\<close>), \<open>Inr\<close> at a
  bucket with entries, with the visits left. The counter is positive on every call.\<close>

fun rehash_skip :: "('k, 'v) dictEntry list list \<Rightarrow> nat \<Rightarrow> nat \<Rightarrow> (nat + nat \<times> nat) option" where
  "rehash_skip tb idx 0 = None"
| "rehash_skip tb idx (Suc empty_visits) =
     do { b \<leftarrow> rd tb idx;
          if b \<noteq> [] then Some (Inr (idx, Suc empty_visits))
          else if empty_visits = 0 then Some (Inl (idx + 1))
          else rehash_skip tb (idx + 1) empty_visits }"

definition rehash_finish :: "('k, 'v) dict \<Rightarrow> ('k, 'v) dict \<times> bool" where
  "rehash_finish d =
     (if ht_used (ht0 d) = 0 then (d\<lparr>ht0 := ht1 d, ht1 := dictReset, rehashidx := -1\<rparr>, False)
      else (d, True))"

fun rehash_loop :: "('k, 'v) dict \<Rightarrow> nat \<Rightarrow> nat \<Rightarrow> (('k, 'v) dict \<times> bool) option" where
  "rehash_loop d 0 empty_visits = Some (rehash_finish d)"
| "rehash_loop d (Suc n) empty_visits =
     (if ht_used (ht0 d) = 0 then Some (rehash_finish d)
      else do {
        guard (rehashidx d \<ge> 0 \<and> ht_size (ht0 d) > nat (rehashidx d));
        tb \<leftarrow> ht_table (ht0 d);
        r \<leftarrow> rehash_skip tb (nat (rehashidx d)) empty_visits;
        case r of
          Inl idx \<Rightarrow> Some (d\<lparr>rehashidx := int idx\<rparr>, True)
        | Inr (idx, empty_visits) \<Rightarrow> do {
            d \<leftarrow> rehash_bucket (d\<lparr>rehashidx := int idx\<rparr>) (tb ! idx);
            rehash_loop (d\<lparr>ht0 := (ht0 d)\<lparr>ht_table := Some (tb[idx := []])\<rparr>,
                           rehashidx := int idx + 1\<rparr>) n empty_visits } })"

text \<open>The result is \<open>True\<close> when there are keys left to move.\<close>

definition dictRehash :: "('k, 'v) dict \<Rightarrow> nat \<Rightarrow> (('k, 'v) dict \<times> bool) option" where
  "dictRehash d n =
     (if \<not> dictIsRehashing d then Some (d, False) else rehash_loop d n (n * 10))"

definition dictRehashStep :: "('k, 'v) dict \<Rightarrow> ('k, 'v) dict option" where
  "dictRehashStep d = (if iterators d = 0 then map_option fst (dictRehash d 1) else Some d)"

text \<open>\<open>if (dictIsRehashing(d)) _dictRehashStep(d)\<close>, the first statement of most operations.\<close>

definition rehash_once :: "('k, 'v) dict \<Rightarrow> ('k, 'v) dict option" where
  "rehash_once d = (if dictIsRehashing d then dictRehashStep d else Some d)"

section \<open>Searching\<close>

definition key_match :: "('k, 'v) dict \<Rightarrow> 'k \<Rightarrow> ('k, 'v) dictEntry \<Rightarrow> bool" where
  "key_match d key he \<longleftrightarrow> key = e_key he \<or> dictCompareKeys d key (e_key he)"

text \<open>The bucket of table \<open>t\<close> that a 32-bit hash selects: its index and its chain.\<close>

definition bucket :: "('k, 'v) dict \<Rightarrow> nat \<Rightarrow> u32 \<Rightarrow> (nat \<times> ('k, 'v) dictEntry list) option" where
  "bucket d t h =
     do { tb \<leftarrow> ht_table (ht d t);
          let idx = unat h AND ht_sizemask (ht d t);
          ch \<leftarrow> rd tb idx;
          Some (idx, ch) }"

definition dictFind :: "('k, 'v) dict \<Rightarrow> 'k \<Rightarrow> (('k, 'v) dict \<times> ('k, 'v) dictEntry option) option" where
  "dictFind d key =
     (if ht_used (ht0 d) + ht_used (ht1 d) = 0 then Some (d, None)
      else do {
        d \<leftarrow> rehash_once d;
        let h = (ucast (dictHashKey d key) :: u32);
        (idx, ch) \<leftarrow> bucket d 0 h;
        case find (key_match d key) ch of
          Some he \<Rightarrow> Some (d, Some he)
        | None \<Rightarrow>
            if \<not> dictIsRehashing d then Some (d, None)
            else do {
              (idx, ch) \<leftarrow> bucket d 1 h;
              Some (d, find (key_match d key) ch) } })"

text \<open>\<open>NULL\<close> is the option \<open>None\<close> of the value returned.\<close>

definition dictFetchValue :: "('k, 'v) dict \<Rightarrow> 'k \<Rightarrow> (('k, 'v) dict \<times> 'v option) option" where
  "dictFetchValue d key =
     do { (d, he) \<leftarrow> dictFind d key; Some (d, map_option e_val he) }"

text \<open>The result is the index, or \<open>Inl\<close> the entry that has the key already (\<open>existing\<close>, null
  when the expansion failed) for \<open>-1\<close>. An index is stored into an \<open>int\<close>.\<close>

definition dictKeyIndex ::
  "bool \<Rightarrow> ('k, 'v) dict \<Rightarrow> 'k \<Rightarrow> u32 \<Rightarrow> (('k, 'v) dict \<times> (('k, 'v) dictEntry option + nat)) option"
where
  "dictKeyIndex cr d key hash =
     (case dictExpandIfNeeded cr d of
        (d, DICT_ERR) \<Rightarrow> Some (d, Inl None)
      | (d, DICT_OK) \<Rightarrow> do {
          (idx, ch) \<leftarrow> bucket d 0 hash;
          case find (key_match d key) ch of
            Some he \<Rightarrow> Some (d, Inl (Some he))
          | None \<Rightarrow>
              if \<not> dictIsRehashing d then Some (d, Inr idx)
              else do {
                (idx, ch) \<leftarrow> bucket d 1 hash;
                case find (key_match d key) ch of
                  Some he \<Rightarrow> Some (d, Inl (Some he))
                | None \<Rightarrow> Some (d, Inr idx) } })"

section \<open>Adding and replacing\<close>

text \<open>\<open>Inl existing\<close> stands for the result \<open>NULL\<close>, \<open>Inr\<close> has the address of the new entry, whose
  value is whatever \<open>malloc\<close> returned (\<open>junk\<close>).\<close>

definition dictAddRaw ::
  "bool \<Rightarrow> 'v \<Rightarrow> ('k, 'v) dict \<Rightarrow> 'k \<Rightarrow> (('k, 'v) dict \<times> (('k, 'v) dictEntry option + nat)) option"
where
  "dictAddRaw cr junk d key =
     do { d \<leftarrow> rehash_once d;
          (d, r) \<leftarrow> dictKeyIndex cr d key (ucast (dictHashKey d key));
          case r of
            Inl existing \<Rightarrow> Some (d, Inl existing)
          | Inr index \<Rightarrow> do {
              guard (index < 2 ^ 31);
              let t = (if dictIsRehashing d then 1 else 0);
              tb \<leftarrow> ht_table (ht d t);
              ch \<leftarrow> rd tb index;
              let entry = \<lparr>e_addr = fresh d, e_key = dictSetKey d key, e_val = junk\<rparr>;
              Some ((set_ht t ((ht d t)\<lparr>ht_table := Some (tb[index := entry # ch]),
                                       ht_used := ht_used (ht d t) + 1\<rparr>) d)\<lparr>fresh := fresh d + 1\<rparr>,
                    Inr (fresh d)) } }"

text \<open>Writing the value field of the entry at an address.\<close>

definition set_entry_val :: "nat \<Rightarrow> 'v \<Rightarrow> ('k, 'v) dictEntry \<Rightarrow> ('k, 'v) dictEntry" where
  "set_entry_val a v e = (if e_addr e = a then e\<lparr>e_val := v\<rparr> else e)"

definition set_ht_val :: "nat \<Rightarrow> 'v \<Rightarrow> ('k, 'v) dictht \<Rightarrow> ('k, 'v) dictht" where
  "set_ht_val a v h = h\<lparr>ht_table := map_option (map (map (set_entry_val a v))) (ht_table h)\<rparr>"

definition set_val_at :: "nat \<Rightarrow> 'v \<Rightarrow> ('k, 'v) dict \<Rightarrow> ('k, 'v) dict" where
  "set_val_at a v d = d\<lparr>ht0 := set_ht_val a v (ht0 d), ht1 := set_ht_val a v (ht1 d)\<rparr>"

definition dictAdd ::
  "bool \<Rightarrow> 'v \<Rightarrow> ('k, 'v) dict \<Rightarrow> 'k \<Rightarrow> 'v \<Rightarrow> (('k, 'v) dict \<times> dict_status) option"
where
  "dictAdd cr junk d key val =
     do { (d, entry) \<leftarrow> dictAddRaw cr junk d key;
          case entry of
            Inl _ \<Rightarrow> Some (d, DICT_ERR)
          | Inr a \<Rightarrow> Some (set_val_at a (dictSetVal d val) d, DICT_OK) }"

text \<open>\<open>True\<close> is the result 1, a new key; a null \<open>existing\<close> is dereferenced.\<close>

definition dictReplace ::
  "bool \<Rightarrow> 'v \<Rightarrow> ('k, 'v) dict \<Rightarrow> 'k \<Rightarrow> 'v \<Rightarrow> (('k, 'v) dict \<times> bool) option"
where
  "dictReplace cr junk d key val =
     do { (d, entry) \<leftarrow> dictAddRaw cr junk d key;
          case entry of
            Inr a \<Rightarrow> Some (set_val_at a (dictSetVal d val) d, True)
          | Inl existing \<Rightarrow> do {
              auxentry \<leftarrow> existing;
              Some (dictFreeVal auxentry (set_val_at (e_addr auxentry) (dictSetVal d val) d), False) } }"

definition dictAddOrFind ::
  "bool \<Rightarrow> 'v \<Rightarrow> ('k, 'v) dict \<Rightarrow> 'k \<Rightarrow> (('k, 'v) dict \<times> nat option) option"
where
  "dictAddOrFind cr junk d key =
     do { (d, entry) \<leftarrow> dictAddRaw cr junk d key;
          case entry of
            Inr a \<Rightarrow> Some (d, Some a)
          | Inl existing \<Rightarrow> Some (d, map_option e_addr existing) }"

section \<open>Deleting\<close>

text \<open>Unlink the first match of a chain.\<close>

fun unlink :: "(('k, 'v) dictEntry \<Rightarrow> bool) \<Rightarrow> ('k, 'v) dictEntry list
    \<Rightarrow> (('k, 'v) dictEntry \<times> ('k, 'v) dictEntry list) option" where
  "unlink m [] = None"
| "unlink m (he # rest) =
     (if m he then Some (he, rest)
      else map_option (\<lambda>(x, ch). (x, he # ch)) (unlink m rest))"

definition delete_found ::
  "('k, 'v) dict \<Rightarrow> bool \<Rightarrow> nat \<Rightarrow> nat \<Rightarrow> ('k, 'v) dictEntry \<Rightarrow> ('k, 'v) dictEntry list \<Rightarrow> ('k, 'v) dict"
where
  "delete_found d nofree t idx he ch =
     (let d = set_ht t ((ht d t)\<lparr>ht_table := map_option (\<lambda>tb. tb[idx := ch]) (ht_table (ht d t))\<rparr>) d;
          d = (if \<not> nofree then dictFreeVal he (dictFreeKey he d) else d)
      in set_ht t ((ht d t)\<lparr>ht_used := ul_dec (ht_used (ht d t))\<rparr>) d)"

definition dictGenericDelete ::
  "('k, 'v) dict \<Rightarrow> 'k \<Rightarrow> bool \<Rightarrow> (('k, 'v) dict \<times> ('k, 'v) dictEntry option) option"
where
  "dictGenericDelete d key nofree =
     (if ht_used (ht0 d) = 0 \<and> ht_used (ht1 d) = 0 then Some (d, None)
      else do {
        d \<leftarrow> rehash_once d;
        let h = (ucast (dictHashKey d key) :: u32);
        (idx, ch) \<leftarrow> bucket d 0 h;
        case unlink (key_match d key) ch of
          Some (he, ch) \<Rightarrow> Some (delete_found d nofree 0 idx he ch, Some he)
        | None \<Rightarrow>
            if \<not> dictIsRehashing d then Some (d, None)
            else do {
              (idx, ch) \<leftarrow> bucket d 1 h;
              case unlink (key_match d key) ch of
                Some (he, ch) \<Rightarrow> Some (delete_found d nofree 1 idx he ch, Some he)
              | None \<Rightarrow> Some (d, None) } })"

definition dictDelete :: "('k, 'v) dict \<Rightarrow> 'k \<Rightarrow> (('k, 'v) dict \<times> dict_status) option" where
  "dictDelete d key =
     do { (d, he) \<leftarrow> dictGenericDelete d key False;
          Some (d, if he \<noteq> None then DICT_OK else DICT_ERR) }"

definition dictUnlink :: "('k, 'v) dict \<Rightarrow> 'k \<Rightarrow> (('k, 'v) dict \<times> ('k, 'v) dictEntry option) option" where
  "dictUnlink d key = dictGenericDelete d key True"

definition dictFreeUnlinkedEntry :: "('k, 'v) dict \<Rightarrow> ('k, 'v) dictEntry option \<Rightarrow> ('k, 'v) dict" where
  "dictFreeUnlinkedEntry d he =
     (case he of None \<Rightarrow> d | Some e \<Rightarrow> dictFreeVal e (dictFreeKey e d))"

section \<open>Clearing\<close>

definition free_entry :: "('k, 'v) dictEntry \<Rightarrow> ('k, 'v) dict \<Rightarrow> ('k, 'v) dict" where
  "free_entry e d = dictFreeVal e (dictFreeKey e d)"

text \<open>The loop over the buckets ends as soon as \<open>used\<close> is 0; the result has the dictionary
  with its destructor calls made and the \<open>used\<close> left.\<close>

fun clear_loop :: "('k, 'v) dict \<Rightarrow> ('k, 'v) dictEntry list list \<Rightarrow> nat \<Rightarrow> ('k, 'v) dict \<times> nat" where
  "clear_loop d [] used = (d, used)"
| "clear_loop d (ch # chs) used =
     (if used = 0 then (d, used)
      else clear_loop (fold free_entry ch d) chs (((ul_dec ^^ length ch)) used))"

definition dictClear :: "('k, 'v) dict \<Rightarrow> nat \<Rightarrow> ('k, 'v) dict" where
  "dictClear d t =
     (let d = (case ht_table (ht d t) of
                 None \<Rightarrow> d
               | Some tb \<Rightarrow> fst (clear_loop d (take (ht_size (ht d t)) tb) (ht_used (ht d t))))
      in set_ht t dictReset d)"

text \<open>What is left after \<open>dictRelease\<close> is the allocator's log.\<close>

definition dictRelease :: "('k, 'v) dict \<Rightarrow> 'k list \<times> 'v list" where
  "dictRelease d = (let d = dictClear (dictClear d 0) 1 in (freed_keys d, freed_vals d))"

definition dictEmpty :: "('k, 'v) dict \<Rightarrow> ('k, 'v) dict" where
  "dictEmpty d = (dictClear (dictClear d 0) 1)\<lparr>rehashidx := -1, iterators := 0\<rparr>"

definition dictGetHash :: "('k, 'v) dict \<Rightarrow> 'k \<Rightarrow> u32" where
  "dictGetHash d key = ucast (dictHashKey d key)"

text \<open>The entry whose key pointer is \<open>oldptr\<close>, without comparing keys.\<close>

definition dictFindEntryRefByPtrAndHash ::
  "('k, 'v) dict \<Rightarrow> 'k \<Rightarrow> u32 \<Rightarrow> ('k, 'v) dictEntry option option"
where
  "dictFindEntryRefByPtrAndHash d oldptr hash =
     (if ht_used (ht0 d) + ht_used (ht1 d) = 0 then Some None
      else do {
        (idx, ch) \<leftarrow> bucket d 0 hash;
        case find (\<lambda>he. oldptr = e_key he) ch of
          Some he \<Rightarrow> Some (Some he)
        | None \<Rightarrow>
            if \<not> dictIsRehashing d then Some None
            else do { (idx, ch) \<leftarrow> bucket d 1 hash;
                      Some (find (\<lambda>he. oldptr = e_key he) ch) } })"

end
