(* ===== verification/DictInv.thy ===== *)
theory DictInv
  imports Dict
begin

text \<open>
  The invariant of a dictionary and its preservation by growing and incremental rehashing:
  both tables have power-of-two sizes, each entry is in the bucket its hash selects, \<open>used\<close>
  counts the entries, keys and addresses are distinct, and while a rehash is in progress the
  buckets before \<open>rehashidx\<close> are empty.
\<close>

section \<open>Invariant\<close>

definition entries_ht :: "('k, 'v) dictht \<Rightarrow> ('k, 'v) dictEntry list" where
  "entries_ht h = (case ht_table h of None \<Rightarrow> [] | Some tb \<Rightarrow> concat tb)"

definition entries :: "('k, 'v) dict \<Rightarrow> ('k, 'v) dictEntry list" where
  "entries d = entries_ht (ht0 d) @ entries_ht (ht1 d)"

definition in_slot :: "('k, 'v) dictType \<Rightarrow> nat \<Rightarrow> nat \<Rightarrow> ('k, 'v) dictEntry \<Rightarrow> bool" where
  "in_slot ty n i e \<longleftrightarrow> unat (hashFunction ty (e_key e)) mod n = i"

text \<open>The sizes the tables take: powers of two from 4 to \<open>2 ^ 31\<close>.\<close>

definition pow2_size :: "nat \<Rightarrow> bool" where
  "pow2_size n \<longleftrightarrow> (\<exists>k \<in> set [2..<32]. n = 2 ^ k)"

definition ht_ok :: "('k, 'v) dictType \<Rightarrow> ('k, 'v) dictht \<Rightarrow> bool" where
  "ht_ok ty h =
     (case ht_table h of
        None \<Rightarrow> ht_size h = 0 \<and> ht_sizemask h = 0 \<and> ht_used h = 0
      | Some tb \<Rightarrow> pow2_size (ht_size h) \<and> ht_sizemask h = ht_size h - 1
          \<and> length tb = ht_size h \<and> ht_used h = length (concat tb)
          \<and> (\<forall>i < length tb. \<forall>e \<in> set (tb ! i). in_slot ty (ht_size h) i e))"

fun empty_upto :: "nat \<Rightarrow> 'e list list option \<Rightarrow> bool" where
  "empty_upto n None = False"
| "empty_upto n (Some tb) = (n \<le> length tb \<and> (\<forall>i < n. tb ! i = []))"

lemma empty_upto_iff:
  "empty_upto n t \<longleftrightarrow> (\<exists>tb. t = Some tb \<and> n \<le> length tb \<and> (\<forall>i < n. tb ! i = []))"
  by (cases t) auto

definition rehash_ok :: "('k, 'v) dict \<Rightarrow> bool" where
  "rehash_ok d =
     (if dictIsRehashing d
      then 0 \<le> rehashidx d \<and> ht_table (ht1 d) \<noteq> None
        \<and> empty_upto (nat (rehashidx d)) (ht_table (ht0 d))
      else ht1 d = dictReset)"

definition addrs_ok :: "('k, 'v) dict \<Rightarrow> bool" where
  "addrs_ok d \<longleftrightarrow> distinct (map e_addr (entries d)) \<and> (\<forall>e \<in> set (entries d). e_addr e < fresh d)"

definition dict_ok :: "('k, 'v) dict \<Rightarrow> bool" where
  "dict_ok d \<longleftrightarrow> ht_ok (d_type d) (ht0 d) \<and> ht_ok (d_type d) (ht1 d) \<and> rehash_ok d
     \<and> distinct (map e_key (entries d)) \<and> addrs_ok d"

text \<open>The callbacks the program uses: keys are compared by value and nothing is duplicated.\<close>

definition type_ok :: "('k, 'v) dictType \<Rightarrow> bool" where
  "type_ok ty \<longleftrightarrow> (\<forall>cmp. keyCompare ty = Some cmp \<longrightarrow> (\<forall>x y. cmp x y \<longleftrightarrow> x = y))
     \<and> keyDup ty = None \<and> valDup ty = None"

text \<open>What a dictionary stands for.\<close>

definition dict_map :: "('k, 'v) dict \<Rightarrow> 'k \<Rightarrow> 'v option" where
  "dict_map d = map_of (map (\<lambda>e. (e_key e, e_val e)) (entries d))"

text \<open>Two dictionaries with the same entries in perhaps other buckets.\<close>

definition same_entries :: "('k, 'v) dict \<Rightarrow> ('k, 'v) dict \<Rightarrow> bool" where
  "same_entries d d' \<longleftrightarrow> mset (entries d') = mset (entries d) \<and> d_type d' = d_type d
     \<and> iterators d' = iterators d \<and> fresh d' = fresh d
     \<and> freed_keys d' = freed_keys d \<and> freed_vals d' = freed_vals d"

lemma same_entries_refl [simp]: "same_entries d d"
  by (simp add: same_entries_def)

lemma same_entries_trans: "same_entries a b \<Longrightarrow> same_entries b c \<Longrightarrow> same_entries a c"
  by (simp add: same_entries_def)

lemma distinct_map_mset: "mset xs = mset ys \<Longrightarrow> distinct (map f xs) \<longleftrightarrow> distinct (map f ys)"
  by (metis mset_eq_imp_distinct_iff mset_map)

lemma set_entries_same: "same_entries d d' \<Longrightarrow> set (entries d') = set (entries d)"
  unfolding same_entries_def by (metis mset_eq_setD)

lemma addrs_ok_same: "same_entries d d' \<Longrightarrow> addrs_ok d' \<longleftrightarrow> addrs_ok d"
  using distinct_map_mset [of "entries d'" "entries d" e_addr] set_entries_same [of d d']
  by (auto simp: addrs_ok_def same_entries_def)

lemma keys_distinct_same:
  "same_entries d d' \<Longrightarrow> distinct (map e_key (entries d')) \<longleftrightarrow> distinct (map e_key (entries d))"
  unfolding same_entries_def by (intro distinct_map_mset) simp

lemma map_of_entries:
  "distinct (map e_key es) \<Longrightarrow>
     map_of (map (\<lambda>e. (e_key e, e_val e)) es) k = Some v \<longleftrightarrow>
     (\<exists>e \<in> set es. e_key e = k \<and> e_val e = v)"
  by (subst map_of_eq_Some_iff) (auto simp: comp_def)

lemma dict_map_Some:
  "dict_ok d \<Longrightarrow> dict_map d k = Some v \<longleftrightarrow> (\<exists>e \<in> set (entries d). e_key e = k \<and> e_val e = v)"
  by (simp add: dict_map_def map_of_entries dict_ok_def)

lemma dict_map_None: "dict_map d k = None \<longleftrightarrow> (\<forall>e \<in> set (entries d). e_key e \<noteq> k)"
  by (auto simp: dict_map_def map_of_eq_None_iff image_image)

lemma dict_map_same:
  assumes "dict_ok d" "dict_ok d'" "same_entries d d'"
  shows "dict_map d' = dict_map d"
proof (rule ext)
  fix k
  show "dict_map d' k = dict_map d k"
  proof (cases "dict_map d k")
    case None
    then have "dict_map d' k = None" by (simp add: dict_map_None set_entries_same [OF assms(3)])
    then show ?thesis using None by simp
  next
    case (Some v)
    then have "dict_map d' k = Some v"
      using assms by (simp add: dict_map_Some set_entries_same [OF assms(3)])
    then show ?thesis using Some by simp
  qed
qed

lemma dict_size_entries: "dict_ok d \<Longrightarrow> dictSize d = length (entries d)"
  by (auto simp: dictSize_def dict_ok_def ht_ok_def entries_def entries_ht_def split: option.splits)

lemma dict_ok_transfer:
  assumes "dict_ok d" "same_entries d d'" "ht_ok (d_type d) (ht0 d')" "ht_ok (d_type d) (ht1 d')"
    "rehash_ok d'"
  shows "dict_ok d'"
  using assms keys_distinct_same [OF assms(2)] addrs_ok_same [OF assms(2)]
  by (simp add: dict_ok_def) (simp add: same_entries_def)

section \<open>Buckets\<close>

lemma pow2_size_iff: "pow2_size n \<longleftrightarrow> (\<exists>k. 2 \<le> k \<and> k < 32 \<and> n = 2 ^ k)"
  unfolding pow2_size_def set_upt atLeastLessThan_iff Bex_def by blast

lemma pow2_size_pos: "pow2_size n \<Longrightarrow> 4 \<le> n"
  unfolding pow2_size_iff using power_increasing [of 2 _ "2::nat"] by fastforce

lemma pow2_size_0 [simp]: "\<not> pow2_size 0"
  using pow2_size_pos by fastforce

lemma ht_ok_Some:
  assumes "ht_ok ty h" "ht_table h = Some tb"
  obtains k where "2 \<le> k" "k < 32" "ht_size h = 2 ^ k" "ht_sizemask h = 2 ^ k - 1" "length tb = 2 ^ k"
    "ht_used h = length (concat tb)"
  using assms by (auto simp: ht_ok_def pow2_size_iff)

lemma slot_index:
  assumes "ht_ok ty h" "ht_table h = Some tb"
  shows "unat (ucast w :: u32) AND ht_sizemask h = unat (w :: u64) mod ht_size h"
    and "unat (ucast (w AND of_nat (ht_sizemask h)) :: u32) = unat w mod ht_size h"
    and "unat w mod ht_size h < length tb"
proof -
  obtain k where k: "2 \<le> k" "k < 32" "ht_size h = 2 ^ k" "ht_sizemask h = 2 ^ k - 1" "length tb = 2 ^ k"
    using ht_ok_Some [OF assms] by metis
  have dvd: "(2 ^ k :: nat) dvd 2 ^ 32" using k by (intro le_imp_power_dvd) simp
  have u32: "unat (ucast w :: u32) = unat w mod 2 ^ 32"
    by (simp add: unsigned_ucast_eq take_bit_eq_mod)
  show "unat (ucast w :: u32) AND ht_sizemask h = unat w mod ht_size h"
    by (simp only: u32 k and_pow2_minus_1 mod_mod_cancel [OF dvd])
  have "of_nat (2 ^ k - 1) = (mask k :: u64)"
    by (simp add: mask_eq_exp_minus_1 of_nat_diff)
  then have "unat (w AND of_nat (ht_sizemask h)) = unat w mod 2 ^ k"
    by (simp only: k unat_and_mask)
  moreover have "unat w mod 2 ^ k < 2 ^ 32"
    by (rule less_le_trans [of _ "2 ^ k"]) (use k in \<open>auto intro!: power_increasing simp del: power_numeral\<close>)
  ultimately show "unat (ucast (w AND of_nat (ht_sizemask h)) :: u32) = unat w mod ht_size h"
    by (simp add: unsigned_ucast_eq take_bit_eq_mod k)
  show "unat w mod ht_size h < length tb" by (simp add: k)
qed

text \<open>Replacing the chain of one bucket.\<close>

lemma ht_ok_update:
  assumes "ht_ok ty h" "ht_table h = Some tb" "i < length tb"
    and "\<forall>e \<in> set ch. in_slot ty (ht_size h) i e"
    and "n + length (tb ! i) = ht_used h + length ch"
  shows "ht_ok ty (h\<lparr>ht_table := Some (tb[i := ch]), ht_used := n\<rparr>)"
proof -
  have "n = length (concat (tb[i := ch]))"
    using assms concat_update_length [of i tb ch] by (auto simp: ht_ok_def)
  then show ?thesis
    using assms by (auto simp: ht_ok_def nth_list_update)
qed

lemma mset_concat_update:
  "i < length tb \<Longrightarrow> mset (concat (tb[i := ch])) + mset (tb ! i) = mset (concat tb) + mset ch"
  by (induction tb arbitrary: i) (auto simp: nth_Cons split: nat.splits)

lemma in_bucket_slot:
  "ht_ok ty h \<Longrightarrow> ht_table h = Some tb \<Longrightarrow> i < length tb \<Longrightarrow> e \<in> set (tb ! i) \<Longrightarrow>
    in_slot ty (ht_size h) i e"
  by (auto simp: ht_ok_def)

text \<open>An entry with the key is in the bucket that the key's hash selects.\<close>

lemma entry_in_slot:
  assumes "ht_ok ty h" "ht_table h = Some tb" "e \<in> set (entries_ht h)"
  shows "e \<in> set (tb ! (unat (hashFunction ty (e_key e)) mod ht_size h))"
  using assms in_concat_nth [of e tb] by (auto simp: entries_ht_def ht_ok_def in_slot_def)

section \<open>Growing\<close>

lemma nextPower_loop_pow2:
  assumes "n \<le> 2 ^ m" "k \<le> m"
  shows "\<exists>j. k \<le> j \<and> j \<le> m \<and> nextPower_loop (2 ^ k) n = 2 ^ j \<and> n \<le> 2 ^ j"
  using assms
proof (induction "m - k" arbitrary: k)
  case 0
  then show ?case by (intro exI [of _ k]) (simp add: nextPower_loop.simps)
next
  case (Suc x)
  show ?case
  proof (cases "n \<le> 2 ^ k")
    case True
    then show ?thesis using Suc by (intro exI [of _ k]) (simp add: nextPower_loop.simps)
  next
    case False
    have "x = m - Suc k" "Suc k \<le> m" using Suc by auto
    from Suc.hyps(1) [OF this(1) Suc.prems(1) this(2)] obtain j where
      "Suc k \<le> j" "j \<le> m" "nextPower_loop (2 ^ Suc k) n = 2 ^ j" "n \<le> 2 ^ j" by auto
    then show ?thesis using False
      by (intro exI [of _ j]) (simp add: nextPower_loop.simps [of "2 ^ k"] mult.commute)
  qed
qed

lemma dictNextPower_pow2:
  assumes "n \<le> 2 ^ 31"
  shows "\<exists>k. 2 \<le> k \<and> k < 32 \<and> dictNextPower n = 2 ^ k \<and> n \<le> 2 ^ k"
proof -
  obtain j where "2 \<le> j" "j \<le> 31" "nextPower_loop (2 ^ 2) n = 2 ^ j" "n \<le> 2 ^ j"
    using nextPower_loop_pow2 [OF assms, of 2] by auto
  then show ?thesis using assms
    by (intro exI [of _ j]) (auto simp: dictNextPower_def DICT_HT_INITIAL_SIZE_def LONG_MAX_def)
qed

lemma concat_replicate_Nil [simp]: "concat (replicate n []) = []"
  by (induction n) auto

lemma dictExpand_ok:
  assumes ok: "dict_ok d" and n: "n \<le> 2 ^ 31" and r: "dictExpand d n = (d', st)"
  shows "dict_ok d' \<and> same_entries d d'"
proof -
  obtain k where k: "2 \<le> k" "k < 32" "dictNextPower n = 2 ^ k"
    using dictNextPower_pow2 [OF n] by auto
  have new: "ht_ok (d_type d) \<lparr>ht_table = Some (replicate (2 ^ k) []), ht_size = 2 ^ k,
      ht_sizemask = 2 ^ k - 1, ht_used = 0\<rparr>"
    using k by (auto simp: ht_ok_def pow2_size_iff)
  have e: "entries_ht \<lparr>ht_table = Some (replicate (2 ^ k) []), ht_size = 2 ^ k,
      ht_sizemask = 2 ^ k - 1, ht_used = 0\<rparr> = ([] :: ('a, 'b) dictEntry list)"
    by (simp add: entries_ht_def)
  show ?thesis
  proof (cases "dictIsRehashing d \<or> ht_used (ht0 d) > n \<or> dictNextPower n = ht_size (ht0 d)")
    case True
    then have "d' = d" using r by (auto simp: dictExpand_def Let_def split: if_splits)
    then show ?thesis using ok by simp
  next
    case False
    then have h1: "ht1 d = dictReset" using ok by (simp add: dict_ok_def rehash_ok_def)
    define n' where "n' = \<lparr>ht_table = Some (replicate (2 ^ k) [] :: ('a, 'b) dictEntry list list),
      ht_size = 2 ^ k, ht_sizemask = 2 ^ k - 1, ht_used = 0\<rparr>"
    have new': "ht_ok (d_type d) n'" "entries_ht n' = []" "ht_table n' \<noteq> None"
      using new e by (simp_all add: n'_def)
    have e1: "entries_ht (ht1 d) = []" using h1 by (simp add: entries_ht_def dictReset_def)
    show ?thesis
    proof (cases "ht_table (ht0 d)")
      case None
      then have d': "d' = d\<lparr>ht0 := n'\<rparr>"
        using r False k by (auto simp: dictExpand_def n'_def Let_def)
      have "entries_ht (ht0 d) = []" using None by (simp add: entries_ht_def)
      then have same: "same_entries d d'" using new' by (simp add: d' same_entries_def entries_def)
      moreover have "dict_ok d'"
        using ok new' False h1 by (intro dict_ok_transfer [OF ok same])
          (simp_all add: d' dict_ok_def rehash_ok_def dictIsRehashing_def)
      ultimately show ?thesis by simp
    next
      case (Some tb)
      then have d': "d' = d\<lparr>ht1 := n', rehashidx := 0\<rparr>"
        using r False k by (auto simp: dictExpand_def n'_def Let_def)
      have same: "same_entries d d'" using new' e1 by (simp add: d' same_entries_def entries_def)
      moreover have "dict_ok d'"
        using ok new' False Some by (intro dict_ok_transfer [OF ok same])
          (auto simp: d' dict_ok_def rehash_ok_def dictIsRehashing_def)
      ultimately show ?thesis by simp
    qed
  qed
qed

text \<open>When the code asks for it, the expansion succeeds; the result has a first table.\<close>

lemma dictExpandIfNeeded_ok:
  assumes ok: "dict_ok d" and sz: "dictSize d < 2 ^ 30"
  shows "\<exists>d'. dictExpandIfNeeded cr d = (d', DICT_OK) \<and> dict_ok d' \<and> same_entries d d'
    \<and> ht_table (ht0 d') \<noteq> None \<and> (dictIsRehashing d \<longrightarrow> d' = d)"
proof -
  obtain d' st where r: "dictExpandIfNeeded cr d = (d', st)" by fastforce
  consider (r) "dictIsRehashing d" | (init) "\<not> dictIsRehashing d" "ht_size (ht0 d) = 0"
    | (grow) "\<not> dictIsRehashing d" "ht_size (ht0 d) \<noteq> 0" "ht_used (ht0 d) \<ge> ht_size (ht0 d)"
        "cr \<or> ht_used (ht0 d) div ht_size (ht0 d) > dict_force_resize_ratio"
    | (no) "\<not> dictIsRehashing d" "ht_size (ht0 d) \<noteq> 0"
        "\<not> (ht_used (ht0 d) \<ge> ht_size (ht0 d)
          \<and> (cr \<or> ht_used (ht0 d) div ht_size (ht0 d) > dict_force_resize_ratio))"
    by blast
  then show ?thesis
  proof cases
    case r
    then show ?thesis using ok
      by (auto simp: dictExpandIfNeeded_def dict_ok_def rehash_ok_def empty_upto_iff)
  next
    case init
    then have t: "ht_table (ht0 d) = None"
      using ok by (auto simp: dict_ok_def ht_ok_def split: option.splits)
    then have "ht_used (ht0 d) = 0" using ok by (simp add: dict_ok_def ht_ok_def)
    moreover have "dictNextPower 4 = 4"
      by (simp add: dictNextPower_def DICT_HT_INITIAL_SIZE_def LONG_MAX_def nextPower_loop.simps)
    ultimately show ?thesis
      using init t dictExpand_ok [OF ok, of 4 "fst (dictExpand d 4)" "snd (dictExpand d 4)"]
      by (auto simp: dictExpandIfNeeded_def DICT_HT_INITIAL_SIZE_def dictExpand_def Let_def)
  next
    case grow
    then obtain tb where t: "ht_table (ht0 d) = Some tb"
      using ok by (auto simp: dict_ok_def ht_ok_def split: option.splits)
    have u: "ht_used (ht0 d) * 2 \<le> 2 ^ 31" using sz by (simp add: dictSize_def)
    obtain k where k: "dictNextPower (ht_used (ht0 d) * 2) = 2 ^ k" "ht_used (ht0 d) * 2 \<le> 2 ^ k"
      using dictNextPower_pow2 [OF u] by auto
    then have "dictNextPower (ht_used (ht0 d) * 2) \<noteq> ht_size (ht0 d)" using grow by auto
    then show ?thesis
      using grow t dictExpand_ok [OF ok u, of "fst (dictExpand d (ht_used (ht0 d) * 2))"
        "snd (dictExpand d (ht_used (ht0 d) * 2))"]
      by (auto simp: dictExpandIfNeeded_def dictExpand_def Let_def)
  next
    case no
    then have "ht_table (ht0 d) \<noteq> None"
      using ok by (auto simp: dict_ok_def ht_ok_def split: option.splits)
    then show ?thesis using ok no by (auto simp: dictExpandIfNeeded_def)
  qed
qed

section \<open>Rehashing\<close>

lemma rehash_bucket_ok:
  assumes "ht_ok (d_type d) (ht1 d)" "ht_table (ht1 d) \<noteq> None" "length des \<le> ht_used (ht0 d)"
  shows "\<exists>h1. rehash_bucket d des = Some (d\<lparr>ht1 := h1,
        ht0 := (ht0 d)\<lparr>ht_used := ht_used (ht0 d) - length des\<rparr>\<rparr>)
      \<and> ht_ok (d_type d) h1 \<and> ht_table h1 \<noteq> None
      \<and> mset (entries_ht h1) = mset des + mset (entries_ht (ht1 d))"
  using assms
proof (induction des arbitrary: d)
  case Nil
  then show ?case by (intro exI [of _ "ht1 d"]) auto
next
  case (Cons de des)
  from Cons.prems obtain tb where tb: "ht_table (ht1 d) = Some tb" by auto
  define i where "i = unat (dictHashKey d (e_key de)) mod ht_size (ht1 d)"
  note slot = slot_index [OF Cons.prems(1) tb, of "dictHashKey d (e_key de)", folded i_def]
  define h where "h = (ht1 d)\<lparr>ht_table := Some (tb[i := de # tb ! i]), ht_used := ht_used (ht1 d) + 1\<rparr>"
  define d2 where "d2 = d\<lparr>ht1 := h, ht0 := (ht0 d)\<lparr>ht_used := ht_used (ht0 d) - 1\<rparr>\<rparr>"
  have "in_slot (d_type d) (ht_size (ht1 d)) i de"
    by (simp add: in_slot_def i_def dictHashKey_def)
  then have h: "ht_ok (d_type d) h"
    unfolding h_def using Cons.prems(1) tb slot(3) in_bucket_slot [OF Cons.prems(1) tb slot(3)]
    by (intro ht_ok_update) auto
  have m: "mset (entries_ht h) = add_mset de (mset (entries_ht (ht1 d)))"
    using mset_concat_update [OF slot(3), of "de # tb ! i"] tb by (simp add: h_def entries_ht_def)
  have "rehash_bucket d (de # des) = rehash_bucket d2 des"
    using tb slot Cons.prems(3) by (simp add: h_def d2_def ul_dec_pos)
  moreover have "\<exists>h1. rehash_bucket d2 des = Some (d2\<lparr>ht1 := h1,
        ht0 := (ht0 d2)\<lparr>ht_used := ht_used (ht0 d2) - length des\<rparr>\<rparr>)
      \<and> ht_ok (d_type d2) h1 \<and> ht_table h1 \<noteq> None
      \<and> mset (entries_ht h1) = mset des + mset (entries_ht (ht1 d2))"
    using h Cons.prems(3) by (intro Cons.IH) (auto simp: d2_def h_def)
  ultimately show ?case using m by (auto simp: d2_def)
qed

lemma rehash_skip_ok:
  assumes "idx \<le> j" "j < length tb" "tb ! j \<noteq> []" "0 < ev"
  shows "\<exists>r. rehash_skip tb idx ev = Some r \<and>
    (case r of
       Inl i \<Rightarrow> idx < i \<and> i \<le> length tb \<and> (\<forall>m. idx \<le> m \<and> m < i \<longrightarrow> tb ! m = [])
     | Inr (i, ev') \<Rightarrow> idx \<le> i \<and> i < length tb \<and> tb ! i \<noteq> []
         \<and> (\<forall>m. idx \<le> m \<and> m < i \<longrightarrow> tb ! m = []) \<and> 0 < ev' \<and> ev' + (i - idx) = ev)"
  using assms
proof (induction tb idx ev rule: rehash_skip.induct)
  case (1 tb idx)
  then show ?case by simp
next
  case (2 tb idx ev)
  show ?case
  proof (cases "tb ! idx = []")
    case False
    then show ?thesis using 2 by auto
  next
    case empty: True
    then have lt: "idx < j" using 2 by (metis le_neq_implies_less)
    show ?thesis
    proof (cases "ev = 0")
      case True
      then show ?thesis using 2 empty lt by (auto simp: less_Suc_eq_le)
    next
      case False
      have "\<exists>r. rehash_skip tb (idx + 1) ev = Some r \<and>
        (case r of
           Inl i \<Rightarrow> idx + 1 < i \<and> i \<le> length tb \<and> (\<forall>m. idx + 1 \<le> m \<and> m < i \<longrightarrow> tb ! m = [])
         | Inr (i, ev') \<Rightarrow> idx + 1 \<le> i \<and> i < length tb \<and> tb ! i \<noteq> []
             \<and> (\<forall>m. idx + 1 \<le> m \<and> m < i \<longrightarrow> tb ! m = []) \<and> 0 < ev' \<and> ev' + (i - (idx + 1)) = ev)"
        using 2 empty lt False by (intro 2(1) [of "tb ! idx"]) auto
      then obtain r where r: "rehash_skip tb (idx + 1) ev = Some r"
        "case r of
           Inl i \<Rightarrow> idx + 1 < i \<and> i \<le> length tb \<and> (\<forall>m. idx + 1 \<le> m \<and> m < i \<longrightarrow> tb ! m = [])
         | Inr (i, ev') \<Rightarrow> idx + 1 \<le> i \<and> i < length tb \<and> tb ! i \<noteq> []
             \<and> (\<forall>m. idx + 1 \<le> m \<and> m < i \<longrightarrow> tb ! m = []) \<and> 0 < ev' \<and> ev' + (i - (idx + 1)) = ev"
        by blast
      have ext: "tb ! m = []" if "idx \<le> m" "m < i" "\<forall>m. idx + 1 \<le> m \<and> m < i \<longrightarrow> tb ! m = []" for m i
        using that empty by (cases "m = idx") auto
      have "rehash_skip tb idx (Suc ev) = Some r" using r(1) empty lt False 2(3) by simp
      moreover have "case r of
           Inl i \<Rightarrow> idx < i \<and> i \<le> length tb \<and> (\<forall>m. idx \<le> m \<and> m < i \<longrightarrow> tb ! m = [])
         | Inr (i, ev') \<Rightarrow> idx \<le> i \<and> i < length tb \<and> tb ! i \<noteq> []
             \<and> (\<forall>m. idx \<le> m \<and> m < i \<longrightarrow> tb ! m = []) \<and> 0 < ev' \<and> ev' + (i - idx) = Suc ev"
      proof (cases r)
        case (Inl i)
        then show ?thesis using r(2) ext [of _ i] by auto
      next
        case (Inr p)
        then obtain i ev' where p: "r = Inr (i, ev')" by (cases p) simp
        have "idx \<le> i" "i < length tb" "tb ! i \<noteq> []" "0 < ev'" "ev' + (i - idx) = Suc ev"
          and all: "\<forall>m. idx + 1 \<le> m \<and> m < i \<longrightarrow> tb ! m = []"
          using r(2) p by auto
        then show ?thesis using p ext [OF _ _ all] by simp
      qed
      ultimately show ?thesis by blast
    qed
  qed
qed

lemma rehash_finish_ok:
  assumes ok: "dict_ok d" and r: "dictIsRehashing d" and f: "rehash_finish d = (d', b)"
  shows "dict_ok d' \<and> same_entries d d' \<and> (b \<longleftrightarrow> dictIsRehashing d') \<and> (b \<longrightarrow> d' = d)"
proof (cases "ht_used (ht0 d) = 0")
  case False
  then show ?thesis using assms by (auto simp: rehash_finish_def)
next
  case True
  then have d': "d' = d\<lparr>ht0 := ht1 d, ht1 := dictReset, rehashidx := -1\<rparr>" "\<not> b"
    using f by (auto simp: rehash_finish_def)
  have "entries_ht (ht0 d) = []"
    using True ok by (auto simp: dict_ok_def ht_ok_def entries_ht_def split: option.splits)
  then have same: "same_entries d d'"
    by (simp add: d' same_entries_def entries_def) (simp add: entries_ht_def dictReset_def)
  have "dict_ok d'"
    by (rule dict_ok_transfer [OF ok same])
      (use ok d' in \<open>auto simp: dict_ok_def rehash_ok_def dictIsRehashing_def ht_ok_def dictReset_def\<close>)
  then show ?thesis using same d' by (simp add: dictIsRehashing_def)
qed

lemma rehash_move_ok:
  assumes ok: "dict_ok d" and r: "dictIsRehashing d" and tb: "ht_table (ht0 d) = Some tb"
    and idx: "nat (rehashidx d) \<le> idx" "idx < length tb"
    and empty: "\<forall>m. nat (rehashidx d) \<le> m \<and> m < idx \<longrightarrow> tb ! m = []"
  shows "\<exists>d1 d2. rehash_bucket (d\<lparr>rehashidx := int idx\<rparr>) (tb ! idx) = Some d1
    \<and> d2 = d1\<lparr>ht0 := (ht0 d1)\<lparr>ht_table := Some (tb[idx := []])\<rparr>, rehashidx := int idx + 1\<rparr>
    \<and> dict_ok d2 \<and> same_entries d d2 \<and> dictIsRehashing d2 \<and> ht_size (ht0 d2) = ht_size (ht0 d)
    \<and> rehashidx d < rehashidx d2"
proof -
  let ?d = "d\<lparr>rehashidx := int idx\<rparr>"
  have h0: "ht_ok (d_type d) (ht0 d)" and h1: "ht_ok (d_type d) (ht1 d)" and "rehash_ok d"
    using ok by (auto simp: dict_ok_def)
  then have t1: "ht_table (ht1 d) \<noteq> None" and pre: "\<forall>i < nat (rehashidx d). tb ! i = []"
    and ri: "0 \<le> rehashidx d" using r tb by (auto simp: rehash_ok_def)
  have "ht_used (ht0 d) = length (concat tb)" using h0 tb by (simp add: ht_ok_def)
  then have used: "length (tb ! idx) \<le> ht_used (ht0 d)"
    using concat_update_length [OF idx(2), of "[]"] by simp
  obtain h where h: "rehash_bucket ?d (tb ! idx) = Some (?d\<lparr>ht1 := h,
        ht0 := (ht0 d)\<lparr>ht_used := ht_used (ht0 d) - length (tb ! idx)\<rparr>\<rparr>)"
      "ht_ok (d_type d) h" "ht_table h \<noteq> None"
      "mset (entries_ht h) = mset (tb ! idx) + mset (entries_ht (ht1 d))"
    using rehash_bucket_ok [of ?d "tb ! idx"] h1 t1 used by auto
  define d1 where "d1 = ?d\<lparr>ht1 := h, ht0 := (ht0 d)\<lparr>ht_used := ht_used (ht0 d) - length (tb ! idx)\<rparr>\<rparr>"
  define d2 where "d2 = d1\<lparr>ht0 := (ht0 d1)\<lparr>ht_table := Some (tb[idx := []])\<rparr>, rehashidx := int idx + 1\<rparr>"
  have ht0: "ht0 d2 = (ht0 d)\<lparr>ht_table := Some (tb[idx := []]),
      ht_used := ht_used (ht0 d) - length (tb ! idx)\<rparr>"
    by (simp add: d2_def d1_def)
  have ok0: "ht_ok (d_type d) (ht0 d2)"
    unfolding ht0 using used by (intro ht_ok_update [OF h0 tb idx(2)]) auto
  have same: "same_entries d d2"
    using mset_concat_update [OF idx(2), of "[]"] h(4) tb
    by (simp add: same_entries_def entries_def ht0) (simp add: d2_def d1_def entries_ht_def add.assoc)
  have "tb[idx := []] ! i = []" if "i < Suc idx" for i
    using that pre empty idx by (cases "i = idx"; cases "i < nat (rehashidx d)") auto
  moreover have "nat (int idx + 1) = Suc idx" by simp
  ultimately have "rehash_ok d2"
    using idx h(3) unfolding rehash_ok_def ht0
    by (simp add: dictIsRehashing_def) (simp add: d2_def d1_def)
  then have "dict_ok d2"
    using ok0 h(2) by (intro dict_ok_transfer [OF ok same]) (simp_all add: d2_def d1_def)
  moreover have "dictIsRehashing d2" "rehashidx d < rehashidx d2"
    using idx ri by (auto simp: d2_def dictIsRehashing_def)
  ultimately show ?thesis using h(1) same ht0 d1_def d2_def by auto
qed

lemma rehash_skip_to_ok:
  assumes ok: "dict_ok d" and r: "dictIsRehashing d" and tb: "ht_table (ht0 d) = Some tb"
    and idx: "nat (rehashidx d) < idx" "idx \<le> length tb"
    and empty: "\<forall>m. nat (rehashidx d) \<le> m \<and> m < idx \<longrightarrow> tb ! m = []"
  shows "dict_ok (d\<lparr>rehashidx := int idx\<rparr>) \<and> same_entries d (d\<lparr>rehashidx := int idx\<rparr>)
    \<and> rehashidx d < int idx"
proof -
  have same: "same_entries d (d\<lparr>rehashidx := int idx\<rparr>)" by (simp add: same_entries_def entries_def)
  have ro: "rehash_ok d" using ok by (simp add: dict_ok_def)
  have "tb ! i = []" if "i < idx" for i
    using that empty ro r tb by (cases "i < nat (rehashidx d)") (auto simp: rehash_ok_def)
  then have "rehash_ok (d\<lparr>rehashidx := int idx\<rparr>)"
    using ro r tb idx by (simp add: rehash_ok_def dictIsRehashing_def)
  then have "dict_ok (d\<lparr>rehashidx := int idx\<rparr>)"
    using ok by (intro dict_ok_transfer [OF ok same]) (simp_all add: dict_ok_def)
  moreover have "rehashidx d < int idx" using ro r idx by (simp add: rehash_ok_def)
  ultimately show ?thesis using same by simp
qed

text \<open>How far a call gets: it is done, or \<open>rehashidx\<close> is larger over the same table.\<close>

definition rehash_progress :: "('k, 'v) dict \<Rightarrow> ('k, 'v) dict \<Rightarrow> bool" where
  "rehash_progress d d' \<longleftrightarrow> (dictIsRehashing d' \<longrightarrow>
     rehashidx d < rehashidx d' \<and> ht_size (ht0 d') = ht_size (ht0 d))"

lemma rehash_loop_ok:
  assumes "dict_ok d" "dictIsRehashing d" "0 < ev"
  shows "\<exists>d' b. rehash_loop d n ev = Some (d', b) \<and> dict_ok d' \<and> same_entries d d'
    \<and> (b \<longleftrightarrow> dictIsRehashing d') \<and> (0 < n \<longrightarrow> rehash_progress d d')
    \<and> (dictIsRehashing d' \<longrightarrow> rehashidx d \<le> rehashidx d' \<and> ht_size (ht0 d') = ht_size (ht0 d))"
  using assms
proof (induction n arbitrary: d ev)
  case 0
  obtain d' b where f: "rehash_finish d = (d', b)" by fastforce
  from rehash_finish_ok [OF 0(1,2) f] show ?case by (auto simp: f)
next
  case (Suc n)
  show ?case
  proof (cases "ht_used (ht0 d) = 0")
    case True
    obtain d' b where f: "rehash_finish d = (d', b)" by fastforce
    then have "\<not> b" using True by (simp add: rehash_finish_def)
    then show ?thesis using rehash_finish_ok [OF Suc.prems(1,2) f] True f
      by (auto simp: rehash_progress_def)
  next
    case False
    obtain tb where tb: "ht_table (ht0 d) = Some tb" and ri: "0 \<le> rehashidx d"
      and pre: "\<forall>i < nat (rehashidx d). tb ! i = []"
      using Suc.prems by (auto simp: dict_ok_def rehash_ok_def empty_upto_iff)
    have h0: "ht_used (ht0 d) = length (concat tb)" "ht_size (ht0 d) = length tb"
      using Suc.prems(1) tb by (auto simp: dict_ok_def ht_ok_def)
    then obtain j where j: "j < length tb" "tb ! j \<noteq> []"
      using False by (auto simp: in_set_conv_nth)
    then have rj: "nat (rehashidx d) \<le> j" using pre by (meson not_le)
    obtain r where r: "rehash_skip tb (nat (rehashidx d)) ev = Some r"
      "case r of
         Inl i \<Rightarrow> nat (rehashidx d) < i \<and> i \<le> length tb
           \<and> (\<forall>m. nat (rehashidx d) \<le> m \<and> m < i \<longrightarrow> tb ! m = [])
       | Inr (i, ev') \<Rightarrow> nat (rehashidx d) \<le> i \<and> i < length tb \<and> tb ! i \<noteq> []
           \<and> (\<forall>m. nat (rehashidx d) \<le> m \<and> m < i \<longrightarrow> tb ! m = [])
           \<and> 0 < ev' \<and> ev' + (i - nat (rehashidx d)) = ev"
      using rehash_skip_ok [OF rj j Suc.prems(3)] by blast
    have run: "rehash_loop d (Suc n) ev = (case r of
          Inl idx \<Rightarrow> Some (d\<lparr>rehashidx := int idx\<rparr>, True)
        | Inr (idx, empty_visits) \<Rightarrow> do {
            d \<leftarrow> rehash_bucket (d\<lparr>rehashidx := int idx\<rparr>) (tb ! idx);
            rehash_loop (d\<lparr>ht0 := (ht0 d)\<lparr>ht_table := Some (tb[idx := []])\<rparr>,
                           rehashidx := int idx + 1\<rparr>) n empty_visits })"
      using False tb r(1) ri rj j h0(2) by simp
    show ?thesis
    proof (cases r)
      case (Inl i)
      have "dict_ok (d\<lparr>rehashidx := int i\<rparr>) \<and> same_entries d (d\<lparr>rehashidx := int i\<rparr>)
          \<and> rehashidx d < int i"
        using r(2) Inl by (intro rehash_skip_to_ok [OF Suc.prems(1,2) tb]) auto
      then show ?thesis using Inl
        by (auto simp: run rehash_progress_def dictIsRehashing_def simp del: rehash_loop.simps)
    next
      case (Inr p)
      then obtain i ev' where p: "r = Inr (i, ev')" by (cases p) simp
      obtain d1 d2 where m: "rehash_bucket (d\<lparr>rehashidx := int i\<rparr>) (tb ! i) = Some d1"
        and d2: "d2 = d1\<lparr>ht0 := (ht0 d1)\<lparr>ht_table := Some (tb[i := []])\<rparr>, rehashidx := int i + 1\<rparr>"
        and ok2: "dict_ok d2" "same_entries d d2" "dictIsRehashing d2"
          "ht_size (ht0 d2) = ht_size (ht0 d)" "rehashidx d < rehashidx d2"
        using rehash_move_ok [OF Suc.prems(1,2) tb, of i] r(2) p by auto
      have "0 < ev'" using r(2) p by simp
      from Suc.IH [OF ok2(1,3) this] obtain d' b where
        IH: "rehash_loop d2 n ev' = Some (d', b)" "dict_ok d'" "same_entries d2 d'"
          "b \<longleftrightarrow> dictIsRehashing d'"
          "dictIsRehashing d' \<longrightarrow> rehashidx d2 \<le> rehashidx d' \<and> ht_size (ht0 d') = ht_size (ht0 d2)"
        by blast
      have "rehash_loop d (Suc n) ev = Some (d', b)"
        using IH(1) m by (simp add: run p d2 del: rehash_loop.simps)
      then show ?thesis using IH ok2 same_entries_trans [OF ok2(2) IH(3)]
        by (auto simp: rehash_progress_def simp del: rehash_loop.simps)
    qed
  qed
qed

lemma dictRehash_ok:
  assumes ok: "dict_ok d"
  shows "\<exists>d' b. dictRehash d n = Some (d', b) \<and> dict_ok d' \<and> same_entries d d'
    \<and> (b \<longleftrightarrow> dictIsRehashing d') \<and> (dictIsRehashing d \<and> 0 < n \<longrightarrow> rehash_progress d d')
    \<and> (dictIsRehashing d' \<longrightarrow> dictIsRehashing d)"
proof (cases "dictIsRehashing d")
  case False
  then show ?thesis using ok by (simp add: dictRehash_def)
next
  case True
  show ?thesis
  proof (cases "n = 0")
    case True
    obtain d' b where f: "rehash_finish d = (d', b)" by fastforce
    from rehash_finish_ok [OF ok \<open>dictIsRehashing d\<close> f] show ?thesis
      using True \<open>dictIsRehashing d\<close> by (simp add: dictRehash_def f)
  next
    case False
    then show ?thesis using rehash_loop_ok [OF ok True, of "n * 10" n] True
      by (auto simp: dictRehash_def)
  qed
qed

lemma rehash_once_ok:
  assumes ok: "dict_ok d"
  shows "\<exists>d'. rehash_once d = Some d' \<and> dict_ok d' \<and> same_entries d d'
    \<and> (dictIsRehashing d' \<longrightarrow> dictIsRehashing d)"
  using dictRehash_ok [OF ok, of 1] ok
  by (auto simp: rehash_once_def dictRehashStep_def)

end
