(* ===== verification/KvStore.thy ===== *)
theory KvStore
  imports Dict
begin

text \<open>
  The contract between the dictionary and the parts of the program that keep their tables in
  one (the routes, the three caches of the service, the configuration): a finite map with
  \<open>dictFetchValue\<close>, \<open>dictAdd\<close> and \<open>dictDelete\<close>, as long as fewer entries than \<open>room\<close> are in it.
\<close>

locale kv_store =
  fixes inv :: "'s \<Rightarrow> bool"
    and absm :: "'s \<Rightarrow> 'k \<Rightarrow> 'v option"
    and num :: "'s \<Rightarrow> nat"
    and room :: nat
    and fetch :: "'s \<Rightarrow> 'k \<Rightarrow> ('s \<times> 'v option) option"
    and add :: "'s \<Rightarrow> 'k \<Rightarrow> 'v \<Rightarrow> ('s \<times> dict_status) option"
    and rep :: "'s \<Rightarrow> 'k \<Rightarrow> 'v \<Rightarrow> ('s \<times> bool) option"
    and del :: "'s \<Rightarrow> 'k \<Rightarrow> ('s \<times> dict_status) option"
  assumes fetch_law: "inv s \<Longrightarrow>
      \<exists>s'. fetch s k = Some (s', absm s k) \<and> inv s' \<and> absm s' = absm s \<and> num s' = num s"
    and add_law: "inv s \<Longrightarrow> num s < room \<Longrightarrow>
      \<exists>s'. add s k v = Some (s', if absm s k = None then DICT_OK else DICT_ERR) \<and> inv s'
        \<and> absm s' = (if absm s k = None then (absm s)(k \<mapsto> v) else absm s) \<and> num s' \<le> Suc (num s)"
    and rep_law: "inv s \<Longrightarrow> num s < room \<Longrightarrow>
      \<exists>s'. rep s k v = Some (s', absm s k = None) \<and> inv s'
        \<and> absm s' = (absm s)(k \<mapsto> v) \<and> num s' \<le> Suc (num s)"
    and del_law: "inv s \<Longrightarrow>
      \<exists>s'. del s k = Some (s', if absm s k = None then DICT_ERR else DICT_OK) \<and> inv s'
        \<and> absm s' = (absm s)(k := None) \<and> num s' \<le> num s"

section \<open>Sequences of operations\<close>

datatype ('k, 'v) kv_op = Get 'k | Put 'k 'v | Rep 'k 'v | Del 'k
datatype 'v kv_res = Got "'v option" | Did dict_status | New bool

fun kv_run ::
  "('s \<Rightarrow> 'k \<Rightarrow> ('s \<times> 'v option) option) \<Rightarrow> ('s \<Rightarrow> 'k \<Rightarrow> 'v \<Rightarrow> ('s \<times> dict_status) option) \<Rightarrow>
   ('s \<Rightarrow> 'k \<Rightarrow> 'v \<Rightarrow> ('s \<times> bool) option) \<Rightarrow>
   ('s \<Rightarrow> 'k \<Rightarrow> ('s \<times> dict_status) option) \<Rightarrow> ('k, 'v) kv_op list \<Rightarrow> 's \<Rightarrow> ('s \<times> 'v kv_res list) option"
where
  "kv_run fetch add rep del [] s = Some (s, [])"
| "kv_run fetch add rep del (Get k # ops) s =
     do { (s, r) \<leftarrow> fetch s k; (s, rs) \<leftarrow> kv_run fetch add rep del ops s; Some (s, Got r # rs) }"
| "kv_run fetch add rep del (Put k v # ops) s =
     do { (s, r) \<leftarrow> add s k v; (s, rs) \<leftarrow> kv_run fetch add rep del ops s; Some (s, Did r # rs) }"
| "kv_run fetch add rep del (Rep k v # ops) s =
     do { (s, r) \<leftarrow> rep s k v; (s, rs) \<leftarrow> kv_run fetch add rep del ops s; Some (s, New r # rs) }"
| "kv_run fetch add rep del (Del k # ops) s =
     do { (s, r) \<leftarrow> del s k; (s, rs) \<leftarrow> kv_run fetch add rep del ops s; Some (s, Did r # rs) }"

text \<open>The same operations on a map: \<open>dictAdd\<close> never overwrites.\<close>

fun map_run :: "('k, 'v) kv_op list \<Rightarrow> ('k \<Rightarrow> 'v option) \<Rightarrow> ('k \<Rightarrow> 'v option) \<times> 'v kv_res list" where
  "map_run [] m = (m, [])"
| "map_run (Get k # ops) m = (case map_run ops m of (m', rs) \<Rightarrow> (m', Got (m k) # rs))"
| "map_run (Put k v # ops) m =
     (if m k = None then case map_run ops (m(k \<mapsto> v)) of (m', rs) \<Rightarrow> (m', Did DICT_OK # rs)
      else case map_run ops m of (m', rs) \<Rightarrow> (m', Did DICT_ERR # rs))"
| "map_run (Rep k v # ops) m =
     (case map_run ops (m(k \<mapsto> v)) of (m', rs) \<Rightarrow> (m', New (m k = None) # rs))"
| "map_run (Del k # ops) m =
     (case map_run ops (m(k := None)) of
        (m', rs) \<Rightarrow> (m', Did (if m k = None then DICT_ERR else DICT_OK) # rs))"

fun rep_list :: "('s \<Rightarrow> 'k \<Rightarrow> 'v \<Rightarrow> ('s \<times> bool) option) \<Rightarrow> ('k \<times> 'v) list \<Rightarrow> 's \<Rightarrow> 's option" where
  "rep_list rep [] s = Some s"
| "rep_list rep ((k, v) # kvs) s = do { (s, _) \<leftarrow> rep s k v; rep_list rep kvs s }"

context kv_store begin

lemma run_refines:
  "inv s \<Longrightarrow> num s + length ops < room \<Longrightarrow>
   \<exists>s'. kv_run fetch add rep del ops s = Some (s', snd (map_run ops (absm s))) \<and> inv s'
     \<and> absm s' = fst (map_run ops (absm s))"
proof (induction ops arbitrary: s)
  case Nil
  then show ?case by simp
next
  case (Cons x ops)
  show ?case
  proof (cases x)
    case (Get k)
    from fetch_law [OF Cons.prems(1), of k] obtain s1 where
      s1: "fetch s k = Some (s1, absm s k)" "inv s1" "absm s1 = absm s" "num s1 = num s" by blast
    then show ?thesis using Cons.IH [of s1] Cons.prems Get by (auto split: prod.splits)
  next
    case (Put k v)
    from Cons.prems have "num s < room" by simp
    from add_law [OF Cons.prems(1) this, of k v] obtain s1 where
      s1: "add s k v = Some (s1, if absm s k = None then DICT_OK else DICT_ERR)" "inv s1"
        "absm s1 = (if absm s k = None then (absm s)(k \<mapsto> v) else absm s)" "num s1 \<le> Suc (num s)"
      by blast
    then show ?thesis using Cons.IH [of s1] Cons.prems Put
      by (cases "absm s k = None") (auto split: prod.splits simp del: fun_upd_apply)
  next
    case (Rep k v)
    from Cons.prems have "num s < room" by simp
    from rep_law [OF Cons.prems(1) this, of k v] obtain s1 where
      s1: "rep s k v = Some (s1, absm s k = None)" "inv s1" "absm s1 = (absm s)(k \<mapsto> v)"
        "num s1 \<le> Suc (num s)" by blast
    then show ?thesis using Cons.IH [of s1] Cons.prems Rep
      by (auto split: prod.splits simp del: fun_upd_apply)
  next
    case (Del k)
    from del_law [OF Cons.prems(1), of k] obtain s1 where
      s1: "del s k = Some (s1, if absm s k = None then DICT_ERR else DICT_OK)" "inv s1"
        "absm s1 = (absm s)(k := None)" "num s1 \<le> num s" by blast
    then show ?thesis using Cons.IH [of s1] Cons.prems Del
      by (auto split: prod.splits simp del: fun_upd_apply)
  qed
qed

lemma fetch_value:
  assumes "inv s"
  obtains s' where "fetch s k = Some (s', absm s k)" "inv s'" "absm s' = absm s" "num s' = num s"
  using fetch_law [OF assms] by blast

lemma add_new:
  assumes "inv s" "num s < room" "absm s k = None"
  obtains s' where "add s k v = Some (s', DICT_OK)" "inv s'" "absm s' = (absm s)(k \<mapsto> v)"
    "num s' \<le> Suc (num s)"
  using add_law [OF assms(1,2), of k v] assms(3) by auto

lemma add_existing:
  assumes "inv s" "num s < room" "absm s k = Some w"
  obtains s' where "add s k v = Some (s', DICT_ERR)" "inv s'" "absm s' = absm s" "num s' \<le> Suc (num s)"
  using add_law [OF assms(1,2), of k v] assms(3) by auto

lemma rep_value:
  assumes "inv s" "num s < room"
  obtains s' where "rep s k v = Some (s', absm s k = None)" "inv s'" "absm s' = (absm s)(k \<mapsto> v)"
    "num s' \<le> Suc (num s)"
  using rep_law [OF assms, of k v] by auto

lemma del_value:
  assumes "inv s"
  obtains s' where "del s k = Some (s', if absm s k = None then DICT_ERR else DICT_OK)" "inv s'"
    "absm s' = (absm s)(k := None)" "num s' \<le> num s"
  using del_law [OF assms, of k] by auto

text \<open>A table of bindings entered one after the other.\<close>

lemma rep_all:
  "inv s \<Longrightarrow> num s + length kvs < room \<Longrightarrow>
   \<exists>s'. rep_list rep kvs s = Some s' \<and> inv s' \<and> absm s' = absm s ++ map_of (rev kvs)
     \<and> num s' \<le> num s + length kvs"
proof (induction kvs arbitrary: s)
  case Nil
  then show ?case by simp
next
  case (Cons kv kvs)
  obtain k v where kv: "kv = (k, v)" by (cases kv)
  have "num s < room" using Cons.prems by simp
  from rep_value [OF Cons.prems(1) this, of k v] obtain s1 where s1: "rep s k v = Some (s1, absm s k = None)"
    "inv s1" "absm s1 = (absm s)(k \<mapsto> v)" "num s1 \<le> Suc (num s)" by blast
  then have "num s1 + length kvs < room" using Cons.prems by simp
  from Cons.IH [OF s1(2) this] show ?case using s1 kv
    by (auto simp: map_add_upd_left map_add_assoc [symmetric] simp del: fun_upd_apply)
qed

text \<open>What was added is found; what was deleted is not.\<close>

lemma fetch_add:
  assumes "inv s" "num s < room" "absm s k = None"
  shows "do { (s, _) \<leftarrow> add s k v; (s, r) \<leftarrow> fetch s k; Some r } = Some (Some v)"
proof -
  obtain s1 where s1: "add s k v = Some (s1, DICT_OK)" "inv s1" "absm s1 = (absm s)(k \<mapsto> v)"
    using add_new [OF assms] by blast
  obtain s2 where "fetch s1 k = Some (s2, absm s1 k)"
    using fetch_value [OF s1(2)] by blast
  then show ?thesis using s1 by simp
qed

end

end
