(* ===== verification/DictOps.thy ===== *)
theory DictOps
  imports DictInv KvStore
begin

text \<open>
  The dictionary operations against the finite map they implement: every operation is defined
  on every reachable dictionary, keeps the invariant, and has the effect of the map operation,
  in all phases of an incremental rehash.
\<close>

definition dict_inv :: "('k, 'v) dict \<Rightarrow> bool" where
  "dict_inv d \<longleftrightarrow> dict_ok d \<and> type_ok (d_type d)"

lemma key_match_eq: "type_ok (d_type d) \<Longrightarrow> key_match d key e \<longleftrightarrow> key = e_key e"
  by (auto simp: key_match_def dictCompareKeys_def type_ok_def split: option.splits)

lemma find_key_match:
  assumes "type_ok (d_type d)"
  shows "key_match d key = (\<lambda>e. key = e_key e)"
  by (rule ext) (rule key_match_eq [OF assms])

lemma ht0_table:
  "dict_ok d \<Longrightarrow> dictIsRehashing d \<or> dictSize d \<noteq> 0 \<Longrightarrow> ht_table (ht0 d) \<noteq> None"
  by (auto simp: dict_ok_def rehash_ok_def dictSize_def ht_ok_def dictReset_def
      split: if_splits option.splits)

lemma ht1_table: "dict_ok d \<Longrightarrow> dictIsRehashing d \<Longrightarrow> ht_table (ht1 d) \<noteq> None"
  by (simp add: dict_ok_def rehash_ok_def)

lemma ht1_empty: "dict_ok d \<Longrightarrow> \<not> dictIsRehashing d \<Longrightarrow> entries_ht (ht1 d) = []"
  by (simp add: dict_ok_def rehash_ok_def entries_ht_def dictReset_def)

lemma dict_ok_ht: "dict_ok d \<Longrightarrow> ht_ok (d_type d) (ht d t)"
  by (simp add: dict_ok_def ht_def)

lemma same_size: "dict_ok d \<Longrightarrow> dict_ok d' \<Longrightarrow> same_entries d d' \<Longrightarrow> dictSize d' = dictSize d"
  by (simp add: dict_size_entries same_entries_def) (metis size_mset)

lemma set_entries: "set (entries d) = set (entries_ht (ht d 0)) \<union> set (entries_ht (ht d 1))"
  by (simp add: entries_def ht_def)

text \<open>The bucket that the operations search.\<close>

lemma bucket_ok:
  fixes key :: 'k
  assumes ok: "dict_ok d" and t: "ht_table (ht d t) = Some tb"
  defines "idx \<equiv> unat (dictHashKey d key) mod ht_size (ht d t)"
  shows "bucket d t (ucast (dictHashKey d key)) = Some (idx, tb ! idx)" "idx < length tb"
    and "\<forall>e \<in> set (tb ! idx). e \<in> set (entries_ht (ht d t)) \<and> in_slot (d_type d) (ht_size (ht d t)) idx e"
    and "\<forall>e \<in> set (entries_ht (ht d t)). e_key e = key \<longrightarrow> e \<in> set (tb ! idx)"
proof -
  note h = dict_ok_ht [OF ok, of t]
  note s = slot_index [OF h t, of "dictHashKey d key", folded idx_def]
  show "bucket d t (ucast (dictHashKey d key)) = Some (idx, tb ! idx)" "idx < length tb"
    using t s by (simp_all add: bucket_def)
  show "\<forall>e \<in> set (tb ! idx). e \<in> set (entries_ht (ht d t)) \<and> in_slot (d_type d) (ht_size (ht d t)) idx e"
    using in_bucket_slot [OF h t s(3)] s(3) t in_concat_nth [of _ tb] by (auto simp: entries_ht_def)
  show "\<forall>e \<in> set (entries_ht (ht d t)). e_key e = key \<longrightarrow> e \<in> set (tb ! idx)"
    using entry_in_slot [OF h t] by (auto simp: idx_def dictHashKey_def)
qed

lemma find_bucket:
  fixes key :: 'k
  assumes ok: "dict_ok d" and t: "ht_table (ht d t) = Some tb"
  defines "idx \<equiv> unat (dictHashKey d key) mod ht_size (ht d t)"
  shows "find (\<lambda>e. key = e_key e) (tb ! idx) = None \<longleftrightarrow>
      (\<forall>e \<in> set (entries_ht (ht d t)). e_key e \<noteq> key)"
    and "find (\<lambda>e. key = e_key e) (tb ! idx) = Some e \<Longrightarrow>
      e \<in> set (entries_ht (ht d t)) \<and> e_key e = key"
  using bucket_ok [OF ok t, of key, folded idx_def]
  by (auto simp: find_NoneD dest!: find_SomeD)

section \<open>Lookup\<close>

lemma dictFind_ok:
  assumes inv: "dict_inv d"
  shows "\<exists>d' r. dictFind d key = Some (d', r) \<and> dict_inv d' \<and> same_entries d d'
    \<and> (case r of None \<Rightarrow> \<forall>e \<in> set (entries d). e_key e \<noteq> key
        | Some e \<Rightarrow> e \<in> set (entries d) \<and> e_key e = key)"
proof (cases "dictSize d = 0")
  case True
  then have "entries d = []" using inv by (simp add: dict_inv_def dict_size_entries)
  then show ?thesis using True inv by (simp add: dictFind_def dictSize_def)
next
  case False
  obtain d' where d': "rehash_once d = Some d'" "dict_ok d'" "same_entries d d'"
    using rehash_once_ok [of d] inv by (auto simp: dict_inv_def)
  have ty: "type_ok (d_type d')" and inv': "dict_inv d'"
    using d' inv by (auto simp: dict_inv_def same_entries_def)
  obtain tb where tb: "ht_table (ht d' 0) = Some tb"
    using ht0_table [OF d'(2)] same_size [OF _ d'(2,3)] False inv by (auto simp: dict_inv_def ht_def)
  define i where "i = unat (dictHashKey d' key) mod ht_size (ht d' 0)"
  note b = bucket_ok [OF d'(2) tb, of key, folded i_def]
    find_bucket [OF d'(2) tb, of key, folded i_def]
  have nz: "\<not> (ht_used (ht0 d) + ht_used (ht1 d) = 0)" using False by (simp add: dictSize_def)
  note run = dictFind_def [of d key, unfolded if_not_P [OF nz] d'(1)]
  note es = set_entries_same [OF d'(3)] set_entries [of d']
  show ?thesis
  proof (cases "find (\<lambda>e. key = e_key e) (tb ! i)")
    case (Some e)
    then have "dictFind d key = Some (d', Some e)"
      unfolding run using b(1) by (simp add: find_key_match [OF ty])
    then show ?thesis using Some b(6) [of e] inv' d'(3) es by auto
  next
    case None
    show ?thesis
    proof (cases "dictIsRehashing d'")
      case False
      then have "dictFind d key = Some (d', None)"
        unfolding run using b(1) None by (simp add: find_key_match [OF ty])
      then show ?thesis using None b(5) inv' d'(3) es ht1_empty [OF d'(2) False]
        by (auto simp: ht_def)
    next
      case True
      then obtain tb1 where tb1: "ht_table (ht d' 1) = Some tb1"
        using ht1_table [OF d'(2)] by (auto simp: ht_def)
      define j where "j = unat (dictHashKey d' key) mod ht_size (ht d' 1)"
      note b1 = bucket_ok [OF d'(2) tb1, of key, folded j_def]
        find_bucket [OF d'(2) tb1, of key, folded j_def]
      have "dictFind d key = Some (d', find (\<lambda>e. key = e_key e) (tb1 ! j))"
        unfolding run using b(1) None True b1(1) by (simp add: find_key_match [OF ty])
      moreover have "case find (\<lambda>e. key = e_key e) (tb1 ! j) of
          None \<Rightarrow> \<forall>e \<in> set (entries d). e_key e \<noteq> key
        | Some e \<Rightarrow> e \<in> set (entries d) \<and> e_key e = key"
      proof (cases "find (\<lambda>e. key = e_key e) (tb1 ! j)")
        case none1: None
        then show ?thesis using None b(5) b1(5) es by auto
      next
        case (Some e)
        then show ?thesis using b1(6) [of e] es by auto
      qed
      ultimately show ?thesis using inv' d'(3) by blast
    qed
  qed
qed

lemma dictFetchValue_ok:
  assumes inv: "dict_inv d"
  shows "\<exists>d'. dictFetchValue d key = Some (d', dict_map d key) \<and> dict_inv d' \<and> same_entries d d'"
proof -
  obtain d' r where f: "dictFind d key = Some (d', r)" "dict_inv d'" "same_entries d d'"
    "case r of None \<Rightarrow> \<forall>e \<in> set (entries d). e_key e \<noteq> key
      | Some e \<Rightarrow> e \<in> set (entries d) \<and> e_key e = key"
    using dictFind_ok [OF inv] by blast
  have "map_option e_val r = dict_map d key"
  proof (cases r)
    case None
    then show ?thesis using f(4) dict_map_None [of d key] by simp
  next
    case (Some e)
    then have "dict_map d key = Some (e_val e)"
      using f(4) inv by (auto simp: dict_inv_def dict_map_Some)
    then show ?thesis using Some by simp
  qed
  then show ?thesis using f by (auto simp: dictFetchValue_def)
qed

section \<open>Insertion\<close>

lemma dictKeyIndex_ok:
  assumes inv: "dict_inv d" and sz: "dictSize d < 2 ^ 30"
  shows "\<exists>d' r. dictKeyIndex cr d key (ucast (dictHashKey d key)) = Some (d', r)
    \<and> dict_inv d' \<and> same_entries d d'
    \<and> (case r of
         Inl None \<Rightarrow> False
       | Inl (Some e) \<Rightarrow> e \<in> set (entries d) \<and> e_key e = key
       | Inr i \<Rightarrow> (\<forall>e \<in> set (entries d). e_key e \<noteq> key)
           \<and> (let t = (if dictIsRehashing d' then 1 else 0)
              in \<exists>tb. ht_table (ht d' t) = Some tb \<and> i < length tb
                   \<and> i = unat (dictHashKey d' key) mod ht_size (ht d' t)))"
proof -
  obtain d' where d': "dictExpandIfNeeded cr d = (d', DICT_OK)" "dict_ok d'" "same_entries d d'"
    "ht_table (ht0 d') \<noteq> None"
    using dictExpandIfNeeded_ok [OF _ sz, of cr] inv by (auto simp: dict_inv_def)
  have hk: "dictHashKey d key = dictHashKey d' key"
    using d'(3) by (simp add: dictHashKey_def same_entries_def)
  have ty: "type_ok (d_type d')" and inv': "dict_inv d'"
    using d' inv by (auto simp: dict_inv_def same_entries_def)
  obtain tb where tb: "ht_table (ht d' 0) = Some tb" using d'(4) by (auto simp: ht_def)
  define i where "i = unat (dictHashKey d' key) mod ht_size (ht d' 0)"
  note b = bucket_ok [OF d'(2) tb, of key, folded i_def]
    find_bucket [OF d'(2) tb, of key, folded i_def]
  note es = set_entries_same [OF d'(3)] set_entries [of d']
  note run = dictKeyIndex_def [of cr d key "ucast (dictHashKey d key)", unfolded d'(1) hk]
  show ?thesis
  proof (cases "find (\<lambda>e. key = e_key e) (tb ! i)")
    case (Some e)
    then have "dictKeyIndex cr d key (ucast (dictHashKey d key)) = Some (d', Inl (Some e))"
      using b(1) by (simp add: run hk find_key_match [OF ty])
    then show ?thesis using Some b(6) [of e] inv' d'(3) es by auto
  next
    case None
    show ?thesis
    proof (cases "dictIsRehashing d'")
      case False
      then have "dictKeyIndex cr d key (ucast (dictHashKey d key)) = Some (d', Inr i)"
        using b(1) None by (simp add: run hk find_key_match [OF ty])
      moreover have "\<forall>e \<in> set (entries d). e_key e \<noteq> key"
        using None b(5) es ht1_empty [OF d'(2) False] by (auto simp: ht_def)
      ultimately show ?thesis using inv' d'(3) False tb b(2) by (auto simp: i_def)
    next
      case True
      then obtain tb1 where tb1: "ht_table (ht d' 1) = Some tb1"
        using ht1_table [OF d'(2)] by (auto simp: ht_def)
      define j where "j = unat (dictHashKey d' key) mod ht_size (ht d' 1)"
      note b1 = bucket_ok [OF d'(2) tb1, of key, folded j_def]
        find_bucket [OF d'(2) tb1, of key, folded j_def]
      show ?thesis
      proof (cases "find (\<lambda>e. key = e_key e) (tb1 ! j)")
        case (Some e)
        then have "dictKeyIndex cr d key (ucast (dictHashKey d key)) = Some (d', Inl (Some e))"
          using b(1) None True b1(1) by (simp add: run hk find_key_match [OF ty])
        then show ?thesis using Some b1(6) [of e] inv' d'(3) es by auto
      next
        case none1: None
        then have "dictKeyIndex cr d key (ucast (dictHashKey d key)) = Some (d', Inr j)"
          using b(1) None True b1(1) by (simp add: run hk find_key_match [OF ty])
        moreover have "\<forall>e \<in> set (entries d). e_key e \<noteq> key"
          using None none1 b(5) b1(5) es by blast
        ultimately show ?thesis using inv' d'(3) True tb1 b1(2) by (auto simp: j_def)
      qed
    qed
  qed
qed

lemma insert_entry_ok:
  assumes inv: "dict_inv d" and t: "t = (if dictIsRehashing d then 1 else 0)"
    and tb: "ht_table (ht d t) = Some tb" and i: "i < length tb"
      "i = unat (dictHashKey d (e_key e)) mod ht_size (ht d t)"
    and new: "\<forall>e' \<in> set (entries d). e_key e' \<noteq> e_key e" and a: "e_addr e = fresh d"
  defines "d' \<equiv> (set_ht t ((ht d t)\<lparr>ht_table := Some (tb[i := e # tb ! i]),
                                   ht_used := ht_used (ht d t) + 1\<rparr>) d)\<lparr>fresh := fresh d + 1\<rparr>"
  shows "dict_inv d' \<and> mset (entries d') = add_mset e (mset (entries d)) \<and> d_type d' = d_type d
    \<and> freed_keys d' = freed_keys d \<and> freed_vals d' = freed_vals d \<and> iterators d' = iterators d"
proof -
  have ok: "dict_ok d" using inv by (simp add: dict_inv_def)
  note h = dict_ok_ht [OF ok, of t]
  define h' where "h' = (ht d t)\<lparr>ht_table := Some (tb[i := e # tb ! i]), ht_used := ht_used (ht d t) + 1\<rparr>"
  have "in_slot (d_type d) (ht_size (ht d t)) i e" using i(2) by (simp add: in_slot_def dictHashKey_def)
  then have h': "ht_ok (d_type d) h'"
    unfolding h'_def using in_bucket_slot [OF h tb i(1)] by (intro ht_ok_update [OF h tb i(1)]) auto
  have d': "d' = (if dictIsRehashing d then d\<lparr>ht1 := h', fresh := fresh d + 1\<rparr>
      else d\<lparr>ht0 := h', fresh := fresh d + 1\<rparr>)"
    by (simp add: d'_def h'_def set_ht_def t)
  have mh: "mset (entries_ht h') = add_mset e (mset (entries_ht (ht d t)))"
    using mset_concat_update [OF i(1), of "e # tb ! i"] tb by (simp add: h'_def entries_ht_def)
  then have m: "mset (entries d') = add_mset e (mset (entries d))"
    by (simp add: d' entries_def ht_def t split: if_splits)
  then have m': "mset (entries d') = mset (e # entries d)" by simp
  have oks: "ht_ok (d_type d) (ht0 d')" "ht_ok (d_type d) (ht1 d')"
    using h' ok by (auto simp: d' dict_ok_def)
  have "rehash_ok d'"
    using ok by (cases "ht_table (ht0 d)")
      (auto simp: d' dict_ok_def rehash_ok_def dictIsRehashing_def h'_def split: if_splits)
  moreover have "distinct (map e_key (entries d'))"
    unfolding distinct_map_mset [OF m'] using new ok by (auto simp: dict_ok_def)
  moreover have "addrs_ok d'"
    unfolding addrs_ok_def distinct_map_mset [OF m'] mset_eq_setD [OF m']
    using ok a by (auto simp: addrs_ok_def dict_ok_def d' less_Suc_eq)
  moreover have "d_type d' = d_type d" by (simp add: d')
  ultimately have "dict_ok d'" using oks unfolding dict_ok_def by simp
  then show ?thesis using m inv by (simp add: dict_inv_def d')
qed

lemma dictSetKey_id: "type_ok (d_type d) \<Longrightarrow> dictSetKey d k = k"
  by (simp add: dictSetKey_def type_ok_def)

lemma dictSetVal_id: "type_ok (d_type d) \<Longrightarrow> dictSetVal d v = v"
  by (simp add: dictSetVal_def type_ok_def)

lemma ht_length_bound:
  assumes "ht_ok ty h" "ht_table h = Some tb"
  shows "length tb \<le> 2 ^ 31"
proof -
  obtain k where "k < 32" "length tb = 2 ^ k" using ht_ok_Some [OF assms] by metis
  then show ?thesis by (simp only:) (intro power_increasing, auto)
qed

lemma dictAddRaw_ok:
  assumes inv: "dict_inv d" and sz: "dictSize d < 2 ^ 30"
  shows "(\<exists>d' e. dictAddRaw cr junk d key = Some (d', Inl (Some e)) \<and> dict_inv d' \<and> same_entries d d'
        \<and> e \<in> set (entries d) \<and> e_key e = key)
    \<or> (\<exists>d'. dictAddRaw cr junk d key = Some (d', Inr (fresh d)) \<and> dict_inv d'
        \<and> (\<forall>e \<in> set (entries d). e_key e \<noteq> key)
        \<and> mset (entries d') = add_mset \<lparr>e_addr = fresh d, e_key = key, e_val = junk\<rparr> (mset (entries d))
        \<and> d_type d' = d_type d \<and> freed_keys d' = freed_keys d \<and> freed_vals d' = freed_vals d)"
proof -
  obtain d1 where d1: "rehash_once d = Some d1" "dict_ok d1" "same_entries d d1"
    using rehash_once_ok [of d] inv by (auto simp: dict_inv_def)
  have inv1: "dict_inv d1" using d1 inv by (auto simp: dict_inv_def same_entries_def)
  have sz1: "dictSize d1 < 2 ^ 30" using same_size [OF _ d1(2,3)] inv sz by (simp add: dict_inv_def)
  obtain d2 r where k: "dictKeyIndex cr d1 key (ucast (dictHashKey d1 key)) = Some (d2, r)"
    "dict_inv d2" "same_entries d1 d2"
    "case r of
         Inl None \<Rightarrow> False
       | Inl (Some e) \<Rightarrow> e \<in> set (entries d1) \<and> e_key e = key
       | Inr i \<Rightarrow> (\<forall>e \<in> set (entries d1). e_key e \<noteq> key)
           \<and> (let t = (if dictIsRehashing d2 then 1 else 0)
              in \<exists>tb. ht_table (ht d2 t) = Some tb \<and> i < length tb
                   \<and> i = unat (dictHashKey d2 key) mod ht_size (ht d2 t))"
    using dictKeyIndex_ok [OF inv1 sz1] by blast
  have same: "same_entries d d2" using same_entries_trans [OF d1(3) k(3)] .
  have hk: "dictHashKey d key = dictHashKey d1 key"
    using d1(3) by (simp add: dictHashKey_def same_entries_def)
  show ?thesis
  proof (cases r)
    case (Inl x)
    then obtain e where e: "r = Inl (Some e)" "e \<in> set (entries d1)" "e_key e = key"
      using k(4) by (auto split: option.splits)
    have "dictAddRaw cr junk d key = Some (d2, Inl (Some e))"
      using d1(1) k(1) e(1) by (simp add: dictAddRaw_def hk)
    then show ?thesis using e(2,3) k(2) same set_entries_same [OF d1(3)] by auto
  next
    case (Inr i)
    define t where "t = (if dictIsRehashing d2 then 1 else 0 :: nat)"
    obtain tb where tb: "ht_table (ht d2 t) = Some tb" "i < length tb"
      "i = unat (dictHashKey d2 key) mod ht_size (ht d2 t)" "\<forall>e \<in> set (entries d1). e_key e \<noteq> key"
      using k(4) Inr by (auto simp: t_def Let_def)
    have es: "set (entries d1) = set (entries d)" "set (entries d2) = set (entries d)"
      using set_entries_same d1(3) same by auto
    define e where "e = \<lparr>e_addr = fresh d2, e_key = key, e_val = junk\<rparr>"
    have i: "i < 2 ^ 31"
      using ht_length_bound [OF dict_ok_ht tb(1)] tb(2) k(2) by (simp add: dict_inv_def)
    have fr: "fresh d2 = fresh d" using same by (simp add: same_entries_def)
    let ?d' = "(set_ht t ((ht d2 t)\<lparr>ht_table := Some (tb[i := e # tb ! i]),
                                   ht_used := ht_used (ht d2 t) + 1\<rparr>) d2)\<lparr>fresh := fresh d2 + 1\<rparr>"
    have "dictAddRaw cr junk d key = Some (?d', Inr (fresh d2))"
      using d1(1) k(1,2) Inr tb i
      by (simp add: dictAddRaw_def hk Let_def t_def e_def dict_inv_def dictSetKey_id)
    moreover have "dict_inv ?d' \<and> mset (entries ?d') = add_mset e (mset (entries d2))
        \<and> d_type ?d' = d_type d2 \<and> freed_keys ?d' = freed_keys d2 \<and> freed_vals ?d' = freed_vals d2
        \<and> iterators ?d' = iterators d2"
      using tb es by (intro insert_entry_ok [OF k(2) t_def]) (auto simp: e_def)
    ultimately show ?thesis using same es tb(4)
      by (auto simp: e_def fr same_entries_def)
  qed
qed

section \<open>Setting a value\<close>

lemma entries_ht_set_val: "entries_ht (set_ht_val a v h) = map (set_entry_val a v) (entries_ht h)"
  by (cases "ht_table h") (simp_all add: entries_ht_def set_ht_val_def map_concat)

lemma entries_set_val_at: "entries (set_val_at a v d) = map (set_entry_val a v) (entries d)"
  by (simp add: entries_def set_val_at_def entries_ht_set_val)

lemma set_entry_val_simps [simp]:
  "e_key (set_entry_val a v e) = e_key e" "e_addr (set_entry_val a v e) = e_addr e"
  by (simp_all add: set_entry_val_def)

lemma ht_ok_set_val: "ht_ok ty h \<Longrightarrow> ht_ok ty (set_ht_val a v h)"
  by (cases "ht_table h")
    (auto simp: ht_ok_def set_ht_val_def in_slot_def length_concat comp_def)

lemma set_val_at_frame [simp]:
  "d_type (set_val_at a v d) = d_type d" "freed_keys (set_val_at a v d) = freed_keys d"
  "freed_vals (set_val_at a v d) = freed_vals d" "fresh (set_val_at a v d) = fresh d"
  by (simp_all add: set_val_at_def)

lemma dict_inv_set_val:
  assumes "dict_inv d"
  shows "dict_inv (set_val_at a v d)"
proof -
  have k: "map e_key (entries (set_val_at a v d)) = map e_key (entries d)"
    "map e_addr (entries (set_val_at a v d)) = map e_addr (entries d)"
    by (simp_all add: entries_set_val_at comp_def)
  have r: "rehash_ok (set_val_at a v d)"
    using assms by (auto simp: dict_inv_def dict_ok_def rehash_ok_def dictIsRehashing_def empty_upto_iff
        set_val_at_def set_ht_val_def dictReset_def)
  have "addrs_ok (set_val_at a v d)"
    using assms by (simp add: addrs_ok_def dict_inv_def dict_ok_def k) (simp add: entries_set_val_at)
  then show ?thesis
    using assms k r ht_ok_set_val by (simp add: dict_inv_def dict_ok_def) (simp add: set_val_at_def ht_ok_set_val)
qed

lemma dict_map_set_val:
  assumes inv: "dict_inv d" and e: "e \<in> set (entries d)" "e_key e = k" "e_addr e = a"
  shows "dict_map (set_val_at a v d) = (dict_map d)(k \<mapsto> v)"
proof (rule ext)
  fix x
  have ok: "dict_ok d" using inv by (simp add: dict_inv_def)
  have ok': "dict_ok (set_val_at a v d)" using dict_inv_set_val [OF inv] by (simp add: dict_inv_def)
  have da: "distinct (map e_addr (entries d))" and dk: "distinct (map e_key (entries d))"
    using ok by (auto simp: dict_ok_def addrs_ok_def)
  have same: "e' = e" if "e' \<in> set (entries d)" "e_addr e' = a" for e'
    using that e da by (auto simp: distinct_map inj_on_def)
  have samek: "e' = e" if "e' \<in> set (entries d)" "e_key e' = k" for e'
    using that e dk by (auto simp: distinct_map inj_on_def)
  show "dict_map (set_val_at a v d) x = ((dict_map d)(k \<mapsto> v)) x"
  proof (cases "x = k")
    case True
    have "set_entry_val a v e \<in> set (entries (set_val_at a v d))" using e by (simp add: entries_set_val_at)
    then have "dict_map (set_val_at a v d) k = Some v"
      unfolding dict_map_Some [OF ok'] using e by (intro bexI) (auto simp: set_entry_val_def)
    then show ?thesis using True by simp
  next
    case False
    have keep: "set_entry_val a v e' = e'" if "e' \<in> set (entries d)" "e_key e' = x" for e'
      using same [OF that(1)] that False e by (auto simp: set_entry_val_def)
    show ?thesis
    proof (cases "dict_map d x")
      case None
      then have "dict_map (set_val_at a v d) x = None"
        by (auto simp: dict_map_None entries_set_val_at)
      then show ?thesis using None False by simp
    next
      case (Some w)
      then obtain e' where e': "e' \<in> set (entries d)" "e_key e' = x" "e_val e' = w"
        using dict_map_Some [OF ok] by auto
      then have "e' \<in> set (entries (set_val_at a v d))"
        using keep [OF e'(1,2)] by (auto simp: entries_set_val_at intro!: image_eqI [of e' _ e'])
      then have "dict_map (set_val_at a v d) x = Some w"
        using e' dict_map_Some [OF ok'] by auto
      then show ?thesis using Some False by simp
    qed
  qed
qed

section \<open>Adding, replacing\<close>

lemma dict_map_add_mset:
  assumes ok: "dict_ok d" "dict_ok d'" and m: "mset (entries d') = add_mset e (mset (entries d))"
  shows "dict_map d' = (dict_map d)(e_key e \<mapsto> e_val e)"
proof (rule ext)
  fix x
  have es: "set (entries d') = insert e (set (entries d))"
    using m by (metis mset.simps(2) mset_eq_setD list.set(2))
  have "mset (entries d') = mset (e # entries d)" using m by simp
  from distinct_map_mset [OF this, of e_key]
  have new: "\<forall>e' \<in> set (entries d). e_key e' \<noteq> e_key e"
    using ok by (auto simp: dict_ok_def image_iff)
  show "dict_map d' x = ((dict_map d)(e_key e \<mapsto> e_val e)) x"
  proof (cases "x = e_key e")
    case True
    then show ?thesis using dict_map_Some [OF ok(2), of x "e_val e"] es by auto
  next
    case False
    show ?thesis
    proof (cases "dict_map d x")
      case None
      then have "dict_map d' x = None" using False by (auto simp: dict_map_None es)
      then show ?thesis using None False by simp
    next
      case (Some w)
      then have "dict_map d' x = Some w"
        using False dict_map_Some [OF ok(1)] dict_map_Some [OF ok(2)] es by auto
      then show ?thesis using Some False by simp
    qed
  qed
qed

text \<open>A fresh entry whose value is then set.\<close>

lemma add_set_val:
  assumes inv: "dict_inv d" "dict_inv d'"
    and m: "mset (entries d') = add_mset \<lparr>e_addr = a, e_key = k, e_val = junk\<rparr> (mset (entries d))"
  shows "dict_map (set_val_at a v d') = (dict_map d)(k \<mapsto> v)"
    and "dictSize (set_val_at a v d') = Suc (dictSize d)"
proof -
  let ?e = "\<lparr>e_addr = a, e_key = k, e_val = junk\<rparr>"
  have ok: "dict_ok d" "dict_ok d'" using inv by (auto simp: dict_inv_def)
  have "?e \<in> set (entries d')"
    using m by (metis union_single_eq_member set_mset_mset)
  then have "dict_map (set_val_at a v d') = (dict_map d')(k \<mapsto> v)"
    by (intro dict_map_set_val [OF inv(2), of ?e]) simp_all
  then show "dict_map (set_val_at a v d') = (dict_map d)(k \<mapsto> v)"
    using dict_map_add_mset [OF ok m] by simp
  have "dict_ok (set_val_at a v d')" using dict_inv_set_val [OF inv(2)] by (simp add: dict_inv_def)
  moreover have "length (entries d') = Suc (length (entries d))"
    using arg_cong [OF m, of size] by simp
  ultimately show "dictSize (set_val_at a v d') = Suc (dictSize d)"
    using ok by (simp add: dict_size_entries entries_set_val_at)
qed

lemma dictAdd_ok:
  assumes inv: "dict_inv d" and sz: "dictSize d < 2 ^ 30"
  shows "\<exists>d'. dictAdd cr junk d key val = Some (d', if dict_map d key = None then DICT_OK else DICT_ERR)
    \<and> dict_inv d' \<and> d_type d' = d_type d
    \<and> dict_map d' = (if dict_map d key = None then (dict_map d)(key \<mapsto> val) else dict_map d)
    \<and> dictSize d' = (if dict_map d key = None then Suc (dictSize d) else dictSize d)
    \<and> freed_keys d' = freed_keys d \<and> freed_vals d' = freed_vals d"
  using dictAddRaw_ok [OF inv sz, of cr junk key]
proof (elim disjE exE conjE)
  fix d' e
  assume h: "dictAddRaw cr junk d key = Some (d', Inl (Some e))" "dict_inv d'" "same_entries d d'"
    "e \<in> set (entries d)" "e_key e = key"
  then have "dict_map d key \<noteq> None" by (auto simp: dict_map_None)
  then show ?thesis using h inv dict_map_same [of d d'] same_size [of d d']
    by (auto simp: dictAdd_def dict_inv_def) (auto simp: same_entries_def)
next
  fix d'
  assume h: "dictAddRaw cr junk d key = Some (d', Inr (fresh d))" "dict_inv d'"
    "\<forall>e \<in> set (entries d). e_key e \<noteq> key"
    "mset (entries d') = add_mset \<lparr>e_addr = fresh d, e_key = key, e_val = junk\<rparr> (mset (entries d))"
    "d_type d' = d_type d" "freed_keys d' = freed_keys d" "freed_vals d' = freed_vals d"
  have none: "dict_map d key = None" using h(3) by (simp add: dict_map_None)
  have "dictSetVal d' val = val" using h(2) by (simp add: dict_inv_def dictSetVal_id)
  then have "dictAdd cr junk d key val = Some (set_val_at (fresh d) val d', DICT_OK)"
    using h(1) by (simp add: dictAdd_def)
  then show ?thesis
    using none h dict_inv_set_val [OF h(2)] add_set_val [OF inv h(2,4)] by auto
qed

lemma dictReplace_ok:
  assumes inv: "dict_inv d" and sz: "dictSize d < 2 ^ 30"
  shows "\<exists>d'. dictReplace cr junk d key val = Some (d', dict_map d key = None)
    \<and> dict_inv d' \<and> d_type d' = d_type d \<and> dict_map d' = (dict_map d)(key \<mapsto> val)
    \<and> freed_keys d' = freed_keys d \<and> dictSize d' \<le> Suc (dictSize d)
    \<and> freed_vals d' = (case dict_map d key of
          Some old \<Rightarrow> if valDestructor (d_type d) then old # freed_vals d else freed_vals d
        | None \<Rightarrow> freed_vals d)"
  using dictAddRaw_ok [OF inv sz, of cr junk key]
proof (elim disjE exE conjE)
  fix d' e
  assume h: "dictAddRaw cr junk d key = Some (d', Inl (Some e))" "dict_inv d'" "same_entries d d'"
    "e \<in> set (entries d)" "e_key e = key"
  have old: "dict_map d key = Some (e_val e)"
    using h(4,5) inv by (auto simp: dict_inv_def dict_map_Some)
  have e': "e \<in> set (entries d')" using h(4) set_entries_same [OF h(3)] by simp
  have "dictSetVal d' val = val" using h(2) by (simp add: dict_inv_def dictSetVal_id)
  then have run: "dictReplace cr junk d key val =
      Some (dictFreeVal e (set_val_at (e_addr e) val d'), False)"
    using h(1) by (simp add: dictReplace_def)
  have m: "dict_map (set_val_at (e_addr e) val d') = (dict_map d)(key \<mapsto> val)"
    using dict_map_set_val [OF h(2) e' h(5) refl] dict_map_same [of d d'] h(2,3) inv
    by (simp add: dict_inv_def)
  have fr: "dict_inv (dictFreeVal e x) = dict_inv x" "dict_map (dictFreeVal e x) = dict_map x"
    "d_type (dictFreeVal e x) = d_type x" "freed_keys (dictFreeVal e x) = freed_keys x" for x
    by (simp_all add: dictFreeVal_def dict_inv_def dict_ok_def rehash_ok_def addrs_ok_def entries_def
        dictIsRehashing_def dict_map_def)
  have "freed_vals (dictFreeVal e (set_val_at (e_addr e) val d')) =
      (if valDestructor (d_type d) then e_val e # freed_vals d else freed_vals d)"
    using h(3) by (simp add: dictFreeVal_def same_entries_def)
  moreover have "dictSize (dictFreeVal e (set_val_at (e_addr e) val d')) = dictSize d"
  proof -
    have "dictSize (dictFreeVal e x) = dictSize x" for x
      by (simp add: dictFreeVal_def dictSize_def)
    moreover have "dictSize (set_val_at (e_addr e) val d') = dictSize d'"
      by (simp add: dictSize_def set_val_at_def set_ht_val_def)
    ultimately show ?thesis using same_size [of d d'] h(2,3) inv by (simp add: dict_inv_def)
  qed
  ultimately show ?thesis using run m old h(3) dict_inv_set_val [OF h(2)]
    by (intro exI [of _ "dictFreeVal e (set_val_at (e_addr e) val d')"])
      (simp add: fr same_entries_def)
next
  fix d'
  assume h: "dictAddRaw cr junk d key = Some (d', Inr (fresh d))" "dict_inv d'"
    "\<forall>e \<in> set (entries d). e_key e \<noteq> key"
    "mset (entries d') = add_mset \<lparr>e_addr = fresh d, e_key = key, e_val = junk\<rparr> (mset (entries d))"
    "d_type d' = d_type d" "freed_keys d' = freed_keys d" "freed_vals d' = freed_vals d"
  have none: "dict_map d key = None" using h(3) by (simp add: dict_map_None)
  have "dictSetVal d' val = val" using h(2) by (simp add: dict_inv_def dictSetVal_id)
  then have "dictReplace cr junk d key val = Some (set_val_at (fresh d) val d', True)"
    using h(1) by (simp add: dictReplace_def)
  then show ?thesis
    using none h dict_inv_set_val [OF h(2)] add_set_val [OF inv h(2,4)] by auto
qed

section \<open>Deleting\<close>

lemma unlink_None: "unlink m ch = None \<longleftrightarrow> find m ch = None"
  by (induction ch) auto

lemma unlink_Some:
  "unlink m ch = Some (he, ch') \<Longrightarrow> find m ch = Some he \<and> mset ch = add_mset he (mset ch')"
  by (induction ch arbitrary: ch') (auto split: if_splits)

lemma delete_found_ok:
  fixes nofree :: bool
  assumes inv: "dict_inv d" and tb: "ht_table (ht d t) = Some tb" and t: "t \<le> 1"
    and i: "i < length tb" and m: "mset (tb ! i) = add_mset he (mset ch)"
  defines "d' \<equiv> delete_found d nofree t i he ch"
  shows "dict_inv d' \<and> add_mset he (mset (entries d')) = mset (entries d) \<and> d_type d' = d_type d
    \<and> freed_keys d' = (if \<not> nofree \<and> keyDestructor (d_type d) then e_key he # freed_keys d else freed_keys d)
    \<and> freed_vals d' = (if \<not> nofree \<and> valDestructor (d_type d) then e_val he # freed_vals d else freed_vals d)"
proof -
  have ok: "dict_ok d" using inv by (simp add: dict_inv_def)
  note h = dict_ok_ht [OF ok, of t]
  define h' where "h' = (ht d t)\<lparr>ht_table := Some (tb[i := ch]), ht_used := ht_used (ht d t) - 1\<rparr>"
  have len: "length (tb ! i) = Suc (length ch)" using arg_cong [OF m, of size] by simp
  have used: "ht_used (ht d t) = length (concat tb)" using h tb by (simp add: ht_ok_def)
  then have pos: "0 < ht_used (ht d t)"
    using concat_update_length [OF i, of "[]"] len unfolding used list.size(3) by linarith
  have "set ch \<subseteq> set (tb ! i)" using m by (metis mset_eq_setD mset.simps(2) set_subset_Cons)
  then have h': "ht_ok (d_type d) h'"
    unfolding h'_def using in_bucket_slot [OF h tb i] len pos
    by (intro ht_ok_update [OF h tb i]) auto
  have fr: "ht0 d' = (if t = 0 then h' else ht0 d)" "ht1 d' = (if t = 0 then ht1 d else h')"
    "d_type d' = d_type d" "rehashidx d' = rehashidx d" "fresh d' = fresh d"
    using tb pos
    by (cases "t = 0"; simp_all add: d'_def delete_found_def Let_def set_ht_def dictFreeKey_def dictFreeVal_def
        ht_def h'_def ul_dec_pos)+
  have mh: "add_mset he (mset (entries_ht h')) = mset (entries_ht (ht d t))"
    using mset_concat_update [OF i, of ch] tb m by (simp add: h'_def entries_ht_def)
  have me: "add_mset he (mset (entries d')) = mset (entries d)"
    using mh by (auto simp: entries_def fr ht_def)
  then have me': "mset (he # entries d') = mset (entries d)" by simp
  have dist: "distinct (map e_key (he # entries d'))" "distinct (map e_addr (he # entries d'))"
    unfolding distinct_map_mset [OF me'] using ok by (auto simp: dict_ok_def addrs_ok_def)
  have "\<forall>e \<in> set (entries d'). e_addr e < fresh d"
    using ok mset_eq_setD [OF me'] by (auto simp: dict_ok_def addrs_ok_def)
  then have addrs: "addrs_ok d'" using dist by (simp add: addrs_ok_def fr)
  have empt: "\<forall>j < n. tb[i := ch] ! j = []" if "\<forall>j < n. tb ! j = []" for n
    using that len by (metis length_0_conv nat.distinct(1) nth_list_update_neq)
  have ro: "rehash_ok d" and nt: "t = 1 \<Longrightarrow> dictIsRehashing d"
    using ok tb by (auto simp: dict_ok_def rehash_ok_def ht_def dictReset_def split: if_splits)
  have "rehash_ok d'"
  proof (cases "t = 0")
    case True
    then have "ht_table (ht0 d) = Some tb" using tb by (simp add: ht_def)
    then show ?thesis using ro empt True
      by (auto simp: rehash_ok_def dictIsRehashing_def fr h'_def)
  next
    case False
    then have "dictIsRehashing d" using nt t by simp
    then show ?thesis using ro False
      by (auto simp: rehash_ok_def dictIsRehashing_def fr h'_def)
  qed
  then have "dict_ok d'" using dist addrs h' ok by (simp add: dict_ok_def fr)
  moreover have "freed_keys d' = (if \<not> nofree \<and> keyDestructor (d_type d) then e_key he # freed_keys d else freed_keys d)"
    "freed_vals d' = (if \<not> nofree \<and> valDestructor (d_type d) then e_val he # freed_vals d else freed_vals d)"
    by (simp_all add: d'_def delete_found_def Let_def set_ht_def dictFreeKey_def dictFreeVal_def)
  ultimately show ?thesis using me inv by (simp add: dict_inv_def fr)
qed

lemma dictGenericDelete_ok:
  assumes inv: "dict_inv d"
  shows "(\<exists>d'. dictGenericDelete d key nofree = Some (d', None) \<and> dict_inv d' \<and> same_entries d d'
        \<and> (\<forall>e \<in> set (entries d). e_key e \<noteq> key))
    \<or> (\<exists>d' e. dictGenericDelete d key nofree = Some (d', Some e) \<and> dict_inv d'
        \<and> e_key e = key \<and> add_mset e (mset (entries d')) = mset (entries d) \<and> d_type d' = d_type d
        \<and> freed_keys d' = (if \<not> nofree \<and> keyDestructor (d_type d) then e_key e # freed_keys d else freed_keys d)
        \<and> freed_vals d' = (if \<not> nofree \<and> valDestructor (d_type d) then e_val e # freed_vals d else freed_vals d))"
proof (cases "dictSize d = 0")
  case True
  then have "entries d = []" using inv by (simp add: dict_inv_def dict_size_entries)
  then show ?thesis using True inv by (simp add: dictGenericDelete_def dictSize_def)
next
  case False
  obtain d' where d': "rehash_once d = Some d'" "dict_ok d'" "same_entries d d'"
    using rehash_once_ok [of d] inv by (auto simp: dict_inv_def)
  have ty: "type_ok (d_type d')" and inv': "dict_inv d'"
    using d' inv by (auto simp: dict_inv_def same_entries_def)
  obtain tb where tb: "ht_table (ht d' 0) = Some tb"
    using ht0_table [OF d'(2)] same_size [OF _ d'(2,3)] False inv by (auto simp: dict_inv_def ht_def)
  define i where "i = unat (dictHashKey d' key) mod ht_size (ht d' 0)"
  note b = bucket_ok [OF d'(2) tb, of key, folded i_def]
    find_bucket [OF d'(2) tb, of key, folded i_def]
  have nz: "\<not> (ht_used (ht0 d) = 0 \<and> ht_used (ht1 d) = 0)" using False by (simp add: dictSize_def)
  note run = dictGenericDelete_def [of d key, unfolded if_not_P [OF nz] d'(1)]
  note es = set_entries_same [OF d'(3)] set_entries [of d']
  have fin: ?thesis
    if "dictGenericDelete d key nofree = Some (delete_found d' nofree t j he ch, Some he)" "t \<le> 1"
      "ht_table (ht d' t) = Some tb'" "j < length tb'" "unlink (\<lambda>e. key = e_key e) (tb' ! j) = Some (he, ch)"
    for t j he ch tb'
  proof -
    have u: "find (\<lambda>e. key = e_key e) (tb' ! j) = Some he" "mset (tb' ! j) = add_mset he (mset ch)"
      using unlink_Some [OF that(5)] by auto
    show ?thesis
      using delete_found_ok [OF inv' that(3,2,4) u(2), of nofree] that(1) find_SomeD [OF u(1)] d'(3)
      by (auto simp: same_entries_def)
  qed
  show ?thesis
  proof (cases "unlink (\<lambda>e. key = e_key e) (tb ! i)")
    case (Some p)
    then obtain he ch where p: "unlink (\<lambda>e. key = e_key e) (tb ! i) = Some (he, ch)" by (cases p) simp
    then have "dictGenericDelete d key nofree = Some (delete_found d' nofree 0 i he ch, Some he)"
      unfolding run using b(1) by (simp add: find_key_match [OF ty])
    then show ?thesis using p tb b(2) by (intro fin) auto
  next
    case None
    note n0 = None [unfolded unlink_None]
    show ?thesis
    proof (cases "dictIsRehashing d'")
      case False
      then have "dictGenericDelete d key nofree = Some (d', None)"
        unfolding run using b(1) None by (simp add: find_key_match [OF ty])
      then show ?thesis using n0 b(5) inv' d'(3) es ht1_empty [OF d'(2) False]
        by (auto simp: ht_def)
    next
      case True
      then obtain tb1 where tb1: "ht_table (ht d' 1) = Some tb1"
        using ht1_table [OF d'(2)] by (auto simp: ht_def)
      define j where "j = unat (dictHashKey d' key) mod ht_size (ht d' 1)"
      note b1 = bucket_ok [OF d'(2) tb1, of key, folded j_def]
        find_bucket [OF d'(2) tb1, of key, folded j_def]
      show ?thesis
      proof (cases "unlink (\<lambda>e. key = e_key e) (tb1 ! j)")
        case (Some p)
        then obtain he ch where p: "unlink (\<lambda>e. key = e_key e) (tb1 ! j) = Some (he, ch)" by (cases p) simp
        then have "dictGenericDelete d key nofree = Some (delete_found d' nofree 1 j he ch, Some he)"
          unfolding run using b(1) None True b1(1) by (simp add: find_key_match [OF ty])
        then show ?thesis using p tb1 b1(2) by (intro fin) auto
      next
        case none1: None
        then have "dictGenericDelete d key nofree = Some (d', None)"
          unfolding run using b(1) None True b1(1) by (simp add: find_key_match [OF ty])
        moreover have "\<forall>e \<in> set (entries d). e_key e \<noteq> key"
          using n0 none1 [unfolded unlink_None] b(5) b1(5) es by blast
        ultimately show ?thesis using inv' d'(3) by blast
      qed
    qed
  qed
qed

lemma dictDelete_ok:
  assumes inv: "dict_inv d"
  shows "\<exists>d'. dictDelete d key = Some (d', if dict_map d key = None then DICT_ERR else DICT_OK)
    \<and> dict_inv d' \<and> d_type d' = d_type d \<and> dict_map d' = (dict_map d)(key := None)
    \<and> dictSize d' \<le> dictSize d
    \<and> freed_keys d' = (if dict_map d key \<noteq> None \<and> keyDestructor (d_type d)
        then key # freed_keys d else freed_keys d)
    \<and> freed_vals d' = (case dict_map d key of
          Some v \<Rightarrow> if valDestructor (d_type d) then v # freed_vals d else freed_vals d
        | None \<Rightarrow> freed_vals d)"
  using dictGenericDelete_ok [OF inv, of key False]
proof (elim disjE exE conjE)
  fix d'
  assume h: "dictGenericDelete d key False = Some (d', None)" "dict_inv d'" "same_entries d d'"
    "\<forall>e \<in> set (entries d). e_key e \<noteq> key"
  have none: "dict_map d key = None" using h(4) by (simp add: dict_map_None)
  moreover have "dict_map d' = dict_map d"
    using dict_map_same [of d d'] h inv by (simp add: dict_inv_def)
  ultimately have "dict_map d' = (dict_map d)(key := None)" by (simp add: fun_upd_idem)
  moreover have "dictSize d' = dictSize d" using same_size [of d d'] h inv by (simp add: dict_inv_def)
  ultimately show ?thesis using h none by (simp add: dictDelete_def same_entries_def)
next
  fix d' e
  assume h: "dictGenericDelete d key False = Some (d', Some e)" "dict_inv d'" "e_key e = key"
    "add_mset e (mset (entries d')) = mset (entries d)" "d_type d' = d_type d"
    "freed_keys d' = (if \<not> False \<and> keyDestructor (d_type d) then e_key e # freed_keys d else freed_keys d)"
    "freed_vals d' = (if \<not> False \<and> valDestructor (d_type d) then e_val e # freed_vals d else freed_vals d)"
  have ok: "dict_ok d" "dict_ok d'" using inv h(2) by (auto simp: dict_inv_def)
  have m: "dict_map d = (dict_map d')(key \<mapsto> e_val e)"
    using dict_map_add_mset [OF ok(2,1) h(4) [symmetric]] h(3) by simp
  have "mset (e # entries d') = mset (entries d)" using h(4) by simp
  from distinct_map_mset [OF this, of e_key] have "\<forall>e' \<in> set (entries d'). e_key e' \<noteq> key"
    using ok h(3) by (auto simp: dict_ok_def image_iff)
  then have "dict_map d' key = None" by (simp add: dict_map_None)
  then have "dict_map d' = (dict_map d)(key := None)" by (simp add: m fun_upd_idem)
  moreover have "dictSize d' \<le> dictSize d"
    using ok arg_cong [OF h(4), of size] by (simp add: dict_size_entries)
  ultimately show ?thesis using h m by (simp add: dictDelete_def)
qed

section \<open>Clearing\<close>

definition keys_freed :: "('k, 'v) dictType \<Rightarrow> ('k, 'v) dictEntry list \<Rightarrow> 'k list" where
  "keys_freed ty es = (if keyDestructor ty then rev (map e_key es) else [])"

definition vals_freed :: "('k, 'v) dictType \<Rightarrow> ('k, 'v) dictEntry list \<Rightarrow> 'v list" where
  "vals_freed ty es = (if valDestructor ty then rev (map e_val es) else [])"

lemma fold_free_entry:
  "fold free_entry es d = d\<lparr>freed_keys := keys_freed (d_type d) es @ freed_keys d,
     freed_vals := vals_freed (d_type d) es @ freed_vals d\<rparr>"
  by (induction es arbitrary: d)
    (auto simp: free_entry_def dictFreeKey_def dictFreeVal_def keys_freed_def vals_freed_def)

lemma ul_dec_funpow: "n \<le> m \<Longrightarrow> (ul_dec ^^ n) m = m - n"
  by (induction n) (auto simp: ul_dec_def)

lemma clear_loop_ok:
  "used = length (concat chs) \<Longrightarrow> clear_loop d chs used = (fold free_entry (concat chs) d, 0)"
proof (induction chs arbitrary: d used)
  case Nil
  then show ?case by simp
next
  case (Cons ch chs)
  show ?case
  proof (cases "used = 0")
    case True
    then have "length (concat (ch # chs)) = 0" using Cons.prems by (simp only:)
    then have "ch = []" "concat chs = []" by (auto simp only: length_0_conv concat.simps append_is_Nil_conv)
    then show ?thesis using True by (simp del: concat_eq_Nil_conv)
  next
    case False
    then have "(ul_dec ^^ length ch) used = length (concat chs)"
      using Cons.prems ul_dec_funpow [of "length ch" used] by simp
    then show ?thesis using Cons.IH [OF refl, of "fold free_entry ch d"] False by simp
  qed
qed

lemma dictClear_eq:
  assumes "ht_ok (d_type d) (ht d t)"
  shows "dictClear d t = set_ht t dictReset (fold free_entry (entries_ht (ht d t)) d)"
proof (cases "ht_table (ht d t)")
  case None
  then show ?thesis by (simp add: dictClear_def entries_ht_def)
next
  case (Some tb)
  then have "ht_used (ht d t) = length (concat tb)" "length tb = ht_size (ht d t)"
    using assms by (auto simp: ht_ok_def)
  then show ?thesis using Some clear_loop_ok [of _ tb d] by (simp add: dictClear_def entries_ht_def)
qed

lemma dictEmpty_eq:
  assumes "dict_ok d"
  shows "dictEmpty d = d\<lparr>ht0 := dictReset, ht1 := dictReset, rehashidx := -1, iterators := 0,
     freed_keys := keys_freed (d_type d) (entries d) @ freed_keys d,
     freed_vals := vals_freed (d_type d) (entries d) @ freed_vals d\<rparr>"
proof -
  have h: "ht_ok (d_type d) (ht d 0)" "ht_ok (d_type d) (ht d 1)"
    using dict_ok_ht [OF assms] by auto
  define d0 where "d0 = set_ht 0 dictReset (fold free_entry (entries_ht (ht d 0)) d)"
  have "dictClear d 0 = d0" using dictClear_eq [OF h(1)] by (simp add: d0_def)
  moreover have "ht d0 1 = ht d 1" "d_type d0 = d_type d"
    by (simp_all add: d0_def fold_free_entry set_ht_def ht_def)
  ultimately have "dictEmpty d = (set_ht 1 dictReset (fold free_entry (entries_ht (ht d 1)) d0))
      \<lparr>rehashidx := -1, iterators := 0\<rparr>"
    using dictClear_eq [of d0 1] h by (simp add: dictEmpty_def)
  then show ?thesis
    by (simp add: d0_def fold_free_entry set_ht_def ht_def keys_freed_def vals_freed_def entries_def)
qed

lemma dictRelease_eq:
  assumes "dict_ok d"
  shows "dictRelease d = (keys_freed (d_type d) (entries d) @ freed_keys d,
     vals_freed (d_type d) (entries d) @ freed_vals d)"
  using arg_cong [OF dictEmpty_eq [OF assms], of "\<lambda>x. (freed_keys x, freed_vals x)"]
  by (simp add: dictRelease_def dictEmpty_def)

lemma dictEmpty_inv:
  assumes "dict_inv d"
  shows "dict_inv (dictEmpty d) \<and> dict_map (dictEmpty d) = Map.empty"
proof -
  have ok: "dict_ok d" using assms by (simp add: dict_inv_def)
  have "entries (dictEmpty d) = []"
    by (simp add: dictEmpty_eq [OF ok] entries_def entries_ht_def dictReset_def)
  moreover have "ht_ok ty dictReset" for ty :: "('a, 'b) dictType"
    by (simp add: ht_ok_def dictReset_def)
  ultimately show ?thesis using assms
    by (simp add: dict_inv_def dict_ok_def addrs_ok_def dict_map_def rehash_ok_def)
      (simp add: dictEmpty_eq [OF ok] dictIsRehashing_def)
qed

lemma dictCreate_inv: "type_ok ty \<Longrightarrow> dict_inv (dictCreate ty) \<and> dict_map (dictCreate ty) = Map.empty"
  by (simp add: dict_inv_def dict_ok_def dictCreate_def ht_ok_def dictReset_def rehash_ok_def
      dictIsRehashing_def entries_def entries_ht_def addrs_ok_def dict_map_def)

lemma type_ok_Benchmark: "type_ok (BenchmarkDictType seed)" "type_ok (BenchmarkDictTypeNoFreeValue seed)"
  by (auto simp: type_ok_def BenchmarkDictType_def BenchmarkDictTypeNoFreeValue_def
      compareCallback_def Let_def)

section \<open>Rehashing ends\<close>

text \<open>The dictionary after \<open>n\<close> calls of \<open>dictRehash(d, 1)\<close>.\<close>

fun rehash_calls :: "nat \<Rightarrow> ('k, 'v) dict \<Rightarrow> ('k, 'v) dict option" where
  "rehash_calls 0 d = Some d"
| "rehash_calls (Suc n) d = do { (d, _) \<leftarrow> dictRehash d 1; rehash_calls n d }"

lemma rehash_calls_ok:
  assumes "dict_inv d" "dictIsRehashing d \<Longrightarrow> nat (rehashidx d) + n > ht_size (ht0 d)"
  shows "\<exists>d'. rehash_calls n d = Some d' \<and> dict_inv d' \<and> same_entries d d' \<and> \<not> dictIsRehashing d'"
  using assms
proof (induction n arbitrary: d)
  case 0
  then show ?case
    by (auto simp: dict_inv_def dict_ok_def rehash_ok_def empty_upto_iff ht_ok_def split: if_splits)
next
  case (Suc n)
  obtain d1 b where d1: "dictRehash d 1 = Some (d1, b)" "dict_ok d1" "same_entries d d1"
    "dictIsRehashing d \<longrightarrow> rehash_progress d d1" "dictIsRehashing d1 \<longrightarrow> dictIsRehashing d"
    using dictRehash_ok [of d 1] Suc.prems(1) by (auto simp: dict_inv_def)
  have inv1: "dict_inv d1" using d1 Suc.prems(1) by (auto simp: dict_inv_def same_entries_def)
  have "nat (rehashidx d1) + n > ht_size (ht0 d1)" if r: "dictIsRehashing d1"
  proof -
    have "rehashidx d < rehashidx d1" "ht_size (ht0 d1) = ht_size (ht0 d)"
      using d1(4,5) r by (auto simp: rehash_progress_def)
    moreover have "0 \<le> rehashidx d"
      using d1(5) r Suc.prems(1) by (auto simp: dict_inv_def dict_ok_def rehash_ok_def)
    ultimately show ?thesis using Suc.prems(2) d1(5) r by simp
  qed
  from Suc.IH [OF inv1 this] show ?case using d1(1) same_entries_trans [OF d1(3)] by auto
qed

section \<open>The dictionary is a key-value store\<close>

interpretation dict_kv: kv_store dict_inv dict_map dictSize "2 ^ 30"
  dictFetchValue "dictAdd cr junk" "dictReplace cr junk" dictDelete
proof unfold_locales
  fix s :: "('a, 'b) dict" and k
  assume inv: "dict_inv s"
  obtain d' where d': "dictFetchValue s k = Some (d', dict_map s k)" "dict_inv d'" "same_entries s d'"
    using dictFetchValue_ok [OF inv, of k] by blast
  have "dict_map d' = dict_map s" "dictSize d' = dictSize s"
    using dict_map_same [OF _ _ d'(3)] same_size [OF _ _ d'(3)] inv d'(2) by (simp_all add: dict_inv_def)
  then show "\<exists>s'. dictFetchValue s k = Some (s', dict_map s k) \<and> dict_inv s' \<and> dict_map s' = dict_map s
      \<and> dictSize s' = dictSize s"
    using d' by blast
  show "\<exists>s'. dictDelete s k = Some (s', if dict_map s k = None then DICT_ERR else DICT_OK) \<and> dict_inv s'
      \<and> dict_map s' = (dict_map s)(k := None) \<and> dictSize s' \<le> dictSize s"
    using dictDelete_ok [OF inv, of k] by blast
next
  fix s :: "('a, 'b) dict" and k and v :: 'b
  assume inv: "dict_inv s" and room: "dictSize s < 2 ^ 30"
  obtain d' where "dictAdd cr junk s k v = Some (d', if dict_map s k = None then DICT_OK else DICT_ERR)"
    "dict_inv d'" "dict_map d' = (if dict_map s k = None then (dict_map s)(k \<mapsto> v) else dict_map s)"
    "dictSize d' = (if dict_map s k = None then Suc (dictSize s) else dictSize s)"
    using dictAdd_ok [OF inv room, of cr junk k v] by blast
  moreover from this(4) have "dictSize d' \<le> Suc (dictSize s)" by simp
  ultimately show "\<exists>s'. dictAdd cr junk s k v = Some (s', if dict_map s k = None then DICT_OK else DICT_ERR)
      \<and> dict_inv s' \<and> dict_map s' = (if dict_map s k = None then (dict_map s)(k \<mapsto> v) else dict_map s)
      \<and> dictSize s' \<le> Suc (dictSize s)"
    by blast
  show "\<exists>s'. dictReplace cr junk s k v = Some (s', dict_map s k = None) \<and> dict_inv s'
      \<and> dict_map s' = (dict_map s)(k \<mapsto> v) \<and> dictSize s' \<le> Suc (dictSize s)"
    using dictReplace_ok [OF inv room, of cr junk k v] by blast
qed

lemma dictCreateEx_facts [simp]:
  "dict_inv (dictCreateEx seed)" "dict_map (dictCreateEx seed) = Map.empty"
  "dictSize (dictCreateEx seed) = 0" "freed_keys (dictCreateEx seed) = []"
  "freed_vals (dictCreateEx seed) = []" "d_type (dictCreateEx seed) = BenchmarkDictType seed"
  using dictCreate_inv [OF type_ok_Benchmark(1), of seed]
  by (auto simp: dictCreateEx_def) (simp_all add: dictSize_def dictCreate_def dictReset_def)

lemma dictReplace_list:
  "dict_inv d \<Longrightarrow> dictSize d + length kvs < 2 ^ 30 \<Longrightarrow>
   \<exists>d'. rep_list (dictReplace cr junk) kvs d = Some d' \<and> dict_inv d'
     \<and> dict_map d' = dict_map d ++ map_of (rev kvs)
     \<and> d_type d' = d_type d \<and> freed_keys d' = freed_keys d"
proof (induction kvs arbitrary: d)
  case Nil
  then show ?case by simp
next
  case (Cons kv kvs)
  obtain k v where kv: "kv = (k, v)" by (cases kv)
  have "dictSize d < 2 ^ 30" using Cons.prems by simp
  from dictReplace_ok [OF Cons.prems(1) this, of cr junk k v] obtain d1 where
    d1: "dictReplace cr junk d k v = Some (d1, dict_map d k = None)" "dict_inv d1" "d_type d1 = d_type d"
      "freed_keys d1 = freed_keys d" "dictSize d1 \<le> Suc (dictSize d)"
      "dict_map d1 = (dict_map d)(k \<mapsto> v)" by blast
  then have "dictSize d1 + length kvs < 2 ^ 30" using Cons.prems by simp
  from Cons.IH [OF d1(2) this] show ?case using d1 kv
    by (auto simp: map_add_upd_left map_add_assoc [symmetric] simp del: fun_upd_apply)
qed

lemma keys_dom: "dict_ok d \<Longrightarrow> set (map e_key (entries d)) = dom (dict_map d)"
  by (auto simp: dict_map_def dom_map_of_conv_image_fst image_image)

section \<open>Properties\<close>

text \<open>
  C14: Any sequence of fewer than \<open>2 ^ 30\<close> lookups, insertions, replacements and deletions on a new dictionary
  is defined and answers as the finite map does, whatever the hash function, while the tables
  grow and entries migrate in the middle of the sequence.
\<close>

theorem dict_refines_map:
  assumes "type_ok ty" "length ops < 2 ^ 30"
  shows "\<exists>d. kv_run dictFetchValue (dictAdd cr junk) (dictReplace cr junk) dictDelete ops (dictCreate ty)
        = Some (d, snd (map_run ops Map.empty))
      \<and> dict_inv d \<and> dict_map d = fst (map_run ops Map.empty)"
  using dict_kv.run_refines [of "dictCreate ty" ops cr junk] dictCreate_inv [OF assms(1)] assms(2)
  by (simp add: dictSize_def dictCreate_def dictReset_def)

theorem dict_refines_map_witness:
  "\<exists>d. kv_run dictFetchValue (dictAdd True 0) (dictReplace True 0) dictDelete
        [Put [97] (1::nat), Get [97], Put [97] 2, Del [97], Get [97]] (dictCreateEx (replicate 16 0))
      = Some (d, [Did DICT_OK, Got (Some 1), Did DICT_ERR, Did DICT_OK, Got None])"
  using dict_refines_map [OF type_ok_Benchmark(1) [of "replicate 16 0"],
    of "[Put [97] (1::nat), Get [97], Put [97] 2, Del [97], Get [97]]" True 0]
  by (auto simp: dictCreateEx_def)

text \<open>
  \<open>dictReplace\<close> always leaves the key bound to the new value, reports whether it was new, and
  hands exactly the old value to the destructor.
\<close>

theorem dictReplace_updates:
  assumes "dict_inv d" "dictSize d < 2 ^ 30"
  shows "\<exists>d'. dictReplace cr junk d key val = Some (d', dict_map d key = None)
    \<and> dict_inv d' \<and> dict_map d' = (dict_map d)(key \<mapsto> val) \<and> freed_keys d' = freed_keys d
    \<and> freed_vals d' = (case dict_map d key of
          Some old \<Rightarrow> if valDestructor (d_type d) then old # freed_vals d else freed_vals d
        | None \<Rightarrow> freed_vals d)"
  using dictReplace_ok [OF assms] by blast

theorem dictReplace_updates_witness:
  "\<exists>d'. dictReplace True 0 (dictCreateEx (replicate 16 0)) [97] (5::nat) = Some (d', True)
     \<and> dict_map d' = [[97] \<mapsto> 5]"
  using dictReplace_updates [of "dictCreateEx (replicate 16 0)" True 0 "[97]" "5::nat"]
  by auto

text \<open>
  C17: Incremental rehashing ends: one \<open>dictRehash(d, 1)\<close> per bucket of the old table and one more
  complete it. No call fails its \<open>assert\<close> or leaves the table, though each visits at most ten
  empty buckets, and no entry is lost or duplicated.
\<close>

theorem rehash_completes:
  assumes "dict_inv d"
  shows "\<exists>d'. rehash_calls (ht_size (ht0 d) + 1) d = Some d' \<and> dict_inv d'
    \<and> \<not> dictIsRehashing d' \<and> mset (entries d') = mset (entries d) \<and> dict_map d' = dict_map d"
proof -
  obtain d' where d': "rehash_calls (ht_size (ht0 d) + 1) d = Some d'" "dict_inv d'"
    "same_entries d d'" "\<not> dictIsRehashing d'"
    using rehash_calls_ok [OF assms, of "ht_size (ht0 d) + 1"] by auto
  then show ?thesis using dict_map_same [of d d'] assms by (auto simp: dict_inv_def same_entries_def)
qed

theorem rehash_completes_witness:
  "\<exists>d d'. kv_run dictFetchValue (dictAdd True 0) (dictReplace True 0) dictDelete
        [Put [97] (1::nat), Put [98] 2, Put [99] 3, Put [100] 4, Put [101] 5] (dictCreateEx (replicate 16 0))
      = Some (d, [Did DICT_OK, Did DICT_OK, Did DICT_OK, Did DICT_OK, Did DICT_OK])
     \<and> rehash_calls (ht_size (ht0 d) + 1) d = Some d' \<and> \<not> dictIsRehashing d' \<and> dict_map d' [99] = Some 3"
proof -
  have "\<exists>d. kv_run dictFetchValue (dictAdd True 0) (dictReplace True 0) dictDelete
        [Put [97] (1::nat), Put [98] 2, Put [99] 3, Put [100] 4, Put [101] 5] (dictCreateEx (replicate 16 0))
      = Some (d, [Did DICT_OK, Did DICT_OK, Did DICT_OK, Did DICT_OK, Did DICT_OK])
     \<and> dict_inv d \<and> dict_map d [99] = Some 3"
    using dict_kv.run_refines [of "dictCreateEx (replicate 16 0)"
        "[Put [97] (1::nat), Put [98] 2, Put [99] 3, Put [100] 4, Put [101] 5]" True 0]
    by auto
  then show ?thesis using rehash_completes by metis
qed

text \<open>
  \<open>dictRelease\<close> hands every key and every value in either table to its destructor exactly
  once, although its loops end on the \<open>used\<close> counters and not on the table sizes.
\<close>

theorem dictRelease_frees_all:
  assumes "dict_inv d" "keyDestructor (d_type d)" "valDestructor (d_type d)"
    "freed_keys d = []" "freed_vals d = []"
  shows "mset (fst (dictRelease d)) = image_mset e_key (mset (entries d))
    \<and> mset (snd (dictRelease d)) = image_mset e_val (mset (entries d))"
  using assms dictRelease_eq [of d] by (simp add: dict_inv_def keys_freed_def vals_freed_def)

theorem dictRelease_frees_all_witness:
  "\<exists>d. dictAdd True 0 (dictCreateEx (replicate 16 0)) [97] (5::nat) = Some (d, DICT_OK)
     \<and> mset (snd (dictRelease d)) = image_mset e_val (mset (entries d)) \<and> dictSize d = 1"
proof -
  let ?d = "dictCreateEx (replicate 16 0) :: (u8 list, nat) dict"
  obtain d where d: "dictAdd True 0 ?d [97] 5 = Some (d, DICT_OK)" "dict_inv d" "d_type d = d_type ?d"
    "dictSize d = 1" "freed_keys d = []" "freed_vals d = []"
    using dictAdd_ok [of ?d True 0 "[97]" 5] by auto
  then have "mset (snd (dictRelease d)) = image_mset e_val (mset (entries d))"
    using dictRelease_frees_all [of d] by (simp add: BenchmarkDictType_def)
  then show ?thesis using d by blast
qed

end
