(* ===== verification/Lcg.thy ===== *)
theory Lcg
  imports CPrelude
begin

text \<open>
  The pseudo random numbers of \<open>utils/random.c\<close>: a 48-bit linear congruential generator
  kept as three 16-bit limbs in \<open>uint32_t\<close> variables, with the macros \<open>LOW\<close>, \<open>HIGH\<close>,
  \<open>CARRY\<close>, \<open>MUL\<close> and \<open>ADDEQU\<close> written out.
\<close>

definition LOW :: "u32 \<Rightarrow> u32" where "LOW x = x AND 0xFFFF"
definition HIGH :: "u32 \<Rightarrow> u32" where "HIGH x = LOW (drop_bit 16 x)"

definition CARRY :: "u32 \<Rightarrow> u32 \<Rightarrow> u32" where
  "CARRY x y = (if x + y > 0xFFFF then 1 else 0)"

text \<open>The static variables \<open>_x\<close>; \<open>_a\<close> and \<open>_c\<close> are only ever given their initial values.\<close>

record rng =
  x0 :: u32
  x1 :: u32
  x2 :: u32

definition A0 :: u32 where "A0 = 0xE66D"
definition A1 :: u32 where "A1 = 0xDEEC"
definition A2 :: u32 where "A2 = 0x0005"
definition C0 :: u32 where "C0 = 0x000B"

definition rng0 :: rng where
  "rng0 = \<lparr>x0 = 0x330E, x1 = 0xABCD, x2 = 0x1234\<rparr>"

definition srand_init :: "32 word \<Rightarrow> rng" where
  "srand_init seed = \<lparr>x0 = 0x330E, x1 = LOW seed, x2 = HIGH seed\<rparr>"

definition srand_next :: "rng \<Rightarrow> rng" where
  "srand_next s =
     (let l = A0 * x0 s; p0 = LOW l; p1 = HIGH l;
          c0 = CARRY p0 C0; p0 = LOW (p0 + C0);
          c1 = CARRY p1 c0; p1 = LOW (p1 + c0);
          l = A0 * x1 s; q0 = LOW l; q1 = HIGH l;
          c0 = CARRY p1 q0; p1 = LOW (p1 + q0);
          l = A1 * x0 s; r0 = LOW l; r1 = HIGH l;
          l = c0 + c1 + CARRY p1 r0 + q1 + r1 + A0 * x2 s + A1 * x1 s + A2 * x0 s
      in \<lparr>x0 = LOW p0, x1 = LOW (p1 + r0), x2 = LOW l\<rparr>)"

text \<open>Returns the value and the advanced generator.\<close>

definition srand_get_int32 :: "rng \<Rightarrow> u32 \<times> rng" where
  "srand_get_int32 s =
     (let s' = srand_next s in (push_bit 15 (x2 s') + drop_bit 1 (x1 s'), s'))"

text \<open>\<open>assert(max > min)\<close>, then \<open>int\<close> arithmetic: a range wider than \<open>INT_MAX\<close> overflows.
  The generator's value is not negative, so C's \<open>%\<close> is \<open>mod\<close> there.\<close>

definition srand_get_limit_int32 :: "rng \<Rightarrow> int \<Rightarrow> int \<Rightarrow> (int \<times> rng) option" where
  "srand_get_limit_int32 s mn mx =
     do { guard (mx > mn);
          guard (in_int (mx - mn) \<and> in_int (mx - mn + 1));
          let (v, s') = srand_get_int32 s;
          let r = sint v mod (mx - mn + 1) + mn;
          guard (in_int r);
          Some (r, s') }"

text \<open>The left shifts leave \<open>int32_t\<close>; the model keeps the low 32 bits, as the compilers the
  project builds with do, and evaluates the operands of \<open>^\<close> from left to right.\<close>

definition srand_get_int64 :: "rng \<Rightarrow> u64 \<times> rng" where
  "srand_get_int64 s =
     (let (a, s) = srand_get_int32 s; (b, s) = srand_get_int32 s;
          (c, s) = srand_get_int32 s; (d, s) = srand_get_int32 s;
          x = ucast ((push_bit 16 a XOR b) AND 0x7FFFFFFF) :: u64;
          y = ucast ((push_bit 16 c XOR d) AND 0x7FFFFFFF) :: u64
      in ((push_bit 32 x OR y) AND 0x7FFFFFFFFFFFFFFF, s))"

section \<open>The generator as one 48-bit congruence\<close>

definition limbs_ok :: "rng \<Rightarrow> bool" where
  "limbs_ok s \<longleftrightarrow> unat (x0 s) < 65536 \<and> unat (x1 s) < 65536 \<and> unat (x2 s) < 65536"

definition rng_val :: "rng \<Rightarrow> nat" where
  "rng_val s = unat (x0 s) + 65536 * unat (x1 s) + 4294967296 * unat (x2 s)"

definition lcg48 :: "nat \<Rightarrow> nat" where
  "lcg48 x = (0x5DEECE66D * x + 0xB) mod 2 ^ 48"

lemma unat_LOW: "unat (LOW w) = unat w mod 65536"
proof -
  have "LOW w = w AND mask 16" by (simp add: LOW_def mask_eq_exp_minus_1)
  then show ?thesis by (simp add: unat_and_mask)
qed

lemma unat_HIGH: "unat (HIGH w) = unat w div 65536"
proof -
  have "unat w < 2 ^ LENGTH(32)" by (rule unsigned_less)
  then have "unat w div 65536 < 65536" by simp
  then show ?thesis
    by (simp add: HIGH_def unat_LOW drop_bit_eq_div unat_div)
qed

lemma unat_CARRY:
  "unat x < 65536 \<Longrightarrow> unat y < 65536 \<Longrightarrow> unat (CARRY x y) = (unat x + unat y) div 65536"
  by (auto simp: CARRY_def word_less_nat_alt unat_word_ariths)

lemma unat_mult_small:
  assumes "unat (a::u32) < 65536" "unat b < 65536"
  shows "unat (a * b) = unat a * unat b"
proof -
  have "unat a * unat b \<le> 65535 * 65535" using assms by (intro mult_le_mono) auto
  then show ?thesis by (simp add: unat_word_ariths)
qed

lemma unat_add_small:
  "unat (a::u32) < 65536 \<Longrightarrow> unat b < 65536 \<Longrightarrow> unat (a + b) = unat a + unat b"
  by (simp add: unat_word_ariths)

text \<open>The schoolbook multiplication on limbs, over the naturals.\<close>

lemma limb_expand:
  fixes u0 u1 u2 a0 a1 a2 K :: nat
  shows "(a0 + K * a1 + K * K * a2) * (u0 + K * u1 + K * K * u2)
      = a0 * u0 + K * (a0 * u1) + K * (a1 * u0)
        + K * K * (a0 * u2) + K * K * (a1 * u1) + K * K * (a2 * u0)
        + K * K * K * (a1 * u2 + a2 * u1 + K * (a2 * u2))"
  by (simp add: algebra_simps)

lemma limb_linear:
  fixes A B C D E F H :: nat
  assumes "A = p0 + K * p1" "B = q0 + K * q1" "C = r0 + K * r1"
    and "p0 + c = y0 + K * c0" "p1 + c0 = b1 + K * c1"
    and "b1 + q0 = b2 + K * d0" "b2 + r0 = y1 + K * k"
  shows "A + K * B + K * C + K * K * D + K * K * E + K * K * F + K * K * K * H + c
    = y0 + K * y1 + K * K * (d0 + c1 + k + q1 + r1 + D + E + F) + K * K * K * H"
  using assms by algebra

lemma limb_bound:
  fixes K :: nat
  assumes "a < K" "b < K" "c < K"
  shows "a + K * b + K * K * c < K * K * K"
proof -
  have "a + K * (b + K * c) < K * (K * K)"
  proof -
    have "b + K * c < K * K"
    proof -
      have "b + K * c < K * (c + 1)" using assms by simp
      also have "\<dots> \<le> K * K" using assms by (intro mult_le_mono2) simp
      finally show ?thesis .
    qed
    then have "K * (b + K * c + 1) \<le> K * (K * K)" by (intro mult_le_mono2) simp
    then show ?thesis using assms by simp
  qed
  then show ?thesis by (simp add: algebra_simps)
qed

lemma limb_arith:
  fixes u0 u1 u2 a0 a1 a2 c K :: nat
  assumes P: "a0 * u0 = p0 + K * p1" and Q: "a0 * u1 = q0 + K * q1"
    and R: "a1 * u0 = r0 + K * r1"
    and s0: "p0 + c = y0 + K * c0" and s1: "p1 + c0 = b1 + K * c1"
    and s2: "b1 + q0 = b2 + K * d0" and s3: "b2 + r0 = y1 + K * k"
    and L: "L = d0 + c1 + k + q1 + r1 + a0 * u2 + a1 * u1 + a2 * u0"
    and y: "y0 < K" "y1 < K"
  shows "((a0 + K * a1 + K * K * a2) * (u0 + K * u1 + K * K * u2) + c) mod (K * K * K)
    = y0 + K * y1 + K * K * (L mod K)"
proof -
  define H where "H = a1 * u2 + a2 * u1 + K * (a2 * u2)"
  have "(a0 + K * a1 + K * K * a2) * (u0 + K * u1 + K * K * u2) + c
      = y0 + K * y1 + K * K * L + K * K * K * H"
    by (simp only: limb_expand L H_def [symmetric]
      limb_linear [OF P Q R s0 s1 s2 s3, of "a0 * u2" "a1 * u1" "a2 * u0" H])
  also have "\<dots> = y0 + K * y1 + K * K * (L mod K + K * (L div K)) + K * K * K * H"
    by (simp only: mod_mult_div_eq)
  also have "\<dots> = y0 + K * y1 + K * K * (L mod K) + K * K * K * (L div K + H)"
    by algebra
  finally have eq: "(a0 + K * a1 + K * K * a2) * (u0 + K * u1 + K * K * u2) + c
      = y0 + K * y1 + K * K * (L mod K) + K * K * K * (L div K + H)" .
  have "y0 + K * y1 + K * K * (L mod K) < K * K * K"
    using y by (intro limb_bound) simp_all
  then show ?thesis unfolding eq by (simp only: mod_mult_self2 mod_less)
qed

lemma unat_add_mod16: "unat (a + b :: u32) mod 65536 = (unat a + unat b) mod 65536"
proof -
  have "unat (a + b) = (unat a + unat b) mod 2 ^ LENGTH(32)" by (rule unat_word_ariths)
  then show ?thesis by (simp add: mod_mod_cancel)
qed

lemma const_limbs: "unat A0 = 58989" "unat A1 = 57068" "unat A2 = 5" "unat C0 = 11"
  by (simp_all add: A0_def A1_def A2_def C0_def)

text \<open>The limbs of the next state over the naturals, read off the same equations the code
  evaluates.\<close>

lemma srand_next_unat:
  fixes s :: rng
  assumes ok: "limbs_ok s"
  defines "p \<equiv> 58989 * unat (x0 s)" and "q \<equiv> 58989 * unat (x1 s)" and "r \<equiv> 57068 * unat (x0 s)"
  defines "c0 \<equiv> (p mod 65536 + 11) div 65536"
  defines "c1 \<equiv> (p div 65536 + c0) div 65536" and "p1 \<equiv> (p div 65536 + c0) mod 65536"
  defines "d0 \<equiv> (p1 + q mod 65536) div 65536" and "p2 \<equiv> (p1 + q mod 65536) mod 65536"
  defines "k \<equiv> (p2 + r mod 65536) div 65536"
  shows "unat (x0 (srand_next s)) = (p mod 65536 + 11) mod 65536"
    and "unat (x1 (srand_next s)) = (p2 + r mod 65536) mod 65536"
    and "unat (x2 (srand_next s)) = (d0 + c1 + k + q div 65536 + r div 65536
      + 58989 * unat (x2 s) + 57068 * unat (x1 s) + 5 * unat (x0 s)) mod 65536"
proof -
  have b: "unat (x0 s) < 65536" "unat (x1 s) < 65536" "unat (x2 s) < 65536"
    using ok by (simp_all add: limbs_ok_def)
  define W0 where "W0 = A0 * x0 s"
  define W1 where "W1 = A0 * x1 s"
  define W2 where "W2 = A1 * x0 s"
  have W: "unat W0 = p" "unat W1 = q" "unat W2 = r"
    using b by (simp_all add: W0_def W1_def W2_def p_def q_def r_def unat_mult_small const_limbs)
  have lt: "p div 65536 < 65536" "q div 65536 < 65536" "r div 65536 < 65536"
    using b by (simp_all add: p_def q_def r_def less_mult_imp_div_less)
  have C: "unat (CARRY (LOW W0) C0) = c0"
    by (simp add: unat_CARRY unat_LOW const_limbs W c0_def)
  have c0: "c0 < 65536" by (simp add: c0_def less_mult_imp_div_less)
  have C1: "unat (CARRY (HIGH W0) (CARRY (LOW W0) C0)) = c1"
    using lt c0 by (simp add: unat_CARRY unat_HIGH C W c1_def)
  have Q1: "unat (LOW (HIGH W0 + CARRY (LOW W0) C0)) = p1"
    using lt c0 by (simp add: unat_LOW unat_add_small unat_HIGH C W p1_def)
  have D: "unat (CARRY (LOW (HIGH W0 + CARRY (LOW W0) C0)) (LOW W1)) = d0"
    by (simp add: unat_CARRY Q1 unat_LOW [of W1] W d0_def p1_def)
  have Q2: "unat (LOW (LOW (HIGH W0 + CARRY (LOW W0) C0) + LOW W1)) = p2"
    by (subst unat_LOW, subst unat_add_small) (simp_all add: Q1 unat_LOW [of W1] W p2_def p1_def)
  have K: "unat (CARRY (LOW (LOW (HIGH W0 + CARRY (LOW W0) C0) + LOW W1)) (LOW W2)) = k"
    by (subst unat_CARRY) (simp_all add: Q2 unat_LOW [of W2] W k_def p2_def)
  have eq: "srand_next s = \<lparr>x0 = LOW (LOW (LOW W0 + C0)),
      x1 = LOW (LOW (LOW (HIGH W0 + CARRY (LOW W0) C0) + LOW W1) + LOW W2),
      x2 = LOW (CARRY (LOW (HIGH W0 + CARRY (LOW W0) C0)) (LOW W1)
        + CARRY (HIGH W0) (CARRY (LOW W0) C0)
        + CARRY (LOW (LOW (HIGH W0 + CARRY (LOW W0) C0) + LOW W1)) (LOW W2)
        + HIGH W1 + HIGH W2 + A0 * x2 s + A1 * x1 s + A2 * x0 s)\<rparr>"
    by (simp add: srand_next_def Let_def W0_def W1_def W2_def)
  show "unat (x0 (srand_next s)) = (p mod 65536 + 11) mod 65536"
    by (simp add: eq unat_LOW unat_add_small const_limbs W)
  show "unat (x1 (srand_next s)) = (p2 + r mod 65536) mod 65536"
    by (simp only: eq rng.simps unat_LOW [of "_ + LOW W2"], subst unat_add_small)
      (simp_all add: Q2 unat_LOW [of W2] W p2_def)
  have prods: "unat (A0 * x2 s) = 58989 * unat (x2 s)" "unat (A1 * x1 s) = 57068 * unat (x1 s)"
    "unat (A2 * x0 s) = 5 * unat (x0 s)"
    using b by (simp_all add: unat_mult_small const_limbs)
  have step: "unat (a + w) mod 65536 = (x + y) mod 65536"
    if "unat a mod 65536 = x mod 65536" "unat w = y" for a w :: u32 and x y
    using that by (simp add: unat_add_mod16) (metis mod_add_left_eq)
  show "unat (x2 (srand_next s)) = (d0 + c1 + k + q div 65536 + r div 65536
      + 58989 * unat (x2 s) + 57068 * unat (x1 s) + 5 * unat (x0 s)) mod 65536"
    by (simp only: eq rng.simps unat_LOW [of "_ + A2 * x0 s"])
      (intro step; simp add: D C1 K prods unat_HIGH W)
qed

lemma srand_next_lcg:
  assumes "limbs_ok s"
  shows "rng_val (srand_next s) = lcg48 (rng_val s)"
proof -
  note u = srand_next_unat [OF assms]
  have K: "(2 ^ 48 :: nat) = 65536 * 65536 * 65536" "(4294967296 :: nat) = 65536 * 65536"
    "(0x5DEECE66D :: nat) = 58989 + 65536 * 57068 + 65536 * 65536 * 5"
    by simp_all
  show ?thesis
    unfolding rng_val_def lcg48_def u K
    by (rule limb_arith [symmetric], (rule mod_mult_div_eq [symmetric])+, rule refl)
      (simp_all only: mod_less_divisor zero_less_numeral)
qed

lemma limbs_ok_srand_next: "limbs_ok s \<Longrightarrow> limbs_ok (srand_next s)"
  by (simp add: limbs_ok_def srand_next_def Let_def unat_LOW)

lemma limbs_ok_srand_init: "limbs_ok (srand_init seed)"
  by (simp add: limbs_ok_def srand_init_def unat_LOW HIGH_def)

lemma srand_get_int32_value:
  assumes "limbs_ok s"
  shows "unat (fst (srand_get_int32 s)) = rng_val (srand_next s) div 2 ^ 17"
proof -
  define t where "t = srand_next s"
  have b: "unat (x0 t) < 65536" "unat (x1 t) < 65536" "unat (x2 t) < 65536"
    using limbs_ok_srand_next [OF assms] by (simp_all add: t_def limbs_ok_def)
  have "unat (push_bit 15 (x2 t)) = 32768 * unat (x2 t)"
    using b by (simp add: push_bit_eq_mult unat_word_ariths)
  moreover have "unat (drop_bit 1 (x1 t)) = unat (x1 t) div 2"
    by (simp add: drop_bit_eq_div unat_div)
  ultimately have "unat (push_bit 15 (x2 t) + drop_bit 1 (x1 t)) = 32768 * unat (x2 t) + unat (x1 t) div 2"
    using b by (simp add: unat_word_ariths)
  moreover have "rng_val t div 131072 = 32768 * unat (x2 t) + unat (x1 t) div 2"
    using b unfolding rng_val_def by linarith
  ultimately show ?thesis by (simp add: srand_get_int32_def Let_def t_def)
qed

lemma lcg48_less: "lcg48 x < 2 ^ 48"
  by (simp add: lcg48_def)

lemma sint_small:
  fixes w :: u32
  assumes "unat w < 2147483648"
  shows "sint w = int (unat w)"
proof -
  have "int (unat w) < 2147483648" using assms by linarith
  then have "uint w < 2147483648" by (simp only: uint_nat)
  then have "sint w = uint w"
    unfolding sint_uint by (intro signed_take_bit_int_eq_self) (simp_all add: order_trans [OF _ uint_ge_0])
  then show ?thesis by (simp only: uint_nat)
qed

lemma srand_get_int32_lcg:
  "limbs_ok s \<Longrightarrow> unat (fst (srand_get_int32 s)) = lcg48 (rng_val s) div 2 ^ 17"
  by (simp only: srand_get_int32_value srand_next_lcg)

section \<open>Properties\<close>

text \<open>
  C28: \<open>srand_get_int32\<close> computes \<open>lrand48\<close>: the three limbs with their hand-written carries
  advance the 48-bit congruence \<open>X' = (0x5DEECE66D X + 0xB) mod 2^48\<close>, and the value
  returned is its top 31 bits.
\<close>

theorem srand_get_int32_lrand48:
  assumes "limbs_ok s"
  shows "unat (fst (srand_get_int32 s)) = lcg48 (rng_val s) div 2 ^ 17
    \<and> rng_val (snd (srand_get_int32 s)) = lcg48 (rng_val s)
    \<and> limbs_ok (snd (srand_get_int32 s))"
  using assms srand_get_int32_lcg [OF assms] srand_next_lcg [OF assms] limbs_ok_srand_next
  by (simp add: srand_get_int32_def Let_def)

theorem srand_get_int32_lrand48_witness:
  "unat (fst (srand_get_int32 (srand_init 7))) = lcg48 (rng_val (srand_init 7)) div 2 ^ 17"
  using srand_get_int32_lrand48 [OF limbs_ok_srand_init] by blast

text \<open>
  \<open>srand_get_limit_int32\<close> returns the generator's 31-bit value reduced into the closed
  range asked for, whenever the range is not empty and its length is an \<open>int\<close>; otherwise the
  \<open>assert\<close> or the subtraction fails.
\<close>

theorem srand_get_limit_int32_range:
  assumes "limbs_ok s" "in_int mn" "in_int mx"
  shows "if mn < mx \<and> mx - mn < INT_MAX
    then \<exists>r. srand_get_limit_int32 s mn mx = Some (r, srand_next s) \<and> mn \<le> r \<and> r \<le> mx
      \<and> r = int (lcg48 (rng_val s) div 2 ^ 17) mod (mx - mn + 1) + mn
    else srand_get_limit_int32 s mn mx = None"
proof (cases "mn < mx \<and> mx - mn < INT_MAX")
  case h: True
  define a where "a = fst (srand_get_int32 s)"
  define r where "r = sint a mod (mx - mn + 1) + mn"
  have a: "srand_get_int32 s = (a, srand_next s)"
    by (simp add: a_def srand_get_int32_def Let_def)
  have ua: "unat a = lcg48 (rng_val s) div 2 ^ 17"
    using srand_get_int32_lcg [OF assms(1)] by (simp only: a_def)
  have "unat a < 2147483648"
    unfolding ua using lcg48_less [of "rng_val s"] by (simp add: less_mult_imp_div_less)
  then have sa: "sint a = int (lcg48 (rng_val s) div 2 ^ 17)"
    by (simp only: sint_small ua)
  have "0 \<le> sint a mod (mx - mn + 1)" "sint a mod (mx - mn + 1) < mx - mn + 1"
    using h by (auto intro!: pos_mod_bound pos_mod_sign simp del: zle_add1_eq_le)
  then have r: "mn \<le> r" "r \<le> mx" by (simp_all add: r_def)
  have "in_int (mx - mn)" "in_int (mx - mn + 1)" "in_int r"
    using h r assms by (auto simp: in_int_iff INT_MAX_def)
  then have "srand_get_limit_int32 s mn mx = Some (r, srand_next s)"
    using h by (simp add: srand_get_limit_int32_def a r_def)
  then show ?thesis using h r sa by (simp add: r_def)
next
  case False
  then show ?thesis
    by (auto simp: srand_get_limit_int32_def in_int_iff INT_MAX_def guard_def)
qed

theorem srand_get_limit_int32_range_witness:
  "\<exists>r. srand_get_limit_int32 (srand_init 1) 100000 999999 = Some (r, srand_next (srand_init 1))
     \<and> 100000 \<le> r \<and> r \<le> 999999"
  using srand_get_limit_int32_range [of "srand_init 1" 100000 999999]
  by (auto simp: in_int_iff INT_MAX_def limbs_ok_srand_init)

end
