(* ===== verification/DictIter.thy ===== *)
theory DictIter
  imports DictOps Lcg "HOL-Library.Signed_Division"
begin

text \<open>
  Walking over a dictionary of \<open>utils/basic_struct/dict.c\<close> with an iterator, and random entries. The
  addresses of the two bucket arrays, which only the fingerprint of an iterator reads, are an argument.
  \<open>None\<close> is a dangling pointer, a failed assert or a loop that does not end.
\<close>

section \<open>Iterators\<close>

record dictIterator =
  it_table :: nat
  it_index :: int
  it_safe :: bool
  it_entry :: "nat option"
  it_nextEntry :: "nat option"
  it_fingerprint :: "u64 option"

definition dictGetIterator :: dictIterator where
  "dictGetIterator = \<lparr>it_table = 0, it_index = -1, it_safe = False, it_entry = None, it_nextEntry = None, it_fingerprint = None\<rparr>"

definition dictGetSafeIterator :: dictIterator where
  "dictGetSafeIterator = dictGetIterator\<lparr>it_safe := True\<rparr>"

text \<open>One round of the integer hash. The shifts to the right are those of \<open>long long\<close>, and its sums wrap.\<close>

definition wang_hash :: "u64 \<Rightarrow> u64" where
  "wang_hash h =
     (let h = NOT h + push_bit 21 h;
          h = h XOR signed_drop_bit 24 h;
          h = (h + push_bit 3 h) + push_bit 8 h;
          h = h XOR signed_drop_bit 14 h;
          h = (h + push_bit 2 h) + push_bit 4 h;
          h = h XOR signed_drop_bit 28 h
      in h + push_bit 31 h)"

definition dictFingerprint :: "u64 \<times> u64 \<Rightarrow> ('k, 'v) dict \<Rightarrow> u64" where
  "dictFingerprint at d =
     fold (\<lambda>n h. wang_hash (h + n))
       [fst at, of_nat (ht_size (ht0 d)), of_nat (ht_used (ht0 d)),
        snd at, of_nat (ht_size (ht1 d)), of_nat (ht_used (ht1 d))] 0"

text \<open>The chain that starts at an address, for following \<open>next\<close>.\<close>

definition buckets :: "('k, 'v) dict \<Rightarrow> ('k, 'v) dictEntry list list" where
  "buckets d = (case ht_table (ht0 d) of None \<Rightarrow> [] | Some tb \<Rightarrow> tb) @ (case ht_table (ht1 d) of None \<Rightarrow> [] | Some tb \<Rightarrow> tb)"

definition chain_at :: "('k, 'v) dict \<Rightarrow> nat \<Rightarrow> ('k, 'v) dictEntry list option" where
  "chain_at d a =
     map_option (dropWhile (\<lambda>e. e_addr e \<noteq> a)) (find (list_ex (\<lambda>e. e_addr e = a)) (buckets d))"

definition iter_begin :: "u64 \<times> u64 \<Rightarrow> ('k, 'v) dict \<Rightarrow> dictIterator \<Rightarrow> ('k, 'v) dict \<times> dictIterator" where
  "iter_begin at d iter =
     (if it_index iter = -1 \<and> it_table iter = 0
      then if it_safe iter then (d\<lparr>iterators := iterators d + 1\<rparr>, iter)
           else (d, iter\<lparr>it_fingerprint := Some (dictFingerprint at d)\<rparr>)
      else (d, iter))"

text \<open>From an index on to the next chain that is not empty; the first bucket of the second table is read
  without a test of its size.\<close>

function iter_seek :: "('k, 'v) dict \<Rightarrow> nat \<Rightarrow> nat \<Rightarrow> (nat \<times> nat \<times> ('k, 'v) dictEntry list) option" where
  "iter_seek d t i =
     (if i < ht_size (ht d t)
      then do { tb \<leftarrow> ht_table (ht d t); ch \<leftarrow> rd tb i; if ch \<noteq> [] then Some (t, i, ch) else iter_seek d t (i + 1) }
      else if dictIsRehashing d \<and> t = 0
      then do { tb \<leftarrow> ht_table (ht d 1); ch \<leftarrow> rd tb 0; if ch \<noteq> [] then Some (1, 0, ch) else iter_seek d 1 1 }
      else Some (t, i, []))"
  by auto
termination
  by (relation "measure (\<lambda>(d, t, i). if t = 0 then ht_size (ht0 d) - i + ht_size (ht1 d) + 2 else ht_size (ht1 d) + 1 - i)")
    (auto simp: ht_def)

declare iter_seek.simps [simp del]

definition iter_give :: "dictIterator \<Rightarrow> ('k, 'v) dictEntry list \<Rightarrow> dictIterator \<times> ('k, 'v) dictEntry option" where
  "iter_give iter ch =
     (case ch of
        [] \<Rightarrow> (iter\<lparr>it_entry := None\<rparr>, None)
      | e # es \<Rightarrow> (iter\<lparr>it_entry := Some (e_addr e), it_nextEntry := (case es of [] \<Rightarrow> None | x # _ \<Rightarrow> Some (e_addr x))\<rparr>, Some e))"

definition dictNext ::
  "u64 \<times> u64 \<Rightarrow> ('k, 'v) dict \<Rightarrow> dictIterator \<Rightarrow> (('k, 'v) dict \<times> dictIterator \<times> ('k, 'v) dictEntry option) option"
where
  "dictNext at d iter =
     (case (it_entry iter, it_nextEntry iter) of
        (Some _, Some a) \<Rightarrow> do { ch \<leftarrow> chain_at d a; Some (d, iter_give iter ch) }
      | _ \<Rightarrow> do {
          let (d, iter) = iter_begin at d iter;
          (t, i, ch) \<leftarrow> iter_seek d (it_table iter) (nat (it_index iter + 1));
          Some (d, iter_give (iter\<lparr>it_table := t, it_index := int i\<rparr>) ch) })"

definition dictReleaseIterator :: "u64 \<times> u64 \<Rightarrow> ('k, 'v) dict \<Rightarrow> dictIterator \<Rightarrow> ('k, 'v) dict option" where
  "dictReleaseIterator at d iter =
     (if it_index iter = -1 \<and> it_table iter = 0 then Some d
      else if it_safe iter then Some (d\<lparr>iterators := iterators d - 1\<rparr>)
      else do { guard (it_fingerprint iter = Some (dictFingerprint at d)); Some d })"

text \<open>The loop of a user: \<open>dictNext\<close> until it gives \<open>NULL\<close>, with a body that may use the dictionary.\<close>

partial_function (option) dict_iterate ::
  "u64 \<times> u64 \<Rightarrow> (('k, 'v) dictEntry \<Rightarrow> ('k, 'v) dict \<Rightarrow> ('k, 'v) dict option) \<Rightarrow> ('k, 'v) dict \<Rightarrow> dictIterator
    \<Rightarrow> (('k, 'v) dict \<times> dictIterator \<times> ('k, 'v) dictEntry list) option"
where
  "dict_iterate at body d iter =
     Option.bind (dictNext at d iter) (\<lambda>(d, iter, entry).
       case entry of
         None \<Rightarrow> Some (d, iter, [])
       | Some e \<Rightarrow>
           Option.bind (body e d) (\<lambda>d.
             Option.bind (dict_iterate at body d iter) (\<lambda>(d, iter, es). Some (d, iter, e # es))))"

declare dict_iterate.simps [simp del]

section \<open>What an iterator has still to give\<close>

text \<open>The entries from bucket \<open>i\<close> of table \<open>t\<close> on.\<close>

definition table_of :: "('k, 'v) dict \<Rightarrow> nat \<Rightarrow> ('k, 'v) dictEntry list list" where
  "table_of d t = (case ht_table (ht d t) of None \<Rightarrow> [] | Some tb \<Rightarrow> tb)"

definition tail_from :: "('k, 'v) dict \<Rightarrow> nat \<Rightarrow> nat \<Rightarrow> ('k, 'v) dictEntry list" where
  "tail_from d t i = concat (drop i (table_of d t)) @ (if t = 0 then concat (table_of d 1) else [])"

lemma table_of_length: "dict_ok d \<Longrightarrow> length (table_of d t) = ht_size (ht d t)"
  using dict_ok_ht [of d t] by (auto simp: table_of_def ht_ok_def split: option.splits)

lemma table_of_read: "dict_ok d \<Longrightarrow> i < ht_size (ht d t) \<Longrightarrow> ht_table (ht d t) = Some (table_of d t)"
  using dict_ok_ht [of d t] by (auto simp: table_of_def ht_ok_def split: option.splits)

lemma entries_tail: "tail_from d 0 0 = entries d"
  by (auto simp: tail_from_def entries_def entries_ht_def table_of_def ht_def split: option.split)

lemma table_of_second:
  assumes "dict_ok d"
  shows "dictIsRehashing d \<Longrightarrow> 0 < ht_size (ht d 1)" "\<not> dictIsRehashing d \<Longrightarrow> table_of d 1 = []"
proof -
  show "dictIsRehashing d \<Longrightarrow> 0 < ht_size (ht d 1)"
    using ht1_table [OF assms] dict_ok_ht [OF assms, of 1] by (auto simp: ht_ok_def ht_def intro: less_le_trans [OF _ pow2_size_pos])
  show "\<not> dictIsRehashing d \<Longrightarrow> table_of d 1 = []"
    using assms by (auto simp: dict_ok_def rehash_ok_def table_of_def ht_def dictReset_def)
qed

lemma tail_from_step: "i < length (table_of d t) \<Longrightarrow> tail_from d t i = table_of d t ! i @ tail_from d t (Suc i)"
  by (simp add: tail_from_def flip: Cons_nth_drop_Suc)

text \<open>What \<open>iter_seek\<close> finds.\<close>

definition found :: "('k, 'v) dict \<Rightarrow> nat \<Rightarrow> nat \<Rightarrow> (nat \<times> nat \<times> ('k, 'v) dictEntry list) option \<Rightarrow> bool" where
  "found d t i r \<longleftrightarrow> (\<exists>t' i' ch. r = Some (t', i', ch) \<and>
     (if ch = [] then tail_from d t i = [] \<and> tail_from d t' (Suc i') = []
      else i' < length (table_of d t') \<and> ch = table_of d t' ! i' \<and> tail_from d t i = ch @ tail_from d t' (Suc i')))"

lemma found_same: "tail_from d t i = tail_from d t' i' \<Longrightarrow> found d t i r = found d t' i' r"
  by (simp add: found_def)

lemma found_read:
  assumes "dict_ok d" "i < ht_size (ht d t)" "found d t (Suc i) r"
  shows "found d t i (do { tb \<leftarrow> ht_table (ht d t); ch \<leftarrow> rd tb i; if ch \<noteq> [] then Some (t, i, ch) else r })"
proof -
  have l: "i < length (table_of d t)" using assms(1,2) by (simp add: table_of_length)
  show ?thesis
  proof (cases "table_of d t ! i = []")
    case True
    then have e: "tail_from d t i = tail_from d t (Suc i)" using tail_from_step [OF l] by simp
    have "found d t i r" using assms(3) found_same [OF e] by simp
    then show ?thesis using True l table_of_read [OF assms(1,2)] by simp
  next
    case False
    then show ?thesis using l table_of_read [OF assms(1,2)] tail_from_step [OF l] by (simp add: found_def)
  qed
qed

lemma iter_seek_found: "dict_ok d \<Longrightarrow> found d t i (iter_seek d t i)"
proof (induction d t i rule: iter_seek.induct)
  case (1 d t i)
  show ?case
  proof (cases "i < ht_size (ht d t)")
    case True
    have "found d t (Suc i) (iter_seek d t (Suc i))"
      if "table_of d t ! i = []" using 1 True that table_of_read [OF 1(3) True] table_of_length [OF 1(3), of t] by simp
    then show ?thesis
    proof (cases "table_of d t ! i = []")
      case e: True
      then show ?thesis using found_read [OF 1(3) True] \<open>table_of d t ! i = [] \<Longrightarrow> _\<close> True
        by (subst iter_seek.simps) simp
    next
      case False
      then show ?thesis using True table_of_read [OF 1(3) True] table_of_length [OF 1(3), of t] tail_from_step [of i d t]
        by (subst iter_seek.simps) (simp add: found_def)
    qed
  next
    case False
    then have drop: "drop i (table_of d t) = []" using table_of_length [OF 1(3), of t] by simp
    show ?thesis
    proof (cases "dictIsRehashing d \<and> t = 0")
      case True
      have z: "0 < ht_size (ht d 1)" using table_of_second(1) [OF 1(3)] True by simp
      have e: "tail_from d t i = tail_from d 1 0" using drop True by (simp add: tail_from_def)
      have "found d 1 0 (do { tb \<leftarrow> ht_table (ht d 1); ch \<leftarrow> rd tb 0; if ch \<noteq> [] then Some (1, 0, ch) else iter_seek d 1 1 })"
      proof (cases "table_of d 1 ! 0 = []")
        case t: True
        have "found d 1 1 (iter_seek d 1 1)"
          using 1(2) [OF False True table_of_read [OF 1(3) z]] 1(3) t z table_of_length [OF 1(3), of 1] by (cases "table_of d 1") auto
        then show ?thesis using found_read [OF 1(3) z] by simp
      next
        case f: False
        then show ?thesis using z table_of_read [OF 1(3) z] table_of_length [OF 1(3), of 1] tail_from_step [of 0 d 1]
          by (auto simp: found_def)
      qed
      then show ?thesis using False True found_same [OF e] by (subst iter_seek.simps) simp
    next
      case n: False
      have "drop (Suc i) (table_of d t) = []" using drop by simp
      then have "tail_from d t i = []" "tail_from d t (Suc i) = []"
        using drop n table_of_second(2) [OF 1(3)] by (auto simp: tail_from_def)
      moreover have "iter_seek d t i = Some (t, i, [])"
        unfolding iter_seek.simps [of d t i] if_not_P [OF False] if_not_P [OF n] by (rule refl)
      ultimately show ?thesis by (simp add: found_def)
    qed
  qed
qed

text \<open>An iterator that has still to give \<open>es\<close>: the rest of the chain it is in, and what comes after.\<close>

definition first_addr :: "('k, 'v) dictEntry list \<Rightarrow> nat option" where
  "first_addr r = (case r of [] \<Rightarrow> None | e # _ \<Rightarrow> Some (e_addr e))"

definition iter_pos :: "('k, 'v) dict \<Rightarrow> dictIterator \<Rightarrow> ('k, 'v) dictEntry list \<Rightarrow> bool" where
  "iter_pos d iter es \<longleftrightarrow> (\<exists>r. es = r @ tail_from d (it_table iter) (nat (it_index iter + 1))
     \<and> (it_entry iter = None \<longrightarrow> r = [])
     \<and> (it_entry iter \<noteq> None \<longrightarrow> it_nextEntry iter = first_addr r \<and> 0 \<le> it_index iter)
     \<and> (r \<noteq> [] \<longrightarrow> (\<exists>ch \<in> set (buckets d). \<exists>pre. ch = pre @ r)))"

lemma buckets_concat: "concat (buckets d) = entries d"
  by (auto simp: buckets_def entries_def entries_ht_def split: option.split)

lemma bucket_in: "i < length (table_of d t) \<Longrightarrow> table_of d t ! i \<in> set (buckets d)"
  by (auto simp: table_of_def buckets_def ht_def split: option.splits if_splits)

lemma find_bucket_at:
  assumes "distinct (map e_addr (concat bs))" "ch \<in> set bs" "e \<in> set ch"
  shows "find (list_ex (\<lambda>x. e_addr x = e_addr e)) bs = Some ch"
  using assms
proof (induction bs)
  case (Cons b bs)
  show ?case
  proof (cases "list_ex (\<lambda>x. e_addr x = e_addr e) b")
    case True
    have "b = ch"
    proof (rule ccontr)
      assume "b \<noteq> ch"
      then have "e_addr e \<in> e_addr ` set (concat bs)" using Cons.prems by auto
      moreover have "e_addr e \<in> e_addr ` set b" using True unfolding list_ex_iff by (metis imageI)
      ultimately show False using Cons.prems(1) by auto
    qed
    then show ?thesis using True by simp
  next
    case False
    then have "b \<noteq> ch" using Cons.prems(3) by (auto simp: list_ex_iff)
    then show ?thesis using Cons False by simp
  qed
qed simp

lemma chain_at_suffix:
  assumes "dict_ok d" "pre @ e # r \<in> set (buckets d)"
  shows "chain_at d (e_addr e) = Some (e # r)"
proof -
  have dist: "distinct (map e_addr (concat (buckets d)))" using assms(1) by (simp add: buckets_concat dict_ok_def addrs_ok_def)
  then have "distinct (map e_addr (pre @ e # r))" using assms(2)
    by (metis concat.simps(2) concat_append distinct_append map_append split_list)
  then have "e_addr x \<noteq> e_addr e" if "x \<in> set pre" for x using imageI [OF that, of e_addr] by auto
  then have "dropWhile (\<lambda>x. e_addr x \<noteq> e_addr e) (pre @ e # r) = e # r" by (simp add: dropWhile_append2)
  then show ?thesis using find_bucket_at [OF dist assms(2), of e] by (simp add: chain_at_def)
qed

lemma first_addr_simps [simp]: "first_addr [] = None" "first_addr (e # r) = Some (e_addr e)"
  by (simp_all add: first_addr_def)

lemma iter_give_first: "iter_give iter (e # r) = (iter\<lparr>it_entry := Some (e_addr e), it_nextEntry := first_addr r\<rparr>, Some e)"
  by (simp add: iter_give_def first_addr_def)

lemma iter_posI:
  assumes "it_entry iter = Some a" "it_nextEntry iter = first_addr r" "0 \<le> it_index iter" "pre @ r \<in> set (buckets d)"
  shows "iter_pos d iter (r @ tail_from d (it_table iter) (nat (it_index iter + 1)))"
  unfolding iter_pos_def
proof (intro exI [of _ r] conjI impI refl)
  show "\<exists>ch \<in> set (buckets d). \<exists>pre. ch = pre @ r" by (intro bexI [OF _ assms(4)] exI) (rule refl)
qed (use assms in simp_all)

text \<open>The search for the next chain.\<close>

lemma iter_seek_give:
  assumes ok: "dict_ok d" and es: "es = tail_from d (it_table iter) (nat (it_index iter + 1))"
  shows "\<exists>iter'. do { (t, i, ch) \<leftarrow> iter_seek d (it_table iter) (nat (it_index iter + 1));
        Some (d, iter_give (iter\<lparr>it_table := t, it_index := int i\<rparr>) ch) }
      = Some (d, iter', if es = [] then None else Some (hd es))
    \<and> iter_pos d iter' (tl es) \<and> 0 \<le> it_index iter' \<and> it_safe iter' = it_safe iter \<and> it_fingerprint iter' = it_fingerprint iter"
proof -
  obtain t i ch where s: "iter_seek d (it_table iter) (nat (it_index iter + 1)) = Some (t, i, ch)"
    "if ch = [] then es = [] \<and> tail_from d t (Suc i) = []
     else i < length (table_of d t) \<and> ch = table_of d t ! i \<and> es = ch @ tail_from d t (Suc i)"
    using iter_seek_found [OF ok, of "it_table iter" "nat (it_index iter + 1)"] unfolding found_def es by blast
  have i: "nat (int i + 1) = Suc i" by simp
  show ?thesis
  proof (cases ch)
    case e: Nil
    then have es: "es = []" "tail_from d t (Suc i) = []" using s(2) by simp_all
    define it where "it = iter\<lparr>it_table := t, it_index := int i, it_entry := None\<rparr>"
    have "iter_pos d it []" unfolding iter_pos_def it_def using es(2) by (simp add: i)
    then show ?thesis using s(1) e es(1) by (intro exI [of _ it]) (simp add: it_def iter_give_def)
  next
    case (Cons e c)
    then have p: "[e] @ c \<in> set (buckets d)" using s(2) bucket_in [of i d t] by auto
    define it where "it = iter\<lparr>it_table := t, it_index := int i, it_entry := Some (e_addr e), it_nextEntry := first_addr c\<rparr>"
    have it: "it_entry it = Some (e_addr e)" "it_nextEntry it = first_addr c" "0 \<le> it_index it" "it_index it = int i" "it_table it = t"
      "it_safe it = it_safe iter" "it_fingerprint it = it_fingerprint iter" by (simp_all add: it_def)
    have es: "es = e # c @ tail_from d t (Suc i)" using s(2) Cons by simp
    have "iter_pos d it (tl es)" using iter_posI [OF it(1-3) p] unfolding es it(4,5) i by simp
    moreover have "iter_give (iter\<lparr>it_table := t, it_index := int i\<rparr>) (e # c) = (it, Some e)" by (simp add: iter_give_first it_def)
    ultimately show ?thesis using s(1) Cons it(4-7) es by (intro exI [of _ it]) simp
  qed
qed

text \<open>One call gives the first of the entries still to come.\<close>

lemma iter_next:
  assumes ok: "dict_ok d" and pos: "iter_pos d iter es" and run: "0 \<le> it_index iter"
  shows "\<exists>iter'. dictNext at d iter = Some (d, iter', if es = [] then None else Some (hd es))
    \<and> iter_pos d iter' (tl es) \<and> 0 \<le> it_index iter' \<and> it_safe iter' = it_safe iter \<and> it_fingerprint iter' = it_fingerprint iter"
proof -
  obtain r where r: "es = r @ tail_from d (it_table iter) (nat (it_index iter + 1))" "it_entry iter = None \<longrightarrow> r = []"
    "it_entry iter \<noteq> None \<longrightarrow> it_nextEntry iter = first_addr r \<and> 0 \<le> it_index iter"
    "r \<noteq> [] \<longrightarrow> (\<exists>ch \<in> set (buckets d). \<exists>pre. ch = pre @ r)"
    using pos [unfolded iter_pos_def] by (elim exE conjE) (rule that)
  show ?thesis
  proof (cases r)
    case (Cons e r')
    then obtain a where a: "it_entry iter = Some a" using r(2) by auto
    obtain pre where pre: "pre @ e # r' \<in> set (buckets d)" using r(4) Cons by auto
    have n: "dictNext at d iter = Some (d, iter_give iter (e # r'))"
      using a r(3) Cons chain_at_suffix [OF ok pre] by (simp add: dictNext_def)
    have p: "(pre @ [e]) @ r' \<in> set (buckets d)" using pre by simp
    define it where "it = iter\<lparr>it_entry := Some (e_addr e), it_nextEntry := first_addr r'\<rparr>"
    have it: "it_entry it = Some (e_addr e)" "it_nextEntry it = first_addr r'" "it_index it = it_index iter" "it_table it = it_table iter"
      "it_safe it = it_safe iter" "it_fingerprint it = it_fingerprint iter" by (simp_all add: it_def)
    have "0 \<le> it_index it" using run it(3) by simp
    from iter_posI [OF it(1,2) this p] have "iter_pos d it (tl es)" unfolding r(1) Cons it by simp
    moreover have "iter_give iter (e # r') = (it, Some e)" by (simp add: iter_give_first it_def)
    moreover have "es \<noteq> []" "hd es = e" unfolding r(1) Cons by simp_all
    ultimately show ?thesis using n run it(3-6) by (intro exI [of _ it]) simp
  next
    case Nil
    have b: "iter_begin at d iter = (d, iter)" using run by (simp add: iter_begin_def)
    have n: "dictNext at d iter = do { (t, i, ch) \<leftarrow> iter_seek d (it_table iter) (nat (it_index iter + 1));
        Some (d, iter_give (iter\<lparr>it_table := t, it_index := int i\<rparr>) ch) }"
      using r(3) Nil by (cases "it_entry iter") (simp_all add: dictNext_def b)
    show ?thesis unfolding n by (rule iter_seek_give [OF ok]) (simp add: r(1) Nil)
  qed
qed

lemma iterate_rest:
  assumes "dict_ok d" "iter_pos d iter es" "0 \<le> it_index iter" "\<And>e. e \<in> set es \<Longrightarrow> body e d = Some d"
  shows "\<exists>iter'. dict_iterate at body d iter = Some (d, iter', es) \<and> 0 \<le> it_index iter' \<and> it_safe iter' = it_safe iter
    \<and> it_fingerprint iter' = it_fingerprint iter"
  using assms(2-4)
proof (induction es arbitrary: iter)
  case Nil
  from iter_next [OF assms(1) Nil(1,2), of at] show ?case by (auto simp: dict_iterate.simps [of _ _ _ iter])
next
  case (Cons e es)
  obtain it where it: "dictNext at d iter = Some (d, it, Some e)" "iter_pos d it es" "0 \<le> it_index it"
    "it_safe it = it_safe iter" "it_fingerprint it = it_fingerprint iter"
    using iter_next [OF assms(1) Cons.prems(1,2), of at] by auto
  from Cons.IH [OF it(2,3)] Cons.prems(3) obtain it' where "dict_iterate at body d it = Some (d, it', es)" "0 \<le> it_index it'"
    "it_safe it' = it_safe it" "it_fingerprint it' = it_fingerprint it" by auto
  then show ?case using it(1,4,5) Cons.prems(3) [of e] by (auto simp: dict_iterate.simps [of _ _ _ iter])
qed

text \<open>The first call, which counts the iterator or takes the fingerprint.\<close>

lemma iterate_all:
  assumes ok: "dict_ok d'" and iter: "iter = dictGetIterator \<or> iter = dictGetSafeIterator"
    and b: "iter_begin at d iter = (d', iter1)" "iter1 = iter\<lparr>it_fingerprint := it_fingerprint iter1\<rparr>"
    and body: "\<And>e. e \<in> set (entries d') \<Longrightarrow> body e d' = Some d'"
  shows "\<exists>iter'. dict_iterate at body d iter = Some (d', iter', entries d') \<and> 0 \<le> it_index iter'
    \<and> it_safe iter' = it_safe iter \<and> it_fingerprint iter' = it_fingerprint iter1"
proof -
  have f: "it_entry iter = None" "it_table iter1 = 0" "it_index iter1 = -1" "it_safe iter1 = it_safe iter"
    using iter b(2) by (cases iter1; auto simp: dictGetIterator_def dictGetSafeIterator_def)+
  have n: "dictNext at d iter = do { (t, i, ch) \<leftarrow> iter_seek d' (it_table iter1) (nat (it_index iter1 + 1));
        Some (d', iter_give (iter1\<lparr>it_table := t, it_index := int i\<rparr>) ch) }"
    using f(1) b(1) by (simp add: dictNext_def)
  have e: "entries d' = tail_from d' (it_table iter1) (nat (it_index iter1 + 1))" using f(2,3) by (simp add: entries_tail)
  obtain it where it: "dictNext at d iter = Some (d', it, if entries d' = [] then None else Some (hd (entries d')))"
    "iter_pos d' it (tl (entries d'))" "0 \<le> it_index it" "it_safe it = it_safe iter" "it_fingerprint it = it_fingerprint iter1"
    using iter_seek_give [OF ok e] f(4) unfolding n by auto
  show ?thesis
  proof (cases "entries d'")
    case Nil
    then show ?thesis using it by (auto simp: dict_iterate.simps [of _ _ _ iter])
  next
    case (Cons x es)
    have "body e d' = Some d'" if "e \<in> set es" for e using body that Cons by simp
    from iterate_rest [OF ok, of it es body at] this it(2,3) Cons obtain it' where
      "dict_iterate at body d' it = Some (d', it', es)" "0 \<le> it_index it'" "it_safe it' = it_safe it" "it_fingerprint it' = it_fingerprint it"
      by auto
    then show ?thesis using it(1,4,5) Cons body [of x] by (auto simp: dict_iterate.simps [of _ _ _ iter])
  qed
qed

lemma dict_ok_iterators [simp]: "dict_ok (d\<lparr>iterators := n\<rparr>) = dict_ok d" "dict_inv (d\<lparr>iterators := n\<rparr>) = dict_inv d"
  "entries (d\<lparr>iterators := n\<rparr>) = entries d" "dict_map (d\<lparr>iterators := n\<rparr>) = dict_map d"
  by (simp_all add: dict_ok_def dict_inv_def entries_def rehash_ok_def addrs_ok_def dictIsRehashing_def dict_map_def)

text \<open>A plain walk.\<close>

lemma iterate_plain:
  assumes "dict_ok d"
  shows "\<exists>iter. dict_iterate at (\<lambda>e d. Some d) d dictGetIterator = Some (d, iter, entries d) \<and> 0 \<le> it_index iter
    \<and> it_safe iter = False \<and> it_fingerprint iter = Some (dictFingerprint at d)"
proof -
  let ?i = "dictGetIterator\<lparr>it_fingerprint := Some (dictFingerprint at d)\<rparr>"
  have "iter_begin at d dictGetIterator = (d, ?i)" by (simp add: iter_begin_def dictGetIterator_def)
  from iterate_all [OF assms _ this, of "\<lambda>e d. Some d"] show ?thesis by (auto simp: dictGetIterator_def)
qed

text \<open>A lookup while a safe iterator is open moves nothing.\<close>

lemma fetch_iterating:
  assumes "dict_inv d" "0 < iterators d"
  shows "dictFetchValue d key = Some (d, dict_map d key)"
proof -
  obtain d' where f: "dictFetchValue d key = Some (d', dict_map d key)" using dictFetchValue_ok [OF assms(1)] by blast
  have "rehash_once d = Some d" using assms(2) by (simp add: rehash_once_def dictRehashStep_def)
  then have "d' = d" using f
    by (auto simp: dictFetchValue_def dictFind_def Let_def bind_eq_Some_conv split: if_splits option.splits)
  then show ?thesis using f by simp
qed

section \<open>Random entries\<close>

text \<open>The bucket a random number leads to. The number becomes \<open>unsigned long\<close>, the index \<open>unsigned int\<close>.\<close>

definition random_chain :: "('k, 'v) dict \<Rightarrow> u32 \<Rightarrow> ('k, 'v) dictEntry list option" where
  "random_chain d r =
     (let v = unat (scast r :: u64)
      in if dictIsRehashing d
         then do {
           let n = ht_size (ht0 d) + ht_size (ht1 d) - nat (rehashidx d);
           guard (n \<noteq> 0);
           let h = (nat (rehashidx d) + v mod n) mod 2 ^ 32;
           if h \<ge> ht_size (ht0 d) then do { tb \<leftarrow> ht_table (ht1 d); rd tb (h - ht_size (ht0 d)) }
           else do { tb \<leftarrow> ht_table (ht0 d); rd tb h } }
         else do { tb \<leftarrow> ht_table (ht0 d); rd tb ((v AND ht_sizemask (ht0 d)) mod 2 ^ 32) })"

text \<open>The loop that draws until a bucket is not empty.\<close>

partial_function (option) random_bucket :: "('k, 'v) dict \<Rightarrow> rng \<Rightarrow> (('k, 'v) dictEntry list \<times> rng) option" where
  "random_bucket d s =
     (let (v, s) = srand_get_int32 s
      in Option.bind (random_chain d v) (\<lambda>he. if he = [] then random_bucket d s else Some (he, s)))"

declare random_bucket.simps [simp del]

text \<open>C's remainder has the sign of the dividend; counted down from below 0 the loop runs off the chain.\<close>

definition dictGetRandomKey :: "('k, 'v) dict \<Rightarrow> rng \<Rightarrow> (('k, 'v) dict \<times> rng \<times> ('k, 'v) dictEntry option) option" where
  "dictGetRandomKey d s =
     (if dictSize d = 0 then Some (d, s, None)
      else do {
        d \<leftarrow> rehash_once d;
        (he, s) \<leftarrow> random_bucket d s;
        let (v, s) = srand_get_int32 s;
        let listele = sint v smod int (length he);
        guard (0 \<le> listele);
        Some (d, s, Some (he ! nat listele)) })"

fun rehash_times :: "nat \<Rightarrow> ('k, 'v) dict \<Rightarrow> ('k, 'v) dict option" where
  "rehash_times 0 d = Some d"
| "rehash_times (Suc n) d = (if dictIsRehashing d then do { d \<leftarrow> dictRehashStep d; rehash_times n d } else Some d)"

text \<open>The state of the sampling: the index, the empty buckets in a row, the generator, the entries stored.\<close>

type_synonym ('k, 'v) sampling = "nat \<times> nat \<times> rng \<times> ('k, 'v) dictEntry list"

definition sample_table ::
  "('k, 'v) dict \<Rightarrow> nat \<Rightarrow> nat \<Rightarrow> nat \<Rightarrow> nat \<Rightarrow> ('k, 'v) sampling \<Rightarrow> (bool \<times> ('k, 'v) sampling) option"
where
  "sample_table d cnt maxsizemask tables j st =
     (case st of (i, emptylen, s, des) \<Rightarrow>
        if tables = 2 \<and> j = 0 \<and> i < nat (rehashidx d)
        then Some (False, if i \<ge> ht_size (ht1 d) then nat (rehashidx d) else i, emptylen, s, des)
        else if i \<ge> ht_size (ht d j) then Some (False, i, emptylen, s, des)
        else do {
          tb \<leftarrow> ht_table (ht d j);
          he \<leftarrow> rd tb i;
          if he = []
          then if emptylen + 1 \<ge> 5 \<and> emptylen + 1 > cnt
               then let (v, s) = srand_get_int32 s in Some (False, unat (scast v :: u64) AND maxsizemask, 0, s, des)
               else Some (False, i, emptylen + 1, s, des)
          else let des = des @ take (cnt - length des) he in Some (length des = cnt, i, 0, s, des) })"

fun sample_loop :: "('k, 'v) dict \<Rightarrow> nat \<Rightarrow> nat \<Rightarrow> nat \<Rightarrow> nat \<Rightarrow> ('k, 'v) sampling \<Rightarrow> ('k, 'v) sampling option" where
  "sample_loop d cnt msk tables 0 st = Some st"
| "sample_loop d cnt msk tables (Suc maxsteps) st =
     (if length (snd (snd (snd st))) \<ge> cnt then Some st
      else do {
        (fin, st) \<leftarrow> sample_table d cnt msk tables 0 st;
        (fin, st) \<leftarrow> (if \<not> fin \<and> tables = 2 then sample_table d cnt msk tables 1 st else Some (fin, st));
        if fin then Some st
        else sample_loop d cnt msk tables maxsteps (((fst st + 1) AND msk), snd st) })"

text \<open>The number of steps is a product of \<open>unsigned int\<close>.\<close>

definition dictGetSomeKeys ::
  "('k, 'v) dict \<Rightarrow> nat \<Rightarrow> rng \<Rightarrow> (('k, 'v) dict \<times> rng \<times> ('k, 'v) dictEntry list) option"
where
  "dictGetSomeKeys d cnt s =
     do { let cnt = (if dictSize d < cnt then dictSize d else cnt);
          let maxsteps = (cnt * 10) mod 2 ^ 32;
          d \<leftarrow> rehash_times cnt d;
          let tables = (if dictIsRehashing d then 2 else 1);
          let msk = (if tables > 1 \<and> ht_sizemask (ht0 d) < ht_sizemask (ht1 d) then ht_sizemask (ht1 d) else ht_sizemask (ht0 d));
          let (v, s) = srand_get_int32 s;
          (i, e, s, des) \<leftarrow> sample_loop d cnt msk tables maxsteps (unat (scast v :: u64) AND msk, 0, s, []);
          Some (d, s, des) }"

lemma rd_entries: "ht_table h = Some tb \<Longrightarrow> rd tb i = Some ch \<Longrightarrow> set ch \<subseteq> set (entries_ht h)"
  by (auto simp: entries_ht_def rd_Some intro: bexI [OF _ nth_mem])

lemma random_chain_in:
  assumes "random_chain d r = Some ch"
  shows "set ch \<subseteq> set (entries d)"
proof -
  obtain h tb i where h: "h = ht0 d \<or> h = ht1 d" "ht_table h = Some tb" "rd tb i = Some ch"
    using assms unfolding random_chain_def Let_def by (auto simp: bind_eq_Some_conv split: if_splits)
  then show ?thesis using rd_entries [OF h(2,3)] by (auto simp: entries_def)
qed

lemma random_bucket_in:
  assumes "random_bucket d s = Some r"
  shows "fst r \<noteq> [] \<and> set (fst r) \<subseteq> set (entries d)"
  using assms
proof (induction rule: random_bucket.raw_induct [rotated, consumes 1, case_names step])
  case (step f d s r)
  obtain v s1 where v: "srand_get_int32 s = (v, s1)" by fastforce
  obtain he where he: "random_chain d v = Some he" "(if he = [] then f d s1 else Some (he, s1)) = Some r"
    using step(2) v by (auto simp: bind_eq_Some_conv)
  show ?case
  proof (cases "he = []")
    case True
    then show ?thesis using step(1) [of d s1 r] he(2) by simp
  next
    case False
    then show ?thesis using random_chain_in [OF he(1)] he(2) by auto
  qed
qed

lemma rehash_times_ok: "dict_ok d \<Longrightarrow> \<exists>d'. rehash_times n d = Some d' \<and> dict_ok d' \<and> same_entries d d'"
proof (induction n arbitrary: d)
  case (Suc n)
  show ?case
  proof (cases "dictIsRehashing d")
    case True
    obtain d1 where d1: "dictRehashStep d = Some d1" "dict_ok d1" "same_entries d d1"
      using rehash_once_ok [OF Suc.prems] True by (auto simp: rehash_once_def)
    then show ?thesis using Suc.IH [OF d1(2)] True same_entries_trans [OF d1(3)] by auto
  next
    case False
    then show ?thesis using Suc.prems by simp
  qed
qed simp

definition sample_ok :: "('k, 'v) dict \<Rightarrow> nat \<Rightarrow> ('k, 'v) sampling \<Rightarrow> bool" where
  "sample_ok d cnt st \<longleftrightarrow> length (snd (snd (snd st))) \<le> cnt \<and> set (snd (snd (snd st))) \<subseteq> set (entries d)"

lemma sample_table_ok:
  assumes "dict_ok d" "sample_ok d cnt st"
  shows "\<exists>fin st'. sample_table d cnt msk tables j st = Some (fin, st') \<and> sample_ok d cnt st'"
proof -
  obtain i e s des where st: "st = (i, e, s, des)" by (cases st) auto
  have l: "length des \<le> cnt" "set des \<subseteq> set (entries d)" using assms(2) by (simp_all add: sample_ok_def st)
  show ?thesis
  proof (cases "(tables = 2 \<and> j = 0 \<and> i < nat (rehashidx d)) \<or> i \<ge> ht_size (ht d j)")
    case True
    then show ?thesis using l by (auto simp: sample_table_def st sample_ok_def)
  next
    case False
    obtain tb where tb: "ht_table (ht d j) = Some tb" "length tb = ht_size (ht d j)"
      using dict_ok_ht [OF assms(1), of j] False by (auto simp: ht_ok_def split: option.splits)
    have "tb ! i \<in> set tb" using tb(2) False by (intro nth_mem) simp
    then have "set (tb ! i) \<subseteq> set (entries d)" using tb(1) unfolding set_entries
      by (auto simp: entries_ht_def ht_def split: if_splits)
    then have "set (take (cnt - length des) (tb ! i)) \<subseteq> set (entries d)" using set_take_subset by fast
    then show ?thesis using False tb l by (auto simp: sample_table_def st sample_ok_def rd_Some Let_def split: prod.splits)
  qed
qed

lemma sample_loop_ok:
  "dict_ok d \<Longrightarrow> sample_ok d cnt st \<Longrightarrow> \<exists>st'. sample_loop d cnt msk tables n st = Some st' \<and> sample_ok d cnt st'"
proof (induction n arbitrary: st)
  case (Suc n)
  obtain f1 st1 where s1: "sample_table d cnt msk tables 0 st = Some (f1, st1)" "sample_ok d cnt st1"
    using sample_table_ok [OF Suc.prems] by blast
  obtain f2 st2 where s2: "(if \<not> f1 \<and> tables = 2 then sample_table d cnt msk tables 1 st1 else Some (f1, st1)) = Some (f2, st2)" "sample_ok d cnt st2"
  proof (cases "\<not> f1 \<and> tables = 2")
    case True
    then show thesis using sample_table_ok [OF Suc.prems(1) s1(2), of msk tables 1] that by auto
  next
    case False
    then show thesis using that [of f1 st1] s1(2) by auto
  qed
  have "sample_ok d cnt ((fst st2 + 1) AND msk, snd st2)" using s2(2) by (simp add: sample_ok_def)
  then obtain st3 where s3: "sample_loop d cnt msk tables n ((fst st2 + 1) AND msk, snd st2) = Some st3" "sample_ok d cnt st3"
    using Suc.IH [OF Suc.prems(1)] by blast
  let ?r = "if length (snd (snd (snd st))) \<ge> cnt then st else if f2 then st2 else st3"
  have "sample_loop d cnt msk tables (Suc n) st = Some ?r" using s1(1) s2(1) s3(1) by simp
  moreover have "sample_ok d cnt ?r" using Suc.prems(2) s2(2) s3(2) by simp
  ultimately show ?case by blast
qed simp

lemma dictGetRandomKey_in:
  assumes ok: "dict_ok d" and g: "dictGetRandomKey d s = Some (d1, s1, r)"
  shows "mset (entries d1) = mset (entries d) \<and> (case r of None \<Rightarrow> entries d = [] | Some e \<Rightarrow> e \<in> set (entries d))"
proof (cases "dictSize d = 0")
  case True
  then show ?thesis using g dict_size_entries [OF ok] by (simp add: dictGetRandomKey_def)
next
  case False
  obtain d' where d': "rehash_once d = Some d'" "dict_ok d'" "same_entries d d'" using rehash_once_ok [OF ok] by blast
  obtain he s' where he: "random_bucket d' s = Some (he, s')"
    "(let (v, s) = srand_get_int32 s' in let k = sint v smod int (length he) in do { guard (0 \<le> k); Some (d', s, Some (he ! nat k)) }) = Some (d1, s1, r)"
    using g False d'(1) by (auto simp: dictGetRandomKey_def bind_eq_Some_conv)
  obtain v s3 where v: "srand_get_int32 s' = (v, s3)" by fastforce
  let ?k = "sint v smod int (length he)"
  have r: "d1 = d'" "0 \<le> ?k" "r = Some (he ! nat ?k)" using he(2) v by (simp_all add: Let_def bind_eq_Some_conv guard_def split: if_splits)
  have ne: "he \<noteq> []" "set he \<subseteq> set (entries d')" using random_bucket_in [OF he(1)] by simp_all
  then have "?k < int (length he)" using smod_int_range [of "int (length he)" "sint v"] by simp
  then have "he ! nat ?k \<in> set (entries d')" using ne r(2) by (intro subsetD [OF ne(2)] nth_mem) simp
  then show ?thesis using r d'(3) set_entries_same [OF d'(3)] by (simp add: same_entries_def)
qed

section \<open>Properties\<close>

text \<open>
  C16: An iteration gives every entry once. On a well formed dictionary, also in the middle of a rehash,
  \<open>dictNext\<close> gives the entries of both tables in their order and then \<open>NULL\<close>; the fingerprint of an
  unsafe iterator still agrees when it is released. While a safe iterator is open, lookups in the body
  of the loop move no entry, and its release takes back the count that stops the rehash.
\<close>

theorem iterator_gives_all:
  assumes "dict_inv d"
  shows "(\<exists>iter. dict_iterate at (\<lambda>e d. Some d) d dictGetIterator = Some (d, iter, entries d)
        \<and> dictReleaseIterator at d iter = Some d)
    \<and> (\<exists>iter d'. dict_iterate at (\<lambda>e d. map_option fst (dictFetchValue d (f e))) d dictGetSafeIterator = Some (d', iter, entries d)
        \<and> dictReleaseIterator at d' iter = Some d)"
proof
  have ok: "dict_ok d" using assms by (simp add: dict_inv_def)
  obtain iter where "dict_iterate at (\<lambda>e d. Some d) d dictGetIterator = Some (d, iter, entries d)" "0 \<le> it_index iter"
    "it_safe iter = False" "it_fingerprint iter = Some (dictFingerprint at d)"
    using iterate_plain [OF ok, of at] by blast
  then show "\<exists>iter. dict_iterate at (\<lambda>e d. Some d) d dictGetIterator = Some (d, iter, entries d) \<and> dictReleaseIterator at d iter = Some d"
    by (intro exI [of _ iter]) (simp add: dictReleaseIterator_def)
next
  let ?d = "d\<lparr>iterators := iterators d + 1\<rparr>"
  let ?b = "\<lambda>e d. map_option fst (dictFetchValue d (f e))"
  have inv: "dict_inv ?d" "dict_ok ?d" using assms by (simp_all add: dict_inv_def)
  have body: "?b e ?d = Some ?d" for e using fetch_iterating [OF inv(1), of "f e"] by simp
  have "iter_begin at d dictGetSafeIterator = (?d, dictGetSafeIterator)"
    by (simp add: iter_begin_def dictGetSafeIterator_def dictGetIterator_def)
  from iterate_all [OF inv(2) _ this, of ?b] body obtain iter where
    "dict_iterate at ?b d dictGetSafeIterator = Some (?d, iter, entries ?d)" "0 \<le> it_index iter"
    "it_safe iter = it_safe dictGetSafeIterator" by auto
  then have "dict_iterate at ?b d dictGetSafeIterator = Some (?d, iter, entries ?d)" "0 \<le> it_index iter" "it_safe iter = True"
    by (simp_all add: dictGetSafeIterator_def)
  then show "\<exists>iter d'. dict_iterate at ?b d dictGetSafeIterator = Some (d', iter, entries d) \<and> dictReleaseIterator at d' iter = Some d"
    by (intro exI [of _ iter] exI [of _ ?d]) (simp add: dictReleaseIterator_def)
qed

text \<open>The dictionary of the witnesses: the hash of a key is the key.\<close>

definition plain_type :: "(u64, nat) dictType" where
  "plain_type = \<lparr>hashFunction = (\<lambda>k. k), keyDup = None, valDup = None, keyCompare = None, keyDestructor = False, valDestructor = False\<rparr>"

text \<open>A table of 16 buckets with one key, and the same while it shrinks to 4.\<close>

definition scan_entry :: "(u64, nat) dictEntry" where
  "scan_entry = \<lparr>e_addr = 0, e_key = 4, e_val = 1\<rparr>"

definition scan_wide :: "(u64, nat) dict" where
  "scan_wide = (dictCreate plain_type)\<lparr>ht0 := \<lparr>ht_table = Some ((replicate 16 [])[4 := [scan_entry]]), ht_size = 16, ht_sizemask = 15, ht_used = 1\<rparr>,
     fresh := 1\<rparr>"

definition scan_shrinking :: "(u64, nat) dict" where
  "scan_shrinking = scan_wide\<lparr>ht1 := \<lparr>ht_table = Some (replicate 4 []), ht_size = 4, ht_sizemask = 3, ht_used = 0\<rparr>, rehashidx := 0\<rparr>"

lemma replicate_16: "replicate 16 x = [x, x, x, x, x, x, x, x, x, x, x, x, x, x, x, x]" "replicate 4 x = [x, x, x, x]"
  by (simp_all add: numeral_eq_Suc)

lemma scan_dicts:
  "fst (dictResize True scan_wide) = scan_shrinking"
  "dictAdd True 0 (fst (dictExpand (dictCreate plain_type) 16)) 4 1 = Some (scan_wide, DICT_OK)"
proof -
  have p: "dictNextPower 16 = 16" "dictNextPower 4 = 4"
    by (simp_all add: dictNextPower_def LONG_MAX_def DICT_HT_INITIAL_SIZE_def nextPower_loop.simps)
  show "fst (dictResize True scan_wide) = scan_shrinking"
    by (simp add: dictResize_def dictExpand_def p scan_wide_def scan_shrinking_def dictCreate_def dictIsRehashing_def DICT_HT_INITIAL_SIZE_def Let_def)
  have "fst (dictExpand (dictCreate plain_type) 16) = (dictCreate plain_type)\<lparr>ht0 := \<lparr>ht_table = Some (replicate 16 []), ht_size = 16, ht_sizemask = 15, ht_used = 0\<rparr>\<rparr>"
    by (simp add: dictExpand_def p dictCreate_def dictIsRehashing_def dictReset_def Let_def)
  then show "dictAdd True 0 (fst (dictExpand (dictCreate plain_type) 16)) 4 1 = Some (scan_wide, DICT_OK)"
    by (simp add: dictAdd_def dictAddRaw_def rehash_once_def dictKeyIndex_def dictExpandIfNeeded_def dictIsRehashing_def dictCreate_def
        bucket_def ht_def set_ht_def dictHashKey_def plain_type_def dictSetKey_def dictSetVal_def set_val_at_def set_ht_val_def
        scan_wide_def scan_entry_def replicate_16 set_entry_val_def dictReset_def)
qed

lemma scan_dicts_ok: "dict_inv scan_wide" "dict_inv scan_shrinking"
proof -
  have p: "pow2_size 16" "pow2_size 4" by (simp_all add: pow2_size_def)
  have e: "entries scan_wide = [scan_entry]" "entries scan_shrinking = [scan_entry]"
    by (simp_all add: entries_def entries_ht_def scan_wide_def scan_shrinking_def replicate_16 dictCreate_def dictReset_def)
  have s: "\<forall>e \<in> set ((replicate 16 [])[4 := [scan_entry]] ! i). in_slot plain_type 16 i e" if "i < 16" for i
    using that by (cases "i = 4") (simp_all add: in_slot_def plain_type_def scan_entry_def nth_list_update)
  have f: "d_type scan_wide = plain_type" "d_type scan_shrinking = plain_type" "ht_ok plain_type (ht0 scan_wide)" "ht_ok plain_type (ht1 scan_wide)"
    "ht0 scan_shrinking = ht0 scan_wide" "ht_ok plain_type (ht1 scan_shrinking)" "type_ok plain_type"
    using s by (simp_all add: scan_wide_def scan_shrinking_def dictCreate_def ht_ok_def p dictReset_def in_slot_def type_ok_def)
      (simp_all add: replicate_16 plain_type_def)
  have r: "rehash_ok scan_wide" "rehash_ok scan_shrinking"
    by (simp_all add: rehash_ok_def scan_wide_def scan_shrinking_def dictIsRehashing_def dictCreate_def)
  have a: "addrs_ok scan_wide" "addrs_ok scan_shrinking"
    unfolding addrs_ok_def e by (simp_all add: scan_wide_def scan_shrinking_def scan_entry_def)
  show "dict_inv scan_wide" "dict_inv scan_shrinking"
    by (simp_all add: dict_inv_def dict_ok_def f r a e)
qed

lemma scan_shrinking_facts: "entries scan_shrinking = [scan_entry]" "dict_map scan_shrinking 4 = Some 1"
  by (simp_all add: entries_def entries_ht_def dict_map_def scan_wide_def scan_shrinking_def replicate_16 dictCreate_def dictReset_def scan_entry_def)

lemma iterator_gives_all_witness:
  "\<exists>iter. dict_iterate (0, 0) (\<lambda>e d. Some d) scan_shrinking dictGetIterator = Some (scan_shrinking, iter, [scan_entry])
     \<and> dictReleaseIterator (0, 0) scan_shrinking iter = Some scan_shrinking"
  using iterator_gives_all [OF scan_dicts_ok(2), of "(0, 0)"] scan_shrinking_facts(1) by simp

text \<open>
  Random entries are entries. When \<open>dictGetRandomKey\<close> returns, it has \<open>NULL\<close> for an empty dictionary
  and an entry of the dictionary for any other; \<open>dictGetSomeKeys\<close> always returns, reads within the
  tables, and stores no more entries than asked for, all of them in the dictionary. Neither loses an
  entry to the rehash it advances.
\<close>

theorem random_entries:
  assumes "dict_inv d"
  shows "(dictGetRandomKey d s = Some (d1, s1, r) \<longrightarrow>
        mset (entries d1) = mset (entries d) \<and> (case r of None \<Rightarrow> entries d = [] | Some e \<Rightarrow> e \<in> set (entries d)))
    \<and> (\<exists>d2 s2 des. dictGetSomeKeys d cnt s = Some (d2, s2, des) \<and> mset (entries d2) = mset (entries d)
        \<and> length des \<le> cnt \<and> set des \<subseteq> set (entries d))"
proof
  have ok: "dict_ok d" using assms by (simp add: dict_inv_def)
  show "dictGetRandomKey d s = Some (d1, s1, r) \<longrightarrow>
        mset (entries d1) = mset (entries d) \<and> (case r of None \<Rightarrow> entries d = [] | Some e \<Rightarrow> e \<in> set (entries d))"
    using dictGetRandomKey_in [OF ok] by blast
  let ?c = "if dictSize d < cnt then dictSize d else cnt"
  obtain d2 where d2: "rehash_times ?c d = Some d2" "dict_ok d2" "same_entries d d2" using rehash_times_ok [OF ok] by blast
  obtain v s' where v: "srand_get_int32 s = (v, s')" by fastforce
  have z: "sample_ok d2 ?c (i, 0, s', [])" for i by (simp add: sample_ok_def)
  show "\<exists>d2 s2 des. dictGetSomeKeys d cnt s = Some (d2, s2, des) \<and> mset (entries d2) = mset (entries d)
        \<and> length des \<le> cnt \<and> set des \<subseteq> set (entries d)"
  proof -
    obtain i e s2 des where "sample_loop d2 ?c
        (if (if dictIsRehashing d2 then 2 else 1 :: nat) > 1 \<and> ht_sizemask (ht0 d2) < ht_sizemask (ht1 d2) then ht_sizemask (ht1 d2) else ht_sizemask (ht0 d2))
        (if dictIsRehashing d2 then 2 else 1) (?c * 10 mod 2 ^ 32)
        (unat (scast v :: u64) AND (if (if dictIsRehashing d2 then 2 else 1 :: nat) > 1 \<and> ht_sizemask (ht0 d2) < ht_sizemask (ht1 d2)
          then ht_sizemask (ht1 d2) else ht_sizemask (ht0 d2)), 0, s', []) = Some (i, e, s2, des)"
      and so: "sample_ok d2 ?c (i, e, s2, des)"
      using sample_loop_ok [OF d2(2) z] by (metis prod_cases4)
    then have "dictGetSomeKeys d cnt s = Some (d2, s2, des)"
      using d2(1) v by (simp only: dictGetSomeKeys_def Let_def bind.bind_lunit prod.case)
    moreover have "length des \<le> cnt" "set des \<subseteq> set (entries d)"
      using so set_entries_same [OF d2(3)] by (auto simp: sample_ok_def split: if_splits)
    ultimately show ?thesis using d2(3) by (auto simp: same_entries_def)
  qed
qed

lemma random_entries_witness:
  "\<exists>d2 s2 des. dictGetSomeKeys scan_shrinking 3 rng0 = Some (d2, s2, des) \<and> length des \<le> 3 \<and> set des \<subseteq> {scan_entry}"
  using random_entries [OF scan_dicts_ok(2), of rng0 undefined rng0 None 3] by (auto simp: scan_shrinking_facts(1))

end
