(* ===== verification/DictScan.thy ===== *)
theory DictScan
  imports DictIter
begin

text \<open>
  The stateless cursor of \<open>dictScan\<close> in \<open>utils/basic_struct/dict.c\<close>. The callbacks only read: the chains
  they are given are returned, in the order of the calls.
\<close>

section \<open>The cursor\<close>

text \<open>\<open>rev\<close>: the parallel reversal of the bits.\<close>

function rev_loop :: "nat \<Rightarrow> u64 \<Rightarrow> u64 \<Rightarrow> u64" where
  "rev_loop s msk v =
     (let s = s div 2
      in if s = 0 then v
         else let msk = msk XOR push_bit s msk
              in rev_loop s msk ((drop_bit s v AND msk) OR (push_bit s v AND NOT msk)))"
  by auto
termination
  by (relation "measure fst") auto

declare rev_loop.simps [simp del]

definition rev_bits :: "u64 \<Rightarrow> u64" where
  "rev_bits v = rev_loop 64 (NOT 0) v"

definition next_cursor :: "u64 \<Rightarrow> u64 \<Rightarrow> u64" where
  "next_cursor m0 v = (let v = v OR NOT m0; v = rev_bits v; v = v + 1 in rev_bits v)"

definition sizemask :: "('k, 'v) dictht \<Rightarrow> u64" where
  "sizemask h = of_nat (ht_sizemask h)"

definition scan_bucket :: "('k, 'v) dictht \<Rightarrow> u64 \<Rightarrow> ('k, 'v) dictEntry list option" where
  "scan_bucket h v = do { tb \<leftarrow> ht_table h; rd tb (unat (v AND sizemask h)) }"

text \<open>The loop over the expansions of the cursor in the larger table.\<close>

partial_function (option) scan_loop ::
  "('k, 'v) dictht \<Rightarrow> u64 \<Rightarrow> u64 \<Rightarrow> u64 \<Rightarrow> (('k, 'v) dictEntry list list \<times> u64) option"
where
  "scan_loop t1 m0 m1 v =
     Option.bind (scan_bucket t1 v) (\<lambda>ch.
       let v = (((v OR m0) + 1) AND NOT m0) OR (v AND m0)
       in if v AND (m0 XOR m1) \<noteq> 0
          then Option.bind (scan_loop t1 m0 m1 v) (\<lambda>(chs, v). Some (ch # chs, v))
          else Some ([ch], v))"

declare scan_loop.simps [simp del]

text \<open>The chains handed to the callbacks and the next cursor.\<close>

definition dictScan :: "('k, 'v) dict \<Rightarrow> u64 \<Rightarrow> (('k, 'v) dictEntry list list \<times> u64) option" where
  "dictScan d v =
     (if dictSize d = 0 then Some ([], 0)
      else if \<not> dictIsRehashing d
      then do { ch \<leftarrow> scan_bucket (ht0 d) v; Some ([ch], next_cursor (sizemask (ht0 d)) v) }
      else
        (let (t0, t1) = (if ht_size (ht0 d) > ht_size (ht1 d) then (ht1 d, ht0 d) else (ht0 d, ht1 d));
             m0 = sizemask t0; m1 = sizemask t1
         in do { ch \<leftarrow> scan_bucket t0 v;
                 (chs, v) \<leftarrow> scan_loop t1 m0 m1 v;
                 Some (ch # chs, next_cursor m0 v) }))"

section \<open>The order of the cursors\<close>

text \<open>Every round exchanges the two halves of each block of bits.\<close>

lemma less_64_cases:
  "n < 64 \<Longrightarrow> n \<in> set [0, 1, 2, 3, 4, 5, 6, 7, 8, 9, 10, 11, 12, 13, 14, 15, 16, 17, 18, 19, 20, 21, 22, 23, 24, 25, 26, 27, 28, 29, 30,
     31, 32, 33, 34, 35, 36, 37, 38, 39, 40, 41, 42, 43, 44, 45, 46, 47, 48, 49, 50, 51, 52, 53, 54, 55, 56, 57, 58, 59, 60, 61, 62, (63 :: nat)]"
  by simp presburger

definition rev_round :: "nat \<Rightarrow> u64 \<Rightarrow> u64 \<Rightarrow> u64" where
  "rev_round s msk v = (drop_bit s v AND msk) OR (push_bit s v AND NOT msk)"

lemma rev_loop_round:
  "0 < s \<Longrightarrow> msk XOR push_bit s msk = msk' \<Longrightarrow> rev_loop (2 * s) msk v = rev_loop s msk' (rev_round s msk' v)"
  by (subst rev_loop.simps) (simp add: rev_round_def Let_def)

lemma rev_masks:
  "NOT 0 XOR push_bit 32 (NOT 0) = (0x00000000FFFFFFFF :: u64)"
  "0x00000000FFFFFFFF XOR push_bit 16 0x00000000FFFFFFFF = (0x0000FFFF0000FFFF :: u64)"
  "0x0000FFFF0000FFFF XOR push_bit 8 0x0000FFFF0000FFFF = (0x00FF00FF00FF00FF :: u64)"
  "0x00FF00FF00FF00FF XOR push_bit 4 0x00FF00FF00FF00FF = (0x0F0F0F0F0F0F0F0F :: u64)"
  "0x0F0F0F0F0F0F0F0F XOR push_bit 2 0x0F0F0F0F0F0F0F0F = (0x3333333333333333 :: u64)"
  "0x3333333333333333 XOR push_bit 1 0x3333333333333333 = (0x5555555555555555 :: u64)"
proof -
  have f: "(NOT 0 :: u64) = 0xFFFFFFFFFFFFFFFF" by simp
  show "NOT 0 XOR push_bit 32 (NOT 0) = (0x00000000FFFFFFFF :: u64)" unfolding f by simp
qed simp_all

lemma rev_bits_rounds:
  "rev_bits v = rev_round 1 0x5555555555555555 (rev_round 2 0x3333333333333333 (rev_round 4 0x0F0F0F0F0F0F0F0F
     (rev_round 8 0x00FF00FF00FF00FF (rev_round 16 0x0000FFFF0000FFFF (rev_round 32 0x00000000FFFFFFFF v)))))"
  using rev_loop_round [OF _ rev_masks(1)] rev_loop_round [OF _ rev_masks(2)] rev_loop_round [OF _ rev_masks(3)]
    rev_loop_round [OF _ rev_masks(4)] rev_loop_round [OF _ rev_masks(5)] rev_loop_round [OF _ rev_masks(6)]
  by (simp add: rev_bits_def rev_loop.simps [of "Suc 0"])

text \<open>One round moves bit \<open>n\<close> within its block of \<open>2 s\<close> bits.\<close>

definition moved :: "nat \<Rightarrow> nat \<Rightarrow> nat" where
  "moved s n = (if even (n div s) then n + s else n - s)"

lemma rev_mask_bits:
  assumes "n < 64"
  shows "bit (0x00000000FFFFFFFF :: u64) n \<longleftrightarrow> even (n div 32)" "bit (0x0000FFFF0000FFFF :: u64) n \<longleftrightarrow> even (n div 16)"
    "bit (0x00FF00FF00FF00FF :: u64) n \<longleftrightarrow> even (n div 8)" "bit (0x0F0F0F0F0F0F0F0F :: u64) n \<longleftrightarrow> even (n div 4)"
    "bit (0x3333333333333333 :: u64) n \<longleftrightarrow> even (n div 2)" "bit (0x5555555555555555 :: u64) n \<longleftrightarrow> even (n div 1)"
  using less_64_cases [OF assms] unfolding list.set insert_iff empty_iff simp_thms
  by (elim disjE; simp)+

lemma moved_range:
  fixes n s :: nat
  assumes "n < 64" "s \<in> {32, 16, 8, 4, 2, 1}"
  shows "odd (n div s) \<Longrightarrow> s \<le> n" "even (n div s) \<Longrightarrow> n + s < 64"
proof -
  show "odd (n div s) \<Longrightarrow> s \<le> n" using div_less [of n s] by (cases "s \<le> n") auto
  have "\<forall>s \<in> {32, 16, 8, 4, 2, 1}. even (n div s) \<longrightarrow> n + s < 64"
    using less_64_cases [OF assms(1)] unfolding list.set insert_iff empty_iff simp_thms by (elim disjE; simp)
  then show "even (n div s) \<Longrightarrow> n + s < 64" using assms(2) by blast
qed

lemma rev_round_bit:
  assumes "bit msk n \<longleftrightarrow> even (n div s)" "n < 64" "s \<in> {32, 16, 8, 4, 2, 1}"
  shows "bit (rev_round s msk v) n \<longleftrightarrow> bit v (moved s n)"
  using assms(1,2) moved_range [OF assms(2,3)] by (auto simp: rev_round_def moved_def bit_simps add.commute)

lemma rev_round_bits:
  assumes "n < 64"
  shows "bit (rev_round 32 0x00000000FFFFFFFF v) n = bit v (moved 32 n)"
    "bit (rev_round 16 0x0000FFFF0000FFFF v) n = bit v (moved 16 n)"
    "bit (rev_round 8 0x00FF00FF00FF00FF v) n = bit v (moved 8 n)"
    "bit (rev_round 4 0x0F0F0F0F0F0F0F0F v) n = bit v (moved 4 n)"
    "bit (rev_round 2 0x3333333333333333 v) n = bit v (moved 2 n)"
    "bit (rev_round 1 0x5555555555555555 v) n = bit v (moved 1 n)"
  by (rule rev_round_bit, rule rev_mask_bits [OF assms], rule assms, simp)+

lemma moved_bound: "n < 64 \<Longrightarrow> s \<in> {32, 16, 8, 4, 2, 1} \<Longrightarrow> moved s n < 64"
  using moved_range [of n s] by (auto simp: moved_def)

lemma moved_all:
  assumes "n < 64"
  shows "moved 32 (moved 16 (moved 8 (moved 4 (moved 2 (moved 1 n))))) = 63 - n"
  using less_64_cases [OF assms] unfolding list.set insert_iff empty_iff simp_thms
  by (elim disjE; simp add: moved_def)

lemma rev_bits_reverse: "rev_bits v = word_reverse v"
proof (rule bit_word_eqI)
  fix n :: nat
  assume "n < LENGTH(64)"
  then have n: "n < 64" by simp
  have b: "moved 1 m < 64" "moved 2 m < 64" "moved 4 m < 64" "moved 8 m < 64" "moved 16 m < 64" if "m < 64" for m
    by (rule moved_bound [OF that], simp)+
  have "bit (rev_bits v) n = bit v (moved 32 (moved 16 (moved 8 (moved 4 (moved 2 (moved 1 n))))))"
    unfolding rev_bits_rounds by (simp only: rev_round_bits b n)
  then show "bit (rev_bits v) n = bit (word_reverse v) n"
    using moved_all [OF n] n by (simp add: bit_word_reverse_iff)
qed

text \<open>A cursor as the number its reversed bits stand for, and the step of the cursor on that number.\<close>

definition pos_of :: "u64 \<Rightarrow> nat" where
  "pos_of v = unat (word_reverse v)"

lemma reverse_or_high:
  assumes "k \<le> 64"
  shows "word_reverse (v OR NOT (mask k)) = (word_reverse v OR mask (64 - k) :: u64)"
  by (rule bit_word_eqI) (use assms in \<open>auto simp: bit_simps\<close>)

lemma unat_or_mask: "unat (x OR mask n :: u64) = unat x div 2 ^ n * 2 ^ n + (2 ^ n - 1)" if "n < 64"
proof -
  have "uint x OR mask n = push_bit n (drop_bit n (uint x)) OR mask n"
    by (rule bit_eqI) (auto simp: bit_simps)
  also have "\<dots> = push_bit n (drop_bit n (uint x)) + mask n"
    by (rule disjunctive_add [symmetric]) (auto simp: bit_simps)
  also have "\<dots> = int (unat x div 2 ^ n * 2 ^ n + (2 ^ n - 1))"
    by (simp add: push_bit_eq_mult drop_bit_eq_div mask_eq_exp_minus_1 zdiv_int of_nat_diff del: add_diff_assoc)
  finally have "uint x OR mask n = int (unat x div 2 ^ n * 2 ^ n + (2 ^ n - 1))" .
  moreover have "uint (x OR mask n) = uint x OR mask n" by (rule bit_eqI) (use that in \<open>auto simp: bit_simps\<close>)
  ultimately show ?thesis by (simp only: unat_eq_nat_uint nat_int)
qed

lemma next_cursor_pos:
  assumes "0 < k" "k \<le> 64"
  shows "pos_of (next_cursor (mask k) v) = (pos_of v div 2 ^ (64 - k) * 2 ^ (64 - k) + 2 ^ (64 - k)) mod 2 ^ 64"
proof -
  have "pos_of (next_cursor (mask k) v) = unat ((word_reverse v OR mask (64 - k)) + 1)"
    by (simp add: next_cursor_def rev_bits_reverse reverse_or_high assms pos_of_def Let_def)
  also have "\<dots> = (unat (word_reverse v OR mask (64 - k)) + 1) mod 2 ^ 64"
    by (simp add: unat_word_ariths)
  also have "unat (word_reverse v OR mask (64 - k)) + 1 = pos_of v div 2 ^ (64 - k) * 2 ^ (64 - k) + 2 ^ (64 - k)"
    using unat_or_mask [of "64 - k" "word_reverse v"] assms by (simp add: pos_of_def)
  finally show ?thesis .
qed

text \<open>The hashes of one bucket are an interval of positions.\<close>

lemma same_slot_pos:
  assumes "k \<le> 64"
  shows "unat h mod 2 ^ k = unat v mod 2 ^ k \<longleftrightarrow> pos_of h div 2 ^ (64 - k) = pos_of v div 2 ^ (64 - k)"
proof -
  have d: "pos_of x div 2 ^ (64 - k) = unat (drop_bit (64 - k) (word_reverse x))" for x
    unfolding pos_of_def unat_drop_bit_eq by (rule drop_bit_eq_div [symmetric])
  have m: "unat x mod 2 ^ k = unat (take_bit k x)" for x :: u64
    unfolding unsigned_take_bit_eq by (rule take_bit_eq_mod [symmetric])
  have "take_bit k h = take_bit k v \<longleftrightarrow> drop_bit (64 - k) (word_reverse h) = drop_bit (64 - k) (word_reverse v)" (is "?l = ?r")
  proof
    assume ?l
    then have l: "bit h i = bit v i" if "i < k" for i using that by (metis bit_take_bit_iff)
    show ?r
    proof (rule bit_word_eqI)
      fix n :: nat
      assume n: "n < LENGTH(64)"
      show "bit (drop_bit (64 - k) (word_reverse h)) n = bit (drop_bit (64 - k) (word_reverse v)) n"
        using l [of "k - Suc n"] assms by (auto simp: bit_simps)
    qed
  next
    assume r: ?r
    show ?l
    proof (rule bit_word_eqI)
      fix n :: nat
      assume n: "n < LENGTH(64)"
      have "bit (drop_bit (64 - k) (word_reverse h)) (k - Suc n) = bit (drop_bit (64 - k) (word_reverse v)) (k - Suc n)" using r by simp
      then show "bit (take_bit k h) n = bit (take_bit k v) n"
        using assms n by (cases "n < k") (auto simp: bit_simps Suc_diff_Suc)
    qed
  qed
  then show ?thesis unfolding d m by (simp add: word_unat_eq_iff)
qed

section \<open>What a call gives\<close>

text \<open>The entries whose hash ends in \<open>a\<close>, in \<open>k\<close> bits.\<close>

definition with_slot :: "('k, 'v) dictType \<Rightarrow> nat \<Rightarrow> nat \<Rightarrow> ('k, 'v) dictEntry list \<Rightarrow> ('k, 'v) dictEntry list" where
  "with_slot ty k a es = filter (\<lambda>e. unat (hashFunction ty (e_key e)) mod 2 ^ k = a) es"

lemma concat_if: "concat (map (\<lambda>i. if P i then f i else []) xs) = concat (map f (filter P xs))"
  by (induction xs) auto

lemma bucket_slots:
  assumes "ht_ok ty h" "ht_table h = Some tb" "i < length tb" "ht_size h = 2 ^ j" "k \<le> j"
  shows "with_slot ty k a (tb ! i) = (if i mod 2 ^ k = a then tb ! i else [])"
proof -
  have "unat (hashFunction ty (e_key e)) mod 2 ^ k = i mod 2 ^ k" if "e \<in> set (tb ! i)" for e
  proof -
    have "unat (hashFunction ty (e_key e)) mod 2 ^ j = i"
      using in_bucket_slot [OF assms(1-3) that] assms(4) by (simp add: in_slot_def)
    moreover have "(2 :: nat) ^ k dvd 2 ^ j" using assms(5) by (simp add: le_imp_power_dvd)
    ultimately show ?thesis using mod_mod_cancel by metis
  qed
  then show ?thesis by (auto simp: with_slot_def filter_empty_conv intro: filter_True)
qed

lemma with_slot_concat:
  assumes "ht_ok ty h" "ht_table h = Some tb" "ht_size h = 2 ^ j" "k \<le> j"
  shows "with_slot ty k a (concat tb) = concat (map ((!) tb) (filter (\<lambda>i. i mod 2 ^ k = a) [0..<2 ^ j]))"
proof -
  have len: "length tb = 2 ^ j" using assms by (auto simp: ht_ok_def)
  have "with_slot ty k a (concat tb) = concat (map (with_slot ty k a) tb)"
    by (simp add: with_slot_def [abs_def] filter_concat)
  also have "map (with_slot ty k a) tb = map (\<lambda>i. with_slot ty k a (tb ! i)) [0..<2 ^ j]"
    by (rule nth_equalityI) (simp_all add: len)
  also have "\<dots> = map (\<lambda>i. if i mod 2 ^ k = a then tb ! i else []) [0..<2 ^ j]"
    using bucket_slots [OF assms(1,2) _ assms(3,4)] len by simp
  finally show ?thesis by (simp only: concat_if)
qed

lemma mod_filter: "0 < (m :: nat) \<Longrightarrow> a < m \<Longrightarrow> filter (\<lambda>i. i mod m = a) [0..<m * n] = map (\<lambda>i. a + m * i) [0..<n]"
proof (induction n)
  case (Suc n)
  have "filter (\<lambda>i. i mod m = a) [m * n..<m * n + m] = [m * n + a]"
  proof -
    have "[m * n..<m * n + m] = map (\<lambda>i. m * n + i) [0..<m]" by (rule nth_equalityI) simp_all
    moreover have "filter (\<lambda>i. (m * n + i) mod m = a) [0..<m] = filter (\<lambda>i. i = a) [0..<m]" by (rule filter_cong) auto
    moreover have "filter (\<lambda>i. i = a) [0..<m] = [a]"
      using Suc.prems(2) by (induction m) (auto simp: less_Suc_eq filter_empty_conv)
    ultimately show ?thesis by (simp add: filter_map comp_def)
  qed
  moreover have "[0..<m * Suc n] = [0..<m * n] @ [m * n..<m * n + m]"
    using upt_add_eq_append [of 0 "m * n" m] by (simp add: add.commute)
  ultimately show ?case using Suc by (simp add: add.commute)
qed simp

text \<open>The mask of a table, and the bucket a cursor selects.\<close>

lemma scan_table:
  assumes "ht_ok ty h" "ht_table h = Some tb" "ht_size h = 2 ^ k"
  shows "sizemask h = mask k" "scan_bucket h v = Some (tb ! (unat v mod 2 ^ k))"
    "tb ! (unat v mod 2 ^ k) = with_slot ty k (unat v mod 2 ^ k) (entries_ht h)" "k < 32"
proof -
  obtain j where j: "2 \<le> j" "j < 32" "ht_size h = 2 ^ j" "ht_sizemask h = 2 ^ j - 1" "length tb = 2 ^ j"
    using ht_ok_Some [OF assms(1,2)] by metis
  have jk: "j = k" using j(3) assms(3) by simp
  then show "k < 32" using j(2) by simp
  show s: "sizemask h = mask k"
    using j(4) jk by (simp add: sizemask_def mask_eq_exp_minus_1 of_nat_diff)
  have "unat (v AND mask k) = unat v mod 2 ^ k" by (simp add: unat_and_mask)
  then show "scan_bucket h v = Some (tb ! (unat v mod 2 ^ k))"
    using assms(2) j(5) jk by (simp add: scan_bucket_def s)
  have "filter (\<lambda>i. i mod 2 ^ k = unat v mod 2 ^ k) [0..<2 ^ k * 1] = [unat v mod 2 ^ k]"
    by (subst mod_filter) simp_all
  then show "tb ! (unat v mod 2 ^ k) = with_slot ty k (unat v mod 2 ^ k) (entries_ht h)"
    using with_slot_concat [OF assms, of k "unat v mod 2 ^ k"] assms(2) by (simp add: entries_ht_def)
qed

lemma unat_small: "n < 2 ^ 64 \<Longrightarrow> unat (of_nat n :: u64) = n"
  unfolding unsigned_of_nat of_nat_id by (simp add: take_bit_nat_eq_self)

lemma step_expansion: "(((v OR mask k) + 1) AND NOT (mask k)) OR (v AND mask k) = v + (2 ^ k :: u64)"
proof -
  have "v OR mask k = (v AND NOT (mask k)) OR mask k" by (rule bit_word_eqI) (auto simp: bit_simps)
  also have "\<dots> = (v AND NOT (mask k)) + mask k"
    by (rule disjunctive_add [symmetric]) (auto simp: bit_simps)
  finally have a: "(v OR mask k) + 1 = (v AND NOT (mask k)) + 2 ^ k" by (simp add: mask_eq_exp_minus_1)
  have "v AND NOT (mask k) = push_bit k (drop_bit k v)" by (rule bit_word_eqI) (auto simp: bit_simps)
  then have p: "(v AND NOT (mask k)) + 2 ^ k = push_bit k (drop_bit k v + 1)" by (simp add: push_bit_add)
  have "((v AND NOT (mask k)) + 2 ^ k) AND NOT (mask k) = (v AND NOT (mask k)) + 2 ^ k"
    unfolding p by (rule bit_word_eqI) (auto simp: bit_simps)
  note b = this
  have "((v AND NOT (mask k)) + 2 ^ k) OR (v AND mask k) = ((v AND NOT (mask k)) + 2 ^ k) + (v AND mask k)"
  proof (rule disjunctive_add [symmetric])
    fix n :: nat
    show "\<not> bit ((v AND NOT (mask k)) + 2 ^ k) n \<or> \<not> bit (v AND mask k) n"
      by (subst b [symmetric]) (auto simp: bit_simps)
  qed
  also have "\<dots> = ((v AND NOT (mask k)) + (v AND mask k)) + 2 ^ k" by simp
  also have "(v AND NOT (mask k)) + (v AND mask k) = (v AND NOT (mask k)) OR (v AND mask k)"
    by (rule disjunctive_add) (auto simp: bit_simps)
  also have "\<dots> = v" by (rule bit_word_eqI) (auto simp: bit_simps)
  finally show ?thesis unfolding a b .
qed

lemma more_expansions:
  assumes "k \<le> j" "j < 64" "a < 2 ^ k"
  shows "(of_nat (a + 2 ^ k * i) AND (mask k XOR mask j) = (0 :: u64)) \<longleftrightarrow> i mod 2 ^ (j - k) = 0"
proof -
  let ?v = "of_nat (a + 2 ^ k * i) :: u64"
  have "?v AND (mask k XOR mask j) = 0 \<longleftrightarrow> take_bit (j - k) (drop_bit k ?v) = 0"
  proof
    assume z: "?v AND (mask k XOR mask j) = 0"
    show "take_bit (j - k) (drop_bit k ?v) = 0"
    proof (rule bit_word_eqI)
      fix n :: nat
      have "bit (?v AND (mask k XOR mask j)) (k + n) = bit (0 :: u64) (k + n)" by (simp only: z)
      then show "bit (take_bit (j - k) (drop_bit k ?v)) n = bit (0 :: u64) n" if "n < LENGTH(64)"
        using assms that by (auto simp: bit_simps dest: bit_imp_le_length)
    qed
  next
    assume z: "take_bit (j - k) (drop_bit k ?v) = 0"
    show "?v AND (mask k XOR mask j) = 0"
    proof (rule bit_word_eqI)
      fix n :: nat
      have "bit (take_bit (j - k) (drop_bit k ?v)) (n - k) = bit (0 :: u64) (n - k)" by (simp only: z)
      then show "bit (?v AND (mask k XOR mask j)) n = bit (0 :: u64) n" if "n < LENGTH(64)"
        using assms that by (cases "k \<le> n") (auto simp: bit_simps)
    qed
  qed
  also have "\<dots> \<longleftrightarrow> unat (take_bit (j - k) (drop_bit k ?v)) = 0" by (simp add: unat_eq_0)
  also have "unat (take_bit (j - k) (drop_bit k ?v)) = unat ?v div 2 ^ k mod 2 ^ (j - k)"
    unfolding unsigned_take_bit_eq unat_drop_bit_eq by (simp add: take_bit_eq_mod drop_bit_eq_div)
  also have "\<dots> = i mod 2 ^ (j - k)"
  proof -
    have "unat ?v = take_bit 64 (a + 2 ^ k * i)" unfolding unsigned_of_nat of_nat_id by simp
    then have "unat ?v div 2 ^ k mod 2 ^ (j - k) = take_bit (j - k) (drop_bit k (take_bit 64 (a + 2 ^ k * i)))"
      by (simp add: take_bit_eq_mod drop_bit_eq_div)
    also have "\<dots> = take_bit (j - k) (drop_bit k (a + 2 ^ k * i))"
      using assms by (intro bit_eqI) (auto simp: bit_simps)
    also have "drop_bit k (a + 2 ^ k * i) = i" using assms(3) by (simp add: drop_bit_eq_div)
    finally show ?thesis by (simp add: take_bit_eq_mod)
  qed
  finally show ?thesis .
qed

text \<open>The loop visits the expansions from the cursor on, up to the largest.\<close>

lemma scan_loop_runs:
  assumes "ht_ok ty h" "ht_table h = Some tb" "ht_size h = 2 ^ j" "k \<le> j" "a < 2 ^ k" "i < 2 ^ (j - k)"
  shows "\<exists>v'. scan_loop h (mask k) (mask j) (of_nat (a + 2 ^ k * i))
      = Some (map (\<lambda>i. tb ! (a + 2 ^ k * i)) [i..<2 ^ (j - k)], v') \<and> unat v' mod 2 ^ k = a"
  using assms(6)
proof (induction "2 ^ (j - k) - i" arbitrary: i)
  case 0
  then show ?case by simp
next
  case (Suc x)
  have j: "j < 32" by (rule scan_table(4) [OF assms(1-3)])
  have lt: "a + 2 ^ k * i < 2 ^ j"
  proof -
    have "a + 2 ^ k * i < 2 ^ k * Suc i" using assms(5) by simp
    also have "\<dots> \<le> 2 ^ k * 2 ^ (j - k)" using Suc.prems by (intro mult_le_mono2) simp
    finally show ?thesis using assms(4) by (simp flip: power_add)
  qed
  have "(2 :: nat) ^ j \<le> 2 ^ 64" using j by (intro power_increasing) simp_all
  then have u: "unat (of_nat (a + 2 ^ k * i) :: u64) = a + 2 ^ k * i"
    using lt by (intro unat_small) simp
  have b: "scan_bucket h (of_nat (a + 2 ^ k * i)) = Some (tb ! (a + 2 ^ k * i))"
    using scan_table(2) [OF assms(1-3), of "of_nat (a + 2 ^ k * i)"] lt unfolding u by simp
  have st: "(((of_nat (a + 2 ^ k * i) OR mask k) + 1) AND NOT (mask k)) OR (of_nat (a + 2 ^ k * i) AND mask k)
      = (of_nat (a + 2 ^ k * Suc i) :: u64)"
    unfolding step_expansion by (simp add: algebra_simps)
  have j64: "j < 64" using j by simp
  note more = more_expansions [OF assms(4) j64 assms(5), of "Suc i"]
  show ?case
  proof (cases "Suc i = 2 ^ (j - k)")
    case True
    have m: "Suc i mod 2 ^ (j - k) = 0" unfolding True by simp
    have "unat (of_nat (a + 2 ^ k * Suc i) :: u64) = a + 2 ^ k * Suc i"
    proof (rule unat_small)
      have "a + 2 ^ k * Suc i < 2 * 2 ^ j"
      proof -
        have "a + 2 ^ k * Suc i < 2 ^ j + 2 ^ k" using lt by simp
        also have "\<dots> \<le> 2 ^ j + 2 ^ j" using assms(4) by simp
        finally show ?thesis by simp
      qed
      also have "2 * 2 ^ j \<le> (2 :: nat) ^ 64" using j power_increasing [of "Suc j" 64 "2 :: nat"] by simp
      finally show "a + 2 ^ k * Suc i < 2 ^ 64" by simp
    qed
    then have "unat (of_nat (a + 2 ^ k * Suc i) :: u64) mod 2 ^ k = a" using assms(5) by (simp only: mod_mult_self2 mod_less)
    moreover have "scan_loop h (mask k) (mask j) (of_nat (a + 2 ^ k * i)) = Some ([tb ! (a + 2 ^ k * i)], of_nat (a + 2 ^ k * Suc i))"
      unfolding scan_loop.simps [of _ _ _ "of_nat (a + 2 ^ k * i)"] b st Let_def bind.bind_lunit using more m by simp
    moreover have "[i..<2 ^ (j - k)] = [i]" unfolding True [symmetric] by simp
    ultimately show ?thesis by simp
  next
    case False
    then have l: "Suc i < 2 ^ (j - k)" using Suc.prems by simp
    then have m: "Suc i mod 2 ^ (j - k) \<noteq> 0" by simp
    have "x = 2 ^ (j - k) - Suc i" using Suc.hyps(2) by simp
    from Suc.hyps(1) [OF this l] obtain v' where v': "scan_loop h (mask k) (mask j) (of_nat (a + 2 ^ k * Suc i))
        = Some (map (\<lambda>i. tb ! (a + 2 ^ k * i)) [Suc i..<2 ^ (j - k)], v')" "unat v' mod 2 ^ k = a" by blast
    have "scan_loop h (mask k) (mask j) (of_nat (a + 2 ^ k * i))
        = Some (tb ! (a + 2 ^ k * i) # map (\<lambda>i. tb ! (a + 2 ^ k * i)) [Suc i..<2 ^ (j - k)], v')"
      unfolding scan_loop.simps [of _ _ _ "of_nat (a + 2 ^ k * i)"] b st Let_def bind.bind_lunit using more m v'(1) by simp
    moreover have "[i..<2 ^ (j - k)] = i # [Suc i..<2 ^ (j - k)]" using Suc.prems by (simp add: upt_conv_Cons)
    ultimately show ?thesis using v'(2) by simp
  qed
qed

text \<open>The size of the smaller table, and a cursor within it.\<close>

definition scan_size :: "('k, 'v) dict \<Rightarrow> nat" where
  "scan_size d = (if dictIsRehashing d \<and> ht_size (ht1 d) < ht_size (ht0 d) then ht_size (ht1 d) else ht_size (ht0 d))"

definition scan_covers :: "('k, 'v) dict \<Rightarrow> u64 \<Rightarrow> bool" where
  "scan_covers d v \<longleftrightarrow> (dictIsRehashing d \<longrightarrow> unat v < scan_size d)"

definition after_pos :: "nat \<Rightarrow> u64 \<Rightarrow> nat" where
  "after_pos k v = pos_of v div 2 ^ (64 - k) * 2 ^ (64 - k) + 2 ^ (64 - k)"

lemma next_cursor_slot:
  assumes "0 < k" "k \<le> 64" "unat v' mod 2 ^ k = unat v mod 2 ^ k"
  shows "pos_of (next_cursor (mask k) v') = after_pos k v mod 2 ^ 64"
  using next_cursor_pos [OF assms(1,2), of v'] same_slot_pos [OF assms(2), of v' v] assms(3) by (simp add: after_pos_def)

lemma table_power:
  assumes "dict_ok d" "ht_table (ht d t) = Some tb"
  obtains k where "2 \<le> k" "k < 32" "ht_size (ht d t) = 2 ^ k"
  using ht_ok_Some [OF dict_ok_ht [OF assms(1)] assms(2)] by metis

lemma scan_two:
  assumes "ht_ok ty t0" "ht_table t0 = Some tb0" "ht_size t0 = 2 ^ k" "0 < k"
    and "ht_ok ty t1" "ht_table t1 = Some tb1" "ht_size t1 = 2 ^ j" "k \<le> j" "unat v < 2 ^ k"
  shows "\<exists>ch chs v'. scan_bucket t0 v = Some ch \<and> scan_loop t1 (sizemask t0) (sizemask t1) v = Some (chs, v')
    \<and> ch @ concat chs = with_slot ty k (unat v mod 2 ^ k) (entries_ht t0 @ entries_ht t1)
    \<and> pos_of (next_cursor (sizemask t0) v') = after_pos k v mod 2 ^ 64"
proof -
  have v: "of_nat (unat v + 2 ^ k * 0) = v" by simp
  obtain v' where l: "scan_loop t1 (mask k) (mask j) v = Some (map (\<lambda>i. tb1 ! (unat v + 2 ^ k * i)) [0..<2 ^ (j - k)], v')"
    "unat v' mod 2 ^ k = unat v"
    using scan_loop_runs [OF assms(5-9), of 0] unfolding v by auto
  have pw: "(2 :: nat) ^ j = 2 ^ k * 2 ^ (j - k)" using assms(8) by (simp flip: power_add)
  have "concat (map (\<lambda>i. tb1 ! (unat v + 2 ^ k * i)) [0..<2 ^ (j - k)]) = with_slot ty k (unat v) (concat tb1)"
    unfolding with_slot_concat [OF assms(5-8)] pw by (subst mod_filter) (simp_all add: assms(9) comp_def)
  moreover have "k \<le> 64" using scan_table(4) [OF assms(1-3)] by simp
  ultimately show ?thesis
    using scan_table(1) [OF assms(1-3)] scan_table(2,3) [OF assms(1-3), of v] scan_table(1) [OF assms(5-7)] l assms(2,4,6,9) next_cursor_slot [of k v' v]
    by (simp add: with_slot_def entries_ht_def)
qed

lemma dictScan_step:
  assumes ok: "dict_ok d" and used: "dictSize d \<noteq> 0" and cov: "scan_covers d v"
  shows "\<exists>k chs v'. 2 \<le> k \<and> k < 32 \<and> scan_size d = 2 ^ k \<and> dictScan d v = Some (chs, v')
    \<and> mset (concat chs) = mset (with_slot (d_type d) k (unat v mod 2 ^ k) (entries d))
    \<and> pos_of v' = after_pos k v mod 2 ^ 64"
proof -
  have h: "ht_ok (d_type d) (ht0 d)" "ht_ok (d_type d) (ht1 d)" using ok by (simp_all add: dict_ok_def)
  obtain tb0 where tb0: "ht_table (ht0 d) = Some tb0"
    using ht0_table [OF ok] used by auto
  obtain k0 where k0: "2 \<le> k0" "k0 < 32" "ht_size (ht0 d) = 2 ^ k0" using ht_ok_Some [OF h(1) tb0] by metis
  show ?thesis
  proof (cases "dictIsRehashing d")
    case False
    have e: "entries d = entries_ht (ht0 d)" using ht1_empty [OF ok False] by (simp add: entries_def)
    have "pos_of (next_cursor (mask k0) v) = after_pos k0 v mod 2 ^ 64" using k0 by (intro next_cursor_slot) simp_all
    then show ?thesis using False used k0 scan_table(1) [OF h(1) tb0 k0(3)] scan_table(2,3) [OF h(1) tb0 k0(3), of v] e
      by (intro exI [of _ k0]) (simp add: dictScan_def scan_size_def)
  next
    case True
    obtain tb1 where tb1: "ht_table (ht1 d) = Some tb1" using ht1_table [OF ok True] by auto
    obtain k1 where k1: "2 \<le> k1" "k1 < 32" "ht_size (ht1 d) = 2 ^ k1" using ht_ok_Some [OF h(2) tb1] by metis
    show ?thesis
    proof (cases "ht_size (ht0 d) > ht_size (ht1 d)")
      case lt: True
      have le: "k1 \<le> k0" using lt k0(3) k1(3) by (simp add: power_strict_increasing_iff)
      have v: "unat v < 2 ^ k1" using cov True lt k1(3) by (simp add: scan_covers_def scan_size_def)
      have "0 < k1" using k1 by simp
      from scan_two [OF h(2) tb1 k1(3) this h(1) tb0 k0(3) le v] obtain ch chs v' where s:
        "scan_bucket (ht1 d) v = Some ch" "scan_loop (ht0 d) (sizemask (ht1 d)) (sizemask (ht0 d)) v = Some (chs, v')"
        "ch @ concat chs = with_slot (d_type d) k1 (unat v mod 2 ^ k1) (entries_ht (ht1 d) @ entries_ht (ht0 d))"
        "pos_of (next_cursor (sizemask (ht1 d)) v') = after_pos k1 v mod 2 ^ 64" by blast
      have "dictScan d v = Some (ch # chs, next_cursor (sizemask (ht1 d)) v')"
        using True used lt s(1,2) by (simp add: dictScan_def Let_def)
      moreover have "mset (concat (ch # chs)) = mset (with_slot (d_type d) k1 (unat v mod 2 ^ k1) (entries d))"
        unfolding concat.simps s(3) by (simp add: with_slot_def entries_def)
      ultimately show ?thesis using k1 s(4) True lt by (intro exI [of _ k1]) (simp add: scan_size_def)
    next
      case ge: False
      have le: "k0 \<le> k1" using ge k0(3) k1(3) by simp
      have v: "unat v < 2 ^ k0" using cov True ge k0(3) by (simp add: scan_covers_def scan_size_def)
      have "0 < k0" using k0 by simp
      from scan_two [OF h(1) tb0 k0(3) this h(2) tb1 k1(3) le v] obtain ch chs v' where s:
        "scan_bucket (ht0 d) v = Some ch" "scan_loop (ht1 d) (sizemask (ht0 d)) (sizemask (ht1 d)) v = Some (chs, v')"
        "ch @ concat chs = with_slot (d_type d) k0 (unat v mod 2 ^ k0) (entries_ht (ht0 d) @ entries_ht (ht1 d))"
        "pos_of (next_cursor (sizemask (ht0 d)) v') = after_pos k0 v mod 2 ^ 64" by blast
      have "dictScan d v = Some (ch # chs, next_cursor (sizemask (ht0 d)) v')"
        using True used ge s(1,2) by (simp add: dictScan_def Let_def)
      moreover have "mset (concat (ch # chs)) = mset (with_slot (d_type d) k0 (unat v mod 2 ^ k0) (entries d))"
        unfolding concat.simps s(3) by (simp add: entries_def)
      ultimately show ?thesis using k0 s(4) True ge by (intro exI [of _ k0]) (simp add: scan_size_def)
    qed
  qed
qed

section \<open>A scan\<close>

text \<open>The calls of one scan, each with the dictionary and the cursor it is given; between two calls the
  dictionary may be anything.\<close>

inductive scan_run :: "(('k, 'v) dict \<times> u64) list \<Rightarrow> ('k, 'v) dictEntry list \<Rightarrow> u64 \<Rightarrow> bool" where
  start: "scan_run [] [] 0"
| call: "scan_run cs es v \<Longrightarrow> cs = [] \<or> v \<noteq> 0 \<Longrightarrow> dictScan d v = Some (chs, v') \<Longrightarrow> scan_run (cs @ [(d, v)]) (es @ concat chs) v'"

text \<open>How far the scan has come.\<close>

definition scan_front :: "(('k, 'v) dict \<times> u64) list \<Rightarrow> u64 \<Rightarrow> nat" where
  "scan_front cs v = (if v = 0 \<and> cs \<noteq> [] then 2 ^ 64 else pos_of v)"

lemma pos_of_0: "pos_of v = 0 \<longleftrightarrow> v = 0"
proof -
  have z: "word_reverse (0 :: u64) = 0" by (rule bit_word_eqI) (simp add: bit_word_reverse_iff)
  have "word_reverse v = 0 \<longleftrightarrow> v = 0" using word_rev_rev [of v] z by metis
  then show ?thesis by (simp add: pos_of_def unat_eq_0)
qed

lemma pos_of_less: "pos_of v < 2 ^ 64"
  using unsigned_less [of "word_reverse v"] by (simp add: pos_of_def)

lemma after_pos_bound:
  assumes "k \<le> 64"
  shows "0 < after_pos k v" "after_pos k v \<le> 2 ^ 64" "pos_of v < after_pos k v"
    "pos_of v \<le> p \<Longrightarrow> p < after_pos k v \<Longrightarrow> p div 2 ^ (64 - k) = pos_of v div 2 ^ (64 - k)"
proof -
  let ?m = "(2 :: nat) ^ (64 - k)"
  have pw: "?m * 2 ^ k = 2 ^ 64" using assms by (simp flip: power_add)
  show "0 < after_pos k v" by (simp add: after_pos_def)
  show lt: "pos_of v < after_pos k v"
  proof -
    have "pos_of v mod ?m < ?m" by simp
    then show ?thesis using div_mult_mod_eq [of "pos_of v" ?m] unfolding after_pos_def by linarith
  qed
  have "pos_of v < 2 ^ k * ?m" using pos_of_less [of v] pw by (simp only: mult.commute)
  then have "pos_of v div ?m < 2 ^ k" by (rule less_mult_imp_div_less)
  then have "(pos_of v div ?m + 1) * ?m \<le> 2 ^ k * ?m" by (intro mult_le_mono1) simp
  then show "after_pos k v \<le> 2 ^ 64" using pw by (simp add: after_pos_def algebra_simps)
  show "p div ?m = pos_of v div ?m" if "pos_of v \<le> p" "p < after_pos k v"
  proof (rule antisym)
    have "p < (pos_of v div ?m + 1) * ?m" using that(2) by (simp add: after_pos_def algebra_simps)
    then have "p div ?m < pos_of v div ?m + 1" by (rule less_mult_imp_div_less)
    then show "p div ?m \<le> pos_of v div ?m" by simp
    show "pos_of v div ?m \<le> p div ?m" by (rule div_le_mono [OF that(1)])
  qed
qed

lemma front_after:
  assumes "pos_of v' = after_pos k v mod 2 ^ 64" "k \<le> 64" "cs \<noteq> []"
  shows "scan_front cs v' = after_pos k v"
proof (cases "after_pos k v = 2 ^ 64")
  case True
  then have "v' = 0" using assms(1) pos_of_0 [of v'] by simp
  then show ?thesis using True assms(3) by (simp add: scan_front_def)
next
  case False
  then have "pos_of v' = after_pos k v" using assms(1) after_pos_bound(2) [OF assms(2), of v] by simp
  then show ?thesis using after_pos_bound(1) [OF assms(2), of v] pos_of_0 [of v'] by (auto simp: scan_front_def)
qed

lemma scan_emits:
  assumes d: "dict_ok d" "d_type d = ty" "scan_covers d v" "key \<in> dom (dict_map d)" and s: "dictScan d v = Some (chs, v')"
  shows "\<exists>k \<le> 64. pos_of v' = after_pos k v mod 2 ^ 64
    \<and> (pos_of v \<le> pos_of (hashFunction ty key) \<and> pos_of (hashFunction ty key) < after_pos k v \<longrightarrow> key \<in> e_key ` set (concat chs))"
proof -
  obtain e where e: "e \<in> set (entries d)" "e_key e = key"
    using d(4) unfolding keys_dom [OF d(1), symmetric] by auto
  have "dictSize d \<noteq> 0" using dict_size_entries [OF d(1)] e(1) by auto
  from dictScan_step [OF d(1) this d(3)] s obtain k where k: "k < 32"
    "mset (concat chs) = mset (with_slot ty k (unat v mod 2 ^ k) (entries d))" "pos_of v' = after_pos k v mod 2 ^ 64"
    unfolding d(2) by auto
  have k64: "k \<le> 64" using k(1) by simp
  have "key \<in> e_key ` set (concat chs)" if "pos_of v \<le> pos_of (hashFunction ty key)" "pos_of (hashFunction ty key) < after_pos k v"
  proof -
    have "unat (hashFunction ty key) mod 2 ^ k = unat v mod 2 ^ k"
      unfolding same_slot_pos [OF k64] by (rule after_pos_bound(4) [OF k64 that])
    then have "e \<in> set (with_slot ty k (unat v mod 2 ^ k) (entries d))" using e by (simp add: with_slot_def)
    then have "e \<in> set (concat chs)" unfolding mset_eq_setD [OF k(2), symmetric] .
    then show ?thesis using e(2) by (metis imageI)
  qed
  then show ?thesis using k64 k(3) by blast
qed

lemma scan_run_front:
  assumes "scan_run cs es v" "\<forall>(d, v) \<in> set cs. dict_ok d \<and> d_type d = ty \<and> scan_covers d v \<and> key \<in> dom (dict_map d)"
  shows "pos_of (hashFunction ty key) < scan_front cs v \<longrightarrow> key \<in> e_key ` set es"
  using assms
proof (induction rule: scan_run.induct)
  case start
  have "pos_of 0 = 0" using pos_of_0 by blast
  then show ?case by (simp add: scan_front_def)
next
  case (call cs es v d chs v')
  have d: "dict_ok d" "d_type d = ty" "scan_covers d v" "key \<in> dom (dict_map d)" using call.prems by auto
  obtain k where k: "k \<le> 64" "pos_of v' = after_pos k v mod 2 ^ 64"
    "pos_of v \<le> pos_of (hashFunction ty key) \<and> pos_of (hashFunction ty key) < after_pos k v \<longrightarrow> key \<in> e_key ` set (concat chs)"
    using scan_emits [OF d call.hyps(3)] by blast
  have f: "scan_front (cs @ [(d, v)]) v' = after_pos k v" by (rule front_after [OF k(2,1)]) simp
  have fv: "scan_front cs v = pos_of v" using call.hyps(2) by (auto simp: scan_front_def)
  have ih: "pos_of (hashFunction ty key) < pos_of v \<longrightarrow> key \<in> e_key ` set es"
    using call.IH call.prems unfolding fv by simp
  show ?case unfolding f set_append image_Un using ih k(3) by (meson UnCI not_le)
qed

text \<open>A scan of a dictionary that stays as it is.\<close>

partial_function (option) scan_all :: "('k, 'v) dict \<Rightarrow> u64 \<Rightarrow> ('k, 'v) dictEntry list option" where
  "scan_all d v =
     Option.bind (dictScan d v) (\<lambda>(chs, v).
       if v = 0 then Some (concat chs) else Option.bind (scan_all d v) (\<lambda>es. Some (concat chs @ es)))"

declare scan_all.simps [simp del]

lemma aligned_small:
  assumes "k \<le> 64" "pos_of v mod 2 ^ (64 - k) = 0"
  shows "unat v < 2 ^ k"
proof -
  have "unat (take_bit (64 - k) (word_reverse v)) = 0"
    using assms(2) unfolding unsigned_take_bit_eq pos_of_def by (simp add: take_bit_eq_mod)
  then have z: "take_bit (64 - k) (word_reverse v) = 0" by (simp add: unat_eq_0)
  have nb: "\<not> bit v n" if "k \<le> n" for n
  proof (cases "n < 64")
    case True
    have "\<not> bit (take_bit (64 - k) (word_reverse v)) (63 - n)" using z by simp
    then show ?thesis using True that by (simp add: bit_take_bit_iff bit_word_reverse_iff)
  next
    case False
    then show ?thesis using bit_imp_le_length [of v n] by auto
  qed
  have "bit v n \<longleftrightarrow> n < k \<and> bit v n" for n using nb [of n] by (cases "n < k") simp_all
  then have "v = take_bit k v" by (intro bit_word_eqI) (simp add: bit_take_bit_iff)
  then have "unat v = take_bit k (unat v)" using unsigned_take_bit_eq [of k v, where 'a = nat] by metis
  then show ?thesis by (metis take_bit_nat_less_exp)
qed

lemma scan_all_rest:
  fixes d :: "('k, 'v) dict"
  assumes ok: "dict_ok d" and used: "dictSize d \<noteq> 0" and k: "scan_size d = 2 ^ k" "k < 32"
  shows "pos_of v = i * 2 ^ (64 - k) \<Longrightarrow> i < 2 ^ k \<Longrightarrow>
    \<exists>es. scan_all d v = Some es \<and> mset es = mset (filter (\<lambda>e. pos_of v \<le> pos_of (hashFunction (d_type d) (e_key e))) (entries d))"
proof (induction "2 ^ k - i" arbitrary: i v)
  case 0
  then show ?case by simp
next
  case (Suc x)
  let ?h = "\<lambda>e. pos_of (hashFunction (d_type d) (e_key e))"
  have k64: "k \<le> 64" using k(2) by simp
  have pw: "2 ^ k * (2 :: nat) ^ (64 - k) = 2 ^ 64" using k64 by (simp flip: power_add)
  have "scan_covers d v" using aligned_small [OF k64] Suc.prems(1) k(1) by (simp add: scan_covers_def)
  from dictScan_step [OF ok used this] k(1) obtain chs v' where s: "dictScan d v = Some (chs, v')"
    "mset (concat chs) = mset (with_slot (d_type d) k (unat v mod 2 ^ k) (entries d))" "pos_of v' = after_pos k v mod 2 ^ 64"
    by auto
  have ap: "after_pos k v = Suc i * 2 ^ (64 - k)" using Suc.prems(1) by (simp add: after_pos_def)
  have slot: "unat (hashFunction (d_type d) (e_key e)) mod 2 ^ k = unat v mod 2 ^ k
      \<longleftrightarrow> pos_of v \<le> ?h e \<and> ?h e < after_pos k v" (is "?l \<longleftrightarrow> ?r") for e
  proof
    have d: "pos_of v div 2 ^ (64 - k) = i" using Suc.prems(1) by simp
    assume ?l
    then have h: "?h e div 2 ^ (64 - k) = i" using same_slot_pos [OF k64] d by metis
    have lt: "?h e mod 2 ^ (64 - k) < 2 ^ (64 - k)" by simp
    have "i * 2 ^ (64 - k) + ?h e mod 2 ^ (64 - k) = ?h e" using div_mult_mod_eq [of "?h e" "2 ^ (64 - k)"] unfolding h .
    then show ?r unfolding ap Suc.prems(1) mult_Suc using lt by linarith
  next
    assume ?r
    then show ?l using same_slot_pos [OF k64] after_pos_bound(4) [OF k64] by blast
  qed
  have step: "mset (concat chs) = mset (filter (\<lambda>e. pos_of v \<le> ?h e \<and> ?h e < after_pos k v) (entries d))"
    unfolding s(2) with_slot_def slot ..
  have lt: "?h e < 2 ^ 64" for e :: "('k, 'v) dictEntry" by (rule pos_of_less)
  show ?case
  proof (cases "Suc i = 2 ^ k")
    case True
    then have "after_pos k v = 2 ^ 64" unfolding ap by (simp only: pw)
    moreover from this have "v' = 0" using s(3) pos_of_0 [of v'] by simp
    ultimately show ?thesis using s(1) step lt by (simp add: scan_all.simps [of d v])
  next
    case False
    then have i: "Suc i < 2 ^ k" using Suc.prems(2) by simp
    then have "Suc i * 2 ^ (64 - k) < 2 ^ k * 2 ^ (64 - k)" by (rule mult_less_mono1) simp
    then have v': "pos_of v' = Suc i * 2 ^ (64 - k)" using s(3) unfolding ap pw by simp
    then have nz: "v' \<noteq> 0" using pos_of_0 [of v'] by auto
    have "x = 2 ^ k - Suc i" using Suc.hyps(2) by simp
    from Suc.hyps(1) [OF this v' i] obtain es where es: "scan_all d v' = Some es"
      "mset es = mset (filter (\<lambda>e. pos_of v' \<le> ?h e) (entries d))" by blast
    have "after_pos k v = pos_of v'" unfolding ap v' ..
    moreover have "pos_of v \<le> pos_of v'" unfolding v' Suc.prems(1) by simp
    ultimately have "mset (concat chs @ es) = mset (filter (\<lambda>e. pos_of v \<le> ?h e) (entries d))"
      unfolding mset_append step es(2) by (simp only: mset_filter) (auto simp: multiset_eq_iff)
    then show ?thesis using s(1) nz es(1) by (simp add: scan_all.simps [of d v])
  qed
qed

section \<open>Properties\<close>

lemma plain_reversals:
  "rev_bits 0xFFFFFFFFFFFFFFF0 = 0x0FFFFFFFFFFFFFFF" "rev_bits 0x1000000000000000 = 8"
  "rev_bits 0xFFFFFFFFFFFFFFFC = 0x3FFFFFFFFFFFFFFF" "rev_bits 0x4000000000000000 = 2"
  "rev_bits 0xFFFFFFFFFFFFFFFE = 0x7FFFFFFFFFFFFFFF" "rev_bits 0x8000000000000000 = 1"
  "rev_bits 0xFFFFFFFFFFFFFFFD = 0xBFFFFFFFFFFFFFFF" "rev_bits 0xC000000000000000 = 3"
  "rev_bits 0xFFFFFFFFFFFFFFFF = 0xFFFFFFFFFFFFFFFF" "rev_bits 0 = 0"
  unfolding rev_bits_rounds by (simp_all add: rev_round_def)

lemma plain_cursors:
  "next_cursor 15 0 = 8" "next_cursor 3 16 = 2" "next_cursor 3 18 = 1" "next_cursor 3 17 = 3" "next_cursor 3 19 = 0"
proof -
  have f: "(NOT 15 :: u64) = 0xFFFFFFFFFFFFFFF0" "(NOT 3 :: u64) = 0xFFFFFFFFFFFFFFFC" by simp_all
  have o: "0 OR 0xFFFFFFFFFFFFFFF0 = (0xFFFFFFFFFFFFFFF0 :: u64)" "16 OR 0xFFFFFFFFFFFFFFFC = (0xFFFFFFFFFFFFFFFC :: u64)"
    "18 OR 0xFFFFFFFFFFFFFFFC = (0xFFFFFFFFFFFFFFFE :: u64)" "17 OR 0xFFFFFFFFFFFFFFFC = (0xFFFFFFFFFFFFFFFD :: u64)"
    "19 OR 0xFFFFFFFFFFFFFFFC = (0xFFFFFFFFFFFFFFFF :: u64)" by simp_all
  have p: "0x0FFFFFFFFFFFFFFF + 1 = (0x1000000000000000 :: u64)" "0x3FFFFFFFFFFFFFFF + 1 = (0x4000000000000000 :: u64)"
    "0x7FFFFFFFFFFFFFFF + 1 = (0x8000000000000000 :: u64)" "0xBFFFFFFFFFFFFFFF + 1 = (0xC000000000000000 :: u64)"
    "0xFFFFFFFFFFFFFFFF + 1 = (0 :: u64)" by simp_all
  show "next_cursor 15 0 = 8" "next_cursor 3 16 = 2" "next_cursor 3 18 = 1" "next_cursor 3 17 = 3" "next_cursor 3 19 = 0"
    unfolding next_cursor_def Let_def f o plain_reversals p by (rule refl)+
qed

text \<open>The buckets of the shrinking table: only one of the 20 has an entry.\<close>

lemma shrinking_buckets:
  "scan_bucket (ht1 scan_shrinking) v = Some []"
  "unat v mod 16 \<noteq> 4 \<Longrightarrow> scan_bucket (ht0 scan_shrinking) v = Some []"
proof -
  have h: "ht_table (ht1 scan_shrinking) = Some (replicate 4 [])" "sizemask (ht1 scan_shrinking) = mask 2"
    "ht_table (ht0 scan_shrinking) = Some ((replicate 16 [])[4 := [scan_entry]])" "sizemask (ht0 scan_shrinking) = mask 4"
    by (simp_all add: scan_shrinking_def scan_wide_def sizemask_def mask_numeral)
  have "unat (v AND mask 2) = unat v mod 4" "unat (v AND mask 4) = unat v mod 16" by (simp_all add: unat_and_mask)
  then show "scan_bucket (ht1 scan_shrinking) v = Some []" "unat v mod 16 \<noteq> 4 \<Longrightarrow> scan_bucket (ht0 scan_shrinking) v = Some []"
    by (simp_all add: scan_bucket_def h rd_Some)
qed

lemma scan_wide_first: "dictScan scan_wide 0 = Some ([[]], 8)"
  using plain_cursors(1) by (simp add: dictScan_def scan_wide_def dictSize_def dictIsRehashing_def dictCreate_def scan_bucket_def sizemask_def
      replicate_16 dictReset_def)

lemma scan_shrinking_calls:
  "\<exists>chs. dictScan scan_shrinking 8 = Some (chs, 2) \<and> concat chs = []"
  "\<exists>chs. dictScan scan_shrinking 2 = Some (chs, 1) \<and> concat chs = []"
  "\<exists>chs. dictScan scan_shrinking 1 = Some (chs, 3) \<and> concat chs = []"
  "\<exists>chs. dictScan scan_shrinking 3 = Some (chs, 0) \<and> concat chs = []"
proof -
  have f: "dictSize scan_shrinking \<noteq> 0" "dictIsRehashing scan_shrinking" "ht_size (ht1 scan_shrinking) < ht_size (ht0 scan_shrinking)"
    "sizemask (ht1 scan_shrinking) = 3" "sizemask (ht0 scan_shrinking) = 15"
    by (simp_all add: scan_shrinking_def scan_wide_def dictSize_def dictIsRehashing_def sizemask_def)
  note d = dictScan_def [of scan_shrinking] f shrinking_buckets scan_loop.simps
  show "\<exists>chs. dictScan scan_shrinking 8 = Some (chs, 2) \<and> concat chs = []" using plain_cursors(2) by (simp add: d)
  show "\<exists>chs. dictScan scan_shrinking 2 = Some (chs, 1) \<and> concat chs = []" using plain_cursors(3) by (simp add: d)
  show "\<exists>chs. dictScan scan_shrinking 1 = Some (chs, 3) \<and> concat chs = []" using plain_cursors(4) by (simp add: d)
  show "\<exists>chs. dictScan scan_shrinking 3 = Some (chs, 0) \<and> concat chs = []" using plain_cursors(5) by (simp add: d)
qed

lemma scan_shrinking_covers: "scan_covers scan_shrinking v = (unat v < 4)"
  by (simp add: scan_wide_def scan_shrinking_def scan_covers_def scan_size_def dictIsRehashing_def)

lemma scan_shrinking_first: "\<exists>chs. dictScan scan_shrinking 0 = Some (chs, 2) \<and> concat chs = [scan_entry]"
proof -
  have f: "dictSize scan_shrinking \<noteq> 0" "dictIsRehashing scan_shrinking" "ht_size (ht1 scan_shrinking) < ht_size (ht0 scan_shrinking)"
    "sizemask (ht1 scan_shrinking) = 3" "sizemask (ht0 scan_shrinking) = 15"
    by (simp_all add: scan_shrinking_def scan_wide_def dictSize_def dictIsRehashing_def sizemask_def)
  have "scan_bucket (ht0 scan_shrinking) 4 = Some [scan_entry]"
    by (simp add: scan_bucket_def f(5)) (simp add: scan_shrinking_def scan_wide_def replicate_16)
  then show ?thesis using plain_cursors(2) by (simp add: dictScan_def [of scan_shrinking] f shrinking_buckets scan_loop.simps)
qed

text \<open>
  C15: A scan gives every key that stays. Between the calls the dictionary may grow, shrink, rehash, gain
  and lose entries: a key that is in it at every call is given by one of them before the cursor is 0
  again, as long as the cursor of each call during a rehash is within the smaller of the two tables.
  The proof follows the cursor through its reversed bits, which only grow.
\<close>

theorem scan_gives_stable_keys:
  assumes "scan_run cs es 0" "cs \<noteq> []"
    and "\<forall>(d, v) \<in> set cs. dict_ok d \<and> d_type d = ty \<and> scan_covers d v \<and> key \<in> dom (dict_map d)"
  shows "key \<in> e_key ` set es"
  using scan_run_front [OF assms(1,3)] pos_of_less [of "hashFunction ty key"] assms(2) by (simp add: scan_front_def)

lemma scan_gives_stable_keys_witness: "\<exists>cs es. length cs = 4 \<and> scan_run cs es 0 \<and> 4 \<in> e_key ` set es \<and> fst (hd cs) = scan_shrinking"
proof -
  obtain c1 c2 c3 c4 where c: "dictScan scan_shrinking 0 = Some (c1, 2)" "dictScan scan_shrinking 2 = Some (c2, 1)"
    "dictScan scan_shrinking 1 = Some (c3, 3)" "dictScan scan_shrinking 3 = Some (c4, 0)"
    using scan_shrinking_calls scan_shrinking_first by blast
  note r = scan_run.call [OF scan_run.start _ c(1), simplified]
  note r = scan_run.call [OF r _ c(2), simplified]
  note r = scan_run.call [OF r _ c(3), simplified]
  note r = scan_run.call [OF r _ c(4), simplified]
  let ?cs = "[(scan_shrinking, 0), (scan_shrinking, 2), (scan_shrinking, 1), (scan_shrinking, 3)]"
  have "\<forall>(d, v) \<in> set ?cs. dict_ok d \<and> d_type d = d_type scan_shrinking \<and> scan_covers d v \<and> 4 \<in> dom (dict_map d)"
    using scan_dicts_ok(2) by (simp add: scan_shrinking_facts scan_shrinking_covers dict_inv_def dom_def)
  from scan_gives_stable_keys [OF r _ this] r show ?thesis
    by (intro exI [of _ ?cs] exI [of _ "concat c1 @ concat c2 @ concat c3 @ concat c4"]) simp
qed

text \<open>
  C37: A scan of a dictionary that stays as it is ends, also in the middle of a rehash, and gives every
  entry exactly once.
\<close>

theorem scan_ends_once:
  assumes "dict_inv d"
  shows "\<exists>es. scan_all d 0 = Some es \<and> mset es = mset (entries d)"
proof (cases "dictSize d = 0")
  case True
  then have "entries d = []" using assms dict_size_entries [of d] by (simp add: dict_inv_def)
  then show ?thesis using True by (simp add: scan_all.simps [of d 0] dictScan_def)
next
  case False
  have ok: "dict_ok d" using assms by (simp add: dict_inv_def)
  have z: "pos_of 0 = 0 * 2 ^ (64 - k)" for k using pos_of_0 by simp
  have "scan_covers d 0"
    using ht1_table [OF ok] ht0_table [OF ok] ok by (auto simp: scan_covers_def scan_size_def dict_ok_def ht_ok_def dest!: pow2_size_pos)
  from dictScan_step [OF ok False this] obtain k where "scan_size d = 2 ^ k" "k < 32" by blast
  moreover have "pos_of 0 = 0" using pos_of_0 by blast
  ultimately show ?thesis using scan_all_rest [OF ok False _ _ z, of k] by simp
qed

lemma scan_ends_once_witness: "\<exists>es. scan_all scan_shrinking 0 = Some es \<and> mset es = mset [scan_entry]"
  using scan_ends_once [OF scan_dicts_ok(2)] scan_shrinking_facts(1) by simp

text \<open>
  An example of what \<open>scan_gives_stable_keys\<close> leaves out, a table that shrinks by two bits. After the first call on a table of 16
  buckets, \<open>dictResize\<close> starts the move into 4; the cursor 8 is then outside the smaller table, the loop
  over its expansions starts in the middle and leaves bucket 4 out, and the cursor never returns to it.
  The one key of the dictionary, in it all the time, is never given.
\<close>

theorem scan_misses_key:
  "dictAdd True 0 (fst (dictExpand (dictCreate plain_type) 16)) 4 1 = Some (scan_wide, DICT_OK)
   \<and> fst (dictResize True scan_wide) = scan_shrinking
   \<and> dict_map scan_wide 4 = Some 1 \<and> dict_map scan_shrinking 4 = Some 1
   \<and> scan_run [(scan_wide, 0), (scan_shrinking, 8), (scan_shrinking, 2), (scan_shrinking, 1), (scan_shrinking, 3)] [] 0"
proof (intro conjI)
  show "dict_map scan_wide 4 = Some 1" "dict_map scan_shrinking 4 = Some 1"
    by (simp_all add: dict_map_def entries_def entries_ht_def scan_wide_def scan_shrinking_def replicate_16 scan_entry_def dictCreate_def dictReset_def)
  obtain c1 c2 c3 c4 where c: "dictScan scan_shrinking 8 = Some (c1, 2)" "concat c1 = []" "dictScan scan_shrinking 2 = Some (c2, 1)" "concat c2 = []"
    "dictScan scan_shrinking 1 = Some (c3, 3)" "concat c3 = []" "dictScan scan_shrinking 3 = Some (c4, 0)" "concat c4 = []"
    using scan_shrinking_calls by blast
  note r = scan_run.call [OF scan_run.start _ scan_wide_first, simplified]
  note r = scan_run.call [OF r _ c(1), simplified c append.simps, simplified]
  note r = scan_run.call [OF r _ c(3), simplified c append.simps, simplified]
  note r = scan_run.call [OF r _ c(5), simplified c append.simps, simplified]
  note r = scan_run.call [OF r _ c(7), simplified c append.simps, simplified]
  show "scan_run [(scan_wide, 0), (scan_shrinking, 8), (scan_shrinking, 2), (scan_shrinking, 1), (scan_shrinking, 3)] [] 0"
    using r by simp
qed (rule scan_dicts)+

end
