(* ===== verification/StrUtil.thy ===== *)
theory StrUtil
  imports CPrelude
begin

text \<open>
  The helpers of \<open>utils/basic.c\<close> and \<open>utils/basic.h\<close>: the byte-order macros, the
  conversion between bytes and hexadecimal text, the two string hashes and \<open>Trim\<close>.
  Bytes and characters are \<open>u8\<close>, as in the C buffers.
\<close>

text \<open>The bytes of a C string, without its NUL.\<close>

definition char_byte :: "char \<Rightarrow> u8" where
  "char_byte c = of_nat (of_char c)"

definition bytes :: "string \<Rightarrow> u8 list" where
  "bytes s = map char_byte s"

lemma unat_char_byte: "unat (char_byte c) = of_char c"
proof -
  have "(of_char c :: nat) < 256" by (rule nat_of_char_less_256)
  then show ?thesis by (simp add: char_byte_def unat_of_nat)
qed

lemma inj_char_byte: "inj char_byte"
  by (rule injI) (metis of_char_eq_iff unat_char_byte)

lemma bytes_inj [simp]: "bytes s = bytes t \<longleftrightarrow> s = t"
  by (simp add: bytes_def inj_map_eq_map [OF inj_char_byte])

lemma length_bytes [simp]: "length (bytes s) = length s"
  by (simp add: bytes_def)

section \<open>Byte order\<close>

definition ENDIAN_WORD :: "u16 \<Rightarrow> u16" where
  "ENDIAN_WORD w = push_bit 8 (w AND 0x00FF) OR drop_bit 8 (w AND 0xFF00)"

definition ENDIAN_DWRD :: "u32 \<Rightarrow> u32" where
  "ENDIAN_DWRD d =
     push_bit 24 (d AND 0x000000FF) OR push_bit 8 (d AND 0x0000FF00)
       OR drop_bit 8 (d AND 0x00FF0000) OR drop_bit 24 (d AND 0xFF000000)"

text \<open>The bytes of a 32-bit object in memory, lowest address first (a little-endian machine),
  and the object that four bytes of memory hold.\<close>

definition mem4 :: "u32 \<Rightarrow> u8 list" where
  "mem4 d = [ucast d, ucast (drop_bit 8 d), ucast (drop_bit 16 d), ucast (drop_bit 24 d)]"

definition of_mem4 :: "u8 list \<Rightarrow> u32" where
  "of_mem4 bs = (ucast (bs ! 0) :: u32) OR push_bit 8 (ucast (bs ! 1))
     OR push_bit 16 (ucast (bs ! 2)) OR push_bit 24 (ucast (bs ! 3))"

section \<open>Hexadecimal text\<close>

text \<open>One iteration of the loop of \<open>HexToStr\<close>: the two characters of a byte.\<close>

definition hex_char :: "u8 \<Rightarrow> u8" where
  "hex_char n = (let c = 48 + n in if c > 57 then c + 7 else c)"

fun HexToStr_loop :: "u8 list \<Rightarrow> u8 list" where
  "HexToStr_loop [] = []"
| "HexToStr_loop (b # bs) = hex_char (b div 16) # hex_char (b mod 16) # HexToStr_loop bs"

text \<open>The buffer that \<open>HexToStr\<close> writes: two characters for each of the \<open>nLen\<close> bytes, then NUL.\<close>

definition HexToStr :: "u8 list \<Rightarrow> u8 list" where
  "HexToStr bs = HexToStr_loop bs @ [0]"

text \<open>\<open>toupper\<close> in the C locale.\<close>

definition toupper :: "u8 \<Rightarrow> u8" where
  "toupper c = (if 97 \<le> c \<and> c \<le> 122 then c - 32 else c)"

definition hex_value :: "u8 \<Rightarrow> u8" where
  "hex_value h = (let s = toupper h - 0x30 in if s > 9 then s - 7 else s)"

text \<open>\<open>StrToHex\<close> reads \<open>2 * nLen\<close> characters; a shorter buffer is read out of bounds.\<close>

fun StrToHex :: "u8 list \<Rightarrow> nat \<Rightarrow> u8 list option" where
  "StrToHex src 0 = Some []"
| "StrToHex (h1 # h2 # src) (Suc n) =
     map_option (\<lambda>ds. (hex_value h1 * 16 + hex_value h2) # ds) (StrToHex src n)"
| "StrToHex _ (Suc n) = None"

section \<open>String hashes\<close>

fun calc_hash_loop :: "u32 \<Rightarrow> u8 list \<Rightarrow> u32" where
  "calc_hash_loop h [] = h"
| "calc_hash_loop h (c # cs) = calc_hash_loop ((h * 16777619) XOR ucast c) cs"

definition calc_hash :: "u8 list \<Rightarrow> u32" where
  "calc_hash key = calc_hash_loop 0 key"

text \<open>\<open>char\<close> is signed, so \<open>c = *str++\<close> sign-extends the character.\<close>

fun tstr_hash_loop :: "u32 \<Rightarrow> u8 list \<Rightarrow> u32" where
  "tstr_hash_loop h [] = h"
| "tstr_hash_loop h (c # cs) = tstr_hash_loop (h * 131 + scast c) cs"

definition tstr_hash :: "u8 list option \<Rightarrow> u32" where
  "tstr_hash str = (case str of None \<Rightarrow> 0 | Some s \<Rightarrow> tstr_hash_loop 0 s)"

section \<open>Trim\<close>

text \<open>\<open>Trim\<close> copies every character but the spaces into a new string; of the empty string it
  returns the null pointer (\<open>return '\0'\<close>).\<close>

fun Trim_loop :: "char list \<Rightarrow> char list" where
  "Trim_loop [] = []"
| "Trim_loop (c # cs) = (if c \<noteq> CHR '' '' then c # Trim_loop cs else Trim_loop cs)"

definition Trim :: "string \<Rightarrow> string option" where
  "Trim str = (if length str = 0 then None else Some (Trim_loop str))"

section \<open>Byte order: lemmas\<close>

lemma byte_masks:
  "(0x000000FF :: u32) = mask 8" "(0x0000FF00 :: u32) = push_bit 8 (mask 8)"
  "(0x00FF0000 :: u32) = push_bit 16 (mask 8)" "(0xFF000000 :: u32) = push_bit 24 (mask 8)"
  by (simp_all add: mask_eq_exp_minus_1)

lemma ENDIAN_DWRD_bit:
  assumes "n < 32"
  shows "bit (ENDIAN_DWRD d) n \<longleftrightarrow>
    bit d (if n < 8 then n + 24 else if n < 16 then n + 8 else if n < 24 then n - 8 else n - 24)"
proof -
  consider "n < 8" | "8 \<le> n" "n < 16" | "16 \<le> n" "n < 24" | "24 \<le> n" "n < 32"
    using assms by linarith
  then show ?thesis
    by cases (auto simp: ENDIAN_DWRD_def byte_masks bit_simps add.commute)
qed

lemma ENDIAN_DWRD_involution: "ENDIAN_DWRD (ENDIAN_DWRD d) = d"
proof (rule bit_word_eqI)
  fix n assume "n < LENGTH(32)"
  then have "n < 32" by simp
  then consider "n < 8" | "8 \<le> n" "n < 16" | "16 \<le> n" "n < 24" | "24 \<le> n" "n < 32"
    by linarith
  then show "bit (ENDIAN_DWRD (ENDIAN_DWRD d)) n = bit d n"
    by cases (auto simp: ENDIAN_DWRD_bit)
qed

lemma of_mem4_mem4: "of_mem4 (mem4 d) = d"
proof (rule bit_word_eqI)
  fix n assume "n < LENGTH(32)"
  then have "n < 32" by simp
  then consider "n < 8" | "8 \<le> n" "n < 16" | "16 \<le> n" "n < 24" | "24 \<le> n" "n < 32"
    by linarith
  then show "bit (of_mem4 (mem4 d)) n = bit d n"
    by cases (auto simp: of_mem4_def mem4_def bit_simps)
qed

section \<open>Hexadecimal text: lemmas\<close>

lemma u8_below_16:
  assumes "(n :: u8) < 16"
  shows "n \<in> {0,1,2,3,4,5,6,7,8,9,10,11,12,13,14,15}"
proof -
  have "unat n < 16" using assms by (simp add: word_less_nat_alt)
  then have "unat n \<in> {0,1,2,3,4,5,6,7,8,9,10,11,12,13,14,15}"
    by (simp only: insert_iff empty_iff) presburger
  then have "of_nat (unat n) \<in> (of_nat :: nat \<Rightarrow> u8) ` {0,1,2,3,4,5,6,7,8,9,10,11,12,13,14,15}"
    by (rule imageI)
  moreover have "(of_nat (unat n) :: u8) = n" by simp
  ultimately show ?thesis by (simp only: image_insert image_empty) simp
qed

lemma hex_value_char: "n < 16 \<Longrightarrow> hex_value (hex_char n) = n"
  by (drule u8_below_16) (auto simp: hex_value_def hex_char_def toupper_def)

lemma byte_nibbles: "(b div 16) * 16 + b mod 16 = (b::u8)" "b div 16 < 16" "b mod 16 < (16::u8)"
proof -
  show "(b div 16) * 16 + b mod 16 = b" by (rule div_mult_mod_eq)
  have "unat b < 2 ^ LENGTH(8)" by (rule unsigned_less)
  then show "b div 16 < 16" by (simp add: word_less_nat_alt unat_div)
  show "b mod 16 < 16" by (simp add: word_less_nat_alt unat_mod)
qed

lemma length_HexToStr_loop: "length (HexToStr_loop bs) = 2 * length bs"
  by (induction bs) auto

lemma StrToHex_HexToStr_loop:
  "StrToHex (HexToStr_loop bs @ rest) (length bs) = Some bs"
  by (induction bs) (auto simp: hex_value_char byte_nibbles)

text \<open>The characters \<open>HexToStr\<close> writes are digits and the letters \<open>A\<close> to \<open>F\<close>.\<close>

lemma hex_char_range:
  "n < 16 \<Longrightarrow> (48 \<le> hex_char n \<and> hex_char n \<le> 57) \<or> (65 \<le> hex_char n \<and> hex_char n \<le> 70)"
  by (auto simp: hex_char_def Let_def word_le_nat_alt word_less_nat_alt unat_word_ariths)

lemma HexToStr_loop_range:
  "c \<in> set (HexToStr_loop bs) \<Longrightarrow> (48 \<le> c \<and> c \<le> 57) \<or> (65 \<le> c \<and> c \<le> 70)"
  by (induction bs) (use hex_char_range byte_nibbles(2,3) in auto)

lemma Trim_loop_filter: "Trim_loop s = filter (\<lambda>c. c \<noteq> CHR '' '') s"
  by (induction s) auto

section \<open>Properties\<close>

text \<open>
  \<open>StrToHex\<close> reads back every byte sequence from the text \<open>HexToStr\<close> writes, and that text
  is two upper-case hexadecimal digits for each byte, then NUL.
\<close>

theorem StrToHex_HexToStr:
  "StrToHex (HexToStr bs) (length bs) = Some bs
   \<and> length (HexToStr bs) = 2 * length bs + 1
   \<and> list_all (\<lambda>c. (48 \<le> c \<and> c \<le> 57) \<or> (65 \<le> c \<and> c \<le> 70)) (butlast (HexToStr bs))"
  using StrToHex_HexToStr_loop [of bs "[0]"] HexToStr_loop_range [of _ bs]
  by (auto simp: HexToStr_def length_HexToStr_loop list_all_iff)

end
