(* ===== verification/Adlist.thy ===== *)
theory Adlist
  imports CPrelude
begin

text \<open>
  The doubly linked list of \<open>utils/basic_struct/list.c\<close> over an explicit heap of nodes. A pointer
  is \<open>nat option\<close> (\<open>None\<close> is \<open>NULL\<close>); a dereference of \<open>NULL\<close> or of a freed node is undefined.
  The memory record has the allocator's state: the next address, how many allocations succeed
  before \<open>malloc\<close> returns \<open>NULL\<close>, and the values handed to the list's \<open>free\<close> method.
\<close>

section \<open>Nodes, lists and memory\<close>

type_synonym ptr = "nat option"

record 'v listNode =
  n_prev :: ptr
  n_next :: ptr
  n_value :: 'v

record 'v mem =
  nodes :: "nat \<Rightarrow> 'v listNode option"
  m_fresh :: nat
  m_left :: nat
  m_released :: "'v list"

text \<open>\<open>l_free\<close> says whether the method is set; none of the program's lists sets it.\<close>

record 'v alist =
  l_head :: ptr
  l_tail :: ptr
  l_dup :: "('v \<Rightarrow> 'v option) option"
  l_free :: bool
  l_match :: "('v \<Rightarrow> 'v \<Rightarrow> bool) option"
  l_len :: nat

datatype direction = AL_START_HEAD | AL_START_TAIL

record listIter =
  it_next :: ptr
  it_direction :: direction

text \<open>\<open>malloc\<close>: a fresh address, or \<open>Inl\<close> when it returns \<open>NULL\<close>.\<close>

definition malloc_node :: "'v mem \<Rightarrow> 'v listNode \<Rightarrow> 'v mem + nat \<times> 'v mem" where
  "malloc_node m n =
     (if m_left m = 0 then Inl m
      else Inr (m_fresh m, m\<lparr>nodes := (nodes m)(m_fresh m \<mapsto> n), m_fresh := m_fresh m + 1,
                             m_left := m_left m - 1\<rparr>))"

definition deref :: "'v mem \<Rightarrow> ptr \<Rightarrow> 'v listNode option" where
  "deref m p = (case p of None \<Rightarrow> None | Some a \<Rightarrow> nodes m a)"

definition set_prev :: "ptr \<Rightarrow> ptr \<Rightarrow> 'v mem \<Rightarrow> 'v mem option" where
  "set_prev p x m =
     do { a \<leftarrow> p; n \<leftarrow> nodes m a; Some (m\<lparr>nodes := (nodes m)(a \<mapsto> n\<lparr>n_prev := x\<rparr>)\<rparr>) }"

definition set_next :: "ptr \<Rightarrow> ptr \<Rightarrow> 'v mem \<Rightarrow> 'v mem option" where
  "set_next p x m =
     do { a \<leftarrow> p; n \<leftarrow> nodes m a; Some (m\<lparr>nodes := (nodes m)(a \<mapsto> n\<lparr>n_next := x\<rparr>)\<rparr>) }"

text \<open>\<open>free\<close> of a node; freeing \<open>NULL\<close> does nothing, freeing twice is undefined.\<close>

definition free_node :: "ptr \<Rightarrow> 'v mem \<Rightarrow> 'v mem option" where
  "free_node p m =
     (case p of
        None \<Rightarrow> Some m
      | Some a \<Rightarrow> do { n \<leftarrow> nodes m a; Some (m\<lparr>nodes := (nodes m)(a := None)\<rparr>) })"

definition call_free :: "'v alist \<Rightarrow> 'v \<Rightarrow> 'v mem \<Rightarrow> 'v mem" where
  "call_free l v m = (if l_free l then m\<lparr>m_released := v # m_released m\<rparr> else m)"

definition listCreate :: "'v alist" where
  "listCreate = \<lparr>l_head = None, l_tail = None, l_dup = None, l_free = False, l_match = None, l_len = 0\<rparr>"

section \<open>Emptying\<close>

fun listEmpty_loop :: "nat \<Rightarrow> 'v alist \<Rightarrow> ptr \<Rightarrow> 'v mem \<Rightarrow> 'v mem option" where
  "listEmpty_loop 0 l current m = Some m"
| "listEmpty_loop (Suc len) l current m =
     do { n \<leftarrow> deref m current;
          let m = call_free l (n_value n) m;
          m \<leftarrow> free_node current m;
          listEmpty_loop len l (n_next n) m }"

definition listEmpty :: "'v mem \<Rightarrow> 'v alist \<Rightarrow> ('v mem \<times> 'v alist) option" where
  "listEmpty m l =
     do { m \<leftarrow> listEmpty_loop (l_len l) l (l_head l) m;
          Some (m, l\<lparr>l_head := None, l_tail := None, l_len := 0\<rparr>) }"

definition listRelease :: "'v mem \<Rightarrow> 'v alist \<Rightarrow> 'v mem option" where
  "listRelease m l = map_option fst (listEmpty m l)"

section \<open>Adding\<close>

text \<open>\<open>False\<close> is the result \<open>NULL\<close>.\<close>

definition listAddNodeToHead :: "'v mem \<Rightarrow> 'v alist \<Rightarrow> 'v \<Rightarrow> ('v mem \<times> 'v alist \<times> bool) option" where
  "listAddNodeToHead m l v =
     (case malloc_node m
             (if l_len l = 0 then \<lparr>n_prev = None, n_next = None, n_value = v\<rparr>
              else \<lparr>n_prev = None, n_next = l_head l, n_value = v\<rparr>) of
        Inl m \<Rightarrow> Some (m, l, False)
      | Inr (a, m) \<Rightarrow>
          if l_len l = 0
          then Some (m, l\<lparr>l_head := Some a, l_tail := Some a, l_len := l_len l + 1\<rparr>, True)
          else do {
            m \<leftarrow> set_prev (l_head l) (Some a) m;
            Some (m, l\<lparr>l_head := Some a, l_len := l_len l + 1\<rparr>, True) })"

definition listAddNodeToTail :: "'v mem \<Rightarrow> 'v alist \<Rightarrow> 'v \<Rightarrow> ('v mem \<times> 'v alist \<times> bool) option" where
  "listAddNodeToTail m l v =
     (case malloc_node m
             (if l_len l = 0 then \<lparr>n_prev = None, n_next = None, n_value = v\<rparr>
              else \<lparr>n_prev = l_tail l, n_next = None, n_value = v\<rparr>) of
        Inl m \<Rightarrow> Some (m, l, False)
      | Inr (a, m) \<Rightarrow>
          if l_len l = 0
          then Some (m, l\<lparr>l_head := Some a, l_tail := Some a, l_len := l_len l + 1\<rparr>, True)
          else do {
            m \<leftarrow> set_next (l_tail l) (Some a) m;
            Some (m, l\<lparr>l_tail := Some a, l_len := l_len l + 1\<rparr>, True) })"

definition listInsertNode ::
  "'v mem \<Rightarrow> 'v alist \<Rightarrow> ptr \<Rightarrow> 'v \<Rightarrow> bool \<Rightarrow> ('v mem \<times> 'v alist \<times> bool) option"
where
  "listInsertNode m l old_node v after =
     (if m_left m = 0 then Some (m, l, False)
      else do {
        old \<leftarrow> deref m old_node;
        let node = (if after then \<lparr>n_prev = old_node, n_next = n_next old, n_value = v\<rparr>
                    else \<lparr>n_prev = n_prev old, n_next = old_node, n_value = v\<rparr>);
        (case malloc_node m node of
           Inl m \<Rightarrow> None
         | Inr (a, m) \<Rightarrow> do {
             let l = (if after \<and> l_tail l = old_node then l\<lparr>l_tail := Some a\<rparr>
                      else if \<not> after \<and> l_head l = old_node then l\<lparr>l_head := Some a\<rparr> else l);
             m \<leftarrow> (if n_prev node \<noteq> None then set_next (n_prev node) (Some a) m else Some m);
             m \<leftarrow> (if n_next node \<noteq> None then set_prev (n_next node) (Some a) m else Some m);
             Some (m, l\<lparr>l_len := l_len l + 1\<rparr>, True) }) })"

section \<open>Removing\<close>

definition listDelNode :: "'v mem \<Rightarrow> 'v alist \<Rightarrow> ptr \<Rightarrow> ('v mem \<times> 'v alist) option" where
  "listDelNode m l node =
     do { n \<leftarrow> deref m node;
          (m, l) \<leftarrow> (if n_prev n \<noteq> None
                     then do { m \<leftarrow> set_next (n_prev n) (n_next n) m; Some (m, l) }
                     else Some (m, l\<lparr>l_head := n_next n\<rparr>));
          (m, l) \<leftarrow> (if n_next n \<noteq> None
                     then do { m \<leftarrow> set_prev (n_next n) (n_prev n) m; Some (m, l) }
                     else Some (m, l\<lparr>l_tail := n_prev n\<rparr>));
          let m = call_free l (n_value n) m;
          m \<leftarrow> free_node node m;
          Some (m, l\<lparr>l_len := ul_dec (l_len l)\<rparr>) }"

text \<open>The value popped, \<open>None\<close> for \<open>NULL\<close>.\<close>

definition listPopNodeFromHead :: "'v mem \<Rightarrow> 'v alist \<Rightarrow> ('v mem \<times> 'v alist \<times> 'v option) option" where
  "listPopNodeFromHead m l =
     (if l_head l = None then Some (m, l, None)
      else do { n \<leftarrow> deref m (l_head l);
                (m, l) \<leftarrow> listDelNode m l (l_head l);
                Some (m, l, Some (n_value n)) })"

definition listPopNodeFromTail :: "'v mem \<Rightarrow> 'v alist \<Rightarrow> ('v mem \<times> 'v alist \<times> 'v option) option" where
  "listPopNodeFromTail m l =
     (if l_tail l = None then Some (m, l, None)
      else do { n \<leftarrow> deref m (l_tail l);
                (m, l) \<leftarrow> listDelNode m l (l_tail l);
                Some (m, l, Some (n_value n)) })"

section \<open>Iterating\<close>

definition listGetIterator :: "'v alist \<Rightarrow> direction \<Rightarrow> listIter" where
  "listGetIterator l dir =
     \<lparr>it_next = (if dir = AL_START_HEAD then l_head l else l_tail l), it_direction = dir\<rparr>"

definition listRewind :: "'v alist \<Rightarrow> listIter" where
  "listRewind l = \<lparr>it_next = l_head l, it_direction = AL_START_HEAD\<rparr>"

definition listRewindTail :: "'v alist \<Rightarrow> listIter" where
  "listRewindTail l = \<lparr>it_next = l_tail l, it_direction = AL_START_TAIL\<rparr>"

definition listNext :: "'v mem \<Rightarrow> listIter \<Rightarrow> (listIter \<times> ptr) option" where
  "listNext m it =
     (let current = it_next it
      in if current \<noteq> None
         then do { n \<leftarrow> deref m current;
                   Some (it\<lparr>it_next := (if it_direction it = AL_START_HEAD then n_next n else n_prev n)\<rparr>,
                         current) }
         else Some (it, current))"

text \<open>The loops \<open>while ((node = listNext(&iter)) != NULL)\<close> run on fuel; the addresses handed out
  so far bound the nodes of a list that is not cyclic, so \<open>m_fresh m + 1\<close> steps reach its end.\<close>

fun listSearchKey_loop :: "nat \<Rightarrow> 'v mem \<Rightarrow> 'v alist \<Rightarrow> 'v \<Rightarrow> listIter \<Rightarrow> ptr option" where
  "listSearchKey_loop 0 m l key it = None"
| "listSearchKey_loop (Suc fuel) m l key it =
     do { (it, node) \<leftarrow> listNext m it;
          if node = None then Some None
          else do {
            n \<leftarrow> deref m node;
            if (case l_match l of Some f \<Rightarrow> f (n_value n) key | None \<Rightarrow> key = n_value n)
            then Some node
            else listSearchKey_loop fuel m l key it } }"

definition listSearchKey :: "'v mem \<Rightarrow> 'v alist \<Rightarrow> 'v \<Rightarrow> ptr option" where
  "listSearchKey m l key = listSearchKey_loop (m_fresh m + 1) m l key (listRewind l)"

fun listDup_loop :: "nat \<Rightarrow> 'v mem \<Rightarrow> 'v alist \<Rightarrow> listIter \<Rightarrow> ('v mem \<times> 'v alist option) option" where
  "listDup_loop 0 m copy it = None"
| "listDup_loop (Suc fuel) m copy it =
     do { (it, node) \<leftarrow> listNext m it;
          if node = None then Some (m, Some copy)
          else do {
            n \<leftarrow> deref m node;
            case (case l_dup copy of Some dup \<Rightarrow> dup (n_value n) | None \<Rightarrow> Some (n_value n)) of
              None \<Rightarrow> do { m \<leftarrow> listRelease m copy; Some (m, None) }
            | Some v \<Rightarrow> do {
                (m, copy, ok) \<leftarrow> listAddNodeToTail m copy v;
                if ok then listDup_loop fuel m copy it
                else do { m \<leftarrow> listRelease m copy; Some (m, None) } } } }"

text \<open>The copy, or \<open>None\<close> for \<open>NULL\<close>; the allocation of the list header succeeds.\<close>

definition listDup :: "'v mem \<Rightarrow> 'v alist \<Rightarrow> ('v mem \<times> 'v alist option) option" where
  "listDup m orig =
     listDup_loop (m_fresh m + 1) m
       (listCreate\<lparr>l_dup := l_dup orig, l_free := l_free orig, l_match := l_match orig\<rparr>) (listRewind orig)"

fun walk :: "('v listNode \<Rightarrow> ptr) \<Rightarrow> 'v mem \<Rightarrow> nat \<Rightarrow> ptr \<Rightarrow> ptr option" where
  "walk step m 0 n = Some n"
| "walk step m (Suc i) n =
     (if n = None then Some None else do { x \<leftarrow> deref m n; walk step m i (step x) })"

text \<open>\<open>-index\<close> overflows for \<open>LONG_MIN\<close>.\<close>

definition listIndex :: "'v mem \<Rightarrow> 'v alist \<Rightarrow> int \<Rightarrow> ptr option" where
  "listIndex m l index =
     (if index < 0
      then do { guard (index > - (2 ^ 63)); walk n_prev m (nat (- index - 1)) (l_tail l) }
      else walk n_next m (nat index) (l_head l))"

section \<open>Rotating and joining\<close>

definition listRotate :: "'v mem \<Rightarrow> 'v alist \<Rightarrow> ('v mem \<times> 'v alist) option" where
  "listRotate m l =
     (let t = l_tail l
      in if l_len l \<le> 1 then Some (m, l)
         else do {
           n \<leftarrow> deref m t;
           let l = l\<lparr>l_tail := n_prev n\<rparr>;
           m \<leftarrow> set_next (l_tail l) None m;
           m \<leftarrow> set_prev (l_head l) t m;
           m \<leftarrow> set_prev t None m;
           m \<leftarrow> set_next t (l_head l) m;
           Some (m, l\<lparr>l_head := t\<rparr>) })"

definition listJoin :: "'v mem \<Rightarrow> 'v alist \<Rightarrow> 'v alist \<Rightarrow> ('v mem \<times> 'v alist \<times> 'v alist) option" where
  "listJoin m l l2 =
     do { m \<leftarrow> (if l_head l2 \<noteq> None then set_prev (l_head l2) (l_tail l) m else Some m);
          (m, l) \<leftarrow> (if l_tail l \<noteq> None
                     then do { m \<leftarrow> set_next (l_tail l) (l_head l2) m; Some (m, l) }
                     else Some (m, l\<lparr>l_head := l_head l2\<rparr>));
          Some (m, l\<lparr>l_tail := l_tail l2, l_len := l_len l + l_len l2\<rparr>,
                l2\<lparr>l_head := None, l_tail := None, l_len := 0\<rparr>) }"

end
