(* ===== verification/ListRep.thy ===== *)
theory ListRep
  imports Adlist
begin

text \<open>
  Lists of nodes in the heap: the representation predicate, and every list operation against
  the sequence of (address, value) pairs it changes. The interface that the thread pool, the
  connection pool, the memory pool and the logger use is the queue locale at the end.
\<close>

section \<open>Representation\<close>

fun first :: "(nat \<times> 'v) list \<Rightarrow> ptr \<Rightarrow> ptr" where
  "first [] q = q"
| "first ((a, v) # xs) q = Some a"

definition lastp :: "(nat \<times> 'v) list \<Rightarrow> ptr \<Rightarrow> ptr" where
  "lastp xs p = (if xs = [] then p else Some (fst (last xs)))"

lemma lastp_simps [simp]:
  "lastp [] p = p" "lastp (xs @ [(a, v)]) p = Some a" "lastp [(a, v)] p = Some a"
  by (simp_all add: lastp_def)

lemma lastp_Cons: "lastp ((a, v) # xs) p = lastp xs (Some a)"
  by (simp add: lastp_def)

lemma lastp_append: "lastp (xs @ ys) p = lastp ys (lastp xs p)"
  by (simp add: lastp_def)

lemma first_append: "first (xs @ ys) q = first xs (first ys q)"
  by (cases xs) auto

lemma first_None: "first xs None = None \<longleftrightarrow> xs = []"
  by (cases xs) auto

lemma lastp_None: "lastp xs None = None \<longleftrightarrow> xs = []"
  by (simp add: lastp_def)

fun dseg :: "(nat \<Rightarrow> 'v listNode option) \<Rightarrow> ptr \<Rightarrow> (nat \<times> 'v) list \<Rightarrow> ptr \<Rightarrow> bool" where
  "dseg h p [] q \<longleftrightarrow> True"
| "dseg h p ((a, v) # xs) q \<longleftrightarrow>
     h a = Some \<lparr>n_prev = p, n_next = first xs q, n_value = v\<rparr> \<and> dseg h (Some a) xs q"

definition addrs :: "(nat \<times> 'v) list \<Rightarrow> nat set" where
  "addrs xs = fst ` set xs"

lemma addrs_simps [simp]:
  "addrs [] = {}" "addrs ((a, v) # xs) = insert a (addrs xs)" "addrs (xs @ ys) = addrs xs \<union> addrs ys"
  by (simp_all add: addrs_def image_Un)

lemma fst_image_addrs [simp]: "fst ` set xs = addrs xs"
  by (simp add: addrs_def)

lemma finite_addrs [simp]: "finite (addrs xs)"
  by (simp add: addrs_def del: fst_image_addrs)

lemma dseg_append: "dseg h p (xs @ ys) q \<longleftrightarrow> dseg h p xs (first ys q) \<and> dseg h (lastp xs p) ys q"
  by (induction h p xs q rule: dseg.induct) (auto simp: lastp_Cons first_append)

lemma dseg_frame [simp]: "a \<notin> addrs xs \<Longrightarrow> dseg (h(a := n)) p xs q = dseg h p xs q"
  by (induction h p xs q rule: dseg.induct) auto

text \<open>Changing the outgoing pointers of a segment at its ends.\<close>

lemma dseg_set_prev:
  "dseg h p ((a, v) # xs) q \<Longrightarrow> a \<notin> addrs xs \<Longrightarrow>
   \<exists>n. h a = Some n \<and> n_value n = v \<and> dseg (h(a \<mapsto> n\<lparr>n_prev := p'\<rparr>)) p' ((a, v) # xs) q"
  by auto

lemma dseg_set_next:
  "dseg h p (xs @ [(a, v)]) q \<Longrightarrow> a \<notin> addrs xs \<Longrightarrow>
   \<exists>n. h a = Some n \<and> n_value n = v \<and> dseg (h(a \<mapsto> n\<lparr>n_next := q'\<rparr>)) p (xs @ [(a, v)]) q'"
  by (auto simp: dseg_append)

definition repr :: "'v mem \<Rightarrow> 'v alist \<Rightarrow> (nat \<times> 'v) list \<Rightarrow> bool" where
  "repr m l xs \<longleftrightarrow> dseg (nodes m) None xs None \<and> distinct (map fst xs)
     \<and> l_head l = first xs None \<and> l_tail l = lastp xs None \<and> l_len l = length xs
     \<and> (\<forall>a \<in> addrs xs. a < m_fresh m)"

text \<open>The operation touches only the nodes of the list and fresh ones.\<close>

definition heap_frame :: "nat set \<Rightarrow> 'v mem \<Rightarrow> 'v mem \<Rightarrow> bool" where
  "heap_frame A m m' \<longleftrightarrow> m_fresh m \<le> m_fresh m'
     \<and> (\<forall>a. a \<notin> A \<and> a < m_fresh m \<longrightarrow> nodes m' a = nodes m a)"

lemma dseg_cong: "(\<And>a. a \<in> addrs xs \<Longrightarrow> h a = h' a) \<Longrightarrow> dseg h p xs q = dseg h' p xs q"
  by (induction h p xs q rule: dseg.induct) auto

lemma repr_frame:
  assumes "repr m l xs" "heap_frame A m m'" "addrs xs \<inter> A = {}"
  shows "repr m' l xs"
proof -
  have "nodes m' a = nodes m a" if "a \<in> addrs xs" for a
    using assms that by (auto simp: repr_def heap_frame_def)
  then have "dseg (nodes m') None xs None = dseg (nodes m) None xs None"
    by (intro dseg_cong) simp
  then show ?thesis using assms by (auto simp: repr_def heap_frame_def)
qed

lemma repr_create: "repr m (listCreate\<lparr>l_dup := d, l_free := f, l_match := g\<rparr>) []" "repr m listCreate []"
  by (simp_all add: repr_def listCreate_def)

lemma addrs_distinct: "distinct (map fst ((a, v) # xs)) \<longleftrightarrow> a \<notin> addrs xs \<and> distinct (map fst xs)"
  by simp

lemma addrs_distinct_append:
  "distinct (map fst (xs @ ys)) \<longleftrightarrow>
    distinct (map fst xs) \<and> distinct (map fst ys) \<and> addrs xs \<inter> addrs ys = {}"
  by simp

lemmas repr_defs = repr_def dseg_append addrs_distinct addrs_distinct_append lastp_append first_append
  lastp_Cons

section \<open>Adding\<close>

lemma listAddNodeToHead_ok:
  assumes r: "repr m l xs" and left: "m_left m > 0"
  shows "\<exists>m' l'. listAddNodeToHead m l v = Some (m', l', True) \<and> repr m' l' ((m_fresh m, v) # xs)
    \<and> heap_frame (addrs xs) m m' \<and> m_fresh m' = m_fresh m + 1 \<and> m_left m' = m_left m - 1
    \<and> l_free l' = l_free l \<and> m_released m' = m_released m"
proof (cases xs)
  case Nil
  then show ?thesis using r left
    by (auto simp: listAddNodeToHead_def malloc_node_def repr_def heap_frame_def)
next
  case (Cons x ys)
  obtain a w where x: "x = (a, w)" by (cases x)
  have "a < m_fresh m" "m_fresh m \<notin> addrs ys" using r Cons x by (auto simp: repr_def)
  then show ?thesis using r left Cons x
    by (auto simp: listAddNodeToHead_def malloc_node_def repr_def set_prev_def heap_frame_def
        addrs_distinct lastp_Cons simp del: list.map)
qed

lemma listAddNodeToTail_ok:
  assumes r: "repr m l xs" and left: "m_left m > 0"
  shows "\<exists>m' l'. listAddNodeToTail m l v = Some (m', l', True) \<and> repr m' l' (xs @ [(m_fresh m, v)])
    \<and> heap_frame (addrs xs) m m' \<and> m_fresh m' = m_fresh m + 1 \<and> m_left m' = m_left m - 1
    \<and> l_free l' = l_free l \<and> l_dup l' = l_dup l \<and> l_match l' = l_match l
    \<and> m_released m' = m_released m"
proof (cases xs rule: rev_cases)
  case Nil
  then show ?thesis using r left
    by (auto simp: listAddNodeToTail_def malloc_node_def repr_def heap_frame_def)
next
  case (snoc ys x)
  obtain a w where x: "x = (a, w)" by (cases x)
  have "a < m_fresh m" "m_fresh m \<notin> addrs ys" "a \<notin> addrs ys"
    using r snoc x by (auto simp: repr_defs)
  then show ?thesis using r left snoc x
    by (auto simp: listAddNodeToTail_def malloc_node_def repr_defs set_next_def heap_frame_def)
qed

section \<open>Removing\<close>

lemma listDelNode_ok:
  assumes r: "repr m l (us @ (a, v) # ws)"
  shows "\<exists>m' l'. listDelNode m l (Some a) = Some (m', l') \<and> repr m' l' (us @ ws)
    \<and> heap_frame (addrs (us @ (a, v) # ws)) m m' \<and> nodes m' a = None \<and> m_fresh m' = m_fresh m
    \<and> m_left m' = m_left m \<and> l_free l' = l_free l
    \<and> m_released m' = (if l_free l then v # m_released m else m_released m)"
proof -
  have na: "nodes m a = Some \<lparr>n_prev = lastp us None, n_next = first ws None, n_value = v\<rparr>"
    using r by (simp add: repr_defs)
  have d: "a \<notin> addrs us" "a \<notin> addrs ws" "addrs us \<inter> addrs ws = {}"
    using r by (auto simp: repr_defs)
  show ?thesis
  proof (cases us rule: rev_cases)
    case Nil
    show ?thesis
    proof (cases ws)
      case (Cons x ws')
      then show ?thesis using r na d \<open>us = []\<close>
        by (cases x) (auto simp: listDelNode_def deref_def set_next_def set_prev_def free_node_def
            call_free_def repr_defs heap_frame_def)
    qed (use r na d \<open>us = []\<close> in \<open>auto simp: listDelNode_def deref_def set_next_def set_prev_def
        free_node_def call_free_def repr_defs heap_frame_def\<close>)
  next
    case (snoc us' y)
    show ?thesis
    proof (cases ws)
      case (Cons x ws')
      then show ?thesis using r na d snoc
        by (cases x; cases y) (auto simp: listDelNode_def deref_def set_next_def set_prev_def free_node_def
            call_free_def repr_defs heap_frame_def)
    next
      case Nil
      then show ?thesis using r na d snoc
        by (cases y) (auto simp: listDelNode_def deref_def set_next_def set_prev_def free_node_def
            call_free_def repr_defs heap_frame_def)
    qed
  qed
qed

lemma repr_nth_value:
  "repr m l (us @ (a, v) # ws) \<Longrightarrow>
   nodes m a = Some \<lparr>n_prev = lastp us None, n_next = first ws None, n_value = v\<rparr>"
  by (simp add: repr_defs)

lemma listPopNodeFromHead_ok:
  assumes r: "repr m l xs"
  shows "\<exists>m' l'. listPopNodeFromHead m l = Some (m', l', case xs of [] \<Rightarrow> None | (a, v) # _ \<Rightarrow> Some v)
    \<and> repr m' l' (tl xs) \<and> heap_frame (addrs xs) m m' \<and> m_fresh m' = m_fresh m
    \<and> m_left m' = m_left m \<and> l_free l' = l_free l \<and> (\<not> l_free l \<longrightarrow> m_released m' = m_released m)"
proof (cases xs)
  case Nil
  then show ?thesis using r by (auto simp: listPopNodeFromHead_def repr_def heap_frame_def)
next
  case (Cons x ys)
  obtain a v where x: "x = (a, v)" by (cases x)
  have r': "repr m l ([] @ (a, v) # ys)" using r Cons x by simp
  have h: "l_head l = Some a" using r Cons x by (simp add: repr_def)
  show ?thesis using listDelNode_ok [OF r'] repr_nth_value [OF r'] h Cons x
    by (auto simp: listPopNodeFromHead_def deref_def)
qed

lemma listPopNodeFromTail_ok:
  assumes r: "repr m l xs"
  shows "\<exists>m' l'. listPopNodeFromTail m l = Some (m', l', if xs = [] then None else Some (snd (last xs)))
    \<and> repr m' l' (butlast xs) \<and> heap_frame (addrs xs) m m' \<and> m_fresh m' = m_fresh m
    \<and> m_left m' = m_left m \<and> l_free l' = l_free l \<and> (\<not> l_free l \<longrightarrow> m_released m' = m_released m)"
proof (cases xs rule: rev_cases)
  case Nil
  then show ?thesis using r by (auto simp: listPopNodeFromTail_def repr_def heap_frame_def)
next
  case (snoc ys x)
  obtain a v where x: "x = (a, v)" by (cases x)
  have r': "repr m l (ys @ (a, v) # [])" using r snoc x by simp
  have h: "l_tail l = Some a" using r snoc x by (simp add: repr_def)
  show ?thesis using listDelNode_ok [OF r'] repr_nth_value [OF r'] h snoc x
    by (auto simp: listPopNodeFromTail_def deref_def)
qed

section \<open>Inserting, rotating, joining\<close>

lemma listInsertNode_after_ok:
  assumes r: "repr m l (us @ (a, v) # ws)" and left: "m_left m > 0"
  shows "\<exists>m' l'. listInsertNode m l (Some a) w True = Some (m', l', True)
    \<and> repr m' l' (us @ (a, v) # (m_fresh m, w) # ws)"
proof -
  have na: "nodes m a = Some \<lparr>n_prev = lastp us None, n_next = first ws None, n_value = v\<rparr>"
    using r by (simp add: repr_defs)
  have d: "a \<notin> addrs us" "a \<notin> addrs ws" "addrs us \<inter> addrs ws = {}" "a < m_fresh m"
    "m_fresh m \<notin> addrs us" "m_fresh m \<notin> addrs ws"
    using r by (auto simp: repr_defs)
  show ?thesis
  proof (cases ws)
    case Nil
    then show ?thesis using r na d left
      by (auto simp: listInsertNode_def deref_def malloc_node_def set_next_def set_prev_def repr_defs)
  next
    case (Cons x ws')
    obtain b y where x: "x = (b, y)" by (cases x)
    have "l_tail l \<noteq> Some a"
      using r d Cons x by (auto simp: repr_defs lastp_def) (metis fst_image_addrs image_eqI last_in_set)
    then show ?thesis using r na d left Cons x
      by (auto simp: listInsertNode_def deref_def malloc_node_def set_next_def set_prev_def repr_defs
          less_Suc_eq)
  qed
qed

lemma first_in: "xs \<noteq> [] \<Longrightarrow> \<exists>b \<in> addrs xs. first xs q = Some b"
  by (cases xs) auto

lemma listInsertNode_before_ok:
  assumes r: "repr m l (us @ (a, v) # ws)" and left: "m_left m > 0"
  shows "\<exists>m' l'. listInsertNode m l (Some a) w False = Some (m', l', True)
    \<and> repr m' l' (us @ (m_fresh m, w) # (a, v) # ws)"
proof -
  have na: "nodes m a = Some \<lparr>n_prev = lastp us None, n_next = first ws None, n_value = v\<rparr>"
    using r by (simp add: repr_defs)
  have d: "a \<notin> addrs us" "a \<notin> addrs ws" "addrs us \<inter> addrs ws = {}" "a < m_fresh m"
    "m_fresh m \<notin> addrs us" "m_fresh m \<notin> addrs ws"
    using r by (auto simp: repr_defs)
  show ?thesis
  proof (cases us rule: rev_cases)
    case Nil
    then show ?thesis using r na d left
      by (auto simp: listInsertNode_def deref_def malloc_node_def set_next_def set_prev_def repr_defs)
  next
    case (snoc us' x)
    obtain b y where x: "x = (b, y)" by (cases x)
    have "l_head l = first us (Some a)" using r by (simp add: repr_def first_append)
    then have "l_head l \<noteq> Some a" using d(1) first_in [of us "Some a"] snoc by force
    then show ?thesis using r na d left snoc x
      by (auto simp: listInsertNode_def deref_def malloc_node_def set_next_def set_prev_def repr_defs
          less_Suc_eq)
  qed
qed

lemma listRotate_snoc:
  assumes r: "repr m l (ys @ [(a, v)])"
  shows "\<exists>m' l'. listRotate m l = Some (m', l') \<and> repr m' l' ((a, v) # ys)"
proof (cases ys)
  case Nil
  then show ?thesis using r by (simp add: listRotate_def repr_def)
next
  case (Cons y zs)
  obtain b w where y: "y = (b, w)" by (cases y)
  show ?thesis
  proof (cases zs rule: rev_cases)
    case Nil
    then show ?thesis using r Cons y
      by (auto simp: listRotate_def repr_defs deref_def set_next_def set_prev_def Let_def)
  next
    case (snoc zs' z)
    obtain c u where "z = (c, u)" by (cases z)
    then show ?thesis using r snoc Cons y
      by (auto simp: listRotate_def repr_defs deref_def set_next_def set_prev_def Let_def)
  qed
qed

lemma listRotate_ok:
  assumes r: "repr m l xs"
  shows "\<exists>m' l'. listRotate m l = Some (m', l')
    \<and> repr m' l' (if xs = [] then [] else last xs # butlast xs)"
proof (cases xs rule: rev_cases)
  case Nil
  then show ?thesis using r by (simp add: listRotate_def repr_def)
next
  case (snoc ys x)
  then show ?thesis using listRotate_snoc [of m l ys "fst x" "snd x"] r by simp
qed

lemma listJoin_ok:
  assumes r: "repr m l xs" "repr m l2 ys" and d: "addrs xs \<inter> addrs ys = {}" and ne: "ys \<noteq> []"
  shows "\<exists>m' l' l2'. listJoin m l l2 = Some (m', l', l2') \<and> repr m' l' (xs @ ys) \<and> repr m' l2' []"
proof -
  obtain b w zs where y: "ys = (b, w) # zs" using ne by (cases ys) auto
  show ?thesis
  proof (cases xs rule: rev_cases)
    case Nil
    then show ?thesis using r d y by (auto simp: listJoin_def repr_defs set_next_def set_prev_def)
  next
    case (snoc us x)
    obtain a v where "x = (a, v)" by (cases x)
    then show ?thesis using r d y snoc
      by (auto simp: listJoin_def repr_defs set_next_def set_prev_def)
  qed
qed

text \<open>Joining an empty list drops the tail pointer of a list that is not empty.\<close>

lemma listJoin_empty:
  assumes r: "repr m l xs" "repr m l2 []" and ne: "xs \<noteq> []"
  shows "\<exists>m' l' l2'. listJoin m l l2 = Some (m', l', l2') \<and> l_tail l' = None \<and> l_len l' = length xs
    \<and> m_left m' = m_left m"
proof -
  obtain us a v where "xs = us @ [(a, v)]" using ne by (cases xs rule: rev_cases) auto
  then show ?thesis using r by (auto simp: listJoin_def repr_defs set_next_def)
qed

section \<open>Indexing and searching\<close>

lemma walk_None [simp]: "walk step m i None = Some None"
  by (cases i) auto

lemma walk_next:
  "dseg (nodes m) p xs None \<Longrightarrow>
   walk n_next m i (first xs None) = Some (if i < length xs then Some (fst (xs ! i)) else None)"
proof (induction xs arbitrary: p i)
  case Nil
  then show ?case by simp
next
  case (Cons x xs)
  obtain a v where x: "x = (a, v)" by (cases x)
  show ?case
  proof (cases i)
    case (Suc j)
    then show ?thesis using Cons x by (auto simp: deref_def)
  qed (use x in simp)
qed

lemma walk_prev:
  "dseg (nodes m) None xs q \<Longrightarrow>
   walk n_prev m i (lastp xs None) = Some (if i < length xs then Some (fst (rev xs ! i)) else None)"
proof (induction xs arbitrary: q i rule: rev_induct)
  case Nil
  then show ?case by simp
next
  case (snoc x xs)
  obtain a v where x: "x = (a, v)" by (cases x)
  show ?case
  proof (cases i)
    case (Suc j)
    then show ?thesis using snoc x by (auto simp: deref_def dseg_append)
  qed (use x in simp)
qed

lemma listIndex_ok:
  assumes r: "repr m l xs" and b: "- (2 ^ 63) < i"
  shows "listIndex m l i = Some
    (if 0 \<le> i \<and> nat i < length xs then Some (fst (xs ! nat i))
     else if i < 0 \<and> nat (- i) \<le> length xs then Some (fst (xs ! (length xs - nat (- i))))
     else None)"
proof (cases "i < 0")
  case False
  then show ?thesis using r walk_next [of m None xs "nat i"] by (auto simp: listIndex_def repr_def)
next
  case True
  define k where "k = nat (- i - 1)"
  have k: "nat (- i) = Suc k" using True by (simp add: k_def)
  have "rev xs ! k = xs ! (length xs - Suc k)" if "k < length xs" using that by (rule rev_nth)
  then show ?thesis using True r b walk_prev [of m xs None k]
    by (auto simp: listIndex_def repr_def k k_def [symmetric])
qed

lemma repr_length:
  assumes "repr m l xs"
  shows "length xs \<le> m_fresh m"
proof -
  have "addrs xs \<subseteq> {..<m_fresh m}" using assms by (auto simp: repr_def)
  then have "card (addrs xs) \<le> m_fresh m" using card_mono [of "{..<m_fresh m}"] by fastforce
  moreover have "card (addrs xs) = length xs"
    using assms distinct_card [of "map fst xs"] by (simp add: repr_def)
  ultimately show ?thesis by simp
qed

definition matches :: "'v alist \<Rightarrow> 'v \<Rightarrow> nat \<times> 'v \<Rightarrow> bool" where
  "matches l key x = (case l_match l of Some f \<Rightarrow> f (snd x) key | None \<Rightarrow> key = snd x)"

lemma listSearchKey_loop_ok:
  "dseg (nodes m) p xs None \<Longrightarrow> length xs < fuel \<Longrightarrow>
   listSearchKey_loop fuel m l key \<lparr>it_next = first xs None, it_direction = AL_START_HEAD\<rparr>
     = Some (map_option fst (find (matches l key) xs))"
proof (induction xs arbitrary: p fuel)
  case Nil
  then show ?case by (cases fuel) (auto simp: listNext_def)
next
  case (Cons x xs)
  obtain a v where x: "x = (a, v)" by (cases x)
  obtain f where f: "fuel = Suc f" using Cons.prems by (cases fuel) auto
  show ?case using Cons x f
    by (cases "l_match l") (auto simp: listNext_def deref_def matches_def Let_def)
qed

lemma listSearchKey_ok:
  "repr m l xs \<Longrightarrow> listSearchKey m l key = Some (map_option fst (find (matches l key) xs))"
  using repr_length [of m l xs] listSearchKey_loop_ok [of m None xs "m_fresh m + 1" l key]
  by (simp add: listSearchKey_def listRewind_def repr_def)

section \<open>Emptying and copying\<close>

lemma listEmpty_loop_ok:
  "dseg (nodes m) p xs None \<Longrightarrow> distinct (map fst xs) \<Longrightarrow>
   \<exists>m'. listEmpty_loop (length xs) l (first xs None) m = Some m'
     \<and> (\<forall>a. nodes m' a = (if a \<in> addrs xs then None else nodes m a))
     \<and> m_fresh m' = m_fresh m \<and> m_left m' = m_left m
     \<and> m_released m' = (if l_free l then rev (map snd xs) @ m_released m else m_released m)"
proof (induction xs arbitrary: p m)
  case Nil
  then show ?case by simp
next
  case (Cons x xs)
  obtain a v where x: "x = (a, v)" by (cases x)
  define m1 where "m1 = (call_free l v m)\<lparr>nodes := (nodes m)(a := None)\<rparr>"
  have nodes1: "nodes m1 = (nodes m)(a := None)" by (simp add: m1_def)
  have d: "a \<notin> addrs xs" "distinct (map fst xs)" using Cons.prems x by auto
  have "dseg (nodes m1) (Some a) xs None" using Cons.prems(1) x d by (simp add: nodes1)
  from Cons.IH [OF this d(2)] obtain m' where
    m': "listEmpty_loop (length xs) l (first xs None) m1 = Some m'"
    "\<forall>b. nodes m' b = (if b \<in> addrs xs then None else nodes m1 b)"
    "m_fresh m' = m_fresh m1" "m_left m' = m_left m1"
    "m_released m' = (if l_free l then rev (map snd xs) @ m_released m1 else m_released m1)" by blast
  have "listEmpty_loop (length (x # xs)) l (first (x # xs) None) m = Some m'"
    using m'(1) Cons.prems(1) x
    by (cases "l_free l") (simp_all add: deref_def free_node_def call_free_def m1_def)
  then show ?case using m' x d
    by (intro exI [of _ m']) (auto simp: nodes1, auto simp: m1_def call_free_def)
qed

lemma listEmpty_ok:
  assumes r: "repr m l xs"
  shows "\<exists>m' l'. listEmpty m l = Some (m', l') \<and> repr m' l' []
    \<and> (\<forall>a. nodes m' a = (if a \<in> addrs xs then None else nodes m a))
    \<and> m_fresh m' = m_fresh m \<and> m_left m' = m_left m
    \<and> m_released m' = (if l_free l then rev (map snd xs) @ m_released m else m_released m)"
  using r listEmpty_loop_ok [of m None xs l] by (auto simp: repr_def listEmpty_def)

lemma heap_frame_trans:
  "heap_frame A m m1 \<Longrightarrow> heap_frame B m1 m2 \<Longrightarrow> heap_frame (A \<union> B) m m2"
  by (auto simp: heap_frame_def)

lemma listDup_loop_ok:
  "dseg (nodes m) p xs None \<Longrightarrow> repr m c zs \<Longrightarrow> addrs xs \<inter> addrs zs = {} \<Longrightarrow>
   \<forall>a \<in> addrs xs. a < m_fresh m \<Longrightarrow> length xs < fuel \<Longrightarrow> length xs \<le> m_left m \<Longrightarrow> l_dup c = None \<Longrightarrow>
   \<exists>m' c' zs'. listDup_loop fuel m c \<lparr>it_next = first xs None, it_direction = AL_START_HEAD\<rparr>
       = Some (m', Some c') \<and> repr m' c' zs' \<and> map snd zs' = map snd zs @ map snd xs
     \<and> l_dup c' = None \<and> l_free c' = l_free c \<and> l_match c' = l_match c
     \<and> (\<forall>a. a \<notin> addrs zs \<and> a < m_fresh m \<longrightarrow> nodes m' a = nodes m a) \<and> m_fresh m \<le> m_fresh m'"
proof (induction xs arbitrary: p fuel m c zs)
  case Nil
  then obtain f where "fuel = Suc f" by (cases fuel) auto
  then show ?case using Nil by (intro exI [of _ m] exI [of _ c] exI [of _ zs]) (auto simp: listNext_def)
next
  case (Cons x xs)
  obtain a v where x: "x = (a, v)" by (cases x)
  obtain f where f: "fuel = Suc f" using Cons.prems by (cases fuel) auto
  have na: "nodes m a = Some \<lparr>n_prev = p, n_next = first xs None, n_value = v\<rparr>"
    "dseg (nodes m) (Some a) xs None" using Cons.prems(1) x by auto
  obtain m1 c1 where m1: "listAddNodeToTail m c v = Some (m1, c1, True)"
    "repr m1 c1 (zs @ [(m_fresh m, v)])" "heap_frame (addrs zs) m m1" "m_fresh m1 = m_fresh m + 1"
    "m_left m1 = m_left m - 1" "l_free c1 = l_free c" "l_dup c1 = l_dup c" "l_match c1 = l_match c"
    using listAddNodeToTail_ok [OF Cons.prems(2), of v] Cons.prems(6) by auto
  have keep: "nodes m1 b = nodes m b" if "b \<notin> addrs zs" "b < m_fresh m" for b
    using m1(3) that by (simp add: heap_frame_def)
  have "dseg (nodes m1) (Some a) xs None = dseg (nodes m) (Some a) xs None"
    using keep Cons.prems(3,4) x by (intro dseg_cong) auto
  then have "dseg (nodes m1) (Some a) xs None" using na(2) by simp
  moreover have "addrs xs \<inter> addrs (zs @ [(m_fresh m, v)]) = {}" "\<forall>a \<in> addrs xs. a < m_fresh m1"
    using Cons.prems(3,4) x m1(4) by auto
  moreover have "length xs < f" "length xs \<le> m_left m1" "l_dup c1 = None"
    using Cons.prems(5-7) f m1 by auto
  ultimately obtain m' c' zs' where IH:
    "listDup_loop f m1 c1 \<lparr>it_next = first xs None, it_direction = AL_START_HEAD\<rparr> = Some (m', Some c')"
    "repr m' c' zs'" "map snd zs' = map snd (zs @ [(m_fresh m, v)]) @ map snd xs"
    "l_dup c' = None" "l_free c' = l_free c1" "l_match c' = l_match c1"
    "\<forall>a. a \<notin> addrs (zs @ [(m_fresh m, v)]) \<and> a < m_fresh m1 \<longrightarrow> nodes m' a = nodes m1 a"
    "m_fresh m1 \<le> m_fresh m'"
    using Cons.IH [OF _ m1(2)] by metis
  have "listDup_loop fuel m c \<lparr>it_next = first (x # xs) None, it_direction = AL_START_HEAD\<rparr>
      = Some (m', Some c')"
    using IH(1) m1(1) na Cons.prems(7) by (simp add: f x listNext_def deref_def Let_def)
  moreover have "\<forall>a. a \<notin> addrs zs \<and> a < m_fresh m \<longrightarrow> nodes m' a = nodes m a"
    using IH(7) keep m1(4) by auto
  ultimately show ?case using IH m1 x by (intro exI [of _ m'] exI [of _ c'] exI [of _ zs']) auto
qed

lemma listDup_ok:
  assumes r: "repr m l xs" and left: "length xs \<le> m_left m" and dup: "l_dup l = None"
  shows "\<exists>m' c zs. listDup m l = Some (m', Some c) \<and> repr m' c zs \<and> map snd zs = map snd xs
    \<and> repr m' l xs \<and> l_free c = l_free l \<and> l_match c = l_match l"
proof -
  define c0 where "c0 = listCreate\<lparr>l_dup := l_dup l, l_free := l_free l, l_match := l_match l\<rparr>"
  have c: "repr m c0 []" "l_dup c0 = None" "l_free c0 = l_free l" "l_match c0 = l_match l"
    by (simp_all add: c0_def dup repr_create(1))
  have seg: "dseg (nodes m) None xs None" "\<forall>a \<in> addrs xs. a < m_fresh m"
    "\<lparr>it_next = first xs None, it_direction = AL_START_HEAD\<rparr> = listRewind l"
    using r by (simp_all add: repr_def listRewind_def)
  have len: "length xs < m_fresh m + 1" using repr_length [OF r] by simp
  have "addrs xs \<inter> addrs ([] :: (nat \<times> 'a) list) = {}" by simp
  from listDup_loop_ok [OF seg(1) c(1) this seg(2) len left c(2)]
  obtain m' c zs where d: "listDup_loop (m_fresh m + 1) m c0 (listRewind l) = Some (m', Some c)"
    "repr m' c zs" "map snd zs = map snd xs" "l_free c = l_free c0" "l_match c = l_match c0"
    "\<forall>a. a < m_fresh m \<longrightarrow> nodes m' a = nodes m a" "m_fresh m \<le> m_fresh m'"
    unfolding seg(3) addrs_simps list.map append.simps empty_iff not_False_eq_True simp_thms
    by blast
  have "heap_frame {} m m'" unfolding heap_frame_def using d(6,7) by blast
  then have "repr m' l xs" by (rule repr_frame [OF r]) simp
  moreover have "listDup m l = Some (m', Some c)" using d(1) by (simp only: listDup_def c0_def)
  ultimately show ?thesis using d(2-5) c(3,4) by metis
qed

section \<open>The list as a queue\<close>

text \<open>
  What the clients of the list use: \<open>listAddNodeToTail\<close> and \<open>listPopNodeFromHead\<close>, in any order. An add
  says whether its node could be allocated; \<open>room\<close> is the number of allocations that will succeed.
\<close>

datatype 'a queue_op = Add 'a | Pop

datatype 'a queue_result = Added bool | Popped "'a option"

text \<open>A queue of values: \<open>Pop\<close> gives the oldest one, an \<open>Add\<close> without room changes nothing.\<close>

fun queue_spec :: "nat \<Rightarrow> 'a list \<Rightarrow> 'a queue_op list \<Rightarrow> 'a list \<times> 'a queue_result list" where
  "queue_spec n q [] = (q, [])"
| "queue_spec n q (Add x # ops) =
     (let (q', rs) = queue_spec (n - 1) (if 0 < n then q @ [x] else q) ops in (q', Added (0 < n) # rs))"
| "queue_spec n [] (Pop # ops) = (let (q', rs) = queue_spec n [] ops in (q', Popped None # rs))"
| "queue_spec n (x # q) (Pop # ops) = (let (q', rs) = queue_spec n q ops in (q', Popped (Some x) # rs))"

fun queue_run ::
  "('s \<Rightarrow> 'a \<Rightarrow> ('s \<times> bool) option) \<Rightarrow> ('s \<Rightarrow> ('s \<times> 'a option) option) \<Rightarrow> 's \<Rightarrow> 'a queue_op list
     \<Rightarrow> ('s \<times> 'a queue_result list) option"
where
  "queue_run enq deq s [] = Some (s, [])"
| "queue_run enq deq s (Add x # ops) =
     do { (s, ok) \<leftarrow> enq s x; (s, rs) \<leftarrow> queue_run enq deq s ops; Some (s, Added ok # rs) }"
| "queue_run enq deq s (Pop # ops) =
     do { (s, r) \<leftarrow> deq s; (s, rs) \<leftarrow> queue_run enq deq s ops; Some (s, Popped r # rs) }"

locale fifo =
  fixes inv :: "'s \<Rightarrow> bool"
    and items :: "'s \<Rightarrow> 'a list"
    and room :: "'s \<Rightarrow> nat"
    and enq :: "'s \<Rightarrow> 'a \<Rightarrow> ('s \<times> bool) option"
    and deq :: "'s \<Rightarrow> ('s \<times> 'a option) option"
  assumes enq_law: "inv s \<Longrightarrow> \<exists>s'. enq s x = Some (s', 0 < room s) \<and> inv s'
        \<and> items s' = (if 0 < room s then items s @ [x] else items s) \<and> room s' = room s - 1"
    and deq_law: "inv s \<Longrightarrow> \<exists>s'. inv s' \<and> items s' = tl (items s) \<and> room s' = room s
        \<and> deq s = Some (s', case items s of [] \<Rightarrow> None | x # _ \<Rightarrow> Some x)"

context fifo begin

text \<open>Whatever is done with it, the queue does what the queue of values does.\<close>

lemma run_spec:
  "inv s \<Longrightarrow> \<exists>s'. queue_run enq deq s ops = Some (s', snd (queue_spec (room s) (items s) ops)) \<and> inv s'
     \<and> items s' = fst (queue_spec (room s) (items s) ops)"
proof (induction ops arbitrary: s)
  case Nil
  then show ?case by simp
next
  case (Cons c ops)
  show ?case
  proof (cases c)
    case (Add x)
    obtain s1 where s1: "enq s x = Some (s1, 0 < room s)" "inv s1"
      "items s1 = (if 0 < room s then items s @ [x] else items s)" "room s1 = room s - 1"
      using enq_law [OF Cons.prems, of x] by blast
    from Cons.IH [OF s1(2)] show ?thesis unfolding s1(3,4) by (auto simp: Add s1(1) case_prod_beta Let_def)
  next
    case Pop
    obtain s1 where s1: "inv s1" "items s1 = tl (items s)" "room s1 = room s"
      "deq s = Some (s1, case items s of [] \<Rightarrow> None | x # _ \<Rightarrow> Some x)"
      using deq_law [OF Cons.prems] by blast
    from Cons.IH [OF s1(1)] show ?thesis unfolding s1(2,3)
      by (cases "items s") (auto simp: Pop s1(4) case_prod_beta Let_def)
  qed
qed

end

text \<open>The values reached from the head, as far as the length field says.\<close>

fun values_from :: "'v mem \<Rightarrow> nat \<Rightarrow> ptr \<Rightarrow> 'v list" where
  "values_from m 0 q = []"
| "values_from m (Suc n) q =
     (case deref m q of None \<Rightarrow> [] | Some x \<Rightarrow> n_value x # values_from m n (n_next x))"

definition list_items :: "'v mem \<times> 'v alist \<Rightarrow> 'v list" where
  "list_items s = values_from (fst s) (l_len (snd s)) (l_head (snd s))"

definition list_inv :: "'v mem \<times> 'v alist \<Rightarrow> bool" where
  "list_inv s \<longleftrightarrow> (\<exists>xs. repr (fst s) (snd s) xs)"

lemma values_from_ok:
  "dseg (nodes m) p xs None \<Longrightarrow> values_from m (length xs) (first xs None) = map snd xs"
  by (induction xs arbitrary: p) (auto simp: deref_def)

lemma list_items_repr: "repr m l xs \<Longrightarrow> list_items (m, l) = map snd xs"
  by (auto simp: list_items_def repr_def dest: values_from_ok)

definition enq_tail :: "'v mem \<times> 'v alist \<Rightarrow> 'v \<Rightarrow> (('v mem \<times> 'v alist) \<times> bool) option" where
  "enq_tail s v = do { (m, l, ok) \<leftarrow> listAddNodeToTail (fst s) (snd s) v; Some ((m, l), ok) }"

definition deq_head :: "'v mem \<times> 'v alist \<Rightarrow> (('v mem \<times> 'v alist) \<times> 'v option) option" where
  "deq_head s = do { (m, l, v) \<leftarrow> listPopNodeFromHead (fst s) (snd s); Some ((m, l), v) }"

interpretation list_fifo: fifo list_inv list_items "\<lambda>s. m_left (fst s)" enq_tail deq_head
proof unfold_locales
  fix s :: "'v mem \<times> 'v alist" and x
  assume inv: "list_inv s"
  then obtain xs where r: "repr (fst s) (snd s) xs" by (auto simp: list_inv_def)
  show "\<exists>s'. enq_tail s x = Some (s', 0 < m_left (fst s)) \<and> list_inv s'
      \<and> list_items s' = (if 0 < m_left (fst s) then list_items s @ [x] else list_items s)
      \<and> m_left (fst s') = m_left (fst s) - 1"
  proof (cases "0 < m_left (fst s)")
    case True
    then obtain m' l' where "listAddNodeToTail (fst s) (snd s) x = Some (m', l', True)"
      "repr m' l' (xs @ [(m_fresh (fst s), x)])" "m_left m' = m_left (fst s) - 1"
      using listAddNodeToTail_ok [OF r, of x] by blast
    then show ?thesis using True list_items_repr [OF r] list_items_repr [of m' l']
      by (auto simp: enq_tail_def list_inv_def)
  next
    case False
    then show ?thesis using inv by (auto simp: enq_tail_def listAddNodeToTail_def malloc_node_def)
  qed
next
  fix s :: "'v mem \<times> 'v alist"
  assume "list_inv s"
  then obtain xs where r: "repr (fst s) (snd s) xs" by (auto simp: list_inv_def)
  obtain m' l' where "listPopNodeFromHead (fst s) (snd s)
      = Some (m', l', case xs of [] \<Rightarrow> None | (a, v) # _ \<Rightarrow> Some v)" "repr m' l' (tl xs)" "m_left m' = m_left (fst s)"
    using listPopNodeFromHead_ok [OF r] by blast
  then show "\<exists>s'. list_inv s' \<and> list_items s' = tl (list_items s) \<and> m_left (fst s') = m_left (fst s)
      \<and> deq_head s = Some (s', case list_items s of [] \<Rightarrow> None | x # _ \<Rightarrow> Some x)"
    using list_items_repr [OF r] list_items_repr [of m' l']
    by (intro exI [of _ "(m', l')"])
      (auto simp: deq_head_def list_inv_def map_tl split: list.splits prod.splits)
qed

section \<open>Properties\<close>

definition empty_mem :: "nat \<Rightarrow> 'v mem" where
  "empty_mem left = \<lparr>nodes = (\<lambda>_. None), m_fresh = 0, m_left = left, m_released = []\<rparr>"

text \<open>What is added with room comes out once, in order, or is still there.\<close>

fun taken_values :: "'a queue_result list \<Rightarrow> 'a list" where
  "taken_values [] = []"
| "taken_values (Popped (Some x) # rs) = x # taken_values rs"
| "taken_values (r # rs) = taken_values rs"

fun added_values :: "'a queue_op list \<Rightarrow> 'a queue_result list \<Rightarrow> 'a list" where
  "added_values (Add x # ops) (Added True # rs) = x # added_values ops rs"
| "added_values (c # ops) (r # rs) = added_values ops rs"
| "added_values ops rs = []"

lemma queue_spec_order:
  "queue_spec n q ops = (q', rs) \<Longrightarrow> q @ added_values ops rs = taken_values rs @ q'"
  by (induction n q ops arbitrary: q' rs rule: queue_spec.induct) (fastforce simp: Let_def split: prod.splits if_splits)+

lemma new_list: "list_inv (empty_mem left, listCreate)" "list_items (empty_mem left, listCreate) = []"
  using list_items_repr [OF repr_create(2)] repr_create(2) by (auto simp: list_inv_def)

lemma list_run:
  obtains s where "queue_run enq_tail deq_head (empty_mem left, listCreate) ops = Some (s, snd (queue_spec left [] ops))"
    "list_inv s" "list_items s = fst (queue_spec left [] ops)"
proof -
  have "m_left (fst (empty_mem left :: 'a mem, listCreate)) = left" by (simp add: empty_mem_def)
  then show thesis using that list_fifo.run_spec [OF new_list(1), of left ops] unfolding new_list(2) by metis
qed

text \<open>
  C25: A list used through \<open>listAddNodeToTail\<close> and \<open>listPopNodeFromHead\<close>, as every queue of the
  program is, does what a first-in first-out queue does: any sequence of adds and pops on a new list, in
  any order, with pops of the empty list, adds after it, and adds whose node cannot be allocated, gives
  the results of the queue of values and leaves its values, with every pointer of the node structure in
  place. What was added came out once, in order, or is still there. No operation follows a null or freed
  pointer.
\<close>

theorem list_is_fifo:
  "\<exists>s rs. queue_run enq_tail deq_head (empty_mem left, listCreate) ops = Some (s, rs)
    \<and> queue_spec left [] ops = (list_items s, rs) \<and> list_inv s
    \<and> added_values ops rs = taken_values rs @ list_items s"
proof -
  obtain s where s: "queue_run enq_tail deq_head (empty_mem left, listCreate) ops = Some (s, snd (queue_spec left [] ops))"
    "list_inv s" "list_items s = fst (queue_spec left [] ops)" by (rule list_run)
  then have q: "queue_spec left [] ops = (list_items s, snd (queue_spec left [] ops))" by simp
  show ?thesis using s queue_spec_order [OF q] q by (intro exI [of _ s] exI [of _ "snd (queue_spec left [] ops)"]) simp
qed

text \<open>A list emptied by pops and used again, with room for two nodes.\<close>

lemma list_reused:
  "\<exists>s. queue_run enq_tail deq_head (empty_mem 2, listCreate) [Add 3, Pop, Pop, Add (4 :: nat), Add 5, Pop]
      = Some (s, [Added True, Popped (Some 3), Popped None, Added True, Added False, Popped (Some 4)]) \<and> list_items s = []"
proof -
  have "queue_spec 2 [] [Add 3, Pop, Pop, Add (4 :: nat), Add 5, Pop]
      = ([], [Added True, Popped (Some 3), Popped None, Added True, Added False, Popped (Some 4)])" by simp
  then show ?thesis using list_run [of 2 "[Add 3, Pop, Pop, Add (4 :: nat), Add 5, Pop]"] by (metis fst_conv snd_conv)
qed

text \<open>
  \<open>listDelNode\<close> takes exactly the node given out of the list, wherever it stands, frees it,
  keeps every pointer of the others consistent, and calls the \<open>free\<close> method only when one is set.
\<close>

theorem listDelNode_removes:
  assumes "repr m l (us @ (a, v) # ws)"
  shows "\<exists>m' l'. listDelNode m l (Some a) = Some (m', l') \<and> repr m' l' (us @ ws)
    \<and> nodes m' a = None
    \<and> m_released m' = (if l_free l then v # m_released m else m_released m)"
  using listDelNode_ok [OF assms] by blast

theorem listDelNode_removes_witness:
  "\<exists>m l m' l'. repr m l ([(0, 5)] @ (1, 6) # [(2, 7 :: nat)])
     \<and> listDelNode m l (Some 1) = Some (m', l') \<and> repr m' l' ([(0, 5)] @ [(2, 7)])"
proof -
  let ?m = "\<lparr>nodes = [0 \<mapsto> \<lparr>n_prev = None, n_next = Some 1, n_value = 5\<rparr>,
      1 \<mapsto> \<lparr>n_prev = Some 0, n_next = Some 2, n_value = 6\<rparr>,
      2 \<mapsto> \<lparr>n_prev = Some 1, n_next = None, n_value = 7 :: nat\<rparr>], m_fresh = 3, m_left = 0,
      m_released = []\<rparr>"
  let ?l = "listCreate\<lparr>l_head := Some 0, l_tail := Some 2, l_len := 3\<rparr>"
  have r: "repr ?m ?l ([(0, 5)] @ (1, 6) # [(2, 7)])" by (simp add: repr_def listCreate_def lastp_def)
  show ?thesis using r listDelNode_removes [OF r] by blast
qed

text \<open>
  \<open>listJoin\<close> appends the second list to the first and empties the second, when the second
  list is not empty.
\<close>

theorem listJoin_appends:
  assumes "repr m l xs" "repr m l2 ys" "addrs xs \<inter> addrs ys = {}" "ys \<noteq> []"
  shows "\<exists>m' l' l2'. listJoin m l l2 = Some (m', l', l2') \<and> repr m' l' (xs @ ys) \<and> repr m' l2' []"
  using listJoin_ok [OF assms] .

theorem listJoin_appends_witness:
  "\<exists>m l l2 m' l' l2'. listJoin m l l2 = Some (m', l', l2') \<and> repr m' l' [(0, 5), (1, 6 :: nat)]"
proof -
  let ?m = "\<lparr>nodes = [0 \<mapsto> \<lparr>n_prev = None, n_next = None, n_value = 5\<rparr>,
      1 \<mapsto> \<lparr>n_prev = None, n_next = None, n_value = 6 :: nat\<rparr>], m_fresh = 2, m_left = 0,
      m_released = []\<rparr>"
  let ?l = "\<lambda>a. listCreate\<lparr>l_head := Some a, l_tail := Some a, l_len := 1\<rparr>"
  have "repr ?m (?l 0) [(0, 5)]" "repr ?m (?l 1) [(1, 6)]" by (simp_all add: repr_def listCreate_def)
  from listJoin_appends [OF this] obtain m' l' l2' where
    "listJoin ?m (?l 0) (?l 1) = Some (m', l', l2')" "repr m' l' ([(0, 5)] @ [(1, 6)])" by auto
  then show ?thesis by (metis append_Cons append_Nil)qed

text \<open>
  \<open>listJoin\<close> with an empty second list sets the tail of a list that is not empty to \<open>NULL\<close>;
  the next \<open>listAddNodeToTail\<close> on it then writes through the null pointer.
\<close>

theorem listJoin_empty_loses_tail:
  assumes "repr m l xs" "repr m l2 []" "xs \<noteq> []" "m_left m > 0"
  shows "\<exists>m' l' l2'. listJoin m l l2 = Some (m', l', l2') \<and> l_tail l' = None \<and> l_len l' \<noteq> 0
    \<and> listAddNodeToTail m' l' v = None"
proof -
  obtain m' l' l2' where j: "listJoin m l l2 = Some (m', l', l2')" "l_tail l' = None"
    "l_len l' = length xs" "m_left m' = m_left m"
    using listJoin_empty [OF assms(1-3)] by blast
  then have "listAddNodeToTail m' l' v = None"
    using assms(3,4) by (simp add: listAddNodeToTail_def malloc_node_def set_next_def)
  then show ?thesis using j assms(3) by auto
qed

theorem listJoin_empty_loses_tail_witness:
  "\<exists>m l m' l' l2'. listJoin m l listCreate = Some (m', l', l2') \<and> l_tail l' = None
     \<and> listAddNodeToTail m' l' (7 :: nat) = None"
proof -
  let ?m = "\<lparr>nodes = [0 \<mapsto> \<lparr>n_prev = None, n_next = None, n_value = 5 :: nat\<rparr>],
      m_fresh = 1, m_left = 4, m_released = []\<rparr>"
  let ?l = "listCreate\<lparr>l_head := Some 0, l_tail := Some 0, l_len := 1\<rparr>"
  have "repr ?m ?l [(0, 5)]" by (simp add: repr_def listCreate_def)
  from listJoin_empty_loses_tail [OF this repr_create(2), of 7] obtain m' l' l2' where
    "listJoin ?m ?l listCreate = Some (m', l', l2')" "l_tail l' = None"
    "listAddNodeToTail m' l' 7 = None" by auto
  then show ?thesis by blast
qed

end
