(* ===== verification/Json.thy ===== *)
theory Json
  imports StrUtil
begin

text \<open>
  The JSON library \<open>utils/c_json.c\<close>: the item tree, the parser and the printer, and the
  operations on trees. A text is a \<open>string\<close> without its NUL, so the empty rest stands for a
  pointer at the terminator; moving the pointer past the terminator or writing past a buffer is
  undefined (\<open>None\<close>). The \<open>next\<close>/\<open>prev\<close> chain of an item's children is a list. Allocation is
  assumed to succeed, and items flagged as references or with constant names are not modelled.
\<close>

section \<open>Items\<close>

datatype cjtype =
  cJSON_False | cJSON_True | cJSON_NULL | cJSON_Number | cJSON_String | cJSON_Array | cJSON_Object

datatype 'd cJSON = Item
  (c_type: cjtype) (c_valuestring: "string option") (c_valueint: int) (c_valuedouble: 'd)
  (c_string: "string option") (c_child: "'d cJSON list")

text \<open>The \<open>double\<close> operations of the code: 0, \<open>n*10.0 + digit\<close>, \<open>sign*n*pow(10.0, e)\<close>, the
  conversions from and to \<open>int\<close>, the test \<open>d==0\<close>, the test that \<open>valueint\<close> is \<open>d\<close> within
  \<open>DBL_EPSILON\<close> and the range of \<open>int\<close>, and the text of \<open>%.0f\<close>, \<open>%e\<close> or \<open>%f\<close>.\<close>

record 'd fp =
  fp_zero :: 'd
  fp_digit :: "'d \<Rightarrow> int \<Rightarrow> 'd"
  fp_scale :: "int \<Rightarrow> 'd \<Rightarrow> int \<Rightarrow> 'd"
  fp_of_int :: "int \<Rightarrow> 'd"
  fp_to_int :: "'d \<Rightarrow> int"
  fp_is_zero :: "'d \<Rightarrow> bool"
  fp_is_int :: "int \<Rightarrow> 'd \<Rightarrow> bool"
  fp_text :: "'d \<Rightarrow> string"

text \<open>\<open>cJSON_New_Item\<close>: all fields 0; type 0 is \<open>cJSON_False\<close>.\<close>

definition cJSON_New_Item :: "'d fp \<Rightarrow> 'd cJSON" where
  "cJSON_New_Item F = Item cJSON_False None 0 (fp_zero F) None []"

definition set_type :: "cjtype \<Rightarrow> 'd cJSON \<Rightarrow> 'd cJSON" where
  "set_type ty c = Item ty (c_valuestring c) (c_valueint c) (c_valuedouble c) (c_string c) (c_child c)"

definition set_string :: "string option \<Rightarrow> 'd cJSON \<Rightarrow> 'd cJSON" where
  "set_string s c = Item (c_type c) (c_valuestring c) (c_valueint c) (c_valuedouble c) s (c_child c)"

definition set_child :: "'d cJSON list \<Rightarrow> 'd cJSON \<Rightarrow> 'd cJSON" where
  "set_child cs c = Item (c_type c) (c_valuestring c) (c_valueint c) (c_valuedouble c) (c_string c) cs"

definition cJSON_CreateNull :: "'d fp \<Rightarrow> 'd cJSON" where
  "cJSON_CreateNull F = set_type cJSON_NULL (cJSON_New_Item F)"
definition cJSON_CreateTrue :: "'d fp \<Rightarrow> 'd cJSON" where
  "cJSON_CreateTrue F = set_type cJSON_True (cJSON_New_Item F)"
definition cJSON_CreateFalse :: "'d fp \<Rightarrow> 'd cJSON" where
  "cJSON_CreateFalse F = set_type cJSON_False (cJSON_New_Item F)"
definition cJSON_CreateBool :: "'d fp \<Rightarrow> int \<Rightarrow> 'd cJSON" where
  "cJSON_CreateBool F b = set_type (if b \<noteq> 0 then cJSON_True else cJSON_False) (cJSON_New_Item F)"
definition cJSON_CreateNumber :: "'d fp \<Rightarrow> 'd \<Rightarrow> 'd cJSON" where
  "cJSON_CreateNumber F num = Item cJSON_Number None (fp_to_int F num) num None []"
definition cJSON_CreateString :: "'d fp \<Rightarrow> string \<Rightarrow> 'd cJSON" where
  "cJSON_CreateString F s = Item cJSON_String (Some s) 0 (fp_zero F) None []"
definition cJSON_CreateArray :: "'d fp \<Rightarrow> 'd cJSON" where
  "cJSON_CreateArray F = set_type cJSON_Array (cJSON_New_Item F)"
definition cJSON_CreateObject :: "'d fp \<Rightarrow> 'd cJSON" where
  "cJSON_CreateObject F = set_type cJSON_Object (cJSON_New_Item F)"

section \<open>Characters\<close>

definition code :: "char \<Rightarrow> nat" where
  "code c = of_char c"

definition is_digit :: "char \<Rightarrow> bool" where
  "is_digit c \<longleftrightarrow> 48 \<le> code c \<and> code c \<le> 57"

definition digit_val :: "char \<Rightarrow> int" where
  "digit_val c = int (code c) - 48"

text \<open>\<open>tolower\<close> in the C locale, and the comparison that ignores case; a null pointer differs
  from every string.\<close>

definition tolower :: "char \<Rightarrow> char" where
  "tolower c = (if 65 \<le> code c \<and> code c \<le> 90 then char_of (code c + 32) else c)"

fun same_nocase :: "string \<Rightarrow> string \<Rightarrow> bool" where
  "same_nocase [] [] = True"
| "same_nocase (a # s1) (b # s2) = (tolower a = tolower b \<and> same_nocase s1 s2)"
| "same_nocase _ _ = False"

definition cJSON_strcasecmp_eq :: "string option \<Rightarrow> string option \<Rightarrow> bool" where
  "cJSON_strcasecmp_eq s1 s2 =
     (case s1 of
        None \<Rightarrow> s2 = None
      | Some a \<Rightarrow> (case s2 of None \<Rightarrow> False | Some b \<Rightarrow> same_nocase a b))"

definition skip :: "string \<Rightarrow> string" where
  "skip s = dropWhile (\<lambda>c. code c \<le> 32) s"

section \<open>Parsing numbers\<close>

text \<open>The result of a parsing function: undefined, \<open>Inl ep\<close> with the error position, or the value
  and the rest.\<close>

type_synonym 'a presult = "(string + 'a \<times> string) option"

fun num_digits :: "'d fp \<Rightarrow> 'd \<Rightarrow> string \<Rightarrow> 'd \<times> nat \<times> string" where
  "num_digits F n [] = (n, 0, [])"
| "num_digits F n (c # s) =
     (if is_digit c
      then case num_digits F (fp_digit F n (digit_val c)) s of (n, k, r) \<Rightarrow> (n, Suc k, r)
      else (n, 0, c # s))"

text \<open>\<open>subscale\<close> is an \<open>int\<close>: an exponent with too many digits overflows it.\<close>

fun exp_digits :: "int \<Rightarrow> string \<Rightarrow> (int \<times> string) option" where
  "exp_digits n [] = Some (n, [])"
| "exp_digits n (c # s) =
     (if is_digit c
      then if in_int (n * 10) \<and> in_int (n * 10 + digit_val c)
           then exp_digits (n * 10 + digit_val c) s else None
      else Some (n, c # s))"

definition parse_exponent :: "string \<Rightarrow> (int \<times> string) option" where
  "parse_exponent s =
     (case s of
        c # s' \<Rightarrow>
          if c = CHR ''e'' \<or> c = CHR ''E''
          then (case s' of
                  d # s'' \<Rightarrow>
                    if d = CHR ''+'' then exp_digits 0 s''
                    else if d = CHR ''-'' then map_option (apfst uminus) (exp_digits 0 s'')
                    else exp_digits 0 s'
                | [] \<Rightarrow> exp_digits 0 [])
          else Some (0, s)
      | [] \<Rightarrow> Some (0, s))"

text \<open>The sign, the digits before the point after a leading zero, and those after it with the
  negative \<open>scale\<close>.\<close>

definition num_sign :: "string \<Rightarrow> int \<times> string" where
  "num_sign num = (case num of c # s \<Rightarrow> if c = CHR ''-'' then (-1, s) else (1, num) | [] \<Rightarrow> (1, num))"

definition num_zero :: "string \<Rightarrow> string" where
  "num_zero num = (case num of c # s \<Rightarrow> if c = CHR ''0'' then s else num | [] \<Rightarrow> num)"

definition num_int :: "'d fp \<Rightarrow> string \<Rightarrow> 'd \<times> string" where
  "num_int F num =
     (case num of
        c # s \<Rightarrow> if is_digit c \<and> c \<noteq> CHR ''0''
                 then (case num_digits F (fp_zero F) num of (n, _, r) \<Rightarrow> (n, r))
                 else (fp_zero F, num)
      | [] \<Rightarrow> (fp_zero F, num))"

definition num_frac :: "'d fp \<Rightarrow> 'd \<Rightarrow> string \<Rightarrow> 'd \<times> int \<times> string" where
  "num_frac F n num =
     (case num of
        c # d # s \<Rightarrow> if c = CHR ''.'' \<and> is_digit d
                      then (case num_digits F n (d # s) of (n, k, r) \<Rightarrow> (n, - int k, r))
                      else (n, 0, num)
      | _ \<Rightarrow> (n, 0, num))"

definition parse_number :: "'d fp \<Rightarrow> string \<Rightarrow> 'd cJSON presult" where
  "parse_number F num =
     do { let (sign, num) = num_sign num;
          let (n, num) = num_int F (num_zero num);
          let (n, scale, num) = num_frac F n num;
          (subscale, num) \<leftarrow> parse_exponent num;
          let n = fp_scale F sign n (scale + subscale);
          Some (Inr (Item cJSON_Number None (fp_to_int F n) n None [], num)) }"

section \<open>Parsing strings\<close>

definition hex_digit :: "char \<Rightarrow> nat option" where
  "hex_digit c =
     (if 48 \<le> code c \<and> code c \<le> 57 then Some (code c - 48)
      else if 65 \<le> code c \<and> code c \<le> 70 then Some (10 + code c - 65)
      else if 97 \<le> code c \<and> code c \<le> 102 then Some (10 + code c - 97)
      else None)"

text \<open>\<open>parse_hex4\<close> returns 0 at the first character that is no hexadecimal digit.\<close>

fun parse_hex4_loop :: "nat \<Rightarrow> nat \<Rightarrow> string \<Rightarrow> nat" where
  "parse_hex4_loop 0 h s = h"
| "parse_hex4_loop (Suc k) h [] = 0"
| "parse_hex4_loop (Suc k) h (c # s) =
     (case hex_digit c of None \<Rightarrow> 0 | Some v \<Rightarrow> parse_hex4_loop k (h * 16 + v) s)"

definition parse_hex4 :: "string \<Rightarrow> nat" where
  "parse_hex4 s = parse_hex4_loop 4 0 s"

text \<open>The bytes of a code point, the last first filled in: \<open>(uc | 0x80) & 0xBF\<close> and the mark of
  the first byte.\<close>

definition firstByteMark :: "nat list" where
  "firstByteMark = [0x00, 0x00, 0xC0, 0xE0, 0xF0, 0xF8, 0xFC]"

definition utf8_len :: "nat \<Rightarrow> nat" where
  "utf8_len uc = (if uc < 0x80 then 1 else if uc < 0x800 then 2 else if uc < 0x10000 then 3 else 4)"

fun utf8_fill :: "nat \<Rightarrow> nat \<Rightarrow> nat \<Rightarrow> string \<Rightarrow> string" where
  "utf8_fill len 0 uc acc = acc"
| "utf8_fill len (Suc 0) uc acc = char_of (uc OR firstByteMark ! len) # acc"
| "utf8_fill len (Suc (Suc k)) uc acc =
     utf8_fill len (Suc k) (drop_bit 6 uc) (char_of ((uc OR 0x80) AND 0xBF) # acc)"

definition utf8 :: "nat \<Rightarrow> string" where
  "utf8 uc = utf8_fill (utf8_len uc) (utf8_len uc) uc []"

text \<open>Moving the pointer: it may reach the terminator but not pass it.\<close>

definition advance :: "nat \<Rightarrow> string \<Rightarrow> string option" where
  "advance n s = (if n \<le> length s then Some (drop n s) else None)"

text \<open>The first loop: the number of characters and escapes up to the closing quote.\<close>

fun scan_len :: "string \<Rightarrow> nat option" where
  "scan_len [] = Some 0"
| "scan_len (c # s) =
     (if c = CHR ''\"'' then Some 0
      else if c = CHR 0x5C
        then (case s of [] \<Rightarrow> None | _ # s' \<Rightarrow> map_option Suc (scan_len s'))
      else map_option Suc (scan_len s))"

text \<open>One \<open>\u\<close> escape, at the \<open>u\<close>: the characters written and the rest at the last character
  read.\<close>

definition parse_u :: "string \<Rightarrow> (string \<times> string) option" where
  "parse_u s =
     do { let uc = parse_hex4 (tl s);
          s \<leftarrow> advance 4 s;
          if (0xDC00 \<le> uc \<and> uc \<le> 0xDFFF) \<or> uc = 0 then Some ([], s)
          else if 0xD800 \<le> uc \<and> uc \<le> 0xDBFF
          then do {
            c1 \<leftarrow> (case s of [] \<Rightarrow> None | _ # r \<Rightarrow> Some (take 1 r));
            if c1 \<noteq> [CHR 0x5C] then Some ([], s)
            else if take 1 (drop 2 s) \<noteq> ''u'' then Some ([], s)
            else do {
              let uc2 = parse_hex4 (drop 3 s);
              s \<leftarrow> advance 6 s;
              if uc2 < 0xDC00 \<or> 0xDFFF < uc2 then Some ([], s)
              else Some (utf8 (0x10000 + (push_bit 10 (uc AND 0x3FF) OR (uc2 AND 0x3FF))), s) } }
          else Some (utf8 uc, s) }"

lemma advance_length: "advance n s = Some q \<Longrightarrow> length q \<le> length s"
  by (auto simp: advance_def split: if_splits)

lemma parse_u_length: "parse_u s = Some (w, q) \<Longrightarrow> length q \<le> length s"
  by (fastforce simp: parse_u_def Let_def split: if_splits bind_splits list.splits
      dest!: advance_length)

text \<open>The second loop. The characters written so far are counted: the buffer has \<open>len + 1\<close>
  places, the last for the NUL.\<close>

function str_body :: "nat \<Rightarrow> string \<Rightarrow> string \<Rightarrow> (string \<times> string) option" where
  "str_body len s out =
     (case s of
        [] \<Rightarrow> if length out \<le> len then Some (out, []) else None
      | c # r \<Rightarrow>
          if c = CHR ''\"'' then (if length out \<le> len then Some (out, s) else None)
          else if c \<noteq> CHR 0x5C
            then (if length out < len + 1 then str_body len r (out @ [c]) else None)
          else
            (case r of
               [] \<Rightarrow> None
             | e # r' \<Rightarrow>
                 (if e = CHR ''u''
                  then (case parse_u r of
                          None \<Rightarrow> None
                        | Some (w, q) \<Rightarrow>
                            if length out + length w \<le> len + 1 \<and> q \<noteq> []
                            then str_body len (tl q) (out @ w) else None)
                  else
                    let w = (if e = CHR ''b'' then CHR 0x08 else if e = CHR ''f'' then CHR 0x0C
                             else if e = CHR ''n'' then CHR 0x0A else if e = CHR ''r'' then CHR 0x0D
                             else if e = CHR ''t'' then CHR 0x09 else e)
                    in if length out < len + 1 then str_body len r' (out @ [w]) else None)))"
  by pat_completeness auto

termination
  by (relation "measure (\<lambda>(len, s, out). length s)")
    (auto dest!: parse_u_length simp: neq_Nil_conv)

declare str_body.simps [simp del]

definition parse_string :: "string \<Rightarrow> string presult" where
  "parse_string s =
     (case s of
        c # r \<Rightarrow>
          if c \<noteq> CHR ''\"'' then Some (Inl s)
          else do {
            len \<leftarrow> scan_len r;
            (out, q) \<leftarrow> str_body len r [];
            Some (Inr (out, if take 1 q = ''\"'' then tl q else q)) }
      | [] \<Rightarrow> Some (Inl s))"

section \<open>Parsing values\<close>

text \<open>The recursion runs on fuel; one unit per nested call, and every call reads a character.\<close>

fun parse_value :: "nat \<Rightarrow> 'd fp \<Rightarrow> string \<Rightarrow> 'd cJSON presult"
  and parse_elements :: "nat \<Rightarrow> 'd fp \<Rightarrow> string \<Rightarrow> 'd cJSON list presult"
  and parse_members :: "nat \<Rightarrow> 'd fp \<Rightarrow> string \<Rightarrow> 'd cJSON list presult"
where
  "parse_value 0 F s = None"
| "parse_value (Suc fuel) F s =
     (if take 4 s = ''null'' then Some (Inr (cJSON_CreateNull F, drop 4 s))
      else if take 5 s = ''false'' then Some (Inr (cJSON_CreateFalse F, drop 5 s))
      else if take 4 s = ''true''
        then Some (Inr (Item cJSON_True None 1 (fp_zero F) None [], drop 4 s))
      else
        (case s of
           [] \<Rightarrow> Some (Inl s)
         | c # r \<Rightarrow>
             if c = CHR ''\"''
             then do { x \<leftarrow> parse_string s;
                       (case x of
                          Inl ep \<Rightarrow> Some (Inl ep)
                        | Inr (v, q) \<Rightarrow> Some (Inr (cJSON_CreateString F v, q))) }
             else if c = CHR ''-'' \<or> is_digit c then parse_number F s
             else if c = CHR ''[''
             then if take 1 (skip r) = '']'' then Some (Inr (cJSON_CreateArray F, tl (skip r)))
                  else do { x \<leftarrow> parse_elements fuel F (skip r);
                            (case x of
                               Inl ep \<Rightarrow> Some (Inl ep)
                             | Inr (cs, q) \<Rightarrow> Some (Inr (set_child cs (cJSON_CreateArray F), q))) }
             else if c = CHR ''{''
             then if take 1 (skip r) = ''}'' then Some (Inr (cJSON_CreateObject F, tl (skip r)))
                  else do { x \<leftarrow> parse_members fuel F (skip r);
                            (case x of
                               Inl ep \<Rightarrow> Some (Inl ep)
                             | Inr (cs, q) \<Rightarrow> Some (Inr (set_child cs (cJSON_CreateObject F), q))) }
             else Some (Inl s)))"
| "parse_elements 0 F s = None"
| "parse_elements (Suc fuel) F s =
     do { x \<leftarrow> parse_value fuel F (skip s);
          (case x of
             Inl ep \<Rightarrow> Some (Inl ep)
           | Inr (v, q) \<Rightarrow>
               (let q = skip q
                in if take 1 q = '',''
                   then do { y \<leftarrow> parse_elements fuel F (skip (tl q));
                             (case y of Inl ep \<Rightarrow> Some (Inl ep) | Inr (vs, q) \<Rightarrow> Some (Inr (v # vs, q))) }
                   else if take 1 q = '']'' then Some (Inr ([v], tl q))
                   else Some (Inl q))) }"
| "parse_members 0 F s = None"
| "parse_members (Suc fuel) F s =
     do { x \<leftarrow> parse_string (skip s);
          (case x of
             Inl ep \<Rightarrow> Some (Inl ep)
           | Inr (name, q) \<Rightarrow>
               (let q = skip q
                in if take 1 q \<noteq> '':'' then Some (Inl q)
                   else do {
                     x \<leftarrow> parse_value fuel F (skip (tl q));
                     (case x of
                        Inl ep \<Rightarrow> Some (Inl ep)
                      | Inr (v, q) \<Rightarrow>
                          (let q = skip q; v = set_string (Some name) v
                           in if take 1 q = '',''
                              then do { y \<leftarrow> parse_members fuel F (skip (tl q));
                                        (case y of
                                           Inl ep \<Rightarrow> Some (Inl ep)
                                         | Inr (vs, q) \<Rightarrow> Some (Inr (v # vs, q))) }
                              else if take 1 q = ''}'' then Some (Inr ([v], tl q))
                              else Some (Inl q))) })) }"

text \<open>\<open>cJSON_ParseWithOpts\<close>: \<open>Inl ep\<close> for the result \<open>NULL\<close>; the item and the parse end otherwise.\<close>

definition cJSON_ParseWithOpts :: "'d fp \<Rightarrow> string \<Rightarrow> bool \<Rightarrow> 'd cJSON presult" where
  "cJSON_ParseWithOpts F value require_null_terminated =
     do { x \<leftarrow> parse_value (2 * length value + 2) F (skip value);
          (case x of
             Inl ep \<Rightarrow> Some (Inl ep)
           | Inr (c, q) \<Rightarrow>
               if require_null_terminated
               then (if skip q \<noteq> [] then Some (Inl (skip q)) else Some (Inr (c, skip q)))
               else Some (Inr (c, q))) }"

text \<open>\<open>Some None\<close> is the result \<open>NULL\<close>.\<close>

definition cJSON_Parse :: "'d fp \<Rightarrow> string \<Rightarrow> 'd cJSON option option" where
  "cJSON_Parse F value =
     map_option (\<lambda>x. case x of Inl ep \<Rightarrow> None | Inr (c, q) \<Rightarrow> Some c) (cJSON_ParseWithOpts F value False)"

end
