(* ===== verification/JsonPrint.thy ===== *)
theory JsonPrint
  imports Json
begin

text \<open>
  The printer of \<open>utils/c_json.c\<close> (the unbuffered path, which \<open>cJSON_Print\<close> and
  \<open>cJSON_PrintUnformatted\<close> take) and the operations on item trees. The buffer each printing
  function allocates has the length the code computes; output longer than it is undefined.
\<close>

section \<open>Printing strings and numbers\<close>

text \<open>\<open>sprintf\<close> with \<open>%d\<close> and \<open>%04x\<close>.\<close>

fun show_nat :: "nat \<Rightarrow> string" where
  "show_nat n = (if n < 10 then [char_of (48 + n)] else show_nat (n div 10) @ [char_of (48 + n mod 10)])"

declare show_nat.simps [simp del]

definition show_int :: "int \<Rightarrow> string" where
  "show_int i = (if i < 0 then CHR ''-'' # show_nat (nat (- i)) else show_nat (nat i))"

definition hex_lower :: "nat \<Rightarrow> char" where
  "hex_lower n = (if n < 10 then char_of (48 + n) else char_of (87 + n))"

definition show_u04x :: "nat \<Rightarrow> string" where
  "show_u04x n = [CHR ''u'', hex_lower (n div 4096 mod 16), hex_lower (n div 256 mod 16),
     hex_lower (n div 16 mod 16), hex_lower (n mod 16)]"

text \<open>A character of a signed \<open>char\<close> string that needs an escape.\<close>

definition flagged :: "char \<Rightarrow> bool" where
  "flagged c \<longleftrightarrow> code c < 32 \<or> c = CHR ''\"'' \<or> c = CHR 0x5C"

definition short_escape :: "char \<Rightarrow> char option" where
  "short_escape c =
     (if c = CHR 0x5C then Some (CHR 0x5C) else if c = CHR ''\"'' then Some (CHR ''\"'')
      else if c = CHR 0x08 then Some (CHR ''b'') else if c = CHR 0x0C then Some (CHR ''f'')
      else if c = CHR 0x0A then Some (CHR ''n'') else if c = CHR 0x0D then Some (CHR ''r'')
      else if c = CHR 0x09 then Some (CHR ''t'') else None)"

definition escape :: "char \<Rightarrow> string" where
  "escape c =
     (if \<not> flagged c then [c]
      else case short_escape c of
        Some e \<Rightarrow> [CHR 0x5C, e]
      | None \<Rightarrow> CHR 0x5C # show_u04x (code c))"

definition escaped_len :: "char \<Rightarrow> nat" where
  "escaped_len c = (if short_escape c \<noteq> None then 2 else if code c < 32 then 6 else 1)"

definition print_string_ptr :: "string option \<Rightarrow> string option" where
  "print_string_ptr str =
     do { s \<leftarrow> str;
          if \<not> list_ex flagged s
          then (let out = CHR ''\"'' # s @ ''\"''
                in if length out + 1 \<le> length s + 3 then Some out else None)
          else (let len = sum_list (map escaped_len s);
                    out = CHR ''\"'' # concat (map escape s) @ ''\"''
                in if length out + 1 \<le> len + 3 then Some out else None) }"

definition print_number :: "'d fp \<Rightarrow> 'd cJSON \<Rightarrow> string option" where
  "print_number F item =
     (let d = c_valuedouble item
      in if fp_is_zero F d then Some ''0''
         else if fp_is_int F (c_valueint item) d
           then (if length (show_int (c_valueint item)) + 1 \<le> 21 then Some (show_int (c_valueint item)) else None)
         else (if length (fp_text F d) + 1 \<le> 64 then Some (fp_text F d) else None))"

section \<open>Printing values\<close>

definition tabs :: "nat \<Rightarrow> string" where
  "tabs n = replicate n (CHR 0x09)"

definition nl :: "bool \<Rightarrow> string" where
  "nl fmt = (if fmt then [CHR 0x0A] else [])"

fun join_entries :: "bool \<Rightarrow> string list \<Rightarrow> string" where
  "join_entries fmt [] = []"
| "join_entries fmt [e] = e"
| "join_entries fmt (e # es) = e @ '','' @ (if fmt then '' '' else []) @ join_entries fmt es"

definition print_array :: "bool \<Rightarrow> string list \<Rightarrow> string option" where
  "print_array fmt entries =
     (if entries = [] then Some ''[]''
      else
        let len = 5 + sum_list (map (\<lambda>e. length e + 2 + (if fmt then 1 else 0)) entries);
            out = ''['' @ join_entries fmt entries @ '']''
        in if length out + 1 \<le> len then Some out else None)"

text \<open>\<open>depth\<close> is already incremented.\<close>

fun join_members :: "nat \<Rightarrow> bool \<Rightarrow> (string \<times> string) list \<Rightarrow> string" where
  "join_members depth fmt [] = []"
| "join_members depth fmt ((n, e) # es) =
     (if fmt then tabs depth else []) @ n @ '':'' @ (if fmt then tabs 1 else []) @ e
       @ (if es \<noteq> [] then '','' else []) @ nl fmt @ join_members depth fmt es"

definition print_object :: "nat \<Rightarrow> bool \<Rightarrow> (string \<times> string) list \<Rightarrow> string option" where
  "print_object depth fmt entries =
     (if entries = []
      then (let out = ''{'' @ (if fmt then nl True @ tabs (depth - 1) else []) @ ''}''
            in if length out + 1 \<le> (if fmt then depth + 4 else 3) then Some out else None)
      else
        let depth = depth + 1;
            len = 7 + (if fmt then depth else 0)
              + sum_list (map (\<lambda>(n, e). length e + length n + 2 + (if fmt then 2 + depth else 0)) entries);
            out = ''{'' @ nl fmt @ join_members depth fmt entries
              @ (if fmt then tabs (depth - 1) else []) @ ''}''
        in if length out + 1 \<le> len then Some out else None)"

fun print_value :: "'d fp \<Rightarrow> nat \<Rightarrow> bool \<Rightarrow> 'd cJSON \<Rightarrow> string option"
  and print_values :: "'d fp \<Rightarrow> nat \<Rightarrow> bool \<Rightarrow> 'd cJSON list \<Rightarrow> string list option"
  and print_members :: "'d fp \<Rightarrow> nat \<Rightarrow> bool \<Rightarrow> 'd cJSON list \<Rightarrow> (string \<times> string) list option"
where
  "print_value F depth fmt (Item ty vs vi vd nm cs) =
     (case ty of
        cJSON_NULL \<Rightarrow> Some ''null''
      | cJSON_False \<Rightarrow> Some ''false''
      | cJSON_True \<Rightarrow> Some ''true''
      | cJSON_Number \<Rightarrow> print_number F (Item ty vs vi vd nm cs)
      | cJSON_String \<Rightarrow> print_string_ptr vs
      | cJSON_Array \<Rightarrow> do { es \<leftarrow> print_values F (depth + 1) fmt cs; print_array fmt es }
      | cJSON_Object \<Rightarrow> do { es \<leftarrow> print_members F (depth + 1) fmt cs; print_object depth fmt es })"
| "print_values F depth fmt [] = Some []"
| "print_values F depth fmt (c # cs) =
     do { e \<leftarrow> print_value F depth fmt c; es \<leftarrow> print_values F depth fmt cs; Some (e # es) }"
| "print_members F depth fmt [] = Some []"
| "print_members F depth fmt (c # cs) =
     do { n \<leftarrow> print_string_ptr (c_string c);
          e \<leftarrow> print_value F depth fmt c;
          es \<leftarrow> print_members F depth fmt cs; Some ((n, e) # es) }"

definition cJSON_Print :: "'d fp \<Rightarrow> 'd cJSON \<Rightarrow> string option" where
  "cJSON_Print F item = print_value F 0 True item"

definition cJSON_PrintUnformatted :: "'d fp \<Rightarrow> 'd cJSON \<Rightarrow> string option" where
  "cJSON_PrintUnformatted F item = print_value F 0 False item"

section \<open>Operations on trees\<close>

definition cJSON_GetArraySize :: "'d cJSON \<Rightarrow> nat" where
  "cJSON_GetArraySize a = length (c_child a)"

text \<open>A negative index is the first item.\<close>

definition cJSON_GetArrayItem :: "'d cJSON \<Rightarrow> int \<Rightarrow> 'd cJSON option" where
  "cJSON_GetArrayItem a item =
     (if nat item < length (c_child a) then Some (c_child a ! nat item) else None)"

definition cJSON_GetObjectItem :: "'d cJSON \<Rightarrow> string \<Rightarrow> 'd cJSON option" where
  "cJSON_GetObjectItem obj name = find (\<lambda>c. cJSON_strcasecmp_eq (c_string c) (Some name)) (c_child obj)"

definition cJSON_AddItemToArray :: "'d cJSON \<Rightarrow> 'd cJSON \<Rightarrow> 'd cJSON" where
  "cJSON_AddItemToArray a item = set_child (c_child a @ [item]) a"

definition cJSON_AddItemToObject :: "'d cJSON \<Rightarrow> string \<Rightarrow> 'd cJSON \<Rightarrow> 'd cJSON" where
  "cJSON_AddItemToObject obj name item = cJSON_AddItemToArray obj (set_string (Some name) item)"

definition cJSON_DetachItemFromArray :: "'d cJSON \<Rightarrow> int \<Rightarrow> 'd cJSON \<times> 'd cJSON option" where
  "cJSON_DetachItemFromArray a which =
     (let i = nat which; cs = c_child a
      in if i < length cs then (set_child (take i cs @ drop (i + 1) cs) a, Some (cs ! i)) else (a, None))"

definition cJSON_DeleteItemFromArray :: "'d cJSON \<Rightarrow> int \<Rightarrow> 'd cJSON" where
  "cJSON_DeleteItemFromArray a which = fst (cJSON_DetachItemFromArray a which)"

text \<open>The index of the first item of the name, the number of items when there is none.\<close>

fun name_index :: "string \<Rightarrow> 'd cJSON list \<Rightarrow> nat" where
  "name_index name [] = 0"
| "name_index name (c # cs) =
     (if cJSON_strcasecmp_eq (c_string c) (Some name) then 0 else Suc (name_index name cs))"

definition cJSON_DetachItemFromObject :: "'d cJSON \<Rightarrow> string \<Rightarrow> 'd cJSON \<times> 'd cJSON option" where
  "cJSON_DetachItemFromObject obj name =
     (let i = name_index name (c_child obj)
      in if i < length (c_child obj) then cJSON_DetachItemFromArray obj (int i) else (obj, None))"

definition cJSON_DeleteItemFromObject :: "'d cJSON \<Rightarrow> string \<Rightarrow> 'd cJSON" where
  "cJSON_DeleteItemFromObject obj name = fst (cJSON_DetachItemFromObject obj name)"

definition cJSON_InsertItemInArray :: "'d cJSON \<Rightarrow> int \<Rightarrow> 'd cJSON \<Rightarrow> 'd cJSON" where
  "cJSON_InsertItemInArray a which newitem =
     (let i = nat which; cs = c_child a
      in if i < length cs then set_child (take i cs @ newitem # drop i cs) a
         else cJSON_AddItemToArray a newitem)"

definition cJSON_ReplaceItemInArray :: "'d cJSON \<Rightarrow> int \<Rightarrow> 'd cJSON \<Rightarrow> 'd cJSON" where
  "cJSON_ReplaceItemInArray a which newitem =
     (let i = nat which; cs = c_child a
      in if i < length cs then set_child (cs[i := newitem]) a else a)"

definition cJSON_ReplaceItemInObject :: "'d cJSON \<Rightarrow> string \<Rightarrow> 'd cJSON \<Rightarrow> 'd cJSON" where
  "cJSON_ReplaceItemInObject obj name newitem =
     (let i = name_index name (c_child obj)
      in if i < length (c_child obj)
         then cJSON_ReplaceItemInArray obj (int i) (set_string (Some name) newitem) else obj)"

definition cJSON_CreateIntArray :: "'d fp \<Rightarrow> int list \<Rightarrow> 'd cJSON" where
  "cJSON_CreateIntArray F numbers =
     set_child (map (\<lambda>k. cJSON_CreateNumber F (fp_of_int F k)) numbers) (cJSON_CreateArray F)"

definition cJSON_CreateDoubleArray :: "'d fp \<Rightarrow> 'd list \<Rightarrow> 'd cJSON" where
  "cJSON_CreateDoubleArray F numbers = set_child (map (cJSON_CreateNumber F) numbers) (cJSON_CreateArray F)"

definition cJSON_CreateStringArray :: "'d fp \<Rightarrow> string list \<Rightarrow> 'd cJSON" where
  "cJSON_CreateStringArray F strings = set_child (map (cJSON_CreateString F) strings) (cJSON_CreateArray F)"

fun cJSON_Duplicate :: "'d cJSON \<Rightarrow> bool \<Rightarrow> 'd cJSON" where
  "cJSON_Duplicate (Item ty vs vi vd nm cs) recurse =
     Item ty vs vi vd nm (if recurse then map (\<lambda>c. cJSON_Duplicate c True) cs else [])"

section \<open>Minifying\<close>

text \<open>\<open>while (*json && !(*json=='*' && json[1]=='/')) json++; json+=2\<close>: an open comment moves
  the pointer past the terminator.\<close>

fun skip_comment :: "string \<Rightarrow> string option" where
  "skip_comment [] = None"
| "skip_comment (c # s) =
     (if c = CHR ''*'' \<and> take 1 s = ''/'' then Some (tl s) else skip_comment s)"

text \<open>A string literal from after its quote, with the closing quote; an open one copies the
  terminator and goes on past it.\<close>

fun copy_literal :: "string \<Rightarrow> (string \<times> string) option" where
  "copy_literal [] = None"
| "copy_literal (c # s) =
     (if c = CHR ''\"'' then Some ([c], s)
      else if c = CHR 0x5C
        then (case s of [] \<Rightarrow> None | e # s' \<Rightarrow> map_option (apfst (\<lambda>w. c # e # w)) (copy_literal s'))
      else map_option (apfst (\<lambda>w. c # w)) (copy_literal s))"

lemma skip_comment_length: "skip_comment s = Some r \<Longrightarrow> length r < length s"
  by (induction s arbitrary: r) (fastforce split: if_splits simp: take_Suc)+

lemma copy_literal_length: "copy_literal s = Some (w, r) \<Longrightarrow> length r < length s"
proof (induction s arbitrary: w r rule: copy_literal.induct)
  case (2 c s)
  then show ?case by (cases s) (fastforce split: if_splits)+
qed simp

function cJSON_Minify :: "string \<Rightarrow> string option" where
  "cJSON_Minify json =
     (case json of
        [] \<Rightarrow> Some []
      | c # s \<Rightarrow>
          if c = CHR '' '' \<or> c = CHR 0x09 \<or> c = CHR 0x0D \<or> c = CHR 0x0A then cJSON_Minify s
          else if c = CHR ''/'' \<and> take 1 s = ''/''
            then cJSON_Minify (dropWhile (\<lambda>d. d \<noteq> CHR 0x0A) json)
          else if c = CHR ''/'' \<and> take 1 s = ''*''
            then (case skip_comment json of None \<Rightarrow> None | Some r \<Rightarrow> cJSON_Minify r)
          else if c = CHR ''\"''
            then (case copy_literal s of
                    None \<Rightarrow> None
                  | Some (w, r) \<Rightarrow> map_option (\<lambda>out. c # w @ out) (cJSON_Minify r))
          else map_option (\<lambda>out. c # out) (cJSON_Minify s))"
  by pat_completeness auto
termination
  by (relation "measure length")
    (auto dest: skip_comment_length copy_literal_length simp: le_imp_less_Suc length_dropWhile_le)

declare cJSON_Minify.simps [simp del]

end
