(* ===== verification/JsonProofs.thy ===== *)
theory JsonProofs
  imports JsonPrint
begin

text \<open>
  The printer writes inside its buffers, and the parser reads back what it prints, formatted or
  not: strings with every escape, integers, and trees. The facts about \<open>double\<close> that the integer
  round trip needs are collected in \<open>fp_ok\<close>.
\<close>

section \<open>Characters and strings\<close>

definition no_nul :: "string \<Rightarrow> bool" where
  "no_nul s \<longleftrightarrow> list_all (\<lambda>c. code c \<noteq> 0) s"

lemma code_less: "code c < 256"
  by (simp add: code_def nat_of_char_less_256)

lemma char_of_code [simp]: "char_of (code c) = c"
  by (simp add: code_def)

lemma char_code_iff: "c = d \<longleftrightarrow> code c = code d"
  by (simp add: code_def)

lemma code_char_of: "n < 256 \<Longrightarrow> code (char_of n) = n"
  by (simp add: code_def of_char_of)

lemma below_16: "(n :: nat) < 16 \<Longrightarrow> n \<in> {0,1,2,3,4,5,6,7,8,9,10,11,12,13,14,15}"
  by (simp only: insert_iff empty_iff) presburger

lemma hex_digit_lower: "n < 16 \<Longrightarrow> hex_digit (hex_lower n) = Some n"
  by (auto simp: hex_digit_def hex_lower_def code_char_of)

lemma show_u04x_ascii:
  "n < 0x80 \<Longrightarrow> show_u04x n = [CHR ''u'', hex_lower 0, hex_lower 0, hex_lower (n div 16), hex_lower (n mod 16)]"
  by (simp add: show_u04x_def)

lemma parse_hex4_show:
  assumes "n < 0x80"
  shows "parse_hex4 (tl (show_u04x n) @ rest) = n"
proof -
  have "n div 16 < 16" "n mod 16 < 16" using assms by simp_all
  moreover have "n div 16 * 16 + n mod 16 = n" by (rule div_mult_mod_eq)
  moreover have four: "4 = Suc (Suc (Suc (Suc 0)))" by simp
  ultimately show ?thesis
    unfolding parse_hex4_def show_u04x_ascii [OF assms] four
    by (simp add: hex_digit_lower)
qed

lemma utf8_ascii: "n < 0x80 \<Longrightarrow> utf8 n = [char_of n]"
  by (simp add: utf8_def utf8_len_def firstByteMark_def)

lemma parse_u_show:
  assumes "0 < n" "n < 0x80"
  shows "parse_u (show_u04x n @ rest) = Some ([char_of n], hex_lower (n mod 16) # rest)"
proof -
  have h: "parse_hex4 (tl (show_u04x n @ rest)) = n"
    using parse_hex4_show [of n rest] assms by (simp add: show_u04x_def)
  have a: "advance 4 (show_u04x n @ rest) = Some (hex_lower (n mod 16) # rest)"
    by (simp add: advance_def show_u04x_def)
  show ?thesis using assms h a by (simp add: parse_u_def utf8_ascii)
qed

lemma scan_len_escape:
  assumes "scan_len rest = Some n"
  shows "\<exists>k \<ge> 1. scan_len (escape c @ rest) = Some (n + k)"
proof -
  have d: "hex_lower i \<noteq> CHR ''\"'' \<and> hex_lower i \<noteq> CHR 0x5C" if "i < 16" for i
    using below_16 [OF that] by (auto simp: hex_lower_def char_code_iff code_char_of) (simp_all add: code_def)
  show ?thesis
    using assms d by (auto simp: escape_def flagged_def short_escape_def show_u04x_def)
qed

lemma scan_len_escaped:
  "\<exists>n. scan_len (concat (map escape s) @ CHR ''\"'' # rest) = Some n \<and> length s \<le> n"
proof (induction s)
  case (Cons c s)
  then obtain n where n: "scan_len (concat (map escape s) @ CHR ''\"'' # rest) = Some n" "length s \<le> n"
    by blast
  then show ?case using scan_len_escape [OF n(1), of c] by auto
qed simp

lemma str_body_escape:
  assumes "code c \<noteq> 0" "length out < len"
  shows "str_body len (escape c @ rest) out = str_body len rest (out @ [c])"
proof (cases "flagged c")
  case False
  then show ?thesis using assms
    by (simp add: escape_def str_body.simps [of len "c # rest"] flagged_def)
next
  case True
  show ?thesis
  proof (cases "short_escape c")
    case (Some e)
    then show ?thesis using assms True
      by (auto simp: escape_def short_escape_def str_body.simps [of len "_ # _ # rest"] split: if_splits)
  next
    case None
    have c: "0 < code c" "code c < 0x80" "code c < 32"
      using True None assms by (auto simp: flagged_def short_escape_def split: if_splits)
    have u: "show_u04x (code c) = CHR ''u'' # tl (show_u04x (code c))" by (simp add: show_u04x_def)
    have "str_body len (CHR 0x5C # show_u04x (code c) @ rest) out = str_body len rest (out @ [c])"
      using assms parse_u_show [OF c(1,2), of rest]
      by (subst u, subst (asm) u) (simp add: str_body.simps [of len "CHR 0x5C # _"])
    then show ?thesis using True None by (simp add: escape_def)
  qed
qed

lemma str_body_escaped:
  "no_nul s \<Longrightarrow> length out + length s \<le> len \<Longrightarrow>
   str_body len (concat (map escape s) @ CHR ''\"'' # rest) out = Some (out @ s, CHR ''\"'' # rest)"
proof (induction s arbitrary: out)
  case Nil
  then show ?case by (simp add: str_body.simps [of len "_ # _"])
next
  case (Cons c s)
  then show ?case
    using str_body_escape [of c out len "concat (map escape s) @ CHR ''\"'' # rest"]
    by (simp add: no_nul_def)
qed

definition quoted :: "string \<Rightarrow> string" where
  "quoted s = CHR ''\"'' # concat (map escape s) @ ''\"''"

lemma parse_string_quoted:
  assumes "no_nul s"
  shows "parse_string (quoted s @ rest) = Some (Inr (s, rest))"
proof -
  obtain n where n: "scan_len (concat (map escape s) @ CHR ''\"'' # rest) = Some n" "length s \<le> n"
    using scan_len_escaped by blast
  have "str_body n (concat (map escape s) @ CHR ''\"'' # rest) [] = Some (s, CHR ''\"'' # rest)"
    using str_body_escaped [OF assms, of "[]" n rest] n(2) by simp
  then show ?thesis using n(1) by (simp add: parse_string_def quoted_def)
qed

lemma escape_length: "length (escape c) = escaped_len c"
  by (auto simp: escape_def escaped_len_def flagged_def short_escape_def show_u04x_def code_def)

lemma escape_id: "\<not> list_ex flagged s \<Longrightarrow> concat (map escape s) = s"
  by (induction s) (auto simp: escape_def)

text \<open>\<open>print_string_ptr\<close> stays inside the buffer it sized.\<close>

lemma print_string_ptr_quoted: "print_string_ptr (Some s) = Some (quoted s)"
proof -
  have "length (concat (map escape s)) = sum_list (map escaped_len s)"
    by (induction s) (auto simp: escape_length)
  then show ?thesis using escape_id [of s] by (auto simp: print_string_ptr_def quoted_def Let_def)
qed

section \<open>Integers\<close>

definition fp_ok :: "'d fp \<Rightarrow> bool" where
  "fp_ok F \<longleftrightarrow>
     fp_of_int F 0 = fp_zero F
     \<and> (\<forall>a d. 0 \<le> a \<and> 0 \<le> d \<and> d \<le> 9 \<and> 10 * a + d \<le> 2 ^ 31
          \<longrightarrow> fp_digit F (fp_of_int F a) d = fp_of_int F (10 * a + d))
     \<and> (\<forall>a. 0 \<le> a \<and> a \<le> 2 ^ 31 \<longrightarrow> fp_scale F 1 (fp_of_int F a) 0 = fp_of_int F a)
     \<and> (\<forall>a. 0 < a \<and> a \<le> 2 ^ 31 \<longrightarrow> fp_scale F (-1) (fp_of_int F a) 0 = fp_of_int F (- a))
     \<and> (\<forall>k. in_int k \<longrightarrow> fp_to_int F (fp_of_int F k) = k \<and> fp_is_int F k (fp_of_int F k)
          \<and> (fp_is_zero F (fp_of_int F k) \<longleftrightarrow> k = 0))"

lemma fp_okD:
  assumes "fp_ok F"
  shows "fp_of_int F 0 = fp_zero F"
    and "0 \<le> a \<Longrightarrow> a \<le> 2 ^ 31 \<Longrightarrow> fp_scale F 1 (fp_of_int F a) 0 = fp_of_int F a"
  using assms unfolding fp_ok_def by blast+

text \<open>A text after which a number ends.\<close>

definition num_end :: "string \<Rightarrow> bool" where
  "num_end s \<longleftrightarrow> (case s of [] \<Rightarrow> True
     | c # r \<Rightarrow> \<not> is_digit c \<and> c \<noteq> CHR ''e'' \<and> c \<noteq> CHR ''E'' \<and> c \<noteq> CHR ''.'')"

lemma num_digits_end: "num_end s \<Longrightarrow> num_digits F n s = (n, 0, s)"
  by (cases s) (auto simp: num_end_def)

lemma digit_chars: "d < 10 \<Longrightarrow> is_digit (char_of (48 + d)) \<and> digit_val (char_of (48 + d)) = int d"
  by (simp add: is_digit_def digit_val_def code_char_of)

fun digits_val :: "int \<Rightarrow> string \<Rightarrow> int" where
  "digits_val a [] = a"
| "digits_val a (c # s) = digits_val (10 * a + digit_val c) s"

lemma digits_val_append: "digits_val a (s @ t) = digits_val (digits_val a s) t"
  by (induction s arbitrary: a) auto

lemma show_nat_digits: "list_all is_digit (show_nat n) \<and> show_nat n \<noteq> [] \<and> digits_val 0 (show_nat n) = int n"
proof (induction n rule: show_nat.induct)
  case (1 n)
  show ?case
  proof (cases "n < 10")
    case True
    then show ?thesis using digit_chars [of n] by (simp add: show_nat.simps [of n])
  next
    case False
    have "int (n mod 10) + 10 * int (n div 10) = int n"
      by (metis mod_mult_div_eq of_nat_add of_nat_mult of_nat_numeral)
    then show ?thesis using False 1 digit_chars [of "n mod 10"]
      by (simp add: show_nat.simps [of n] digits_val_append)
  qed
qed

lemma show_nat_hd: "0 < n \<Longrightarrow> hd (show_nat n) \<noteq> CHR ''0''"
proof (induction n rule: show_nat.induct)
  case (1 n)
  show ?case
  proof (cases "n < 10")
    case True
    have "code (char_of (48 + n)) \<noteq> code (CHR ''0'')" using True 1 by (simp add: code_char_of code_def)
    then show ?thesis using True by (auto simp: show_nat.simps [of n])
  next
    case False
    then have "0 < n div 10" by simp
    then show ?thesis using False 1 show_nat_digits [of "n div 10"]
      by (simp add: show_nat.simps [of n] hd_append)
  qed
qed

lemma digits_val_mono: "list_all is_digit s \<Longrightarrow> 0 \<le> a \<Longrightarrow> a \<le> digits_val a s"
proof (induction s arbitrary: a)
  case (Cons c s)
  then have "0 \<le> digit_val c" by (simp add: is_digit_def digit_val_def)
  then have "10 * a + digit_val c \<le> digits_val (10 * a + digit_val c) s" using Cons by simp
  then have "a \<le> digits_val (10 * a + digit_val c) s"
    using Cons.prems(2) \<open>0 \<le> digit_val c\<close> by linarith
  then show ?case by simp
qed simp

lemma num_digits_val:
  assumes F: "fp_ok F"
  shows "list_all is_digit s \<Longrightarrow> 0 \<le> a \<Longrightarrow> digits_val a s \<le> 2 ^ 31 \<Longrightarrow> num_end rest \<Longrightarrow>
    num_digits F (fp_of_int F a) (s @ rest) = (fp_of_int F (digits_val a s), length s, rest)"
proof (induction s arbitrary: a)
  case Nil
  then show ?case by (simp add: num_digits_end)
next
  case (Cons c s)
  have d: "0 \<le> digit_val c" "digit_val c \<le> 9" using Cons.prems by (auto simp: is_digit_def digit_val_def)
  have b: "10 * a + digit_val c \<le> 2 ^ 31"
    using digits_val_mono [of s "10 * a + digit_val c"] Cons.prems d by simp
  then have "fp_digit F (fp_of_int F a) (digit_val c) = fp_of_int F (10 * a + digit_val c)"
    using F d Cons.prems by (simp add: fp_ok_def)
  then show ?case using Cons d by simp
qed

lemma parse_exponent_end: "num_end s \<Longrightarrow> parse_exponent s = Some (0, s)"
  by (cases s) (auto simp: parse_exponent_def num_end_def)

lemma num_frac_end: "num_end s \<Longrightarrow> num_frac F n s = (n, 0, s)"
  by (auto simp: num_frac_def num_end_def split: list.splits)

lemma num_int_end: "num_end s \<Longrightarrow> num_int F s = (fp_zero F, s)"
  by (auto simp: num_int_def num_end_def split: list.splits)

lemma parse_number_pos:
  assumes F: "fp_ok F" and k: "0 < k" "k \<le> 2 ^ 31" and e: "num_end rest"
    and sg: "sg = 1 \<or> sg = -1" and s: "s = (if sg = 1 then [] else ''-'')"
  shows "parse_number F (s @ show_nat k @ rest) =
    (let n = fp_scale F sg (fp_of_int F (int k)) 0
     in Some (Inr (Item cJSON_Number None (fp_to_int F n) n None [], rest)))"
proof -
  obtain c t where ct: "show_nat k = c # t" using show_nat_digits [of k] by (cases "show_nat k") auto
  have c: "is_digit c" "c \<noteq> CHR ''0''" "c \<noteq> CHR ''-''"
    using show_nat_digits [of k] show_nat_hd [OF k(1)] ct by (auto simp: is_digit_def code_def)
  have "num_digits F (fp_of_int F 0) (show_nat k @ rest) = (fp_of_int F (int k), length (show_nat k), rest)"
    using num_digits_val [OF F, of "show_nat k" 0 rest] show_nat_digits [of k] k e by auto
  moreover have "fp_of_int F 0 = fp_zero F" using F by (simp add: fp_ok_def)
  ultimately have nd: "num_digits F (fp_zero F) (c # t @ rest)
      = (fp_of_int F (int k), length (show_nat k), rest)"
    by (simp only: ct append_Cons)
  show ?thesis
    using sg c nd s
    by (auto simp: parse_number_def num_sign_def num_zero_def num_int_def ct Let_def
        num_frac_end [OF e] parse_exponent_end [OF e] simp del: num_digits.simps)
qed

lemma parse_number_int:
  assumes F: "fp_ok F" and k: "in_int k" and e: "num_end rest"
  shows "parse_number F (show_int k @ rest) =
    Some (Inr (Item cJSON_Number None k (fp_of_int F k) None [], rest))"
proof -
  have to: "fp_to_int F (fp_of_int F k) = k" using F k by (simp add: fp_ok_def)
  consider "k = 0" | "0 < k" | "k < 0" by linarith
  then show ?thesis
  proof cases
    case 1
    have z: "show_int 0 = ''0''" by (simp add: show_int_def show_nat.simps char_code_iff code_char_of) (simp add: code_def)
    have zero: "fp_of_int F 0 = fp_zero F" using F by (rule fp_okD)
    have "fp_scale F 1 (fp_of_int F 0) 0 = fp_of_int F 0" using F by (rule fp_okD) simp_all
    then have "fp_scale F 1 (fp_zero F) 0 = fp_zero F" by (simp only: zero)
    then show ?thesis
      using 1 to zero
      by (simp add: z parse_number_def num_sign_def num_zero_def num_frac_end [OF e] num_int_end [OF e]
          parse_exponent_end [OF e])
  next
    case 2
    have "fp_scale F 1 (fp_of_int F (int (nat k))) 0 = fp_of_int F k"
      using F 2 k by (simp add: fp_ok_def in_int_iff)
    then show ?thesis
      using parse_number_pos [OF F _ _ e, of "nat k" 1] 2 k to
      by (simp add: show_int_def in_int_iff)
  next
    case 3
    have "fp_scale F (-1) (fp_of_int F (int (nat (- k)))) 0 = fp_of_int F k"
      using F 3 k by (simp add: fp_ok_def in_int_iff)
    then show ?thesis
      using parse_number_pos [OF F _ _ e, of "nat (- k)" "-1"] 3 k to
      by (simp add: show_int_def in_int_iff)
  qed
qed

section \<open>Trees\<close>

text \<open>The trees the parser makes: each type with the fields its branch fills in, no NUL in a
  string, numbers that are integers of type \<open>int\<close>, names on the children of objects only.\<close>

fun json_ok :: "'d fp \<Rightarrow> 'd cJSON \<Rightarrow> bool" where
  "json_ok F (Item ty vs vi vd nm cs) =
     (case ty of
        cJSON_NULL \<Rightarrow> vs = None \<and> vi = 0 \<and> vd = fp_zero F \<and> cs = []
      | cJSON_False \<Rightarrow> vs = None \<and> vi = 0 \<and> vd = fp_zero F \<and> cs = []
      | cJSON_True \<Rightarrow> vs = None \<and> vi = 1 \<and> vd = fp_zero F \<and> cs = []
      | cJSON_Number \<Rightarrow> vs = None \<and> in_int vi \<and> vd = fp_of_int F vi \<and> cs = []
      | cJSON_String \<Rightarrow> (case vs of None \<Rightarrow> False | Some s \<Rightarrow> no_nul s) \<and> vi = 0 \<and> vd = fp_zero F \<and> cs = []
      | cJSON_Array \<Rightarrow> vs = None \<and> vi = 0 \<and> vd = fp_zero F
          \<and> list_all (\<lambda>c. c_string c = None \<and> json_ok F c) cs
      | cJSON_Object \<Rightarrow> vs = None \<and> vi = 0 \<and> vd = fp_zero F
          \<and> list_all (\<lambda>c. (case c_string c of None \<Rightarrow> False | Some s \<Rightarrow> no_nul s) \<and> json_ok F c) cs)"

text \<open>The fuel the parser uses on the text of a tree.\<close>

fun need :: "'d cJSON \<Rightarrow> nat" and needs :: "'d cJSON list \<Rightarrow> nat" where
  "need (Item ty vs vi vd nm cs) = Suc (needs cs)"
| "needs [] = 0"
| "needs (c # cs) = Suc (max (need c) (needs cs))"

definition reads :: "'d fp \<Rightarrow> string \<Rightarrow> 'd cJSON \<Rightarrow> bool" where
  "reads F e c \<longleftrightarrow> e \<noteq> [] \<and> 32 < code (hd e) \<and> hd e \<noteq> CHR '']'' \<and> need c \<le> length e
     \<and> (\<forall>fuel rest. need c \<le> fuel \<longrightarrow> (c_type c = cJSON_Number \<longrightarrow> num_end rest)
          \<longrightarrow> parse_value fuel F (e @ rest) = Some (Inr (set_string None c, rest)))"

definition blank :: "string \<Rightarrow> bool" where
  "blank w \<longleftrightarrow> list_all (\<lambda>c. code c \<le> 32) w"

lemma blank_simps [simp]: "blank []" "blank (v @ w) \<longleftrightarrow> blank v \<and> blank w" "blank (tabs n)" "blank (nl fmt)"
  by (auto simp: blank_def tabs_def nl_def code_def list_all_iff)

lemma skip_skip [simp]: "skip (skip s) = skip s"
  by (simp add: skip_def)

lemma skip_blank: "blank w \<Longrightarrow> skip (w @ s) = skip s"
  by (induction w) (auto simp: blank_def skip_def)

lemma skip_solid: "e \<noteq> [] \<Longrightarrow> 32 < code (hd e) \<Longrightarrow> skip (e @ s) = e @ s"
  by (cases e) (auto simp: skip_def)

lemma skip_Cons: "32 < code c \<Longrightarrow> skip (c # s) = c # s"
  by (simp add: skip_def)

lemma parse_skip [simp]:
  "parse_elements fuel F (skip s) = parse_elements fuel F s"
  "parse_members fuel F (skip s) = parse_members fuel F s"
  by (cases fuel; simp)+

lemma num_end_blank: "code c \<le> 32 \<Longrightarrow> num_end (c # s)"
  by (auto simp: num_end_def is_digit_def code_def)

lemma num_end_intros:
  "num_end (CHR '','' # s)" "num_end (CHR '']'' # s)" "num_end (CHR ''}'' # s)" "num_end (CHR 0x0A # s)"
  by (auto simp: num_end_def is_digit_def code_def)

section \<open>The printed text\<close>

text \<open>The printer's output without its buffer bounds, which always hold.\<close>

lemma print_array_text: "es \<noteq> [] \<Longrightarrow> print_array fmt es = Some (CHR ''['' # join_entries fmt es @ '']'')"
proof -
  have "length (join_entries fmt es) \<le> sum_list (map (\<lambda>e. length e + 2 + (if fmt then 1 else 0)) es)"
    by (induction fmt es rule: join_entries.induct) auto
  then show "es \<noteq> [] \<Longrightarrow> ?thesis" by (simp add: print_array_def Let_def)
qed

lemma join_members_length:
  "length (join_members depth fmt es)
     \<le> sum_list (map (\<lambda>(n, e). length e + length n + 2 + (if fmt then 2 + depth else 0)) es)"
  by (induction depth fmt es rule: join_members.induct) (auto simp: tabs_def nl_def)

lemma print_object_text:
  "es \<noteq> [] \<Longrightarrow> print_object depth fmt es = Some (CHR ''{'' # nl fmt @ join_members (depth + 1) fmt es
      @ (if fmt then tabs depth else []) @ ''}'')"
  using join_members_length [of "depth + 1" fmt es]
  by (auto simp: print_object_def Let_def tabs_def nl_def)

lemma print_object_empty:
  "print_object depth fmt [] = Some (CHR ''{'' # (if fmt then CHR 0x0A # tabs (depth - 1) else []) @ ''}'')"
  by (auto simp: print_object_def Let_def tabs_def nl_def)

lemma join_entries_needs:
  "list_all2 (reads F) es cs \<Longrightarrow> cs \<noteq> [] \<Longrightarrow> needs cs \<le> length (join_entries fmt es) + 1"
proof (induction es cs rule: list_all2_induct)
  case (Cons e es c cs)
  then show ?case by (cases es; cases cs) (auto simp: reads_def)
qed simp

definition reads_member :: "'d fp \<Rightarrow> string \<times> string \<Rightarrow> 'd cJSON \<Rightarrow> bool" where
  "reads_member F p c \<longleftrightarrow> reads F (snd p) c
     \<and> (\<exists>nm. c_string c = Some nm \<and> no_nul nm \<and> fst p = quoted nm)"

lemma join_members_needs:
  "list_all2 (reads_member F) es cs \<Longrightarrow> needs cs \<le> length (join_members depth fmt es)"
proof (induction es cs rule: list_all2_induct)
  case (Cons p es c cs)
  then show ?case by (cases p) (auto simp: reads_def reads_member_def quoted_def)
qed simp

lemma parse_elements_join:
  "list_all2 (reads F) es cs \<Longrightarrow> cs \<noteq> [] \<Longrightarrow> needs cs \<le> fuel \<Longrightarrow>
   parse_elements fuel F (join_entries fmt es @ CHR '']'' # rest) = Some (Inr (map (set_string None) cs, rest))"
proof (induction es cs arbitrary: fuel rule: list_all2_induct)
  case (Cons e es c cs)
  obtain fuel' where f: "fuel = Suc fuel'" using Cons.prems by (cases fuel) auto
  have e: "e \<noteq> []" "32 < code (hd e)" using Cons.hyps by (auto simp: reads_def)
  have v: "parse_value fuel' F (e @ r) = Some (Inr (set_string None c, r))" if "num_end r" for r
    using Cons.hyps Cons.prems that f by (auto simp: reads_def)
  show ?case
  proof (cases es)
    case Nil
    then have "cs = []" using Cons.hyps by simp
    then show ?thesis using v e f Nil by (simp add: skip_solid skip_Cons num_end_intros code_def)
  next
    case (Cons e2 es2)
    define t where "t = (if fmt then '' '' else []) @ join_entries fmt es @ CHR '']'' # rest"
    have j: "join_entries fmt (e # es) @ CHR '']'' # rest = e @ CHR '','' # t"
      using Cons by (simp add: t_def)
    have t: "skip t = skip (join_entries fmt es @ CHR '']'' # rest)"
      unfolding t_def by (rule skip_blank) (simp add: blank_def code_def)
    have "cs \<noteq> []" using Cons.hyps Cons by auto
    then have "parse_elements fuel' F (join_entries fmt es @ CHR '']'' # rest)
        = Some (Inr (map (set_string None) cs, rest))"
      using Cons.IH [of fuel'] Cons.prems f by simp
    then have "parse_elements fuel' F t = Some (Inr (map (set_string None) cs, rest))"
      by (metis parse_skip(1) t)
    then show ?thesis unfolding j f
      using v [of "CHR '','' # t"] e by (simp add: skip_solid skip_Cons num_end_intros code_def)
  qed
qed simp

lemma parse_members_join:
  "list_all2 (reads_member F) es cs \<Longrightarrow> blank w \<Longrightarrow> cs \<noteq> [] \<Longrightarrow> needs cs \<le> fuel \<Longrightarrow>
   parse_members fuel F (join_members depth fmt es @ w @ CHR ''}'' # rest) = Some (Inr (cs, rest))"
proof (induction cs arbitrary: es fuel)
  case (Cons c cs)
  from Cons.prems(1) obtain p es' where p: "es = p # es'" "reads_member F p c"
    and es': "list_all2 (reads_member F) es' cs"
    unfolding list_all2_Cons2 by blast
  obtain nm where c: "reads F (snd p) c" "c_string c = Some nm" "no_nul nm" and q: "fst p = quoted nm"
    using p(2) unfolding reads_member_def by blast
  define e where "e = snd p"
  have es: "es = (quoted nm, e) # es'" using p(1) q unfolding e_def by (cases p) simp
  note c = c [folded e_def]
  obtain fuel' where f: "fuel = Suc fuel'" using Cons.prems by (cases fuel) auto
  have e: "e \<noteq> []" "32 < code (hd e)" using c by (auto simp: reads_def)
  have v: "parse_value fuel' F (e @ r) = Some (Inr (set_string None c, r))" if "num_end r" for r
    using c Cons.prems that f by (auto simp: reads_def)
  have named: "set_string (Some nm) (set_string None c) = c" using c by (cases c) (simp add: set_string_def)
  define u where "u = (if es' \<noteq> [] then '','' else []) @ nl fmt @ join_members depth fmt es' @ w @ CHR ''}'' # rest"
  have j: "join_members depth fmt es @ w @ CHR ''}'' # rest
      = (if fmt then tabs depth else []) @ quoted nm @ CHR '':'' # (if fmt then tabs 1 else []) @ e @ u"
    by (simp add: es u_def)
  have s1: "skip (join_members depth fmt es @ w @ CHR ''}'' # rest)
      = quoted nm @ CHR '':'' # (if fmt then tabs 1 else []) @ e @ u"
    unfolding j by (subst skip_blank) (simp_all add: skip_solid quoted_def code_def skip_Cons)
  have s2: "skip ((if fmt then tabs 1 else []) @ e @ u) = e @ u"
    by (subst skip_blank) (simp_all add: skip_solid e)
  have ne: "num_end u"
    using num_end_intros Cons.prems(2) es'
    by (cases w; cases fmt) (auto simp: u_def nl_def blank_def intro: num_end_blank)
  have rest: "parse_members fuel' F (nl fmt @ join_members depth fmt es' @ w @ CHR ''}'' # rest)
      = Some (Inr (cs, rest))" if "es' \<noteq> []"
  proof -
    have "cs \<noteq> []" using es' that by auto
    then have "parse_members fuel' F (join_members depth fmt es' @ w @ CHR ''}'' # rest) = Some (Inr (cs, rest))"
      using Cons.IH [OF es' Cons.prems(2)] Cons.prems f by simp
    then show ?thesis by (metis parse_skip(2) skip_blank blank_simps(4))
  qed
  have ps: "parse_string (skip (join_members depth fmt es @ w @ CHR ''}'' # rest))
      = Some (Inr (nm, CHR '':'' # (if fmt then tabs 1 else []) @ e @ u))"
    unfolding s1 by (rule parse_string_quoted) (rule c)
  have pv: "parse_value fuel' F (skip ((if fmt then tabs 1 else []) @ e @ u)) = Some (Inr (set_string None c, u))"
    unfolding s2 by (rule v [OF ne])
  have colon: "skip (CHR '':'' # s) = CHR '':'' # s" "skip (CHR '','' # s) = CHR '','' # s"
      "skip (CHR ''}'' # s) = CHR ''}'' # s" for s
    by (simp_all add: skip_Cons code_def)
  show ?case
  proof (cases "es' = []")
    case True
    then have "cs = []" using es' by simp
    moreover have "skip u = CHR ''}'' # rest"
      using True Cons.prems(2) by (simp add: u_def skip_blank colon)
    ultimately show ?thesis by (simp add: f ps pv colon named)
  next
    case False
    then have "skip u = CHR '','' # nl fmt @ join_members depth fmt es' @ w @ CHR ''}'' # rest"
      by (simp add: u_def colon)
    then show ?thesis by (simp add: f ps pv colon named rest [OF False])
  qed
qed simp

lemma print_values_list:
  "(\<And>c. c \<in> set cs \<Longrightarrow> \<exists>e. print_value F depth fmt c = Some e \<and> reads F e c) \<Longrightarrow>
   \<exists>es. print_values F depth fmt cs = Some es \<and> list_all2 (reads F) es cs"
proof (induction cs)
  case (Cons c cs)
  obtain e where "print_value F depth fmt c = Some e" "reads F e c" using Cons.prems by auto
  moreover obtain es where "print_values F depth fmt cs = Some es" "list_all2 (reads F) es cs"
    using Cons by auto
  ultimately show ?case by simp
qed simp

lemma print_members_list:
  "(\<And>c. c \<in> set cs \<Longrightarrow> \<exists>e. print_value F depth fmt c = Some e \<and> reads F e c) \<Longrightarrow>
   (\<And>c. c \<in> set cs \<Longrightarrow> \<exists>nm. c_string c = Some nm \<and> no_nul nm) \<Longrightarrow>
   \<exists>es. print_members F depth fmt cs = Some es \<and> list_all2 (reads_member F) es cs"
proof (induction cs)
  case (Cons c cs)
  obtain e where e: "print_value F depth fmt c = Some e" "reads F e c" using Cons.prems(1) by auto
  obtain nm where nm: "c_string c = Some nm" "no_nul nm" using Cons.prems(2) by auto
  obtain es where "print_members F depth fmt cs = Some es" "list_all2 (reads_member F) es cs"
    using Cons by auto
  moreover have "reads_member F (quoted nm, e) c" using e nm by (simp add: reads_member_def)
  ultimately show ?case using e nm by (simp add: print_string_ptr_quoted)
qed simp

lemma reads_number:
  assumes F: "fp_ok F" and k: "in_int k"
  shows "reads F (show_int k) (Item cJSON_Number None k (fp_of_int F k) nm [])"
proof -
  have ne: "show_int k \<noteq> []" using show_nat_digits [of "nat k"] by (simp add: show_int_def)
  then obtain c t where c1: "show_int k = c # t" by (cases "show_int k") auto
  have "c = CHR ''-'' \<or> is_digit c"
    using c1 show_nat_digits [of "nat k"] by (auto simp: show_int_def split: if_splits)
  note c = c1 this
  have p: "parse_number F (c # t @ r) = Some (Inr (Item cJSON_Number None k (fp_of_int F k) None [], r))"
    if "num_end r" for r
    using parse_number_int [OF F k that] by (simp add: c(1))
  have h: "c \<noteq> CHR ''n''" "c \<noteq> CHR ''f''" "c \<noteq> CHR ''t''" "c \<noteq> CHR ''\"''" "32 < code c" "c \<noteq> CHR '']''"
    using c(2) by (auto simp: is_digit_def code_def)
  have "parse_value fuel F (c # t @ r) = parse_number F (c # t @ r)" if "0 < fuel" for fuel r
    using that c(2) h by (cases fuel) auto
  then show ?thesis using p h by (simp add: reads_def c(1) set_string_def)
qed

lemma reads_string:
  assumes "no_nul s"
  shows "reads F (quoted s) (Item cJSON_String (Some s) 0 (fp_zero F) nm [])"
proof -
  have "parse_value fuel F (quoted s @ r) = Some (Inr (cJSON_CreateString F s, r))" if "0 < fuel" for fuel r
    using that parse_string_quoted [OF assms, of r] by (cases fuel) (simp_all add: quoted_def)
  then show ?thesis by (simp add: reads_def set_string_def cJSON_CreateString_def quoted_def code_def)
qed

lemma reads_words:
  "reads F ''null'' (Item cJSON_NULL None 0 (fp_zero F) nm [])"
  "reads F ''false'' (Item cJSON_False None 0 (fp_zero F) nm [])"
  "reads F ''true'' (Item cJSON_True None 1 (fp_zero F) nm [])"
proof -
  have "parse_value fuel F (''null'' @ r) = Some (Inr (Item cJSON_NULL None 0 (fp_zero F) None [], r))"
    "parse_value fuel F (''false'' @ r) = Some (Inr (Item cJSON_False None 0 (fp_zero F) None [], r))"
    "parse_value fuel F (''true'' @ r) = Some (Inr (Item cJSON_True None 1 (fp_zero F) None [], r))"
    if "0 < fuel" for fuel r
    using that by (cases fuel; simp add: cJSON_CreateNull_def cJSON_CreateFalse_def cJSON_New_Item_def set_type_def)+
  then show
    "reads F ''null'' (Item cJSON_NULL None 0 (fp_zero F) nm [])"
    "reads F ''false'' (Item cJSON_False None 0 (fp_zero F) nm [])"
    "reads F ''true'' (Item cJSON_True None 1 (fp_zero F) nm [])"
    by (simp_all add: reads_def set_string_def code_def)
qed

lemma join_entries_head:
  assumes "list_all2 (reads F) es cs" "es \<noteq> []"
  shows "\<exists>c t. join_entries fmt es = c # t \<and> 32 < code c \<and> c \<noteq> CHR '']''"
proof -
  obtain e es' where es: "es = e # es'" using assms(2) by (cases es) auto
  then have "e \<noteq> []" "32 < code (hd e)" "hd e \<noteq> CHR '']''"
    using assms(1) by (auto simp: reads_def list_all2_Cons1)
  then show ?thesis unfolding es by (cases e; cases es') auto
qed

lemma reads_array:
  assumes "list_all2 (reads F) es cs" "list_all (\<lambda>c. c_string c = None) cs"
  shows "\<exists>e. print_array fmt es = Some e \<and> reads F e (Item cJSON_Array None 0 (fp_zero F) nm cs)"
proof (cases "cs = []")
  case True
  have "parse_value fuel F (''[]'' @ r) = Some (Inr (cJSON_CreateArray F, r))" if "0 < fuel" for fuel r
    using that by (cases fuel) (simp_all add: skip_Cons code_def is_digit_def)
  then show ?thesis using True assms
    by (simp add: print_array_def reads_def set_string_def cJSON_CreateArray_def cJSON_New_Item_def
        set_type_def code_def)
next
  case False
  define j where "j = join_entries fmt es"
  have es: "es \<noteq> []" using assms False by auto
  have n: "needs cs \<le> length j + 1" unfolding j_def by (rule join_entries_needs [OF assms(1) False])
  have un: "map (set_string None) cs = cs"
    using assms(2) by (induction cs) (auto simp: set_string_def, metis cJSON.collapse)
  have pe: "parse_elements fuel F (j @ CHR '']'' # r) = Some (Inr (cs, r))" if "needs cs \<le> fuel" for fuel r
    using parse_elements_join [OF assms(1) False that] un by (simp add: j_def)
  obtain c t where c: "j = c # t" "32 < code c" "c \<noteq> CHR '']''"
    using join_entries_head [OF assms(1) es] unfolding j_def by blast
  have "parse_value fuel F ((CHR ''['' # j @ '']'') @ r) = Some (Inr (set_child cs (cJSON_CreateArray F), r))"
    if "Suc (needs cs) \<le> fuel" for fuel r
    using that c pe [of "fuel - 1" r] by (cases fuel) (simp_all add: skip_Cons is_digit_def code_def)
  then show ?thesis using es n print_array_text [OF es, of fmt]
    by (simp add: reads_def j_def [symmetric] set_string_def cJSON_CreateArray_def cJSON_New_Item_def
        set_type_def set_child_def code_def)
qed

lemma reads_object:
  assumes "list_all2 (reads_member F) es cs"
  shows "\<exists>e. print_object depth fmt es = Some e \<and> reads F e (Item cJSON_Object None 0 (fp_zero F) nm cs)"
proof (cases "cs = []")
  case True
  define w where "w = (if fmt then CHR 0x0A # tabs (depth - 1) else [])"
  have w: "skip (w @ CHR ''}'' # r) = CHR ''}'' # r" for r
    by (subst skip_blank) (auto simp: w_def blank_def tabs_def code_def skip_Cons list_all_iff)
  have "parse_value fuel F ((CHR ''{'' # w @ ''}'') @ r) = Some (Inr (cJSON_CreateObject F, r))"
    if "0 < fuel" for fuel r
    using that by (cases fuel) (simp_all add: w is_digit_def code_def)
  then show ?thesis using True assms
    by (simp add: print_object_empty w_def [symmetric] reads_def set_string_def cJSON_CreateObject_def
        cJSON_New_Item_def set_type_def code_def)
next
  case False
  define j where "j = join_members (Suc depth) fmt es"
  define w where "w = (if fmt then tabs depth else [])"
  have es: "es \<noteq> []" using assms False by auto
  have n: "needs cs \<le> length j" unfolding j_def by (rule join_members_needs [OF assms(1)])
  have pm: "parse_members fuel F (skip (nl fmt @ j @ w @ CHR ''}'' # r)) = Some (Inr (cs, r))"
    if "needs cs \<le> fuel" for fuel r
  proof -
    have "blank w" by (simp add: w_def)
    then have "parse_members fuel F (j @ w @ CHR ''}'' # r) = Some (Inr (cs, r))"
      unfolding j_def by (rule parse_members_join [OF assms(1) _ False that])
    then show ?thesis by (metis parse_skip(2) skip_blank blank_simps(4))
  qed
  have q: "take 1 (skip (nl fmt @ j @ w @ CHR ''}'' # r)) = ''\"''" for r
  proof -
    obtain p es' where p: "es = p # es'" "reads_member F p (hd cs)"
      using assms es False by (cases es; cases cs) auto
    obtain nmm where nmm: "fst p = quoted nmm" using p(2) unfolding reads_member_def by blast
    have "j = (if fmt then tabs (depth + 1) else []) @ quoted nmm
        @ (CHR '':'' # (if fmt then tabs 1 else []) @ snd p @ (if es' \<noteq> [] then '','' else [])
           @ nl fmt @ join_members (depth + 1) fmt es')"
      unfolding j_def p(1) using nmm by (cases p) simp
    then show ?thesis by (simp add: skip_blank quoted_def skip_Cons code_def)
  qed
  have "parse_value fuel F ((CHR ''{'' # nl fmt @ j @ w @ ''}'') @ r)
      = Some (Inr (set_child cs (cJSON_CreateObject F), r))" if "Suc (needs cs) \<le> fuel" for fuel r
    using that q [of r] pm [of "fuel - 1" r] by (cases fuel) (simp_all add: is_digit_def code_def)
  then show ?thesis using n print_object_text [OF es, of depth fmt]
    by (simp add: reads_def j_def [symmetric] w_def [symmetric] set_string_def cJSON_CreateObject_def
        cJSON_New_Item_def set_type_def set_child_def code_def)
qed

lemma show_nat_length: "n < 10 ^ Suc k \<Longrightarrow> length (show_nat n) \<le> Suc k"
proof (induction k arbitrary: n)
  case 0
  then show ?case by (simp add: show_nat.simps [of n])
next
  case (Suc k)
  have "n div 10 < 10 ^ Suc k" using Suc.prems by (simp add: less_mult_imp_div_less mult.commute)
  then show ?case using Suc.IH [of "n div 10"] by (simp add: show_nat.simps [of n])
qed

lemma show_int_length: "in_int k \<Longrightarrow> length (show_int k) \<le> 11"
proof -
  assume "in_int k"
  then have "nat k < 10000000000" "nat (- k) < 10000000000" unfolding in_int_iff by linarith+
  then have "length (show_nat (nat k)) \<le> Suc 9" "length (show_nat (nat (- k))) \<le> Suc 9"
    by (intro show_nat_length; simp)+
  then show ?thesis by (simp add: show_int_def)
qed

lemma print_number_int:
  assumes "fp_ok F" "in_int k"
  shows "print_number F (Item ty vs k (fp_of_int F k) nm cs) = Some (show_int k)"
proof -
  have z: "show_int 0 = ''0''"
    by (simp add: show_int_def show_nat.simps char_code_iff code_char_of) (simp add: code_def)
  have "length (show_int k) \<le> 11" by (rule show_int_length [OF assms(2)])
  moreover have "fp_is_int F k (fp_of_int F k)" "fp_is_zero F (fp_of_int F k) \<longleftrightarrow> k = 0"
    using assms by (auto simp: fp_ok_def)
  ultimately show ?thesis using z by (simp add: print_number_def Let_def)
qed

text \<open>Every tree of the parser's form is printed, at every depth, and the parser reads the text.\<close>

lemma print_reads:
  assumes F: "fp_ok F"
  shows "json_ok F v \<Longrightarrow> \<exists>e. print_value F depth fmt v = Some e \<and> reads F e v"
proof (induction v arbitrary: depth)
  case (Item ty vs vi vd nm cs)
  have IH: "\<exists>e. print_value F d fmt c = Some e \<and> reads F e c" if "c \<in> set cs" "json_ok F c" for c d
    using Item.IH that by blast
  show ?case
  proof (cases ty)
    case cJSON_Number
    then show ?thesis using Item.prems reads_number [OF F] print_number_int [OF F] by simp
  next
    case cJSON_Array
    then have ok: "list_all (\<lambda>c. c_string c = None) cs" "\<And>c. c \<in> set cs \<Longrightarrow> json_ok F c"
      and fs: "vs = None" "vi = 0" "vd = fp_zero F"
      using Item.prems by (auto simp: list_all_iff)
    obtain es where es: "print_values F (depth + 1) fmt cs = Some es" "list_all2 (reads F) es cs"
      using print_values_list [of cs F "depth + 1" fmt] IH ok by blast
    then show ?thesis using reads_array [OF es(2) ok(1), of fmt nm] cJSON_Array fs by simp
  next
    case cJSON_Object
    then have ok: "\<And>c. c \<in> set cs \<Longrightarrow> json_ok F c" "\<And>c. c \<in> set cs \<Longrightarrow> \<exists>nm. c_string c = Some nm \<and> no_nul nm"
      and fs: "vs = None" "vi = 0" "vd = fp_zero F"
      using Item.prems by (auto simp: list_all_iff split: option.splits)
    obtain es where es: "print_members F (depth + 1) fmt cs = Some es" "list_all2 (reads_member F) es cs"
      using print_members_list [of cs F "depth + 1" fmt] IH ok by blast
    then show ?thesis using reads_object [OF es(2), of depth fmt nm] cJSON_Object fs by simp
  next
    case cJSON_String
    then show ?thesis using Item.prems reads_string
      by (auto simp: print_string_ptr_quoted split: option.splits)
  qed (use Item.prems reads_words in auto)
qed

text \<open>What follows the text of a value is not looked at, unless the value is a number.\<close>

lemma reads_parse_rest:
  assumes "reads F e v" "c_type v = cJSON_Number \<longrightarrow> num_end rest"
  shows "cJSON_Parse F (e @ rest) = Some (Some (set_string None v))"
proof -
  have "skip (e @ rest) = e @ rest" using assms skip_solid [of e rest] by (simp add: reads_def)
  moreover have "parse_value (2 * length (e @ rest) + 2) F (e @ rest) = Some (Inr (set_string None v, rest))"
  proof -
    have "need v \<le> length e" using assms(1) by (simp add: reads_def)
    then have "need v \<le> 2 * length (e @ rest) + 2" by simp
    then show ?thesis using assms unfolding reads_def by blast
  qed
  ultimately show ?thesis by (simp add: cJSON_Parse_def cJSON_ParseWithOpts_def)
qed

lemma reads_parse: "reads F e v \<Longrightarrow> cJSON_Parse F e = Some (Some (set_string None v))"
  using reads_parse_rest [of F e v "[]"] by (simp add: num_end_def)

text \<open>
  C18: Printing and parsing are inverse. For every tree of the parser's form (strings without NUL,
  integers of type \<open>int\<close>, named members), both \<open>cJSON_Print\<close> and \<open>cJSON_PrintUnformatted\<close> stay
  inside the buffers they size, and \<open>cJSON_Parse\<close> of either text gives the tree back (without the
  name its root had).
\<close>

theorem cJSON_Print_Parse:
  assumes "fp_ok F" "json_ok F v"
  shows "\<exists>t u. cJSON_Print F v = Some t \<and> cJSON_Parse F t = Some (Some (set_string None v))
    \<and> cJSON_PrintUnformatted F v = Some u \<and> cJSON_Parse F u = Some (Some (set_string None v))"
  using print_reads [OF assms, of 0 True] print_reads [OF assms, of 0 False] reads_parse
  unfolding cJSON_Print_def cJSON_PrintUnformatted_def by blast

text \<open>An arithmetic for concrete evaluation.\<close>

definition int_fp :: "int fp" where
  "int_fp = \<lparr>fp_zero = 0, fp_digit = (\<lambda>n d. 10 * n + d), fp_scale = (\<lambda>s n e. s * n * 10 ^ nat e),
     fp_of_int = (\<lambda>k. k), fp_to_int = (\<lambda>d. d), fp_is_zero = (\<lambda>d. d = 0), fp_is_int = (\<lambda>k d. k = d),
     fp_text = show_int\<rparr>"

lemma int_fp_ok: "fp_ok int_fp"
  by (simp add: fp_ok_def int_fp_def)

definition demo_item :: "int cJSON" where
  "demo_item = Item cJSON_Object None 0 0 None
     [Item cJSON_Number None (-12) (-12) (Some ''n'') [],
      Item cJSON_Array None 0 0 (Some ''a'')
        [Item cJSON_String (Some [CHR ''x'', CHR 0x0A, CHR ''\"'', CHR 0x01]) 0 0 None [],
         Item cJSON_True None 1 0 None [], Item cJSON_Object None 0 0 None []]]"

lemma cJSON_Print_Parse_witness:
  "\<exists>t u. cJSON_Print int_fp demo_item = Some t \<and> cJSON_Parse int_fp t = Some (Some (set_string None demo_item))
    \<and> cJSON_PrintUnformatted int_fp demo_item = Some u
    \<and> cJSON_Parse int_fp u = Some (Some (set_string None demo_item))"
proof (rule cJSON_Print_Parse)
  show "fp_ok int_fp" by (rule int_fp_ok)
  show "json_ok int_fp demo_item"
    by (simp add: demo_item_def int_fp_def no_nul_def code_def in_int_iff)
qed

section \<open>Objects\<close>

lemma find_append: "find P (xs @ ys) = (case find P xs of None \<Rightarrow> find P ys | r \<Rightarrow> r)"
  by (induction xs) auto

lemma name_index_find:
  "find (\<lambda>c. cJSON_strcasecmp_eq (c_string c) (Some nm)) cs
     = (if name_index nm cs < length cs then Some (cs ! name_index nm cs) else None)"
  by (induction cs) auto

text \<open>
  Looking up a member of an object. The name is compared without regard to case and the first
  member wins: an added member is found exactly when no earlier member has the name, and replacing a
  name that is there makes the lookup give the new item, under the new spelling.
\<close>

theorem cJSON_GetObjectItem_add_replace:
  "cJSON_GetObjectItem (cJSON_AddItemToObject obj nm it) nm2
     = (case cJSON_GetObjectItem obj nm2 of
          Some c \<Rightarrow> Some c
        | None \<Rightarrow> if same_nocase nm nm2 then Some (set_string (Some nm) it) else None)
   \<and> cJSON_GetObjectItem (cJSON_ReplaceItemInObject obj nm it) nm
     = (case cJSON_GetObjectItem obj nm of
          Some c \<Rightarrow> Some (set_string (Some nm) it)
        | None \<Rightarrow> None)"
proof
  show "cJSON_GetObjectItem (cJSON_AddItemToObject obj nm it) nm2
     = (case cJSON_GetObjectItem obj nm2 of
          Some c \<Rightarrow> Some c
        | None \<Rightarrow> if same_nocase nm nm2 then Some (set_string (Some nm) it) else None)"
    by (simp add: cJSON_GetObjectItem_def cJSON_AddItemToObject_def cJSON_AddItemToArray_def set_child_def
        set_string_def find_append cJSON_strcasecmp_eq_def split: option.split)
  have refl: "same_nocase nm nm" by (induction nm) auto
  have upd: "find (\<lambda>c. cJSON_strcasecmp_eq (c_string c) (Some nm)) (cs[name_index nm cs := set_string (Some nm) it])
      = Some (set_string (Some nm) it)" if "name_index nm cs < length cs" for cs
    using that by (induction cs) (auto simp: set_string_def cJSON_strcasecmp_eq_def refl)
  show "cJSON_GetObjectItem (cJSON_ReplaceItemInObject obj nm it) nm
     = (case cJSON_GetObjectItem obj nm of
          Some c \<Rightarrow> Some (set_string (Some nm) it) | None \<Rightarrow> None)"
    using upd [of "c_child obj"] name_index_find [of nm "c_child obj"]
    by (auto simp: cJSON_GetObjectItem_def cJSON_ReplaceItemInObject_def cJSON_ReplaceItemInArray_def
        set_child_def Let_def)
qed

section \<open>Truncated escapes\<close>

lemma scan_len_some:
  "list_all (\<lambda>c. c \<noteq> CHR 0x5C) s \<Longrightarrow> scan_len s \<noteq> None"
  by (induction s) auto

lemma str_body_plain:
  "list_all (\<lambda>c. c \<noteq> CHR 0x5C \<and> c \<noteq> CHR ''\"'') s \<Longrightarrow>
   str_body len (s @ CHR 0x5C # CHR ''u'' # t) out = None \<or>
   str_body len (s @ CHR 0x5C # CHR ''u'' # t) out = str_body len (CHR 0x5C # CHR ''u'' # t) (out @ s)"
proof (induction s arbitrary: out)
  case (Cons c s)
  then show ?case
    using Cons.IH [of "out @ [c]"] by (auto simp: str_body.simps [of len "c # _"])
qed simp

text \<open>
  A \<open>\u\<close> escape with fewer than four characters before the end of the text makes
  \<open>parse_string\<close> move its pointer past the terminator, whatever precedes it in the literal: parsing
  a document a client can send is undefined.
\<close>

theorem parse_truncated_escape:
  assumes "list_all (\<lambda>c. c \<noteq> CHR 0x5C \<and> c \<noteq> CHR ''\"'') s" "length t \<le> 3"
  shows "cJSON_Parse F (CHR ''\"'' # s @ CHR 0x5C # CHR ''u'' # t) = None"
proof -
  have u: "parse_u (CHR ''u'' # t) = None \<or> (\<exists>w. parse_u (CHR ''u'' # t) = Some (w, []))"
    using assms(2) by (auto simp: parse_u_def advance_def Let_def)
  have "str_body len (CHR 0x5C # CHR ''u'' # t) out = None" for len out
    using u by (auto simp: str_body.simps [of len "CHR 0x5C # _"])
  then have "str_body len (s @ CHR 0x5C # CHR ''u'' # t) out = None" for len out
    using str_body_plain [OF assms(1), of len t out] by auto
  then have "parse_string (CHR ''\"'' # s @ CHR 0x5C # CHR ''u'' # t) = None"
    by (auto simp: parse_string_def split: bind_split)
  then show ?thesis
    by (simp add: cJSON_Parse_def cJSON_ParseWithOpts_def skip_Cons code_def)
qed

lemma parse_truncated_escape_witness: "cJSON_Parse int_fp (CHR ''\"'' # ''ab'' @ CHR 0x5C # CHR ''u'' # ''12\"'') = None"
  by (rule parse_truncated_escape) simp_all

end
