(* ===== verification/JsonFuel.thy ===== *)
theory JsonFuel
  imports JsonProofs
begin

text \<open>
  The parser stops: every successful call consumes its text, so the fuel that \<open>cJSON_ParseWithOpts\<close>
  gives it is never used up, and more fuel does not change the result.
\<close>

section \<open>Fuel\<close>

lemma skip_length: "length (skip s) \<le> length s"
  by (simp add: skip_def length_dropWhile_le)

lemma num_digits_length: "num_digits F n s = (m, k, r) \<Longrightarrow> length r + k = length s"
  by (induction F n s arbitrary: m k r rule: num_digits.induct) (auto split: if_splits prod.splits)

lemma exp_digits_length: "exp_digits n s = Some (m, r) \<Longrightarrow> length r \<le> length s"
  by (induction n s rule: exp_digits.induct) (auto split: if_splits)

lemma parse_exponent_length: "parse_exponent s = Some (m, r) \<Longrightarrow> length r \<le> length s"
  by (auto simp: parse_exponent_def dest!: exp_digits_length split: list.splits if_splits)

lemma str_body_length: "str_body len s out = Some (w, r) \<Longrightarrow> length r \<le> length s"
proof (induction s arbitrary: out rule: length_induct)
  case (1 s)
  have IH: "length r \<le> length t" if "length t < length s" "str_body len t out' = Some (w, r)" for t out'
    using 1 that by blast
  note run = "1.prems" [unfolded str_body.simps [of len s]]
  show ?case
  proof (cases s)
    case Nil
    then show ?thesis using run by (simp split: if_splits)
  next
    case (Cons c q)
    note run = run [unfolded Cons list.case]
    consider "c = CHR ''\"''" | "c \<noteq> CHR ''\"''" "c \<noteq> CHR 0x5C" | "c \<noteq> CHR ''\"''" "c = CHR 0x5C" by blast
    then show ?thesis
    proof cases
      case 1
      then show ?thesis using run Cons by (auto split: if_splits)
    next
      case 2
      then have "str_body len q (out @ [c]) = Some (w, r)" using run by (simp split: if_splits)
      then show ?thesis using IH [of q] Cons by force
    next
      case 3
      then obtain e q' where q: "q = e # q'" using run by (cases q) auto
      show ?thesis
      proof (cases "e = CHR ''u''")
        case True
        then obtain v t where u: "parse_u q = Some (v, t)" "t \<noteq> []" "str_body len (tl t) (out @ v) = Some (w, r)"
          using run 3 unfolding q by (auto split: option.splits if_splits)
        have "length t \<le> length q" by (rule parse_u_length [OF u(1)])
        then show ?thesis using IH [OF _ u(3)] Cons u(2) by (cases t) auto
      next
        case False
        then obtain out' where "str_body len q' out' = Some (w, r)"
          using run 3 unfolding q by (auto simp: Let_def split: if_splits)
        then show ?thesis using IH [of q'] Cons q by force
      qed
    qed
  qed
qed

lemma parse_string_length: "parse_string s = Some (Inr (w, r)) \<Longrightarrow> length r < length s"
  by (fastforce simp: parse_string_def split: list.splits if_splits bind_splits dest!: str_body_length)

text \<open>Minus and digit: a number consumes a character when it starts like one.\<close>

lemma num_length:
  "num_sign s = (sg, r) \<Longrightarrow> length r \<le> length s" "length (num_zero s) \<le> length s"
  "num_int F s = (n, r) \<Longrightarrow> length r \<le> length s" "num_frac F n s = (m, k, r) \<Longrightarrow> length r \<le> length s"
  by (auto simp: num_sign_def num_zero_def num_int_def num_frac_def dest!: num_digits_length
      split: list.splits if_splits prod.splits)

lemma num_start_length:
  assumes "num_sign (c # s) = (sg, q)" "num_int F (num_zero q) = (n, r)" "c = CHR ''-'' \<or> is_digit c"
  shows "length r \<le> length s"
proof (cases "c = CHR ''-''")
  case True
  then have "q = s" using assms(1) by (simp add: num_sign_def)
  then show ?thesis using num_length(2) [of s] num_length(3) [OF assms(2)] by simp
next
  case False
  then have "q = c # s" using assms(1) by (simp add: num_sign_def)
  then show ?thesis using False assms num_length(3) [OF assms(2)]
    by (cases "c = CHR ''0''") (auto simp: num_zero_def num_int_def dest!: num_digits_length split: prod.splits)
qed

lemma parse_number_length:
  assumes "parse_number F (c # s) = Some (Inr (v, r))" "c = CHR ''-'' \<or> is_digit c"
  shows "length r \<le> length s"
  using assms num_start_length [of c s _ _ F]
  by (fastforce simp: parse_number_def Let_def split: prod.splits bind_splits
      dest!: parse_exponent_length num_length(4))

definition consumes :: "('a presult) \<Rightarrow> string \<Rightarrow> bool" where
  "consumes x s \<longleftrightarrow> (\<forall>v q. x = Some (Inr (v, q)) \<longrightarrow> length q < length s)"

lemma consumes_simps [simp]:
  "consumes None s" "consumes (Some (Inl e)) s" "consumes (Some (Inr (v, q))) s \<longleftrightarrow> length q < length s"
  by (simp_all add: consumes_def)

lemma consumes_mono: "consumes x s \<Longrightarrow> length s \<le> length t \<Longrightarrow> consumes x t"
  unfolding consumes_def by fastforce

lemma consumes_if: "(P \<Longrightarrow> consumes x s) \<Longrightarrow> (\<not> P \<Longrightarrow> consumes y s) \<Longrightarrow> consumes (if P then x else y) s"
  by simp

lemma consumes_bind:
  assumes "consumes x s" "\<And>e. consumes (f (Inl e)) s" "\<And>v q. length q < length s \<Longrightarrow> consumes (f (Inr (v, q))) s"
  shows "consumes (x \<bind> f) s"
proof (cases x)
  case (Some y)
  then show ?thesis using assms by (cases y) (auto simp: consumes_def)
qed simp

lemma tl_skip_length: "length (tl (skip s)) \<le> length s"
  using skip_length [of s] by simp

lemma skip2: "length (skip (tl (skip s))) \<le> length s"
  using skip_length [of "tl (skip s)"] tl_skip_length [of s] by simp

lemma drop_word_length: "take n s = w \<Longrightarrow> length w = n \<Longrightarrow> 0 < n \<Longrightarrow> length (drop n s) < length s"
  by (metis diff_less length_drop length_greater_0_conv min.cobounded1 length_take list.size(3) not_less0 take_Nil)

lemma consumes_number: "c = CHR ''-'' \<or> is_digit c \<Longrightarrow> consumes (parse_number F (c # s)) (c # s)"
  using parse_number_length unfolding consumes_def by fastforce

lemma consumes_string: "consumes (parse_string s) s"
  using parse_string_length unfolding consumes_def by blast

lemma parse_consumes:
  "consumes (parse_value fuel F s) s \<and> consumes (parse_elements fuel F s) s \<and> consumes (parse_members fuel F s) s"
proof (induction fuel arbitrary: s)
  case (Suc fuel)
  have V: "consumes (parse_value fuel F s) t" and E: "consumes (parse_elements fuel F s) t"
    and M: "consumes (parse_members fuel F s) t" and S: "consumes (parse_string s) t"
    if "length s \<le> length t" for s t
    using Suc.IH consumes_string consumes_mono that by blast+
  have le: "length (skip r) \<le> Suc (length r)" for r using skip_length [of r] by simp
  have lt: "length (tl (skip r)) < Suc (length r)" for r using tl_skip_length [of r] by simp
  have "consumes (parse_value (Suc fuel) F s) s"
  proof (cases s)
    case (Cons c r)
    have null: "take 4 s = ''null'' \<Longrightarrow> length (drop 4 s) < length s"
      "take 4 s = ''true'' \<Longrightarrow> length (drop 4 s) < length s"
      "take 5 s = ''false'' \<Longrightarrow> length (drop 5 s) < length s"
      by - (erule drop_word_length, simp, simp)+
    show ?thesis
      unfolding parse_value.simps(2)
      apply (intro consumes_if)
      using null apply (simp only: consumes_simps)
      using null apply (simp only: consumes_simps)
      using null apply (simp only: consumes_simps)
      unfolding Cons list.case
      apply (intro consumes_if consumes_bind)
      by (simp_all add: S E M le lt lt [simplified] consumes_number)
  qed simp
  moreover have "consumes (parse_elements (Suc fuel) F s) s"
    unfolding parse_elements.simps(2)
    apply (rule consumes_bind [OF V [OF skip_length]])
     apply simp
    subgoal for v q
      unfolding sum.case prod.case Let_def
      using tl_skip_length [of q] skip2 [of q]
      by (intro consumes_if consumes_bind) (simp_all add: E)
    done
  moreover have "consumes (parse_members (Suc fuel) F s) s"
    unfolding parse_members.simps(2)
    apply (rule consumes_bind [OF S [OF skip_length]])
     apply simp
    subgoal for nm q
      unfolding sum.case prod.case Let_def
      apply (rule consumes_if)
       apply simp
       using skip_length [of q] apply simp
      apply (rule consumes_bind)
        apply (rule V)
      using skip2 [of q] apply simp
       apply simp
      subgoal for v r
        unfolding sum.case prod.case Let_def
        using tl_skip_length [of r] skip2 [of r]
        by (intro consumes_if consumes_bind) (simp_all add: M)
      done
    done
  ultimately show ?case by blast
qed (simp add: consumes_def)

lemma value_rest: "parse_value fuel F (skip s) = Some (Inr (v, q)) \<Longrightarrow> length q < length s"
  using parse_consumes [of fuel F "skip s"] skip_length [of s] unfolding consumes_def by fastforce

lemma string_rest: "parse_string (skip s) = Some (Inr (v, q)) \<Longrightarrow> length q < length s"
  using consumes_string [of "skip s"] skip_length [of s] unfolding consumes_def by fastforce

text \<open>More fuel than twice the length changes nothing.\<close>

lemma parse_fuel_Suc:
  "(2 * length s + 1 \<le> fuel \<longrightarrow> parse_value (Suc fuel) F s = parse_value fuel F s)
   \<and> (2 * length s + 2 \<le> fuel \<longrightarrow> parse_elements (Suc fuel) F s = parse_elements fuel F s)
   \<and> (2 * length s + 2 \<le> fuel \<longrightarrow> parse_members (Suc fuel) F s = parse_members fuel F s)"
proof (induction fuel arbitrary: s)
  case (Suc fuel)
  have V: "parse_value (Suc fuel) F s = parse_value fuel F s" if "2 * length s + 1 \<le> fuel" for s
    using Suc.IH that by blast
  have E: "parse_elements (Suc fuel) F s = parse_elements fuel F s" if "2 * length s + 2 \<le> fuel" for s
    using Suc.IH that by blast
  have M: "parse_members (Suc fuel) F s = parse_members fuel F s" if "2 * length s + 2 \<le> fuel" for s
    using Suc.IH that by blast
  have "parse_value (Suc (Suc fuel)) F s = parse_value (Suc fuel) F s" if "2 * length s + 1 \<le> Suc fuel"
  proof (cases s)
    case (Cons c r)
    have "2 * length (skip r) + 2 \<le> fuel" using that Cons skip_length [of r] by simp
    then show ?thesis by (simp only: parse_value.simps(2) Cons list.case E M)
  qed simp
  moreover have "parse_elements (Suc (Suc fuel)) F s = parse_elements (Suc fuel) F s"
    if l: "2 * length s + 2 \<le> Suc fuel"
  proof -
    have "parse_value (Suc fuel) F (skip s) = parse_value fuel F (skip s)"
      using l skip_length [of s] by (intro V) simp
    moreover have "parse_elements (Suc fuel) F (skip (tl (skip q))) = parse_elements fuel F (skip (tl (skip q)))"
      if "parse_value fuel F (skip s) = Some (Inr (v, q))" for v q
      using l value_rest [OF that] skip2 [of q] by (intro E) simp
    ultimately show ?thesis
      unfolding parse_elements.simps(2)
      by (cases "parse_value fuel F (skip s)") (auto simp: Let_def split: sum.split)
  qed
  moreover have "parse_members (Suc (Suc fuel)) F s = parse_members (Suc fuel) F s"
    if l: "2 * length s + 2 \<le> Suc fuel"
  proof -
    have V': "parse_value (Suc fuel) F (skip (tl (skip q))) = parse_value fuel F (skip (tl (skip q)))"
      if "parse_string (skip s) = Some (Inr (nm, q))" for nm q
      using l string_rest [OF that] skip2 [of q] by (intro V) simp
    have M': "parse_members (Suc fuel) F (skip (tl (skip r))) = parse_members fuel F (skip (tl (skip r)))"
      if "parse_string (skip s) = Some (Inr (nm, q))"
        "parse_value fuel F (skip (tl (skip q))) = Some (Inr (v, r))" for nm q v r
      using l string_rest [OF that(1)] value_rest [OF that(2)] skip2 [of r] tl_skip_length [of q]
      by (intro M) simp
    show ?thesis
    proof (cases "\<exists>nm q. parse_string (skip s) = Some (Inr (nm, q))")
      case True
      then obtain nm q where n: "parse_string (skip s) = Some (Inr (nm, q))" by blast
      show ?thesis unfolding parse_members.simps(2)
        using V' [OF n] M' [OF n]
        by (cases "parse_value fuel F (skip (tl (skip q)))") (auto simp: n Let_def split: sum.split)
    next
      case False
      then show ?thesis
        unfolding parse_members.simps(2)
        by (cases "parse_string (skip s)") (auto split: sum.split)
    qed
  qed
  ultimately show ?case by blast
qed simp

lemma parse_fuel:
  assumes "2 * length s + 1 \<le> n"
  shows "parse_value n F s = parse_value (2 * length s + 1) F s"
  using assms
proof (induction n rule: dec_induct)
  case (step n)
  then show ?case using parse_fuel_Suc [of s n F] by simp
qed simp

text \<open>
  The fuel of the parser model is enough for every text: any larger amount gives the same
  result, so an undefined result of \<open>cJSON_Parse\<close> is an out-of-bounds access or an overflow of
  the code and never the end of the fuel.
\<close>

theorem cJSON_Parse_total_fuel:
  assumes "2 * length src + 2 \<le> fuel"
  shows "cJSON_ParseWithOpts F src False = parse_value fuel F (skip src)"
proof -
  have f: "parse_value n F (skip src) = parse_value (2 * length (skip src) + 1) F (skip src)"
    if "2 * length src + 2 \<le> n" for n
    using that skip_length [of src] by (intro parse_fuel) simp
  have "parse_value (2 * length src + 2) F (skip src) = parse_value fuel F (skip src)"
    using f [OF assms] f [OF order_refl] by simp
  then show ?thesis
    by (cases "parse_value fuel F (skip src)") (auto simp: cJSON_ParseWithOpts_def split: sum.split)
qed

lemma cJSON_Parse_total_fuel_witness:
  "cJSON_ParseWithOpts int_fp ''[1]'' False = parse_value 9 int_fp (skip ''[1]'')"
  by (rule cJSON_Parse_total_fuel) simp

end
