(* ===== verification/ErrCode.thy ===== *)
theory ErrCode
  imports JsonProofs
begin

text \<open>
  The error codes of \<open>utils/error.h\<close>, their messages and the JSON document that carries both to the
  client (\<open>utils/error.c\<close>).
\<close>

section \<open>Codes\<close>

definition RETURN_OK :: int where "RETURN_OK = 0"
definition ERR_INTERNAL_ERROR_START :: int where "ERR_INTERNAL_ERROR_START = -1"
definition ERR_BASE :: int where "ERR_BASE = -1"
definition ERR_PARAM :: int where "ERR_PARAM = -2"
definition ERR_THREAD_CREATE_FAIL :: int where "ERR_THREAD_CREATE_FAIL = -1"
definition ERR_CONFIG_FILE_OPEN_FAIL :: int where "ERR_CONFIG_FILE_OPEN_FAIL = -2"
definition ERR_DATABASE_CONNECT_FAIL :: int where "ERR_DATABASE_CONNECT_FAIL = -3"
definition ERR_MEMORY_POOL_MALLOC_FAIL :: int where "ERR_MEMORY_POOL_MALLOC_FAIL = -4"
definition ERR_MEMORY_POOL_NOT_INIT :: int where "ERR_MEMORY_POOL_NOT_INIT = -5"
definition ERR_DICT_CREATE_FAIL :: int where "ERR_DICT_CREATE_FAIL = -6"
definition ERR_LOG_PATH_INVALID :: int where "ERR_LOG_PATH_INVALID = -7"
definition ERR_LOG_LEVEL_INVALID :: int where "ERR_LOG_LEVEL_INVALID = -8"
definition ERR_LOG_SAVE_DAYS_INVALID :: int where "ERR_LOG_SAVE_DAYS_INVALID = -9"
definition ERR_LOG_NOT_INIT :: int where "ERR_LOG_NOT_INIT = -10"
definition ERR_CREATE_EVENTLOOP_FAIL :: int where "ERR_CREATE_EVENTLOOP_FAIL = -11"
definition ERR_JSON_PARSE_FAIL :: int where "ERR_JSON_PARSE_FAIL = -12"
definition ERR_BAD_REQUEST :: int where "ERR_BAD_REQUEST = -13"
definition ERR_UNDEFINED_REQUEST_ROUTE :: int where "ERR_UNDEFINED_REQUEST_ROUTE = -14"
definition ERR_UNDEFINED_REQUEST_TYPE :: int where "ERR_UNDEFINED_REQUEST_TYPE = -15"
definition ERR_NOT_SUPPORT_REQUEST :: int where "ERR_NOT_SUPPORT_REQUEST = -16"
definition ERR_LIST_BASE :: int where "ERR_LIST_BASE = -100"
definition ERR_UNDEFINED_MSG_GATEWAY :: int where "ERR_UNDEFINED_MSG_GATEWAY = -17"
definition ERR_UNDEFINED_CACHE :: int where "ERR_UNDEFINED_CACHE = -18"
definition ERR_NOT_FIND_CACHE :: int where "ERR_NOT_FIND_CACHE = -19"
definition ERR_USER_REGIST_DUPLICATE :: int where "ERR_USER_REGIST_DUPLICATE = -200"
definition ERR_MYSQL_QUERY_FAIL :: int where "ERR_MYSQL_QUERY_FAIL = -101"
definition ERR_USER_REGIST_INSERT_FAIL :: int where "ERR_USER_REGIST_INSERT_FAIL = -102"
definition ERR_USER_ERGIST_QUERY_FAIL :: int where "ERR_USER_ERGIST_QUERY_FAIL = -103"
definition ERR_USER_DELETE_FAIL :: int where "ERR_USER_DELETE_FAIL = -104"
definition ERR_USER_MODIFY_FAIL :: int where "ERR_USER_MODIFY_FAIL = -105"
definition ERR_USER_MODIFY_ID_INVALID :: int where "ERR_USER_MODIFY_ID_INVALID = -106"
definition ERR_NOTICE_INSERT_DUPLICATE :: int where "ERR_NOTICE_INSERT_DUPLICATE = -107"
definition ERR_NOTICE_INSERT_FAIL :: int where "ERR_NOTICE_INSERT_FAIL = -108"
definition ERR_NOTICE_QUERY_FAIL :: int where "ERR_NOTICE_QUERY_FAIL = -109"
definition ERR_NOTICE_MODIFY_FAIL :: int where "ERR_NOTICE_MODIFY_FAIL = -110"
definition ERR_NOTICE_DELETE_FAIL :: int where "ERR_NOTICE_DELETE_FAIL = -111"
definition ERR_APP_UPDATE_INSERT_DUPLICATE :: int where "ERR_APP_UPDATE_INSERT_DUPLICATE = -107"
definition ERR_APP_UPDATE_INSERT_FAIL :: int where "ERR_APP_UPDATE_INSERT_FAIL = -108"
definition ERR_APP_UPDATE_QUERY_FAIL :: int where "ERR_APP_UPDATE_QUERY_FAIL = -109"
definition ERR_APP_UPDATE_MODIFY_FAIL :: int where "ERR_APP_UPDATE_MODIFY_FAIL = -110"
definition ERR_APP_UPDATE_DELETE_FAIL :: int where "ERR_APP_UPDATE_DELETE_FAIL = -112"
definition ERR_APP_VERSION_NOT_FOUND_IN_CACHE :: int where "ERR_APP_VERSION_NOT_FOUND_IN_CACHE = -111"
definition ERR_INTERNAL_ERROR_END :: int where "ERR_INTERNAL_ERROR_END = -200"
definition ERR_PHONE_NUMBER_WRONG :: int where "ERR_PHONE_NUMBER_WRONG = -201"
definition ERR_PHONE_NUMBER_DUPLICATE :: int where "ERR_PHONE_NUMBER_DUPLICATE = -202"
definition ERR_MSG_CODE_WRONG :: int where "ERR_MSG_CODE_WRONG = -203"
definition ERR_INPUT_ARGUMENT_WRONG :: int where "ERR_INPUT_ARGUMENT_WRONG = -204"
definition ERR_PHONE_NUMBER_NOT_REGIST :: int where "ERR_PHONE_NUMBER_NOT_REGIST = -205"
definition ERR_TOKEN_OUT_OF_DATE :: int where "ERR_TOKEN_OUT_OF_DATE = -206"
definition ERR_NOT_LOGIN_YET :: int where "ERR_NOT_LOGIN_YET = -207"
definition ERR_NO_PERMISSION :: int where "ERR_NO_PERMISSION = -208"
definition ERR_ACCOUNT_NOT_REGIST :: int where "ERR_ACCOUNT_NOT_REGIST = -209"
definition ERR_APPVERSION_NOT_UPDATE :: int where "ERR_APPVERSION_NOT_UPDATE = -210"
definition ERR_MSG_CODE_OUT_OF_DATE :: int where "ERR_MSG_CODE_OUT_OF_DATE = -211"
definition ERR_ACCOUNT_DUPLICATE :: int where "ERR_ACCOUNT_DUPLICATE = -212"
definition ERR_NOT_NOTICE_YET :: int where "ERR_NOT_NOTICE_YET = -213"

lemmas err_codes [simp] = RETURN_OK_def ERR_INTERNAL_ERROR_START_def ERR_BASE_def ERR_PARAM_def
   ERR_THREAD_CREATE_FAIL_def ERR_CONFIG_FILE_OPEN_FAIL_def ERR_DATABASE_CONNECT_FAIL_def
   ERR_MEMORY_POOL_MALLOC_FAIL_def ERR_MEMORY_POOL_NOT_INIT_def ERR_DICT_CREATE_FAIL_def
   ERR_LOG_PATH_INVALID_def ERR_LOG_LEVEL_INVALID_def ERR_LOG_SAVE_DAYS_INVALID_def
   ERR_LOG_NOT_INIT_def ERR_CREATE_EVENTLOOP_FAIL_def ERR_JSON_PARSE_FAIL_def ERR_BAD_REQUEST_def
   ERR_UNDEFINED_REQUEST_ROUTE_def ERR_UNDEFINED_REQUEST_TYPE_def ERR_NOT_SUPPORT_REQUEST_def
   ERR_LIST_BASE_def ERR_UNDEFINED_MSG_GATEWAY_def ERR_UNDEFINED_CACHE_def ERR_NOT_FIND_CACHE_def
   ERR_USER_REGIST_DUPLICATE_def ERR_MYSQL_QUERY_FAIL_def ERR_USER_REGIST_INSERT_FAIL_def
   ERR_USER_ERGIST_QUERY_FAIL_def ERR_USER_DELETE_FAIL_def ERR_USER_MODIFY_FAIL_def
   ERR_USER_MODIFY_ID_INVALID_def ERR_NOTICE_INSERT_DUPLICATE_def ERR_NOTICE_INSERT_FAIL_def
   ERR_NOTICE_QUERY_FAIL_def ERR_NOTICE_MODIFY_FAIL_def ERR_NOTICE_DELETE_FAIL_def
   ERR_APP_UPDATE_INSERT_DUPLICATE_def ERR_APP_UPDATE_INSERT_FAIL_def
   ERR_APP_UPDATE_QUERY_FAIL_def ERR_APP_UPDATE_MODIFY_FAIL_def ERR_APP_UPDATE_DELETE_FAIL_def
   ERR_APP_VERSION_NOT_FOUND_IN_CACHE_def ERR_INTERNAL_ERROR_END_def ERR_PHONE_NUMBER_WRONG_def
   ERR_PHONE_NUMBER_DUPLICATE_def ERR_MSG_CODE_WRONG_def ERR_INPUT_ARGUMENT_WRONG_def
   ERR_PHONE_NUMBER_NOT_REGIST_def ERR_TOKEN_OUT_OF_DATE_def ERR_NOT_LOGIN_YET_def
   ERR_NO_PERMISSION_def ERR_ACCOUNT_NOT_REGIST_def ERR_APPVERSION_NOT_UPDATE_def
   ERR_MSG_CODE_OUT_OF_DATE_def ERR_ACCOUNT_DUPLICATE_def ERR_NOT_NOTICE_YET_def

section \<open>Messages\<close>

definition UNKNOWN_ERR_CODE :: string where
  "UNKNOWN_ERR_CODE = ''unknown error code''"

definition INTERNAL_ERROR :: string where
  "INTERNAL_ERROR = ''server internal errpr ,plese notify  administrator!''"

definition errlist :: "(int \<times> string) list" where
  "errlist =
     [(RETURN_OK, ''ok''),
      (ERR_PHONE_NUMBER_WRONG, ''wrong phone number format''),
      (ERR_PHONE_NUMBER_DUPLICATE, ''phone number  duplicate''),
      (ERR_MSG_CODE_WRONG, ''message verification fail''),
      (ERR_INPUT_ARGUMENT_WRONG, ''input argument wrong''),
      (ERR_PHONE_NUMBER_NOT_REGIST, ''phone number not regist yet''),
      (ERR_TOKEN_OUT_OF_DATE, ''token out of date''),
      (ERR_NOT_LOGIN_YET, ''user not login yet''),
      (ERR_NO_PERMISSION, ''user not permission to delete operation''),
      (ERR_ACCOUNT_NOT_REGIST, ''account not regist yet''),
      (ERR_APPVERSION_NOT_UPDATE, ''app version not update yet''),
      (ERR_MSG_CODE_OUT_OF_DATE, ''message code out of date''),
      (ERR_ACCOUNT_DUPLICATE, ''account duplicate''),
      (ERR_NOT_NOTICE_YET, ''not notice yet'')]"

definition gerErrMsg :: "int \<Rightarrow> string" where
  "gerErrMsg c =
     (if c < ERR_INTERNAL_ERROR_START \<and> c > ERR_INTERNAL_ERROR_END then INTERNAL_ERROR
      else case find (\<lambda>e. fst e = c) errlist of Some e \<Rightarrow> snd e | None \<Rightarrow> UNKNOWN_ERR_CODE)"

text \<open>\<open>cJSON_AddNumberToObject\<close> and \<open>cJSON_AddStringToObject\<close>.\<close>

definition cJSON_AddNumberToObject :: "'d fp \<Rightarrow> 'd cJSON \<Rightarrow> string \<Rightarrow> int \<Rightarrow> 'd cJSON" where
  "cJSON_AddNumberToObject F obj nm n = cJSON_AddItemToObject obj nm (cJSON_CreateNumber F (fp_of_int F n))"

definition cJSON_AddStringToObject :: "'d fp \<Rightarrow> 'd cJSON \<Rightarrow> string \<Rightarrow> string \<Rightarrow> 'd cJSON" where
  "cJSON_AddStringToObject F obj nm s = cJSON_AddItemToObject obj nm (cJSON_CreateString F s)"

definition makeErrorJson :: "'d fp \<Rightarrow> int \<Rightarrow> string \<Rightarrow> string option" where
  "makeErrorJson F errcode errmsg =
     (let root = cJSON_CreateObject F;
          root = cJSON_AddNumberToObject F root ''errcode'' errcode;
          root = cJSON_AddStringToObject F root ''errmsg'' errmsg
      in cJSON_Print F root)"

section \<open>Objects built member by member\<close>

text \<open>An object with the given members, in order.\<close>

definition obj_of :: "'d fp \<Rightarrow> (string \<times> 'd cJSON) list \<Rightarrow> 'd cJSON" where
  "obj_of F kvs = Item cJSON_Object None 0 (fp_zero F) None (map (\<lambda>(n, i). set_string (Some n) i) kvs)"

lemma obj_of_empty: "cJSON_CreateObject F = obj_of F []"
  by (simp add: cJSON_CreateObject_def cJSON_New_Item_def set_type_def obj_of_def)

lemma obj_of_add: "cJSON_AddItemToObject (obj_of F kvs) nm i = obj_of F (kvs @ [(nm, i)])"
  by (simp add: cJSON_AddItemToObject_def cJSON_AddItemToArray_def obj_of_def set_child_def)

lemma obj_of_adds [simp]:
  "cJSON_AddNumberToObject F (obj_of F kvs) nm n = obj_of F (kvs @ [(nm, cJSON_CreateNumber F (fp_of_int F n))])"
  "cJSON_AddStringToObject F (obj_of F kvs) nm s = obj_of F (kvs @ [(nm, cJSON_CreateString F s)])"
  by (simp_all add: cJSON_AddNumberToObject_def cJSON_AddStringToObject_def obj_of_add)

lemma set_string_obj_of [simp]: "set_string None (obj_of F kvs) = obj_of F kvs"
  by (simp add: obj_of_def set_string_def)

lemma same_nocase_iff: "same_nocase a b \<longleftrightarrow> map tolower a = map tolower b"
  by (induction a b rule: same_nocase.induct) auto

lemma GetObjectItem_obj_of:
  "cJSON_GetObjectItem (obj_of F kvs) nm =
     (case find (\<lambda>(n, i). same_nocase n nm) kvs of None \<Rightarrow> None | Some (n, i) \<Rightarrow> Some (set_string (Some n) i))"
  by (induction kvs)
    (auto simp: cJSON_GetObjectItem_def obj_of_def set_string_def cJSON_strcasecmp_eq_def)

text \<open>Items of the two kinds the program puts into its objects.\<close>

definition plain_item :: "'d fp \<Rightarrow> 'd cJSON \<Rightarrow> bool" where
  "plain_item F i \<longleftrightarrow> (\<exists>n. in_int n \<and> i = cJSON_CreateNumber F (fp_of_int F n))
     \<or> (\<exists>s. no_nul s \<and> i = cJSON_CreateString F s)"

lemma plain_item_intros [simp]:
  "in_int n \<Longrightarrow> plain_item F (cJSON_CreateNumber F (fp_of_int F n))"
  "no_nul s \<Longrightarrow> plain_item F (cJSON_CreateString F s)"
  by (auto simp: plain_item_def)

lemma plain_item_ok:
  assumes "fp_ok F" "plain_item F i"
  shows "json_ok F (set_string (Some nm) i)"
  using assms by (auto simp: plain_item_def cJSON_CreateNumber_def cJSON_CreateString_def set_string_def fp_ok_def)

lemma obj_of_ok:
  assumes "fp_ok F" "list_all (\<lambda>(n, i). no_nul n \<and> plain_item F i) kvs"
  shows "json_ok F (obj_of F kvs)"
proof -
  have "json_ok F (set_string (Some n) i)" "no_nul n" if "(n, i) \<in> set kvs" for n i
    using assms that plain_item_ok [OF assms(1), of i n] by (auto simp: list_all_iff)
  then show ?thesis by (auto simp: obj_of_def list_all_iff set_string_def)
qed

lemma print_obj_of:
  assumes "fp_ok F" "list_all (\<lambda>(n, i). no_nul n \<and> plain_item F i) kvs"
  shows "\<exists>t. cJSON_Print F (obj_of F kvs) = Some t \<and> cJSON_Parse F t = Some (Some (obj_of F kvs))"
  using print_reads [OF assms(1) obj_of_ok [OF assms], of 0 True] reads_parse [of F _ "obj_of F kvs"]
  unfolding cJSON_Print_def set_string_obj_of by blast

section \<open>Properties\<close>

lemma errlist_no_nul: "e \<in> set errlist \<Longrightarrow> no_nul (snd e)"
  by (auto simp: errlist_def no_nul_def code_def)

lemma gerErrMsg_no_nul: "no_nul (gerErrMsg c)"
proof -
  have k: "no_nul INTERNAL_ERROR" "no_nul UNKNOWN_ERR_CODE"
    by (simp_all add: INTERNAL_ERROR_def UNKNOWN_ERR_CODE_def no_nul_def code_def)
  show ?thesis
  proof (cases "find (\<lambda>e. fst e = c) errlist")
    case (Some e)
    then have "no_nul (snd e)" using find_SomeD [OF Some] errlist_no_nul by blast
    then show ?thesis using Some k by (simp add: gerErrMsg_def)
  qed (simp add: gerErrMsg_def k)
qed

text \<open>
  What a client receives for an error. For every code of type \<open>int\<close>, \<open>makeErrorJson\<close> prints a
  document that \<open>cJSON_Parse\<close> reads, whose \<open>errcode\<close> is the code and whose \<open>errmsg\<close> is the message of
  \<open>gerErrMsg\<close>: the listed message of a listed code, the internal-error text strictly between -200 and
  -1, and the unknown-code text for every other code.
\<close>

theorem makeErrorJson_readable:
  assumes "fp_ok F" "in_int c"
  shows "\<exists>t root. makeErrorJson F c (gerErrMsg c) = Some t \<and> cJSON_Parse F t = Some (Some root)
    \<and> map_option c_valueint (cJSON_GetObjectItem root ''errcode'') = Some c
    \<and> map_option c_valuestring (cJSON_GetObjectItem root ''errmsg'') = Some (Some (gerErrMsg c))
    \<and> gerErrMsg c = (case map_of errlist c of
          Some m \<Rightarrow> m
        | None \<Rightarrow> if -200 < c \<and> c < -1 then INTERNAL_ERROR else UNKNOWN_ERR_CODE)"
proof -
  let ?kvs = "[(''errcode'', cJSON_CreateNumber F (fp_of_int F c)), (''errmsg'', cJSON_CreateString F (gerErrMsg c))]"
  have "list_all (\<lambda>(n, i). no_nul n \<and> plain_item F i) ?kvs"
    using assms(2) gerErrMsg_no_nul by (simp add: no_nul_def code_def)
  from print_obj_of [OF assms(1) this] obtain t where
    t: "cJSON_Print F (obj_of F ?kvs) = Some t" "cJSON_Parse F t = Some (Some (obj_of F ?kvs))" by blast
  have m: "gerErrMsg c = (case map_of errlist c of
          Some m \<Rightarrow> m | None \<Rightarrow> if -200 < c \<and> c < -1 then INTERNAL_ERROR else UNKNOWN_ERR_CODE)"
    by (auto simp: gerErrMsg_def errlist_def)
  have "makeErrorJson F c (gerErrMsg c) = Some t"
    using t(1) by (simp add: makeErrorJson_def obj_of_empty)
  moreover have "map_option c_valueint (cJSON_GetObjectItem (obj_of F ?kvs) ''errcode'') = Some c"
    using assms by (simp add: GetObjectItem_obj_of set_string_def cJSON_CreateNumber_def fp_ok_def tolower_def code_def)
  moreover have "map_option c_valuestring (cJSON_GetObjectItem (obj_of F ?kvs) ''errmsg'') = Some (Some (gerErrMsg c))"
    by (simp add: GetObjectItem_obj_of set_string_def cJSON_CreateString_def tolower_def code_def)
  ultimately show ?thesis using t(2) m by blast
qed

lemma makeErrorJson_readable_witness:
  "\<exists>t root. makeErrorJson int_fp ERR_NOT_LOGIN_YET (gerErrMsg ERR_NOT_LOGIN_YET) = Some t
    \<and> cJSON_Parse int_fp t = Some (Some root)
    \<and> map_option c_valuestring (cJSON_GetObjectItem root ''errmsg'') = Some (Some ''user not login yet'')"
  using makeErrorJson_readable [OF int_fp_ok, of ERR_NOT_LOGIN_YET]
  by (auto simp: errlist_def in_int_iff)

end
