(* ===== verification/SqlText.thy ===== *)
theory SqlText
  imports ErrCode
begin

text \<open>
  What the three tables of \<open>src/model\<close> share: the database calls of \<open>utils/mysql_basic.c\<close>, the
  clauses of a \<open>where\<close> or \<open>set\<close> text built in a buffer of \<open>SQL_LENGTH\<close> characters, the columns of a
  result row, and the members read from and written to a JSON object.
\<close>

section \<open>The database\<close>

text \<open>The client library is a parameter: what a query does to the state of the database and the
  connection, the rows it affected, and the stored result, \<open>None\<close> for \<open>NULL\<close>; a \<open>NULL\<close> column
  is \<open>None\<close>.\<close>

type_synonym row = "string option list"

record 'w mysql =
  mysql_query :: "string \<Rightarrow> 'w \<Rightarrow> int \<times> 'w"
  mysql_affected_rows :: "'w \<Rightarrow> u64"
  mysql_store_result :: "'w \<Rightarrow> row list option"

text \<open>The 64-bit count is stored into an \<open>int\<close>.\<close>

definition exec_db :: "'w mysql \<Rightarrow> string \<Rightarrow> 'w \<Rightarrow> int \<times> 'w" where
  "exec_db db sql w =
     (case mysql_query db sql w of
        (state, w) \<Rightarrow>
          if state \<noteq> 0 then (-1, w) else (sint (ucast (mysql_affected_rows db w) :: u32), w))"

definition query_db :: "'w mysql \<Rightarrow> string \<Rightarrow> 'w \<Rightarrow> row list option \<times> 'w" where
  "query_db db sql w =
     (case mysql_query db sql w of
        (state, w) \<Rightarrow> if state \<noteq> 0 then (None, w) else (mysql_store_result db w, w))"

section \<open>Numbers in text\<close>

text \<open>\<open>atoi\<close>: blanks, a sign, digits; a value that is no \<open>int\<close> is undefined.\<close>

fun atoi_digits :: "int \<Rightarrow> string \<Rightarrow> int" where
  "atoi_digits n [] = n"
| "atoi_digits n (c # s) = (if is_digit c then atoi_digits (10 * n + digit_val c) s else n)"

definition atoi :: "string \<Rightarrow> int option" where
  "atoi s =
     (let s = dropWhile (\<lambda>c. c = CHR '' '' \<or> 9 \<le> code c \<and> code c \<le> 13) s;
          n = (case s of
                 c # r \<Rightarrow> if c = CHR ''-'' then - atoi_digits 0 r
                          else if c = CHR ''+'' then atoi_digits 0 r else atoi_digits 0 s
               | [] \<Rightarrow> 0)
      in if in_int n then Some n else None)"

section \<open>Columns of a row\<close>

definition col_str :: "nat \<Rightarrow> row \<Rightarrow> nat \<Rightarrow> string option" where
  "col_str cap sqlRow i = do { c \<leftarrow> rd sqlRow i; s \<leftarrow> c; guard (length s < cap); Some s }"

definition col_int :: "row \<Rightarrow> nat \<Rightarrow> int option" where
  "col_int sqlRow i = do { c \<leftarrow> rd sqlRow i; s \<leftarrow> c; atoi s }"

section \<open>Building a condition or an assignment list\<close>

definition SQL_LENGTH :: nat where "SQL_LENGTH = 2048"
definition W_AND :: int where "W_AND = 1"
definition W_COMMA :: int where "W_COMMA = 2"

text \<open>\<open>sprintf\<close> into a buffer of \<open>SQL_LENGTH\<close> characters, and \<open>strcat\<close> onto one.\<close>

definition sprintf_sql :: "string \<Rightarrow> string option" where
  "sprintf_sql s = (if length s < SQL_LENGTH then Some s else None)"

definition strcat_sql :: "string \<Rightarrow> string \<Rightarrow> string option" where
  "strcat_sql buffer s = (if length buffer + length s < SQL_LENGTH then Some (buffer @ s) else None)"

text \<open>One clause, with the separator when one precedes it (\<open>middleFlag\<close>).\<close>

definition add_clause :: "string \<Rightarrow> string \<Rightarrow> string \<times> bool \<Rightarrow> (string \<times> bool) option" where
  "add_clause flagString clause st =
     (case st of
        (buffer, middleFlag) \<Rightarrow> do {
          buffer \<leftarrow> (if middleFlag then strcat_sql buffer flagString else Some buffer);
          arg \<leftarrow> sprintf_sql clause;
          buffer \<leftarrow> strcat_sql buffer arg;
          Some (buffer, True) })"

definition clause_text :: "string \<Rightarrow> string \<Rightarrow> string" where
  "clause_text nm v = nm @ CHR ''='' # CHR 0x27 # v @ [CHR 0x27]"

definition str_clause :: "string \<Rightarrow> string \<Rightarrow> string \<Rightarrow> string \<times> bool \<Rightarrow> (string \<times> bool) option" where
  "str_clause flagString nm v st =
     (if length v \<noteq> 0 then add_clause flagString (clause_text nm v) st else Some st)"

definition int_clause :: "string \<Rightarrow> string \<Rightarrow> int \<Rightarrow> string \<times> bool \<Rightarrow> (string \<times> bool) option" where
  "int_clause flagString nm v st =
     (if v \<noteq> 0 then add_clause flagString (clause_text nm (show_int v)) st else Some st)"

fun join :: "string \<Rightarrow> string list \<Rightarrow> string" where
  "join sep [] = []"
| "join sep [c] = c"
| "join sep (c # cs) = c @ sep @ join sep cs"

definition quote_sql :: "string \<Rightarrow> string" where
  "quote_sql v = CHR 0x27 # v @ [CHR 0x27]"

text \<open>The start of the text and its end: nothing but a blank when there was no clause.\<close>

definition sql_flag :: "int \<Rightarrow> string" where
  "sql_flag wos = (if wos = W_AND then '' and '' else '' , '')"

definition sql_head :: "int \<Rightarrow> string" where
  "sql_head wos = (if wos = W_AND then ''where '' else ''set '')"

definition sql_end :: "string \<times> bool \<Rightarrow> string" where
  "sql_end st = (if fst st = ''where '' \<or> fst st = ''set '' then '' '' else fst st)"

section \<open>Members of a JSON object\<close>

text \<open>\<open>strcpy\<close> of the string value into an array of \<open>cap\<close> characters: undefined for an item that
  is no string and for a string that does not fit.\<close>

definition json_str :: "nat \<Rightarrow> 'd cJSON \<Rightarrow> string \<Rightarrow> string \<Rightarrow> string option" where
  "json_str cap json nm old =
     (case cJSON_GetObjectItem json nm of
        None \<Rightarrow> Some old
      | Some temp \<Rightarrow> do { s \<leftarrow> c_valuestring temp; guard (length s < cap); Some s })"

definition json_int :: "'d cJSON \<Rightarrow> string \<Rightarrow> int \<Rightarrow> int" where
  "json_int json nm old =
     (case cJSON_GetObjectItem json nm of None \<Rightarrow> old | Some temp \<Rightarrow> c_valueint temp)"

text \<open>\<open>removeField && strstr(removeField, name)\<close>.\<close>

fun strstr :: "string \<Rightarrow> string \<Rightarrow> bool" where
  "strstr [] p = (p = [])"
| "strstr (c # s) p = (take (length p) (c # s) = p \<or> strstr s p)"

definition removed :: "string option \<Rightarrow> string \<Rightarrow> bool" where
  "removed removeField nm = (case removeField of None \<Rightarrow> False | Some r \<Rightarrow> strstr r nm)"

definition add_str :: "'d fp \<Rightarrow> string option \<Rightarrow> string \<Rightarrow> string \<Rightarrow> 'd cJSON \<Rightarrow> 'd cJSON" where
  "add_str F removeField nm v root =
     (if length v \<noteq> 0 \<and> \<not> removed removeField nm then cJSON_AddStringToObject F root nm v else root)"

definition add_int :: "'d fp \<Rightarrow> string option \<Rightarrow> string \<Rightarrow> int \<Rightarrow> 'd cJSON \<Rightarrow> 'd cJSON" where
  "add_int F removeField nm v root =
     (if v \<noteq> 0 \<and> \<not> removed removeField nm then cJSON_AddNumberToObject F root nm v else root)"

section \<open>Lemmas on clauses\<close>

text \<open>The reference: the clauses, joined.\<close>

definition sql_text :: "int \<Rightarrow> string list \<Rightarrow> string" where
  "sql_text wos cs = (if cs = [] then '' '' else sql_head wos @ join (sql_flag wos) cs)"

definition opt_str :: "string \<Rightarrow> string \<Rightarrow> string list" where
  "opt_str nm v = (if v \<noteq> [] then [clause_text nm v] else [])"

definition opt_int :: "string \<Rightarrow> int \<Rightarrow> string list" where
  "opt_int nm v = (if v \<noteq> 0 then [clause_text nm (show_int v)] else [])"

fun add_clauses :: "string \<Rightarrow> string list \<Rightarrow> string \<times> bool \<Rightarrow> (string \<times> bool) option" where
  "add_clauses flagString [] st = Some st"
| "add_clauses flagString (c # cs) st = do { st \<leftarrow> add_clause flagString c st; add_clauses flagString cs st }"

lemma add_clauses_Nil: "add_clauses fl [] = Some"
  by (rule ext) simp

lemma clause_eqs:
  "str_clause fl nm v = add_clauses fl (opt_str nm v)"
  "int_clause fl nm k = add_clauses fl (opt_int nm k)"
  by (auto simp: str_clause_def int_clause_def opt_str_def opt_int_def fun_eq_iff add_clauses_Nil)

lemma add_clauses_append:
  "do { st \<leftarrow> add_clauses fl cs st; add_clauses fl ds st } = add_clauses fl (cs @ ds) st"
  by (induction cs arbitrary: st) auto

lemma add_clauses_then:
  "do { st \<leftarrow> add_clauses fl cs st; st \<leftarrow> add_clauses fl ds st; f st }
     = do { st \<leftarrow> add_clauses fl (cs @ ds) st; f st }"
  by (simp add: add_clauses_append [symmetric])

definition clause_size :: "string list \<Rightarrow> nat" where
  "clause_size cs = sum_list (map (\<lambda>c. length c + 5) cs)"

lemma clause_size_simps [simp]:
  "clause_size [] = 0" "clause_size (c # cs) = length c + 5 + clause_size cs"
  "clause_size (cs @ ds) = clause_size cs + clause_size ds"
  by (simp_all add: clause_size_def)

lemma clause_size_opt:
  "length v \<le> k \<Longrightarrow> clause_size (opt_str nm v) \<le> length nm + k + 8"
  "in_int i \<Longrightarrow> clause_size (opt_int nm i) \<le> length nm + 19"
  by (simp_all add: opt_str_def opt_int_def clause_text_def show_int_length)

lemma opt_nonempty [simp]: "[] \<notin> set (opt_str nm v)" "[] \<notin> set (opt_int nm i)"
  by (simp_all add: opt_str_def opt_int_def clause_text_def)

lemma add_clauses_text:
  "length fl \<le> 5 \<Longrightarrow> length buf + clause_size cs < SQL_LENGTH \<Longrightarrow>
   add_clauses fl cs (buf, mid) = Some (buf @ (if mid \<and> cs \<noteq> [] then fl else []) @ join fl cs, mid \<or> cs \<noteq> [])"
proof (induction cs arbitrary: buf mid)
  case (Cons c cs)
  have "add_clause fl c (buf, mid) = Some (buf @ (if mid then fl else []) @ c, True)"
    using Cons.prems by (simp add: add_clause_def strcat_sql_def sprintf_sql_def)
  then show ?case using Cons.IH [of "buf @ (if mid then fl else []) @ c" True] Cons.prems
    by (cases cs) auto
qed simp

text \<open>A text built of clauses that fit is the reference text.\<close>

lemma sql_text_run:
  assumes "clause_size cs \<le> 2040" "[] \<notin> set cs"
  shows "do { st \<leftarrow> add_clauses (sql_flag wos) cs (sql_head wos, False); Some (sql_end st) } = Some (sql_text wos cs)"
proof -
  have "length (sql_flag wos) \<le> 5" "length (sql_head wos) \<le> 6" by (simp_all add: sql_flag_def sql_head_def)
  then have r: "add_clauses (sql_flag wos) cs (sql_head wos, False)
      = Some (sql_head wos @ join (sql_flag wos) cs, cs \<noteq> [])"
    using add_clauses_text [of "sql_flag wos" "sql_head wos" cs False] assms(1) by (simp add: SQL_LENGTH_def)
  have "join (sql_flag wos) cs \<noteq> []" if "cs \<noteq> []"
    using that assms(2) by (cases cs; cases "tl cs") auto
  then show ?thesis using r by (auto simp: sql_end_def sql_text_def sql_head_def)
qed

lemma sql_text_length:
  "clause_size cs \<le> n \<Longrightarrow> length (sql_text wos cs) \<le> n + 6"
proof -
  have "length (sql_flag wos) \<le> 5" by (simp add: sql_flag_def)
  then have "length (join (sql_flag wos) cs) \<le> clause_size cs"
    by (induction "sql_flag wos" cs rule: join.induct) auto
  moreover have "length (sql_head wos) \<le> 6" by (simp add: sql_head_def)
  ultimately show "clause_size cs \<le> n \<Longrightarrow> ?thesis" by (simp add: sql_text_def)
qed

section \<open>Lemmas on objects\<close>

definition kv_str :: "'d fp \<Rightarrow> string option \<Rightarrow> string \<Rightarrow> string \<Rightarrow> (string \<times> 'd cJSON) list" where
  "kv_str F rf nm v = (if v \<noteq> [] \<and> \<not> removed rf nm then [(nm, cJSON_CreateString F v)] else [])"

definition kv_int :: "'d fp \<Rightarrow> string option \<Rightarrow> string \<Rightarrow> int \<Rightarrow> (string \<times> 'd cJSON) list" where
  "kv_int F rf nm v = (if v \<noteq> 0 \<and> \<not> removed rf nm then [(nm, cJSON_CreateNumber F (fp_of_int F v))] else [])"

lemma add_obj_of:
  "add_str F rf nm v (obj_of F kvs) = obj_of F (kvs @ kv_str F rf nm v)"
  "add_int F rf nm k (obj_of F kvs) = obj_of F (kvs @ kv_int F rf nm k)"
  by (simp_all add: add_str_def add_int_def kv_str_def kv_int_def)

lemma kv_ok [simp]:
  "no_nul nm \<Longrightarrow> no_nul v \<Longrightarrow> list_all (\<lambda>(n, i). no_nul n \<and> plain_item F i) (kv_str F rf nm v)"
  "no_nul nm \<Longrightarrow> in_int k \<Longrightarrow> list_all (\<lambda>(n, i). no_nul n \<and> plain_item F i) (kv_int F rf nm k)"
  by (simp_all add: kv_str_def kv_int_def)

text \<open>Reading a member of an object written member by member.\<close>

definition member :: "string \<Rightarrow> (string \<times> 'd cJSON) list \<Rightarrow> 'd cJSON option" where
  "member nm kvs = map_option snd (find (\<lambda>(n, i). same_nocase n nm) kvs)"

lemma member_simps:
  "member nm [] = None"
  "member nm (kv_str F rf n v @ kvs) =
     (if v \<noteq> [] \<and> \<not> removed rf n \<and> same_nocase n nm then Some (cJSON_CreateString F v) else member nm kvs)"
  "member nm (kv_int F rf n k @ kvs) =
     (if k \<noteq> 0 \<and> \<not> removed rf n \<and> same_nocase n nm then Some (cJSON_CreateNumber F (fp_of_int F k)) else member nm kvs)"
  "member nm (kv_str F rf n v) =
     (if v \<noteq> [] \<and> \<not> removed rf n \<and> same_nocase n nm then Some (cJSON_CreateString F v) else None)"
  "member nm (kv_int F rf n k) =
     (if k \<noteq> 0 \<and> \<not> removed rf n \<and> same_nocase n nm then Some (cJSON_CreateNumber F (fp_of_int F k)) else None)"
  by (simp_all add: member_def kv_str_def kv_int_def)

lemma json_str_obj_of:
  "json_str cap (obj_of F kvs) nm old =
     (case member nm kvs of None \<Rightarrow> Some old
      | Some i \<Rightarrow> do { s \<leftarrow> c_valuestring i; guard (length s < cap); Some s })"
  by (auto simp: json_str_def member_def GetObjectItem_obj_of set_string_def split: option.splits)

lemma json_int_obj_of:
  "json_int (obj_of F kvs) nm old = (case member nm kvs of None \<Rightarrow> old | Some i \<Rightarrow> c_valueint i)"
  by (auto simp: json_int_def member_def GetObjectItem_obj_of set_string_def split: option.splits)

lemma created_values [simp]:
  "c_valuestring (cJSON_CreateString F s) = Some s"
  "fp_ok F \<Longrightarrow> in_int k \<Longrightarrow> c_valueint (cJSON_CreateNumber F (fp_of_int F k)) = k"
  by (simp_all add: cJSON_CreateString_def cJSON_CreateNumber_def fp_ok_def)

end
