(* ===== verification/UserModel.thy ===== *)
theory UserModel
  imports SqlText
begin

text \<open>
  Users: \<open>src/model/user.c\<close>. The record has the fields of \<open>User\<close> (prefix \<open>u_\<close>); \<open>None\<close> stands for an
  overflow of one of the fixed arrays and for a null pointer given to \<open>strcpy\<close> or \<open>atoi\<close>.
\<close>

section \<open>The object\<close>

record user =
  u_id :: int
  u_account :: string
  u_password :: string
  u_token :: string
  u_accType :: string
  u_phone :: string
  u_mail :: string
  u_realName :: string
  u_nickName :: string
  u_prcId :: string
  u_sex :: string
  u_birthday :: int
  u_country :: string
  u_province :: string
  u_city :: string
  u_district :: string
  u_address :: string
  u_headPortrait :: string
  u_sign :: string
  u_createTime :: int
  u_lastModifyTime :: int
  u_tokenFreshTimeStamp :: int
  u_cmd :: string

text \<open>The object after \<open>memset(obj, 0, sizeof(User))\<close>.\<close>

definition user0 :: user where
  "user0 = \<lparr>u_id = 0, u_account = [], u_password = [], u_token = [], u_accType = [], u_phone = [], u_mail = [], u_realName = [], u_nickName = [], u_prcId = [], u_sex = [], u_birthday = 0, u_country = [], u_province = [], u_city = [], u_district = [], u_address = [], u_headPortrait = [], u_sign = [], u_createTime = 0, u_lastModifyTime = 0, u_tokenFreshTimeStamp = 0, u_cmd = []\<rparr>"

section \<open>Queries\<close>

definition UserGetWhereOrSetString :: "user \<Rightarrow> int \<Rightarrow> string option" where
  "UserGetWhereOrSetString obj wos =
     do { let fl = sql_flag wos;
          st \<leftarrow> (if wos = W_AND
                then do { st \<leftarrow> int_clause fl ''id'' (u_id obj) (sql_head wos, False); str_clause fl ''account'' (u_account obj) st }
                else Some (sql_head wos, False));
          st \<leftarrow> str_clause fl ''password'' (u_password obj) st;
          st \<leftarrow> str_clause fl ''token'' (u_token obj) st;
          st \<leftarrow> str_clause fl ''accType'' (u_accType obj) st;
          st \<leftarrow> str_clause fl ''phone'' (u_phone obj) st;
          st \<leftarrow> str_clause fl ''mail'' (u_mail obj) st;
          st \<leftarrow> str_clause fl ''realName'' (u_realName obj) st;
          st \<leftarrow> str_clause fl ''nickName'' (u_nickName obj) st;
          st \<leftarrow> str_clause fl ''prcId'' (u_prcId obj) st;
          st \<leftarrow> str_clause fl ''sex'' (u_sex obj) st;
          st \<leftarrow> int_clause fl ''birthday'' (u_birthday obj) st;
          st \<leftarrow> str_clause fl ''country'' (u_country obj) st;
          st \<leftarrow> str_clause fl ''province'' (u_province obj) st;
          st \<leftarrow> str_clause fl ''city'' (u_city obj) st;
          st \<leftarrow> str_clause fl ''district'' (u_district obj) st;
          st \<leftarrow> str_clause fl ''address'' (u_address obj) st;
          st \<leftarrow> str_clause fl ''headPortrait'' (u_headPortrait obj) st;
          st \<leftarrow> str_clause fl ''sign'' (u_sign obj) st;
          st \<leftarrow> int_clause fl ''createTime'' (u_createTime obj) st;
          st \<leftarrow> int_clause fl ''lastModifyTime'' (u_lastModifyTime obj) st;
          Some (sql_end st) }"

text \<open>The \<open>insert\<close> statement; a value is quoted as it is.\<close>

definition user_insert_values :: "user \<Rightarrow> string list" where
  "user_insert_values obj =
          [quote_sql (u_account obj), quote_sql (u_password obj), quote_sql (u_token obj),
           quote_sql (u_accType obj), quote_sql (u_phone obj), quote_sql (u_mail obj),
           quote_sql (u_realName obj), quote_sql (u_nickName obj), quote_sql (u_prcId obj),
           quote_sql (u_sex obj), quote_sql (show_int (u_birthday obj)),
           quote_sql (u_country obj), quote_sql (u_province obj), quote_sql (u_city obj),
           quote_sql (u_district obj), quote_sql (u_address obj), quote_sql (u_headPortrait obj),
           quote_sql (u_sign obj), quote_sql (show_int (u_createTime obj)),
           quote_sql (show_int (u_lastModifyTime obj))]"

definition user_insert_sql :: "user \<Rightarrow> string" where
  "user_insert_sql obj =
     ''insert into user('' @ ''account,password,token,accType,phone,mail,realName,nickName,prcId,sex,'' @ tabs 4 @ ''birthday,country,province,city,district,address,headPortrait,sign,createTime,lastModifyTime'' @ '')'' @ tabs 4 @ ''value(''
       @ join '','' (user_insert_values obj) @ '');''"

text \<open>The result code, the object with its identifier, and the database afterwards.\<close>

definition UserInsert :: "'w mysql \<Rightarrow> user \<Rightarrow> 'w \<Rightarrow> ((int \<times> user) \<times> 'w) option" where
  "UserInsert db obj w =
     do { sql \<leftarrow> sprintf_sql (''select * from user where account='' @ quote_sql (u_account obj) @ '';'');
          let (result, w) = query_db db sql w;
          (case result of
             None \<Rightarrow> Some ((ERR_MYSQL_QUERY_FAIL, obj), w)
           | Some rows \<Rightarrow>
               if length rows \<ge> 1 then Some ((ERR_USER_REGIST_DUPLICATE, obj), w)
               else do {
                 sql \<leftarrow> sprintf_sql (user_insert_sql obj);
                 let (ret, w) = exec_db db sql w;
                 if ret \<le> 0 then Some ((ERR_USER_REGIST_INSERT_FAIL, obj), w)
                 else do {
                   sql \<leftarrow> sprintf_sql (''select id from user where account='' @ quote_sql (u_account obj) @ '';'');
                   let (result, w) = query_db db sql w;
                   (case result of
                      None \<Rightarrow> Some ((ERR_MYSQL_QUERY_FAIL, obj), w)
                    | Some [] \<Rightarrow> Some ((ERR_USER_ERGIST_QUERY_FAIL, obj), w)
                    | Some (sqlRow # _) \<Rightarrow> do { i \<leftarrow> col_int sqlRow 0; Some ((ret, obj\<lparr>u_id := i\<rparr>), w) }) } }) }"

definition UserQueryReturnItemNum :: "'w mysql \<Rightarrow> user \<Rightarrow> 'w \<Rightarrow> (int \<times> 'w) option" where
  "UserQueryReturnItemNum db flt w =
     do { arg \<leftarrow> UserGetWhereOrSetString flt W_AND;
          sql \<leftarrow> sprintf_sql (''select count(*) from user '' @ arg @ '';'');
          let (result, w) = query_db db sql w;
          (case result of
             None \<Rightarrow> Some (ERR_MYSQL_QUERY_FAIL, w)
           | Some [] \<Rightarrow> None
           | Some (sqlRow # _) \<Rightarrow> do { n \<leftarrow> col_int sqlRow 0; Some (n, w) }) }"

definition user_of_row :: "row \<Rightarrow> user option" where
  "user_of_row sqlRow =
     do {
       v0 \<leftarrow> col_int sqlRow 0;
       v1 \<leftarrow> col_str 20 sqlRow 1;
       v2 \<leftarrow> col_str 20 sqlRow 2;
       v3 \<leftarrow> col_str 20 sqlRow 3;
       v4 \<leftarrow> col_str 2 sqlRow 4;
       v5 \<leftarrow> col_str 16 sqlRow 5;
       v6 \<leftarrow> col_str 32 sqlRow 6;
       v7 \<leftarrow> col_str 20 sqlRow 7;
       v8 \<leftarrow> col_str 20 sqlRow 8;
       v9 \<leftarrow> col_str 20 sqlRow 9;
       v10 \<leftarrow> col_str 2 sqlRow 10;
       v11 \<leftarrow> col_int sqlRow 11;
       v12 \<leftarrow> col_str 20 sqlRow 12;
       v13 \<leftarrow> col_str 20 sqlRow 13;
       v14 \<leftarrow> col_str 20 sqlRow 14;
       v15 \<leftarrow> col_str 20 sqlRow 15;
       v16 \<leftarrow> col_str 256 sqlRow 16;
       v17 \<leftarrow> col_str 256 sqlRow 17;
       v18 \<leftarrow> col_str 256 sqlRow 18;
       v19 \<leftarrow> col_int sqlRow 19;
       v20 \<leftarrow> col_int sqlRow 20;
       Some (user0\<lparr>u_id := v0, u_account := v1, u_password := v2, u_token := v3, u_accType := v4, u_phone := v5, u_mail := v6, u_realName := v7, u_nickName := v8, u_prcId := v9, u_sex := v10, u_birthday := v11, u_country := v12, u_province := v13, u_city := v14, u_district := v15, u_address := v16, u_headPortrait := v17, u_sign := v18, u_createTime := v19, u_lastModifyTime := v20\<rparr>) }"

text \<open>The objects are \<open>None\<close> where \<open>*obj\<close> is not written.\<close>

definition UserQueryrReturnResult ::
  "'w mysql \<Rightarrow> string option \<Rightarrow> user \<Rightarrow> int \<Rightarrow> int \<Rightarrow> 'w \<Rightarrow> ((int \<times> user list option) \<times> 'w) option"
where
  "UserQueryrReturnResult db sqlManual flt limitFrom limitCount w =
     do { sql \<leftarrow> (case sqlManual of
             None \<Rightarrow> do {
               arg \<leftarrow> UserGetWhereOrSetString flt W_AND;
               if limitCount \<noteq> 0
               then sprintf_sql (''select * from user '' @ arg @ '' limit '' @ show_int limitFrom @ '','' @ show_int limitCount @ '';'')
               else sprintf_sql (''select * from user '' @ arg @ '' ;'') }
           | Some s \<Rightarrow> sprintf_sql s);
          let (result, w) = query_db db sql w;
          (case result of
             None \<Rightarrow> Some ((ERR_MYSQL_QUERY_FAIL, None), w)
           | Some rows \<Rightarrow>
               if rows = [] then Some ((0, None), w)
               else do {
                 objs \<leftarrow> those (map user_of_row rows);
                 Some ((sint (of_nat (length rows) :: u32), Some objs), w) }) }"

definition UserModify :: "'w mysql \<Rightarrow> user \<Rightarrow> 'w \<Rightarrow> (int \<times> 'w) option" where
  "UserModify db obj w =
     do { arg \<leftarrow> UserGetWhereOrSetString obj W_COMMA;
          sql \<leftarrow> sprintf_sql (''update user '' @ arg @ '' where id='' @ quote_sql (show_int (u_id obj)) @ '';'');
          let (ret, w) = exec_db db sql w;
          Some (if ret < 0 then ERR_USER_MODIFY_FAIL else ret, w) }"

definition UserDelete :: "'w mysql \<Rightarrow> user \<Rightarrow> 'w \<Rightarrow> (int \<times> 'w) option" where
  "UserDelete db obj w =
     do { arg \<leftarrow> UserGetWhereOrSetString obj W_AND;
          sql \<leftarrow> sprintf_sql (''delete from user '' @ arg @ '';'');
          let (ret, w) = exec_db db sql w;
          Some (if ret < 0 then ERR_USER_DELETE_FAIL else ret, w) }"

section \<open>JSON\<close>

text \<open>The object afterwards; a text that does not parse leaves it as it is.\<close>

definition UserParseJson :: "'d fp \<Rightarrow> string \<Rightarrow> user \<Rightarrow> user option" where
  "UserParseJson F jsonString obj =
     do { json \<leftarrow> cJSON_Parse F jsonString;
          (case json of
             None \<Rightarrow> Some obj
           | Some json \<Rightarrow> do {
               let obj = obj\<lparr>u_id := json_int json ''id'' (u_id obj)\<rparr>;
               v \<leftarrow> json_str 20 json ''account'' (u_account obj);
               let obj = obj\<lparr>u_account := v\<rparr>;
               v \<leftarrow> json_str 20 json ''password'' (u_password obj);
               let obj = obj\<lparr>u_password := v\<rparr>;
               v \<leftarrow> json_str 2 json ''accType'' (u_accType obj);
               let obj = obj\<lparr>u_accType := v\<rparr>;
               v \<leftarrow> json_str 16 json ''phone'' (u_phone obj);
               let obj = obj\<lparr>u_phone := v\<rparr>;
               v \<leftarrow> json_str 32 json ''mail'' (u_mail obj);
               let obj = obj\<lparr>u_mail := v\<rparr>;
               v \<leftarrow> json_str 20 json ''realName'' (u_realName obj);
               let obj = obj\<lparr>u_realName := v\<rparr>;
               v \<leftarrow> json_str 20 json ''nickName'' (u_nickName obj);
               let obj = obj\<lparr>u_nickName := v\<rparr>;
               v \<leftarrow> json_str 20 json ''prcId'' (u_prcId obj);
               let obj = obj\<lparr>u_prcId := v\<rparr>;
               v \<leftarrow> json_str 2 json ''sex'' (u_sex obj);
               let obj = obj\<lparr>u_sex := v\<rparr>;
               let obj = obj\<lparr>u_birthday := json_int json ''birthday'' (u_birthday obj)\<rparr>;
               v \<leftarrow> json_str 20 json ''country'' (u_country obj);
               let obj = obj\<lparr>u_country := v\<rparr>;
               v \<leftarrow> json_str 20 json ''province'' (u_province obj);
               let obj = obj\<lparr>u_province := v\<rparr>;
               v \<leftarrow> json_str 20 json ''city'' (u_city obj);
               let obj = obj\<lparr>u_city := v\<rparr>;
               v \<leftarrow> json_str 20 json ''district'' (u_district obj);
               let obj = obj\<lparr>u_district := v\<rparr>;
               v \<leftarrow> json_str 256 json ''address'' (u_address obj);
               let obj = obj\<lparr>u_address := v\<rparr>;
               v \<leftarrow> json_str 256 json ''headPortrait'' (u_headPortrait obj);
               let obj = obj\<lparr>u_headPortrait := v\<rparr>;
               v \<leftarrow> json_str 256 json ''sign'' (u_sign obj);
               let obj = obj\<lparr>u_sign := v\<rparr>;
               let obj = obj\<lparr>u_createTime := json_int json ''createTime'' (u_createTime obj)\<rparr>;
               let obj = obj\<lparr>u_lastModifyTime := json_int json ''lastModifyTime'' (u_lastModifyTime obj)\<rparr>;
               v \<leftarrow> json_str 20 json ''token'' (u_token obj);
               let obj = obj\<lparr>u_token := v\<rparr>;
               v \<leftarrow> json_str 10 json ''cmd'' (u_cmd obj);
               let obj = obj\<lparr>u_cmd := v\<rparr>;
               Some obj }) }"

definition user_json :: "'d fp \<Rightarrow> user \<Rightarrow> string option \<Rightarrow> 'd cJSON" where
  "user_json F obj removeField =
     (let root = cJSON_CreateObject F;
          root = add_str F removeField ''token'' (u_token obj) root;
          root = add_int F removeField ''id'' (u_id obj) root;
          root = add_str F removeField ''account'' (u_account obj) root;
          root = add_str F removeField ''password'' (u_password obj) root;
          root = add_str F removeField ''accType'' (u_accType obj) root;
          root = add_str F removeField ''phone'' (u_phone obj) root;
          root = add_str F removeField ''mail'' (u_mail obj) root;
          root = add_str F removeField ''realName'' (u_realName obj) root;
          root = add_str F removeField ''nickName'' (u_nickName obj) root;
          root = add_str F removeField ''prcId'' (u_prcId obj) root;
          root = add_str F removeField ''sex'' (u_sex obj) root;
          root = add_int F removeField ''birthday'' (u_birthday obj) root;
          root = add_str F removeField ''country'' (u_country obj) root;
          root = add_str F removeField ''province'' (u_province obj) root;
          root = add_str F removeField ''city'' (u_city obj) root;
          root = add_str F removeField ''district'' (u_district obj) root;
          root = add_str F removeField ''address'' (u_address obj) root;
          root = add_str F removeField ''headPortrait'' (u_headPortrait obj) root;
          root = add_str F removeField ''sign'' (u_sign obj) root;
          root = add_int F removeField ''createTime'' (u_createTime obj) root;
          root = add_int F removeField ''lastModifyTime'' (u_lastModifyTime obj) root
      in root)"

definition UserGenerateJson :: "'d fp \<Rightarrow> user \<Rightarrow> string option \<Rightarrow> string option" where
  "UserGenerateJson F obj removeField = cJSON_Print F (user_json F obj removeField)"

text \<open>Both objects have the same arrays, so that no copy overflows.\<close>

definition copy_if :: "bool \<Rightarrow> ('a \<Rightarrow> 'a) \<Rightarrow> 'a \<Rightarrow> 'a" where
  "copy_if c f des = (if c then f des else des)"

definition updateObj :: "user \<Rightarrow> user \<Rightarrow> user" where
  "updateObj des src =
     (let des = copy_if (length (u_password src) \<noteq> 0) (\<lambda>d. d\<lparr>u_password := u_password src\<rparr>) des;
          des = copy_if (length (u_accType src) \<noteq> 0) (\<lambda>d. d\<lparr>u_accType := u_accType src\<rparr>) des;
          des = copy_if (length (u_phone src) \<noteq> 0) (\<lambda>d. d\<lparr>u_phone := u_phone src\<rparr>) des;
          des = copy_if (length (u_mail src) \<noteq> 0) (\<lambda>d. d\<lparr>u_mail := u_mail src\<rparr>) des;
          des = copy_if (length (u_realName src) \<noteq> 0) (\<lambda>d. d\<lparr>u_realName := u_realName src\<rparr>) des;
          des = copy_if (length (u_nickName src) \<noteq> 0) (\<lambda>d. d\<lparr>u_nickName := u_nickName src\<rparr>) des;
          des = copy_if (length (u_prcId src) \<noteq> 0) (\<lambda>d. d\<lparr>u_prcId := u_prcId src\<rparr>) des;
          des = copy_if (length (u_sex src) \<noteq> 0) (\<lambda>d. d\<lparr>u_sex := u_sex src\<rparr>) des;
          des = copy_if (u_birthday src \<noteq> 0) (\<lambda>d. d\<lparr>u_birthday := u_birthday src\<rparr>) des;
          des = copy_if (length (u_country src) \<noteq> 0) (\<lambda>d. d\<lparr>u_country := u_country src\<rparr>) des;
          des = copy_if (length (u_province src) \<noteq> 0) (\<lambda>d. d\<lparr>u_province := u_province src\<rparr>) des;
          des = copy_if (length (u_city src) \<noteq> 0) (\<lambda>d. d\<lparr>u_city := u_city src\<rparr>) des;
          des = copy_if (length (u_district src) \<noteq> 0) (\<lambda>d. d\<lparr>u_district := u_district src\<rparr>) des;
          des = copy_if (length (u_address src) \<noteq> 0) (\<lambda>d. d\<lparr>u_address := u_address src\<rparr>) des;
          des = copy_if (length (u_headPortrait src) \<noteq> 0) (\<lambda>d. d\<lparr>u_headPortrait := u_headPortrait src\<rparr>) des;
          des = copy_if (length (u_sign src) \<noteq> 0) (\<lambda>d. d\<lparr>u_sign := u_sign src\<rparr>) des;
          des = copy_if (u_createTime src \<noteq> 0) (\<lambda>d. d\<lparr>u_createTime := u_createTime src\<rparr>) des;
          des = copy_if (u_lastModifyTime src \<noteq> 0) (\<lambda>d. d\<lparr>u_lastModifyTime := u_lastModifyTime src\<rparr>) des;
          des = copy_if (length (u_token src) \<noteq> 0) (\<lambda>d. d\<lparr>u_token := u_token src\<rparr>) des
      in des)"

section \<open>Well-formed objects\<close>

text \<open>Every string has room for its terminator and every number is an \<open>int\<close>.\<close>

definition user_ok :: "user \<Rightarrow> bool" where
  "user_ok u \<longleftrightarrow>
     in_int (u_id u)
     \<and> length (u_account u) < 20 \<and> no_nul (u_account u)
     \<and> length (u_password u) < 20 \<and> no_nul (u_password u)
     \<and> length (u_token u) < 20 \<and> no_nul (u_token u)
     \<and> length (u_accType u) < 2 \<and> no_nul (u_accType u)
     \<and> length (u_phone u) < 16 \<and> no_nul (u_phone u)
     \<and> length (u_mail u) < 32 \<and> no_nul (u_mail u)
     \<and> length (u_realName u) < 20 \<and> no_nul (u_realName u)
     \<and> length (u_nickName u) < 20 \<and> no_nul (u_nickName u)
     \<and> length (u_prcId u) < 20 \<and> no_nul (u_prcId u)
     \<and> length (u_sex u) < 2 \<and> no_nul (u_sex u)
     \<and> in_int (u_birthday u)
     \<and> length (u_country u) < 20 \<and> no_nul (u_country u)
     \<and> length (u_province u) < 20 \<and> no_nul (u_province u)
     \<and> length (u_city u) < 20 \<and> no_nul (u_city u)
     \<and> length (u_district u) < 20 \<and> no_nul (u_district u)
     \<and> length (u_address u) < 256 \<and> no_nul (u_address u)
     \<and> length (u_headPortrait u) < 256 \<and> no_nul (u_headPortrait u)
     \<and> length (u_sign u) < 256 \<and> no_nul (u_sign u)
     \<and> in_int (u_createTime u)
     \<and> in_int (u_lastModifyTime u)
     \<and> in_int (u_tokenFreshTimeStamp u)
     \<and> length (u_cmd u) < 10 \<and> no_nul (u_cmd u)"

lemma user_ok_fields:
  assumes "user_ok u"
  shows "in_int (u_id u)"
    and "length (u_account u) \<le> 19" "no_nul (u_account u)"
    and "length (u_password u) \<le> 19" "no_nul (u_password u)"
    and "length (u_token u) \<le> 19" "no_nul (u_token u)"
    and "length (u_accType u) \<le> 1" "no_nul (u_accType u)"
    and "length (u_phone u) \<le> 15" "no_nul (u_phone u)"
    and "length (u_mail u) \<le> 31" "no_nul (u_mail u)"
    and "length (u_realName u) \<le> 19" "no_nul (u_realName u)"
    and "length (u_nickName u) \<le> 19" "no_nul (u_nickName u)"
    and "length (u_prcId u) \<le> 19" "no_nul (u_prcId u)"
    and "length (u_sex u) \<le> 1" "no_nul (u_sex u)"
    and "in_int (u_birthday u)"
    and "length (u_country u) \<le> 19" "no_nul (u_country u)"
    and "length (u_province u) \<le> 19" "no_nul (u_province u)"
    and "length (u_city u) \<le> 19" "no_nul (u_city u)"
    and "length (u_district u) \<le> 19" "no_nul (u_district u)"
    and "length (u_address u) \<le> 255" "no_nul (u_address u)"
    and "length (u_headPortrait u) \<le> 255" "no_nul (u_headPortrait u)"
    and "length (u_sign u) \<le> 255" "no_nul (u_sign u)"
    and "in_int (u_createTime u)"
    and "in_int (u_lastModifyTime u)"
    and "in_int (u_tokenFreshTimeStamp u)"
    and "length (u_cmd u) \<le> 9" "no_nul (u_cmd u)"
  using assms unfolding user_ok_def by simp_all

lemma user0_ok: "user_ok user0"
  by (simp add: user_ok_def user0_def in_int_iff no_nul_def)

text \<open>The clauses of an object.\<close>

definition user_clauses :: "user \<Rightarrow> int \<Rightarrow> string list" where
  "user_clauses u wos =
     (if wos = W_AND then opt_int ''id'' (u_id u) @ opt_str ''account'' (u_account u) else [])
     @ opt_str ''password'' (u_password u)
     @ opt_str ''token'' (u_token u)
     @ opt_str ''accType'' (u_accType u)
     @ opt_str ''phone'' (u_phone u)
     @ opt_str ''mail'' (u_mail u)
     @ opt_str ''realName'' (u_realName u)
     @ opt_str ''nickName'' (u_nickName u)
     @ opt_str ''prcId'' (u_prcId u)
     @ opt_str ''sex'' (u_sex u)
     @ opt_int ''birthday'' (u_birthday u)
     @ opt_str ''country'' (u_country u)
     @ opt_str ''province'' (u_province u)
     @ opt_str ''city'' (u_city u)
     @ opt_str ''district'' (u_district u)
     @ opt_str ''address'' (u_address u)
     @ opt_str ''headPortrait'' (u_headPortrait u)
     @ opt_str ''sign'' (u_sign u)
     @ opt_int ''createTime'' (u_createTime u)
     @ opt_int ''lastModifyTime'' (u_lastModifyTime u)"

definition user_members :: "'d fp \<Rightarrow> string option \<Rightarrow> user \<Rightarrow> (string \<times> 'd cJSON) list" where
  "user_members F rf u =
     kv_str F rf ''token'' (u_token u)
     @ kv_int F rf ''id'' (u_id u)
     @ kv_str F rf ''account'' (u_account u)
     @ kv_str F rf ''password'' (u_password u)
     @ kv_str F rf ''accType'' (u_accType u)
     @ kv_str F rf ''phone'' (u_phone u)
     @ kv_str F rf ''mail'' (u_mail u)
     @ kv_str F rf ''realName'' (u_realName u)
     @ kv_str F rf ''nickName'' (u_nickName u)
     @ kv_str F rf ''prcId'' (u_prcId u)
     @ kv_str F rf ''sex'' (u_sex u)
     @ kv_int F rf ''birthday'' (u_birthday u)
     @ kv_str F rf ''country'' (u_country u)
     @ kv_str F rf ''province'' (u_province u)
     @ kv_str F rf ''city'' (u_city u)
     @ kv_str F rf ''district'' (u_district u)
     @ kv_str F rf ''address'' (u_address u)
     @ kv_str F rf ''headPortrait'' (u_headPortrait u)
     @ kv_str F rf ''sign'' (u_sign u)
     @ kv_int F rf ''createTime'' (u_createTime u)
     @ kv_int F rf ''lastModifyTime'' (u_lastModifyTime u)"

lemma user_json_members: "user_json F u rf = obj_of F (user_members F rf u)"
  by (simp only: user_json_def user_members_def Let_def obj_of_empty add_obj_of append_assoc append_Nil)

lemma user_members_ok:
  assumes "user_ok u"
  shows "list_all (\<lambda>(n, i). no_nul n \<and> plain_item F i) (user_members F rf u)"
  unfolding user_members_def list_all_append
  by (intro conjI kv_ok user_ok_fields [OF assms]) (simp_all add: no_nul_def code_def)

section \<open>Lemmas\<close>

lemma user_clauses_size:
  assumes "user_ok u"
  shows "clause_size (user_clauses u wos) \<le> 1359" "[] \<notin> set (user_clauses u wos)"
proof -
  note f = user_ok_fields [OF assms]
  have b0: "clause_size (opt_int ''id'' (u_id u)) \<le> 21"
    by (rule order_trans [OF clause_size_opt(2) [OF f(1)]]) simp
  have b1: "clause_size (opt_str ''account'' (u_account u)) \<le> 34"
    by (rule order_trans [OF clause_size_opt(1) [OF f(2)]]) simp
  have b2: "clause_size (opt_str ''password'' (u_password u)) \<le> 35"
    by (rule order_trans [OF clause_size_opt(1) [OF f(4)]]) simp
  have b3: "clause_size (opt_str ''token'' (u_token u)) \<le> 32"
    by (rule order_trans [OF clause_size_opt(1) [OF f(6)]]) simp
  have b4: "clause_size (opt_str ''accType'' (u_accType u)) \<le> 16"
    by (rule order_trans [OF clause_size_opt(1) [OF f(8)]]) simp
  have b5: "clause_size (opt_str ''phone'' (u_phone u)) \<le> 28"
    by (rule order_trans [OF clause_size_opt(1) [OF f(10)]]) simp
  have b6: "clause_size (opt_str ''mail'' (u_mail u)) \<le> 43"
    by (rule order_trans [OF clause_size_opt(1) [OF f(12)]]) simp
  have b7: "clause_size (opt_str ''realName'' (u_realName u)) \<le> 35"
    by (rule order_trans [OF clause_size_opt(1) [OF f(14)]]) simp
  have b8: "clause_size (opt_str ''nickName'' (u_nickName u)) \<le> 35"
    by (rule order_trans [OF clause_size_opt(1) [OF f(16)]]) simp
  have b9: "clause_size (opt_str ''prcId'' (u_prcId u)) \<le> 32"
    by (rule order_trans [OF clause_size_opt(1) [OF f(18)]]) simp
  have b10: "clause_size (opt_str ''sex'' (u_sex u)) \<le> 12"
    by (rule order_trans [OF clause_size_opt(1) [OF f(20)]]) simp
  have b11: "clause_size (opt_int ''birthday'' (u_birthday u)) \<le> 27"
    by (rule order_trans [OF clause_size_opt(2) [OF f(22)]]) simp
  have b12: "clause_size (opt_str ''country'' (u_country u)) \<le> 34"
    by (rule order_trans [OF clause_size_opt(1) [OF f(23)]]) simp
  have b13: "clause_size (opt_str ''province'' (u_province u)) \<le> 35"
    by (rule order_trans [OF clause_size_opt(1) [OF f(25)]]) simp
  have b14: "clause_size (opt_str ''city'' (u_city u)) \<le> 31"
    by (rule order_trans [OF clause_size_opt(1) [OF f(27)]]) simp
  have b15: "clause_size (opt_str ''district'' (u_district u)) \<le> 35"
    by (rule order_trans [OF clause_size_opt(1) [OF f(29)]]) simp
  have b16: "clause_size (opt_str ''address'' (u_address u)) \<le> 270"
    by (rule order_trans [OF clause_size_opt(1) [OF f(31)]]) simp
  have b17: "clause_size (opt_str ''headPortrait'' (u_headPortrait u)) \<le> 275"
    by (rule order_trans [OF clause_size_opt(1) [OF f(33)]]) simp
  have b18: "clause_size (opt_str ''sign'' (u_sign u)) \<le> 267"
    by (rule order_trans [OF clause_size_opt(1) [OF f(35)]]) simp
  have b19: "clause_size (opt_int ''createTime'' (u_createTime u)) \<le> 29"
    by (rule order_trans [OF clause_size_opt(2) [OF f(37)]]) simp
  have b20: "clause_size (opt_int ''lastModifyTime'' (u_lastModifyTime u)) \<le> 33"
    by (rule order_trans [OF clause_size_opt(2) [OF f(38)]]) simp
  show "clause_size (user_clauses u wos) \<le> 1359"
    unfolding user_clauses_def using b0 b1 b2 b3 b4 b5 b6 b7 b8 b9 b10 b11 b12 b13 b14 b15 b16 b17 b18 b19 b20 by simp
  show "[] \<notin> set (user_clauses u wos)" by (simp add: user_clauses_def)
qed

lemma user_where_text:
  assumes "user_ok u"
  shows "UserGetWhereOrSetString u wos = Some (sql_text wos (user_clauses u wos))"
proof -
  have "UserGetWhereOrSetString u wos
      = do { st \<leftarrow> add_clauses (sql_flag wos) (user_clauses u wos) (sql_head wos, False); Some (sql_end st) }"
    by (simp add: UserGetWhereOrSetString_def user_clauses_def clause_eqs add_clauses_append [symmetric] add_clauses_Nil Let_def)
  also have "\<dots> = Some (sql_text wos (user_clauses u wos))"
  proof (rule sql_text_run)
    show "clause_size (user_clauses u wos) \<le> 2040"
      using user_clauses_size(1) [OF assms] by (rule order_trans) simp
  qed (rule user_clauses_size(2) [OF assms])
  finally show ?thesis .
qed

lemma user_names:
  shows "map tolower ''accType'' = ''acctype''"
    "map tolower ''account'' = ''account''"
    "map tolower ''address'' = ''address''"
    "map tolower ''birthday'' = ''birthday''"
    "map tolower ''city'' = ''city''"
    "map tolower ''cmd'' = ''cmd''"
    "map tolower ''country'' = ''country''"
    "map tolower ''createTime'' = ''createtime''"
    "map tolower ''district'' = ''district''"
    "map tolower ''headPortrait'' = ''headportrait''"
    "map tolower ''id'' = ''id''"
    "map tolower ''lastModifyTime'' = ''lastmodifytime''"
    "map tolower ''mail'' = ''mail''"
    "map tolower ''nickName'' = ''nickname''"
    "map tolower ''password'' = ''password''"
    "map tolower ''phone'' = ''phone''"
    "map tolower ''prcId'' = ''prcid''"
    "map tolower ''province'' = ''province''"
    "map tolower ''realName'' = ''realname''"
    "map tolower ''sex'' = ''sex''"
    "map tolower ''sign'' = ''sign''"
    "map tolower ''token'' = ''token''"
  by (simp_all add: tolower_def code_def)
    ((simp_all add: char_code_iff code_char_of, simp_all add: code_def)?)

text \<open>A user as it is read back: without the fields that are removed, named anywhere in the text given for
  that, and without the two fields that are not written.\<close>

definition kept :: "string option \<Rightarrow> string \<Rightarrow> 'a \<Rightarrow> 'a \<Rightarrow> 'a" where
  "kept rf nm v d = (if removed rf nm then d else v)"

definition user_without :: "string option \<Rightarrow> user \<Rightarrow> user" where
  "user_without rf u = u\<lparr>
     u_id := kept rf ''id'' (u_id u) 0,
     u_account := kept rf ''account'' (u_account u) [],
     u_password := kept rf ''password'' (u_password u) [],
     u_accType := kept rf ''accType'' (u_accType u) [],
     u_phone := kept rf ''phone'' (u_phone u) [],
     u_mail := kept rf ''mail'' (u_mail u) [],
     u_realName := kept rf ''realName'' (u_realName u) [],
     u_nickName := kept rf ''nickName'' (u_nickName u) [],
     u_prcId := kept rf ''prcId'' (u_prcId u) [],
     u_sex := kept rf ''sex'' (u_sex u) [],
     u_birthday := kept rf ''birthday'' (u_birthday u) 0,
     u_country := kept rf ''country'' (u_country u) [],
     u_province := kept rf ''province'' (u_province u) [],
     u_city := kept rf ''city'' (u_city u) [],
     u_district := kept rf ''district'' (u_district u) [],
     u_address := kept rf ''address'' (u_address u) [],
     u_headPortrait := kept rf ''headPortrait'' (u_headPortrait u) [],
     u_sign := kept rf ''sign'' (u_sign u) [],
     u_createTime := kept rf ''createTime'' (u_createTime u) 0,
     u_lastModifyTime := kept rf ''lastModifyTime'' (u_lastModifyTime u) 0,
     u_token := kept rf ''token'' (u_token u) [],
     u_tokenFreshTimeStamp := 0, u_cmd := []\<rparr>"

lemma user_json_fields_without:
  assumes F: "fp_ok F" and u: "user_ok u"
    and t: "cJSON_Parse F t = Some (Some (obj_of F (user_members F rf u)))"
  shows "UserParseJson F t user0 = Some (user_without rf u)"
proof -
  let ?root = "obj_of F (user_members F rf u)"
  note f = user_ok_fields [OF u]
  note names = user_names
  have p0: "json_int ?root ''id'' 0 = kept rf ''id'' (u_id u) 0"
    unfolding json_int_obj_of user_members_def member_simps same_nocase_iff names by (simp add: F f kept_def)
  have p1: "json_str 20 ?root ''account'' [] = Some (kept rf ''account'' (u_account u) [])"
    unfolding json_str_obj_of user_members_def member_simps same_nocase_iff names using f(2) by (simp add: kept_def)
  have p2: "json_str 20 ?root ''password'' [] = Some (kept rf ''password'' (u_password u) [])"
    unfolding json_str_obj_of user_members_def member_simps same_nocase_iff names using f(4) by (simp add: kept_def)
  have p3: "json_str 2 ?root ''accType'' [] = Some (kept rf ''accType'' (u_accType u) [])"
    unfolding json_str_obj_of user_members_def member_simps same_nocase_iff names using f(8) by (simp add: kept_def)
  have p4: "json_str 16 ?root ''phone'' [] = Some (kept rf ''phone'' (u_phone u) [])"
    unfolding json_str_obj_of user_members_def member_simps same_nocase_iff names using f(10) by (simp add: kept_def)
  have p5: "json_str 32 ?root ''mail'' [] = Some (kept rf ''mail'' (u_mail u) [])"
    unfolding json_str_obj_of user_members_def member_simps same_nocase_iff names using f(12) by (simp add: kept_def)
  have p6: "json_str 20 ?root ''realName'' [] = Some (kept rf ''realName'' (u_realName u) [])"
    unfolding json_str_obj_of user_members_def member_simps same_nocase_iff names using f(14) by (simp add: kept_def)
  have p7: "json_str 20 ?root ''nickName'' [] = Some (kept rf ''nickName'' (u_nickName u) [])"
    unfolding json_str_obj_of user_members_def member_simps same_nocase_iff names using f(16) by (simp add: kept_def)
  have p8: "json_str 20 ?root ''prcId'' [] = Some (kept rf ''prcId'' (u_prcId u) [])"
    unfolding json_str_obj_of user_members_def member_simps same_nocase_iff names using f(18) by (simp add: kept_def)
  have p9: "json_str 2 ?root ''sex'' [] = Some (kept rf ''sex'' (u_sex u) [])"
    unfolding json_str_obj_of user_members_def member_simps same_nocase_iff names using f(20) by (simp add: kept_def)
  have p10: "json_int ?root ''birthday'' 0 = kept rf ''birthday'' (u_birthday u) 0"
    unfolding json_int_obj_of user_members_def member_simps same_nocase_iff names by (simp add: F f kept_def)
  have p11: "json_str 20 ?root ''country'' [] = Some (kept rf ''country'' (u_country u) [])"
    unfolding json_str_obj_of user_members_def member_simps same_nocase_iff names using f(23) by (simp add: kept_def)
  have p12: "json_str 20 ?root ''province'' [] = Some (kept rf ''province'' (u_province u) [])"
    unfolding json_str_obj_of user_members_def member_simps same_nocase_iff names using f(25) by (simp add: kept_def)
  have p13: "json_str 20 ?root ''city'' [] = Some (kept rf ''city'' (u_city u) [])"
    unfolding json_str_obj_of user_members_def member_simps same_nocase_iff names using f(27) by (simp add: kept_def)
  have p14: "json_str 20 ?root ''district'' [] = Some (kept rf ''district'' (u_district u) [])"
    unfolding json_str_obj_of user_members_def member_simps same_nocase_iff names using f(29) by (simp add: kept_def)
  have p15: "json_str 256 ?root ''address'' [] = Some (kept rf ''address'' (u_address u) [])"
    unfolding json_str_obj_of user_members_def member_simps same_nocase_iff names using f(31) by (simp add: kept_def)
  have p16: "json_str 256 ?root ''headPortrait'' [] = Some (kept rf ''headPortrait'' (u_headPortrait u) [])"
    unfolding json_str_obj_of user_members_def member_simps same_nocase_iff names using f(33) by (simp add: kept_def)
  have p17: "json_str 256 ?root ''sign'' [] = Some (kept rf ''sign'' (u_sign u) [])"
    unfolding json_str_obj_of user_members_def member_simps same_nocase_iff names using f(35) by (simp add: kept_def)
  have p18: "json_int ?root ''createTime'' 0 = kept rf ''createTime'' (u_createTime u) 0"
    unfolding json_int_obj_of user_members_def member_simps same_nocase_iff names by (simp add: F f kept_def)
  have p19: "json_int ?root ''lastModifyTime'' 0 = kept rf ''lastModifyTime'' (u_lastModifyTime u) 0"
    unfolding json_int_obj_of user_members_def member_simps same_nocase_iff names by (simp add: F f kept_def)
  have p20: "json_str 20 ?root ''token'' [] = Some (kept rf ''token'' (u_token u) [])"
    unfolding json_str_obj_of user_members_def member_simps same_nocase_iff names using f(6) by (simp add: kept_def)
  have p21: "json_str 10 ?root ''cmd'' [] = Some []"
    unfolding json_str_obj_of user_members_def member_simps same_nocase_iff names by simp
  show ?thesis
    unfolding UserParseJson_def t user0_def user_without_def
    by (simp add: p0 p1 p2 p3 p4 p5 p6 p7 p8 p9 p10 p11 p12 p13 p14 p15 p16 p17 p18 p19 p20 p21)
qed

lemma user_without_none: "user_without None u = u\<lparr>u_tokenFreshTimeStamp := 0, u_cmd := []\<rparr>"
  by (simp add: user_without_def kept_def removed_def)

lemma user_json_fields:
  assumes "fp_ok F" "user_ok u" "cJSON_Parse F t = Some (Some (obj_of F (user_members F None u)))"
  shows "UserParseJson F t user0 = Some (u\<lparr>u_tokenFreshTimeStamp := 0, u_cmd := []\<rparr>)"
  using user_json_fields_without [OF assms] by (simp add: user_without_none)

lemma join_length: "length (join sep cs) \<le> sum_list (map length cs) + length sep * length cs"
  by (induction sep cs rule: join.induct) auto

lemma user_insert_fits:
  assumes "user_ok u"
  shows "length (user_insert_sql u) \<le> 1500"
proof -
  note f = user_ok_fields [OF assms]
  have i: "length (show_int k) \<le> 11" if "in_int k" for k using show_int_length that by blast
  have "sum_list (map length (user_insert_values u)) \<le> 1200"
    using f i [OF f(22)] i [OF f(37)] i [OF f(38)] by (simp add: user_insert_values_def quote_sql_def)
  then show ?thesis
    using join_length [of "'',''" "user_insert_values u"]
    by (simp add: user_insert_sql_def tabs_def) (simp add: user_insert_values_def)
qed

lemma user_modify_defined:
  assumes "user_ok u"
  shows "\<exists>r w'. UserModify db u w = Some (r, w')" "\<exists>r w'. UserDelete db u w = Some (r, w')"
proof -
  have l: "length (sql_text wos (user_clauses u wos)) \<le> 1359 + 6" for wos
    by (rule sql_text_length [OF user_clauses_size(1) [OF assms]])
  have "length (show_int (u_id u)) \<le> 11" by (rule show_int_length) (rule user_ok_fields(1) [OF assms])
  then show "\<exists>r w'. UserModify db u w = Some (r, w')" "\<exists>r w'. UserDelete db u w = Some (r, w')"
    using l [of W_AND] l [of W_COMMA]
    by (simp_all add: UserModify_def UserDelete_def user_where_text [OF assms] sprintf_sql_def SQL_LENGTH_def
        quote_sql_def Let_def split: prod.split)
qed

text \<open>A conditional copy leaves every other field alone.\<close>

lemma copy_if_frame: "(\<And>d. p (f d) = p d) \<Longrightarrow> p (copy_if c f d) = p d"
  by (simp add: copy_if_def)

lemma updateObj_accType: "u_accType (updateObj des src) = (if u_accType src \<noteq> [] then u_accType src else u_accType des)"
  unfolding updateObj_def Let_def by (simp add: copy_if_frame [where p = u_accType]) (simp add: copy_if_def)

lemma updateObj_token: "u_token (updateObj des src) = (if u_token src \<noteq> [] then u_token src else u_token des)"
  unfolding updateObj_def Let_def
  by (cases "u_token src = []") (simp_all add: copy_if_frame [where p = u_token] copy_if_def [of True] copy_if_def [of False])

lemma updateObj_id: "u_id (updateObj des src) = u_id des"
  unfolding updateObj_def Let_def by (simp add: copy_if_frame [where p = u_id])

section \<open>Properties\<close>

text \<open>
  The condition or assignment list of a well-formed user is the reference text: one clause per
  field that is set, in the order of the code, joined by \<open>and\<close> or by a comma, and a blank when no
  field is set. No separator is missing or doubled, and the buffer of \<open>SQL_LENGTH\<close> characters holds
  the text.
\<close>

theorem UserGetWhereOrSetString_text:
  assumes "user_ok u"
  shows "UserGetWhereOrSetString u wos = Some (sql_text wos (user_clauses u wos))"
  by (rule user_where_text [OF assms])

definition demo_user :: user where
  "demo_user = user0\<lparr>u_id := 7, u_account := ''bob'', u_token := ''0123456789ABCDEF'', u_accType := ''n'',
     u_birthday := 19700101\<rparr>"

lemma demo_user_ok: "user_ok demo_user"
  by (simp add: demo_user_def user0_def user_ok_def in_int_iff no_nul_def code_def)

lemma UserGetWhereOrSetString_text_witness:
  "UserGetWhereOrSetString demo_user W_COMMA
     = Some (''set '' @ clause_text ''token'' ''0123456789ABCDEF'' @ '' , '' @ clause_text ''accType'' ''n''
         @ '' , '' @ clause_text ''birthday'' ''19700101'')"
proof -
  have "show_int 19700101 = ''19700101''"
    by (simp add: show_int_def show_nat.simps char_code_iff code_char_of) (simp add: code_def)
  then show ?thesis
    using UserGetWhereOrSetString_text [OF demo_user_ok, of W_COMMA]
    by (simp add: demo_user_def user0_def user_clauses_def sql_text_def sql_head_def sql_flag_def W_AND_def
        W_COMMA_def opt_str_def opt_int_def)
qed

text \<open>
  No statement built from a well-formed user overflows its buffer: the conditions, the
  \<open>update\<close>, the \<open>delete\<close> and the \<open>insert\<close> all fit into \<open>SQL_LENGTH\<close> characters.
\<close>

theorem user_statements_fit:
  assumes "user_ok u"
  shows "UserModify db u w \<noteq> None \<and> UserDelete db u w \<noteq> None
    \<and> sprintf_sql (user_insert_sql u) = Some (user_insert_sql u)"
  using user_modify_defined [OF assms, of db w] user_insert_fits [OF assms]
  by (auto simp: sprintf_sql_def SQL_LENGTH_def)

lemma user_statements_fit_witness: "\<forall>db w. UserModify db demo_user w \<noteq> None"
  by (intro allI) (rule user_statements_fit [OF demo_user_ok, THEN conjunct1])

text \<open>
  C30: The JSON form of a user. What \<open>UserGenerateJson\<close> writes for a well-formed user, with any text
  that names the fields to leave out, is read back by \<open>UserParseJson\<close> into a cleared object: every written
  field comes back with its value; the fields whose name occurs anywhere in that text, and the fields
  \<open>tokenFreshTimeStamp\<close> and \<open>cmd\<close>, which are never written, stay cleared.
\<close>

theorem UserParseJson_UserGenerateJson:
  assumes "fp_ok F" "user_ok u"
  shows "\<exists>t. UserGenerateJson F u rf = Some t \<and> UserParseJson F t user0 = Some (user_without rf u)"
proof -
  obtain t where t: "cJSON_Print F (obj_of F (user_members F rf u)) = Some t"
    "cJSON_Parse F t = Some (Some (obj_of F (user_members F rf u)))"
    using print_obj_of [OF assms(1) user_members_ok [OF assms(2)]] by blast
  then show ?thesis
    using user_json_fields_without [OF assms t(2)] by (auto simp: UserGenerateJson_def user_json_members)
qed

lemma UserParseJson_UserGenerateJson_witness:
  "\<exists>t. UserGenerateJson int_fp demo_user (Some ''id createTime lastModifyTime'') = Some t
     \<and> UserParseJson int_fp t user0 = Some (demo_user\<lparr>u_id := 0\<rparr>)"
proof -
  have "user_without (Some ''id createTime lastModifyTime'') demo_user = demo_user\<lparr>u_id := 0\<rparr>"
    by (simp add: user_without_def kept_def removed_def demo_user_def user0_def)
  then show ?thesis
    using UserParseJson_UserGenerateJson [OF int_fp_ok demo_user_ok, of "Some ''id createTime lastModifyTime''"] by simp
qed

text \<open>
  A request is not checked before it is copied: when the member \<open>account\<close> of the document is no
  string (a null pointer to \<open>strcpy\<close>) or is longer than the array, \<open>UserParseJson\<close> is undefined.
\<close>

theorem UserParseJson_unchecked:
  assumes "cJSON_Parse F js = Some (Some root)" "cJSON_GetObjectItem root ''account'' = Some it"
    "case c_valuestring it of None \<Rightarrow> True | Some s \<Rightarrow> 20 \<le> length s"
  shows "UserParseJson F js obj = None"
proof -
  have "json_str 20 root ''account'' a = None" for a
    using assms(2,3) by (simp add: json_str_def split: option.splits)
  then show ?thesis by (simp add: UserParseJson_def assms(1))
qed

lemma UserParseJson_unchecked_witness:
  "\<exists>t. cJSON_Print int_fp (obj_of int_fp [(''account'', cJSON_CreateNumber int_fp 1)]) = Some t
     \<and> UserParseJson int_fp t user0 = None"
proof -
  let ?o = "obj_of int_fp [(''account'', cJSON_CreateNumber int_fp (fp_of_int int_fp 1))]"
  have "list_all (\<lambda>(n, i). no_nul n \<and> plain_item int_fp i)
      [(''account'', cJSON_CreateNumber int_fp (fp_of_int int_fp 1))]"
    by (simp add: in_int_iff no_nul_def code_def)
  from print_obj_of [OF int_fp_ok this] obtain t where
    t: "cJSON_Print int_fp ?o = Some t" "cJSON_Parse int_fp t = Some (Some ?o)" by blast
  have "cJSON_GetObjectItem ?o ''account'' = Some (set_string (Some ''account'')
      (cJSON_CreateNumber int_fp (fp_of_int int_fp 1)))"
    by (simp add: GetObjectItem_obj_of tolower_def code_def)
  then have "UserParseJson int_fp t user0 = None"
    by (rule UserParseJson_unchecked [OF t(2)]) (simp add: set_string_def cJSON_CreateNumber_def)
  then show ?thesis using t(1) by (auto simp: int_fp_def)
qed

end
