(* ===== verification/NoticeModel.thy ===== *)
theory NoticeModel
  imports SqlText
begin

text \<open>
  Notices: \<open>src/model/notice.c\<close>. The record has the fields of \<open>Notice\<close> (prefix \<open>n_\<close>).
\<close>

section \<open>The object\<close>

record notice =
  n_id :: int
  n_title :: string
  n_type :: string
  n_startTime :: int
  n_endTime :: int
  n_country :: string
  n_province :: string
  n_city :: string
  n_district :: string
  n_info :: string
  n_createTime :: int
  n_lastModifyTime :: int
  n_token :: string

text \<open>The object after \<open>memset(obj, 0, sizeof(Notice))\<close>.\<close>

definition notice0 :: notice where
  "notice0 = \<lparr>n_id = 0, n_title = [], n_type = [], n_startTime = 0, n_endTime = 0, n_country = [], n_province = [], n_city = [], n_district = [], n_info = [], n_createTime = 0, n_lastModifyTime = 0, n_token = []\<rparr>"

section \<open>Queries\<close>

definition NoticeGetWhereOrSetString :: "notice \<Rightarrow> int \<Rightarrow> string option" where
  "NoticeGetWhereOrSetString obj wos =
     do { let fl = sql_flag wos;
          st \<leftarrow> (if wos = W_AND
                then int_clause fl ''id'' (n_id obj) (sql_head wos, False)
                else Some (sql_head wos, False));
          st \<leftarrow> str_clause fl ''title'' (n_title obj) st;
          st \<leftarrow> str_clause fl ''type'' (n_type obj) st;
          st \<leftarrow> int_clause fl ''startTime'' (n_startTime obj) st;
          st \<leftarrow> map_option (\<lambda>r. (fst r, snd st)) (int_clause fl ''endTime'' (n_endTime obj) st);
          st \<leftarrow> str_clause fl ''country'' (n_country obj) st;
          st \<leftarrow> str_clause fl ''province'' (n_province obj) st;
          st \<leftarrow> str_clause fl ''city'' (n_city obj) st;
          st \<leftarrow> str_clause fl ''district'' (n_district obj) st;
          st \<leftarrow> str_clause fl ''info'' (n_info obj) st;
          st \<leftarrow> int_clause fl ''createTime'' (n_createTime obj) st;
          st \<leftarrow> int_clause fl ''lastModifyTime'' (n_lastModifyTime obj) st;
          Some (sql_end st) }"

text \<open>The \<open>insert\<close> statement; a value is quoted as it is.\<close>

definition notice_insert_values :: "notice \<Rightarrow> string list" where
  "notice_insert_values obj =
          [quote_sql (n_title obj), quote_sql (n_type obj),
           quote_sql (show_int (n_startTime obj)), quote_sql (show_int (n_endTime obj)),
           quote_sql (n_country obj), quote_sql (n_province obj), quote_sql (n_city obj),
           quote_sql (n_district obj), quote_sql (n_info obj),
           quote_sql (show_int (n_createTime obj)), quote_sql (show_int (n_lastModifyTime obj))]"

definition notice_insert_sql :: "notice \<Rightarrow> string" where
  "notice_insert_sql obj =
     ''insert into notice('' @ ''title,type,startTime,endTime,country,province,city,district,info,createTime,lastModifyTime'' @ '')'' @ tabs 4 @ ''value(''
       @ join '','' (notice_insert_values obj) @ '');''"

text \<open>The result code, the object with its identifier, and the database afterwards.\<close>

definition NoticeInsert :: "'w mysql \<Rightarrow> notice \<Rightarrow> 'w \<Rightarrow> ((int \<times> notice) \<times> 'w) option" where
  "NoticeInsert db obj w =
     do { sql \<leftarrow> sprintf_sql (''select * from notice where title='' @ quote_sql (n_title obj) @ '';'');
          let (result, w) = query_db db sql w;
          (case result of
             None \<Rightarrow> Some ((ERR_MYSQL_QUERY_FAIL, obj), w)
           | Some rows \<Rightarrow>
               if length rows \<ge> 1 then Some ((ERR_NOTICE_INSERT_DUPLICATE, obj), w)
               else do {
                 sql \<leftarrow> sprintf_sql (notice_insert_sql obj);
                 let (ret, w) = exec_db db sql w;
                 if ret \<noteq> 1 then Some ((ERR_NOTICE_INSERT_FAIL, obj), w)
                 else do {
                   sql \<leftarrow> sprintf_sql (''select id from notice where title='' @ quote_sql (n_title obj) @ '';'');
                   let (result, w) = query_db db sql w;
                   (case result of
                      None \<Rightarrow> Some ((ERR_MYSQL_QUERY_FAIL, obj), w)
                    | Some [] \<Rightarrow> Some ((ERR_NOTICE_QUERY_FAIL, obj), w)
                    | Some (sqlRow # _) \<Rightarrow> do { i \<leftarrow> col_int sqlRow 0; Some ((ret, obj\<lparr>n_id := i\<rparr>), w) }) } }) }"

definition NoticeQueryReturnItemNum :: "'w mysql \<Rightarrow> notice \<Rightarrow> 'w \<Rightarrow> (int \<times> 'w) option" where
  "NoticeQueryReturnItemNum db flt w =
     do { arg \<leftarrow> NoticeGetWhereOrSetString flt W_AND;
          sql \<leftarrow> sprintf_sql (''select count(*) from notice '' @ arg @ '';'');
          let (result, w) = query_db db sql w;
          (case result of
             None \<Rightarrow> Some (ERR_MYSQL_QUERY_FAIL, w)
           | Some [] \<Rightarrow> None
           | Some (sqlRow # _) \<Rightarrow> do { n \<leftarrow> col_int sqlRow 0; Some (n, w) }) }"

definition notice_of_row :: "row \<Rightarrow> notice option" where
  "notice_of_row sqlRow =
     do {
       v0 \<leftarrow> col_int sqlRow 0;
       v1 \<leftarrow> col_str 128 sqlRow 1;
       v2 \<leftarrow> col_str 2 sqlRow 2;
       v3 \<leftarrow> col_int sqlRow 3;
       v4 \<leftarrow> col_int sqlRow 4;
       v5 \<leftarrow> col_str 20 sqlRow 5;
       v6 \<leftarrow> col_str 20 sqlRow 6;
       v7 \<leftarrow> col_str 20 sqlRow 7;
       v8 \<leftarrow> col_str 20 sqlRow 8;
       v9 \<leftarrow> col_str 1024 sqlRow 9;
       v10 \<leftarrow> col_int sqlRow 10;
       v11 \<leftarrow> col_int sqlRow 11;
       Some (notice0\<lparr>n_id := v0, n_title := v1, n_type := v2, n_startTime := v3, n_endTime := v4, n_country := v5, n_province := v6, n_city := v7, n_district := v8, n_info := v9, n_createTime := v10, n_lastModifyTime := v11\<rparr>) }"

text \<open>The objects are \<open>None\<close> where \<open>*obj\<close> is not written.\<close>

definition NoticeQueryrReturnResult ::
  "'w mysql \<Rightarrow> string option \<Rightarrow> notice \<Rightarrow> int \<Rightarrow> int \<Rightarrow> 'w \<Rightarrow> ((int \<times> notice list option) \<times> 'w) option"
where
  "NoticeQueryrReturnResult db sqlManual flt limitFrom limitCount w =
     do { sql \<leftarrow> (case sqlManual of
             None \<Rightarrow> do {
               arg \<leftarrow> NoticeGetWhereOrSetString flt W_AND;
               if limitCount \<noteq> 0
               then sprintf_sql (''select * from notice '' @ arg @ '' limit '' @ show_int limitFrom @ '','' @ show_int limitCount @ '';'')
               else sprintf_sql (''select * from notice '' @ arg @ '' ;'') }
           | Some s \<Rightarrow> sprintf_sql s);
          let (result, w) = query_db db sql w;
          (case result of
             None \<Rightarrow> Some ((ERR_MYSQL_QUERY_FAIL, None), w)
           | Some rows \<Rightarrow>
               if rows = [] then Some ((0, None), w)
               else do {
                 objs \<leftarrow> those (map notice_of_row rows);
                 Some ((sint (of_nat (length rows) :: u32), Some objs), w) }) }"

definition NoticeModify :: "'w mysql \<Rightarrow> notice \<Rightarrow> 'w \<Rightarrow> (int \<times> 'w) option" where
  "NoticeModify db obj w =
     do { arg \<leftarrow> NoticeGetWhereOrSetString obj W_COMMA;
          sql \<leftarrow> sprintf_sql (''update notice '' @ arg @ '' where id='' @ quote_sql (show_int (n_id obj)) @ '';'');
          let (ret, w) = exec_db db sql w;
          Some (if ret < 0 then ERR_NOTICE_MODIFY_FAIL else ret, w) }"

definition NoticeDelete :: "'w mysql \<Rightarrow> notice \<Rightarrow> 'w \<Rightarrow> (int \<times> 'w) option" where
  "NoticeDelete db obj w =
     do { arg \<leftarrow> NoticeGetWhereOrSetString obj W_AND;
          sql \<leftarrow> sprintf_sql (''delete from notice '' @ arg @ '';'');
          let (ret, w) = exec_db db sql w;
          Some (if ret < 0 then ERR_NOTICE_DELETE_FAIL else ret, w) }"

section \<open>JSON\<close>

text \<open>The object afterwards; a text that does not parse leaves it as it is.\<close>

definition NoticeParseJson :: "'d fp \<Rightarrow> string \<Rightarrow> notice \<Rightarrow> notice option" where
  "NoticeParseJson F jsonString obj =
     do { json \<leftarrow> cJSON_Parse F jsonString;
          (case json of
             None \<Rightarrow> Some obj
           | Some json \<Rightarrow> do {
               let obj = obj\<lparr>n_id := json_int json ''id'' (n_id obj)\<rparr>;
               v \<leftarrow> json_str 20 json ''token'' (n_token obj);
               let obj = obj\<lparr>n_token := v\<rparr>;
               v \<leftarrow> json_str 128 json ''title'' (n_title obj);
               let obj = obj\<lparr>n_title := v\<rparr>;
               v \<leftarrow> json_str 2 json ''type'' (n_type obj);
               let obj = obj\<lparr>n_type := v\<rparr>;
               let obj = obj\<lparr>n_startTime := json_int json ''startTime'' (n_startTime obj)\<rparr>;
               let obj = obj\<lparr>n_endTime := json_int json ''endTime'' (n_endTime obj)\<rparr>;
               v \<leftarrow> json_str 20 json ''country'' (n_country obj);
               let obj = obj\<lparr>n_country := v\<rparr>;
               v \<leftarrow> json_str 20 json ''province'' (n_province obj);
               let obj = obj\<lparr>n_province := v\<rparr>;
               v \<leftarrow> json_str 20 json ''city'' (n_city obj);
               let obj = obj\<lparr>n_city := v\<rparr>;
               v \<leftarrow> json_str 20 json ''district'' (n_district obj);
               let obj = obj\<lparr>n_district := v\<rparr>;
               v \<leftarrow> json_str 1024 json ''info'' (n_info obj);
               let obj = obj\<lparr>n_info := v\<rparr>;
               let obj = obj\<lparr>n_createTime := json_int json ''createTime'' (n_createTime obj)\<rparr>;
               let obj = obj\<lparr>n_lastModifyTime := json_int json ''lastModifyTime'' (n_lastModifyTime obj)\<rparr>;
               Some obj }) }"

definition notice_json :: "'d fp \<Rightarrow> notice \<Rightarrow> string option \<Rightarrow> 'd cJSON" where
  "notice_json F obj removeField =
     (let root = cJSON_CreateObject F;
          root = add_int F removeField ''id'' (n_id obj) root;
          root = add_str F removeField ''title'' (n_title obj) root;
          root = add_str F removeField ''type'' (n_type obj) root;
          root = add_int F removeField ''startTime'' (n_startTime obj) root;
          root = add_int F removeField ''endTime'' (n_endTime obj) root;
          root = add_str F removeField ''country'' (n_country obj) root;
          root = add_str F removeField ''province'' (n_province obj) root;
          root = add_str F removeField ''city'' (n_city obj) root;
          root = add_str F removeField ''district'' (n_district obj) root;
          root = add_str F removeField ''info'' (n_info obj) root;
          root = add_int F removeField ''createTime'' (n_createTime obj) root;
          root = add_int F removeField ''lastModifyTime'' (n_lastModifyTime obj) root
      in root)"

definition NoticeGenerateJson :: "'d fp \<Rightarrow> notice \<Rightarrow> string option \<Rightarrow> string option" where
  "NoticeGenerateJson F obj removeField = cJSON_Print F (notice_json F obj removeField)"


section \<open>Well-formed objects\<close>

text \<open>Every string has room for its terminator and every number is an \<open>int\<close>.\<close>

definition notice_ok :: "notice \<Rightarrow> bool" where
  "notice_ok u \<longleftrightarrow>
     in_int (n_id u)
     \<and> length (n_title u) < 128 \<and> no_nul (n_title u)
     \<and> length (n_type u) < 2 \<and> no_nul (n_type u)
     \<and> in_int (n_startTime u)
     \<and> in_int (n_endTime u)
     \<and> length (n_country u) < 20 \<and> no_nul (n_country u)
     \<and> length (n_province u) < 20 \<and> no_nul (n_province u)
     \<and> length (n_city u) < 20 \<and> no_nul (n_city u)
     \<and> length (n_district u) < 20 \<and> no_nul (n_district u)
     \<and> length (n_info u) < 1024 \<and> no_nul (n_info u)
     \<and> in_int (n_createTime u)
     \<and> in_int (n_lastModifyTime u)
     \<and> length (n_token u) < 20 \<and> no_nul (n_token u)"

lemma notice_ok_fields:
  assumes "notice_ok u"
  shows "in_int (n_id u)"
    and "length (n_title u) \<le> 127" "no_nul (n_title u)"
    and "length (n_type u) \<le> 1" "no_nul (n_type u)"
    and "in_int (n_startTime u)"
    and "in_int (n_endTime u)"
    and "length (n_country u) \<le> 19" "no_nul (n_country u)"
    and "length (n_province u) \<le> 19" "no_nul (n_province u)"
    and "length (n_city u) \<le> 19" "no_nul (n_city u)"
    and "length (n_district u) \<le> 19" "no_nul (n_district u)"
    and "length (n_info u) \<le> 1023" "no_nul (n_info u)"
    and "in_int (n_createTime u)"
    and "in_int (n_lastModifyTime u)"
    and "length (n_token u) \<le> 19" "no_nul (n_token u)"
  using assms unfolding notice_ok_def by simp_all

lemma notice0_ok: "notice_ok notice0"
  by (simp add: notice_ok_def notice0_def in_int_iff no_nul_def)

definition notice_members :: "'d fp \<Rightarrow> string option \<Rightarrow> notice \<Rightarrow> (string \<times> 'd cJSON) list" where
  "notice_members F rf u =
     kv_int F rf ''id'' (n_id u)
     @ kv_str F rf ''title'' (n_title u)
     @ kv_str F rf ''type'' (n_type u)
     @ kv_int F rf ''startTime'' (n_startTime u)
     @ kv_int F rf ''endTime'' (n_endTime u)
     @ kv_str F rf ''country'' (n_country u)
     @ kv_str F rf ''province'' (n_province u)
     @ kv_str F rf ''city'' (n_city u)
     @ kv_str F rf ''district'' (n_district u)
     @ kv_str F rf ''info'' (n_info u)
     @ kv_int F rf ''createTime'' (n_createTime u)
     @ kv_int F rf ''lastModifyTime'' (n_lastModifyTime u)"

lemma notice_json_members: "notice_json F u rf = obj_of F (notice_members F rf u)"
  by (simp only: notice_json_def notice_members_def Let_def obj_of_empty add_obj_of append_assoc append_Nil)

lemma notice_members_ok:
  assumes "notice_ok u"
  shows "list_all (\<lambda>(n, i). no_nul n \<and> plain_item F i) (notice_members F rf u)"
  unfolding notice_members_def list_all_append
  by (intro conjI kv_ok notice_ok_fields [OF assms]) (simp_all add: no_nul_def code_def)

section \<open>Lemmas\<close>

lemma notice_names:
  shows "map tolower ''city'' = ''city''"
    "map tolower ''country'' = ''country''"
    "map tolower ''createTime'' = ''createtime''"
    "map tolower ''district'' = ''district''"
    "map tolower ''endTime'' = ''endtime''"
    "map tolower ''id'' = ''id''"
    "map tolower ''info'' = ''info''"
    "map tolower ''lastModifyTime'' = ''lastmodifytime''"
    "map tolower ''province'' = ''province''"
    "map tolower ''startTime'' = ''starttime''"
    "map tolower ''title'' = ''title''"
    "map tolower ''token'' = ''token''"
    "map tolower ''type'' = ''type''"
  by (simp_all add: tolower_def code_def)
    ((simp_all add: char_code_iff code_char_of, simp_all add: code_def)?)

lemma notice_json_fields:
  assumes F: "fp_ok F" and u: "notice_ok u"
    and t: "cJSON_Parse F t = Some (Some (obj_of F (notice_members F None u)))"
  shows "NoticeParseJson F t notice0 = Some (u\<lparr>n_token := []\<rparr>)"
proof -
  let ?root = "obj_of F (notice_members F None u)"
  note f = notice_ok_fields [OF u]
  have [simp]: "removed None nm = False" for nm by (simp add: removed_def)
  note names = notice_names
  have p0: "json_int ?root ''id'' 0 = n_id u"
    unfolding json_int_obj_of notice_members_def member_simps same_nocase_iff names by (simp add: F f)
  have p1: "json_str 20 ?root ''token'' [] = Some []"
    unfolding json_str_obj_of notice_members_def member_simps same_nocase_iff names by simp
  have p2: "json_str 128 ?root ''title'' [] = Some (n_title u)"
    unfolding json_str_obj_of notice_members_def member_simps same_nocase_iff names using f(2) by simp
  have p3: "json_str 2 ?root ''type'' [] = Some (n_type u)"
    unfolding json_str_obj_of notice_members_def member_simps same_nocase_iff names using f(4) by simp
  have p4: "json_int ?root ''startTime'' 0 = n_startTime u"
    unfolding json_int_obj_of notice_members_def member_simps same_nocase_iff names by (simp add: F f)
  have p5: "json_int ?root ''endTime'' 0 = n_endTime u"
    unfolding json_int_obj_of notice_members_def member_simps same_nocase_iff names by (simp add: F f)
  have p6: "json_str 20 ?root ''country'' [] = Some (n_country u)"
    unfolding json_str_obj_of notice_members_def member_simps same_nocase_iff names using f(8) by simp
  have p7: "json_str 20 ?root ''province'' [] = Some (n_province u)"
    unfolding json_str_obj_of notice_members_def member_simps same_nocase_iff names using f(10) by simp
  have p8: "json_str 20 ?root ''city'' [] = Some (n_city u)"
    unfolding json_str_obj_of notice_members_def member_simps same_nocase_iff names using f(12) by simp
  have p9: "json_str 20 ?root ''district'' [] = Some (n_district u)"
    unfolding json_str_obj_of notice_members_def member_simps same_nocase_iff names using f(14) by simp
  have p10: "json_str 1024 ?root ''info'' [] = Some (n_info u)"
    unfolding json_str_obj_of notice_members_def member_simps same_nocase_iff names using f(16) by simp
  have p11: "json_int ?root ''createTime'' 0 = n_createTime u"
    unfolding json_int_obj_of notice_members_def member_simps same_nocase_iff names by (simp add: F f)
  have p12: "json_int ?root ''lastModifyTime'' 0 = n_lastModifyTime u"
    unfolding json_int_obj_of notice_members_def member_simps same_nocase_iff names by (simp add: F f)
  show ?thesis
    unfolding NoticeParseJson_def t notice0_def
    by (simp add: p0 p1 p2 p3 p4 p5 p6 p7 p8 p9 p10 p11 p12)
qed

section \<open>Properties\<close>

text \<open>
  The JSON form of a notice: \<open>NoticeParseJson\<close> reads back what \<open>NoticeGenerateJson\<close> writes for a
  well-formed notice, except for the token, which is not part of it.
\<close>

theorem NoticeParseJson_NoticeGenerateJson:
  assumes "fp_ok F" "notice_ok u"
  shows "\<exists>t. NoticeGenerateJson F u None = Some t \<and> NoticeParseJson F t notice0 = Some (u\<lparr>n_token := []\<rparr>)"
proof -
  obtain t where t: "cJSON_Print F (obj_of F (notice_members F None u)) = Some t"
    "cJSON_Parse F t = Some (Some (obj_of F (notice_members F None u)))"
    using print_obj_of [OF assms(1) notice_members_ok [OF assms(2)]] by blast
  then show ?thesis
    using notice_json_fields [OF assms t(2)] by (auto simp: NoticeGenerateJson_def notice_json_members)
qed

lemma NoticeParseJson_NoticeGenerateJson_witness:
  "\<exists>t. NoticeGenerateJson int_fp (notice0\<lparr>n_title := ''sale''\<rparr>) None = Some t
    \<and> NoticeParseJson int_fp t notice0 = Some (notice0\<lparr>n_title := ''sale''\<rparr>)"
proof -
  have "notice_ok (notice0\<lparr>n_title := ''sale''\<rparr>)"
    by (simp add: notice0_def notice_ok_def in_int_iff no_nul_def code_def)
  from NoticeParseJson_NoticeGenerateJson [OF int_fp_ok this] show ?thesis by (simp add: notice0_def)
qed

text \<open>
  The clause for \<open>endTime\<close> does not set \<open>middleFlag\<close>. A notice whose first field set is \<open>endTime\<close>
  gets its next clause without the separator, which is not a condition of SQL.
\<close>

theorem notice_endTime_no_separator:
  assumes "in_int e" "e \<noteq> 0" "v \<noteq> []" "length v < 20"
  shows "NoticeGetWhereOrSetString (notice0\<lparr>n_endTime := e, n_country := v\<rparr>) W_AND
    = Some (''where '' @ clause_text ''endTime'' (show_int e) @ clause_text ''country'' v)"
  using assms show_int_length [OF assms(1)]
  by (simp add: NoticeGetWhereOrSetString_def notice0_def int_clause_def str_clause_def add_clause_def
      strcat_sql_def sprintf_sql_def SQL_LENGTH_def clause_text_def sql_head_def sql_end_def sql_flag_def Let_def)

lemma notice_endTime_no_separator_witness:
  "NoticeGetWhereOrSetString (notice0\<lparr>n_endTime := 5, n_country := ''cn''\<rparr>) W_AND
    = Some (''where '' @ clause_text ''endTime'' (show_int 5) @ clause_text ''country'' ''cn'')"
  by (rule notice_endTime_no_separator) (simp_all add: in_int_iff)

end
