(* ===== verification/AppVerModel.thy ===== *)
theory AppVerModel
  imports SqlText
begin

text \<open>
  Application versions: \<open>src/model/appVersion.c\<close>. The record has the fields of \<open>AppVer\<close> (prefix \<open>a_\<close>).
\<close>

section \<open>The object\<close>

record appver =
  a_id :: int
  a_type :: string
  a_name :: string
  a_version :: string
  a_level :: string
  a_path :: string
  a_releaseTime :: int
  a_createTime :: int
  a_lastModifyTime :: int
  a_token :: string

text \<open>The object after \<open>memset(obj, 0, sizeof(AppVer))\<close>.\<close>

definition appver0 :: appver where
  "appver0 = \<lparr>a_id = 0, a_type = [], a_name = [], a_version = [], a_level = [], a_path = [], a_releaseTime = 0, a_createTime = 0, a_lastModifyTime = 0, a_token = []\<rparr>"

section \<open>Queries\<close>

definition AppVerGetWhereOrSetString :: "appver \<Rightarrow> int \<Rightarrow> string option" where
  "AppVerGetWhereOrSetString obj wos =
     do { let fl = sql_flag wos;
          st \<leftarrow> (if wos = W_AND
                then int_clause fl ''id'' (a_id obj) (sql_head wos, False)
                else Some (sql_head wos, False));
          st \<leftarrow> str_clause fl ''type'' (a_type obj) st;
          st \<leftarrow> str_clause fl ''name'' (a_name obj) st;
          st \<leftarrow> str_clause fl ''version'' (a_version obj) st;
          st \<leftarrow> str_clause fl ''level'' (a_level obj) st;
          st \<leftarrow> str_clause fl ''path'' (a_path obj) st;
          st \<leftarrow> int_clause fl ''releaseTime'' (a_releaseTime obj) st;
          st \<leftarrow> int_clause fl ''createTime'' (a_createTime obj) st;
          st \<leftarrow> int_clause fl ''lastModifyTime'' (a_lastModifyTime obj) st;
          Some (sql_end st) }"

text \<open>The \<open>insert\<close> statement; a value is quoted as it is.\<close>

definition appver_insert_values :: "appver \<Rightarrow> string list" where
  "appver_insert_values obj =
          [quote_sql (a_type obj), quote_sql (a_name obj), quote_sql (a_version obj),
           quote_sql (a_level obj), quote_sql (a_path obj),
           quote_sql (show_int (a_releaseTime obj)), quote_sql (show_int (a_createTime obj)),
           quote_sql (show_int (a_lastModifyTime obj))]"

definition appver_insert_sql :: "appver \<Rightarrow> string" where
  "appver_insert_sql obj =
     ''insert into appver('' @ ''type,name,version,level,path,releaseTime,createTime,lastModifyTime'' @ '')'' @ tabs 4 @ ''value(''
       @ join '','' (appver_insert_values obj) @ '');''"

text \<open>The result code, the object with its identifier, and the database afterwards.\<close>

definition AppVerInsert :: "'w mysql \<Rightarrow> appver \<Rightarrow> 'w \<Rightarrow> ((int \<times> appver) \<times> 'w) option" where
  "AppVerInsert db obj w =
     do { sql \<leftarrow> sprintf_sql (''select * from appver where name='' @ quote_sql (a_name obj) @ '';'');
          let (result, w) = query_db db sql w;
          (case result of
             None \<Rightarrow> Some ((ERR_MYSQL_QUERY_FAIL, obj), w)
           | Some rows \<Rightarrow>
               if length rows \<ge> 1 then Some ((ERR_APP_UPDATE_INSERT_DUPLICATE, obj), w)
               else do {
                 sql \<leftarrow> sprintf_sql (appver_insert_sql obj);
                 let (ret, w) = exec_db db sql w;
                 if ret \<noteq> 1 then Some ((ERR_APP_UPDATE_INSERT_FAIL, obj), w)
                 else do {
                   sql \<leftarrow> sprintf_sql (''select id from appver where name='' @ quote_sql (a_name obj) @ '';'');
                   let (result, w) = query_db db sql w;
                   (case result of
                      None \<Rightarrow> Some ((ERR_MYSQL_QUERY_FAIL, obj), w)
                    | Some [] \<Rightarrow> Some ((ERR_APP_UPDATE_QUERY_FAIL, obj), w)
                    | Some (sqlRow # _) \<Rightarrow> do { i \<leftarrow> col_int sqlRow 0; Some ((ret, obj\<lparr>a_id := i\<rparr>), w) }) } }) }"

definition AppVerQueryReturnItemNum :: "'w mysql \<Rightarrow> appver \<Rightarrow> 'w \<Rightarrow> (int \<times> 'w) option" where
  "AppVerQueryReturnItemNum db flt w =
     do { arg \<leftarrow> AppVerGetWhereOrSetString flt W_AND;
          sql \<leftarrow> sprintf_sql (''select count(*) from appver '' @ arg @ '';'');
          let (result, w) = query_db db sql w;
          (case result of
             None \<Rightarrow> Some (ERR_MYSQL_QUERY_FAIL, w)
           | Some [] \<Rightarrow> None
           | Some (sqlRow # _) \<Rightarrow> do { n \<leftarrow> col_int sqlRow 0; Some (n, w) }) }"

definition appver_of_row :: "row \<Rightarrow> appver option" where
  "appver_of_row sqlRow =
     do {
       v0 \<leftarrow> col_int sqlRow 0;
       v1 \<leftarrow> col_str 20 sqlRow 1;
       v2 \<leftarrow> col_str 2 sqlRow 2;
       v3 \<leftarrow> col_str 20 sqlRow 3;
       v4 \<leftarrow> col_str 2 sqlRow 4;
       v5 \<leftarrow> col_str 256 sqlRow 5;
       v6 \<leftarrow> col_int sqlRow 6;
       v7 \<leftarrow> col_int sqlRow 7;
       v8 \<leftarrow> col_int sqlRow 8;
       Some (appver0\<lparr>a_id := v0, a_name := v1, a_type := v2, a_version := v3, a_level := v4, a_path := v5, a_releaseTime := v6, a_createTime := v7, a_lastModifyTime := v8\<rparr>) }"

text \<open>The objects are \<open>None\<close> where \<open>*obj\<close> is not written.\<close>

definition AppVerQueryrReturnResult ::
  "'w mysql \<Rightarrow> string option \<Rightarrow> appver \<Rightarrow> int \<Rightarrow> int \<Rightarrow> 'w \<Rightarrow> ((int \<times> appver list option) \<times> 'w) option"
where
  "AppVerQueryrReturnResult db sqlManual flt limitFrom limitCount w =
     do { sql \<leftarrow> (case sqlManual of
             None \<Rightarrow> do {
               arg \<leftarrow> AppVerGetWhereOrSetString flt W_AND;
               if limitCount \<noteq> 0
               then sprintf_sql (''select * from appver '' @ arg @ '' limit '' @ show_int limitFrom @ '','' @ show_int limitCount @ '';'')
               else sprintf_sql (''select * from appver '' @ arg @ '' ;'') }
           | Some s \<Rightarrow> sprintf_sql s);
          let (result, w) = query_db db sql w;
          (case result of
             None \<Rightarrow> Some ((ERR_MYSQL_QUERY_FAIL, None), w)
           | Some rows \<Rightarrow>
               if rows = [] then Some ((0, None), w)
               else do {
                 objs \<leftarrow> those (map appver_of_row rows);
                 Some ((sint (of_nat (length rows) :: u32), Some objs), w) }) }"

definition AppVerModify :: "'w mysql \<Rightarrow> appver \<Rightarrow> 'w \<Rightarrow> (int \<times> 'w) option" where
  "AppVerModify db obj w =
     do { arg \<leftarrow> AppVerGetWhereOrSetString obj W_COMMA;
          sql \<leftarrow> sprintf_sql (''update appver '' @ arg @ '' where id='' @ quote_sql (show_int (a_id obj)) @ '';'');
          let (ret, w) = exec_db db sql w;
          Some (if ret < 0 then ERR_APP_UPDATE_MODIFY_FAIL else ret, w) }"

definition AppVerDelete :: "'w mysql \<Rightarrow> appver \<Rightarrow> 'w \<Rightarrow> (int \<times> 'w) option" where
  "AppVerDelete db obj w =
     do { arg \<leftarrow> AppVerGetWhereOrSetString obj W_AND;
          sql \<leftarrow> sprintf_sql (''delete from appver '' @ arg @ '';'');
          let (ret, w) = exec_db db sql w;
          Some (if ret < 0 then ERR_APP_UPDATE_DELETE_FAIL else ret, w) }"

section \<open>JSON\<close>

text \<open>The object afterwards; a text that does not parse leaves it as it is.\<close>

definition AppVerParseJson :: "'d fp \<Rightarrow> string \<Rightarrow> appver \<Rightarrow> appver option" where
  "AppVerParseJson F jsonString obj =
     do { json \<leftarrow> cJSON_Parse F jsonString;
          (case json of
             None \<Rightarrow> Some obj
           | Some json \<Rightarrow> do {
               let obj = obj\<lparr>a_id := json_int json ''id'' (a_id obj)\<rparr>;
               v \<leftarrow> json_str 20 json ''token'' (a_token obj);
               let obj = obj\<lparr>a_token := v\<rparr>;
               v \<leftarrow> json_str 2 json ''type'' (a_type obj);
               let obj = obj\<lparr>a_type := v\<rparr>;
               v \<leftarrow> json_str 20 json ''name'' (a_name obj);
               let obj = obj\<lparr>a_name := v\<rparr>;
               v \<leftarrow> json_str 20 json ''version'' (a_version obj);
               let obj = obj\<lparr>a_version := v\<rparr>;
               v \<leftarrow> json_str 2 json ''level'' (a_level obj);
               let obj = obj\<lparr>a_level := v\<rparr>;
               v \<leftarrow> json_str 256 json ''path'' (a_path obj);
               let obj = obj\<lparr>a_path := v\<rparr>;
               let obj = obj\<lparr>a_releaseTime := json_int json ''releaseTime'' (a_releaseTime obj)\<rparr>;
               let obj = obj\<lparr>a_createTime := json_int json ''createTime'' (a_createTime obj)\<rparr>;
               let obj = obj\<lparr>a_lastModifyTime := json_int json ''lastModifyTime'' (a_lastModifyTime obj)\<rparr>;
               Some obj }) }"

definition appver_json :: "'d fp \<Rightarrow> appver \<Rightarrow> string option \<Rightarrow> 'd cJSON" where
  "appver_json F obj removeField =
     (let root = cJSON_CreateObject F;
          root = add_int F removeField ''id'' (a_id obj) root;
          root = add_str F removeField ''name'' (a_name obj) root;
          root = add_str F removeField ''type'' (a_type obj) root;
          root = add_str F removeField ''version'' (a_version obj) root;
          root = add_str F removeField ''level'' (a_level obj) root;
          root = add_str F removeField ''path'' (a_path obj) root;
          root = add_int F removeField ''releaseTime'' (a_releaseTime obj) root;
          root = add_int F removeField ''createTime'' (a_createTime obj) root;
          root = add_int F removeField ''lastModifyTime'' (a_lastModifyTime obj) root
      in root)"

definition AppVerGenerateJson :: "'d fp \<Rightarrow> appver \<Rightarrow> string option \<Rightarrow> string option" where
  "AppVerGenerateJson F obj removeField = cJSON_Print F (appver_json F obj removeField)"


section \<open>Well-formed objects\<close>

text \<open>Every string has room for its terminator and every number is an \<open>int\<close>.\<close>

definition appver_ok :: "appver \<Rightarrow> bool" where
  "appver_ok u \<longleftrightarrow>
     in_int (a_id u)
     \<and> length (a_type u) < 2 \<and> no_nul (a_type u)
     \<and> length (a_name u) < 20 \<and> no_nul (a_name u)
     \<and> length (a_version u) < 20 \<and> no_nul (a_version u)
     \<and> length (a_level u) < 2 \<and> no_nul (a_level u)
     \<and> length (a_path u) < 256 \<and> no_nul (a_path u)
     \<and> in_int (a_releaseTime u)
     \<and> in_int (a_createTime u)
     \<and> in_int (a_lastModifyTime u)
     \<and> length (a_token u) < 20 \<and> no_nul (a_token u)"

lemma appver_ok_fields:
  assumes "appver_ok u"
  shows "in_int (a_id u)"
    and "length (a_type u) \<le> 1" "no_nul (a_type u)"
    and "length (a_name u) \<le> 19" "no_nul (a_name u)"
    and "length (a_version u) \<le> 19" "no_nul (a_version u)"
    and "length (a_level u) \<le> 1" "no_nul (a_level u)"
    and "length (a_path u) \<le> 255" "no_nul (a_path u)"
    and "in_int (a_releaseTime u)"
    and "in_int (a_createTime u)"
    and "in_int (a_lastModifyTime u)"
    and "length (a_token u) \<le> 19" "no_nul (a_token u)"
  using assms unfolding appver_ok_def by simp_all

lemma appver0_ok: "appver_ok appver0"
  by (simp add: appver_ok_def appver0_def in_int_iff no_nul_def)

text \<open>The clauses of an object.\<close>

definition appver_clauses :: "appver \<Rightarrow> int \<Rightarrow> string list" where
  "appver_clauses u wos =
     (if wos = W_AND then opt_int ''id'' (a_id u) else [])
     @ opt_str ''type'' (a_type u)
     @ opt_str ''name'' (a_name u)
     @ opt_str ''version'' (a_version u)
     @ opt_str ''level'' (a_level u)
     @ opt_str ''path'' (a_path u)
     @ opt_int ''releaseTime'' (a_releaseTime u)
     @ opt_int ''createTime'' (a_createTime u)
     @ opt_int ''lastModifyTime'' (a_lastModifyTime u)"

definition appver_members :: "'d fp \<Rightarrow> string option \<Rightarrow> appver \<Rightarrow> (string \<times> 'd cJSON) list" where
  "appver_members F rf u =
     kv_int F rf ''id'' (a_id u)
     @ kv_str F rf ''name'' (a_name u)
     @ kv_str F rf ''type'' (a_type u)
     @ kv_str F rf ''version'' (a_version u)
     @ kv_str F rf ''level'' (a_level u)
     @ kv_str F rf ''path'' (a_path u)
     @ kv_int F rf ''releaseTime'' (a_releaseTime u)
     @ kv_int F rf ''createTime'' (a_createTime u)
     @ kv_int F rf ''lastModifyTime'' (a_lastModifyTime u)"

lemma appver_json_members: "appver_json F u rf = obj_of F (appver_members F rf u)"
  by (simp only: appver_json_def appver_members_def Let_def obj_of_empty add_obj_of append_assoc append_Nil)

lemma appver_members_ok:
  assumes "appver_ok u"
  shows "list_all (\<lambda>(n, i). no_nul n \<and> plain_item F i) (appver_members F rf u)"
  unfolding appver_members_def list_all_append
  by (intro conjI kv_ok appver_ok_fields [OF assms]) (simp_all add: no_nul_def code_def)

section \<open>Lemmas\<close>

lemma appver_clauses_size:
  assumes "appver_ok u"
  shows "clause_size (appver_clauses u wos) \<le> 472" "[] \<notin> set (appver_clauses u wos)"
proof -
  note f = appver_ok_fields [OF assms]
  have b0: "clause_size (opt_int ''id'' (a_id u)) \<le> 21"
    by (rule order_trans [OF clause_size_opt(2) [OF f(1)]]) simp
  have b1: "clause_size (opt_str ''type'' (a_type u)) \<le> 13"
    by (rule order_trans [OF clause_size_opt(1) [OF f(2)]]) simp
  have b2: "clause_size (opt_str ''name'' (a_name u)) \<le> 31"
    by (rule order_trans [OF clause_size_opt(1) [OF f(4)]]) simp
  have b3: "clause_size (opt_str ''version'' (a_version u)) \<le> 34"
    by (rule order_trans [OF clause_size_opt(1) [OF f(6)]]) simp
  have b4: "clause_size (opt_str ''level'' (a_level u)) \<le> 14"
    by (rule order_trans [OF clause_size_opt(1) [OF f(8)]]) simp
  have b5: "clause_size (opt_str ''path'' (a_path u)) \<le> 267"
    by (rule order_trans [OF clause_size_opt(1) [OF f(10)]]) simp
  have b6: "clause_size (opt_int ''releaseTime'' (a_releaseTime u)) \<le> 30"
    by (rule order_trans [OF clause_size_opt(2) [OF f(12)]]) simp
  have b7: "clause_size (opt_int ''createTime'' (a_createTime u)) \<le> 29"
    by (rule order_trans [OF clause_size_opt(2) [OF f(13)]]) simp
  have b8: "clause_size (opt_int ''lastModifyTime'' (a_lastModifyTime u)) \<le> 33"
    by (rule order_trans [OF clause_size_opt(2) [OF f(14)]]) simp
  show "clause_size (appver_clauses u wos) \<le> 472"
    unfolding appver_clauses_def using b0 b1 b2 b3 b4 b5 b6 b7 b8 by simp
  show "[] \<notin> set (appver_clauses u wos)" by (simp add: appver_clauses_def)
qed

lemma appver_where_text:
  assumes "appver_ok u"
  shows "AppVerGetWhereOrSetString u wos = Some (sql_text wos (appver_clauses u wos))"
proof -
  have "AppVerGetWhereOrSetString u wos
      = do { st \<leftarrow> add_clauses (sql_flag wos) (appver_clauses u wos) (sql_head wos, False); Some (sql_end st) }"
    by (simp add: AppVerGetWhereOrSetString_def appver_clauses_def clause_eqs add_clauses_append [symmetric] add_clauses_Nil Let_def)
  also have "\<dots> = Some (sql_text wos (appver_clauses u wos))"
  proof (rule sql_text_run)
    show "clause_size (appver_clauses u wos) \<le> 2040"
      using appver_clauses_size(1) [OF assms] by (rule order_trans) simp
  qed (rule appver_clauses_size(2) [OF assms])
  finally show ?thesis .
qed

lemma appver_names:
  shows "map tolower ''createTime'' = ''createtime''"
    "map tolower ''id'' = ''id''"
    "map tolower ''lastModifyTime'' = ''lastmodifytime''"
    "map tolower ''level'' = ''level''"
    "map tolower ''name'' = ''name''"
    "map tolower ''path'' = ''path''"
    "map tolower ''releaseTime'' = ''releasetime''"
    "map tolower ''token'' = ''token''"
    "map tolower ''type'' = ''type''"
    "map tolower ''version'' = ''version''"
  by (simp_all add: tolower_def code_def)
    ((simp_all add: char_code_iff code_char_of, simp_all add: code_def)?)

lemma appver_json_fields:
  assumes F: "fp_ok F" and u: "appver_ok u"
    and t: "cJSON_Parse F t = Some (Some (obj_of F (appver_members F None u)))"
  shows "AppVerParseJson F t appver0 = Some (u\<lparr>a_token := []\<rparr>)"
proof -
  let ?root = "obj_of F (appver_members F None u)"
  note f = appver_ok_fields [OF u]
  have [simp]: "removed None nm = False" for nm by (simp add: removed_def)
  note names = appver_names
  have p0: "json_int ?root ''id'' 0 = a_id u"
    unfolding json_int_obj_of appver_members_def member_simps same_nocase_iff names by (simp add: F f)
  have p1: "json_str 20 ?root ''token'' [] = Some []"
    unfolding json_str_obj_of appver_members_def member_simps same_nocase_iff names by simp
  have p2: "json_str 2 ?root ''type'' [] = Some (a_type u)"
    unfolding json_str_obj_of appver_members_def member_simps same_nocase_iff names using f(2) by simp
  have p3: "json_str 20 ?root ''name'' [] = Some (a_name u)"
    unfolding json_str_obj_of appver_members_def member_simps same_nocase_iff names using f(4) by simp
  have p4: "json_str 20 ?root ''version'' [] = Some (a_version u)"
    unfolding json_str_obj_of appver_members_def member_simps same_nocase_iff names using f(6) by simp
  have p5: "json_str 2 ?root ''level'' [] = Some (a_level u)"
    unfolding json_str_obj_of appver_members_def member_simps same_nocase_iff names using f(8) by simp
  have p6: "json_str 256 ?root ''path'' [] = Some (a_path u)"
    unfolding json_str_obj_of appver_members_def member_simps same_nocase_iff names using f(10) by simp
  have p7: "json_int ?root ''releaseTime'' 0 = a_releaseTime u"
    unfolding json_int_obj_of appver_members_def member_simps same_nocase_iff names by (simp add: F f)
  have p8: "json_int ?root ''createTime'' 0 = a_createTime u"
    unfolding json_int_obj_of appver_members_def member_simps same_nocase_iff names by (simp add: F f)
  have p9: "json_int ?root ''lastModifyTime'' 0 = a_lastModifyTime u"
    unfolding json_int_obj_of appver_members_def member_simps same_nocase_iff names by (simp add: F f)
  show ?thesis
    unfolding AppVerParseJson_def t appver0_def
    by (simp add: p0 p1 p2 p3 p4 p5 p6 p7 p8 p9)
qed

section \<open>Properties\<close>

text \<open>
  An application version is written and read back: \<open>AppVerParseJson\<close> of the text of
  \<open>AppVerGenerateJson\<close> is the version without its token, and its condition text is the reference
  text of its fields.
\<close>

theorem AppVer_json_and_sql:
  assumes "fp_ok F" "appver_ok u"
  shows "(\<exists>t. AppVerGenerateJson F u None = Some t \<and> AppVerParseJson F t appver0 = Some (u\<lparr>a_token := []\<rparr>))
    \<and> AppVerGetWhereOrSetString u wos = Some (sql_text wos (appver_clauses u wos))"
proof -
  obtain t where t: "cJSON_Print F (obj_of F (appver_members F None u)) = Some t"
    "cJSON_Parse F t = Some (Some (obj_of F (appver_members F None u)))"
    using print_obj_of [OF assms(1) appver_members_ok [OF assms(2)]] by blast
  then show ?thesis
    using appver_json_fields [OF assms t(2)] appver_where_text [OF assms(2)]
    by (auto simp: AppVerGenerateJson_def appver_json_members)
qed

lemma AppVer_json_and_sql_witness:
  "AppVerGetWhereOrSetString (appver0\<lparr>a_name := ''app''\<rparr>) W_AND = Some (''where '' @ clause_text ''name'' ''app'')"
proof -
  have "appver_ok (appver0\<lparr>a_name := ''app''\<rparr>)"
    by (simp add: appver0_def appver_ok_def in_int_iff no_nul_def code_def)
  from AppVer_json_and_sql [OF int_fp_ok this, of W_AND] show ?thesis
    by (simp add: appver0_def appver_clauses_def sql_text_def sql_head_def opt_str_def opt_int_def W_AND_def)
qed

end
