(* ===== verification/MsgGateway.thy ===== *)
theory MsgGateway
  imports ErrCode
begin

text \<open>
  The text-message gateway of \<open>src/service/massage_gateway.c\<close>. All three providers are the same stub:
  no message is sent and the code is a constant. The clock is an argument.
\<close>

record msgcode =
  m_code :: string
  m_freshTime :: int
  m_timeStamp :: int

definition msgcode0 :: msgcode where
  "msgcode0 = \<lparr>m_code = [], m_freshTime = 0, m_timeStamp = 0\<rparr>"

definition MSG_WANGYI :: int where "MSG_WANGYI = 1"
definition MSG_ALIYUN :: int where "MSG_ALIYUN = 2"
definition MSG_TENGXUN :: int where "MSG_TENGXUN = 3"

text \<open>\<open>time(0)\<close> stored into an \<open>int\<close>.\<close>

definition time_int :: "int \<Rightarrow> int" where
  "time_int t = sint (word_of_int t :: u32)"

definition msgWangyiCode :: "int \<Rightarrow> int \<Rightarrow> msgcode \<Rightarrow> int \<times> msgcode" where
  "msgWangyiCode now codeBits returnCode =
     (let returnCode = (if codeBits = 4 then returnCode\<lparr>m_code := ''8888''\<rparr> else returnCode);
          returnCode = (if codeBits = 6 then returnCode\<lparr>m_code := ''888888''\<rparr> else returnCode);
          returnCode = returnCode\<lparr>m_freshTime := 360\<rparr>;
          returnCode = returnCode\<lparr>m_timeStamp := time_int now\<rparr>
      in (0, returnCode))"

definition msgWangyiInfo :: "string \<Rightarrow> int" where
  "msgWangyiInfo info = 0"

definition msgGatewayCode :: "int \<Rightarrow> int \<Rightarrow> int \<Rightarrow> msgcode \<Rightarrow> int \<times> msgcode" where
  "msgGatewayCode now ty codeBits returnCode =
     (if ty = MSG_WANGYI then msgWangyiCode now codeBits returnCode
      else if ty = MSG_ALIYUN then msgWangyiCode now codeBits returnCode
      else if ty = MSG_TENGXUN then msgWangyiCode now codeBits returnCode
      else (ERR_UNDEFINED_MSG_GATEWAY, returnCode))"

definition msgGatewayInfo :: "int \<Rightarrow> string \<Rightarrow> int" where
  "msgGatewayInfo ty info =
     (if ty = MSG_WANGYI then msgWangyiInfo info
      else if ty = MSG_ALIYUN then msgWangyiInfo info
      else if ty = MSG_TENGXUN then msgWangyiInfo info
      else ERR_UNDEFINED_MSG_GATEWAY)"

text \<open>The code that \<open>verifyBefore\<close> asks for.\<close>

lemma msgGatewayCode_6:
  "msgGatewayCode now MSG_WANGYI 6 msgcode0
     = (0, \<lparr>m_code = ''888888'', m_freshTime = 360, m_timeStamp = time_int now\<rparr>)"
  by (simp add: msgGatewayCode_def msgWangyiCode_def msgcode0_def)

end
