(* ===== verification/Cache.thy ===== *)
theory Cache
  imports DictOps UserModel NoticeModel AppVerModel MsgGateway
begin

text \<open>
  The three caches of \<open>src/service/cache.c\<close>: a dictionary each, chosen by a number, under a spin lock
  each. Each call holds its lock for one dictionary operation, so that a call is one step. The
  pointers stored are the objects of the four types the service puts into a cache; which of them a
  pointer leads to is its constructor. A number that names no cache leaves the lock pointer null.
\<close>

datatype obj = OUser user | OMsgCode msgcode | OAppVer appver | ONotice notice

datatype slot = Token | Nick | Comm

record caches =
  tokenCache :: "(u8 list, obj) dict"
  nicknameCache :: "(u8 list, obj) dict"
  commonCache :: "(u8 list, obj) dict"

definition CACHE_TOKEN :: int where "CACHE_TOKEN = 1"
definition CACHE_NICK :: int where "CACHE_NICK = 2"
definition CACHE_COMM :: int where "CACHE_COMM = 3"

text \<open>Each dictionary is seeded with the process's hash seed.\<close>

definition createCache :: "u8 list \<Rightarrow> caches" where
  "createCache seed =
     \<lparr>tokenCache = dictCreateEx seed, nicknameCache = dictCreateEx seed, commonCache = dictCreateEx seed\<rparr>"

definition selectCache :: "int \<Rightarrow> int + slot" where
  "selectCache cache =
     (if cache = CACHE_TOKEN then Inr Token
      else if cache = CACHE_NICK then Inr Nick
      else if cache = CACHE_COMM then Inr Comm
      else Inl ERR_UNDEFINED_CACHE)"

fun get_cache :: "slot \<Rightarrow> caches \<Rightarrow> (u8 list, obj) dict" where
  "get_cache Token s = tokenCache s"
| "get_cache Nick s = nicknameCache s"
| "get_cache Comm s = commonCache s"

fun set_cache :: "slot \<Rightarrow> (u8 list, obj) dict \<Rightarrow> caches \<Rightarrow> caches" where
  "set_cache Token d s = s\<lparr>tokenCache := d\<rparr>"
| "set_cache Nick d s = s\<lparr>nicknameCache := d\<rparr>"
| "set_cache Comm d s = s\<lparr>commonCache := d\<rparr>"

text \<open>\<open>pthread_spin_lock(lock)\<close> with a null pointer is undefined.\<close>

definition with_cache ::
  "int \<Rightarrow> ((u8 list, obj) dict \<Rightarrow> ((u8 list, obj) dict \<times> 'r) option) \<Rightarrow> caches \<Rightarrow> (caches \<times> 'r) option"
where
  "with_cache cache f s =
     (case selectCache cache of
        Inl _ \<Rightarrow> None
      | Inr w \<Rightarrow> do { (d, r) \<leftarrow> f (get_cache w s); Some (set_cache w d s, r) })"

definition cacheInsert :: "bool \<Rightarrow> obj \<Rightarrow> int \<Rightarrow> caches \<Rightarrow> string \<Rightarrow> obj \<Rightarrow> (caches \<times> dict_status) option" where
  "cacheInsert cr junk cache s key x = with_cache cache (\<lambda>d. dictAdd cr junk d (bytes key) x) s"

definition cacheQuery :: "int \<Rightarrow> caches \<Rightarrow> string \<Rightarrow> (caches \<times> obj option) option" where
  "cacheQuery cache s key = with_cache cache (\<lambda>d. dictFetchValue d (bytes key)) s"

definition cacheModify :: "bool \<Rightarrow> obj \<Rightarrow> int \<Rightarrow> caches \<Rightarrow> string \<Rightarrow> obj \<Rightarrow> (caches \<times> bool) option" where
  "cacheModify cr junk cache s key x = with_cache cache (\<lambda>d. dictReplace cr junk d (bytes key) x) s"

definition cacheDelete :: "int \<Rightarrow> caches \<Rightarrow> string \<Rightarrow> (caches \<times> dict_status) option" where
  "cacheDelete cache s key = with_cache cache (\<lambda>d. dictDelete d (bytes key)) s"

section \<open>The contract of a cache\<close>

text \<open>A store that leaves the other stores alone: a key-value store with a view of the rest of the
  state that no operation changes.\<close>

locale framed_store = kv_store inv absm num room fetch add rep del
  for inv :: "'s \<Rightarrow> bool" and absm :: "'s \<Rightarrow> 'k \<Rightarrow> 'v option" and num :: "'s \<Rightarrow> nat" and room :: nat
    and fetch :: "'s \<Rightarrow> 'k \<Rightarrow> ('s \<times> 'v option) option"
    and add :: "'s \<Rightarrow> 'k \<Rightarrow> 'v \<Rightarrow> ('s \<times> dict_status) option"
    and rep :: "'s \<Rightarrow> 'k \<Rightarrow> 'v \<Rightarrow> ('s \<times> bool) option"
    and del :: "'s \<Rightarrow> 'k \<Rightarrow> ('s \<times> dict_status) option" +
  fixes frame :: "'s \<Rightarrow> 'f"
  assumes fetch_frame: "fetch s k = Some (s', r) \<Longrightarrow> frame s' = frame s"
    and add_frame: "add s k v = Some (s', r2) \<Longrightarrow> frame s' = frame s"
    and rep_frame: "rep s k v = Some (s', r3) \<Longrightarrow> frame s' = frame s"
    and del_frame: "del s k = Some (s', r2) \<Longrightarrow> frame s' = frame s"
begin

lemma run_frame: "kv_run fetch add rep del ops s = Some (s', rs) \<Longrightarrow> frame s' = frame s"
proof (induction ops arbitrary: s rs)
  case (Cons x ops)
  then show ?case
    by (cases x)
      (auto simp: bind_eq_Some_conv dest!: fetch_frame add_frame rep_frame del_frame; metis)+
qed simp

end

section \<open>The caches keep the contract\<close>

definition view :: "caches \<Rightarrow> slot \<Rightarrow> string \<Rightarrow> obj option" where
  "view s w k = dict_map (get_cache w s) (bytes k)"

definition entries_in :: "caches \<Rightarrow> slot \<Rightarrow> nat" where
  "entries_in s w = dictSize (get_cache w s)"

definition caches_ok :: "caches \<Rightarrow> bool" where
  "caches_ok s \<longleftrightarrow> (\<forall>w. dict_inv (get_cache w s))"

definition rest :: "slot \<Rightarrow> caches \<Rightarrow> slot \<Rightarrow> (u8 list, obj) dict option" where
  "rest w s v = (if v = w then None else Some (get_cache v s))"

lemma get_set_cache [simp]: "get_cache v (set_cache w d s) = (if v = w then d else get_cache v s)"
  by (cases v; cases w) simp_all

lemma rest_set_cache [simp]: "rest w (set_cache w d s) = rest w s"
  by (auto simp: rest_def)

lemma view_set_cache: "view (set_cache w d s) v k = (if v = w then dict_map d (bytes k) else view s v k)"
  by (simp add: view_def)

lemma selectCache_simps [simp]:
  "selectCache CACHE_TOKEN = Inr Token" "selectCache CACHE_NICK = Inr Nick" "selectCache CACHE_COMM = Inr Comm"
  by (simp_all add: selectCache_def CACHE_TOKEN_def CACHE_NICK_def CACHE_COMM_def)

lemma with_cache_Inr:
  "selectCache c = Inr w \<Longrightarrow>
   with_cache c f s = do { (d, r) \<leftarrow> f (get_cache w s); Some (set_cache w d s, r) }"
  by (simp add: with_cache_def)

lemma with_cache_rest: "selectCache c = Inr w \<Longrightarrow> with_cache c f s = Some (s', r) \<Longrightarrow> rest w s' = rest w s"
  by (auto simp: with_cache_def bind_eq_Some_conv)

lemma cache_framed:
  assumes c: "selectCache c = Inr w"
  shows "framed_store (\<lambda>s. dict_inv (get_cache w s)) (\<lambda>s. view s w) (\<lambda>s. entries_in s w) (2 ^ 30)
    (cacheQuery c) (cacheInsert cr junk c) (cacheModify cr junk c) (cacheDelete c) (rest w)"
proof unfold_locales
  note run = cacheQuery_def cacheInsert_def cacheModify_def cacheDelete_def with_cache_Inr [OF c]
  have upd: "dict_map d' = (dict_map d)(bytes k := v) \<Longrightarrow> (\<lambda>k. dict_map d' (bytes k)) = (\<lambda>k. dict_map d (bytes k))(k := v)"
    for d d' :: "(u8 list, obj) dict" and k v
    by (auto simp: fun_eq_iff)
  fix s :: caches and k
  {
    assume inv: "dict_inv (get_cache w s)"
    obtain d where "dictFetchValue (get_cache w s) (bytes k) = Some (d, view s w k)" "dict_inv d"
      "dict_map d = dict_map (get_cache w s)" "dictSize d = entries_in s w"
      using dict_kv.fetch_law [OF inv, of "bytes k"] unfolding view_def entries_in_def by blast
    then show "\<exists>s'. cacheQuery c s k = Some (s', view s w k) \<and> dict_inv (get_cache w s')
        \<and> view s' w = view s w \<and> entries_in s' w = entries_in s w"
      unfolding run by (simp add: fun_eq_iff view_def entries_in_def)
  next
    assume inv: "dict_inv (get_cache w s)"
    obtain d where "dictDelete (get_cache w s) (bytes k) = Some (d, if view s w k = None then DICT_ERR else DICT_OK)"
      "dict_inv d" "dict_map d = (dict_map (get_cache w s))(bytes k := None)" "dictSize d \<le> entries_in s w"
      using dict_kv.del_law [OF inv, of "bytes k"] unfolding view_def entries_in_def by blast
    then show "\<exists>s'. cacheDelete c s k = Some (s', if view s w k = None then DICT_ERR else DICT_OK)
        \<and> dict_inv (get_cache w s') \<and> view s' w = (view s w)(k := None) \<and> entries_in s' w \<le> entries_in s w"
      unfolding run by (auto simp: fun_eq_iff view_def entries_in_def)
  next
    fix v
    assume inv: "dict_inv (get_cache w s)" and room: "entries_in s w < 2 ^ 30"
    obtain d where "dictAdd cr junk (get_cache w s) (bytes k) v = Some (d, if view s w k = None then DICT_OK else DICT_ERR)"
      "dict_inv d" "dict_map d = (if view s w k = None then (dict_map (get_cache w s))(bytes k \<mapsto> v) else dict_map (get_cache w s))"
      "dictSize d \<le> Suc (entries_in s w)"
      using dict_kv.add_law [OF inv room [unfolded entries_in_def], of cr junk "bytes k" v]
      unfolding view_def entries_in_def by blast
    then show "\<exists>s'. cacheInsert cr junk c s k v = Some (s', if view s w k = None then DICT_OK else DICT_ERR)
        \<and> dict_inv (get_cache w s') \<and> view s' w = (if view s w k = None then (view s w)(k \<mapsto> v) else view s w)
        \<and> entries_in s' w \<le> Suc (entries_in s w)"
      unfolding run by (auto simp: fun_eq_iff view_def entries_in_def)
  next
    fix v
    assume inv: "dict_inv (get_cache w s)" and room: "entries_in s w < 2 ^ 30"
    obtain d where "dictReplace cr junk (get_cache w s) (bytes k) v = Some (d, view s w k = None)"
      "dict_inv d" "dict_map d = (dict_map (get_cache w s))(bytes k \<mapsto> v)" "dictSize d \<le> Suc (entries_in s w)"
      using dict_kv.rep_law [OF inv room [unfolded entries_in_def], of cr junk "bytes k" v]
      unfolding view_def entries_in_def by blast
    then show "\<exists>s'. cacheModify cr junk c s k v = Some (s', view s w k = None)
        \<and> dict_inv (get_cache w s') \<and> view s' w = (view s w)(k \<mapsto> v)
        \<and> entries_in s' w \<le> Suc (entries_in s w)"
      unfolding run by (auto simp: fun_eq_iff view_def entries_in_def)
  }
qed (auto simp: cacheQuery_def cacheInsert_def cacheModify_def cacheDelete_def dest!: with_cache_rest [OF c])

interpretation token_store: framed_store "\<lambda>s. dict_inv (get_cache Token s)" "\<lambda>s. view s Token"
  "\<lambda>s. entries_in s Token" "2 ^ 30" "cacheQuery CACHE_TOKEN" "cacheInsert cr junk CACHE_TOKEN"
  "cacheModify cr junk CACHE_TOKEN" "cacheDelete CACHE_TOKEN" "rest Token"
  by (rule cache_framed) simp

interpretation comm_store: framed_store "\<lambda>s. dict_inv (get_cache Comm s)" "\<lambda>s. view s Comm"
  "\<lambda>s. entries_in s Comm" "2 ^ 30" "cacheQuery CACHE_COMM" "cacheInsert cr junk CACHE_COMM"
  "cacheModify cr junk CACHE_COMM" "cacheDelete CACHE_COMM" "rest Comm"
  by (rule cache_framed) simp

section \<open>The caches together\<close>

lemma rest_eq:
  assumes "rest w s' = rest w s" "v \<noteq> w"
  shows "get_cache v s' = get_cache v s"
  using fun_cong [OF assms(1), of v] assms(2) by (simp add: rest_def)

lemma rest_view:
  assumes r: "rest w s' = rest w s" and inv: "dict_inv (get_cache w s')" and ok: "caches_ok s"
    and X: "view s' w = X"
  shows "caches_ok s'" "view s' = (view s)(w := X)" "v \<noteq> w \<Longrightarrow> entries_in s' v = entries_in s v"
proof -
  have "dict_inv (get_cache v s')" for v
    using rest_eq [OF r, of v] inv ok by (cases "v = w") (auto simp: caches_ok_def)
  then show "caches_ok s'" by (simp add: caches_ok_def)
  have "view s' v = ((view s)(w := X)) v" for v
  proof (cases "v = w")
    case True
    then show ?thesis using X by simp
  next
    case False
    then show ?thesis using rest_eq [OF r False] by (simp add: view_def fun_eq_iff)
  qed
  then show "view s' = (view s)(w := X)" by (rule ext)
  show "v \<noteq> w \<Longrightarrow> entries_in s' v = entries_in s v"
    using rest_eq [OF r] by (simp add: entries_in_def)
qed

lemma cacheQuery_ok:
  assumes ok: "caches_ok s" and c: "selectCache c = Inr w"
  shows "\<exists>s'. cacheQuery c s k = Some (s', view s w k)
    \<and> caches_ok s' \<and> view s' = view s
    \<and> (\<forall>v. entries_in s' v \<le> entries_in s v)"
proof -
  have inv: "dict_inv (get_cache w s)" using ok by (simp add: caches_ok_def)
  note F = cache_framed [OF c]
  obtain s' where s': "cacheQuery c s k = Some (s', view s w k)" "dict_inv (get_cache w s')"
    "view s' w = view s w" "entries_in s' w \<le> entries_in s w"
    using kv_store.fetch_law [OF framed_store.axioms(1) [OF F] inv] by (metis le_refl)
  note R = rest_view [OF framed_store.fetch_frame [OF F s'(1)] s'(2) ok s'(3)]
  have "entries_in s' v \<le> entries_in s v" for v
    using s'(4) R(3) [of v] by (cases "v = w") auto
  moreover have "view s' = view s" unfolding R(2) by (auto simp: fun_eq_iff)
  ultimately show ?thesis using s'(1) R(1) by blast
qed

lemma cacheInsert_ok:
  assumes ok: "caches_ok s" and c: "selectCache c = Inr w" and room: "entries_in s w < 2 ^ 30"
  shows "\<exists>s'. cacheInsert cr junk c s k x = Some (s', if view s w k = None then DICT_OK else DICT_ERR)
    \<and> caches_ok s' \<and> view s' = (if view s w k = None then (view s)(w := (view s w)(k \<mapsto> x)) else view s)
    \<and> (\<forall>v. entries_in s' v \<le> Suc (entries_in s v))"
proof -
  have inv: "dict_inv (get_cache w s)" using ok by (simp add: caches_ok_def)
  note F = cache_framed [OF c]
  obtain s' where s': "cacheInsert cr junk c s k x = Some (s', if view s w k = None then DICT_OK else DICT_ERR)" "dict_inv (get_cache w s')"
    "view s' w = (if view s w k = None then (view s w)(k \<mapsto> x) else view s w)" "entries_in s' w \<le> Suc (entries_in s w)"
    using kv_store.add_law [OF framed_store.axioms(1) [OF F] inv room] by (metis le_refl)
  note R = rest_view [OF framed_store.add_frame [OF F s'(1)] s'(2) ok s'(3)]
  have "entries_in s' v \<le> Suc (entries_in s v)" for v
    using s'(4) R(3) [of v] by (cases "v = w") auto
  moreover have "view s' = (if view s w k = None then (view s)(w := (view s w)(k \<mapsto> x)) else view s)" unfolding R(2) by (auto simp: fun_eq_iff)
  ultimately show ?thesis using s'(1) R(1) by blast
qed

lemma cacheModify_ok:
  assumes ok: "caches_ok s" and c: "selectCache c = Inr w" and room: "entries_in s w < 2 ^ 30"
  shows "\<exists>s'. cacheModify cr junk c s k x = Some (s', view s w k = None)
    \<and> caches_ok s' \<and> view s' = (view s)(w := (view s w)(k \<mapsto> x))
    \<and> (\<forall>v. entries_in s' v \<le> Suc (entries_in s v))"
proof -
  have inv: "dict_inv (get_cache w s)" using ok by (simp add: caches_ok_def)
  note F = cache_framed [OF c]
  obtain s' where s': "cacheModify cr junk c s k x = Some (s', view s w k = None)" "dict_inv (get_cache w s')"
    "view s' w = (view s w)(k \<mapsto> x)" "entries_in s' w \<le> Suc (entries_in s w)"
    using kv_store.rep_law [OF framed_store.axioms(1) [OF F] inv room] by (metis le_refl)
  note R = rest_view [OF framed_store.rep_frame [OF F s'(1)] s'(2) ok s'(3)]
  have "entries_in s' v \<le> Suc (entries_in s v)" for v
    using s'(4) R(3) [of v] by (cases "v = w") auto
  moreover have "view s' = (view s)(w := (view s w)(k \<mapsto> x))" unfolding R(2) by (auto simp: fun_eq_iff)
  ultimately show ?thesis using s'(1) R(1) by blast
qed

lemma cacheDelete_ok:
  assumes ok: "caches_ok s" and c: "selectCache c = Inr w"
  shows "\<exists>s'. cacheDelete c s k = Some (s', if view s w k = None then DICT_ERR else DICT_OK)
    \<and> caches_ok s' \<and> view s' = (view s)(w := (view s w)(k := None))
    \<and> (\<forall>v. entries_in s' v \<le> entries_in s v)"
proof -
  have inv: "dict_inv (get_cache w s)" using ok by (simp add: caches_ok_def)
  note F = cache_framed [OF c]
  obtain s' where s': "cacheDelete c s k = Some (s', if view s w k = None then DICT_ERR else DICT_OK)" "dict_inv (get_cache w s')"
    "view s' w = (view s w)(k := None)" "entries_in s' w \<le> entries_in s w"
    using kv_store.del_law [OF framed_store.axioms(1) [OF F] inv] by (metis le_refl)
  note R = rest_view [OF framed_store.del_frame [OF F s'(1)] s'(2) ok s'(3)]
  have "entries_in s' v \<le> entries_in s v" for v
    using s'(4) R(3) [of v] by (cases "v = w") auto
  moreover have "view s' = (view s)(w := (view s w)(k := None))" unfolding R(2) by (auto simp: fun_eq_iff)
  ultimately show ?thesis using s'(1) R(1) by blast
qed

lemma createCache_ok [simp]:
  "caches_ok (createCache seed)" "view (createCache seed) w k = None" "entries_in (createCache seed) w = 0"
proof -
  have g: "get_cache v (createCache seed) = dictCreateEx seed" for v
    by (cases v) (simp_all add: createCache_def)
  show "caches_ok (createCache seed)" "view (createCache seed) w k = None" "entries_in (createCache seed) w = 0"
    by (simp_all add: caches_ok_def view_def entries_in_def g)
qed

section \<open>Properties\<close>

text \<open>
  C24: The three caches are independent maps. An insertion never overwrites: it binds a new key and
  leaves the cache as it is, with an error, when the key is there; a modification binds the key in
  any case; a deletion unbinds it; a query changes nothing a caller can see. No operation touches the
  other two caches, and a number that names no cache is an undefined execution (a null lock).
\<close>

theorem cache_operations:
  assumes "caches_ok s" "\<forall>w. entries_in s w < 2 ^ 30"
  shows "case selectCache c of
      Inl e \<Rightarrow> cacheQuery c s k = None \<and> cacheInsert cr junk c s k x = None
        \<and> cacheModify cr junk c s k x = None \<and> cacheDelete c s k = None
    | Inr w \<Rightarrow>
        (\<exists>s'. cacheQuery c s k = Some (s', view s w k) \<and> caches_ok s' \<and> view s' = view s)
        \<and> (\<exists>s'. cacheInsert cr junk c s k x = Some (s', if view s w k = None then DICT_OK else DICT_ERR)
            \<and> caches_ok s' \<and> view s' = (if view s w k = None then (view s)(w := (view s w)(k \<mapsto> x)) else view s))
        \<and> (\<exists>s'. cacheModify cr junk c s k x = Some (s', view s w k = None)
            \<and> caches_ok s' \<and> view s' = (view s)(w := (view s w)(k \<mapsto> x)))
        \<and> (\<exists>s'. cacheDelete c s k = Some (s', if view s w k = None then DICT_ERR else DICT_OK)
            \<and> caches_ok s' \<and> view s' = (view s)(w := (view s w)(k := None)))"
proof (cases "selectCache c")
  case (Inl e)
  then show ?thesis
    by (simp add: cacheQuery_def cacheInsert_def cacheModify_def cacheDelete_def with_cache_def)
next
  case (Inr w)
  have room: "entries_in s w < 2 ^ 30" using assms(2) by blast
  show ?thesis
    unfolding Inr sum.case
    using cacheQuery_ok [OF assms(1) Inr, of k] cacheInsert_ok [OF assms(1) Inr room, of cr junk k x]
      cacheModify_ok [OF assms(1) Inr room, of cr junk k x] cacheDelete_ok [OF assms(1) Inr, of k]
    by blast
qed

lemma cache_operations_witness:
  "\<exists>s'. cacheInsert True (OUser user0) CACHE_COMM (createCache (replicate 16 0)) ''13800000000'' (OMsgCode msgcode0)
      = Some (s', DICT_OK) \<and> view s' Comm ''13800000000'' = Some (OMsgCode msgcode0)"
proof -
  have "\<forall>w. entries_in (createCache (replicate 16 0)) w < 2 ^ 30" by simp
  from cache_operations [OF createCache_ok(1) this, of CACHE_COMM "''13800000000''" True "OUser user0" "OMsgCode msgcode0"]
  obtain s' where s': "cacheInsert True (OUser user0) CACHE_COMM (createCache (replicate 16 0)) ''13800000000'' (OMsgCode msgcode0)
      = Some (s', if view (createCache (replicate 16 0)) Comm ''13800000000'' = None then DICT_OK else DICT_ERR)"
    "view s' = (if view (createCache (replicate 16 0)) Comm ''13800000000'' = None
        then (view (createCache (replicate 16 0)))(Comm := (view (createCache (replicate 16 0)) Comm)(''13800000000'' \<mapsto> OMsgCode msgcode0))
        else view (createCache (replicate 16 0)))"
    unfolding selectCache_simps sum.case by blast
  then show ?thesis by simp
qed

end
