(* ===== verification/Config.thy ===== *)
theory Config
  imports DictOps StrUtil ErrCode
begin

text \<open>
  The configuration of \<open>utils/config.c\<close>: the file is read line by line and each \<open>key=value\<close> line is
  entered into a dictionary. The file is the text that \<open>fgets\<close> delivers (no NUL in it); a value is
  \<open>None\<close> where \<open>Trim\<close> returned the null pointer. \<open>print_config\<close> only logs and is not modelled.
\<close>

type_synonym config = "(u8 list, string option) dict"

definition LF :: char where "LF = CHR 0x0A"
definition CR :: char where "CR = CHR 0x0D"

text \<open>\<open>fgets(buf, n + 1, f)\<close>: at most \<open>n\<close> characters, up to and with a newline.\<close>

fun fgets :: "nat \<Rightarrow> string \<Rightarrow> string \<times> string" where
  "fgets 0 s = ([], s)"
| "fgets (Suc n) [] = ([], [])"
| "fgets (Suc n) (c # s) = (if c = LF then ([c], s) else apfst ((#) c) (fgets n s))"

text \<open>The text before the first \<open>=\<close> and the text after it.\<close>

fun split_eq :: "string \<Rightarrow> (string \<times> string) option" where
  "split_eq [] = None"
| "split_eq (c # s) = (if c = CHR ''='' then Some ([], s) else map_option (apfst ((#) c)) (split_eq s))"

text \<open>The loop that ends the value at a line end leaves the first character alone.\<close>

definition cut_value :: "string \<Rightarrow> string" where
  "cut_value rightArg =
     (case rightArg of [] \<Rightarrow> [] | c # r \<Rightarrow> c # takeWhile (\<lambda>x. x \<noteq> LF \<and> x \<noteq> CR) r)"

text \<open>One line: the dictionary and the line buffer as the code leaves it. A null key is read by the
  hash function, which is undefined.\<close>

definition config_line ::
  "bool \<Rightarrow> string option \<Rightarrow> config \<Rightarrow> string \<Rightarrow> (config \<times> string) option"
where
  "config_line cr junk d buff_line =
     (if take 1 buff_line = ''#'' \<or> take 1 buff_line = [LF] \<or> take 1 buff_line = [CR]
      then Some (d, buff_line)
      else
        (case split_eq buff_line of
           None \<Rightarrow> Some (d, buff_line)
         | Some (leftArg, rightArg) \<Rightarrow> do {
             key \<leftarrow> Trim leftArg;
             (d, _) \<leftarrow> dictAdd cr junk d (bytes key) (Trim (cut_value rightArg));
             Some (d, leftArg) }))"

text \<open>The loop. At the end of the file \<open>fgets\<close> leaves the buffer as it is and the buffer is processed
  once more; before the first line it is not initialised. The end-of-file flag is set when \<open>fgets\<close>
  ran into the end.\<close>

definition hit_eof :: "string \<Rightarrow> string \<Rightarrow> bool" where
  "hit_eof line rest \<longleftrightarrow> rest = [] \<and> length line < 511 \<and> (line = [] \<or> last line \<noteq> LF)"

lemma fgets_split: "fgets n s = (line, rest) \<Longrightarrow> s = line @ rest"
  by (induction n s arbitrary: line rule: fgets.induct) (auto split: if_splits prod.splits simp: apfst_def map_prod_def)

lemma fgets_nonempty: "fgets (Suc n) s = (line, rest) \<Longrightarrow> s \<noteq> [] \<Longrightarrow> line \<noteq> []"
  by (cases s) (auto simp: apfst_def map_prod_def split: if_splits prod.splits)

lemma fgets_shorter: "f \<noteq> [] \<Longrightarrow> (line, rest) = fgets 511 f \<Longrightarrow> length rest < length f"
  using fgets_nonempty [of 510 f line rest] fgets_split [of 511 f line rest] by simp

function configer_loop ::
  "bool \<Rightarrow> string option \<Rightarrow> config \<Rightarrow> string option \<Rightarrow> string \<Rightarrow> config option"
where
  "configer_loop cr junk d buff_line file =
     (if file = [] then do { b \<leftarrow> buff_line; (d, _) \<leftarrow> config_line cr junk d b; Some d }
      else
        (case fgets 511 file of
           (line, rest) \<Rightarrow> do {
             (d, b) \<leftarrow> config_line cr junk d line;
             if hit_eof line rest then Some d else configer_loop cr junk d (Some b) rest }))"
  by pat_completeness auto
termination
  by (relation "measure (\<lambda>(cr, junk, d, b, f). length f)") (auto intro: fgets_shorter)

declare configer_loop.simps [simp del]

definition configerInit :: "bool \<Rightarrow> string option \<Rightarrow> u8 list \<Rightarrow> string option \<Rightarrow> (config \<times> int) option" where
  "configerInit cr junk seed confFile =
     (let dict_config = dictCreateEx seed
      in case confFile of
           None \<Rightarrow> Some (dict_config, ERR_CONFIG_FILE_OPEN_FAIL)
         | Some file \<Rightarrow> map_option (\<lambda>d. (d, RETURN_OK)) (configer_loop cr junk dict_config None file))"

definition configerUnInit :: "config \<Rightarrow> u8 list list \<times> string option list" where
  "configerUnInit d = dictRelease d"

definition getConfig :: "config \<Rightarrow> string \<Rightarrow> (config \<times> string option) option" where
  "getConfig d key =
     do { (d, v) \<leftarrow> dictFetchValue d (bytes key); Some (d, case v of None \<Rightarrow> None | Some s \<Rightarrow> s) }"

definition setConfig ::
  "bool \<Rightarrow> string option \<Rightarrow> config \<Rightarrow> string \<Rightarrow> string \<Rightarrow> (config \<times> bool) option"
where
  "setConfig cr junk d key v = dictReplace cr junk d (bytes key) (Some v)"

definition addConfig ::
  "bool \<Rightarrow> string option \<Rightarrow> config \<Rightarrow> string \<Rightarrow> string \<Rightarrow> (config \<times> dict_status) option"
where
  "addConfig cr junk d key v = dictAdd cr junk d (bytes key) (Some v)"

section \<open>Files of comments and assignments\<close>

datatype conf_line = Comment string | Assign string string

fun line_text :: "conf_line \<Rightarrow> string" where
  "line_text (Comment c) = CHR ''#'' # c @ [LF]"
| "line_text (Assign k v) = k @ CHR ''='' # v @ [LF]"

fun line_ok :: "conf_line \<Rightarrow> bool" where
  "line_ok (Comment c) \<longleftrightarrow> LF \<notin> set c \<and> length c < 500"
| "line_ok (Assign k v) \<longleftrightarrow> k \<noteq> [] \<and> hd k \<noteq> CHR ''#'' \<and> {LF, CR, CHR ''=''} \<inter> set k = {}
     \<and> v \<noteq> [] \<and> {LF, CR} \<inter> set v = {} \<and> length k + length v < 500"

fun bindings :: "conf_line list \<Rightarrow> (string \<times> string) list" where
  "bindings [] = []"
| "bindings (Comment c # ls) = bindings ls"
| "bindings (Assign k v # ls) = (Trim_loop k, Trim_loop v) # bindings ls"

definition spent :: "string \<Rightarrow> bool" where
  "spent b \<longleftrightarrow> take 1 b = ''#'' \<or> take 1 b = [LF] \<or> take 1 b = [CR] \<or> split_eq b = None"

lemma config_line_spent: "spent b \<Longrightarrow> config_line cr junk d b = Some (d, b)"
  by (auto simp: spent_def config_line_def)

lemma fgets_line: "LF \<notin> set t \<Longrightarrow> length t < n \<Longrightarrow> fgets n (t @ LF # rest) = (t @ [LF], rest)"
  by (induction n "t @ LF # rest" arbitrary: t rule: fgets.induct) (auto simp: Cons_eq_append_conv)

lemma split_eq_none: "CHR ''='' \<notin> set k \<Longrightarrow> split_eq k = None"
  by (induction k) auto

lemma split_eq_at: "CHR ''='' \<notin> set k \<Longrightarrow> split_eq (k @ CHR ''='' # v) = Some (k, v)"
  by (induction k) auto

lemma cut_value_line: "v \<noteq> [] \<Longrightarrow> {LF, CR} \<inter> set v = {} \<Longrightarrow> cut_value (v @ [LF]) = v"
  by (cases v) (auto simp: cut_value_def, subst takeWhile_append2, auto)

lemma line_read: "line_ok l \<Longrightarrow> fgets 511 (line_text l @ rest) = (line_text l, rest)"
proof (cases l)
  case (Comment c)
  assume "line_ok l"
  then show ?thesis using fgets_line [of "CHR ''#'' # c" 511 rest] Comment by (simp add: LF_def)
next
  case (Assign k v)
  assume "line_ok l"
  then show ?thesis using fgets_line [of "k @ CHR ''='' # v" 511 rest] Assign by (auto simp: LF_def)
qed

lemma config_line_ok:
  assumes l: "line_ok l" and d: "dict_inv d" "dictSize d < 2 ^ 30"
  shows "\<exists>d' b. config_line cr junk d (line_text l) = Some (d', b) \<and> spent b \<and> dict_inv d'
    \<and> dictSize d' \<le> Suc (dictSize d)
    \<and> dict_map d' = map_of (map (\<lambda>(k, v). (bytes k, Some v)) (bindings [l])) ++ dict_map d"
proof (cases l)
  case (Comment c)
  then show ?thesis using d by (auto simp: config_line_def spent_def)
next
  case (Assign k v)
  have ok: "k \<noteq> []" "hd k \<noteq> CHR ''#''" "LF \<notin> set k" "CR \<notin> set k" "CHR ''='' \<notin> set k"
    "v \<noteq> []" "{LF, CR} \<inter> set v = {}"
    using l Assign by auto
  obtain c k' where k: "k = c # k'" using ok(1) by (cases k) auto
  have t: "\<not> (take 1 (line_text l) = ''#'' \<or> take 1 (line_text l) = [LF] \<or> take 1 (line_text l) = [CR])"
    using ok k Assign by auto
  have sp: "split_eq (line_text l) = Some (k, v @ [LF])" using split_eq_at ok(5) Assign by simp
  have sk: "spent k" using split_eq_none [OF ok(5)] by (simp add: spent_def)
  have run: "config_line cr junk d (line_text l)
      = do { (d, _) \<leftarrow> dictAdd cr junk d (bytes (Trim_loop k)) (Some (Trim_loop v)); Some (d, k) }"
    unfolding config_line_def if_not_P [OF t] sp
    using ok by (simp add: cut_value_line Trim_def)
  obtain d' r where d': "dictAdd cr junk d (bytes (Trim_loop k)) (Some (Trim_loop v)) = Some (d', r)" "dict_inv d'"
    "dict_map d' = (if dict_map d (bytes (Trim_loop k)) = None
        then (dict_map d)(bytes (Trim_loop k) \<mapsto> Some (Trim_loop v)) else dict_map d)"
    "dictSize d' \<le> Suc (dictSize d)"
    using dict_kv.add_law [OF d, of cr junk "bytes (Trim_loop k)" "Some (Trim_loop v)"] by blast
  have "dict_map d' = map_of (map (\<lambda>(k, v). (bytes k, Some v)) (bindings [l])) ++ dict_map d"
    unfolding d'(3) Assign by (auto simp: fun_eq_iff map_add_def split: option.split)
  then show ?thesis using run d' sk by auto
qed

lemma hit_eof_line: "line_ok l \<Longrightarrow> \<not> hit_eof (line_text l) rest"
  by (cases l) (auto simp: hit_eof_def)

lemma line_text_nonempty: "line_text l \<noteq> []"
  by (cases l) auto

lemma configer_loop_lines:
  "list_all line_ok ls \<Longrightarrow> dict_inv d \<Longrightarrow> dictSize d + length ls < 2 ^ 30 \<Longrightarrow>
   (ls = [] \<Longrightarrow> \<exists>b. buf = Some b \<and> spent b) \<Longrightarrow>
   \<exists>d'. configer_loop cr junk d buf (concat (map line_text ls)) = Some d' \<and> dict_inv d'
     \<and> dict_map d' = map_of (map (\<lambda>(k, v). (bytes k, Some v)) (bindings ls)) ++ dict_map d"
proof (induction ls arbitrary: d buf)
  case Nil
  then show ?case by (auto simp: configer_loop.simps [of _ _ _ _ "[]"] config_line_spent)
next
  case (Cons l ls)
  have l: "line_ok l" and room: "dictSize d < 2 ^ 30" using Cons.prems by simp_all
  obtain d1 b where d1: "config_line cr junk d (line_text l) = Some (d1, b)" "spent b" "dict_inv d1"
    "dictSize d1 \<le> Suc (dictSize d)"
    "dict_map d1 = map_of (map (\<lambda>(k, v). (bytes k, Some v)) (bindings [l])) ++ dict_map d"
    using config_line_ok [OF l Cons.prems(2) room, of cr junk] by blast
  have run: "configer_loop cr junk d buf (concat (map line_text (l # ls)))
      = configer_loop cr junk d1 (Some b) (concat (map line_text ls))"
    using line_read [OF l, of "concat (map line_text ls)"] hit_eof_line [OF l] d1(1) line_text_nonempty [of l]
    by (simp add: configer_loop.simps [of _ _ _ _ "line_text l @ _"])
  have "dictSize d1 + length ls < 2 ^ 30" using d1(4) Cons.prems(3) by simp
  from Cons.IH [OF _ d1(3) this, of "Some b"] obtain d' where
    d': "configer_loop cr junk d1 (Some b) (concat (map line_text ls)) = Some d'" "dict_inv d'"
    "dict_map d' = map_of (map (\<lambda>(k, v). (bytes k, Some v)) (bindings ls)) ++ dict_map d1"
    using Cons.prems(1) d1(2) by auto
  have "bindings (l # ls) = bindings [l] @ bindings ls" by (cases l) simp_all
  then show ?case using run d'(1,2) d'(3) d1(5) by (simp add: map_add_assoc)
qed

section \<open>Properties\<close>

text \<open>
  Reading a configuration. For a file of comment lines and assignments (no line end or \<open>=\<close> in a
  key, no empty value, lines shorter than the buffer), \<open>configerInit\<close> succeeds, although its loop
  processes the last line twice, and \<open>getConfig\<close> returns for each key the value of its first
  assignment, both with their blanks removed.
\<close>

theorem configerInit_lookup:
  assumes "list_all line_ok lines" "lines \<noteq> []" "length lines < 2 ^ 30"
  shows "\<exists>d. configerInit cr junk seed (Some (concat (map line_text lines))) = Some (d, RETURN_OK)
    \<and> (\<forall>key. \<exists>d'. getConfig d key = Some (d', map_of (bindings lines) key))"
proof -
  obtain d where d: "configer_loop cr junk (dictCreateEx seed) None (concat (map line_text lines)) = Some d"
    "dict_inv d" "dict_map d = map_of (map (\<lambda>(k, v). (bytes k, Some v)) (bindings lines))"
    using configer_loop_lines [OF assms(1) dictCreateEx_facts(1), where buf = None and cr = cr and junk = junk] assms by auto
  have m: "dict_map d (bytes key) = map_option Some (map_of (bindings lines) key)" for key
    unfolding d(3) by (induction lines rule: bindings.induct) auto
  have "\<exists>d'. getConfig d key = Some (d', map_of (bindings lines) key)" for key
  proof -
    obtain d' where "dictFetchValue d (bytes key) = Some (d', dict_map d (bytes key))"
      using dict_kv.fetch_value [OF d(2)] by blast
    then show ?thesis by (cases "map_of (bindings lines) key") (auto simp: getConfig_def m)
  qed
  then show ?thesis using d(1) by (auto simp: configerInit_def)
qed

lemma configerInit_lookup_witness:
  "\<exists>d d'. configerInit True None (replicate 16 0)
      (Some (line_text (Comment '' port'') @ line_text (Assign ''ServerPort '' '' 8888'') @ line_text (Assign ''ServerPort'' ''1'')))
      = Some (d, RETURN_OK) \<and> getConfig d ''ServerPort'' = Some (d', Some ''8888'')"
proof -
  let ?l = "[Comment '' port'', Assign ''ServerPort '' '' 8888'', Assign ''ServerPort'' ''1'']"
  have "list_all line_ok ?l" by (simp add: LF_def CR_def)
  from configerInit_lookup [OF this, of True None "replicate 16 0"]
  obtain d where d: "configerInit True None (replicate 16 0) (Some (concat (map line_text ?l))) = Some (d, RETURN_OK)"
    "\<forall>key. \<exists>d'. getConfig d key = Some (d', map_of (bindings ?l) key)" by auto
  moreover obtain d' where "getConfig d ''ServerPort'' = Some (d', map_of (bindings ?l) ''ServerPort'')"
    using d(2) by blast
  ultimately show ?thesis by (intro exI [of _ d] exI [of _ d']) simp
qed

text \<open>
  Two lines a configuration file may hold and the reader mishandles: a line that starts with \<open>=\<close>
  hands a null key to the hash function, and an empty value at the end of a line is stored as the
  line end itself.
\<close>

theorem config_bad_lines:
  "config_line cr junk d (CHR ''='' # v) = None
   \<and> (k \<noteq> [] \<and> hd k \<notin> {CHR ''#'', LF, CR} \<and> CHR ''='' \<notin> set k \<and> dict_inv d \<and> dictSize d < 2 ^ 30
        \<and> dict_map d (bytes (Trim_loop k)) = None
      \<longrightarrow> (\<exists>d' b. config_line cr junk d (k @ ''='' @ [LF]) = Some (d', b)
            \<and> dict_map d' (bytes (Trim_loop k)) = Some (Some [LF])))"
proof
  show "config_line cr junk d (CHR ''='' # v) = None"
    by (simp add: config_line_def Trim_def LF_def CR_def)
  show "k \<noteq> [] \<and> hd k \<notin> {CHR ''#'', LF, CR} \<and> CHR ''='' \<notin> set k \<and> dict_inv d \<and> dictSize d < 2 ^ 30
        \<and> dict_map d (bytes (Trim_loop k)) = None
      \<longrightarrow> (\<exists>d' b. config_line cr junk d (k @ ''='' @ [LF]) = Some (d', b)
            \<and> dict_map d' (bytes (Trim_loop k)) = Some (Some [LF]))"
  proof (intro impI, elim conjE)
    assume k: "k \<noteq> []" "hd k \<notin> {CHR ''#'', LF, CR}" "CHR ''='' \<notin> set k"
      and d: "dict_inv d" "dictSize d < 2 ^ 30" "dict_map d (bytes (Trim_loop k)) = None"
    obtain c k' where ck: "k = c # k'" using k(1) by (cases k) auto
    have t: "\<not> (take 1 (k @ ''='' @ [LF]) = ''#'' \<or> take 1 (k @ ''='' @ [LF]) = [LF] \<or> take 1 (k @ ''='' @ [LF]) = [CR])"
      using k ck by simp
    obtain d' where d': "dictAdd cr junk d (bytes (Trim_loop k)) (Some [LF]) = Some (d', DICT_OK)"
      "dict_map d' = (dict_map d)(bytes (Trim_loop k) \<mapsto> Some [LF])"
      using dict_kv.add_new [OF d] by blast
    have "config_line cr junk d (k @ ''='' @ [LF]) = Some (d', k)"
      unfolding config_line_def if_not_P [OF t]
      using split_eq_at [OF k(3), of "[LF]"] k(1) d'(1) by (simp add: cut_value_def Trim_def LF_def)
    then show "\<exists>d' b. config_line cr junk d (k @ ''='' @ [LF]) = Some (d', b)
            \<and> dict_map d' (bytes (Trim_loop k)) = Some (Some [LF])"
      using d'(2) by auto
  qed
qed

lemma config_bad_lines_witness:
  "config_line True None (dictCreateEx (replicate 16 0)) ''=1'' = None
   \<and> (\<exists>d' b. config_line True None (dictCreateEx (replicate 16 0)) (''a'' @ ''='' @ [LF]) = Some (d', b)
        \<and> dict_map d' (bytes (Trim_loop ''a'')) = Some (Some [LF]))"
  using config_bad_lines [of True None "dictCreateEx (replicate 16 0)" "''1''" "''a''"]
  by (auto simp: LF_def CR_def)

end
