(* ===== verification/Route.thy ===== *)
theory Route
  imports DictOps StrUtil
begin

text \<open>
  The routing table of \<open>utils/function_route.c\<close> and the registration of
  \<open>src/service/service.c\<close>. The table maps the request path to a function; a function pointer is
  the constructor named after the function.
\<close>

datatype route_fun =
    verifyBefore | verifyAfter | userRegister | userLogin | userStatus | userLogout
  | userModify | userDelete | noticeGet | appVer | say_hello | r_31501

text \<open>\<open>function_route_dict\<close>, \<open>None\<close> before \<open>init_function_route\<close>.\<close>

type_synonym route_table = "(u8 list, route_fun) dict option"

definition init_function_route :: "u8 list \<Rightarrow> route_table" where
  "init_function_route seed = Some (dictCreateNoFreeValue seed)"

definition add_function_route ::
  "bool \<Rightarrow> route_fun \<Rightarrow> route_table \<Rightarrow> u8 list \<Rightarrow> route_fun \<Rightarrow> (route_table \<times> bool) option"
where
  "add_function_route cr junk t key f =
     do { d \<leftarrow> t; (d, r) \<leftarrow> dictReplace cr junk d key f; Some (Some d, r) }"

definition delete_function_route :: "route_table \<Rightarrow> u8 list \<Rightarrow> (route_table \<times> dict_status) option" where
  "delete_function_route t key = do { d \<leftarrow> t; (d, r) \<leftarrow> dictDelete d key; Some (Some d, r) }"

definition get_function_route :: "route_table \<Rightarrow> u8 list \<Rightarrow> (route_table \<times> route_fun option) option" where
  "get_function_route t key = do { d \<leftarrow> t; (d, r) \<leftarrow> dictFetchValue d key; Some (Some d, r) }"

text \<open>The pointers handed to \<open>free\<close>.\<close>

definition uninit_function_route :: "route_table \<Rightarrow> u8 list list option" where
  "uninit_function_route t = do { d \<leftarrow> t; Some (fst (dictRelease d)) }"

section \<open>Registration\<close>

text \<open>The calls of \<open>regist_service\<close>, in its order.\<close>

definition service_routes :: "(string \<times> route_fun) list" where
  "service_routes =
     [(''verifyBefore'', verifyBefore),
      (''verifyAfter'', verifyAfter),
      (''userRegister'', userRegister),
      (''userLogin'', userLogin),
      (''userStatus'', userStatus),
      (''userLogout'', userLogout),
      (''userModify'', userModify),
      (''userDelete'', userDelete),
      (''noticeGet'', noticeGet),
      (''appVer'', appVer),
      (''sayhello'', say_hello),
      (''r_31501'', r_31501)]"

definition regist_routes :: "bool \<Rightarrow> route_fun \<Rightarrow> u8 list \<Rightarrow> route_table option" where
  "regist_routes cr junk seed =
     rep_list (add_function_route cr junk) (map (apfst bytes) service_routes) (init_function_route seed)"

section \<open>Lemmas\<close>

lemma rep_list_route:
  "rep_list (add_function_route cr junk) kvs (Some d) =
     map_option Some (rep_list (dictReplace cr junk) kvs d)"
  by (induction "add_function_route cr junk" kvs "Some d" arbitrary: d rule: rep_list.induct)
    (auto simp: add_function_route_def split: option.splits prod.splits bind_splits)

lemma dictCreateNoFreeValue_facts [simp]:
  "dict_inv (dictCreateNoFreeValue seed)" "dict_map (dictCreateNoFreeValue seed) = Map.empty"
  "dictSize (dictCreateNoFreeValue seed) = 0"
  using dictCreate_inv [OF type_ok_Benchmark(2), of seed]
  by (auto simp: dictCreateNoFreeValue_def) (simp_all add: dictSize_def dictCreate_def dictReset_def)

lemma regist_routes_ok:
  "\<exists>d. regist_routes cr junk seed = Some (Some d) \<and> dict_inv d
     \<and> d_type d = BenchmarkDictTypeNoFreeValue seed \<and> freed_keys d = []
     \<and> dict_map d = map_of (rev (map (apfst bytes) service_routes))"
proof -
  have "dictSize (dictCreateNoFreeValue seed :: (u8 list, route_fun) dict)
      + length (map (apfst bytes) service_routes) < 2 ^ 30"
    by (simp add: service_routes_def)
  from dictReplace_list [OF dictCreateNoFreeValue_facts(1) this, of cr junk]
  show ?thesis
    by (auto simp: regist_routes_def init_function_route_def rep_list_route map_option_case
        simp del: map_of_map)
      (simp_all add: dictCreateNoFreeValue_def dictCreate_def)
qed

lemma map_of_bytes: "map_of (map (apfst bytes) xs) (bytes k) = map_of xs k"
  by (induction xs) auto

text \<open>The table while the server runs: lookups move its entries but not what it maps.\<close>

definition routes_ok :: "route_table \<Rightarrow> bool" where
  "routes_ok t \<longleftrightarrow> (\<exists>d. t = Some d \<and> dict_inv d \<and> dict_map d = map_of (rev (map (apfst bytes) service_routes)))"

lemma regist_routes_routes_ok: "\<exists>t. regist_routes cr junk seed = Some t \<and> routes_ok t"
  using regist_routes_ok [of cr junk seed] unfolding routes_ok_def by blast

lemma get_function_route_ok:
  assumes "routes_ok t"
  shows "\<exists>t'. get_function_route t (bytes path) = Some (t', map_of service_routes path) \<and> routes_ok t'"
proof -
  obtain d where d: "t = Some d" "dict_inv d" "dict_map d = map_of (rev (map (apfst bytes) service_routes))"
    using assms by (auto simp: routes_ok_def)
  have m: "map fst (map (apfst bytes) service_routes) = map bytes (map fst service_routes)" by simp
  have "distinct (map fst service_routes)" by (simp add: service_routes_def)
  then have "distinct (map fst (map (apfst bytes) service_routes))"
    unfolding m by (simp add: distinct_map inj_on_def)
  then have mp: "dict_map d (bytes path) = map_of service_routes path"
    by (simp only: d(3) map_of_rev_distinct map_of_bytes)
  obtain d' where "dictFetchValue d (bytes path) = Some (d', dict_map d (bytes path))" "dict_inv d'" "dict_map d' = dict_map d"
    using dict_kv.fetch_value [OF d(2)] by blast
  then show ?thesis using d mp by (auto simp: get_function_route_def routes_ok_def)
qed

section \<open>Properties\<close>

text \<open>
  After \<open>regist_service\<close> a request path is answered by exactly the function registered under
  it: the twelve paths by their functions, every other path by none.
\<close>

theorem routes_dispatch:
  "\<exists>t. regist_routes cr junk seed = Some t \<and>
     (\<exists>t'. get_function_route t (bytes path) = Some (t', map_of service_routes path))"
  using regist_routes_routes_ok [of cr junk seed] get_function_route_ok by blast

text \<open>
  \<open>uninit_function_route\<close> passes the twelve string literals of \<open>regist_service\<close>, which were
  never allocated, to \<open>free\<close>: the type of the table has a key destructor.
\<close>

theorem uninit_frees_literals:
  "\<exists>t ks. regist_routes cr junk seed = Some t \<and> uninit_function_route t = Some ks
     \<and> distinct ks \<and> set ks = bytes ` fst ` set service_routes"
proof -
  obtain d where d: "regist_routes cr junk seed = Some (Some d)" "dict_inv d"
    "d_type d = BenchmarkDictTypeNoFreeValue seed" "freed_keys d = []"
    "dict_map d = map_of (rev (map (apfst bytes) service_routes))"
    using regist_routes_ok by blast
  have ok: "dict_ok d" using d(2) by (simp add: dict_inv_def)
  have u: "uninit_function_route (Some d) = Some (rev (map e_key (entries d)))"
    using dictRelease_eq [OF ok] d(3,4)
    by (simp add: uninit_function_route_def keys_freed_def BenchmarkDictTypeNoFreeValue_def
        BenchmarkDictType_def)
  moreover have "distinct (rev (map e_key (entries d)))" using ok by (simp add: dict_ok_def)
  moreover have "set (rev (map e_key (entries d))) = bytes ` fst ` set service_routes"
    using keys_dom [OF ok] by (simp add: d(5) dom_map_of_conv_image_fst image_image)
  ultimately show ?thesis using d(1) by blast
qed

end
