(* ===== verification/MysqlPool.thy ===== *)
theory MysqlPool
  imports SqlText ErrCode "HOL-Library.Multiset"
begin

text \<open>
  The connection pool of \<open>utils/mysql_connection_pool.c\<close>. The client library and the clock are a record
  of functions on the state \<open>'w\<close> of the outside: \<open>my_connect\<close> gives a connection or fails, \<open>my_close\<close>
  accepts \<open>NULL\<close>, \<open>my_time\<close> is \<open>time(NULL)\<close>. The list of free blocks is the FIFO queue of \<open>ListRep\<close>; the
  spin lock makes taking and returning a block one step. \<open>mysql_options\<close> is called after the
  connection is made and changes nothing.
\<close>

section \<open>State\<close>

record 'w client =
  my_connect :: "'w \<Rightarrow> nat option \<times> 'w"
  my_close :: "nat option \<Rightarrow> 'w \<Rightarrow> 'w"
  my_time :: "'w \<Rightarrow> int \<times> 'w"

record sqlConfig =
  sc_ip :: string
  sc_port :: int
  sc_account :: string
  sc_password :: string
  sc_databaseName :: string
  connectionTimeout :: int
  connectCount :: int

record MysqlBlock =
  b_conn :: "nat option"
  lastUseTime :: int

record pool =
  sqlC :: sqlConfig
  slq_list :: "MysqlBlock list"
  g_mysql_conn_enable :: bool

definition empty_block :: MysqlBlock where "empty_block = \<lparr>b_conn = None, lastUseTime = 0\<rparr>"

text \<open>\<open>lastUseTime\<close> is an \<open>unsigned int\<close>.\<close>

definition stamp :: "int \<Rightarrow> int" where "stamp t = t mod 2 ^ 32"

section \<open>Operations\<close>

text \<open>The loop of \<open>mysqlConnectionPoolInit\<close>: the list so far and whether all connections were made.\<close>

fun pool_init_loop :: "'w client \<Rightarrow> nat \<Rightarrow> MysqlBlock list \<Rightarrow> 'w \<Rightarrow> MysqlBlock list \<times> bool \<times> 'w" where
  "pool_init_loop cl 0 bs w = (bs, True, w)"
| "pool_init_loop cl (Suc n) bs w =
     (let (c, w) = my_connect cl w in
      case c of
        None \<Rightarrow> (bs, False, w)
      | Some conn \<Rightarrow>
          let (t, w) = my_time cl w
          in pool_init_loop cl n (bs @ [\<lparr>b_conn = Some conn, lastUseTime = stamp t\<rparr>]) w)"

fun close_all :: "'w client \<Rightarrow> MysqlBlock list \<Rightarrow> 'w \<Rightarrow> 'w" where
  "close_all cl [] w = w"
| "close_all cl (b # bs) w = close_all cl bs (my_close cl (b_conn b) w)"

definition mysqlConnectionPoolUnInit :: "'w client \<Rightarrow> pool \<Rightarrow> 'w \<Rightarrow> pool \<times> 'w" where
  "mysqlConnectionPoolUnInit cl p w =
     (if \<not> g_mysql_conn_enable p then (p, w)
      else (p\<lparr>slq_list := [], g_mysql_conn_enable := False\<rparr>, close_all cl (slq_list p) w))"

text \<open>The connections of a new pool; when one fails, the release finds the pool not enabled.\<close>

definition pool_connect :: "'w client \<Rightarrow> nat \<Rightarrow> pool \<Rightarrow> 'w \<Rightarrow> pool \<times> int \<times> 'w" where
  "pool_connect cl n p w =
     (let (bs, ok, w) = pool_init_loop cl n [] w;
          p = p\<lparr>slq_list := bs\<rparr>
      in if ok then (p\<lparr>g_mysql_conn_enable := True\<rparr>, 0, w)
         else let (p, w) = mysqlConnectionPoolUnInit cl p w in (p, ERR_DATABASE_CONNECT_FAIL, w))"

text \<open>The strings are copied into arrays of fixed size; the port is a \<open>short\<close>.\<close>

definition mysqlConnectionPoolInit ::
  "'w client \<Rightarrow> string \<Rightarrow> string \<Rightarrow> string \<Rightarrow> string \<Rightarrow> string \<Rightarrow> string \<Rightarrow> string \<Rightarrow> pool \<Rightarrow> 'w \<Rightarrow> (pool \<times> int \<times> 'w) option"
where
  "mysqlConnectionPoolInit cl ip port account password db timeout cnt p w =
     do { guard (length ip < 16); guard (length account < 32); guard (length password < 32); guard (length db < 32);
          prt \<leftarrow> atoi port; t \<leftarrow> atoi timeout; n \<leftarrow> atoi cnt;
          let p = p\<lparr>sqlC := \<lparr>sc_ip = ip, sc_port = sint (word_of_int prt :: 16 word), sc_account = account, sc_password = password,
                             sc_databaseName = db, connectionTimeout = t, connectCount = n\<rparr>, slq_list := []\<rparr>;
          Some (pool_connect cl (nat n) p w) }"

definition mysqlReconnect :: "'w client \<Rightarrow> MysqlBlock \<Rightarrow> 'w \<Rightarrow> int \<times> MysqlBlock \<times> 'w" where
  "mysqlReconnect cl block w =
     (let w = my_close cl (b_conn block) w;
          (c, w) = my_connect cl w
      in case c of
           None \<Rightarrow> (-1, empty_block, w)
         | Some conn \<Rightarrow> let (t, w) = my_time cl w in (0, \<lparr>b_conn = Some conn, lastUseTime = stamp t\<rparr>, w))"

text \<open>\<open>mysqlConnectionPool_GetOneConn\<close>; \<open>None\<close> is a call that does not return.\<close>

partial_function (option) mysqlConnectionPool_GetOneConn ::
  "'w client \<Rightarrow> pool \<Rightarrow> 'w \<Rightarrow> (MysqlBlock option \<times> pool \<times> 'w) option"
where
  "mysqlConnectionPool_GetOneConn cl p w =
     (if \<not> g_mysql_conn_enable p then Some (None, p, w)
      else
        case slq_list p of
          block # bs \<Rightarrow>
            (case my_time cl w of
               (t, w1) \<Rightarrow>
                 if t - lastUseTime block > connectionTimeout (sqlC p)
                 then
                   (case mysqlReconnect cl block w1 of
                      (r, block', w2) \<Rightarrow>
                        if r \<noteq> 0 then mysqlConnectionPool_GetOneConn cl (p\<lparr>slq_list := bs\<rparr>) w2
                        else Some (Some block', p\<lparr>slq_list := bs\<rparr>, w2))
                 else Some (Some block, p\<lparr>slq_list := bs\<rparr>, w1))
        | [] \<Rightarrow>
            (case mysqlReconnect cl empty_block w of
               (r, block', w2) \<Rightarrow>
                 if r \<noteq> 0 then mysqlConnectionPool_GetOneConn cl p w2
                 else Some (Some block', p, w2)))"

definition mysqlConnectionPool_FreeOneConn :: "MysqlBlock \<Rightarrow> pool \<Rightarrow> pool" where
  "mysqlConnectionPool_FreeOneConn block p =
     (if \<not> g_mysql_conn_enable p then p else p\<lparr>slq_list := slq_list p @ [block]\<rparr>)"

section \<open>The client library\<close>

text \<open>
  What the pool relies on: the set of open connections, to which a connect adds a new one and from
  which a close takes the one it is given.
\<close>

definition client_ok :: "'w client \<Rightarrow> ('w \<Rightarrow> nat set) \<Rightarrow> bool" where
  "client_ok cl opn \<longleftrightarrow>
     (\<forall>w. case my_connect cl w of
            (None, w') \<Rightarrow> opn w' = opn w
          | (Some c, w') \<Rightarrow> c \<notin> opn w \<and> opn w' = insert c (opn w))
     \<and> (\<forall>w c. opn (my_close cl c w) = opn w - set_option c)
     \<and> (\<forall>w. opn (snd (my_time cl w)) = opn w)"

lemma client_connect:
  assumes "client_ok cl opn" "my_connect cl w = (c, w')"
  shows "c = None \<and> opn w' = opn w \<or> (\<exists>x. c = Some x \<and> x \<notin> opn w \<and> opn w' = insert x (opn w))"
proof -
  have "\<forall>w. case my_connect cl w of (None, w') \<Rightarrow> opn w' = opn w | (Some c, w') \<Rightarrow> c \<notin> opn w \<and> opn w' = insert c (opn w)"
    using assms(1) unfolding client_ok_def by (rule conjunct1)
  from spec [OF this, of w] show ?thesis using assms(2) by (cases c) simp_all
qed

lemma client_close: "client_ok cl opn \<Longrightarrow> opn (my_close cl c w) = opn w - set_option c"
  by (simp add: client_ok_def)

lemma client_time: "client_ok cl opn \<Longrightarrow> my_time cl w = (t, w') \<Longrightarrow> opn w' = opn w"
proof -
  assume ok: "client_ok cl opn" and t: "my_time cl w = (t, w')"
  from ok have "opn (snd (my_time cl w)) = opn w" by (simp add: client_ok_def)
  then show ?thesis using t by simp
qed

section \<open>Who holds which connection\<close>

text \<open>The blocks of the pool and those the callers hold are open connections, each held once.\<close>

definition conns :: "MysqlBlock list \<Rightarrow> nat option list" where
  "conns bs = map b_conn bs"

definition held_once :: "('w \<Rightarrow> nat set) \<Rightarrow> MysqlBlock list \<Rightarrow> 'w \<Rightarrow> bool" where
  "held_once opn bs w \<longleftrightarrow> distinct (conns bs) \<and> None \<notin> set (conns bs) \<and> the ` set (conns bs) \<subseteq> opn w"

lemma conns_simps [simp]:
  "conns [] = []" "conns (b # bs) = b_conn b # conns bs" "conns (bs @ cs) = conns bs @ conns cs"
  by (simp_all add: conns_def)

lemma held_once_perm: "mset bs = mset cs \<Longrightarrow> held_once opn bs w = held_once opn cs w"
proof -
  assume m: "mset bs = mset cs"
  then have "mset (conns bs) = mset (conns cs)" by (simp add: conns_def)
  then show ?thesis unfolding held_once_def
    by (metis mset_eq_imp_distinct_iff mset_eq_setD)
qed

lemma held_once_mono: "held_once opn bs w \<Longrightarrow> opn w \<subseteq> opn w' \<Longrightarrow> held_once opn bs w'"
  by (auto simp: held_once_def)

lemma held_once_tail: "held_once opn (b # bs) w \<Longrightarrow> held_once opn bs w"
  by (simp add: held_once_def)

lemma held_once_close:
  assumes "client_ok cl opn" "held_once opn (b # bs) w"
  shows "held_once opn bs (my_close cl (b_conn b) w)"
  using assms client_close [OF assms(1), of "b_conn b" w]
  by (auto simp: held_once_def) (metis image_iff option.sel option.exhaust)

lemma held_once_new:
  assumes "held_once opn bs w" "x \<notin> opn w" "opn w' = insert x (opn w)" "b_conn b = Some x"
  shows "held_once opn (b # bs) w'"
  using assms by (force simp: held_once_def)

text \<open>A reconnect closes what the block held and, when it succeeds, opens a new connection.\<close>

lemma mysqlReconnect_held:
  assumes "client_ok cl opn" "held_once opn bs (my_close cl (b_conn b) w)" "mysqlReconnect cl b w = (r, b', w')"
  shows "r \<noteq> 0 \<and> held_once opn bs w' \<or> r = 0 \<and> held_once opn (b' # bs) w'"
proof -
  obtain c w1 where c: "my_connect cl (my_close cl (b_conn b) w) = (c, w1)" by fastforce
  show ?thesis
  proof (cases c)
    case None
    then show ?thesis using client_connect [OF assms(1) c] assms(2,3) c held_once_mono [of opn bs _ w1]
      by (auto simp: mysqlReconnect_def)
  next
    case (Some x)
    obtain t w2 where t: "my_time cl w1 = (t, w2)" by fastforce
    have n: "x \<notin> opn (my_close cl (b_conn b) w)" "opn w2 = insert x (opn (my_close cl (b_conn b) w))"
      using client_connect [OF assms(1) c] Some client_time [OF assms(1) t] by auto
    then show ?thesis using assms(2,3) c t Some held_once_new [OF assms(2) n, of b'] by (auto simp: mysqlReconnect_def)
  qed
qed

lemma held_once_drop:
  "held_once opn (bs @ out) w \<Longrightarrow> held_once opn out w"
  by (auto simp: held_once_def)

lemma get_held_step:
  assumes IH: "\<And>p w b p' w'. f p w = Some (b, p', w') \<Longrightarrow> held_once opn (slq_list p @ out) w \<Longrightarrow>
      held_once opn (case_option [] (\<lambda>x. [x]) b @ slq_list p' @ out) w'"
    and ok: "client_ok cl opn" and h: "held_once opn (slq_list p @ out) w"
    and eq: "(if \<not> g_mysql_conn_enable p then Some (None, p, w)
      else
        case slq_list p of
          block # bs \<Rightarrow>
            (case my_time cl w of
               (t, w1) \<Rightarrow>
                 if t - lastUseTime block > connectionTimeout (sqlC p)
                 then
                   (case mysqlReconnect cl block w1 of
                      (r, block', w2) \<Rightarrow>
                        if r \<noteq> 0 then f (p\<lparr>slq_list := bs\<rparr>) w2
                        else Some (Some block', p\<lparr>slq_list := bs\<rparr>, w2))
                 else Some (Some block, p\<lparr>slq_list := bs\<rparr>, w1))
        | [] \<Rightarrow>
            (case mysqlReconnect cl empty_block w of
               (r, block', w2) \<Rightarrow>
                 if r \<noteq> 0 then f p w2
                 else Some (Some block', p, w2))) = Some (b, p', w')"
  shows "held_once opn (case_option [] (\<lambda>x. [x]) b @ slq_list p' @ out) w'"
proof (cases "g_mysql_conn_enable p")
  case False
  then show ?thesis using eq h by simp
next
  case True
  show ?thesis
  proof (cases "slq_list p")
    case Nil
    obtain r block' w2 where r: "mysqlReconnect cl empty_block w = (r, block', w2)" using prod_cases3 by metis
    have "my_close cl (b_conn empty_block) w = my_close cl None w" by (simp add: empty_block_def)
    then have "held_once opn out (my_close cl (b_conn empty_block) w)"
      using h Nil client_close [OF ok, of None w] held_once_mono [of opn out w] by simp
    from mysqlReconnect_held [OF ok this r] show ?thesis
      using eq True Nil r IH [of p w2] by (auto split: if_splits)
  next
    case (Cons block bs)
    obtain t w1 where t: "my_time cl w = (t, w1)" by fastforce
    have h1: "held_once opn (block # bs @ out) w1"
      using h Cons client_time [OF ok t] by (simp add: held_once_def)
    show ?thesis
    proof (cases "t - lastUseTime block > connectionTimeout (sqlC p)")
      case False
      then show ?thesis using eq True Cons t h1 by auto
    next
      case late: True
      obtain r block' w2 where r: "mysqlReconnect cl block w1 = (r, block', w2)" using prod_cases3 by metis
      from mysqlReconnect_held [OF ok held_once_close [OF ok h1] r] show ?thesis
        using eq True Cons t late r IH [of "p\<lparr>slq_list := bs\<rparr>" w2] by (auto split: if_splits)
    qed
  qed
qed

lemma GetOneConn_held:
  fixes cl :: "'w client"
  assumes ret: "mysqlConnectionPool_GetOneConn cl p w = Some (b, p', w')" and ok: "client_ok cl opn"
    and h: "held_once opn (slq_list p @ out) w"
  shows "held_once opn (case_option [] (\<lambda>x. [x]) b @ slq_list p' @ out) w'"
proof -
  have "held_once opn (slq_list p @ out) w \<longrightarrow>
      held_once opn (case_option [] (\<lambda>x. [x]) (fst r) @ slq_list (fst (snd r)) @ out) (snd (snd r))"
    if "mysqlConnectionPool_GetOneConn cl p w = Some r" for p w r
  proof (rule mysqlConnectionPool_GetOneConn.raw_induct [where P = "\<lambda>cl p w r. client_ok cl opn \<longrightarrow> held_once opn (slq_list p @ out) w \<longrightarrow>
      held_once opn (case_option [] (\<lambda>x. [x]) (fst r) @ slq_list (fst (snd r)) @ out) (snd (snd r))", OF _ that, THEN mp [OF _ ok]])
    fix f :: "'w client \<Rightarrow> pool \<Rightarrow> 'w \<Rightarrow> (MysqlBlock option \<times> pool \<times> 'w) option" and cl p w r
    assume IH: "\<And>cl p w r. f cl p w = Some r \<Longrightarrow> client_ok cl opn \<longrightarrow> held_once opn (slq_list p @ out) w \<longrightarrow>
        held_once opn (case_option [] (\<lambda>x. [x]) (fst r) @ slq_list (fst (snd r)) @ out) (snd (snd r))"
    assume eq: "(if \<not> g_mysql_conn_enable p then Some (None, p, w)
      else
        case slq_list p of
          block # bs \<Rightarrow>
            (case my_time cl w of
               (t, w1) \<Rightarrow>
                 if t - lastUseTime block > connectionTimeout (sqlC p)
                 then
                   (case mysqlReconnect cl block w1 of
                      (r, block', w2) \<Rightarrow>
                        if r \<noteq> 0 then f cl (p\<lparr>slq_list := bs\<rparr>) w2
                        else Some (Some block', p\<lparr>slq_list := bs\<rparr>, w2))
                 else Some (Some block, p\<lparr>slq_list := bs\<rparr>, w1))
        | [] \<Rightarrow>
            (case mysqlReconnect cl empty_block w of
               (r, block', w2) \<Rightarrow>
                 if r \<noteq> 0 then f cl p w2
                 else Some (Some block', p, w2))) = Some r"
    obtain b p' w' where r: "r = (b, p', w')" using prod_cases3 by metis
    show "client_ok cl opn \<longrightarrow> held_once opn (slq_list p @ out) w \<longrightarrow>
        held_once opn (case_option [] (\<lambda>x. [x]) (fst r) @ slq_list (fst (snd r)) @ out) (snd (snd r))"
    proof (intro impI)
      assume ok: "client_ok cl opn" and h: "held_once opn (slq_list p @ out) w"
      have "held_once opn (case_option [] (\<lambda>x. [x]) b @ slq_list p' @ out) w'"
        by (rule get_held_step [of "f cl", OF _ ok h eq [unfolded r]]) (use IH ok in fastforce)
      then show "held_once opn (case_option [] (\<lambda>x. [x]) (fst r) @ slq_list (fst (snd r)) @ out) (snd (snd r))" by (simp add: r)
    qed
  qed
  then show ?thesis using ret h by fastforce
qed

lemma pool_init_held:
  assumes ok: "client_ok cl opn"
  shows "held_once opn bs w \<Longrightarrow> pool_init_loop cl n bs w = (bs', r, w') \<Longrightarrow> held_once opn bs' w'"
proof (induction n arbitrary: bs w)
  case (Suc n)
  obtain c w1 where c: "my_connect cl w = (c, w1)" by fastforce
  show ?case
  proof (cases c)
    case None
    then show ?thesis using Suc.prems c client_connect [OF ok c] by (auto simp: held_once_def)
  next
    case (Some x)
    obtain t w2 where t: "my_time cl w1 = (t, w2)" by fastforce
    let ?b = "\<lparr>b_conn = Some x, lastUseTime = stamp t\<rparr>"
    have n: "x \<notin> opn w" "opn w2 = insert x (opn w)" using client_connect [OF ok c] Some client_time [OF ok t] by auto
    have "held_once opn (?b # bs) w2" by (rule held_once_new [OF Suc.prems(1) n]) simp
    then have "held_once opn (bs @ [?b]) w2" using held_once_perm [of "?b # bs" "bs @ [?b]" opn w2] by simp
    then show ?thesis using Suc.IH [of "bs @ [?b]" w2] Suc.prems(2) c t Some by simp
  qed
qed simp

section \<open>Uses of the pool\<close>

text \<open>The states after the start and any sequence of taking, using and returning connections; \<open>out\<close> are
  the blocks that callers hold.\<close>

inductive pool_use :: "'w client \<Rightarrow> ('w \<Rightarrow> nat set) \<Rightarrow> pool \<Rightarrow> MysqlBlock list \<Rightarrow> 'w \<Rightarrow> bool" for cl opn where
  init: "mysqlConnectionPoolInit cl ip port account password db timeout cnt p w = Some (p', 0, w') \<Longrightarrow> pool_use cl opn p' [] w'"
| get: "pool_use cl opn p out w \<Longrightarrow> mysqlConnectionPool_GetOneConn cl p w = Some (Some b, p', w') \<Longrightarrow>
    pool_use cl opn p' (b # out) w'"
| put: "pool_use cl opn p out w \<Longrightarrow> b \<in> set out \<Longrightarrow>
    pool_use cl opn (mysqlConnectionPool_FreeOneConn b p) (remove1 b out) w"
| work: "pool_use cl opn p out w \<Longrightarrow> opn w' = opn w \<Longrightarrow> pool_use cl opn p out w'"

lemma Init_held:
  assumes "client_ok cl opn" "mysqlConnectionPoolInit cl ip port account password db timeout cnt p w = Some (p', r, w')"
  shows "held_once opn (slq_list p') w' \<or> r \<noteq> 0"
proof -
  have h: "held_once opn [] w" by (simp add: held_once_def)
  obtain n q where e: "pool_connect cl n q w = (p', r, w')"
    using assms(2) by (auto simp: mysqlConnectionPoolInit_def bind_eq_Some_conv Let_def)
  obtain bs k w1 where l: "pool_init_loop cl n [] w = (bs, k, w1)" using prod_cases3 by metis
  show ?thesis
    using e l pool_init_held [OF assms(1) h l] by (cases k) (auto simp: pool_connect_def Let_def split: prod.splits)
qed

lemma pool_use_held: "pool_use cl opn p out w \<Longrightarrow> client_ok cl opn \<Longrightarrow> held_once opn (slq_list p @ out) w"
proof (induction rule: pool_use.induct)
  case (init ip port account password db timeout cnt p w p' w')
  then show ?case using Init_held by fastforce
next
  case (get p out w b p' w')
  have "held_once opn (case_option [] (\<lambda>x. [x]) (Some b) @ slq_list p' @ out) w'"
    using GetOneConn_held [OF get.hyps(2)] get by blast
  then show ?case using held_once_perm [of "b # slq_list p' @ out" "slq_list p' @ b # out" opn w'] by simp
next
  case (put p out w b)
  have "mset ((slq_list p @ [b]) @ remove1 b out) = mset (slq_list p @ out)"
    using put.hyps(2) by simp
  then have a: "held_once opn ((slq_list p @ [b]) @ remove1 b out) w" using held_once_perm put by metis
  have "mset (b # (slq_list p @ remove1 b out)) = mset ((slq_list p @ [b]) @ remove1 b out)" by simp
  then have "held_once opn (b # (slq_list p @ remove1 b out)) w" using a held_once_perm by metis
  then have "held_once opn (slq_list p @ remove1 b out) w" by (rule held_once_tail)
  then show ?case using a by (simp add: mysqlConnectionPool_FreeOneConn_def)
next
  case (work p out w w')
  then show ?case by (simp add: held_once_def)
qed

section \<open>When the pool returns\<close>

text \<open>The outside after \<open>n\<close> attempts of an empty pool that failed.\<close>

primrec tries :: "'w client \<Rightarrow> nat \<Rightarrow> 'w \<Rightarrow> 'w" where
  "tries cl 0 w = w"
| "tries cl (Suc n) w = tries cl n (snd (my_connect cl (my_close cl None w)))"

definition connects :: "'w client \<Rightarrow> 'w \<Rightarrow> bool" where
  "connects cl w \<longleftrightarrow> fst (my_connect cl (my_close cl None w)) \<noteq> None"

lemma get_empty_step:
  assumes "g_mysql_conn_enable p" "slq_list p = []"
  shows "mysqlConnectionPool_GetOneConn cl p w =
    (if connects cl w then
       (case mysqlReconnect cl empty_block w of (r, b, w2) \<Rightarrow> Some (Some b, p, w2))
     else mysqlConnectionPool_GetOneConn cl p (snd (my_connect cl (my_close cl None w))))"
proof -
  obtain c w1 where c: "my_connect cl (my_close cl None w) = (c, w1)" by fastforce
  show ?thesis
    using assms c by (subst mysqlConnectionPool_GetOneConn.simps)
      (cases c; simp add: connects_def mysqlReconnect_def empty_block_def split: prod.splits)
qed

lemma get_empty_returns:
  assumes "g_mysql_conn_enable p" "slq_list p = []"
  shows "connects cl (tries cl n w) \<Longrightarrow> \<exists>r. mysqlConnectionPool_GetOneConn cl p w = Some r"
proof (induction n arbitrary: w)
  case 0
  then show ?case by (simp add: get_empty_step [OF assms] split: prod.split)
next
  case (Suc n)
  then show ?case by (cases "connects cl w") (simp_all add: get_empty_step [OF assms, of cl w] split: prod.split)
qed

lemma get_empty_forever:
  assumes "mysqlConnectionPool_GetOneConn cl p w = Some r"
  shows "g_mysql_conn_enable p \<Longrightarrow> slq_list p = [] \<Longrightarrow> \<exists>n. connects cl (tries cl n w)"
proof -
  have "g_mysql_conn_enable p \<longrightarrow> slq_list p = [] \<longrightarrow> (\<exists>n. connects cl (tries cl n w))"
  proof (rule mysqlConnectionPool_GetOneConn.raw_induct [where P = "\<lambda>cl p w r. g_mysql_conn_enable p \<longrightarrow> slq_list p = [] \<longrightarrow>
      (\<exists>n. connects cl (tries cl n w))", OF _ assms])
    fix f :: "'a client \<Rightarrow> pool \<Rightarrow> 'a \<Rightarrow> (MysqlBlock option \<times> pool \<times> 'a) option" and cl p w r
    assume IH: "\<And>cl p w r. f cl p w = Some r \<Longrightarrow> g_mysql_conn_enable p \<longrightarrow> slq_list p = [] \<longrightarrow> (\<exists>n. connects cl (tries cl n w))"
      and eq: "(if \<not> g_mysql_conn_enable p then Some (None, p, w)
      else
        case slq_list p of
          block # bs \<Rightarrow>
            (case my_time cl w of
               (t, w1) \<Rightarrow>
                 if t - lastUseTime block > connectionTimeout (sqlC p)
                 then
                   (case mysqlReconnect cl block w1 of
                      (r, block', w2) \<Rightarrow>
                        if r \<noteq> 0 then f cl (p\<lparr>slq_list := bs\<rparr>) w2
                        else Some (Some block', p\<lparr>slq_list := bs\<rparr>, w2))
                 else Some (Some block, p\<lparr>slq_list := bs\<rparr>, w1))
        | [] \<Rightarrow>
            (case mysqlReconnect cl empty_block w of
               (r, block', w2) \<Rightarrow>
                 if r \<noteq> 0 then f cl p w2
                 else Some (Some block', p, w2))) = Some r"
    show "g_mysql_conn_enable p \<longrightarrow> slq_list p = [] \<longrightarrow> (\<exists>n. connects cl (tries cl n w))"
    proof (intro impI)
      assume e: "g_mysql_conn_enable p" "slq_list p = []"
      obtain c w1 where c: "my_connect cl (my_close cl None w) = (c, w1)" by fastforce
      show "\<exists>n. connects cl (tries cl n w)"
      proof (cases c)
        case None
        then have "f cl p w1 = Some r" using eq e c by (simp add: mysqlReconnect_def empty_block_def)
        then obtain n where "connects cl (tries cl n w1)" using IH e by blast
        then show ?thesis using c by (intro exI [of _ "Suc n"]) simp
      next
        case (Some x)
        then show ?thesis using c by (intro exI [of _ 0]) (simp add: connects_def)
      qed
    qed
  qed
  then show "g_mysql_conn_enable p \<Longrightarrow> slq_list p = [] \<Longrightarrow> \<exists>n. connects cl (tries cl n w)" by blast
qed

section \<open>Properties\<close>

text \<open>
  C20: No connection is shared. After the start and any sequence of taking and returning connections,
  the blocks in the pool and those the callers hold all have a connection, every one is open, and no
  two of them have the same.
\<close>

theorem pool_connections_exclusive:
  assumes "pool_use cl opn p out w" "client_ok cl opn"
  shows "distinct (map b_conn (slq_list p @ out)) \<and> (\<forall>b \<in> set (slq_list p @ out). \<exists>c. b_conn b = Some c \<and> c \<in> opn w)"
proof -
  have h: "held_once opn (slq_list p @ out) w" by (rule pool_use_held [OF assms])
  have "\<exists>c. b_conn b = Some c \<and> c \<in> opn w" if "b \<in> set (slq_list p @ out)" for b
    using h that by (cases "b_conn b") (force simp: held_once_def conns_def)+
  then show ?thesis using h by (simp add: held_once_def conns_def)
qed

text \<open>The outside of the witnesses: the number of connections made; the server is down below 3.\<close>

definition demo_client :: "(nat \<times> nat set) client" where
  "demo_client = \<lparr>my_connect = (\<lambda>(n, s). if n < 3 then (None, (Suc n, s \<inter> {..<n})) else (Some n, (Suc n, insert n (s \<inter> {..<n})))),
     my_close = (\<lambda>c (n, s). (n, s - set_option c)), my_time = (\<lambda>w. (100, w))\<rparr>"

definition demo_conns :: "nat \<times> nat set \<Rightarrow> nat set" where
  "demo_conns w = snd w \<inter> {..<fst w}"

lemma demo_client: "client_ok demo_client demo_conns"
  by (auto simp: client_ok_def demo_client_def demo_conns_def split: prod.splits if_splits)

definition demo_conn_pool :: pool where
  "demo_conn_pool = \<lparr>sqlC = \<lparr>sc_ip = [], sc_port = 0, sc_account = [], sc_password = [], sc_databaseName = [],
     connectionTimeout = 0, connectCount = 0\<rparr>, slq_list = [], g_mysql_conn_enable = False\<rparr>"

lemma demo_pool_starts:
  "\<exists>p' w'. mysqlConnectionPoolInit demo_client ''localhost'' ''1'' ''root'' ''x'' ''db'' ''9'' ''2'' demo_conn_pool (3, {})
     = Some (p', 0, w') \<and> length (slq_list p') = 2"
proof -
  have a: "atoi ''1'' = Some 1" "atoi ''9'' = Some 9" "atoi ''2'' = Some 2"
    by (simp_all add: atoi_def is_digit_def digit_val_def code_def in_int_iff)
  have n: "nat 2 = Suc (Suc 0)" by simp
  show ?thesis unfolding mysqlConnectionPoolInit_def a n
    by (simp add: demo_client_def numeral_2_eq_2 pool_connect_def)
qed

lemma pool_connections_exclusive_witness:
  "\<exists>(p :: pool) w. length (slq_list p) = 2 \<and> distinct (map b_conn (slq_list p @ []))
    \<and> (\<forall>b \<in> set (slq_list p @ []). \<exists>c. b_conn b = Some c \<and> c \<in> demo_conns w)"
proof -
  obtain p' w' where i: "mysqlConnectionPoolInit demo_client ''localhost'' ''1'' ''root'' ''x'' ''db'' ''9'' ''2'' demo_conn_pool (3, {})
     = Some (p', 0, w')" "length (slq_list p') = 2" using demo_pool_starts by blast
  have "pool_use demo_client demo_conns p' [] w'" by (rule pool_use.init [OF i(1)])
  from pool_connections_exclusive [OF this demo_client] i(2) show ?thesis by (intro exI [of _ p'] exI [of _ w']) simp
qed

text \<open>
  An exhausted pool waits for the database without bound. When no block is free,
  \<open>mysqlConnectionPool_GetOneConn\<close> returns if and only if one of the connection attempts it makes
  one after the other succeeds: while the database is down the calling thread never comes back.
\<close>

theorem GetOneConn_returns_iff:
  fixes p :: pool
  assumes "g_mysql_conn_enable p" "slq_list p = []"
  shows "(\<exists>r. mysqlConnectionPool_GetOneConn cl p w = Some r) \<longleftrightarrow> (\<exists>n. connects cl (tries cl n w))"
proof
  assume "\<exists>r. mysqlConnectionPool_GetOneConn cl p w = Some r"
  then obtain r where "mysqlConnectionPool_GetOneConn cl p w = Some r" ..
  from get_empty_forever [OF this assms] show "\<exists>n. connects cl (tries cl n w)" .
next
  assume "\<exists>n. connects cl (tries cl n w)"
  then obtain n where "connects cl (tries cl n w)" ..
  from get_empty_returns [OF assms this] show "\<exists>r. mysqlConnectionPool_GetOneConn cl p w = Some r" .
qed

lemma GetOneConn_returns_iff_witness:
  "(\<exists>r. mysqlConnectionPool_GetOneConn demo_client (demo_conn_pool\<lparr>g_mysql_conn_enable := True\<rparr>) (0, {}) = Some r)
   \<and> \<not> (\<exists>r. mysqlConnectionPool_GetOneConn \<lparr>my_connect = \<lambda>w. (None, w), my_close = \<lambda>c w. w, my_time = \<lambda>w. (0, w)\<rparr>
        (demo_conn_pool\<lparr>g_mysql_conn_enable := True\<rparr>) () = Some r)"
proof -
  have e: "g_mysql_conn_enable (demo_conn_pool\<lparr>g_mysql_conn_enable := True\<rparr>)" "slq_list (demo_conn_pool\<lparr>g_mysql_conn_enable := True\<rparr>) = []"
    by (simp_all add: demo_conn_pool_def)
  have "connects demo_client (tries demo_client 3 (0, {}))"
    by (simp add: connects_def demo_client_def numeral_3_eq_3)
  then show ?thesis
    unfolding GetOneConn_returns_iff [OF e] by (auto simp: connects_def)
qed

text \<open>
  A start that fails leaks. When a connection cannot be made, the connections made before it stay
  open and in the list, since the release does nothing as long as the pool is not enabled; no later
  call of it closes them either.
\<close>

theorem failed_start_leaks:
  assumes "client_ok cl opn" "\<not> g_mysql_conn_enable p"
    "mysqlConnectionPoolInit cl ip port account password db timeout cnt p w = Some (p', r, w')" "r \<noteq> 0"
  shows "r = ERR_DATABASE_CONNECT_FAIL \<and> \<not> g_mysql_conn_enable p' \<and> mysqlConnectionPoolUnInit cl p' w' = (p', w')
    \<and> (\<forall>b \<in> set (slq_list p'). \<exists>c. b_conn b = Some c \<and> c \<in> opn w')
    \<and> slq_list p' = fst (pool_init_loop cl (nat (the (atoi cnt))) [] w)"
proof -
  obtain n q where e: "pool_connect cl (nat n) q w = (p', r, w')" "\<not> g_mysql_conn_enable q" "atoi cnt = Some n"
    using assms(2,3) by (auto simp: mysqlConnectionPoolInit_def bind_eq_Some_conv Let_def)
  obtain bs k w1 where l: "pool_init_loop cl (nat n) [] w = (bs, k, w1)" using prod_cases3 by metis
  have p': "p' = q\<lparr>slq_list := bs\<rparr>" "w' = w1" "r = ERR_DATABASE_CONNECT_FAIL"
    using e l assms(4) by (cases k; simp add: pool_connect_def mysqlConnectionPoolUnInit_def)+
  have h: "held_once opn bs w1"
    by (rule pool_init_held [OF assms(1) _ l]) (simp add: held_once_def)
  have "\<exists>c. b_conn b = Some c \<and> c \<in> opn w'" if "b \<in> set bs" for b
    using h that p'(2) by (cases "b_conn b") (force simp: held_once_def conns_def)+
  then show ?thesis using p' e(2,3) l by (auto simp: mysqlConnectionPoolUnInit_def)
qed

text \<open>One connection is made and the next fails.\<close>

lemma failed_start_leaks_witness:
  "\<exists>p' r w'. mysqlConnectionPoolInit (demo_client\<lparr>my_connect := \<lambda>(n, s). if 3 < n then (None, (Suc n, s \<inter> {..<n})) else (Some n, (Suc n, insert n (s \<inter> {..<n})))\<rparr>)
     ''localhost'' ''1'' ''root'' ''x'' ''db'' ''9'' ''2'' demo_conn_pool (3, {}) = Some (p', r, w')
   \<and> length (slq_list p') = 1 \<and> \<not> g_mysql_conn_enable p' \<and> (\<forall>b \<in> set (slq_list p'). \<exists>c. b_conn b = Some c \<and> c \<in> demo_conns w')"
  (is "\<exists>p' r w'. mysqlConnectionPoolInit ?c _ _ _ _ _ _ _ _ _ = _ \<and> _")
proof -
  have ok: "client_ok ?c demo_conns"
    by (auto simp: client_ok_def demo_client_def demo_conns_def split: prod.splits if_splits)
  have a: "atoi ''1'' = Some 1" "atoi ''9'' = Some 9" "atoi ''2'' = Some 2"
    by (simp_all add: atoi_def is_digit_def digit_val_def code_def in_int_iff)
  have "\<exists>p' w'. mysqlConnectionPoolInit ?c ''localhost'' ''1'' ''root'' ''x'' ''db'' ''9'' ''2'' demo_conn_pool (3, {})
     = Some (p', ERR_DATABASE_CONNECT_FAIL, w') \<and> length (slq_list p') = 1"
    unfolding mysqlConnectionPoolInit_def a
    by (simp add: demo_client_def numeral_2_eq_2 pool_connect_def demo_conn_pool_def mysqlConnectionPoolUnInit_def)
  then obtain p' w' where i: "mysqlConnectionPoolInit ?c ''localhost'' ''1'' ''root'' ''x'' ''db'' ''9'' ''2'' demo_conn_pool (3, {})
     = Some (p', ERR_DATABASE_CONNECT_FAIL, w')" "length (slq_list p') = 1" by blast
  have "\<not> g_mysql_conn_enable demo_conn_pool" "ERR_DATABASE_CONNECT_FAIL \<noteq> 0" by (simp_all add: demo_conn_pool_def)
  from failed_start_leaks [OF ok this(1) i(1) this(2)] i show ?thesis by blast
qed

end
