(* ===== verification/Service.thy ===== *)
theory Service
  imports Cache Config Route MysqlPool
begin

text \<open>
  The request handlers of \<open>src/service/service_basic.c\<close> and \<open>src/service/service.c\<close>. A handler reads
  the request from the connection's buffer and writes its reply there; the model takes the request
  text and gives the reply and the new state. The database, the clock (its value at each call site,
  numbered in the order of the code), the random bytes and the allocator's junk are arguments. A
  handler runs between two cache operations of another thread at any point; the model runs one
  handler at a time.
\<close>

section \<open>State and environment\<close>

record ('d, 'w) env =
  e_fp :: "'d fp"
  e_db :: "'w mysql"
  e_time :: "nat \<Rightarrow> int"
  e_uuid :: "u8 list"
  e_cr :: bool
  e_junk :: obj

record 'w sys =
  s_caches :: caches
  s_world :: 'w
  s_tokenFreshTime :: u32

text \<open>\<open>MAX_LINE\<close>, the size of the buffer of a connection; a longer reply overflows it.\<close>

definition MAX_LINE :: nat where "MAX_LINE = 1024"

text \<open>The end of every handler: \<open>strcpy(state->buffer, retChar)\<close>.\<close>

definition finish :: "string option \<Rightarrow> 'w sys \<Rightarrow> (string \<times> 'w sys) option" where
  "finish r s = do { retChar \<leftarrow> r; guard (length retChar < MAX_LINE); Some (retChar, s) }"

definition err_reply :: "('d, 'w) env \<Rightarrow> int \<Rightarrow> string option" where
  "err_reply e c = makeErrorJson (e_fp e) c (gerErrMsg c)"

definition ok_reply :: "('d, 'w) env \<Rightarrow> string option" where
  "ok_reply e = makeErrorJson (e_fp e) 0 ''ok''"

text \<open>The cache calls, on the state.\<close>

definition query :: "int \<Rightarrow> string \<Rightarrow> 'w sys \<Rightarrow> (obj option \<times> 'w sys) option" where
  "query c key s = do { (cs, r) \<leftarrow> cacheQuery c (s_caches s) key; Some (r, s\<lparr>s_caches := cs\<rparr>) }"

definition insert_obj :: "('d, 'w) env \<Rightarrow> int \<Rightarrow> string \<Rightarrow> obj \<Rightarrow> 'w sys \<Rightarrow> 'w sys option" where
  "insert_obj e c key x s =
     do { (cs, _) \<leftarrow> cacheInsert (e_cr e) (e_junk e) c (s_caches s) key x; Some (s\<lparr>s_caches := cs\<rparr>) }"

definition delete_obj :: "int \<Rightarrow> string \<Rightarrow> 'w sys \<Rightarrow> 'w sys option" where
  "delete_obj c key s = do { (cs, _) \<leftarrow> cacheDelete c (s_caches s) key; Some (s\<lparr>s_caches := cs\<rparr>) }"

text \<open>Writing through the pointer a query returned: the entry's object changes in place.\<close>

definition dict_poke :: "(u8 list, obj) dict \<Rightarrow> u8 list \<Rightarrow> obj \<Rightarrow> (u8 list, obj) dict" where
  "dict_poke d k x =
     (case find (\<lambda>e. e_key e = k) (entries d) of None \<Rightarrow> d | Some e \<Rightarrow> set_val_at (e_addr e) x d)"

definition poke_token :: "string \<Rightarrow> obj \<Rightarrow> 'w sys \<Rightarrow> 'w sys" where
  "poke_token key x s =
     s\<lparr>s_caches := (s_caches s)\<lparr>tokenCache := dict_poke (tokenCache (s_caches s)) (bytes key) x\<rparr>\<rparr>"

text \<open>A pointer to another type than the one it is used at is an undefined execution.\<close>

fun as_user :: "obj \<Rightarrow> user option" where
  "as_user (OUser u) = Some u"
| "as_user _ = None"

fun as_msgcode :: "obj \<Rightarrow> msgcode option" where
  "as_msgcode (OMsgCode m) = Some m"
| "as_msgcode _ = None"

fun as_notice :: "obj \<Rightarrow> notice option" where
  "as_notice (ONotice n) = Some n"
| "as_notice _ = None"

fun as_appver :: "obj \<Rightarrow> appver option" where
  "as_appver (OAppVer v) = Some v"
| "as_appver _ = None"

text \<open>\<open>HexToStr(token, uuid, 8)\<close> into 18 zero bytes.\<close>

definition new_token :: "u8 list \<Rightarrow> string" where
  "new_token uuid = map (\<lambda>b. char_of (unat b)) (HexToStr_loop (take 8 uuid))"

text \<open>\<open>timeStamp + freshTime\<close> is an \<open>int\<close> sum; the token's is computed in \<open>unsigned int\<close>.\<close>

definition code_until :: "msgcode \<Rightarrow> int option" where
  "code_until m = (let t = m_timeStamp m + m_freshTime m in if in_int t then Some t else None)"

definition token_until :: "u32 \<Rightarrow> user \<Rightarrow> int" where
  "token_until tft u = uint ((word_of_int (u_tokenFreshTimeStamp u) :: u32) + tft * 3600)"

section \<open>Verification codes\<close>

definition verifyBefore :: "('d, 'w) env \<Rightarrow> string \<Rightarrow> 'w sys \<Rightarrow> (string \<times> 'w sys) option" where
  "verifyBefore e req s =
     do { flt \<leftarrow> UserParseJson (e_fp e) req user0;
          if u_cmd flt \<noteq> ''regist'' \<and> u_cmd flt \<noteq> ''login''
          then finish (err_reply e ERR_INPUT_ARGUMENT_WRONG) s
          else if length (u_phone flt) \<noteq> 11
          then finish (err_reply e ERR_PHONE_NUMBER_WRONG) s
          else do {
            let flt = flt\<lparr>u_account := u_phone flt\<rparr>;
            (ret, w) \<leftarrow> UserQueryReturnItemNum (e_db e) flt (s_world s);
            let s = s\<lparr>s_world := w\<rparr>;
            if u_cmd flt = ''regist'' \<and> ret \<noteq> 0
            then finish (err_reply e ERR_PHONE_NUMBER_DUPLICATE) s
            else if u_cmd flt = ''login'' \<and> ret \<le> 0
            then finish (err_reply e ERR_PHONE_NUMBER_NOT_REGIST) s
            else do {
              (r, s) \<leftarrow> query CACHE_COMM (u_phone flt) s;
              _ \<leftarrow> (case r of
                     None \<Rightarrow> Some None
                   | Some x \<Rightarrow> do {
                       m \<leftarrow> as_msgcode x; t \<leftarrow> code_until m;
                       if t > e_time e 0 then map_option Some (ok_reply e) else Some None });
              let (ret, m) = msgGatewayCode (e_time e 1) MSG_WANGYI 6 msgcode0;
              if ret = 0
              then do { s \<leftarrow> insert_obj e CACHE_COMM (u_phone flt) (OMsgCode m) s; finish (ok_reply e) s }
              else finish (err_reply e ret) s } } }"

text \<open>The user that \<open>verifyAfter\<close> makes.\<close>

definition phone_user :: "string \<Rightarrow> int \<Rightarrow> string \<Rightarrow> user" where
  "phone_user phone now token =
     user0\<lparr>u_account := phone, u_phone := phone, u_password := '' '', u_accType := ''p'', u_nickName := ''test'',
       u_createTime := time_int now, u_lastModifyTime := time_int now, u_tokenFreshTimeStamp := time_int now,
       u_token := token\<rparr>"

definition verifyAfter :: "('d, 'w) env \<Rightarrow> string \<Rightarrow> 'w sys \<Rightarrow> (string \<times> 'w sys) option" where
  "verifyAfter e req s =
     do { flt \<leftarrow> UserParseJson (e_fp e) req user0;
          if length (u_phone flt) \<noteq> 11 \<or> length (u_password flt) \<noteq> 6
          then finish (err_reply e ERR_PHONE_NUMBER_WRONG) s
          else do {
            (r, s) \<leftarrow> query CACHE_COMM (u_phone flt) s;
            (case r of
               None \<Rightarrow> finish (err_reply e ERR_NOT_FIND_CACHE) s
             | Some x \<Rightarrow> do {
                 m \<leftarrow> as_msgcode x; t \<leftarrow> code_until m;
                 if t < e_time e 0 then finish (err_reply e ERR_MSG_CODE_OUT_OF_DATE) s
                 else if u_password flt \<noteq> m_code m then finish (err_reply e ERR_MSG_CODE_WRONG) s
                 else do {
                   s \<leftarrow> delete_obj CACHE_COMM (u_phone flt) s;
                   let token = new_token (e_uuid e);
                   ((ret, user), w) \<leftarrow> UserInsert (e_db e) (phone_user (u_phone flt) (e_time e 1) token) (s_world s);
                   let s = s\<lparr>s_world := w\<rparr>;
                   if ret \<noteq> 1 then finish (err_reply e ret) s
                   else do {
                     let retChar = UserGenerateJson (e_fp e) user (Some ''id createTime lastModifyTime'');
                     s \<leftarrow> insert_obj e CACHE_TOKEN token (OUser user) s;
                     finish retChar s } } }) } }"

section \<open>Accounts\<close>

definition userRegister :: "('d, 'w) env \<Rightarrow> string \<Rightarrow> 'w sys \<Rightarrow> (string \<times> 'w sys) option" where
  "userRegister e req s =
     do { user \<leftarrow> UserParseJson (e_fp e) req user0;
          (ret, w) \<leftarrow> UserQueryReturnItemNum (e_db e) (user0\<lparr>u_account := u_account user\<rparr>) (s_world s);
          let s = s\<lparr>s_world := w\<rparr>;
          if ret \<noteq> 0
          then finish (err_reply e (if ret < 0 then ret else ERR_PHONE_NUMBER_DUPLICATE)) s
          else do {
            obj \<leftarrow> UserParseJson (e_fp e) req user0;
            let obj = (if length (u_accType obj) = 0 then obj\<lparr>u_accType := ''n''\<rparr> else obj);
            let obj = (if length (u_nickName obj) = 0 then obj\<lparr>u_nickName := ''test''\<rparr> else obj);
            let token = new_token (e_uuid e);
            let obj = obj\<lparr>u_createTime := time_int (e_time e 0), u_lastModifyTime := time_int (e_time e 0),
              u_tokenFreshTimeStamp := time_int (e_time e 0), u_token := token\<rparr>;
            ((ret, obj), w) \<leftarrow> UserInsert (e_db e) obj (s_world s);
            let s = s\<lparr>s_world := w\<rparr>;
            if ret \<noteq> 1 then finish (err_reply e ret) s
            else do {
              s \<leftarrow> insert_obj e CACHE_TOKEN token (OUser obj) s;
              finish (UserGenerateJson (e_fp e) obj (Some ''id createTime lastModifyTime'')) s } } }"

definition userLogin :: "('d, 'w) env \<Rightarrow> string \<Rightarrow> 'w sys \<Rightarrow> (string \<times> 'w sys) option" where
  "userLogin e req s =
     do { flt \<leftarrow> UserParseJson (e_fp e) req user0;
          ((ret, objs), w) \<leftarrow> UserQueryrReturnResult (e_db e) None flt 0 0 (s_world s);
          let s = s\<lparr>s_world := w\<rparr>;
          if ret \<noteq> 1
          then finish (err_reply e (if ret < 0 then ret else ERR_ACCOUNT_NOT_REGIST)) s
          else
            (case objs of
               Some (user # _) \<Rightarrow> do {
                 s \<leftarrow> (if length (u_token user) = 16 then delete_obj CACHE_TOKEN (u_token user) s else Some s);
                 let token = new_token (e_uuid e);
                 let user = user\<lparr>u_token := token, u_tokenFreshTimeStamp := time_int (e_time e 0)\<rparr>;
                 s \<leftarrow> insert_obj e CACHE_TOKEN token (OUser user) s;
                 (ret, w) \<leftarrow> UserModify (e_db e) (user0\<lparr>u_id := u_id user, u_token := u_token user\<rparr>) (s_world s);
                 let s = s\<lparr>s_world := w\<rparr>;
                 if ret \<noteq> 1 then finish (err_reply e ret) s
                 else finish (UserGenerateJson (e_fp e) user (Some ''id createTime lastModifyTime'')) s }
             | _ \<Rightarrow> None) }"

text \<open>The test all handlers below start with: \<open>Inl\<close> the reply when the token is not in the cache or
  out of date (and then deleted), \<open>Inr\<close> the user.\<close>

definition check_token ::
  "('d, 'w) env \<Rightarrow> string \<Rightarrow> 'w sys \<Rightarrow> ((int + user) \<times> 'w sys) option"
where
  "check_token e token s =
     do { (r, s) \<leftarrow> query CACHE_TOKEN token s;
          (case r of
             None \<Rightarrow> Some (Inl ERR_NOT_LOGIN_YET, s)
           | Some x \<Rightarrow> do {
               u \<leftarrow> as_user x;
               if token_until (s_tokenFreshTime s) u < e_time e 0
               then do { s \<leftarrow> delete_obj CACHE_TOKEN token s; Some (Inl ERR_TOKEN_OUT_OF_DATE, s) }
               else Some (Inr u, s) }) }"

definition userStatus :: "('d, 'w) env \<Rightarrow> string \<Rightarrow> 'w sys \<Rightarrow> (string \<times> 'w sys) option" where
  "userStatus e req s =
     do { flt \<leftarrow> UserParseJson (e_fp e) req user0;
          (r, s) \<leftarrow> check_token e (u_token flt) s;
          (case r of Inl c \<Rightarrow> finish (err_reply e c) s | Inr _ \<Rightarrow> finish (ok_reply e) s) }"

definition userLogout :: "('d, 'w) env \<Rightarrow> string \<Rightarrow> 'w sys \<Rightarrow> (string \<times> 'w sys) option" where
  "userLogout e req s =
     do { flt \<leftarrow> UserParseJson (e_fp e) req user0;
          (r, s) \<leftarrow> check_token e (u_token flt) s;
          (case r of
             Inl c \<Rightarrow> finish (err_reply e c) s
           | Inr retUser \<Rightarrow> do {
               s \<leftarrow> delete_obj CACHE_TOKEN (u_token flt) s;
               (ret, w) \<leftarrow> UserModify (e_db e) (user0\<lparr>u_id := u_id retUser, u_token := '' ''\<rparr>) (s_world s);
               let s = s\<lparr>s_world := w\<rparr>;
               if ret \<noteq> 1 then finish (err_reply e ret) s
               else finish (makeErrorJson (e_fp e) 0 (gerErrMsg 0)) s }) }"

definition userModify :: "('d, 'w) env \<Rightarrow> string \<Rightarrow> 'w sys \<Rightarrow> (string \<times> 'w sys) option" where
  "userModify e req s =
     do { flt \<leftarrow> UserParseJson (e_fp e) req user0;
          (r, s) \<leftarrow> check_token e (u_token flt) s;
          (case r of
             Inl c \<Rightarrow> finish (err_reply e c) s
           | Inr retUser \<Rightarrow> do {
               let retUser = updateObj retUser flt;
               let retUser = retUser\<lparr>u_tokenFreshTimeStamp := time_int (e_time e 1)\<rparr>;
               let s = poke_token (u_token flt) (OUser retUser) s;
               retChar \<leftarrow> ok_reply e;
               (ret, w) \<leftarrow> UserModify (e_db e) (flt\<lparr>u_id := u_id retUser\<rparr>) (s_world s);
               let s = s\<lparr>s_world := w\<rparr>;
               if ret \<noteq> 1 then finish (err_reply e ret) s else finish (Some retChar) s }) }"

definition userDelete :: "('d, 'w) env \<Rightarrow> string \<Rightarrow> 'w sys \<Rightarrow> (string \<times> 'w sys) option" where
  "userDelete e req s =
     do { flt \<leftarrow> UserParseJson (e_fp e) req user0;
          (r, s) \<leftarrow> check_token e (u_token flt) s;
          (case r of
             Inl c \<Rightarrow> finish (err_reply e c) s
           | Inr retUser \<Rightarrow>
               if u_accType retUser \<noteq> ''a'' then finish (err_reply e ERR_NO_PERMISSION) s
               else do {
                 let flt = flt\<lparr>u_token := []\<rparr>;
                 ((ret, objs), w) \<leftarrow> UserQueryrReturnResult (e_db e) None flt 0 0 (s_world s);
                 let s = s\<lparr>s_world := w\<rparr>;
                 if ret \<noteq> 1
                 then finish (err_reply e (if ret < 0 then ret else ERR_ACCOUNT_NOT_REGIST)) s
                 else
                   (case objs of
                      Some (obj # _) \<Rightarrow> do {
                        s \<leftarrow> (if length (u_token obj) = 16 then delete_obj CACHE_TOKEN (u_token obj) s else Some s);
                        (ret, w) \<leftarrow> UserDelete (e_db e) (user0\<lparr>u_id := u_id obj\<rparr>) (s_world s);
                        let s = s\<lparr>s_world := w\<rparr>;
                        if ret \<noteq> 1 then finish (err_reply e ret) s else finish (ok_reply e) s }
                    | _ \<Rightarrow> None) }) }"

section \<open>Notices and versions\<close>

definition noticeGet :: "('d, 'w) env \<Rightarrow> string \<Rightarrow> 'w sys \<Rightarrow> (string \<times> 'w sys) option" where
  "noticeGet e req s =
     do { flt \<leftarrow> NoticeParseJson (e_fp e) req notice0;
          (r, s) \<leftarrow> query CACHE_TOKEN (n_token flt) s;
          (case r of
             None \<Rightarrow> finish (err_reply e ERR_NOT_LOGIN_YET) s
           | Some x \<Rightarrow> do {
               retUser \<leftarrow> as_user x;
               let noticeKey = ''n_'' @ u_account retUser;
               guard (length noticeKey < 30);
               (r, s) \<leftarrow> query CACHE_COMM noticeKey s;
               (case r of
                  None \<Rightarrow> finish (err_reply e ERR_NOT_NOTICE_YET) s
                | Some y \<Rightarrow> do {
                    n \<leftarrow> as_notice y;
                    finish (NoticeGenerateJson (e_fp e) n (Some ''id createTime lastModifyTime'')) s }) }) }"

definition appVer :: "('d, 'w) env \<Rightarrow> string \<Rightarrow> 'w sys \<Rightarrow> (string \<times> 'w sys) option" where
  "appVer e req s =
     do { flt \<leftarrow> AppVerParseJson (e_fp e) req appver0;
          (r, s) \<leftarrow> query CACHE_TOKEN (a_token flt) s;
          (case r of
             None \<Rightarrow> finish (err_reply e ERR_NOT_LOGIN_YET) s
           | Some x \<Rightarrow> do {
               (r, s) \<leftarrow> query CACHE_COMM ''appVersion'' s;
               (case r of
                  None \<Rightarrow> finish (err_reply e ERR_APP_VERSION_NOT_FOUND_IN_CACHE) s
                | Some y \<Rightarrow> do {
                    v \<leftarrow> as_appver y;
                    if a_name flt \<noteq> a_name v then finish (AppVerGenerateJson (e_fp e) v (Some ''id'')) s
                    else finish (err_reply e ERR_APPVERSION_NOT_UPDATE) s }) }) }"

text \<open>The two test handlers.\<close>

definition say_hello :: "string \<Rightarrow> 'w sys \<Rightarrow> (string \<times> 'w sys) option" where
  "say_hello req s = Some (''sayhello'', s)"

definition r_31501 :: "string \<Rightarrow> 'w sys \<Rightarrow> (string \<times> 'w sys) option" where
  "r_31501 req s = Some (''sayhellotoo'', s)"

section \<open>Start\<close>

definition getServiceConfig :: "config \<Rightarrow> 'w sys \<Rightarrow> (config \<times> 'w sys) option" where
  "getServiceConfig d s =
     do { (d, v) \<leftarrow> getConfig d ''ThreadpoolQuitType'';
          str \<leftarrow> v; n \<leftarrow> atoi str;
          Some (d, s\<lparr>s_tokenFreshTime := word_of_int n\<rparr>) }"

text \<open>The newest version goes into the cache; the key is copied into \<open>malloc(10)\<close>.\<close>

definition load_appVersion :: "('d, 'w) env \<Rightarrow> 'w sys \<Rightarrow> 'w sys option" where
  "load_appVersion e s =
     do { ((ret, objs), w) \<leftarrow> AppVerQueryrReturnResult (e_db e)
            (Some ''select * from appver where id=(select max(id) from appver);'') appver0 0 0 (s_world s);
          let s = s\<lparr>s_world := w\<rparr>;
          if ret = 1
          then
            (case objs of
               Some (ver # _) \<Rightarrow> do {
                 guard (length ''appVersion'' < 10);
                 insert_obj e CACHE_COMM ''appVersion'' (OAppVer ver) s }
             | _ \<Rightarrow> None)
          else Some s }"

text \<open>\<open>loadCacheNecessary\<close> takes a connection for the query and follows the block, which is \<open>NULL\<close> when the
  pool is not enabled; it never gives the block back.\<close>

definition loadCacheNecessary ::
  "('d, 'w) env \<Rightarrow> 'v client \<Rightarrow> pool \<Rightarrow> 'v \<Rightarrow> 'w sys \<Rightarrow> ('w sys \<times> pool \<times> 'v) option"
where
  "loadCacheNecessary e cl p v s =
     do { (blk, p, v) \<leftarrow> mysqlConnectionPool_GetOneConn cl p v;
          block \<leftarrow> blk;
          s \<leftarrow> load_appVersion e s;
          Some (s, p, v) }"

text \<open>\<open>regist_service\<close>: the routes, the caches and the configured lifetime of a token.\<close>

definition regist_service ::
  "('d, 'w) env \<Rightarrow> 'v client \<Rightarrow> route_fun \<Rightarrow> u8 list \<Rightarrow> config \<Rightarrow> pool \<Rightarrow> 'v \<Rightarrow> 'w \<Rightarrow> u32
     \<Rightarrow> (route_table \<times> config \<times> 'w sys \<times> pool \<times> 'v) option"
where
  "regist_service e cl junk seed conf p v w tft =
     do { t \<leftarrow> regist_routes (e_cr e) junk seed;
          (s, p, v) \<leftarrow> loadCacheNecessary e cl p v \<lparr>s_caches = createCache seed, s_world = w, s_tokenFreshTime = tft\<rparr>;
          (conf, s) \<leftarrow> getServiceConfig conf s;
          Some (t, conf, s, p, v) }"

text \<open>The function a request's route leads to.\<close>

fun run_route :: "('d, 'w) env \<Rightarrow> route_fun \<Rightarrow> string \<Rightarrow> 'w sys \<Rightarrow> (string \<times> 'w sys) option" where
  "run_route e Route.verifyBefore req s = verifyBefore e req s"
| "run_route e Route.verifyAfter req s = verifyAfter e req s"
| "run_route e Route.userRegister req s = userRegister e req s"
| "run_route e Route.userLogin req s = userLogin e req s"
| "run_route e Route.userStatus req s = userStatus e req s"
| "run_route e Route.userLogout req s = userLogout e req s"
| "run_route e Route.userModify req s = userModify e req s"
| "run_route e Route.userDelete req s = userDelete e req s"
| "run_route e Route.noticeGet req s = noticeGet e req s"
| "run_route e Route.appVer req s = appVer e req s"
| "run_route e Route.say_hello req s = say_hello req s"
| "run_route e Route.r_31501 req s = r_31501 req s"

end
