(* ===== verification/Crypt.thy ===== *)
theory Crypt
  imports StrUtil Lcg
begin

text \<open>
  The packet encryption of \<open>utils/en_de_crypt.c\<close> and \<open>rot13_char\<close>. A buffer is the list of its bytes,
  up to its capacity; an access outside it is undefined. The block cipher of OpenSSL is an argument:
  \<open>enc k\<close> and \<open>dec k\<close> map a block of 16 bytes under the key \<open>k\<close>; \<open>block_cipher\<close> states what is
  relied on. \<open>malloc\<close> succeeds for every length that is not negative.
\<close>

section \<open>Memory\<close>

text \<open>\<open>memcpy\<close> out of and into a buffer. Where the code copies within one buffer the two regions
  overlap; the copy is the one of \<open>memmove\<close>.\<close>

definition mem_read :: "u8 list \<Rightarrow> nat \<Rightarrow> nat \<Rightarrow> u8 list option" where
  "mem_read buf i n = (if i + n \<le> length buf then Some (take n (drop i buf)) else None)"

definition mem_write :: "u8 list \<Rightarrow> nat \<Rightarrow> u8 list \<Rightarrow> u8 list option" where
  "mem_write buf i bs =
     (if i + length bs \<le> length buf then Some (take i buf @ bs @ drop (i + length bs) buf) else None)"

section \<open>The encryption header\<close>

definition ENC_TYPE_NONE :: u8 where "ENC_TYPE_NONE = 0"
definition ENC_TYPE_AES :: u8 where "ENC_TYPE_AES = 1"
definition ENC_TYPE_RSA :: u8 where "ENC_TYPE_RSA = 2"

record enc_head =
  eh_type :: u8
  eh_length :: "u8 list"
  eh_padding :: u8
  eh_random :: "u8 list"

text \<open>The object in memory: only \<open>unsigned char\<close> members, so there is no padding between them.\<close>

definition sizeof_enc_head :: nat where "sizeof_enc_head = 10"

definition enc_head_bytes :: "enc_head \<Rightarrow> u8 list" where
  "enc_head_bytes h = eh_type h # eh_length h @ eh_padding h # eh_random h"

definition enc_head_of :: "u8 list \<Rightarrow> enc_head" where
  "enc_head_of bs = \<lparr>eh_type = bs ! 0, eh_length = take 4 (drop 1 bs), eh_padding = bs ! 5, eh_random = take 4 (drop 6 bs)\<rparr>"

section \<open>Blocks\<close>

type_synonym cipher = "u8 list \<Rightarrow> u8 list \<Rightarrow> u8 list"

definition block_cipher :: "cipher \<Rightarrow> cipher \<Rightarrow> bool" where
  "block_cipher enc dec \<longleftrightarrow>
     (\<forall>k b. length b = 16 \<longrightarrow> length (enc k b) = 16 \<and> dec k (enc k b) = b)"

text \<open>The loop over \<open>n\<close> blocks in place.\<close>

fun aes_blocks :: "(u8 list \<Rightarrow> u8 list) \<Rightarrow> nat \<Rightarrow> u8 list \<Rightarrow> u8 list option" where
  "aes_blocks f 0 bs = Some bs"
| "aes_blocks f (Suc n) bs =
     do { b \<leftarrow> mem_read bs 0 16; rest \<leftarrow> aes_blocks f n (drop 16 bs); Some (f b @ rest) }"

definition block_count :: "nat \<Rightarrow> nat" where
  "block_count len = (if len mod 16 = 0 then len div 16 else len div 16 + 1)"

definition DbsAesEncrypt :: "cipher \<Rightarrow> u8 list \<Rightarrow> u8 list \<Rightarrow> nat \<Rightarrow> u8 list option" where
  "DbsAesEncrypt enc key dat len = aes_blocks (enc key) (block_count len) dat"

definition DbsAesDecrypt :: "cipher \<Rightarrow> u8 list \<Rightarrow> u8 list \<Rightarrow> nat \<Rightarrow> u8 list option" where
  "DbsAesDecrypt dec key dat len = aes_blocks (dec key) (block_count len) dat"

section \<open>Packets\<close>

text \<open>\<open>encryptData\<close>: the buffer it leaves, its result and the generator of the random numbers.\<close>

definition encryptData ::
  "cipher \<Rightarrow> rng \<Rightarrow> u8 list option \<Rightarrow> nat \<Rightarrow> nat \<Rightarrow> u8 \<Rightarrow> (u8 list option \<times> int \<times> rng) option"
where
  "encryptData enc r dataInput inputLen maxLen encryptType =
     (case dataInput of
        None \<Rightarrow> Some (None, -2, r)
      | Some buf \<Rightarrow>
          let padding = 16 - inputLen mod 16;
              len = padding + inputLen + sizeof_enc_head
          in
            if len > maxLen then Some (Some buf, -1, r)
            else if encryptType \<noteq> ENC_TYPE_AES then Some (Some buf, -3, r)
            else do {
              let (random, r) = srand_get_int32 r;
              let key = mem4 random @ replicate 12 0;
              let len = inputLen + padding;
              let head = \<lparr>eh_type = encryptType, eh_length = mem4 (ENDIAN_DWRD (of_nat len)),
                          eh_padding = of_nat padding, eh_random = take 4 key\<rparr>;
              dat \<leftarrow> mem_read buf 0 inputLen;
              let buffTemp = dat @ replicate padding 0;
              buffTemp \<leftarrow> DbsAesEncrypt enc key buffTemp len;
              buf \<leftarrow> mem_write buf 0 (enc_head_bytes head);
              buf \<leftarrow> mem_write buf sizeof_enc_head (take len buffTemp);
              Some (Some buf, int (sizeof_enc_head + len), r) })"

text \<open>\<open>decryptData\<close>: a negative length makes \<open>malloc\<close> fail, and the null pointer is written to; a
  padding above the length is a copy of a huge size.\<close>

definition decryptData :: "cipher \<Rightarrow> u8 list option \<Rightarrow> u8 \<Rightarrow> (u8 list option \<times> int) option" where
  "decryptData dec dataInput encryptType =
     (case dataInput of
        None \<Rightarrow> Some (None, -2)
      | Some buf \<Rightarrow>
          if encryptType \<noteq> ENC_TYPE_AES then Some (Some buf, -3)
          else do {
            hb \<leftarrow> mem_read buf 0 sizeof_enc_head;
            let head = enc_head_of hb;
            let len = sint (ENDIAN_DWRD (of_mem4 (eh_length head)));
            guard (0 \<le> len);
            let len = nat len;
            let key = eh_random head @ replicate 12 0;
            buffTemp \<leftarrow> mem_read buf sizeof_enc_head len;
            buffTemp \<leftarrow> DbsAesDecrypt dec key buffTemp len;
            guard (unat (eh_padding head) \<le> len);
            let n = len - unat (eh_padding head);
            buf \<leftarrow> mem_write buf 0 (take n buffTemp);
            Some (Some buf, int n) })"

text \<open>\<open>rot13_char\<close> and \<open>GetCRC32Code\<close>, which is not implemented: it writes four bytes 1.\<close>

definition rot13_char :: "char \<Rightarrow> char" where
  "rot13_char c =
     (let n = of_char c :: nat in
      if (of_char CHR ''a'' \<le> n \<and> n \<le> of_char CHR ''m'') \<or> (of_char CHR ''A'' \<le> n \<and> n \<le> of_char CHR ''M'')
      then char_of (n + 13)
      else if (of_char CHR ''n'' \<le> n \<and> n \<le> of_char CHR ''z'') \<or> (of_char CHR ''N'' \<le> n \<and> n \<le> of_char CHR ''Z'')
      then char_of (n - 13)
      else c)"

definition GetCRC32Code :: "u8 list \<Rightarrow> u8 list option" where
  "GetCRC32Code CRC32 = mem_write CRC32 0 (replicate 4 1)"

section \<open>Lemmas\<close>

lemma length_mem4 [simp]: "length (mem4 d) = 4" by (simp add: mem4_def)

lemma mem_read_Some [simp]: "mem_read buf i n = Some bs \<longleftrightarrow> i + n \<le> length buf \<and> bs = take n (drop i buf)"
  by (auto simp: mem_read_def)

lemma mem_read_in: "i + n \<le> length buf \<Longrightarrow> mem_read buf i n = Some (take n (drop i buf))"
  by (simp add: mem_read_def)

lemma mem_write_in: "i + length bs \<le> length buf \<Longrightarrow> mem_write buf i bs = Some (take i buf @ bs @ drop (i + length bs) buf)"
  by (simp add: mem_write_def)

lemma mem_write_length: "mem_write buf i bs = Some buf' \<Longrightarrow> length buf' = length buf"
  by (auto simp: mem_write_def split: if_splits)

text \<open>The blocks of the cipher, on data that is a whole number of them.\<close>

lemma aes_blocks_length:
  "(\<And>b. length b = 16 \<Longrightarrow> length (f b) = 16) \<Longrightarrow> length bs = 16 * n \<Longrightarrow>
   \<exists>cs. aes_blocks f n bs = Some cs \<and> length cs = 16 * n"
proof (induction n arbitrary: bs)
  case (Suc n)
  then obtain cs where "aes_blocks f n (drop 16 bs) = Some cs" "length cs = 16 * n" by force
  then show ?case using Suc.prems by (simp add: mem_read_in)
qed simp

lemma aes_blocks_inverse:
  assumes "\<And>b. length b = 16 \<Longrightarrow> length (f b) = 16 \<and> g (f b) = b"
  shows "length bs = 16 * n \<Longrightarrow> aes_blocks f n bs = Some cs \<Longrightarrow> aes_blocks g n cs = Some bs"
proof (induction n arbitrary: bs cs)
  case (Suc n)
  obtain ds where ds: "aes_blocks f n (drop 16 bs) = Some ds" "cs = f (take 16 bs) @ ds"
    using Suc.prems by (auto simp: bind_eq_Some_conv)
  have "aes_blocks g n ds = Some (drop 16 bs)" using Suc.IH [of "drop 16 bs" ds] ds Suc.prems(1) by simp
  then show ?case using ds(2) assms [of "take 16 bs"] Suc.prems(1) by (simp add: mem_read_in)
qed simp

lemma aes_blocks_short: "length bs < 16 * n \<Longrightarrow> aes_blocks f n bs = None"
  by (induction n arbitrary: bs) (auto simp: mem_read_def bind_eq_None_conv)

lemma block_count_exact: "len = 16 * n \<Longrightarrow> block_count len = n"
  by (simp add: block_count_def)

lemma padded: "inputLen + (16 - inputLen mod 16) = 16 * (inputLen div 16 + 1)" for inputLen :: nat
  by presburger

lemma padded_lt: "n < 16 * (n div 16 + 1)" for n :: nat
  using padded [of n] by (metis add_diff_cancel_left' less_add_same_cancel1 mod_less_divisor zero_less_diff zero_less_numeral)

text \<open>The length field of a header, written and read.\<close>

definition length_field :: "nat \<Rightarrow> u8 list" where
  "length_field n = mem4 (ENDIAN_DWRD (of_nat n))"

definition field_length :: "u8 list \<Rightarrow> int" where
  "field_length bs = sint (ENDIAN_DWRD (of_mem4 bs))"

lemma length_length_field [simp]: "length (length_field n) = 4" by (simp add: length_field_def)

lemma sint_of_nat_small: "n < 2 ^ 31 \<Longrightarrow> sint (of_nat n :: u32) = int n"
proof -
  assume n: "n < 2 ^ 31"
  have "sint (word_of_int (int n) :: u32) = int n"
    by (rule signed_take_bit_int_eq_self [THEN trans [OF sint_sbintrunc']]) (use n in simp_all)
  then show ?thesis by simp
qed

lemma field_length_field [simp]: "n < 2 ^ 31 \<Longrightarrow> field_length (length_field n) = int n"
  by (simp add: field_length_def length_field_def of_mem4_mem4 ENDIAN_DWRD_involution sint_of_nat_small)

lemma enc_head_of_bytes:
  "length (eh_length h) = 4 \<Longrightarrow> length (eh_random h) = 4 \<Longrightarrow> enc_head_of (enc_head_bytes h) = h"
  by (cases h) (simp add: enc_head_of_def enc_head_bytes_def nth_append)

lemma length_enc_head_bytes:
  "length (eh_length h) = 4 \<Longrightarrow> length (eh_random h) = 4 \<Longrightarrow> length (enc_head_bytes h) = 10"
  by (simp add: enc_head_bytes_def)

lemma rot13_char_involution: "rot13_char (rot13_char c) = c"
proof -
  obtain n :: nat where n: "c = char_of n" "n < 256" by (metis char_of_char nat_of_char_less_256)
  then show ?thesis by (auto simp: rot13_char_def Let_def)
qed

text \<open>What \<open>encryptData\<close> writes, \<open>decryptData\<close> reads back.\<close>

definition padded_len :: "nat \<Rightarrow> nat" where
  "padded_len n = 16 * (n div 16 + 1)"

lemma padded_len_bounds: "n < padded_len n" "padded_len n \<le> n + 16" "padded_len n mod 16 = 0"
  using padded_lt [of n] by (simp_all add: padded_len_def)

definition pad_len :: "nat \<Rightarrow> nat" where
  "pad_len n = 16 - n mod 16"

definition pad_blocks :: "nat \<Rightarrow> nat" where
  "pad_blocks n = n div 16 + 1"

lemma pad_len_sum: "n + pad_len n = padded_len n" "pad_len n + n = padded_len n" "padded_len n = 16 * pad_blocks n"
  using padded [of n] by (simp_all add: padded_len_def pad_len_def pad_blocks_def)

lemma padded_len_diff: "unat (of_nat (pad_len n) :: u8) = padded_len n - n"
proof -
  have "pad_len n < 256" by (simp add: pad_len_def)
  then show ?thesis using pad_len_sum(1) [of n] by (simp add: unat_of_nat)
qed

lemma encryptData_errors:
  "encryptData enc r None n maxLen t = Some (None, -2, r)"
  "maxLen < 10 + padded_len n \<Longrightarrow> encryptData enc r (Some buf) n maxLen t = Some (Some buf, -1, r)"
  "10 + padded_len n \<le> maxLen \<Longrightarrow> t \<noteq> ENC_TYPE_AES \<Longrightarrow> encryptData enc r (Some buf) n maxLen t = Some (Some buf, -3, r)"
  using padded [of n] by (simp_all add: encryptData_def padded_len_def sizeof_enc_head_def add.commute)

lemma decryptData_packet:
  assumes c: "block_cipher enc dec" and l: "length dat = padded_len n" "padded_len n < 2 ^ 31"
    and e: "aes_blocks (enc (random @ replicate 12 0)) (pad_blocks n) dat = Some cs" "length random = 4"
  shows "decryptData dec (Some (enc_head_bytes \<lparr>eh_type = ENC_TYPE_AES, eh_length = length_field (padded_len n),
      eh_padding = of_nat (pad_len n), eh_random = random\<rparr> @ cs @ rest)) ENC_TYPE_AES
    = Some (Some (take n dat @ drop n (enc_head_bytes \<lparr>eh_type = ENC_TYPE_AES, eh_length = length_field (padded_len n),
      eh_padding = of_nat (pad_len n), eh_random = random\<rparr> @ cs @ rest)), int n)"
proof -
  define h where "h = \<lparr>eh_type = ENC_TYPE_AES, eh_length = length_field (padded_len n), eh_padding = of_nat (pad_len n) :: u8,
    eh_random = random\<rparr>"
  have f: "length (enc (random @ replicate 12 0) b) = 16 \<and> dec (random @ replicate 12 0) (enc (random @ replicate 12 0) b) = b"
    if "length b = 16" for b using c that by (simp add: block_cipher_def)
  have lc: "length cs = padded_len n"
    using aes_blocks_length [of "enc (random @ replicate 12 0)" dat "pad_blocks n"] f l e(1) by (auto simp: pad_len_sum(3))
  have d: "aes_blocks (dec (random @ replicate 12 0)) (pad_blocks n) cs = Some dat"
    using aes_blocks_inverse [OF f, of dat "pad_blocks n" cs] l(1) e(1) by (simp add: pad_len_sum)
  have bc: "block_count (padded_len n) = pad_blocks n" by (rule block_count_exact) (simp add: pad_len_sum)
  have hb: "length (enc_head_bytes h) = 10" "enc_head_of (enc_head_bytes h) = h"
    using e(2) by (simp_all add: h_def length_enc_head_bytes enc_head_of_bytes)
  have fl: "sint (ENDIAN_DWRD (of_mem4 (eh_length h))) = int (padded_len n)"
    using l(2) field_length_field [of "padded_len n"] by (simp add: h_def field_length_def)
  have pad: "unat (eh_padding h) = padded_len n - n" by (simp add: h_def padded_len_diff)
  have "n < padded_len n" by (rule padded_len_bounds)
  then have "decryptData dec (Some (enc_head_bytes h @ cs @ rest)) ENC_TYPE_AES
      = Some (Some (take n dat @ drop n (enc_head_bytes h @ cs @ rest)), int n)"
    using hb fl pad lc d bc l
    by (simp add: decryptData_def sizeof_enc_head_def mem_read_in DbsAesDecrypt_def mem_write_in)
      (simp add: h_def)
  then show ?thesis by (simp add: h_def)
qed

lemma encryptData_packet:
  assumes c: "block_cipher enc dec" and n: "10 + padded_len n \<le> maxLen" "10 + padded_len n \<le> length buf" "padded_len n < 2 ^ 31"
  obtains packet r' where
    "encryptData enc r (Some buf) n maxLen ENC_TYPE_AES
       = Some (Some (packet @ drop (10 + padded_len n) buf), int (10 + padded_len n), r')"
    "length packet = 10 + padded_len n"
    "\<And>rest. decryptData dec (Some (packet @ rest)) ENC_TYPE_AES = Some (Some (take n buf @ drop n (packet @ rest)), int n)"
proof -
  obtain random r' where r: "srand_get_int32 r = (random, r')" by fastforce
  define key where "key = mem4 random @ replicate 12 0"
  define dat where "dat = take n buf @ replicate (pad_len n) (0 :: u8)"
  have ln: "n < length buf" using n(2) padded_len_bounds(1) [of n] by linarith
  have ld: "length dat = 16 * (pad_blocks n)" using pad_len_sum [of n] ln by (simp add: dat_def)
  have f: "length (enc key b) = 16" if "length b = 16" for b using c that by (simp add: block_cipher_def)
  obtain cs where cs: "aes_blocks (enc key) (pad_blocks n) dat = Some cs" "length cs = padded_len n"
    using aes_blocks_length [of "enc key" dat "pad_blocks n"] f ld by (auto simp: pad_len_sum(3))
  define h where "h = \<lparr>eh_type = ENC_TYPE_AES, eh_length = length_field (padded_len n), eh_padding = of_nat (pad_len n) :: u8,
    eh_random = mem4 random\<rparr>"
  have hb: "length (enc_head_bytes h) = 10" by (simp add: h_def length_enc_head_bytes)
  have bc: "block_count (padded_len n) = pad_blocks n" by (rule block_count_exact) (simp add: pad_len_sum)
  show thesis
  proof (rule that [of "enc_head_bytes h @ cs" r'])
    show "encryptData enc r (Some buf) n maxLen ENC_TYPE_AES
       = Some (Some ((enc_head_bytes h @ cs) @ drop (10 + padded_len n) buf), int (10 + padded_len n), r')"
      using n ln cs hb bc
      unfolding encryptData_def Let_def sizeof_enc_head_def pad_len_def [symmetric] pad_len_sum(1,2)
      by (simp add: r mem_read_in DbsAesEncrypt_def key_def [symmetric] dat_def [symmetric] mem_write_in
          length_field_def [symmetric] h_def [symmetric] add.commute)
    show "length (enc_head_bytes h @ cs) = 10 + padded_len n" using hb cs by simp
    have "take n dat = take n buf" using ln by (simp add: dat_def)
    then show "decryptData dec (Some ((enc_head_bytes h @ cs) @ rest)) ENC_TYPE_AES
        = Some (Some (take n buf @ drop n ((enc_head_bytes h @ cs) @ rest)), int n)" for rest
      using decryptData_packet [OF c, of dat n "mem4 random" cs rest] ld cs n(3)
      by (simp add: pad_len_sum key_def h_def)
  qed
qed

end
