(* ===== verification/Packet.thy ===== *)
theory Packet
  imports Crypt
begin

text \<open>
  The frames of \<open>utils/socket_server.c\<close>: a header of 14 bytes with the magic word, the kind of the
  request, two flags, the time and the length of what follows, then the data, plain or encrypted.
  Lengths are not negative where the code calls these functions. The header is put in front of the data,
  and taken away again, with \<open>memcpy\<close> inside one buffer. Where the two areas overlap C leaves the call
  undefined; what the C library does there is an argument, \<open>ov\<close>.
\<close>

section \<open>Copying inside one buffer\<close>

text \<open>What \<open>memcpy\<close> makes of overlapping areas, both inside the buffer: nothing that a program may rely on
  in C, the result of \<open>memmove\<close> in some libraries, that of copying byte after byte in others.\<close>

type_synonym overlap_copy = "u8 list \<Rightarrow> nat \<Rightarrow> nat \<Rightarrow> nat \<Rightarrow> u8 list option"

definition standard_copy :: overlap_copy where
  "standard_copy buf d s n = None"

definition memmove_copy :: overlap_copy where
  "memmove_copy buf d s n = do { dat \<leftarrow> mem_read buf s n; mem_write buf d dat }"

definition forward_copy :: overlap_copy where
  "forward_copy buf d s n = Some (fold (\<lambda>i b. b[d + i := b ! (s + i)]) [0..<n] buf)"

text \<open>\<open>memcpy(buf + d, buf + s, n)\<close>.\<close>

definition memcpy_in :: "overlap_copy \<Rightarrow> u8 list \<Rightarrow> nat \<Rightarrow> nat \<Rightarrow> nat \<Rightarrow> u8 list option" where
  "memcpy_in ov buf d s n =
     (if length buf < d + n \<or> length buf < s + n then None
      else if d + n \<le> s \<or> s + n \<le> d then memmove_copy buf d s n
      else ov buf d s n)"

lemma memcpy_in_eq:
  assumes "ov = memmove_copy \<or> d + n \<le> s \<or> s + n \<le> d"
  shows "memcpy_in ov buf d s n = do { dat \<leftarrow> mem_read buf s n; mem_write buf d dat }"
  using assms by (auto simp: memcpy_in_def memmove_copy_def mem_read_def mem_write_def)

lemma memcpy_in_outside: "length buf < d + n \<or> length buf < s + n \<Longrightarrow> memcpy_in ov buf d s n = None"
  by (simp add: memcpy_in_def)

lemma memcpy_in_standard: "s < d + n \<Longrightarrow> d < s + n \<Longrightarrow> memcpy_in standard_copy buf d s n = None"
  by (simp add: memcpy_in_def standard_copy_def)

section \<open>The header\<close>

record sock_head =
  sk_magicWord :: "u8 list"
  sk_requestType :: u8
  sk_keepAlive :: u8
  sk_encFlag :: u8
  sk_time :: "u8 list"
  sk_length :: "u8 list"

definition sizeof_sock_head :: nat where "sizeof_sock_head = 14"

definition sock_head_bytes :: "sock_head \<Rightarrow> u8 list" where
  "sock_head_bytes h =
     sk_magicWord h @ [sk_requestType h, sk_keepAlive h, sk_encFlag h] @ sk_time h @ sk_length h"

definition sock_head_of :: "u8 list \<Rightarrow> sock_head" where
  "sock_head_of bs =
     \<lparr>sk_magicWord = take 3 bs, sk_requestType = bs ! 3, sk_keepAlive = bs ! 4, sk_encFlag = bs ! 5,
      sk_time = take 4 (drop 6 bs), sk_length = take 4 (drop 10 bs)\<rparr>"

text \<open>The bytes of \<open>"sos"\<close>.\<close>

definition magic :: "u8 list" where "magic = [0x73, 0x6F, 0x73]"

section \<open>Sending and receiving\<close>

text \<open>\<open>getSocketSendBuff\<close>: the frame is built in the buffer that holds the data. \<open>now\<close> is \<open>time(0)\<close>.\<close>

definition getSocketSendBuff ::
  "overlap_copy \<Rightarrow> cipher \<Rightarrow> u32 \<Rightarrow> rng \<Rightarrow> u8 list option \<Rightarrow> nat \<Rightarrow> nat \<Rightarrow> u8 \<Rightarrow> u8 \<Rightarrow> u8
     \<Rightarrow> (u8 list option \<times> int \<times> rng) option"
where
  "getSocketSendBuff ov enc now r dataInput inputLen maxLen requestType encryptType keepAliveFlag =
     (case dataInput of
        None \<Rightarrow> Some (None, -5, r)
      | Some buf \<Rightarrow>
          if encryptType = 0 \<and> maxLen < inputLen + sizeof_sock_head then Some (Some buf, -3, r)
          else if encryptType \<noteq> 0 \<and> maxLen < inputLen + sizeof_sock_head + sizeof_enc_head
          then Some (Some buf, -4, r)
          else do {
            let s_h = \<lparr>sk_magicWord = magic, sk_requestType = requestType, sk_keepAlive = keepAliveFlag,
                       sk_encFlag = encryptType, sk_time = mem4 (ENDIAN_DWRD now), sk_length = replicate 4 0\<rparr>;
            if sk_encFlag s_h = 0
            then do {
              let s_h = s_h\<lparr>sk_length := mem4 (ENDIAN_DWRD (of_nat inputLen))\<rparr>;
              buf \<leftarrow> memcpy_in ov buf sizeof_sock_head 0 inputLen;
              buf \<leftarrow> mem_write buf 0 (sock_head_bytes s_h);
              Some (Some buf, int (sizeof_sock_head + inputLen), r) }
            else do {
              (b, encdLen, r) \<leftarrow> encryptData enc r (Some buf) inputLen maxLen encryptType;
              buf \<leftarrow> b;
              if encdLen < 0 then Some (Some buf, encdLen, r)
              else do {
                let s_h = s_h\<lparr>sk_length := mem4 (ENDIAN_DWRD (of_int encdLen))\<rparr>;
                buf \<leftarrow> memcpy_in ov buf sizeof_sock_head 0 (nat encdLen);
                buf \<leftarrow> mem_write buf 0 (sock_head_bytes s_h);
                Some (Some buf, int sizeof_sock_head + encdLen, r) } } })"

text \<open>\<open>parseRecvBuff\<close>: the buffer, the result and the header, which is copied out before the length is
  tested. The comparison is one of \<open>size_t\<close>; a negative length makes it fail.\<close>

definition parseRecvBuff :: "overlap_copy \<Rightarrow> cipher \<Rightarrow> u8 list \<Rightarrow> nat \<Rightarrow> sock_head \<Rightarrow> (u8 list \<times> int \<times> sock_head) option" where
  "parseRecvBuff ov dec buf inputLen sh =
     (if inputLen < sizeof_sock_head then Some (buf, -6, sh)
      else do {
        hb \<leftarrow> mem_read buf 0 sizeof_sock_head;
        let sh = sock_head_of hb;
        let len = sint (ENDIAN_DWRD (of_mem4 (sk_length sh)));
        if int inputLen \<noteq> int sizeof_sock_head + len then Some (buf, -6, sh)
        else if sk_encFlag sh = 0
        then do {
          buf \<leftarrow> memcpy_in ov buf 0 sizeof_sock_head (nat len);
          Some (buf, len, sh) }
        else do {
          (b, retLen) \<leftarrow> decryptData dec (Some (drop sizeof_sock_head buf)) ENC_TYPE_AES;
          rest \<leftarrow> b;
          let buf = take sizeof_sock_head buf @ rest;
          if retLen < 0 then Some (buf, retLen, sh)
          else do {
            buf \<leftarrow> memcpy_in ov buf 0 sizeof_sock_head (nat retLen);
            Some (buf, retLen, sh) } } })"

text \<open>\<open>isRecvOK\<close> looks at the magic word first, whatever has arrived.\<close>

definition isRecvOK :: "u8 list \<Rightarrow> nat \<Rightarrow> int option" where
  "isRecvOK buf inputLen =
     do { hb \<leftarrow> mem_read buf 0 sizeof_sock_head;
          let s_h = sock_head_of hb;
          if sk_magicWord s_h \<noteq> magic then Some (-1)
          else if inputLen < sizeof_sock_head then Some (-2)
          else
            let len = sint (ENDIAN_DWRD (of_mem4 (sk_length s_h))) in
            if int inputLen \<noteq> int sizeof_sock_head + len then Some (-2) else Some 0 }"

section \<open>Frames\<close>

lemma mem_write_front: "length a = length hb \<Longrightarrow> mem_write (a @ x) 0 hb = Some (hb @ x)"
  by (simp add: mem_write_def)

text \<open>A frame: its header with the length of the body, and the body.\<close>

definition frame_head :: "u32 \<Rightarrow> u8 \<Rightarrow> u8 \<Rightarrow> u8 \<Rightarrow> nat \<Rightarrow> sock_head" where
  "frame_head now req flag keep n =
     \<lparr>sk_magicWord = magic, sk_requestType = req, sk_keepAlive = keep, sk_encFlag = flag,
      sk_time = mem4 (ENDIAN_DWRD now), sk_length = length_field n\<rparr>"

definition frame :: "u32 \<Rightarrow> u8 \<Rightarrow> u8 \<Rightarrow> u8 \<Rightarrow> u8 list \<Rightarrow> u8 list" where
  "frame now req flag keep body = sock_head_bytes (frame_head now req flag keep (length body)) @ body"

lemma length_magic [simp]: "length magic = 3" by (simp add: magic_def)

lemma frame_head_sel [simp]:
  "sk_magicWord (frame_head now req flag keep n) = magic"
  "sk_requestType (frame_head now req flag keep n) = req"
  "sk_keepAlive (frame_head now req flag keep n) = keep"
  "sk_encFlag (frame_head now req flag keep n) = flag"
  "sk_length (frame_head now req flag keep n) = length_field n"
  by (simp_all add: frame_head_def)

lemma length_head_bytes [simp]: "length (sock_head_bytes (frame_head now req flag keep n)) = 14"
  by (simp add: sock_head_bytes_def frame_head_def)

lemma length_frame [simp]: "length (frame now req flag keep body) = 14 + length body"
  by (simp add: frame_def)

lemma sock_head_of_bytes [simp]: "sock_head_of (sock_head_bytes (frame_head now req flag keep n)) = frame_head now req flag keep n"
  by (simp add: sock_head_of_def sock_head_bytes_def frame_head_def nth_append magic_def mem4_def)

lemma head_of_frame: "take 14 (frame now req flag keep body @ rest) = sock_head_bytes (frame_head now req flag keep (length body))"
  "take 14 (frame now req flag keep body) = sock_head_bytes (frame_head now req flag keep (length body))"
  by (simp_all add: frame_def)

lemma isRecvOK_frame:
  assumes "length body < 2 ^ 31"
  shows "isRecvOK (frame now req flag keep body @ rest) n = Some (if n = 14 + length body then 0 else -2)"
  using assms field_length_field [of "length body"]
  by (simp add: isRecvOK_def mem_read_in sizeof_sock_head_def head_of_frame field_length_def Let_def)

text \<open>Sending a plain reply and receiving it.\<close>

lemma getSocketSendBuff_plain:
  assumes "14 + n \<le> maxLen" "14 + n \<le> length buf" "ov = memmove_copy \<or> n \<le> 14"
  shows "getSocketSendBuff ov enc now r (Some buf) n maxLen req 0 keep =
    Some (Some (frame now req 0 keep (take n buf) @ drop (14 + n) buf), int (14 + n), r)"
  using assms memcpy_in_eq [of ov 14 n 0 buf]
  by (simp add: getSocketSendBuff_def sizeof_sock_head_def mem_read_in mem_write_in frame_def frame_head_def
      length_field_def sock_head_bytes_def mem4_def magic_def)

lemma parseRecvBuff_plain:
  assumes "length body < 2 ^ 31" "ov = memmove_copy \<or> length body \<le> 14"
  shows "parseRecvBuff ov dec (frame now req 0 keep body @ rest) (14 + length body) sh =
    Some (body @ drop (length body) (frame now req 0 keep body @ rest), int (length body), frame_head now req 0 keep (length body))"
proof -
  let ?b = "frame now req 0 keep body @ rest"
  have "take (length body) (drop 14 ?b) = body" by (simp add: frame_def)
  then show ?thesis using assms field_length_field [of "length body"] memcpy_in_eq [of ov 0 "length body" 14]
    by (simp add: parseRecvBuff_def sizeof_sock_head_def mem_read_in mem_write_in head_of_frame field_length_def Let_def
        del: drop_append)
qed

lemma parseRecvBuff_encrypted:
  assumes d: "\<And>rest. decryptData dec (Some (body @ rest)) ENC_TYPE_AES = Some (Some (dat @ drop (length dat) (body @ rest)), int (length dat))"
    and l: "length body < 2 ^ 31" "length dat \<le> length body" and f: "flag \<noteq> 0"
    and ov: "ov = memmove_copy \<or> length dat \<le> 14"
  shows "\<exists>rest'. parseRecvBuff ov dec (frame now req flag keep body @ rest) (14 + length body) sh =
    Some (dat @ rest', int (length dat), frame_head now req flag keep (length body)) \<and> length rest' + length dat = 14 + length body + length rest"
proof -
  let ?b = "frame now req flag keep body @ rest"
  let ?c = "sock_head_bytes (frame_head now req flag keep (length body)) @ dat @ drop (length dat) (body @ rest)"
  have e: "drop 14 ?b = body @ rest" by (simp add: frame_def)
  have m: "mem_read ?c 14 (length dat) = Some dat" by (simp add: mem_read_def)
  have w: "mem_write ?c 0 dat = Some (dat @ drop (length dat) ?c)" by (simp add: mem_write_def)
  have "parseRecvBuff ov dec ?b (14 + length body) sh =
    Some (dat @ drop (length dat) ?c, int (length dat), frame_head now req flag keep (length body))"
    using l f field_length_field [of "length body"] d [of rest] m w memcpy_in_eq [of ov 0 "length dat" 14 ?c] ov
    by (simp add: parseRecvBuff_def sizeof_sock_head_def mem_read_in [of 0 14] head_of_frame field_length_def e Let_def
        del: drop_append mem_read_Some)
  then show ?thesis using l(2) by auto
qed

text \<open>Sending an encrypted reply.\<close>

lemma getSocketSendBuff_encrypted:
  assumes c: "block_cipher enc dec" and ov: "ov = memmove_copy" and n: "24 + padded_len n \<le> maxLen" "24 + padded_len n \<le> length buf" "padded_len n < 2 ^ 30"
  obtains body r' where
    "getSocketSendBuff ov enc now r (Some buf) n maxLen req ENC_TYPE_AES keep
       = Some (Some (frame now req ENC_TYPE_AES keep body @ drop (24 + padded_len n) buf), int (24 + padded_len n), r')"
    "length body = 10 + padded_len n"
    "\<And>rest. decryptData dec (Some (body @ rest)) ENC_TYPE_AES = Some (Some (take n buf @ drop n (body @ rest)), int n)"
proof -
  have b: "10 + padded_len n \<le> maxLen" "10 + padded_len n \<le> length buf" "padded_len n < 2 ^ 31" using n by simp_all
  obtain body r' where e: "encryptData enc r (Some buf) n maxLen ENC_TYPE_AES
       = Some (Some (body @ drop (10 + padded_len n) buf), int (10 + padded_len n), r')"
    "length body = 10 + padded_len n"
    "\<And>rest. decryptData dec (Some (body @ rest)) ENC_TYPE_AES = Some (Some (take n buf @ drop n (body @ rest)), int n)"
    using encryptData_packet [OF c b, of r] by blast
  let ?b = "body @ drop (10 + padded_len n) buf"
  have lb: "length ?b = length buf" using e(2) n(2) by simp
  have r: "mem_read ?b 0 (10 + padded_len n) = Some body" using e(2) n(2) by (simp add: mem_read_in)
  have w: "mem_write ?b 14 body = Some (take 14 ?b @ body @ drop (24 + padded_len n) buf)"
    using e(2) n(2) lb by (simp add: mem_write_def)
  have h: "mem_write (take 14 ?b @ body @ drop (24 + padded_len n) buf) 0 hb = Some (hb @ body @ drop (24 + padded_len n) buf)"
    if "length hb = 14" for hb
  proof (rule mem_write_front)
    show "length (take 14 ?b) = length hb" using lb n(2) that by (simp del: take_append length_append)
  qed
  have "n < padded_len n" by (rule padded_len_bounds)
  moreover have a: "ENC_TYPE_AES \<noteq> 0" by (simp add: ENC_TYPE_AES_def)
  ultimately have "getSocketSendBuff ov enc now r (Some buf) n maxLen req ENC_TYPE_AES keep
       = Some (Some (frame now req ENC_TYPE_AES keep body @ drop (24 + padded_len n) buf), int (24 + padded_len n), r')"
    using n e(1) r w memcpy_in_eq [of ov 14 "10 + padded_len n" 0 ?b] ov h [OF length_head_bytes [of now req ENC_TYPE_AES keep "10 + padded_len n"]]
    by (simp add: getSocketSendBuff_def sizeof_sock_head_def sizeof_enc_head_def nat_add_distrib frame_def e(2)
        frame_head_def length_field_def del: mem_read_Some)
  then show thesis using e(2,3) that by blast
qed

section \<open>Properties\<close>

lemma packet_back:
  assumes "block_cipher enc dec" "flag \<in> {ENC_TYPE_NONE, ENC_TYPE_AES}" "length buf = maxLen" "maxLen < 2 ^ 30"
    "14 + (if flag = ENC_TYPE_NONE then n else 10 + padded_len n) \<le> maxLen" "ov = memmove_copy \<or> flag = 0 \<and> n \<le> 14"
  shows "\<exists>buf' N r' rest h. getSocketSendBuff ov enc now r (Some buf) n maxLen req flag keep = Some (Some buf', int N, r')
    \<and> N \<le> maxLen \<and> length buf' = maxLen
    \<and> (\<forall>m. isRecvOK buf' m = Some (if m = N then 0 else -2))
    \<and> parseRecvBuff ov dec buf' N sh = Some (take n buf @ rest, int n, h) \<and> length (take n buf @ rest) = maxLen
    \<and> sk_requestType h = req \<and> sk_keepAlive h = keep \<and> sk_encFlag h = flag \<and> sk_time h = mem4 (ENDIAN_DWRD now)"
proof (cases "flag = 0")
  case True
  have n: "14 + n \<le> length buf" using assms(3,5) True by (simp add: ENC_TYPE_NONE_def)
  then have l: "length (take n buf) = n" by simp
  let ?f = "frame now req 0 keep (take n buf)"
  have "getSocketSendBuff ov enc now r (Some buf) n maxLen req flag keep = Some (Some (?f @ drop (14 + n) buf), int (14 + n), r)"
    using getSocketSendBuff_plain n assms(3,6) True by simp
  moreover have "parseRecvBuff ov dec (?f @ drop (14 + n) buf) (14 + n) sh
      = Some (take n buf @ drop n (?f @ drop (14 + n) buf), int n, frame_head now req 0 keep n)"
    using parseRecvBuff_plain [of "take n buf" ov dec now req keep "drop (14 + n) buf" sh] l n assms(3,4,6) True by simp
  moreover have "isRecvOK (?f @ drop (14 + n) buf) m = Some (if m = 14 + n then 0 else -2)" for m
    using isRecvOK_frame [of "take n buf"] l n assms(3,4) by simp
  moreover have "length (?f @ drop (14 + n) buf) = maxLen" "length (take n buf @ drop n (?f @ drop (14 + n) buf)) = maxLen"
    using n assms(3) by simp_all
  ultimately show ?thesis using n assms(3) True
    by (intro exI [of _ "?f @ drop (14 + n) buf"] exI [of _ "14 + n"] exI [of _ r]
        exI [of _ "drop n (?f @ drop (14 + n) buf)"] exI [of _ "frame_head now req 0 keep n"])
      (simp add: frame_head_def)
next
  case False
  then have f: "flag = ENC_TYPE_AES" and ov: "ov = memmove_copy" using assms(2,6) by (auto simp: ENC_TYPE_NONE_def)
  have n: "24 + padded_len n \<le> maxLen" "24 + padded_len n \<le> length buf" "padded_len n < 2 ^ 30"
    using assms(3,4,5) False by (simp_all add: ENC_TYPE_NONE_def)
  obtain body r' where s: "getSocketSendBuff ov enc now r (Some buf) n maxLen req ENC_TYPE_AES keep
       = Some (Some (frame now req ENC_TYPE_AES keep body @ drop (24 + padded_len n) buf), int (24 + padded_len n), r')"
    and lb: "length body = 10 + padded_len n"
    and d: "\<And>rest. decryptData dec (Some (body @ rest)) ENC_TYPE_AES = Some (Some (take n buf @ drop n (body @ rest)), int n)"
    using getSocketSendBuff_encrypted [OF assms(1) ov n, of now r req keep] by blast
  let ?b = "frame now req ENC_TYPE_AES keep body @ drop (24 + padded_len n) buf"
  have ln: "length (take n buf) = n" "n \<le> length body" using n(2) lb padded_len_bounds(1) [of n] by simp_all
  obtain rest where "parseRecvBuff ov dec ?b (14 + length body) sh
      = Some (take n buf @ rest, int n, frame_head now req flag keep (length body))" "length (take n buf @ rest) = maxLen"
    using parseRecvBuff_encrypted [of dec body "take n buf" flag ov now req keep "drop (24 + padded_len n) buf" sh]
      d ln lb n False f assms(3) ov by auto
  moreover have "isRecvOK ?b m = Some (if m = 14 + length body then 0 else -2)" for m
    using isRecvOK_frame [of body] lb n by simp
  moreover have "length ?b = maxLen" using lb n assms(3) by simp
  ultimately show ?thesis using s lb n f
    by (intro exI [of _ ?b] exI [of _ "14 + length body"] exI [of _ r'] exI [of _ rest]
        exI [of _ "frame_head now req flag keep (length body)"]) (simp add: frame_head_def)
qed

text \<open>The copies whose areas overlap.\<close>

lemma getSocketSendBuff_standard:
  assumes "14 < n"
  shows "getSocketSendBuff standard_copy enc now r (Some buf) n maxLen req 0 keep = (if maxLen < n + 14 then Some (Some buf, -3, r) else None)"
  using assms memcpy_in_standard [of 0 14 n buf] by (simp add: getSocketSendBuff_def sizeof_sock_head_def)

lemma getSocketSendBuff_encrypted_standard:
  assumes "block_cipher enc dec" "24 + padded_len n \<le> maxLen" "24 + padded_len n \<le> length buf" "padded_len n < 2 ^ 30"
  shows "getSocketSendBuff standard_copy enc now r (Some buf) n maxLen req ENC_TYPE_AES keep = None"
proof -
  have "10 + padded_len n \<le> maxLen" "10 + padded_len n \<le> length buf" "padded_len n < 2 ^ 31" using assms by simp_all
  then obtain body r' where e: "encryptData enc r (Some buf) n maxLen ENC_TYPE_AES
       = Some (Some (body @ drop (10 + padded_len n) buf), int (10 + padded_len n), r')"
    using encryptData_packet [OF assms(1), of n maxLen buf r] by blast
  have "n < padded_len n" "16 \<le> padded_len n" by (simp_all add: padded_len_def)
  then show ?thesis using e assms(2) memcpy_in_standard [of 0 14 "10 + padded_len n"]
    by (simp add: getSocketSendBuff_def sizeof_sock_head_def sizeof_enc_head_def ENC_TYPE_AES_def nat_add_distrib Let_def)
qed

lemma parseRecvBuff_standard:
  assumes "14 < length body" "length body < 2 ^ 31"
  shows "parseRecvBuff standard_copy dec (frame now req 0 keep body @ rest) (14 + length body) sh = None"
  using assms field_length_field [of "length body"] memcpy_in_standard [of 14 0 "length body"]
  by (simp add: parseRecvBuff_def sizeof_sock_head_def mem_read_in head_of_frame field_length_def Let_def)

text \<open>
  C13: What one side sends the other receives, as far as C defines the copies. For every data that fits,
  plain or encrypted with any block cipher: where \<open>memcpy\<close> copies overlapping areas as \<open>memmove\<close> does, and
  with any \<open>memcpy\<close> for plain data of at most 14 bytes, \<open>getSocketSendBuff\<close> leaves a frame in the buffer
  that \<open>isRecvOK\<close> finds incomplete at every length but its own, and \<open>parseRecvBuff\<close> takes the header and
  the data out of it again. With what C promises of \<open>memcpy\<close> and nothing more, every other call of
  \<open>getSocketSendBuff\<close> is undefined: for all encrypted data and for plain data of more than 14 bytes.
\<close>

theorem packet_roundtrip:
  assumes "block_cipher enc dec" "flag \<in> {ENC_TYPE_NONE, ENC_TYPE_AES}" "length buf = maxLen" "maxLen < 2 ^ 30"
    "14 + (if flag = ENC_TYPE_NONE then n else 10 + padded_len n) \<le> maxLen"
  shows "(ov = memmove_copy \<or> flag = ENC_TYPE_NONE \<and> n \<le> 14 \<longrightarrow>
      (\<exists>buf' N r' rest h. getSocketSendBuff ov enc now r (Some buf) n maxLen req flag keep = Some (Some buf', int N, r')
        \<and> N \<le> maxLen \<and> length buf' = maxLen
        \<and> (\<forall>m. isRecvOK buf' m = Some (if m = N then 0 else -2))
        \<and> parseRecvBuff ov dec buf' N sh = Some (take n buf @ rest, int n, h) \<and> length (take n buf @ rest) = maxLen
        \<and> sk_requestType h = req \<and> sk_keepAlive h = keep \<and> sk_encFlag h = flag \<and> sk_time h = mem4 (ENDIAN_DWRD now)))
    \<and> (ov = standard_copy \<and> (flag = ENC_TYPE_AES \<or> 14 < n) \<longrightarrow>
      getSocketSendBuff ov enc now r (Some buf) n maxLen req flag keep = None)"
proof (intro conjI impI)
  assume "ov = memmove_copy \<or> flag = ENC_TYPE_NONE \<and> n \<le> 14"
  then have "ov = memmove_copy \<or> flag = 0 \<and> n \<le> 14" by (simp add: ENC_TYPE_NONE_def)
  from packet_back [OF assms this] show "\<exists>buf' N r' rest h. getSocketSendBuff ov enc now r (Some buf) n maxLen req flag keep = Some (Some buf', int N, r')
        \<and> N \<le> maxLen \<and> length buf' = maxLen
        \<and> (\<forall>m. isRecvOK buf' m = Some (if m = N then 0 else -2))
        \<and> parseRecvBuff ov dec buf' N sh = Some (take n buf @ rest, int n, h) \<and> length (take n buf @ rest) = maxLen
        \<and> sk_requestType h = req \<and> sk_keepAlive h = keep \<and> sk_encFlag h = flag \<and> sk_time h = mem4 (ENDIAN_DWRD now)" .
next
  assume ov: "ov = standard_copy \<and> (flag = ENC_TYPE_AES \<or> 14 < n)"
  show "getSocketSendBuff ov enc now r (Some buf) n maxLen req flag keep = None"
  proof (cases "flag = ENC_TYPE_AES")
    case True
    then show ?thesis using ov assms(3-5) getSocketSendBuff_encrypted_standard [OF assms(1)]
      by (simp add: ENC_TYPE_AES_def ENC_TYPE_NONE_def)
  next
    case False
    then show ?thesis using ov assms(2,5) getSocketSendBuff_standard [of n] by (simp add: ENC_TYPE_NONE_def)
  qed
qed

text \<open>The concrete cipher of the witnesses: the exclusive or with the key.\<close>

definition xor_cipher :: cipher where
  "xor_cipher k b = map2 (XOR) b (take 16 (k @ replicate 16 0))"

lemma xor_cipher: "block_cipher xor_cipher xor_cipher"
proof -
  have "map2 (XOR) (map2 (XOR) b ks) ks = b" if "length b = length ks" for b ks :: "u8 list"
    using that by (induction b ks rule: list_induct2) (simp_all add: xor.assoc)
  then show ?thesis by (simp add: block_cipher_def xor_cipher_def)
qed

lemma packet_roundtrip_witness:
  "(\<exists>buf' N r' rest h. getSocketSendBuff memmove_copy xor_cipher 7 rng0 (Some (replicate 100 65)) 20 100 1 ENC_TYPE_AES 1 = Some (Some buf', int N, r')
    \<and> N \<le> 100 \<and> length buf' = 100
    \<and> (\<forall>m. isRecvOK buf' m = Some (if m = N then 0 else -2))
    \<and> parseRecvBuff memmove_copy xor_cipher buf' N (frame_head 0 0 0 0 0) = Some (take 20 (replicate 100 65) @ rest, int 20, h)
    \<and> length (take 20 (replicate 100 65) @ rest) = 100
    \<and> sk_requestType h = 1 \<and> sk_keepAlive h = 1 \<and> sk_encFlag h = ENC_TYPE_AES \<and> sk_time h = mem4 (ENDIAN_DWRD 7))
   \<and> getSocketSendBuff standard_copy xor_cipher 7 rng0 (Some (replicate 100 65)) 20 100 1 ENC_TYPE_NONE 1 = None"
proof (intro conjI)
  show "\<exists>buf' N r' rest h. getSocketSendBuff memmove_copy xor_cipher 7 rng0 (Some (replicate 100 65)) 20 100 1 ENC_TYPE_AES 1 = Some (Some buf', int N, r')
    \<and> N \<le> 100 \<and> length buf' = 100
    \<and> (\<forall>m. isRecvOK buf' m = Some (if m = N then 0 else -2))
    \<and> parseRecvBuff memmove_copy xor_cipher buf' N (frame_head 0 0 0 0 0) = Some (take 20 (replicate 100 65) @ rest, int 20, h)
    \<and> length (take 20 (replicate 100 65) @ rest) = 100
    \<and> sk_requestType h = 1 \<and> sk_keepAlive h = 1 \<and> sk_encFlag h = ENC_TYPE_AES \<and> sk_time h = mem4 (ENDIAN_DWRD 7)"
    by (rule packet_roundtrip [OF xor_cipher, THEN conjunct1, THEN mp]) (simp_all add: padded_len_def)
  show "getSocketSendBuff standard_copy xor_cipher 7 rng0 (Some (replicate 100 65)) 20 100 1 ENC_TYPE_NONE 1 = None"
    by (rule packet_roundtrip [OF xor_cipher, THEN conjunct2, THEN mp]) simp_all
qed

text \<open>Copying byte after byte: right towards the front of the buffer, but the header's 14 bytes over and
  over again towards its end.\<close>

lemma forward_copy_up:
  assumes "d + n \<le> length buf" "0 < d"
  shows "forward_copy buf d 0 n = Some (take d buf @ map (\<lambda>i. buf ! (i mod d)) [0..<n] @ drop (d + n) buf)"
proof -
  have "fold (\<lambda>i b. b[d + i := b ! i]) [0..<n] buf = take d buf @ map (\<lambda>i. buf ! (i mod d)) [0..<n] @ drop (d + n) buf"
    using assms(1)
  proof (induction n)
    case (Suc n)
    let ?b = "take d buf @ map (\<lambda>i. buf ! (i mod d)) [0..<n] @ drop (d + n) buf"
    have n: "?b ! n = buf ! (n mod d)"
    proof (cases "n < d")
      case False
      then have "n mod d = (n - d) mod d" by (simp add: le_mod_geq)
      then show ?thesis using False Suc.prems assms(2) by (simp add: nth_append)
    qed (use Suc.prems in \<open>simp add: nth_append\<close>)
    have "?b[d + n := x] = take d buf @ map (\<lambda>i. buf ! (i mod d)) [0..<n] @ x # drop (d + Suc n) buf" for x
      using Suc.prems by (simp add: list_update_append Cons_nth_drop_Suc [symmetric])
    then show ?case using Suc n by simp
  qed simp
  then show ?thesis by (simp add: forward_copy_def)
qed

lemma forward_copy_down:
  assumes "s + n \<le> length buf"
  shows "forward_copy buf 0 s n = memmove_copy buf 0 s n"
proof -
  have "fold (\<lambda>i b. b[i := b ! (s + i)]) [0..<n] buf = take n (drop s buf) @ drop n buf"
    using assms
  proof (induction n)
    case (Suc n)
    let ?b = "take n (drop s buf) @ drop n buf"
    have n: "?b ! (s + n) = buf ! (s + n)" using Suc.prems by (simp add: nth_append add.commute)
    have "?b[n := x] = take n (drop s buf) @ x # drop (Suc n) buf" for x
      using Suc.prems by (simp add: list_update_append Cons_nth_drop_Suc [symmetric])
    then show ?case using Suc n by (simp add: take_Suc_conv_app_nth)
  qed simp
  then show ?thesis using assms by (simp add: forward_copy_def memmove_copy_def mem_read_in mem_write_def)
qed

text \<open>
  With a \<open>memcpy\<close> that copies byte after byte, a reply arrives as a frame that looks right and holds
  the wrong data. The first 14 bytes of the reply are sent over and over in place of it; the receiver finds
  the frame complete and takes these bytes out as the data, whichever way its own \<open>memcpy\<close> copies.
\<close>

theorem forward_copy_garbles:
  assumes "length buf = maxLen" "14 + n \<le> maxLen" "maxLen < 2 ^ 30" "ov \<in> {memmove_copy, forward_copy}"
  shows "\<exists>buf' rest h. getSocketSendBuff forward_copy enc now r (Some buf) n maxLen req ENC_TYPE_NONE keep
        = Some (Some buf', int (14 + n), r)
    \<and> isRecvOK buf' (14 + n) = Some 0
    \<and> parseRecvBuff ov dec buf' (14 + n) sh = Some (map (\<lambda>i. buf ! (i mod 14)) [0..<n] @ rest, int n, h)"
proof -
  let ?d = "map (\<lambda>i. buf ! (i mod 14)) [0..<n]"
  let ?b = "frame now req 0 keep ?d @ drop (14 + n) buf"
  have c: "memcpy_in forward_copy buf 14 0 n = Some (take 14 buf @ ?d @ drop (14 + n) buf)"
  proof (cases "n \<le> 14")
    case True
    then have "?d = take n buf" using assms(1,2) by (intro nth_equalityI) auto
    then show ?thesis using True assms(1,2) memcpy_in_eq [of forward_copy 14 n 0 buf] by (simp add: mem_read_in mem_write_in)
  next
    case False
    then show ?thesis using assms(1,2) forward_copy_up [of 14 n buf] by (simp add: memcpy_in_def)
  qed
  have "length (take 14 buf) = length (sock_head_bytes (frame_head now req 0 keep n))" using assms(1,2) by simp
  from mem_write_front [OF this] have "mem_write (take 14 buf @ ?d @ drop (14 + n) buf) 0 (sock_head_bytes (frame_head now req 0 keep n))
    = Some ?b" by (simp add: frame_def)
  then have "getSocketSendBuff forward_copy enc now r (Some buf) n maxLen req ENC_TYPE_NONE keep = Some (Some ?b, int (14 + n), r)"
    using c assms(2) by (simp add: getSocketSendBuff_def sizeof_sock_head_def ENC_TYPE_NONE_def frame_head_def length_field_def)
  moreover have "isRecvOK ?b (14 + n) = Some 0" using isRecvOK_frame [of ?d] assms(2,3) by simp
  moreover have "memcpy_in forward_copy ?b 0 14 n = memcpy_in memmove_copy ?b 0 14 n"
    using forward_copy_down [of 14 n ?b] assms(1,2) by (simp add: memcpy_in_def)
  then have "parseRecvBuff ov dec ?b (14 + n) sh = parseRecvBuff memmove_copy dec ?b (14 + n) sh"
    using assms field_length_field [of n]
    by (auto simp: parseRecvBuff_def sizeof_sock_head_def mem_read_in head_of_frame field_length_def Let_def)
  ultimately show ?thesis using parseRecvBuff_plain [of ?d memmove_copy dec now req keep "drop (14 + n) buf" sh] assms(2,3) by auto
qed

lemma forward_copy_garbles_witness:
  "\<exists>buf' rest h. getSocketSendBuff forward_copy xor_cipher 7 rng0 (Some (map of_nat [0..<100])) 20 100 1 ENC_TYPE_NONE 1
        = Some (Some buf', int (14 + 20), rng0)
    \<and> isRecvOK buf' (14 + 20) = Some 0
    \<and> parseRecvBuff memmove_copy xor_cipher buf' (14 + 20) (frame_head 0 0 0 0 0) =
        Some (map (\<lambda>i. map of_nat [0..<100] ! (i mod 14)) [0..<20] @ rest, int 20, h)"
  by (rule forward_copy_garbles) simp_all

text \<open>
  What the buffer of a connection can hold. In 1024 bytes a plain reply of up to 1010 bytes and an
  encrypted one of up to 991 bytes are framed. A longer plain reply and an encrypted one of more than
  1000 bytes are refused with a negative result. But the test in \<open>getSocketSendBuff\<close> leaves out the
  padding: an encrypted reply of 992 to 1000 bytes passes it, and the copy that makes room for the
  header then runs over the end of the buffer.
\<close>

theorem send_buffer_limits:
  assumes "block_cipher enc dec" "length buf = 1024" "n \<le> 1024" "ov = memmove_copy"
  shows "(n \<le> 1010 \<longrightarrow> (\<exists>buf'. getSocketSendBuff ov enc now r (Some buf) n 1024 req ENC_TYPE_NONE keep
        = Some (Some buf', int (14 + n), r)))
    \<and> (1010 < n \<longrightarrow> getSocketSendBuff ov enc now r (Some buf) n 1024 req ENC_TYPE_NONE keep = Some (Some buf, -3, r))
    \<and> (n < 992 \<longrightarrow> (\<exists>buf' r'. getSocketSendBuff ov enc now r (Some buf) n 1024 req ENC_TYPE_AES keep
        = Some (Some buf', int (24 + padded_len n), r')))
    \<and> (992 \<le> n \<and> n \<le> 1000 \<longrightarrow> getSocketSendBuff ov enc now r (Some buf) n 1024 req ENC_TYPE_AES keep = None)
    \<and> (1000 < n \<longrightarrow> getSocketSendBuff ov enc now r (Some buf) n 1024 req ENC_TYPE_AES keep = Some (Some buf, -4, r))"
proof (intro conjI impI)
  assume "n \<le> 1010"
  then show "\<exists>buf'. getSocketSendBuff ov enc now r (Some buf) n 1024 req ENC_TYPE_NONE keep = Some (Some buf', int (14 + n), r)"
    using getSocketSendBuff_plain [of n 1024 buf ov enc now r req keep] assms(2,4) by (simp add: ENC_TYPE_NONE_def)
next
  assume "n < 992"
  then have "24 + padded_len n \<le> 1024" "24 + padded_len n \<le> length buf" "padded_len n < 2 ^ 30"
    using assms(2) by (simp_all add: padded_len_def)
  then show "\<exists>buf' r'. getSocketSendBuff ov enc now r (Some buf) n 1024 req ENC_TYPE_AES keep = Some (Some buf', int (24 + padded_len n), r')"
    using getSocketSendBuff_encrypted [OF assms(1,4), of n 1024 buf now r req keep] by blast
next
  assume n: "992 \<le> n \<and> n \<le> 1000"
  then have "n div 16 = 62" by presburger
  then have p: "padded_len n = 1008" by (simp add: padded_len_def)
  obtain body r' where e: "encryptData enc r (Some buf) n 1024 ENC_TYPE_AES = Some (Some (body @ drop 1018 buf), 1018, r')"
    and l: "length body = 1018"
  proof -
    have "10 + padded_len n \<le> 1024" "10 + padded_len n \<le> length buf" "padded_len n < 2 ^ 31" using p assms(2) by simp_all
    from encryptData_packet [OF assms(1) this, of r] show ?thesis using that unfolding p by auto
  qed
  have "memcpy_in ov (body @ drop 1018 buf) 14 0 1018 = None" using l assms(2) by (simp add: memcpy_in_outside)
  then show "getSocketSendBuff ov enc now r (Some buf) n 1024 req ENC_TYPE_AES keep = None"
    using n e by (simp add: getSocketSendBuff_def ENC_TYPE_AES_def sizeof_sock_head_def sizeof_enc_head_def Let_def
        del: mem_read_Some)
qed (use assms(2) in \<open>simp_all add: getSocketSendBuff_def ENC_TYPE_NONE_def ENC_TYPE_AES_def sizeof_sock_head_def sizeof_enc_head_def\<close>)

lemma send_buffer_limits_witness:
  "getSocketSendBuff memmove_copy xor_cipher 7 rng0 (Some (replicate 1024 65)) 995 1024 1 ENC_TYPE_AES 1 = None"
  by (rule send_buffer_limits [OF xor_cipher, THEN conjunct2, THEN conjunct2, THEN conjunct2, THEN conjunct1, THEN mp])
    simp_all

end
