(* ===== verification/AeLoop.thy ===== *)
theory AeLoop
  imports CPrelude "HOL-Library.Signed_Division"
begin

text \<open>
  The event loop of \<open>utils/event/ae.c\<close> over the back end of \<open>utils/event/ae_select.c\<close>, which is the one
  the project builds: the table of file events, the two descriptor sets of \<open>select\<close>, the list of timers
  and one round of the loop. \<open>select\<close>, the clock and the callbacks are arguments. \<open>malloc\<close> succeeds. The
  sleep hooks are never set by the program and left out. Descriptors at or above \<open>FD_SETSIZE\<close> and
  negative ones are outside the arrays: undefined.
\<close>

section \<open>Data\<close>

definition AE_OK :: int where "AE_OK = 0"
definition AE_ERR :: int where "AE_ERR = -1"
definition AE_NONE :: int where "AE_NONE = 0"
definition AE_READABLE :: int where "AE_READABLE = 1"
definition AE_WRITABLE :: int where "AE_WRITABLE = 2"
definition AE_FILE_EVENTS :: int where "AE_FILE_EVENTS = 1"
definition AE_TIME_EVENTS :: int where "AE_TIME_EVENTS = 2"
definition AE_ALL_EVENTS :: int where "AE_ALL_EVENTS = AE_FILE_EVENTS OR AE_TIME_EVENTS"
definition AE_DONT_WAIT :: int where "AE_DONT_WAIT = 4"
definition AE_NOMORE :: int where "AE_NOMORE = -1"
definition AE_DELETED_EVENT_ID :: int where "AE_DELETED_EVENT_ID = -1"
definition FD_SETSIZE :: int where "FD_SETSIZE = 1024"

lemmas ae_codes [simp] = AE_OK_def AE_ERR_def AE_NONE_def AE_NOMORE_def AE_DELETED_EVENT_ID_def

record ('p, 'c) aeFileEvent =
  fe_mask :: int
  fe_rfileProc :: "'p option"
  fe_wfileProc :: "'p option"
  fe_clientData :: "'c option"

record ('t, 'f, 'c) aeTimeEvent =
  te_id :: int
  te_when_sec :: int
  te_when_ms :: int
  te_timeProc :: 't
  te_finalizerProc :: "'f option"
  te_clientData :: "'c option"

text \<open>\<open>rfds\<close> and \<open>wfds\<close> are the sets of \<open>aeApiState\<close>; \<open>timers\<close> is the list from \<open>timeEventHead\<close> on.\<close>

record ('p, 't, 'f, 'c) aeEventLoop =
  maxfd :: int
  setsize :: int
  timeEventNextId :: int
  lastTime :: int
  events :: "('p, 'c) aeFileEvent list"
  timers :: "('t, 'f, 'c) aeTimeEvent list"
  stop :: bool
  rfds :: "int set"
  wfds :: "int set"

section \<open>File events\<close>

definition no_event :: "('p, 'c) aeFileEvent" where
  "no_event = \<lparr>fe_mask = AE_NONE, fe_rfileProc = None, fe_wfileProc = None, fe_clientData = None\<rparr>"

definition aeCreateEventLoop :: "int \<Rightarrow> int \<Rightarrow> ('p, 't, 'f, 'c) aeEventLoop" where
  "aeCreateEventLoop n now =
     \<lparr>maxfd = -1, setsize = n, timeEventNextId = 0, lastTime = now, events = replicate (nat n) no_event,
      timers = [], stop = False, rfds = {}, wfds = {}\<rparr>"

definition aeApiResize :: "int \<Rightarrow> int" where
  "aeApiResize n = (if n \<ge> FD_SETSIZE then -1 else 0)"

definition FD_SET :: "int \<Rightarrow> int set \<Rightarrow> int set option" where
  "FD_SET fd s = (if 0 \<le> fd \<and> fd < FD_SETSIZE then Some (insert fd s) else None)"

definition FD_CLR :: "int \<Rightarrow> int set \<Rightarrow> int set option" where
  "FD_CLR fd s = (if 0 \<le> fd \<and> fd < FD_SETSIZE then Some (s - {fd}) else None)"

definition aeApiAddEvent :: "('p, 't, 'f, 'c) aeEventLoop \<Rightarrow> int \<Rightarrow> int \<Rightarrow> ('p, 't, 'f, 'c) aeEventLoop option" where
  "aeApiAddEvent l fd msk =
     do { r \<leftarrow> (if msk AND AE_READABLE \<noteq> 0 then FD_SET fd (rfds l) else Some (rfds l));
          w \<leftarrow> (if msk AND AE_WRITABLE \<noteq> 0 then FD_SET fd (wfds l) else Some (wfds l));
          Some (l\<lparr>rfds := r, wfds := w\<rparr>) }"

definition aeApiDelEvent :: "('p, 't, 'f, 'c) aeEventLoop \<Rightarrow> int \<Rightarrow> int \<Rightarrow> ('p, 't, 'f, 'c) aeEventLoop option" where
  "aeApiDelEvent l fd msk =
     do { r \<leftarrow> (if msk AND AE_READABLE \<noteq> 0 then FD_CLR fd (rfds l) else Some (rfds l));
          w \<leftarrow> (if msk AND AE_WRITABLE \<noteq> 0 then FD_CLR fd (wfds l) else Some (wfds l));
          Some (l\<lparr>rfds := r, wfds := w\<rparr>) }"

text \<open>\<open>realloc\<close> keeps the entries both sizes have; the new ones hold junk until they are cleared.\<close>

definition aeResizeSetSize ::
  "('p, 'c) aeFileEvent \<Rightarrow> ('p, 't, 'f, 'c) aeEventLoop \<Rightarrow> int \<Rightarrow> ('p, 't, 'f, 'c) aeEventLoop \<times> int"
where
  "aeResizeSetSize junk l n =
     (if n = setsize l then (l, AE_OK)
      else if maxfd l \<ge> n then (l, AE_ERR)
      else if aeApiResize n = -1 then (l, AE_ERR)
      else
        let es = take (nat n) (events l) @ replicate (nat n - length (events l)) junk;
            k = nat (maxfd l + 1)
        in (l\<lparr>events := take k es @ map (\<lambda>e. e\<lparr>fe_mask := AE_NONE\<rparr>) (drop k es), setsize := n\<rparr>, AE_OK))"

definition aeCreateFileEvent ::
  "('p, 't, 'f, 'c) aeEventLoop \<Rightarrow> int \<Rightarrow> int \<Rightarrow> 'p \<Rightarrow> 'c option \<Rightarrow> (('p, 't, 'f, 'c) aeEventLoop \<times> int) option"
where
  "aeCreateFileEvent l fd msk proc clientData =
     (if fd \<ge> setsize l then Some (l, AE_ERR)
      else do {
        guard (0 \<le> fd);
        fe \<leftarrow> rd (events l) (nat fd);
        l \<leftarrow> aeApiAddEvent l fd msk;
        let fe = fe\<lparr>fe_mask := fe_mask fe OR msk\<rparr>;
        let fe = (if msk AND AE_READABLE \<noteq> 0 then fe\<lparr>fe_rfileProc := Some proc\<rparr> else fe);
        let fe = (if msk AND AE_WRITABLE \<noteq> 0 then fe\<lparr>fe_wfileProc := Some proc\<rparr> else fe);
        let fe = fe\<lparr>fe_clientData := clientData\<rparr>;
        let l = l\<lparr>events := (events l)[nat fd := fe]\<rparr>;
        Some (if fd > maxfd l then l\<lparr>maxfd := fd\<rparr> else l, AE_OK) })"

text \<open>The loop that looks for the new \<open>maxfd\<close>, downwards from \<open>n - 1\<close>.\<close>

fun top_used :: "('p, 'c) aeFileEvent list \<Rightarrow> nat \<Rightarrow> int option" where
  "top_used es 0 = Some (-1)"
| "top_used es (Suc n) =
     do { e \<leftarrow> rd es n; if fe_mask e \<noteq> AE_NONE then Some (int n) else top_used es n }"

definition aeDeleteFileEvent ::
  "('p, 't, 'f, 'c) aeEventLoop \<Rightarrow> int \<Rightarrow> int \<Rightarrow> ('p, 't, 'f, 'c) aeEventLoop option"
where
  "aeDeleteFileEvent l fd msk =
     (if fd \<ge> setsize l then Some l
      else do {
        guard (0 \<le> fd);
        fe \<leftarrow> rd (events l) (nat fd);
        if fe_mask fe = AE_NONE then Some l
        else do {
          l \<leftarrow> aeApiDelEvent l fd msk;
          let fe = fe\<lparr>fe_mask := fe_mask fe AND NOT msk\<rparr>;
          let l = l\<lparr>events := (events l)[nat fd := fe]\<rparr>;
          if fd = maxfd l \<and> fe_mask fe = AE_NONE
          then do { j \<leftarrow> top_used (events l) (nat (maxfd l)); Some (l\<lparr>maxfd := j\<rparr>) }
          else Some l } })"

definition aeGetFileEvents :: "('p, 't, 'f, 'c) aeEventLoop \<Rightarrow> int \<Rightarrow> int option" where
  "aeGetFileEvents l fd =
     (if fd \<ge> setsize l then Some 0 else do { guard (0 \<le> fd); fe \<leftarrow> rd (events l) (nat fd); Some (fe_mask fe) })"

section \<open>Timers\<close>

text \<open>The clock: seconds and milliseconds at its \<open>k\<close>-th reading.\<close>

type_synonym clock = "nat \<Rightarrow> int \<times> int"

definition aeAddMillisecondsToNow :: "int \<times> int \<Rightarrow> int \<Rightarrow> int \<times> int" where
  "aeAddMillisecondsToNow cur milliseconds =
     (let when_sec = fst cur + milliseconds sdiv 1000;
          when_ms = snd cur + milliseconds smod 1000
      in if when_ms \<ge> 1000 then (when_sec + 1, when_ms - 1000) else (when_sec, when_ms))"

definition aeCreateTimeEvent ::
  "('p, 't, 'f, 'c) aeEventLoop \<Rightarrow> int \<times> int \<Rightarrow> int \<Rightarrow> 't \<Rightarrow> 'c option \<Rightarrow> 'f option \<Rightarrow> ('p, 't, 'f, 'c) aeEventLoop \<times> int"
where
  "aeCreateTimeEvent l cur milliseconds proc clientData fin =
     (let i = timeEventNextId l;
          (sec, ms) = aeAddMillisecondsToNow cur milliseconds;
          te = \<lparr>te_id = i, te_when_sec = sec, te_when_ms = ms, te_timeProc = proc, te_finalizerProc = fin,
                te_clientData = clientData\<rparr>
      in (l\<lparr>timeEventNextId := i + 1, timers := te # timers l\<rparr>, i))"

fun delete_timer :: "int \<Rightarrow> ('t, 'f, 'c) aeTimeEvent list \<Rightarrow> ('t, 'f, 'c) aeTimeEvent list option" where
  "delete_timer i [] = None"
| "delete_timer i (te # ts) =
     (if te_id te = i then Some (te\<lparr>te_id := AE_DELETED_EVENT_ID\<rparr> # ts) else map_option ((#) te) (delete_timer i ts))"

definition aeDeleteTimeEvent :: "('p, 't, 'f, 'c) aeEventLoop \<Rightarrow> int \<Rightarrow> ('p, 't, 'f, 'c) aeEventLoop \<times> int" where
  "aeDeleteTimeEvent l i =
     (case delete_timer i (timers l) of None \<Rightarrow> (l, AE_ERR) | Some ts \<Rightarrow> (l\<lparr>timers := ts\<rparr>, AE_OK))"

fun nearest_loop :: "('t, 'f, 'c) aeTimeEvent option \<Rightarrow> ('t, 'f, 'c) aeTimeEvent list \<Rightarrow> ('t, 'f, 'c) aeTimeEvent option" where
  "nearest_loop nearest [] = nearest"
| "nearest_loop nearest (te # ts) =
     nearest_loop
       (case nearest of
          None \<Rightarrow> Some te
        | Some n \<Rightarrow>
            if te_when_sec te < te_when_sec n \<or> (te_when_sec te = te_when_sec n \<and> te_when_ms te < te_when_ms n)
            then Some te else nearest) ts"

definition aeSearchNearestTimer :: "('p, 't, 'f, 'c) aeEventLoop \<Rightarrow> ('t, 'f, 'c) aeTimeEvent option" where
  "aeSearchNearestTimer l = nearest_loop None (timers l)"

text \<open>
  \<open>processTimeEvents\<close>. A timer's callback and its finalizer change the world \<open>'w\<close> and leave the list of
  timers alone. The loop goes over the rest of the list with the number of clock readings so far; it
  gives the list that stays, the timers fired, in order, the readings and the world.
\<close>

fun time_loop ::
  "('t \<Rightarrow> int \<Rightarrow> 'c option \<Rightarrow> 'w \<Rightarrow> int \<times> 'w) \<Rightarrow> ('f \<Rightarrow> 'c option \<Rightarrow> 'w \<Rightarrow> 'w) \<Rightarrow> clock \<Rightarrow> int
     \<Rightarrow> ('t, 'f, 'c) aeTimeEvent list \<Rightarrow> nat \<Rightarrow> 'w \<Rightarrow> ('t, 'f, 'c) aeTimeEvent list \<times> int list \<times> nat \<times> 'w"
where
  "time_loop call fin clk maxId [] k w = ([], [], k, w)"
| "time_loop call fin clk maxId (te # ts) k w =
     (if te_id te = AE_DELETED_EVENT_ID
      then time_loop call fin clk maxId ts k
             (case te_finalizerProc te of None \<Rightarrow> w | Some f \<Rightarrow> fin f (te_clientData te) w)
      else if te_id te > maxId
      then apfst ((#) te) (time_loop call fin clk maxId ts k w)
      else
        let (now_sec, now_ms) = clk k in
        if now_sec > te_when_sec te \<or> (now_sec = te_when_sec te \<and> now_ms \<ge> te_when_ms te)
        then
          let (retval, w) = call (te_timeProc te) (te_id te) (te_clientData te) w in
          if retval \<noteq> AE_NOMORE
          then
            let (sec, ms) = aeAddMillisecondsToNow (clk (Suc k)) retval;
                (r, fired, k, w) = time_loop call fin clk maxId ts (Suc (Suc k)) w
            in (te\<lparr>te_when_sec := sec, te_when_ms := ms\<rparr> # r, te_id te # fired, k, w)
          else
            let (r, fired, k, w) = time_loop call fin clk maxId ts (Suc k) w
            in (te\<lparr>te_id := AE_DELETED_EVENT_ID\<rparr> # r, te_id te # fired, k, w)
        else apfst ((#) te) (time_loop call fin clk maxId ts (Suc k) w))"

definition processTimeEvents ::
  "('t \<Rightarrow> int \<Rightarrow> 'c option \<Rightarrow> 'w \<Rightarrow> int \<times> 'w) \<Rightarrow> ('f \<Rightarrow> 'c option \<Rightarrow> 'w \<Rightarrow> 'w) \<Rightarrow> clock \<Rightarrow> int
     \<Rightarrow> ('p, 't, 'f, 'c) aeEventLoop \<Rightarrow> 'w \<Rightarrow> ('p, 't, 'f, 'c) aeEventLoop \<times> int list \<times> 'w"
where
  "processTimeEvents call fin clk now l w =
     (let ts = (if now < lastTime l then map (\<lambda>te. te\<lparr>te_when_sec := 0\<rparr>) (timers l) else timers l);
          (ts, fired, k, w) = time_loop call fin clk (timeEventNextId l - 1) ts 0 w
      in (l\<lparr>lastTime := now, timers := ts\<rparr>, fired, w))"

section \<open>A round of the loop\<close>

text \<open>The time the loop may sleep: \<open>None\<close> for ever, otherwise seconds and microseconds.\<close>

definition poll_timeout :: "int \<Rightarrow> int \<times> int \<Rightarrow> ('p, 't, 'f, 'c) aeEventLoop \<Rightarrow> (int \<times> int) option" where
  "poll_timeout flags now l =
     (case (if flags AND AE_TIME_EVENTS \<noteq> 0 \<and> flags AND AE_DONT_WAIT = 0 then aeSearchNearestTimer l else None) of
        Some shortest \<Rightarrow>
          let ms = (te_when_sec shortest - fst now) * 1000 + te_when_ms shortest - snd now
          in if ms > 0 then Some (ms sdiv 1000, (ms smod 1000) * 1000) else Some (0, 0)
      | None \<Rightarrow> if flags AND AE_DONT_WAIT \<noteq> 0 then Some (0, 0) else None)"

text \<open>\<open>aeApiPoll\<close>: what \<open>select\<close> answers for the sets and the time, then one entry for every descriptor
  that is registered.\<close>

definition fired_entry ::
  "int set \<Rightarrow> int set \<Rightarrow> ('p, 'c) aeFileEvent list \<Rightarrow> nat \<Rightarrow> (int \<times> int) list"
where
  "fired_entry r w es j =
     (let fe = es ! j in
      if fe_mask fe = AE_NONE then []
      else
        let msk = (if fe_mask fe AND AE_READABLE \<noteq> 0 \<and> int j \<in> r then AE_READABLE else 0);
            msk = (if fe_mask fe AND AE_WRITABLE \<noteq> 0 \<and> int j \<in> w then msk OR AE_WRITABLE else msk)
        in [(int j, msk)])"

definition aeApiPoll ::
  "(int \<Rightarrow> int set \<Rightarrow> int set \<Rightarrow> (int \<times> int) option \<Rightarrow> int \<times> int set \<times> int set) \<Rightarrow> ('p, 't, 'f, 'c) aeEventLoop
     \<Rightarrow> (int \<times> int) option \<Rightarrow> (int \<times> int) list option"
where
  "aeApiPoll sel l tvp =
     (let (retval, r, w) = sel (maxfd l + 1) (rfds l) (wfds l) tvp in
      if retval > 0
      then do { guard (maxfd l < int (length (events l)));
                Some (concat (map (fired_entry r w (events l)) [0..<nat (maxfd l + 1)])) }
      else Some [])"

text \<open>The callbacks of one fired entry; the event is read again after each of them.\<close>

definition fire_one ::
  "('p \<Rightarrow> int \<Rightarrow> 'c option \<Rightarrow> int \<Rightarrow> ('p, 't, 'f, 'c) aeEventLoop \<times> 'w \<Rightarrow> (('p, 't, 'f, 'c) aeEventLoop \<times> 'w) option)
     \<Rightarrow> int \<times> int \<Rightarrow> ('p, 't, 'f, 'c) aeEventLoop \<times> 'w \<Rightarrow> (('p, 't, 'f, 'c) aeEventLoop \<times> 'w) option"
where
  "fire_one call ev s =
     (let (fd, msk) = ev in
      do { guard (0 \<le> fd);
           fe \<leftarrow> rd (events (fst s)) (nat fd);
           let rfired = (fe_mask fe AND msk AND AE_READABLE \<noteq> 0);
           s \<leftarrow> (if rfired then do { p \<leftarrow> fe_rfileProc fe; call p fd (fe_clientData fe) msk s } else Some s);
           fe \<leftarrow> rd (events (fst s)) (nat fd);
           if fe_mask fe AND msk AND AE_WRITABLE \<noteq> 0 \<and> (\<not> rfired \<or> fe_wfileProc fe \<noteq> fe_rfileProc fe)
           then do { p \<leftarrow> fe_wfileProc fe; call p fd (fe_clientData fe) msk s }
           else Some s })"

fun fire_all ::
  "('p \<Rightarrow> int \<Rightarrow> 'c option \<Rightarrow> int \<Rightarrow> ('p, 't, 'f, 'c) aeEventLoop \<times> 'w \<Rightarrow> (('p, 't, 'f, 'c) aeEventLoop \<times> 'w) option)
     \<Rightarrow> (int \<times> int) list \<Rightarrow> ('p, 't, 'f, 'c) aeEventLoop \<times> 'w \<Rightarrow> (('p, 't, 'f, 'c) aeEventLoop \<times> 'w) option"
where
  "fire_all call [] s = Some s"
| "fire_all call (ev # evs) s = do { s \<leftarrow> fire_one call ev s; fire_all call evs s }"

text \<open>\<open>aeProcessEvents\<close>: the state after one round and the number of events processed.\<close>

definition aeProcessEvents where
  "aeProcessEvents sel call tcall fin flags clk now clk' s =
     (if flags AND AE_TIME_EVENTS = 0 \<and> flags AND AE_FILE_EVENTS = 0 then Some (s, 0 :: nat)
      else do {
        (s, n) \<leftarrow> (if maxfd (fst s) \<noteq> -1 \<or> (flags AND AE_TIME_EVENTS \<noteq> 0 \<and> flags AND AE_DONT_WAIT = 0)
                  then do { evs \<leftarrow> aeApiPoll sel (fst s) (poll_timeout flags clk (fst s));
                            s \<leftarrow> fire_all call evs s;
                            Some (s, length evs) }
                  else Some (s, 0));
        if flags AND AE_TIME_EVENTS \<noteq> 0
        then let (l, fired, w) = processTimeEvents tcall fin clk' now (fst s) (snd s) in Some ((l, w), n + length fired)
        else Some (s, n) })"

text \<open>\<open>aeMain\<close> for as many rounds as the outside provides answers of \<open>select\<close> and clock values for; \<open>stop\<close> is
  set by a callback.\<close>

fun aeMain_rounds where
  "aeMain_rounds call tcall fin [] s = Some s"
| "aeMain_rounds call tcall fin ((sel, clk, now, clk') # ins) s =
     (if stop (fst s) then Some s
      else do { (s, _) \<leftarrow> aeProcessEvents sel call tcall fin AE_ALL_EVENTS clk now clk' s;
                aeMain_rounds call tcall fin ins s })"

definition aeMain where
  "aeMain call tcall fin ins s = aeMain_rounds call tcall fin ins (apfst (\<lambda>l. l\<lparr>stop := False\<rparr>) s)"

section \<open>The registered descriptors\<close>

text \<open>What is registered for a descriptor, and what the tables must agree on.\<close>

definition regs :: "('p, 't, 'f, 'c) aeEventLoop \<Rightarrow> int \<Rightarrow> int" where
  "regs l fd = (if 0 \<le> fd \<and> fd < setsize l then fe_mask (events l ! nat fd) else 0)"

definition loop_ok :: "('p, 't, 'f, 'c) aeEventLoop \<Rightarrow> bool" where
  "loop_ok l \<longleftrightarrow> int (length (events l)) = setsize l \<and> -1 \<le> maxfd l \<and> maxfd l < setsize l
     \<and> (\<forall>fd. regs l fd \<in> {0, 1, 2, 3}) \<and> (\<forall>fd > maxfd l. regs l fd = 0) \<and> (maxfd l \<noteq> -1 \<longrightarrow> regs l (maxfd l) \<noteq> 0)
     \<and> rfds l = {fd. regs l fd AND AE_READABLE \<noteq> 0} \<and> wfds l = {fd. regs l fd AND AE_WRITABLE \<noteq> 0}"

lemma mask_cases: "a \<in> {0, 1, 2, 3} \<longleftrightarrow> a = 0 \<or> a = 1 \<or> a = 2 \<or> a = (3 :: int)" by auto

lemma mask_or:
  assumes "a \<in> {0, 1, 2, 3}" "m \<in> {1, 2, 3 :: int}"
  shows "a OR m \<in> {0, 1, 2, 3}" "a OR m \<noteq> 0"
    "(a OR m) AND AE_READABLE \<noteq> 0 \<longleftrightarrow> a AND AE_READABLE \<noteq> 0 \<or> m AND AE_READABLE \<noteq> 0"
    "(a OR m) AND AE_WRITABLE \<noteq> 0 \<longleftrightarrow> a AND AE_WRITABLE \<noteq> 0 \<or> m AND AE_WRITABLE \<noteq> 0"
  using assms by (auto simp: AE_READABLE_def AE_WRITABLE_def)

lemma mask_and_not:
  assumes "a \<in> {0, 1, 2, 3}" "m \<in> {1, 2, 3 :: int}"
  shows "a AND NOT m \<in> {0, 1, 2, 3}"
    "(a AND NOT m) AND AE_READABLE \<noteq> 0 \<longleftrightarrow> a AND AE_READABLE \<noteq> 0 \<and> m AND AE_READABLE = 0"
    "(a AND NOT m) AND AE_WRITABLE \<noteq> 0 \<longleftrightarrow> a AND AE_WRITABLE \<noteq> 0 \<and> m AND AE_WRITABLE = 0"
  using assms by (auto simp: AE_READABLE_def AE_WRITABLE_def)

lemma regs_update:
  assumes "int (length (events l)) = setsize l" "0 \<le> fd" "fd < setsize l"
    "events l' = (events l)[nat fd := fe]" "setsize l' = setsize l"
  shows "regs l' = (regs l)(fd := fe_mask fe)"
  using assms by (auto simp: regs_def fun_eq_iff nth_list_update eq_nat_nat_iff)

lemma regs_cong: "events l' = events l \<Longrightarrow> setsize l' = setsize l \<Longrightarrow> regs l' = regs l"
  by (simp add: regs_def fun_eq_iff)

lemma aeCreateEventLoop_ok:
  "0 \<le> n \<Longrightarrow> loop_ok (aeCreateEventLoop n now)" "regs (aeCreateEventLoop n now) = (\<lambda>fd. 0)"
proof -
  show r: "regs (aeCreateEventLoop n now) = (\<lambda>fd. 0)"
    by (auto simp: regs_def aeCreateEventLoop_def no_event_def fun_eq_iff)
  show "0 \<le> n \<Longrightarrow> loop_ok (aeCreateEventLoop n now)"
    unfolding loop_ok_def r by (simp add: aeCreateEventLoop_def)
qed

lemma aeCreateFileEvent_ok:
  assumes ok: "loop_ok l" and fd: "0 \<le> fd" "fd < FD_SETSIZE" "fd < setsize l" and m: "msk \<in> {1, 2, 3}"
  shows "\<exists>l'. aeCreateFileEvent l fd msk proc d = Some (l', AE_OK) \<and> loop_ok l' \<and> regs l' = (regs l)(fd := regs l fd OR msk)
    \<and> setsize l' = setsize l \<and> fe_clientData (events l' ! nat fd) = d
    \<and> (msk AND AE_READABLE \<noteq> 0 \<longrightarrow> fe_rfileProc (events l' ! nat fd) = Some proc)
    \<and> (msk AND AE_WRITABLE \<noteq> 0 \<longrightarrow> fe_wfileProc (events l' ! nat fd) = Some proc)
    \<and> (\<forall>i. i \<noteq> nat fd \<longrightarrow> events l' ! i = events l ! i)"
proof -
  let ?e = "events l ! nat fd"
  define fe where "fe = ?e\<lparr>fe_mask := fe_mask ?e OR msk, fe_rfileProc := (if msk AND AE_READABLE \<noteq> 0 then Some proc else fe_rfileProc ?e),
    fe_wfileProc := (if msk AND AE_WRITABLE \<noteq> 0 then Some proc else fe_wfileProc ?e), fe_clientData := d\<rparr>"
  define l' where "l' = l\<lparr>rfds := (if msk AND AE_READABLE \<noteq> 0 then insert fd (rfds l) else rfds l),
    wfds := (if msk AND AE_WRITABLE \<noteq> 0 then insert fd (wfds l) else wfds l),
    events := (events l)[nat fd := fe], maxfd := max fd (maxfd l)\<rparr>"
  have len: "int (length (events l)) = setsize l" and lt: "nat fd < length (events l)"
    using ok fd by (auto simp: loop_ok_def)
  have r: "regs l' = (regs l)(fd := regs l fd OR msk)"
    using regs_update [OF len fd(1,3), of l' fe] fd by (simp add: l'_def fe_def regs_def)
  have ra: "regs l fd \<in> {0, 1, 2, 3}" using ok by (simp only: loop_ok_def)
  have "aeCreateFileEvent l fd msk proc d = Some (l', AE_OK)"
    using fd lt by (simp add: aeCreateFileEvent_def aeApiAddEvent_def FD_SET_def l'_def fe_def max_def Let_def)
  moreover have "loop_ok l'"
    unfolding loop_ok_def r
  proof (intro conjI allI impI)
    show "rfds l' = {x. ((regs l)(fd := regs l fd OR msk)) x AND AE_READABLE \<noteq> 0}"
      using ok mask_or(3) [OF ra m] by (auto simp: l'_def loop_ok_def)
    show "wfds l' = {x. ((regs l)(fd := regs l fd OR msk)) x AND AE_WRITABLE \<noteq> 0}"
      using ok mask_or(4) [OF ra m] by (auto simp: l'_def loop_ok_def)
    show "((regs l)(fd := regs l fd OR msk)) x \<in> {0, 1, 2, 3}" for x
      using ok mask_or(1) [OF ra m] by (simp only: fun_upd_apply loop_ok_def split: if_split) blast
    show "((regs l)(fd := regs l fd OR msk)) x = 0" if "maxfd l' < x" for x
      using ok that by (simp add: l'_def loop_ok_def)
    show "((regs l)(fd := regs l fd OR msk)) (maxfd l') \<noteq> 0"
      using ok mask_or(2) [OF ra m] fd(1) by (auto simp: l'_def loop_ok_def max_def)
  qed (use ok fd len in \<open>auto simp: l'_def loop_ok_def\<close>)
  ultimately show ?thesis using r lt by (intro exI [of _ l']) (simp add: l'_def fe_def)
qed

lemma top_used_Some:
  "n \<le> length es \<Longrightarrow> \<exists>j. top_used es n = Some j \<and> -1 \<le> j \<and> j < int n \<and> (j \<noteq> -1 \<longrightarrow> fe_mask (es ! nat j) \<noteq> 0)
    \<and> (\<forall>i. j < int i \<and> i < n \<longrightarrow> fe_mask (es ! i) = 0)"
proof (induction n)
  case (Suc n)
  then obtain j where j: "top_used es n = Some j" "-1 \<le> j" "j < int n" "j \<noteq> -1 \<longrightarrow> fe_mask (es ! nat j) \<noteq> 0"
    "\<forall>i. j < int i \<and> i < n \<longrightarrow> fe_mask (es ! i) = 0" by auto
  show ?case
  proof (cases "fe_mask (es ! n) = 0")
    case True
    then show ?thesis using j Suc.prems by (intro exI [of _ j]) (auto simp: less_Suc_eq)
  next
    case False
    then show ?thesis using Suc.prems by (intro exI [of _ "int n"]) auto
  qed
qed simp

lemma aeDeleteFileEvent_ok:
  assumes ok: "loop_ok l" and fd: "0 \<le> fd" "fd < FD_SETSIZE" "fd < setsize l" and m: "msk \<in> {1, 2, 3}"
  shows "\<exists>l'. aeDeleteFileEvent l fd msk = Some l' \<and> loop_ok l' \<and> regs l' = (regs l)(fd := regs l fd AND NOT msk)
    \<and> setsize l' = setsize l"
proof -
  let ?e = "events l ! nat fd"
  have len: "int (length (events l)) = setsize l" and lt: "nat fd < length (events l)"
    using ok fd by (auto simp: loop_ok_def)
  have re: "regs l fd = fe_mask ?e" using fd by (simp add: regs_def)
  have ra: "regs l fd \<in> {0, 1, 2, 3}" using ok by (simp only: loop_ok_def)
  show ?thesis
  proof (cases "fe_mask ?e = 0")
    case True
    moreover have "(regs l)(fd := regs l fd AND NOT msk) = regs l" using True re by (simp add: fun_upd_idem_iff)
    ultimately show ?thesis using ok fd lt by (simp add: aeDeleteFileEvent_def)
  next
    case False
    define fe where "fe = ?e\<lparr>fe_mask := fe_mask ?e AND NOT msk\<rparr>"
    define l1 where "l1 = l\<lparr>rfds := (if msk AND AE_READABLE \<noteq> 0 then rfds l - {fd} else rfds l),
      wfds := (if msk AND AE_WRITABLE \<noteq> 0 then wfds l - {fd} else wfds l), events := (events l)[nat fd := fe]\<rparr>"
    have r1: "regs l1 = (regs l)(fd := regs l fd AND NOT msk)"
      using regs_update [OF len fd(1,3), of l1 fe] by (simp add: l1_def fe_def re)
    have z: "regs l x = 0" if "maxfd l < x" for x using ok that by (simp add: loop_ok_def)
    have nz: "maxfd l \<noteq> -1 \<Longrightarrow> regs l (maxfd l) \<noteq> 0" using ok by (simp add: loop_ok_def)
    have le: "fd \<le> maxfd l" using z [of fd] False re by force
    obtain j where j: "top_used (events l1) (nat (maxfd l)) = Some j" "-1 \<le> j" "j < int (nat (maxfd l))"
      "j \<noteq> -1 \<longrightarrow> fe_mask (events l1 ! nat j) \<noteq> 0" "\<forall>i. j < int i \<and> i < nat (maxfd l) \<longrightarrow> fe_mask (events l1 ! i) = 0"
    proof -
      have "maxfd l < int (length (events l))" using ok by (simp add: loop_ok_def)
      then have "nat (maxfd l) \<le> length (events l1)" by (simp add: l1_def)
      from top_used_Some [OF this] show ?thesis using that by blast
    qed
    define l' where "l' = (if fd = maxfd l \<and> fe_mask fe = 0 then l1\<lparr>maxfd := j\<rparr> else l1)"
    have r: "regs l' = (regs l)(fd := regs l fd AND NOT msk)" 
    proof -
      have "regs l' = regs l1" by (rule regs_cong) (simp_all add: l'_def)
      then show ?thesis using r1 by simp
    qed
    have fe0: "regs l fd AND NOT msk = fe_mask fe" by (simp add: re fe_def)
    have "aeDeleteFileEvent l fd msk = Some l'"
    proof -
      have "aeApiDelEvent l fd msk = Some (l\<lparr>rfds := rfds l1, wfds := wfds l1\<rparr>)"
        using fd by (simp add: aeApiDelEvent_def FD_CLR_def l1_def)
      then obtain R W where "aeApiDelEvent l fd msk = Some (l\<lparr>rfds := R, wfds := W\<rparr>)"
        and R: "l1 = l\<lparr>rfds := R, wfds := W, events := (events l)[nat fd := fe]\<rparr>" by (simp add: l1_def)
      then show ?thesis
        using fd lt False j(1) unfolding aeDeleteFileEvent_def l'_def
        by (cases "fd = maxfd l \<and> fe_mask fe = 0") (auto simp: fe_def Let_def R)
    qed
    moreover have "loop_ok l'"
      unfolding loop_ok_def r
    proof (intro conjI allI impI)
      show "rfds l' = {x. ((regs l)(fd := regs l fd AND NOT msk)) x AND AE_READABLE \<noteq> 0}"
        using ok mask_and_not(2) [OF ra m] by (auto simp: l'_def l1_def loop_ok_def)
      show "wfds l' = {x. ((regs l)(fd := regs l fd AND NOT msk)) x AND AE_WRITABLE \<noteq> 0}"
        using ok mask_and_not(3) [OF ra m] by (auto simp: l'_def l1_def loop_ok_def)
      show "((regs l)(fd := regs l fd AND NOT msk)) x \<in> {0, 1, 2, 3}" for x
        using ok mask_and_not(1) [OF ra m] by (simp only: fun_upd_apply loop_ok_def split: if_split) blast
      show "((regs l)(fd := regs l fd AND NOT msk)) x = 0" if x: "maxfd l' < x" for x
      proof (cases "fd = maxfd l \<and> fe_mask fe = 0 \<and> x < fd")
        case True
        then have "j < x" "x < maxfd l" using x by (simp_all add: l'_def)
        then have "fe_mask (events l1 ! nat x) = 0" using j(5) [rule_format, of "nat x"] j(2) by simp
        then have "regs l1 x = 0" by (simp add: regs_def)
        then show ?thesis using r1 by simp
      next
        case False
        then have "x = fd \<and> fe_mask fe = 0 \<or> maxfd l < x"
          using x le by (cases "fd = maxfd l \<and> fe_mask fe = 0") (auto simp: l'_def l1_def)
        then show ?thesis using z [of x] le fe0 by auto
      qed
      show "((regs l)(fd := regs l fd AND NOT msk)) (maxfd l') \<noteq> 0" if n: "maxfd l' \<noteq> -1"
      proof (cases "fd = maxfd l \<and> fe_mask fe = 0")
        case True
        then have "j \<noteq> -1" "j < setsize l1" using n j(3) fd by (simp_all add: l'_def l1_def)
        then have "regs l1 j \<noteq> 0" using j(2,4) by (simp add: regs_def)
        then show ?thesis using True r1 by (simp add: l'_def)
      next
        case False
        then have "maxfd l' = maxfd l" by (auto simp: l'_def l1_def)
        then show ?thesis using nz n fe0 False by auto
      qed
    qed (use ok fd len j in \<open>auto simp: l'_def l1_def loop_ok_def\<close>)
    ultimately show ?thesis using r by (intro exI [of _ l']) (simp add: l'_def l1_def)
  qed
qed

lemma nth_take_map_drop:
  "i < length es \<Longrightarrow> (take k es @ map f (drop k es)) ! i = (if i < k then es ! i else f (es ! i))"
  by (auto simp: nth_append min_def)

lemma aeResizeSetSize_ok:
  assumes ok: "loop_ok l"
  shows "loop_ok (fst (aeResizeSetSize junk l n)) \<and> regs (fst (aeResizeSetSize junk l n)) = regs l
    \<and> setsize (fst (aeResizeSetSize junk l n)) = (if snd (aeResizeSetSize junk l n) = AE_OK then n else setsize l)"
proof (cases "n = setsize l \<or> maxfd l \<ge> n \<or> n \<ge> FD_SETSIZE")
  case True
  then show ?thesis using ok by (auto simp: aeResizeSetSize_def aeApiResize_def)
next
  case False
  define es where "es = take (nat n) (events l) @ replicate (nat n - length (events l)) junk"
  let ?k = "nat (maxfd l + 1)"
  define l' where "l' = l\<lparr>events := take ?k es @ map (\<lambda>e. e\<lparr>fe_mask := AE_NONE\<rparr>) (drop ?k es), setsize := n\<rparr>"
  have e: "aeResizeSetSize junk l n = (l', AE_OK)" using False by (simp add: aeResizeSetSize_def aeApiResize_def l'_def es_def Let_def)
  have n: "-1 \<le> maxfd l" "maxfd l < n" "maxfd l < int (length (events l))" using False ok by (simp_all add: loop_ok_def)
  have le: "length es = nat n" by (simp add: es_def)
  then have "length (events l') = nat n" using n by (simp add: l'_def)
  then have len: "int (length (events l')) = n" using n by simp
  have r: "regs l' fd = regs l fd" for fd
  proof (cases "0 \<le> fd \<and> fd < n")
    case True
    show ?thesis
    proof (cases "fd \<le> maxfd l")
      case le: True
      then have "events l' ! nat fd = events l ! nat fd" using True n le by (simp add: l'_def nth_append es_def)
      then show ?thesis using True le ok by (simp add: regs_def l'_def loop_ok_def)
    next
      case gt: False
      then have "nat fd < length es" "\<not> nat fd < ?k" using True n le by auto
      then have "events l' ! nat fd = (es ! nat fd)\<lparr>fe_mask := AE_NONE\<rparr>"
        using gt nth_take_map_drop [of "nat fd" es ?k "\<lambda>e. e\<lparr>fe_mask := AE_NONE\<rparr>"] unfolding l'_def by simp
      then have "regs l' fd = 0" by (simp add: regs_def)
      then show ?thesis using gt ok by (simp add: loop_ok_def)
    qed
  next
    case False
    then have "regs l fd = 0" using ok n by (cases "fd < 0") (auto simp: regs_def [of l] loop_ok_def)
    moreover have "setsize l' = n" by (simp add: l'_def)
    ultimately show ?thesis using False by (auto simp: regs_def [of l'])
  qed
  have "regs l' = regs l" using r by blast
  moreover have "loop_ok l'" unfolding loop_ok_def r using ok n len by (simp add: l'_def loop_ok_def)
  ultimately show ?thesis by (simp add: e l'_def)
qed

section \<open>Reachable loops\<close>

lemma aeCreateFileEvent_full: "fd \<ge> setsize l \<Longrightarrow> aeCreateFileEvent l fd msk proc d = Some (l, AE_ERR)"
  by (simp add: aeCreateFileEvent_def)

lemma aeDeleteFileEvent_full: "fd \<ge> setsize l \<Longrightarrow> aeDeleteFileEvent l fd msk = Some l"
  by (simp add: aeDeleteFileEvent_def)

inductive ae_reach :: "('p, 't, 'f, 'c) aeEventLoop \<Rightarrow> bool" where
  start: "0 \<le> n \<Longrightarrow> ae_reach (aeCreateEventLoop n now)"
| add: "ae_reach l \<Longrightarrow> 0 \<le> fd \<Longrightarrow> fd < FD_SETSIZE \<Longrightarrow> msk \<in> {1, 2, 3} \<Longrightarrow>
    aeCreateFileEvent l fd msk proc d = Some (l', r) \<Longrightarrow> ae_reach l'"
| del: "ae_reach l \<Longrightarrow> 0 \<le> fd \<Longrightarrow> fd < FD_SETSIZE \<Longrightarrow> msk \<in> {1, 2, 3} \<Longrightarrow>
    aeDeleteFileEvent l fd msk = Some l' \<Longrightarrow> ae_reach l'"
| resize: "ae_reach l \<Longrightarrow> ae_reach (fst (aeResizeSetSize junk l n))"
| timer: "ae_reach l \<Longrightarrow> ae_reach (l\<lparr>timeEventNextId := i, lastTime := now, timers := ts\<rparr>)"

text \<open>The timer operations are of the last kind, and leave the file events alone.\<close>

lemma timer_operations:
  "\<exists>i ts. fst (aeCreateTimeEvent l cur ms tproc d fin) = l\<lparr>timeEventNextId := i, lastTime := lastTime l, timers := ts\<rparr>"
  "\<exists>ts. fst (aeDeleteTimeEvent l i) = l\<lparr>timeEventNextId := timeEventNextId l, lastTime := lastTime l, timers := ts\<rparr>"
  "\<exists>ts. fst (processTimeEvents call fin' clk now l w) = l\<lparr>timeEventNextId := timeEventNextId l, lastTime := now, timers := ts\<rparr>"
proof -
  have "\<exists>ts. l = l\<lparr>timers := ts\<rparr>" by (rule exI [of _ "timers l"]) simp
  then show "\<exists>ts. fst (aeDeleteTimeEvent l i) = l\<lparr>timeEventNextId := timeEventNextId l, lastTime := lastTime l, timers := ts\<rparr>"
    by (cases "delete_timer i (timers l)") (auto simp: aeDeleteTimeEvent_def)
qed (auto simp: aeCreateTimeEvent_def processTimeEvents_def Let_def split: prod.splits)

lemma loop_ok_timers: "loop_ok (l\<lparr>timeEventNextId := i, lastTime := now, timers := ts\<rparr>) = loop_ok l"
  using regs_cong [of "l\<lparr>timeEventNextId := i, lastTime := now, timers := ts\<rparr>" l] by (simp add: loop_ok_def)

lemma reach_ok: "ae_reach l \<Longrightarrow> loop_ok l"
proof (induction rule: ae_reach.induct)
  case (start n now)
  then show ?case by (rule aeCreateEventLoop_ok)
next
  case (add l fd msk proc d l' r)
  then show ?case using aeCreateFileEvent_ok [of l fd msk proc d] aeCreateFileEvent_full [of l fd msk proc d]
    by (cases "fd < setsize l") auto
next
  case (del l fd msk l')
  then show ?case using aeDeleteFileEvent_ok [of l fd msk] aeDeleteFileEvent_full [of l fd msk]
    by (cases "fd < setsize l") auto
next
  case (resize l junk n)
  then show ?case using aeResizeSetSize_ok by blast
next
  case (timer l i now ts)
  then show ?case by (simp add: loop_ok_timers)
qed

section \<open>Polling\<close>

lemma fired_entry_mask:
  assumes "regs l (int j) \<in> {0, 1, 2, 3}" "int j < setsize l"
    "int j \<in> r \<Longrightarrow> regs l (int j) AND AE_READABLE \<noteq> 0" "int j \<in> w \<Longrightarrow> regs l (int j) AND AE_WRITABLE \<noteq> 0"
  shows "fired_entry r w (events l) j =
    (if regs l (int j) = 0 then [] else [(int j, (if int j \<in> r then 1 else 0) + (if int j \<in> w then 2 else 0))])"
  using assms by (auto simp: fired_entry_def regs_def Let_def AE_READABLE_def AE_WRITABLE_def)

lemma concat_option_sorted:
  "sorted (map fst (concat (map (\<lambda>j. if P j then [] else [(int j, f j)]) [0..<n])))
   \<and> distinct (map fst (concat (map (\<lambda>j. if P j then [] else [(int j, f j)]) [0..<n])))"
  by (induction n) (auto simp: sorted_append)

text \<open>The answer of \<open>select\<close>: subsets of the two sets it is given, and how many descriptors are ready.\<close>

definition select_answer :: "int \<Rightarrow> int set \<Rightarrow> int set \<Rightarrow> int \<times> int set \<times> int set \<Rightarrow> bool" where
  "select_answer n r w a \<longleftrightarrow> (case a of (k, r', w') \<Rightarrow> r' \<subseteq> r \<inter> {0..<n} \<and> w' \<subseteq> w \<inter> {0..<n} \<and> (r' \<union> w' \<noteq> {} \<longrightarrow> 0 < k))"

section \<open>Timers: lemmas\<close>

definition due :: "int \<times> int \<Rightarrow> ('t, 'f, 'c) aeTimeEvent \<Rightarrow> bool" where
  "due t te \<longleftrightarrow> fst t > te_when_sec te \<or> (fst t = te_when_sec te \<and> snd t \<ge> te_when_ms te)"

text \<open>What a round at the time \<open>t\<close> makes of a timer that stays in the list.\<close>

definition timer_next :: "int \<times> int \<Rightarrow> ('t, 'f, 'c) aeTimeEvent \<Rightarrow> ('t, 'f, 'c) aeTimeEvent \<Rightarrow> bool" where
  "timer_next t te te' \<longleftrightarrow>
     (if due t te
      then te' = te\<lparr>te_id := AE_DELETED_EVENT_ID\<rparr>
        \<or> (\<exists>retval. retval \<noteq> AE_NOMORE \<and> te' = te\<lparr>te_when_sec := fst (aeAddMillisecondsToNow t retval),
              te_when_ms := snd (aeAddMillisecondsToNow t retval)\<rparr>)
      else te' = te)"

abbreviation live :: "('t, 'f, 'c) aeTimeEvent \<Rightarrow> bool" where
  "live te \<equiv> te_id te \<noteq> AE_DELETED_EVENT_ID"

lemma time_loop_constant:
  assumes "\<forall>te \<in> set ts. te_id te \<le> maxId" "time_loop call fin (\<lambda>_. t) maxId ts k w = (ts', fired, k', w')"
  shows "fired = map te_id (filter (due t) (filter live ts)) \<and> list_all2 (timer_next t) (filter live ts) ts'"
  using assms
proof (induction ts arbitrary: k w ts' fired k' w')
  case (Cons te ts)
  show ?case
  proof (cases "live te \<and> due t te")
    case True
    obtain retval w1 where c: "call (te_timeProc te) (te_id te) (te_clientData te) w = (retval, w1)" by fastforce
    obtain r1 f1 k1 v1 where r1: "time_loop call fin (\<lambda>_. t) maxId ts (if retval \<noteq> AE_NOMORE then Suc (Suc k) else Suc k) w1 = (r1, f1, k1, v1)"
      by (cases "time_loop call fin (\<lambda>_. t) maxId ts (if retval \<noteq> AE_NOMORE then Suc (Suc k) else Suc k) w1")
    have ih: "f1 = map te_id (filter (due t) (filter live ts)) \<and> list_all2 (timer_next t) (filter live ts) r1"
      using Cons.IH [OF _ r1] Cons.prems(1) by simp
    let ?te = "if retval \<noteq> AE_NOMORE then te\<lparr>te_when_sec := fst (aeAddMillisecondsToNow t retval),
              te_when_ms := snd (aeAddMillisecondsToNow t retval)\<rparr> else te\<lparr>te_id := AE_DELETED_EVENT_ID\<rparr>"
    have d: "fst t > te_when_sec te \<or> (fst t = te_when_sec te \<and> snd t \<ge> te_when_ms te)" using True by (simp add: due_def)
    have "ts' = ?te # r1" "fired = te_id te # f1"
      using Cons.prems True c r1 d by (cases "retval = -1"; simp add: case_prod_beta Let_def)+
    moreover have "timer_next t te ?te" using True by (auto simp: timer_next_def)
    ultimately show ?thesis using ih True by simp
  next
    case False
    have m: "te_id te \<le> maxId" using Cons.prems(1) by simp
    show ?thesis
    proof (cases "live te")
      case True
      obtain r1 f1 k1 v1 where r1: "time_loop call fin (\<lambda>_. t) maxId ts (Suc k) w = (r1, f1, k1, v1)"
        by (cases "time_loop call fin (\<lambda>_. t) maxId ts (Suc k) w")
      have d: "\<not> (fst t > te_when_sec te \<or> (fst t = te_when_sec te \<and> snd t \<ge> te_when_ms te))"
        using True False by (simp add: due_def)
      then have "(fst t > te_when_sec te \<or> (fst t = te_when_sec te \<and> snd t \<ge> te_when_ms te)) = False" by blast
      then have "time_loop call fin (\<lambda>_. t) maxId (te # ts) k w = apfst ((#) te) (time_loop call fin (\<lambda>_. t) maxId ts (Suc k) w)"
        using True m by (cases t) auto
      then have "ts' = te # r1" "fired = f1" using Cons.prems(2) r1 by simp_all
      moreover have "timer_next t te te" using True False by (simp add: timer_next_def)
      ultimately show ?thesis using Cons.IH [OF _ r1] Cons.prems(1) True False by simp
    qed (use Cons False in auto)
  qed
qed simp

lemma nearest_loop_min:
  "(nearest_loop n ts = None \<longleftrightarrow> n = None \<and> ts = []) \<and>
   (\<forall>m. nearest_loop n ts = Some m \<longrightarrow> m \<in> set_option n \<union> set ts \<and>
     (\<forall>te \<in> set_option n \<union> set ts. te_when_sec m < te_when_sec te \<or> (te_when_sec m = te_when_sec te \<and> te_when_ms m \<le> te_when_ms te)))"
proof (induction ts arbitrary: n)
  case (Cons te ts)
  show ?case
  proof (cases n)
    case None
    then show ?thesis using Cons [of "Some te"] by auto
  next
    case (Some a)
    show ?thesis
    proof (cases "te_when_sec te < te_when_sec a \<or> (te_when_sec te = te_when_sec a \<and> te_when_ms te < te_when_ms a)")
      case True
      then show ?thesis using Cons [of "Some te"] Some by fastforce
    next
      case False
      then show ?thesis using Cons [of "Some a"] Some by fastforce
    qed
  qed
qed (auto split: option.splits)

section \<open>Properties\<close>

text \<open>
  C19: The tables of the event loop agree, whatever sequence of registrations, removals, resizings and
  timer operations led to it, for descriptors below \<open>FD_SETSIZE\<close>: \<open>select\<close> watches exactly the
  descriptors that are registered, \<open>maxfd\<close> is the largest of them or -1, and registering and removing
  are defined and change the mask of the one descriptor only.
\<close>

theorem ae_tables_agree:
  assumes "ae_reach l"
  shows "rfds l = {fd. regs l fd AND AE_READABLE \<noteq> 0} \<and> wfds l = {fd. regs l fd AND AE_WRITABLE \<noteq> 0}
    \<and> (\<forall>fd. regs l fd \<noteq> 0 \<longrightarrow> 0 \<le> fd \<and> fd \<le> maxfd l) \<and> (maxfd l \<noteq> -1 \<longrightarrow> regs l (maxfd l) \<noteq> 0)
    \<and> (0 \<le> fd \<and> fd < FD_SETSIZE \<and> fd < setsize l \<and> msk \<in> {1, 2, 3} \<longrightarrow>
        (\<exists>l'. aeCreateFileEvent l fd msk proc d = Some (l', AE_OK) \<and> regs l' = (regs l)(fd := regs l fd OR msk))
        \<and> (\<exists>l'. aeDeleteFileEvent l fd msk = Some l' \<and> regs l' = (regs l)(fd := regs l fd AND NOT msk)))"
proof -
  have ok: "loop_ok l" by (rule reach_ok [OF assms])
  have "0 \<le> x \<and> x \<le> maxfd l" if "regs l x \<noteq> 0" for x
    using ok that by (auto simp: loop_ok_def regs_def not_less [symmetric] split: if_splits)
  moreover have "(\<exists>l'. aeCreateFileEvent l fd msk proc d = Some (l', AE_OK) \<and> regs l' = (regs l)(fd := regs l fd OR msk))
        \<and> (\<exists>l'. aeDeleteFileEvent l fd msk = Some l' \<and> regs l' = (regs l)(fd := regs l fd AND NOT msk))"
    if "0 \<le> fd \<and> fd < FD_SETSIZE \<and> fd < setsize l \<and> msk \<in> {1, 2, 3}"
    using aeCreateFileEvent_ok [OF ok, of fd msk proc d] aeDeleteFileEvent_ok [OF ok, of fd msk] that by blast
  ultimately show ?thesis using ok unfolding loop_ok_def by blast
qed

text \<open>The loop of the witnesses: descriptor 3 readable, 5 readable and writable.\<close>

definition demo_loop :: "(nat, nat, nat, nat) aeEventLoop" where
  "demo_loop = fst (the (aeCreateFileEvent (fst (the (aeCreateFileEvent (aeCreateEventLoop 8 0) 3 1 7 None))) 5 3 9 (Some 1)))"

lemma demo_loop: "ae_reach demo_loop" "setsize demo_loop = 8" "regs demo_loop = (\<lambda>_. 0)(3 := 1, 5 := 3)" "maxfd demo_loop = 5"
proof -
  have c: "ae_reach (aeCreateEventLoop 8 0 :: (nat, nat, nat, nat) aeEventLoop)" by (rule ae_reach.start) simp
  have e0: "setsize (aeCreateEventLoop 8 0 :: (nat, nat, nat, nat) aeEventLoop) = 8" by (simp add: aeCreateEventLoop_def)
  obtain l1 where l1: "aeCreateFileEvent (aeCreateEventLoop 8 0 :: (nat, nat, nat, nat) aeEventLoop) 3 1 7 None = Some (l1, 0)"
    "regs l1 = (\<lambda>_. 0)(3 := 1)" "setsize l1 = 8"
    using aeCreateFileEvent_ok [OF reach_ok [OF c], of 3 1 7 None]
    by (auto simp: FD_SETSIZE_def aeCreateEventLoop_ok(2) e0)
  have r1: "ae_reach l1" by (rule ae_reach.add [OF c _ _ _ l1(1)]) (simp_all add: FD_SETSIZE_def)
  obtain l2 where l2: "aeCreateFileEvent l1 5 3 9 (Some 1) = Some (l2, 0)" "regs l2 = (\<lambda>_. 0)(3 := 1, 5 := 3)" "setsize l2 = 8"
    using aeCreateFileEvent_ok [OF reach_ok [OF r1], of 5 3 9 "Some 1"] l1 by (auto simp: FD_SETSIZE_def)
  have r2: "ae_reach l2" by (rule ae_reach.add [OF r1 _ _ _ l2(1)]) (simp_all add: FD_SETSIZE_def)
  have d: "demo_loop = l2" by (simp only: demo_loop_def l1(1) l2(1) option.sel fst_conv)
  show "ae_reach demo_loop" "setsize demo_loop = 8" "regs demo_loop = (\<lambda>_. 0)(3 := 1, 5 := 3)"
    using r2 l2 by (simp_all add: d)
  have "\<forall>fd > maxfd l2. regs l2 fd = 0" "maxfd l2 \<noteq> -1 \<longrightarrow> regs l2 (maxfd l2) \<noteq> 0"
    using reach_ok [OF r2] by (simp_all add: loop_ok_def)
  moreover have "regs l2 5 \<noteq> 0" "\<And>x. 5 < x \<Longrightarrow> regs l2 x = 0" by (simp_all add: l2(2))
  ultimately have "\<not> maxfd l2 < 5" "\<not> 5 < maxfd l2" by fastforce+
  then show "maxfd demo_loop = 5" unfolding d by simp
qed

lemma ae_tables_agree_witness:
  "\<exists>l'. aeDeleteFileEvent demo_loop 5 2 = Some l' \<and> regs l' = (regs demo_loop)(5 := regs demo_loop 5 AND NOT 2)"
  using ae_tables_agree [OF demo_loop(1), of 5 2 0 None] by (simp add: demo_loop FD_SETSIZE_def)

text \<open>
  One poll reports what is ready. For every answer of \<open>select\<close> about the sets it is given,
  \<open>aeApiPoll\<close> stays inside the table and gives every registered descriptor at most once, in increasing
  order; the mask of an entry names the directions in which the descriptor is ready.
\<close>

theorem aeApiPoll_reports:
  assumes "ae_reach l" "select_answer (maxfd l + 1) (rfds l) (wfds l) (sel (maxfd l + 1) (rfds l) (wfds l) tvp)"
    "sel (maxfd l + 1) (rfds l) (wfds l) tvp = (k, r, w)"
  shows "\<exists>evs. aeApiPoll sel l tvp = Some evs \<and> sorted (map fst evs) \<and> distinct (map fst evs)
    \<and> (\<forall>fd. fd \<in> r \<longleftrightarrow> (\<exists>m. (fd, m) \<in> set evs \<and> m AND AE_READABLE \<noteq> 0))
    \<and> (\<forall>fd. fd \<in> w \<longleftrightarrow> (\<exists>m. (fd, m) \<in> set evs \<and> m AND AE_WRITABLE \<noteq> 0))"
proof (cases "0 < k")
  case False
  then have "r = {}" "w = {}" using assms(2,3) by (auto simp: select_answer_def)
  then show ?thesis using assms(3) False by (simp add: aeApiPoll_def)
next
  case True
  have ok: "loop_ok l" by (rule reach_ok [OF assms(1)])
  have r: "r \<subseteq> rfds l \<inter> {0..maxfd l}" and w: "w \<subseteq> wfds l \<inter> {0..maxfd l}"
    using assms(2,3) by (auto simp: select_answer_def)
  have m: "regs l x \<in> {0, 1, 2, 3}" for x using ok by (simp only: loop_ok_def)
  let ?f = "\<lambda>j. (if int j \<in> r then 1 else 0) + (if int j \<in> w then 2 else 0 :: int)"
  let ?g = "\<lambda>j. if regs l (int j) = 0 then [] else [(int j, ?f j)]"
  have e: "fired_entry r w (events l) j = ?g j" if "j < nat (maxfd l + 1)" for j
    using that ok r w by (intro fired_entry_mask m) (auto simp: loop_ok_def)
  let ?evs = "concat (map ?g [0..<nat (maxfd l + 1)])"
  have me: "map (fired_entry r w (events l)) [0..<nat (maxfd l + 1)] = map ?g [0..<nat (maxfd l + 1)]"
    by (rule map_cong) (simp_all add: e)
  have "maxfd l < int (length (events l))" using ok by (simp add: loop_ok_def)
  then have "aeApiPoll sel l tvp = Some (concat (map (fired_entry r w (events l)) [0..<nat (maxfd l + 1)]))"
    using True assms(3) by (simp add: aeApiPoll_def)
  then have p: "aeApiPoll sel l tvp = Some ?evs" unfolding me .
  have s: "sorted (map fst ?evs) \<and> distinct (map fst ?evs)" by (rule concat_option_sorted)
  have i: "(fd, v) \<in> set ?evs \<longleftrightarrow> 0 \<le> fd \<and> fd \<le> maxfd l \<and> regs l fd \<noteq> 0 \<and> v = ?f (nat fd)" for fd v
    by (auto split: if_splits intro!: bexI [of _ "nat fd"])
  have rr: "fd \<in> r \<Longrightarrow> 0 \<le> fd \<and> fd \<le> maxfd l \<and> regs l fd \<noteq> 0" for fd using r ok by (auto simp: loop_ok_def)
  have ww: "fd \<in> w \<Longrightarrow> 0 \<le> fd \<and> fd \<le> maxfd l \<and> regs l fd \<noteq> 0" for fd using w ok by (auto simp: loop_ok_def)
  have "fd \<in> r \<longleftrightarrow> (\<exists>m. (fd, m) \<in> set ?evs \<and> m AND AE_READABLE \<noteq> 0)" for fd
    unfolding i using rr [of fd] by (auto simp: AE_READABLE_def)
  moreover have "fd \<in> w \<longleftrightarrow> (\<exists>m. (fd, m) \<in> set ?evs \<and> m AND AE_WRITABLE \<noteq> 0)" for fd
    unfolding i using ww [of fd] by (auto simp: AE_WRITABLE_def)
  ultimately show ?thesis using p s by blast
qed

lemma aeApiPoll_reports_witness:
  "\<exists>evs. aeApiPoll (\<lambda>n r w t. (1, {3}, {5})) demo_loop None = Some evs \<and> (\<exists>m. (5, m) \<in> set evs \<and> m AND AE_WRITABLE \<noteq> 0)"
proof -
  have "rfds demo_loop = {3, 5}" "wfds demo_loop = {5}"
    using reach_ok [OF demo_loop(1)] by (auto simp: loop_ok_def demo_loop AE_READABLE_def AE_WRITABLE_def)
  then show ?thesis
    using aeApiPoll_reports [OF demo_loop(1), of "\<lambda>n r w t. (1, {3}, {5})" None 1 "{3}" "{5}"]
    by (auto simp: select_answer_def demo_loop)
qed

text \<open>Milliseconds and the order of the clock.\<close>

lemma split_ms:
  "0 < (x :: int) \<Longrightarrow> 0 \<le> x div 1000 \<and> 0 \<le> (x mod 1000) * 1000 \<and> (x mod 1000) * 1000 < 1000000
    \<and> x div 1000 * 1000 + (x mod 1000) * 1000 div 1000 = x"
  using pos_mod_bound [of 1000 x] by simp

lemma clock_le:
  fixes a b c d x y :: int
  assumes "a < b \<or> a = b \<and> x \<le> y" "x < 1000" "0 \<le> y"
  shows "(a - c) * 1000 + x - d \<le> (b - c) * 1000 + y - d"
proof -
  have "a + 1 \<le> b \<or> a = b \<and> x \<le> y" using assms(1) by linarith
  then show ?thesis
  proof
    assume "a + 1 \<le> b"
    then have "1000 * a + 1000 \<le> 1000 * b" by linarith
    then show ?thesis using assms(2,3) by (simp add: left_diff_distrib)
  qed simp
qed

text \<open>
  C27: A round of the loop serves the timers. \<open>processTimeEvents\<close> calls every timer that is not deleted
  and due, once, in the order of the list, and no other; it drops the deleted ones, sets those called
  to their next time or marks them deleted, and keeps the rest. And the loop never sleeps past a timer:
  the time it gives to \<open>select\<close> is at most the time to the first timer that is not yet due.
\<close>

theorem timers_served:
  assumes "\<forall>te \<in> set (timers l). te_id te < timeEventNextId l \<and> 0 \<le> te_when_ms te \<and> te_when_ms te < 1000"
    "lastTime l \<le> now" "processTimeEvents call fin (\<lambda>_. t) now l w = (l', fired, w')" and t: "snd t < 1000"
  shows "fired = map te_id (filter (due t) (filter live (timers l)))
    \<and> list_all2 (timer_next t) (filter live (timers l)) (timers l')
    \<and> (\<forall>te \<in> set (timers l). \<exists>s us. poll_timeout AE_ALL_EVENTS t l = Some (s, us) \<and> 0 \<le> s \<and> 0 \<le> us \<and> us < 1000000
        \<and> (\<not> due t te \<longrightarrow> s * 1000 + us div 1000 \<le> (te_when_sec te - fst t) * 1000 + te_when_ms te - snd t))"
proof -
  obtain ts' k' where tl: "time_loop call fin (\<lambda>_. t) (timeEventNextId l - 1) (timers l) 0 w = (ts', fired, k', w')" "timers l' = ts'"
    using assms(2,3) by (auto simp: processTimeEvents_def Let_def split: prod.splits)
  have "\<forall>te \<in> set (timers l). te_id te \<le> timeEventNextId l - 1" using assms(1) by force
  note served = time_loop_constant [OF this tl(1)]
  have "\<exists>s us. poll_timeout AE_ALL_EVENTS t l = Some (s, us) \<and> 0 \<le> s \<and> 0 \<le> us \<and> us < 1000000
        \<and> (\<not> due t te \<longrightarrow> s * 1000 + us div 1000 \<le> (te_when_sec te - fst t) * 1000 + te_when_ms te - snd t)"
    if te: "te \<in> set (timers l)" for te
  proof -
    obtain m where m: "nearest_loop None (timers l) = Some m" using nearest_loop_min [of None "timers l"] te by force
    have mt: "m \<in> set (timers l)" "te_when_sec m < te_when_sec te \<or> (te_when_sec m = te_when_sec te \<and> te_when_ms m \<le> te_when_ms te)"
      using nearest_loop_min [of None "timers l"] m te by auto
    let ?ms = "(te_when_sec m - fst t) * 1000 + te_when_ms m - snd t"
    have le: "?ms \<le> (te_when_sec te - fst t) * 1000 + te_when_ms te - snd t"
      by (rule clock_le [OF mt(2)]) (use assms(1) mt(1) te in auto)
    have p: "poll_timeout AE_ALL_EVENTS t l = (if ?ms > 0 then Some (?ms div 1000, (?ms mod 1000) * 1000) else Some (0, 0))"
      using m by (simp add: poll_timeout_def AE_ALL_EVENTS_def AE_FILE_EVENTS_def AE_TIME_EVENTS_def AE_DONT_WAIT_def
          aeSearchNearestTimer_def signed_divide_int_def signed_modulo_int_def Let_def)
    show ?thesis
    proof (cases "?ms > 0")
      case True
      let ?s = "?ms div 1000" and ?us = "(?ms mod 1000) * 1000"
      have g: "0 \<le> ?s \<and> 0 \<le> ?us \<and> ?us < 1000000 \<and> ?s * 1000 + ?us div 1000 = ?ms" by (rule split_ms [OF True])
      have "poll_timeout AE_ALL_EVENTS t l = Some (?s, ?us)" unfolding p using True by (rule if_P)
      moreover have "?s * 1000 + ?us div 1000 \<le> (te_when_sec te - fst t) * 1000 + te_when_ms te - snd t"
        using conjunct2 [OF conjunct2 [OF conjunct2 [OF g]]] le by (rule ord_eq_le_trans)
      ultimately show ?thesis using g by blast
    next
      case False
      have "0 \<le> (te_when_sec te - fst t) * 1000 + te_when_ms te - snd t" if "\<not> due t te"
      proof -
        have "fst t < te_when_sec te \<or> fst t = te_when_sec te \<and> snd t \<le> te_when_ms te"
          using that unfolding due_def by linarith
        then show ?thesis using t assms(1) te clock_le [of "fst t" "te_when_sec te" "snd t" "te_when_ms te" "fst t" "snd t"] by simp
      qed
      then show ?thesis using p False by simp
    qed
  qed
  then show ?thesis using served tl(2) by blast
qed

text \<open>Three timers: one due, one deleted, one that waits.\<close>

lemma timers_served_witness:
  "fst (snd (processTimeEvents (\<lambda>p i d w. (-1, w)) (\<lambda>f d w. w) (\<lambda>_. (10, 500)) 10
      (demo_loop\<lparr>timeEventNextId := 3, timers := [\<lparr>te_id = 2, te_when_sec = 10, te_when_ms = 500, te_timeProc = 0,
          te_finalizerProc = None, te_clientData = None\<rparr>, \<lparr>te_id = -1, te_when_sec = 1, te_when_ms = 0, te_timeProc = 0,
          te_finalizerProc = None, te_clientData = None\<rparr>, \<lparr>te_id = 0, te_when_sec = 11, te_when_ms = 0, te_timeProc = 0,
          te_finalizerProc = None, te_clientData = None\<rparr>], lastTime := 9\<rparr>) (0 :: nat))) = [2]"
  (is "fst (snd (processTimeEvents ?c ?f ?k 10 ?l 0)) = _")
proof -
  obtain l' fired w' where r: "processTimeEvents ?c ?f ?k 10 ?l 0 = (l', fired, w')"
    using prod_cases3 [of "processTimeEvents ?c ?f ?k 10 ?l 0"] by metis
  have "fired = map te_id (filter (due (10, 500)) (filter live (timers ?l)))"
    using timers_served [OF _ _ r] by simp
  then show ?thesis using r by (simp add: due_def)
qed

end
