(* ===== verification/SockServer.thy ===== *)
theory SockServer
  imports Service Packet MysqlPool AeLoop
begin

text \<open>
  The connections of \<open>utils/socket_server.c\<close>: reading a frame in pieces, handing it to a worker,
  running the request, framing and sending the reply. What \<open>recv\<close> and \<open>send\<close> give is an argument. A
  connection is handled by one thread at a time: the loop does no more than look at it while \<open>readFlag\<close> is
  set. \<open>ConnShare\<close> shows when that is so.
  The pool of database connections is enabled (\<open>MysqlEnable = 1\<close>): a handler that runs a statement
  follows \<open>fd_sql\<close>, so without a connection it is undefined. \<open>mysql_commit\<close> does nothing on a
  connection that commits every statement. What \<open>memcpy\<close> makes of overlapping areas is the argument
  \<open>v_copy\<close>.
\<close>

section \<open>State\<close>

record fd_state =
  f_fd :: int
  f_buffer :: "u8 list"
  f_readFlag :: u8
  f_used :: nat
  f_written :: nat
  f_upto :: nat
  f_sh :: sock_head
  f_errcode :: int
  f_sql :: "MysqlBlock option"

record ('d, 'w, 'v) srv_env =
  v_env :: "('d, 'w) env"
  v_enc :: cipher
  v_dec :: cipher
  v_client :: "'v client"
  v_now :: u32
  v_copy :: overlap_copy

record ('w, 'v) srv =
  v_sys :: "'w sys"
  v_routes :: route_table
  v_rng :: rng
  v_pool :: pool
  v_out :: 'v

lemmas [csize] = MAX_LINE_def sizeof_sock_head_def sizeof_enc_head_def

definition REQUEST_TYPE_SAREAM :: u8 where "REQUEST_TYPE_SAREAM = 0"
definition REQUEST_TYPE_JSON :: u8 where "REQUEST_TYPE_JSON = 1"

definition zero_head :: sock_head where
  "zero_head = \<lparr>sk_magicWord = replicate 3 0, sk_requestType = 0, sk_keepAlive = 0, sk_encFlag = 0,
     sk_time = replicate 4 0, sk_length = replicate 4 0\<rparr>"

text \<open>\<open>aeDoAccept\<close>: a new state is cleared and registered; when that fails the socket is closed and the
  state freed.\<close>

definition new_state :: "int \<Rightarrow> fd_state" where
  "new_state fd = \<lparr>f_fd = fd, f_buffer = replicate MAX_LINE 0, f_readFlag = 0, f_used = 0, f_written = 0, f_upto = 0,
     f_sh = zero_head, f_errcode = 0, f_sql = None\<rparr>"

definition aeDoAccept ::
  "int \<Rightarrow> 'p \<Rightarrow> (fd_state \<Rightarrow> 'c) \<Rightarrow> ('p, 't, 'f, 'c) aeEventLoop \<Rightarrow> (fd_state option \<times> ('p, 't, 'f, 'c) aeEventLoop) option"
where
  "aeDoAccept newfd readProc ptr l =
     (if newfd < 0 then Some (None, l)
      else do {
        let st = new_state newfd;
        (l, r) \<leftarrow> aeCreateFileEvent l newfd AE_READABLE readProc (Some (ptr st));
        Some (if r = AE_ERR then None else Some st, l) })"

text \<open>\<open>socket_server_start\<close> before the loop runs: the result of \<open>socket_listen\<close> is registered unseen.\<close>

definition socket_server_start :: "int \<Rightarrow> int \<Rightarrow> 'p \<Rightarrow> (('p, 't, 'f, 'c) aeEventLoop \<times> int) option" where
  "socket_server_start now listener acceptProc =
     aeCreateFileEvent (aeCreateEventLoop 3000 now) listener AE_READABLE acceptProc None"

section \<open>Reading\<close>

datatype recv_res = Got "u8 list" | Peer_closed | Again | Interrupted | Failed

datatype read_end = Waiting fd_state | Dropped | Handed fd_state

text \<open>
  The loop of \<open>aeSocketRead\<close>, up to what it does with the event. \<open>recv\<close> is given the room that is left
  in the buffer, takes no more than that and returns 0 when it is given none; the end of the list is
  \<open>EAGAIN\<close>.
\<close>

function read_loop :: "recv_res list \<Rightarrow> fd_state \<Rightarrow> read_end option" where
  "read_loop [] st = Some (Waiting st)"
| "read_loop (Again # rs) st = Some (Waiting st)"
| "read_loop (Interrupted # rs) st = Some (Waiting st)"
| "read_loop (Peer_closed # rs) st = Some Dropped"
| "read_loop (Failed # rs) st = Some Dropped"
| "read_loop (Got bs # rs) st =
     (let room = MAX_LINE - f_used st in
      if room = 0 \<or> bs = [] then Some Dropped
      else do {
        buf \<leftarrow> mem_write (f_buffer st) (f_used st) (take room bs);
        let st = st\<lparr>f_buffer := buf, f_used := f_used st + length (take room bs)\<rparr>;
        ret \<leftarrow> isRecvOK (f_buffer st) (f_used st);
        if ret = -1 then Some Dropped
        else if ret = -2 then read_loop (if room < length bs then Got (drop room bs) # rs else rs) st
        else Some (Handed (st\<lparr>f_readFlag := 1\<rparr>)) })"
  by pat_completeness auto

termination
  by (relation "measure (\<lambda>(rs, st). sum_list (map (\<lambda>r. case r of Got bs \<Rightarrow> Suc (length bs) | _ \<Rightarrow> 1) rs))") auto

text \<open>\<open>aeSocketRead\<close>: the event goes away with the connection, and when the request is the last one.\<close>

definition aeSocketRead ::
  "recv_res list \<Rightarrow> fd_state \<Rightarrow> ('p, 't, 'f, 'c) aeEventLoop \<Rightarrow> (read_end \<times> ('p, 't, 'f, 'c) aeEventLoop) option"
where
  "aeSocketRead rs st l =
     (if f_readFlag st \<noteq> 0 then Some (Waiting st, l)
      else do {
        e \<leftarrow> read_loop rs st;
        (case e of
           Waiting st \<Rightarrow> Some (Waiting st, l)
         | Dropped \<Rightarrow> do { l \<leftarrow> aeDeleteFileEvent l (f_fd st) AE_READABLE; Some (Dropped, l) }
         | Handed st \<Rightarrow> do {
             hb \<leftarrow> mem_read (f_buffer st) 0 sizeof_sock_head;
             l \<leftarrow> (if sk_keepAlive (sock_head_of hb) = 0 then aeDeleteFileEvent l (f_fd st) AE_READABLE else Some l);
             Some (Handed st, l) }) })"

section \<open>Writing\<close>

datatype write_end = Sending fd_state | Closed | Lost | Kept fd_state

text \<open>
  The loop of \<open>socketWrite\<close> over the results of \<open>send\<close>, which is never more than it was given; the end of
  the list is a \<open>send\<close> that has not returned. The bytes sent are the second component. A length beyond
  the buffer is an access outside it.
\<close>

fun send_loop :: "int list \<Rightarrow> fd_state \<Rightarrow> (write_end \<times> u8 list) option" where
  "send_loop [] st = Some (Sending st, [])"
| "send_loop (r # rs) st =
     do { guard (f_upto st \<le> f_written st);
          dat \<leftarrow> mem_read (f_buffer st) (f_upto st) (f_written st - f_upto st);
          guard (r \<le> int (length dat));
          if r \<le> 0 then Some (Lost, [])
          else do {
            let st' = st\<lparr>f_upto := f_upto st + nat r\<rparr>;
            if f_upto st' = f_written st'
            then
              (if sk_keepAlive (f_sh st) = 0 then Some (Closed, take (nat r) dat)
               else Some (Kept (st'\<lparr>f_buffer := replicate MAX_LINE 0, f_used := 0, f_written := 0, f_upto := 0, f_readFlag := 0\<rparr>),
                          take (nat r) dat))
            else do { (e, out) \<leftarrow> send_loop rs st'; Some (e, take (nat r) dat @ out) } } }"

text \<open>\<open>socketWrite\<close>: only a failed \<open>send\<close> takes the event away before the state is freed.\<close>

definition socketWrite ::
  "int list \<Rightarrow> fd_state \<Rightarrow> ('p, 't, 'f, 'c) aeEventLoop \<Rightarrow> (write_end \<times> u8 list \<times> ('p, 't, 'f, 'c) aeEventLoop) option"
where
  "socketWrite rs st l =
     do { (e, out) \<leftarrow> send_loop rs st;
          l \<leftarrow> (if e = Lost then aeDeleteFileEvent l (f_fd st) AE_READABLE else Some l);
          Some (e, out, l) }"

section \<open>Requests\<close>

text \<open>The C string at the start of a buffer; without a NUL it is read beyond the end.\<close>

definition cstr :: "u8 list \<Rightarrow> string option" where
  "cstr buf = (if 0 \<in> set buf then Some (map (\<lambda>b. char_of (unat b)) (takeWhile (\<lambda>b. b \<noteq> 0) buf)) else None)"

text \<open>A handler works on the buffer: the text there is the request, and the reply is copied over it.
  The two test handlers clear it first; \<open>say_hello\<close> does not read it.\<close>

definition call_handler ::
  "('d, 'w, 'v) srv_env \<Rightarrow> route_fun \<Rightarrow> fd_state \<Rightarrow> ('w, 'v) srv \<Rightarrow> (fd_state \<times> ('w, 'v) srv) option"
where
  "call_handler ce f st sv =
     do { guard (f_sql st \<noteq> None \<and> f_used st \<le> MAX_LINE);
          req \<leftarrow> (if f = Route.say_hello then Some [] else cstr (f_buffer st));
          (reply, sys) \<leftarrow> run_route (v_env ce) f req (v_sys sv);
          let old = (if f = Route.say_hello \<or> f = Route.r_31501 then replicate MAX_LINE 0 else f_buffer st);
          buf \<leftarrow> mem_write old 0 (bytes reply @ [0]);
          Some (st\<lparr>f_buffer := buf, f_used := length reply\<rparr>, sv\<lparr>v_sys := sys\<rparr>) }"

text \<open>A database connection, then the route.\<close>

definition run_request ::
  "('d, 'w, 'v) srv_env \<Rightarrow> string option \<Rightarrow> fd_state \<Rightarrow> ('w, 'v) srv \<Rightarrow> (fd_state \<times> ('w, 'v) srv) option"
where
  "run_request ce route st sv =
     do { (blk, p, out) \<leftarrow> mysqlConnectionPool_GetOneConn (v_client ce) (v_pool sv) (v_out sv);
          let st = st\<lparr>f_sql := blk\<rparr>;
          let sv = sv\<lparr>v_pool := p, v_out := out\<rparr>;
          key \<leftarrow> route;
          (t, f) \<leftarrow> get_function_route (v_routes sv) (bytes key);
          let sv = sv\<lparr>v_routes := t\<rparr>;
          (case f of
             None \<Rightarrow> Some (st\<lparr>f_errcode := ERR_UNDEFINED_REQUEST_ROUTE\<rparr>, sv)
           | Some f \<Rightarrow> call_handler ce f st sv) }"

text \<open>The end of both handlers: the reply is framed and the connection given back. A negative result
  is stored in a \<open>size_t\<close>.\<close>

definition send_reply ::
  "('d, 'w, 'v) srv_env \<Rightarrow> fd_state \<Rightarrow> ('w, 'v) srv \<Rightarrow> (fd_state \<times> ('w, 'v) srv) option"
where
  "send_reply ce st sv =
     do { (b, n, r) \<leftarrow> getSocketSendBuff (v_copy ce) (v_enc ce) (v_now ce) (v_rng sv) (Some (f_buffer st)) (f_used st) MAX_LINE
            (sk_requestType (f_sh st)) (sk_encFlag (f_sh st)) (sk_keepAlive (f_sh st));
          buf \<leftarrow> b;
          let k = nat (n mod 2 ^ 64);
          let p = (case f_sql st of None \<Rightarrow> v_pool sv | Some blk \<Rightarrow> mysqlConnectionPool_FreeOneConn blk (v_pool sv));
          Some (st\<lparr>f_buffer := buf, f_used := k, f_written := k\<rparr>, sv\<lparr>v_rng := r, v_pool := p\<rparr>) }"

text \<open>\<open>json_handle\<close>. A request without a route or without parameters follows a null pointer, and the
  branch for an error takes the length of the text it has just freed: both are undefined.\<close>

definition json_handle ::
  "('d, 'w, 'v) srv_env \<Rightarrow> fd_state \<Rightarrow> ('w, 'v) srv \<Rightarrow> (fd_state \<times> ('w, 'v) srv) option"
where
  "json_handle ce st sv =
     do { js \<leftarrow> cstr (f_buffer st);
          p \<leftarrow> cJSON_Parse (e_fp (v_env ce)) js;
          (st, sv) \<leftarrow>
            (case p of
               None \<Rightarrow> Some (st\<lparr>f_errcode := ERR_JSON_PARSE_FAIL\<rparr>, sv)
             | Some json \<Rightarrow> do {
                 temp \<leftarrow> cJSON_GetObjectItem json ''route'';
                 temp' \<leftarrow> cJSON_GetObjectItem json ''prm'';
                 prm \<leftarrow> cJSON_Print (e_fp (v_env ce)) temp';
                 buf \<leftarrow> mem_write (replicate MAX_LINE 0) 0 (bytes prm);
                 run_request ce (c_valuestring temp) (st\<lparr>f_buffer := buf, f_used := length prm\<rparr>) sv });
          guard (f_errcode st = 0);
          send_reply ce st sv }"

text \<open>\<open>stream_handle\<close>: the number of the route, then its data.\<close>

definition stream_route :: "u8 list \<Rightarrow> string" where
  "stream_route hb = ''r_'' @ show_nat (unat (ENDIAN_WORD (ucast (hb ! 0) OR push_bit 8 (ucast (hb ! 1)))))"

definition stream_handle ::
  "('d, 'w, 'v) srv_env \<Rightarrow> fd_state \<Rightarrow> ('w, 'v) srv \<Rightarrow> (fd_state \<times> ('w, 'v) srv) option"
where
  "stream_handle ce st sv =
     do { hb \<leftarrow> mem_read (f_buffer st) 0 2;
          guard (2 \<le> f_used st);
          buf \<leftarrow> memcpy_in (v_copy ce) (f_buffer st) 0 2 (f_used st - 2);
          (st, sv) \<leftarrow> run_request ce (Some (stream_route hb)) (st\<lparr>f_buffer := buf, f_used := f_used st - 2\<rparr>) sv;
          st \<leftarrow> (if f_errcode st \<noteq> 0
                then do { let errString = gerErrMsg (f_errcode st);
                          buf \<leftarrow> mem_write (f_buffer st) 0 (bytes errString);
                          Some (st\<lparr>f_buffer := buf, f_used := length errString\<rparr>) }
                else Some st);
          guard (f_sql st \<noteq> None);
          send_reply ce st sv }"

definition undefined_handle :: "fd_state \<Rightarrow> fd_state" where
  "undefined_handle st =
     st\<lparr>f_errcode := ERR_UNDEFINED_REQUEST_TYPE, f_buffer := (f_buffer st)[0 := word_of_int ERR_UNDEFINED_REQUEST_TYPE],
        f_used := 1, f_written := 1, f_sh := (f_sh st)\<lparr>sk_keepAlive := 0\<rparr>\<rparr>"

definition get_handle_function ::
  "u8 \<Rightarrow> ('d, 'w, 'v) srv_env \<Rightarrow> fd_state \<Rightarrow> ('w, 'v) srv \<Rightarrow> (fd_state \<times> ('w, 'v) srv) option"
where
  "get_handle_function ty =
     (if ty = REQUEST_TYPE_SAREAM then stream_handle
      else if ty = REQUEST_TYPE_JSON then json_handle
      else (\<lambda>ce st sv. Some (undefined_handle st, sv)))"

text \<open>\<open>handle_received_data\<close> up to the reply, and with it.\<close>

definition handle_frame ::
  "('d, 'w, 'v) srv_env \<Rightarrow> fd_state \<Rightarrow> ('w, 'v) srv \<Rightarrow> (fd_state \<times> ('w, 'v) srv) option"
where
  "handle_frame ce st sv =
     do { (buf, retLen, sh) \<leftarrow> parseRecvBuff (v_copy ce) (v_dec ce) (f_buffer st) (f_used st) (f_sh st);
          let st = st\<lparr>f_buffer := buf, f_sh := sh\<rparr>;
          if retLen < 0
          then Some (st\<lparr>f_errcode := retLen, f_buffer := (f_buffer st)[0 := word_of_int retLen], f_used := 1, f_written := 1\<rparr>, sv)
          else get_handle_function (sk_requestType sh) ce (st\<lparr>f_used := nat retLen\<rparr>) sv }"

definition handle_received_data where
  "handle_received_data ce rs st sv l =
     do { (st, sv) \<leftarrow> handle_frame ce st sv;
          (e, out, l) \<leftarrow> socketWrite rs st l;
          Some (e, out, sv, l) }"

end
