(* ===== verification/SockProofs.thy ===== *)
theory SockProofs
  imports SockServer
begin

text \<open>
  Properties of the connections: a frame is put together again however the network cuts it, a reply is
  sent completely, and the ways in which a connection goes wrong.
\<close>

section \<open>Reading\<close>

text \<open>A connection that has received the bytes \<open>pre\<close>.\<close>

definition filled :: "u8 list \<Rightarrow> fd_state \<Rightarrow> fd_state" where
  "filled pre st = st\<lparr>f_buffer := pre @ replicate (MAX_LINE - length pre) 0, f_used := length pre\<rparr>"

lemma filled_sel [simp]:
  "f_used (filled pre st) = length pre" "f_buffer (filled pre st) = pre @ replicate (MAX_LINE - length pre) 0"
  "f_fd (filled pre st) = f_fd st" "f_readFlag (filled pre st) = f_readFlag st"
  by (simp_all add: filled_def)

lemma filled_new: "filled [] (new_state fd) = new_state fd"
  by (simp add: filled_def new_state_def)

lemma read_loop_Got:
  assumes "bs \<noteq> []" "length pre + length bs \<le> MAX_LINE"
  shows "read_loop (Got bs # rs) (filled pre st) =
    do { ret \<leftarrow> isRecvOK ((pre @ bs) @ replicate (MAX_LINE - length (pre @ bs)) 0) (length (pre @ bs));
         if ret = -1 then Some Dropped
         else if ret = -2 then read_loop rs (filled (pre @ bs) st)
         else Some (Handed ((filled (pre @ bs) st)\<lparr>f_readFlag := 1\<rparr>)) }"
proof -
  have "0 < length bs" using assms(1) by simp
  then have z: "\<not> MAX_LINE \<le> length pre" using assms(2) by linarith
  have r: "take (MAX_LINE - length pre) bs = bs" "\<not> MAX_LINE - length pre < length bs"
    using assms(2) by simp_all
  have w: "mem_write (f_buffer (filled pre st)) (length pre) bs = Some ((pre @ bs) @ replicate (MAX_LINE - length (pre @ bs)) 0)"
    using assms(2) by (simp add: mem_write_in)
  have f: "filled pre st\<lparr>f_buffer := (pre @ bs) @ replicate (MAX_LINE - length (pre @ bs)) 0, f_used := length pre + length bs\<rparr> = filled (pre @ bs) st"
    by (simp add: filled_def)
  show ?thesis using assms(1) z r w f by (simp add: Let_def cong: if_cong)
qed

text \<open>The magic word has arrived: only the length decides.\<close>

lemma isRecvOK_prefix:
  assumes "length body < 2 ^ 31" "14 + length body \<le> MAX_LINE" "frame now req flag keep body = pre @ later" "3 \<le> length pre"
  shows "isRecvOK (pre @ replicate (MAX_LINE - length pre) 0) (length pre) = Some (if later = [] then 0 else -2)"
proof (cases "length pre < 14")
  case False
  have l: "14 + length body = length pre + length later" using arg_cong [OF assms(3), of length] by simp
  have "take 14 pre = sock_head_bytes (frame_head now req flag keep (length body))"
    using False head_of_frame(2) [of now req flag keep body] assms(3) by simp
  moreover have "length pre = 14 + length body \<longleftrightarrow> later = []" using l by auto
  moreover have "int (length pre) = 14 + int (length body) \<longleftrightarrow> length pre = 14 + length body" by linarith
  ultimately show ?thesis using False l assms(1,2) field_length_field [of "length body"]
    by (auto simp: isRecvOK_def mem_read_in sizeof_sock_head_def field_length_def Let_def)
next
  case True
  have l: "14 + length body = length pre + length later" using arg_cong [OF assms(3), of length] by simp
  then have m: "later \<noteq> []" using True by auto
  have "take 3 (take 14 (pre @ replicate (MAX_LINE - length pre) 0)) = take 3 (pre @ later)" using assms(4) by simp
  also have "\<dots> = magic" unfolding assms(3) [symmetric] by (simp add: frame_def sock_head_bytes_def frame_head_def)
  finally have "sk_magicWord (sock_head_of (take 14 (pre @ replicate (MAX_LINE - length pre) 0))) = magic"
    unfolding sock_head_of_def by (simp only: sock_head.select_convs)
  then show ?thesis using True m by (simp add: isRecvOK_def mem_read_in sizeof_sock_head_def MAX_LINE_def del: take_append)
qed

lemma read_loop_frame:
  assumes "14 + length body \<le> MAX_LINE" "frame now req flag keep body = pre @ concat cs @ later" "[] \<notin> set cs"
    "3 \<le> length pre \<or> (pre = [] \<and> (\<forall>c \<in> set (take 1 cs). 3 \<le> length c))"
  shows "read_loop (map Got cs @ rs) (filled pre st) =
    (if cs \<noteq> [] \<and> later = [] then Some (Handed ((filled (frame now req flag keep body) st)\<lparr>f_readFlag := 1\<rparr>))
     else read_loop rs (filled (pre @ concat cs) st))"
  using assms(2-4)
proof (induction cs arbitrary: pre)
  case (Cons c cs)
  have b: "length body < 2 ^ 31" using assms(1) by (simp add: MAX_LINE_def)
  have split: "frame now req flag keep body = (pre @ c) @ (concat cs @ later)" using Cons.prems(1) by simp
  have three: "3 \<le> length (pre @ c)" using Cons.prems(3) by auto
  have fits: "length pre + length c \<le> MAX_LINE" using arg_cong [OF split, of length] assms(1) by simp
  have c: "c \<noteq> []" using Cons.prems(2) by auto
  have empty: "concat cs @ later = [] \<longleftrightarrow> cs = [] \<and> later = []" using Cons.prems(2) by (cases cs) auto
  have k: "isRecvOK ((pre @ c) @ replicate (MAX_LINE - length (pre @ c)) 0) (length (pre @ c))
    = Some (if cs = [] \<and> later = [] then 0 else -2)"
    using isRecvOK_prefix [OF b assms(1) split three] unfolding empty .
  show ?case
  proof (cases "cs = [] \<and> later = []")
    case True
    then show ?thesis using read_loop_Got [OF c fits, of "map Got cs @ rs" st] k split by simp
  next
    case False
    have "read_loop (map Got (c # cs) @ rs) (filled pre st) = read_loop (map Got cs @ rs) (filled (pre @ c) st)"
      using read_loop_Got [OF c fits, of "map Got cs @ rs" st] k False by simp
    also have "\<dots> = (if cs \<noteq> [] \<and> later = [] then Some (Handed ((filled (frame now req flag keep body) st)\<lparr>f_readFlag := 1\<rparr>))
        else read_loop rs (filled ((pre @ c) @ concat cs) st))"
      by (rule Cons.IH) (use split Cons.prems(2) three in auto)
    finally show ?thesis using False by auto
  qed
qed simp

text \<open>The event is dealt with once the frame is complete.\<close>

definition after_frame :: "u8 \<Rightarrow> int \<Rightarrow> ('p, 't, 'f, 'c) aeEventLoop \<Rightarrow> ('p, 't, 'f, 'c) aeEventLoop option" where
  "after_frame keep fd l = (if keep = 0 then aeDeleteFileEvent l fd AE_READABLE else Some l)"

text \<open>The notifications of a connection, one after the other, until the request is handed on.\<close>

fun read_rounds ::
  "recv_res list list \<Rightarrow> fd_state \<Rightarrow> ('p, 't, 'f, 'c) aeEventLoop \<Rightarrow> (read_end \<times> ('p, 't, 'f, 'c) aeEventLoop) option"
where
  "read_rounds [] st l = Some (Waiting st, l)"
| "read_rounds (rs # rss) st l =
     do { (e, l) \<leftarrow> aeSocketRead rs st l;
          (case e of Waiting st \<Rightarrow> read_rounds rss st l | _ \<Rightarrow> Some (e, l)) }"

lemma read_rounds_frame:
  assumes "14 + length body \<le> MAX_LINE" "f_readFlag st = 0"
    "frame now req flag keep body = pre @ concat (concat css)" "concat (concat css) \<noteq> []" "[] \<notin> set (concat css)"
    "3 \<le> length pre \<or> (pre = [] \<and> (\<forall>c \<in> set (take 1 (concat css)). 3 \<le> length c))"
  shows "read_rounds (map (\<lambda>cs. map Got cs @ [Again]) css) (filled pre st) l =
    do { l \<leftarrow> after_frame keep (f_fd st) l;
         Some (Handed ((filled (frame now req flag keep body) st)\<lparr>f_readFlag := 1\<rparr>), l) }"
  using assms(3-6)
proof (induction css arbitrary: pre)
  case (Cons cs css)
  have split: "frame now req flag keep body = pre @ concat cs @ concat (concat css)" using Cons.prems(1) by simp
  have ne: "[] \<notin> set cs" "[] \<notin> set (concat css)" using Cons.prems(3) by auto
  have start: "3 \<le> length pre \<or> (pre = [] \<and> (\<forall>c \<in> set (take 1 cs). 3 \<le> length c))"
    using Cons.prems(4) by (cases cs) auto
  note r = read_loop_frame [OF assms(1) split ne(1) start, of "[Again]" st]
  show ?case
  proof (cases "cs \<noteq> [] \<and> concat (concat css) = []")
    case True
    then have "concat css = []" using ne(2) by (cases "concat css") auto
    then have "aeSocketRead (map Got cs @ [Again]) (filled pre st) l = do { l \<leftarrow> after_frame keep (f_fd st) l;
         Some (Handed ((filled (frame now req flag keep body) st)\<lparr>f_readFlag := 1\<rparr>), l) }"
      using r True assms(1,2)
      by (simp add: aeSocketRead_def after_frame_def mem_read_in sizeof_sock_head_def head_of_frame)
    then show ?thesis by (simp split: option.splits bind_splits)
  next
    case False
    have "read_loop (map Got cs @ [Again]) (filled pre st) = Some (Waiting (filled (pre @ concat cs) st))"
      using r unfolding if_not_P [OF False] by simp
    then have "aeSocketRead (map Got cs @ [Again]) (filled pre st) l = Some (Waiting (filled (pre @ concat cs) st), l)"
      using assms(2) by (simp add: aeSocketRead_def)
    moreover have "concat (concat css) \<noteq> []" using False Cons.prems(2) by auto
    moreover have "3 \<le> length (pre @ concat cs) \<or> (pre @ concat cs = [] \<and> (\<forall>c \<in> set (take 1 (concat css)). 3 \<le> length c))"
      using Cons.prems(4) by (cases cs) auto
    ultimately show ?thesis using Cons.IH [of "pre @ concat cs"] split ne(2) by simp
  qed
qed simp

text \<open>Bytes behind a complete frame: no number of further bytes makes the buffer a request.\<close>

lemma isRecvOK_surplus:
  assumes "length body < 2 ^ 31" "extra \<noteq> []"
  shows "isRecvOK (frame now req flag keep body @ extra @ pad) (length (frame now req flag keep body @ extra)) = Some (-2)"
  using isRecvOK_frame [OF assms(1), of now req flag keep "extra @ pad" "length (frame now req flag keep body @ extra)"] assms(2) by simp

lemma read_loop_surplus:
  assumes "extra \<noteq> []" "length (frame now req flag keep body @ extra) \<le> MAX_LINE"
  shows "read_loop rs (filled (frame now req flag keep body @ extra) st) = Some Dropped
    \<or> (\<exists>extra'. extra' \<noteq> [] \<and> length (frame now req flag keep body @ extra') \<le> MAX_LINE
        \<and> read_loop rs (filled (frame now req flag keep body @ extra) st) = Some (Waiting (filled (frame now req flag keep body @ extra') st)))"
  using assms
proof (induction rs arbitrary: extra)
  case (Cons r rs)
  let ?f = "frame now req flag keep body"
  have b: "length body < 2 ^ 31" using Cons.prems(2) by (simp add: MAX_LINE_def)
  show ?case
  proof (cases r)
    case (Got bs)
    let ?room = "MAX_LINE - length (?f @ extra)"
    consider "?room = 0 \<or> bs = []" | "?room \<noteq> 0" "bs \<noteq> []" "?room < length bs"
      | "?room \<noteq> 0" "bs \<noteq> []" "\<not> ?room < length bs" by blast
    then show ?thesis
    proof cases
      case 1
      then show ?thesis by (simp add: Got)
    next
      case 2
      let ?bs = "take ?room bs"
      have w: "mem_write ((?f @ extra) @ replicate ?room 0) (length (?f @ extra)) ?bs = Some (?f @ (extra @ ?bs))"
        using 2(3) by (simp add: mem_write_in)
      have u: "length (?f @ extra) + length ?bs = length (?f @ (extra @ ?bs))" by simp
      have full: "length (?f @ (extra @ ?bs)) = MAX_LINE" using 2 Cons.prems(2) by simp
      have "isRecvOK (?f @ (extra @ ?bs) @ []) (length (?f @ (extra @ ?bs))) = Some (-2)"
        by (rule isRecvOK_surplus [OF b]) (use Cons.prems(1) in simp)
      then have ok: "isRecvOK (?f @ (extra @ ?bs)) (length (?f @ (extra @ ?bs))) = Some (-2)" by (simp only: append_Nil2)
      have "read_loop (r # rs) (filled (?f @ extra) st) = Some Dropped"
        unfolding Got read_loop.simps filled_sel w u Let_def using 2 ok full
        by (simp del: append_assoc length_append length_frame)
      then show ?thesis by blast
    next
      case 3
      then have l: "length (?f @ extra) + length bs \<le> MAX_LINE" using Cons.prems(2) by simp
      have "isRecvOK ((?f @ extra @ bs) @ replicate (MAX_LINE - length (?f @ extra @ bs)) 0) (length (?f @ extra @ bs)) = Some (-2)"
        using isRecvOK_surplus [OF b, of "extra @ bs"] Cons.prems(1) by simp
      then have "read_loop (r # rs) (filled (?f @ extra) st) = read_loop rs (filled (?f @ extra @ bs) st)"
        using read_loop_Got [OF 3(2) l, of rs st] by (simp add: Got)
      then show ?thesis using Cons.IH [of "extra @ bs"] Cons.prems(1) l by auto
    qed
  qed (use Cons.prems in auto)
qed auto

lemma delete_defined:
  assumes "loop_ok l" "0 \<le> fd" "fd < FD_SETSIZE"
  obtains l' where "aeDeleteFileEvent l fd AE_READABLE = Some l'" "loop_ok l'" "regs l' = (regs l)(fd := regs l fd AND NOT AE_READABLE)"
proof (cases "fd < setsize l")
  case True
  show thesis using aeDeleteFileEvent_ok [OF assms True, of AE_READABLE] that by (auto simp: AE_READABLE_def)
next
  case False
  then have "regs l fd = 0" by (simp add: regs_def)
  then have "regs l = (regs l)(fd := regs l fd AND NOT AE_READABLE)" by (simp add: fun_eq_iff)
  then show thesis using that [OF _ assms(1)] aeDeleteFileEvent_full [of l fd AE_READABLE] False by simp
qed

lemma read_rounds_surplus:
  assumes "loop_ok l" "0 \<le> f_fd st" "f_fd st < FD_SETSIZE" "f_readFlag st = 0" "extra \<noteq> []"
    "length (frame now req flag keep body @ extra) \<le> MAX_LINE"
  shows "\<exists>e l'. read_rounds rss (filled (frame now req flag keep body @ extra) st) l = Some (e, l') \<and> (\<forall>st'. e \<noteq> Handed st')"
  using assms(5,6)
proof (induction rss arbitrary: extra)
  case (Cons rs rss)
  obtain l' where l': "aeDeleteFileEvent l (f_fd st) AE_READABLE = Some l'" using delete_defined [OF assms(1-3)] by blast
  from read_loop_surplus [OF Cons.prems, of rs st] consider
      "read_loop rs (filled (frame now req flag keep body @ extra) st) = Some Dropped"
    | extra' where "extra' \<noteq> []" "length (frame now req flag keep body @ extra') \<le> MAX_LINE"
        "read_loop rs (filled (frame now req flag keep body @ extra) st) = Some (Waiting (filled (frame now req flag keep body @ extra') st))"
    by blast
  then show ?case
  proof cases
    case 1
    then show ?thesis using l' assms(4) by (simp add: aeSocketRead_def)
  next
    case 2
    then show ?thesis using Cons.IH [OF 2(1,2)] assms(4) by (simp add: aeSocketRead_def)
  qed
qed auto

section \<open>Writing\<close>

text \<open>What \<open>send\<close> takes, it takes from the front; the connection ends or starts again.\<close>

definition sent_end :: "fd_state \<Rightarrow> write_end" where
  "sent_end st = (if sk_keepAlive (f_sh st) = 0 then Closed
     else Kept (st\<lparr>f_buffer := replicate MAX_LINE 0, f_used := 0, f_written := 0, f_upto := 0, f_readFlag := 0\<rparr>))"

lemma sent_end_upto [simp]: "sent_end (st\<lparr>f_upto := n\<rparr>) = sent_end st"
  by (simp add: sent_end_def)

lemma sum_list_positive: "\<forall>r \<in> set rs. 0 < r \<Longrightarrow> rs \<noteq> [] \<Longrightarrow> 0 < sum_list rs" for rs :: "int list"
proof (induction rs)
  case (Cons r rs)
  then show ?case by (cases "rs = []") auto
qed simp

lemma send_loop_all:
  assumes "\<forall>r \<in> set rs. 0 < r" "int (f_upto st) + sum_list rs = int (f_written st)" "f_written st \<le> length (f_buffer st)" "rs \<noteq> []"
  shows "send_loop rs st = Some (sent_end st, take (f_written st - f_upto st) (drop (f_upto st) (f_buffer st)))"
  using assms
proof (induction rs arbitrary: st)
  case (Cons r rs)
  have pos: "0 < r" "0 \<le> sum_list rs" using Cons.prems(1) by (auto intro!: sum_list_nonneg)
  have le: "f_upto st + nat r \<le> f_written st" "f_upto st \<le> f_written st" using Cons.prems(2) pos by auto
  let ?n = "f_written st - f_upto st"
  let ?dat = "take ?n (drop (f_upto st) (f_buffer st))"
  have d: "mem_read (f_buffer st) (f_upto st) ?n = Some ?dat" using Cons.prems(3) le by (simp add: mem_read_in)
  have len: "length ?dat = ?n" using Cons.prems(3) by simp
  have r: "r \<le> int ?n" "\<not> r \<le> 0" using le pos by auto
  show ?case
  proof (cases "rs = []")
    case True
    then have "f_upto st + nat r = f_written st" "nat r = ?n" using Cons.prems(2) pos by auto
    then show ?thesis using d len r le pos
      by (simp add: sent_end_def True Let_def del: mem_read_Some)
  next
    case False
    have "0 < sum_list rs" using Cons.prems(1) False by (intro sum_list_positive) auto
    then have ne: "f_upto st + nat r \<noteq> f_written st" using Cons.prems(2) pos by auto
    have "send_loop rs (st\<lparr>f_upto := f_upto st + nat r\<rparr>)
      = Some (sent_end st, take (?n - nat r) (drop (f_upto st + nat r) (f_buffer st)))"
      using Cons.IH [of "st\<lparr>f_upto := f_upto st + nat r\<rparr>"] Cons.prems False pos by simp
    moreover have "take (nat r) ?dat @ take (?n - nat r) (drop (f_upto st + nat r) (f_buffer st)) = ?dat"
    proof -
      have k: "nat r \<le> ?n" using r by simp
      then have t: "take (nat r) ?dat = take (nat r) (drop (f_upto st) (f_buffer st))" by (simp add: min_absorb1)
      have e: "nat r + (?n - nat r) = ?n" using k by linarith
      have "take (nat r) ?dat @ take (?n - nat r) (drop (nat r) (drop (f_upto st) (f_buffer st))) = ?dat"
        unfolding t by (rule take_add [of "nat r" "?n - nat r" "drop (f_upto st) (f_buffer st)", unfolded e, symmetric])
      then show ?thesis by (simp add: add.commute)
    qed
    ultimately show ?thesis using d len r le ne by (simp add: Let_def del: mem_read_Some)
  qed
qed simp

section \<open>Properties\<close>

text \<open>A connection that waits for a request: new, or kept after a reply.\<close>

definition idle :: "fd_state \<Rightarrow> bool" where
  "idle st \<longleftrightarrow> f_buffer st = replicate MAX_LINE 0 \<and> f_used st = 0 \<and> f_written st = 0 \<and> f_upto st = 0 \<and> f_readFlag st = 0"

lemma idle_filled: "idle st \<Longrightarrow> filled [] st = st"
  by (simp add: idle_def filled_def)

lemma idle_new: "idle (new_state fd)"
  by (simp add: idle_def new_state_def)

text \<open>However the network cuts a frame, the worker gets exactly the frame.\<close>

lemma read_frame:
  assumes "14 + length body \<le> MAX_LINE" "concat (concat css) = frame now req flag keep body"
    "[] \<notin> set (concat css)" "3 \<le> length (hd (concat css))" "idle st"
  shows "read_rounds (map (\<lambda>cs. map Got cs @ [Again]) css) st l =
    do { l \<leftarrow> (if keep = 0 then aeDeleteFileEvent l (f_fd st) AE_READABLE else Some l);
         Some (Handed (st\<lparr>f_buffer := frame now req flag keep body @ replicate (MAX_LINE - (14 + length body)) 0,
                          f_used := 14 + length body, f_readFlag := 1\<rparr>), l) }"
proof -
  have ne: "concat (concat css) \<noteq> []" using assms(2) by (simp add: frame_def sock_head_bytes_def)
  then have "\<forall>c \<in> set (take 1 (concat css)). 3 \<le> length c" using assms(4) by (cases "concat css") auto
  moreover have "f_readFlag st = 0" using assms(5) by (simp add: idle_def)
  ultimately have "read_rounds (map (\<lambda>cs. map Got cs @ [Again]) css) (filled [] st) l =
    do { l \<leftarrow> after_frame keep (f_fd st) l;
         Some (Handed ((filled (frame now req flag keep body) st)\<lparr>f_readFlag := 1\<rparr>), l) }"
    using read_rounds_frame [of body st now req flag keep "[]" css l] assms(1-3) ne by simp
  then show ?thesis unfolding idle_filled [OF assms(5)] by (simp add: after_frame_def filled_def)
qed

text \<open>However many bytes each \<open>send\<close> takes, the bytes on the wire are the reply, in order and once.\<close>

lemma send_all:
  assumes "\<forall>r \<in> set rs. 0 < r" "sum_list rs = int (f_written st)" "0 < f_written st" "f_written st \<le> length (f_buffer st)" "f_upto st = 0"
  shows "socketWrite rs st l =
      Some (if sk_keepAlive (f_sh st) = 0 then Closed else Kept (new_state (f_fd st)\<lparr>f_sh := f_sh st, f_errcode := f_errcode st, f_sql := f_sql st\<rparr>),
            take (f_written st) (f_buffer st), l)"
proof -
  have "rs \<noteq> []" using assms(2,3) by auto
  then have "send_loop rs st = Some (sent_end st, take (f_written st) (f_buffer st))"
    using send_loop_all [OF assms(1), of st] assms by simp
  then show ?thesis by (cases st) (simp add: socketWrite_def sent_end_def new_state_def)
qed

text \<open>
  C10: A request is put together again. However the network cuts a frame that fits in the buffer into
  pieces, and over however many notifications they are spread, the worker gets exactly the frame, once,
  if its first piece has the three bytes of the magic word; the descriptor is no longer watched
  afterwards if and only if the request is the last of its connection.
\<close>

theorem frame_reassembled:
  assumes "14 + length body \<le> MAX_LINE" "concat (concat css) = frame now req flag keep body"
    "[] \<notin> set (concat css)" "3 \<le> length (hd (concat css))" "idle st"
  shows "read_rounds (map (\<lambda>cs. map Got cs @ [Again]) css) st l =
    do { l \<leftarrow> (if keep = 0 then aeDeleteFileEvent l (f_fd st) AE_READABLE else Some l);
         Some (Handed (st\<lparr>f_buffer := frame now req flag keep body @ replicate (MAX_LINE - (14 + length body)) 0,
                          f_used := 14 + length body, f_readFlag := 1\<rparr>), l) }"
  using assms by (rule read_frame)

definition demo_reader :: "(nat, nat, nat, nat) aeEventLoop" where
  "demo_reader = fst (the (aeCreateFileEvent (aeCreateEventLoop 3000 0) 5 AE_READABLE 0 (Some 0)))"

lemma demo_reader:
  "loop_ok demo_reader" "aeCreateFileEvent (aeCreateEventLoop 3000 0) 5 AE_READABLE 0 (Some 0) = Some (demo_reader, AE_OK)"
  "regs demo_reader 5 = AE_READABLE"
proof -
  define l0 :: "(nat, nat, nat, nat) aeEventLoop" where "l0 = aeCreateEventLoop 3000 0"
  have l0: "loop_ok l0" "regs l0 = (\<lambda>fd. 0)" "setsize l0 = 3000"
    using aeCreateEventLoop_ok [of 3000 0] by (simp_all add: l0_def) (simp add: aeCreateEventLoop_def)
  then obtain l where l: "aeCreateFileEvent l0 5 AE_READABLE 0 (Some 0) = Some (l, AE_OK)" "loop_ok l"
    "regs l = (regs l0)(5 := regs l0 5 OR AE_READABLE)"
    using aeCreateFileEvent_ok [of l0 5 AE_READABLE 0 "Some 0"] by (auto simp: FD_SETSIZE_def AE_READABLE_def)
  then have "demo_reader = l" by (simp add: demo_reader_def l0_def)
  then show "loop_ok demo_reader" "aeCreateFileEvent (aeCreateEventLoop 3000 0) 5 AE_READABLE 0 (Some 0) = Some (demo_reader, AE_OK)"
    "regs demo_reader 5 = AE_READABLE" using l l0(2) by (simp_all add: l0_def)
qed

lemma frame_reassembled_witness:
  "read_rounds [[Got [0x73, 0x6F, 0x73, 1], Got [1, 0], Again], [Again], [Got [0, 0, 0, 1, 0, 0, 0, 2, 7], Again], [Got [8], Again]]
      (new_state 5) demo_reader =
    Some (Handed (new_state 5\<lparr>f_buffer := frame 1 1 0 1 [7, 8] @ replicate 1008 0, f_used := 16, f_readFlag := 1\<rparr>), demo_reader)"
proof -
  have "frame 1 1 0 1 [7, 8] = [0x73, 0x6F, 0x73, 1, 1, 0, 0, 0, 0, 1, 0, 0, 0, 2, 7, 8]" by code_simp
  then show ?thesis
    using frame_reassembled [of "[7, 8]" "[[[0x73, 0x6F, 0x73, 1], [1, 0]], [], [[0, 0, 0, 1, 0, 0, 0, 2, 7]], [[8]]]" 1 1 0 1 "new_state 5" demo_reader]
    by (simp add: idle_new MAX_LINE_def)
qed

text \<open>
  C32: Requests that are never handled. A connection whose first bytes arrive one or two at a time is
  dropped, whatever they are; and once a byte follows a complete frame in the buffer, nothing that
  arrives makes a request of it any more.
\<close>

theorem arrivals_lost:
  assumes "idle st" "loop_ok l" "0 \<le> f_fd st" "f_fd st < FD_SETSIZE"
  shows "(c \<noteq> [] \<and> length c < 3 \<longrightarrow> (\<exists>l'. aeSocketRead (Got c # rs) st l = Some (Dropped, l') \<and> regs l' (f_fd st) AND AE_READABLE = 0))
    \<and> (extra \<noteq> [] \<and> 14 + length body + length extra \<le> MAX_LINE \<longrightarrow>
        (\<exists>e l'. read_rounds ([Got (frame now req flag keep body @ extra)] # rss) st l = Some (e, l') \<and> (\<forall>st'. e \<noteq> Handed st')))"
proof (intro conjI impI)
  assume c: "c \<noteq> [] \<and> length c < 3"
  obtain l' where l': "aeDeleteFileEvent l (f_fd st) AE_READABLE = Some l'" "regs l' = (regs l)(f_fd st := regs l (f_fd st) AND NOT AE_READABLE)"
    using delete_defined [OF assms(2-4)] by blast
  have "2 - length c < 1024 - length c" using c by (cases c) (auto simp: less_Suc_eq)
  then have "(take 3 (take 14 (c @ replicate (MAX_LINE - length c) 0))) ! 2 \<noteq> magic ! 2"
    using c by (simp add: magic_def MAX_LINE_def nth_append del: take_append)
  then have "sk_magicWord (sock_head_of (take 14 (c @ replicate (MAX_LINE - length c) 0))) \<noteq> magic"
    unfolding sock_head_of_def sock_head.select_convs by metis
  then have "isRecvOK (c @ replicate (MAX_LINE - length c) 0) (length c) = Some (-1)"
    using c by (simp add: isRecvOK_def mem_read_in sizeof_sock_head_def MAX_LINE_def del: take_append)
  then have "read_loop (Got c # rs) (filled [] st) = Some Dropped"
    using read_loop_Got [of c "[]" rs st] c by (simp add: MAX_LINE_def)
  then have "aeSocketRead (Got c # rs) st l = Some (Dropped, l')"
    using l'(1) assms(1) by (simp add: aeSocketRead_def idle_filled idle_def del: read_loop.simps)
  moreover have "(regs l (f_fd st) AND NOT AE_READABLE) AND AE_READABLE = 0" by (simp add: and.assoc)
  ultimately show "\<exists>l'. aeSocketRead (Got c # rs) st l = Some (Dropped, l') \<and> regs l' (f_fd st) AND AE_READABLE = 0"
    using l'(2) by simp
next
  assume e: "extra \<noteq> [] \<and> 14 + length body + length extra \<le> MAX_LINE"
  let ?f = "frame now req flag keep body"
  have rf: "f_readFlag st = 0" using assms(1) by (simp add: idle_def)
  have "length body < 2 ^ 31" using e by (simp add: MAX_LINE_def)
  from isRecvOK_surplus [OF this, of extra now req flag keep "replicate (MAX_LINE - length (?f @ extra)) 0"] e
  have "read_loop (Got (?f @ extra) # []) (filled [] st) = Some (Waiting (filled (?f @ extra) st))"
    using read_loop_Got [of "?f @ extra" "[]" "[]" st] by simp
  then have "aeSocketRead [Got (?f @ extra)] st l = Some (Waiting (filled (?f @ extra) st), l)"
    using assms(1) rf by (simp add: aeSocketRead_def idle_filled del: read_loop.simps)
  then show "\<exists>e l'. read_rounds ([Got (?f @ extra)] # rss) st l = Some (e, l') \<and> (\<forall>st'. e \<noteq> Handed st')"
    using read_rounds_surplus [OF assms(2-4) rf, of extra now req flag keep body rss] e by simp
qed

lemma arrivals_lost_witness:
  "(\<exists>l'. aeSocketRead [Got [0x73, 0x6F]] (new_state 5) demo_reader = Some (Dropped, l') \<and> regs l' 5 AND AE_READABLE = 0)
   \<and> (\<exists>e l'. read_rounds ([Got (frame 1 1 0 1 [7] @ frame 1 1 0 1 [8])] # [[Again], [Got [1]]]) (new_state 5) demo_reader = Some (e, l')
          \<and> (\<forall>st'. e \<noteq> Handed st'))"
proof -
  have "f_fd (new_state 5) = 5" "frame 1 1 0 1 [8] \<noteq> []" by (simp_all add: new_state_def frame_def)
  then show ?thesis
    using arrivals_lost [OF idle_new demo_reader(1), of 5 "[0x73, 0x6F]" "[]" "frame 1 1 0 1 [8]" "[7]" 1 1 0 1 "[[Again], [Got [1]]]"]
    by (simp add: FD_SETSIZE_def MAX_LINE_def del: read_rounds.simps)
qed

end
