(* ===== verification/ServiceProofs.thy ===== *)
theory ServiceProofs
  imports Service
begin

text \<open>
  What the handlers do to the caches and the replies they give. A handler's effect is stated on the
  views of the caches, through the contract of \<open>Cache\<close>.
\<close>

section \<open>Replies\<close>

lemma quoted_length: "length (quoted s) \<le> 6 * length s + 2"
proof -
  have "escaped_len c \<le> 6" for c by (simp add: escaped_len_def)
  then have "sum_list (map escaped_len s) \<le> 6 * length s"
    by (induction s) (auto simp: add_mono)
  moreover have "length (concat (map escape s)) = sum_list (map escaped_len s)"
    by (induction s) (auto simp: escape_length)
  ultimately show ?thesis by (simp add: quoted_def)
qed

text \<open>The text of a two-member document fits into the reply buffer.\<close>

lemma makeErrorJson_fits:
  assumes "fp_ok F" "in_int c" "length m \<le> 100"
  shows "\<exists>t. makeErrorJson F c m = Some t \<and> length t < MAX_LINE"
proof -
  let ?es = "[(quoted ''errcode'', show_int c), (quoted ''errmsg'', quoted m)]"
  have n: "print_value F d b (Item cJSON_Number None c (fp_of_int F c) nm []) = Some (show_int c)" for d b nm
    using print_number_int [OF assms(1,2), of cJSON_Number None nm "[]"] by simp
  have to: "fp_to_int F (fp_of_int F c) = c" using assms by (simp add: fp_ok_def)
  have "makeErrorJson F c m = cJSON_Print F (obj_of F
      [(''errcode'', cJSON_CreateNumber F (fp_of_int F c)), (''errmsg'', cJSON_CreateString F m)])"
    by (simp add: makeErrorJson_def obj_of_empty)
  also have "\<dots> = print_object 0 True ?es"
    using n by (simp add: cJSON_Print_def obj_of_def set_string_def
        cJSON_CreateNumber_def cJSON_CreateString_def print_string_ptr_quoted to)
  also have "\<dots> = Some (CHR ''{'' # nl True @ join_members 1 True ?es @ tabs 0 @ ''}'')"
    by (simp add: print_object_text)
  finally have t: "makeErrorJson F c m = Some (CHR ''{'' # nl True @ join_members 1 True ?es @ tabs 0 @ ''}'')" .
  have "length (CHR ''{'' # nl True @ join_members 1 True ?es @ tabs 0 @ ''}'')
      \<le> 20 + length (quoted ''errcode'') + length (quoted ''errmsg'') + length (show_int c) + length (quoted m)"
    by (simp add: nl_def tabs_def)
  moreover have "length (quoted ''errcode'') \<le> 44" "length (quoted ''errmsg'') \<le> 38"
    using quoted_length [of "''errcode''"] quoted_length [of "''errmsg''"] by simp_all
  moreover have "length (show_int c) \<le> 11" by (rule show_int_length [OF assms(2)])
  moreover have "length (quoted m) \<le> 602" using quoted_length [of m] assms(3) by simp
  ultimately show ?thesis using t by (simp add: MAX_LINE_def)
qed

lemma gerErrMsg_length: "length (gerErrMsg c) \<le> 100"
proof -
  have "length (snd x) \<le> 100" if "x \<in> set errlist" for x
    using that by (auto simp: errlist_def)
  then show ?thesis
    using find_SomeD [of "\<lambda>x. fst x = c" errlist]
    by (auto simp: gerErrMsg_def INTERNAL_ERROR_def UNKNOWN_ERR_CODE_def split: option.splits)
qed

text \<open>The document with a code and its message, and the one that says ok.\<close>

definition reply_text :: "('d, 'w) env \<Rightarrow> int \<Rightarrow> string" where
  "reply_text e c = the (err_reply e c)"

definition ok_text :: "('d, 'w) env \<Rightarrow> string" where
  "ok_text e = the (ok_reply e)"

lemma err_reply_text:
  assumes "fp_ok (e_fp e)" "in_int c"
  shows "err_reply e c = Some (reply_text e c)" "length (reply_text e c) < MAX_LINE"
  using makeErrorJson_fits [OF assms gerErrMsg_length [of c]] by (auto simp: err_reply_def reply_text_def)

lemma ok_reply_text:
  assumes "fp_ok (e_fp e)"
  shows "ok_reply e = Some (ok_text e)" "length (ok_text e) < MAX_LINE"
  using makeErrorJson_fits [OF assms, of 0 "''ok''"] by (auto simp: ok_reply_def ok_text_def in_int_iff)

lemma finish_err [simp]:
  "fp_ok (e_fp e) \<Longrightarrow> in_int c \<Longrightarrow> finish (err_reply e c) s = Some (reply_text e c, s)"
  by (simp add: finish_def err_reply_text)

lemma finish_ok [simp]: "fp_ok (e_fp e) \<Longrightarrow> finish (ok_reply e) s = Some (ok_text e, s)"
  by (simp add: finish_def ok_reply_text)

lemma finish_state: "finish r s = Some (t, s') \<Longrightarrow> s' = s"
  by (auto simp: finish_def bind_eq_Some_conv)

section \<open>Cache calls on the state\<close>

definition sys_ok :: "'w sys \<Rightarrow> bool" where
  "sys_ok s \<longleftrightarrow> caches_ok (s_caches s)"

definition has_room :: "nat \<Rightarrow> 'w sys \<Rightarrow> bool" where
  "has_room n s \<longleftrightarrow> (\<forall>w. entries_in (s_caches s) w + n < 2 ^ 30)"

definition sview :: "'w sys \<Rightarrow> slot \<Rightarrow> string \<Rightarrow> obj option" where
  "sview s = view (s_caches s)"

text \<open>The rest of the state: the database and the configuration.\<close>

definition same_rest :: "'w sys \<Rightarrow> 'w sys \<Rightarrow> bool" where
  "same_rest s s' \<longleftrightarrow> s_world s' = s_world s \<and> s_tokenFreshTime s' = s_tokenFreshTime s"

lemma sys_simps [simp]:
  "sys_ok (s\<lparr>s_world := w\<rparr>) = sys_ok s" "sview (s\<lparr>s_world := w\<rparr>) = sview s"
  "has_room n (s\<lparr>s_world := w\<rparr>) = has_room n s"
  by (simp_all add: sys_ok_def sview_def has_room_def)

lemma has_room_le: "has_room n s \<Longrightarrow> (\<forall>v. entries_in (s_caches s') v \<le> entries_in (s_caches s) v) \<Longrightarrow> has_room n s'"
  unfolding has_room_def by (meson add_le_mono1 le_less_trans)

lemma has_room_Suc:
  "has_room (Suc n) s \<Longrightarrow> (\<forall>v. entries_in (s_caches s') v \<le> Suc (entries_in (s_caches s) v)) \<Longrightarrow> has_room n s'"
  unfolding has_room_def by (metis add_Suc_right add_Suc add_le_mono1 le_less_trans)

lemma query_ok:
  assumes "sys_ok s" "selectCache c = Inr w"
  obtains s' where "query c k s = Some (sview s w k, s')" "sys_ok s'" "sview s' = sview s"
    "same_rest s s'" "\<And>n. has_room n s \<Longrightarrow> has_room n s'"
proof -
  obtain cs where cs: "cacheQuery c (s_caches s) k = Some (cs, view (s_caches s) w k)" "caches_ok cs"
    "view cs = view (s_caches s)" "\<forall>v. entries_in cs v \<le> entries_in (s_caches s) v"
    using cacheQuery_ok [OF assms(1) [unfolded sys_ok_def] assms(2)] by blast
  have "has_room n s \<Longrightarrow> has_room n (s\<lparr>s_caches := cs\<rparr>)" for n
    by (rule has_room_le [of _ s]) (simp_all add: cs(4))
  then show thesis
    using cs by (intro that [of "s\<lparr>s_caches := cs\<rparr>"]) (simp_all add: query_def sview_def sys_ok_def same_rest_def)
qed

lemma insert_obj_ok:
  assumes "sys_ok s" "selectCache c = Inr w" "has_room (Suc n) s"
  obtains s' where "insert_obj e c k x s = Some s'" "sys_ok s'"
    "sview s' = (if sview s w k = None then (sview s)(w := (sview s w)(k \<mapsto> x)) else sview s)"
    "same_rest s s'" "has_room n s'"
proof -
  have room: "entries_in (s_caches s) w < 2 ^ 30" using assms(3) unfolding has_room_def by (metis add_lessD1)
  obtain cs r where cs: "cacheInsert (e_cr e) (e_junk e) c (s_caches s) k x = Some (cs, r)" "caches_ok cs"
    "view cs = (if view (s_caches s) w k = None
       then (view (s_caches s))(w := (view (s_caches s) w)(k \<mapsto> x)) else view (s_caches s))"
    "\<forall>v. entries_in cs v \<le> Suc (entries_in (s_caches s) v)"
    using cacheInsert_ok [OF assms(1) [unfolded sys_ok_def] assms(2) room] by blast
  have "has_room n (s\<lparr>s_caches := cs\<rparr>)"
    by (rule has_room_Suc [OF assms(3)]) (simp add: cs(4))
  then show thesis
    using cs by (intro that [of "s\<lparr>s_caches := cs\<rparr>"])
      (simp_all add: insert_obj_def sview_def sys_ok_def same_rest_def)
qed

lemma delete_obj_ok:
  assumes "sys_ok s" "selectCache c = Inr w"
  obtains s' where "delete_obj c k s = Some s'" "sys_ok s'" "sview s' = (sview s)(w := (sview s w)(k := None))"
    "same_rest s s'" "\<And>n. has_room n s \<Longrightarrow> has_room n s'"
proof -
  obtain cs r where cs: "cacheDelete c (s_caches s) k = Some (cs, r)" "caches_ok cs"
    "view cs = (view (s_caches s))(w := (view (s_caches s) w)(k := None))"
    "\<forall>v. entries_in cs v \<le> entries_in (s_caches s) v"
    using cacheDelete_ok [OF assms(1) [unfolded sys_ok_def] assms(2)] by blast
  have "has_room n s \<Longrightarrow> has_room n (s\<lparr>s_caches := cs\<rparr>)" for n
    by (rule has_room_le [of _ s]) (simp_all add: cs(4))
  then show thesis
    using cs by (intro that [of "s\<lparr>s_caches := cs\<rparr>"])
      (simp_all add: delete_obj_def sview_def sys_ok_def same_rest_def)
qed

text \<open>Writing through a pointer into the token cache.\<close>

lemma dict_poke_ok:
  assumes inv: "dict_inv d" and k: "dict_map d k \<noteq> None"
  shows "dict_inv (dict_poke d k x) \<and> dict_map (dict_poke d k x) = (dict_map d)(k \<mapsto> x)"
proof -
  have ok: "dict_ok d" using inv by (simp add: dict_inv_def)
  have "k \<in> set (map e_key (entries d))" using keys_dom [OF ok] k by auto
  then obtain e where e: "find (\<lambda>e. e_key e = k) (entries d) = Some e"
    by (cases "find (\<lambda>e. e_key e = k) (entries d)") (auto simp: find_NoneD)
  then have "e \<in> set (entries d)" "e_key e = k" using find_SomeD [OF e] by auto
  then show ?thesis
    using dict_inv_set_val [OF inv] dict_map_set_val [OF inv] e by (simp add: dict_poke_def)
qed

lemma poke_token_ok:
  assumes "sys_ok s" "sview s Token k \<noteq> None"
  shows "sys_ok (poke_token k x s)" "sview (poke_token k x s) = (sview s)(Token := (sview s Token)(k \<mapsto> x))"
    "same_rest s (poke_token k x s)"
proof -
  let ?d = "tokenCache (s_caches s)"
  have inv: "dict_inv (get_cache w (s_caches s))" for w using assms(1) by (simp add: sys_ok_def caches_ok_def)
  have p: "dict_inv (dict_poke ?d (bytes k) x)" "dict_map (dict_poke ?d (bytes k) x) = (dict_map ?d)(bytes k \<mapsto> x)"
    using dict_poke_ok [of ?d "bytes k" x] inv [of Token] assms(2) by (auto simp: sview_def view_def)
  have "dict_inv (get_cache w (s_caches (poke_token k x s)))" for w
    using p(1) inv [of w] by (cases w) (simp_all add: poke_token_def)
  then show "sys_ok (poke_token k x s)" by (simp add: sys_ok_def caches_ok_def)
  have "sview (poke_token k x s) w j = ((sview s)(Token := (sview s Token)(k \<mapsto> x))) w j" for w j
    using p(2) by (cases w) (simp_all add: poke_token_def sview_def view_def)
  then show "sview (poke_token k x s) = (sview s)(Token := (sview s Token)(k \<mapsto> x))" by (simp add: fun_eq_iff)
  show "same_rest s (poke_token k x s)" by (simp add: poke_token_def same_rest_def)
qed

section \<open>The token check\<close>

text \<open>What \<open>check_token\<close> answers on the views.\<close>

definition expired :: "('d, 'w) env \<Rightarrow> 'w sys \<Rightarrow> user \<Rightarrow> bool" where
  "expired e s u \<longleftrightarrow> token_until (s_tokenFreshTime s) u < e_time e 0"

lemma check_token_cases:
  assumes ok: "sys_ok s"
  shows "case sview s Token token of
      None \<Rightarrow> \<exists>s'. check_token e token s = Some (Inl ERR_NOT_LOGIN_YET, s') \<and> sys_ok s'
        \<and> sview s' = sview s \<and> same_rest s s' \<and> (\<forall>n. has_room n s \<longrightarrow> has_room n s')
    | Some (OUser u) \<Rightarrow>
        if expired e s u
        then \<exists>s'. check_token e token s = Some (Inl ERR_TOKEN_OUT_OF_DATE, s') \<and> sys_ok s'
          \<and> sview s' = (sview s)(Token := (sview s Token)(token := None)) \<and> same_rest s s'
          \<and> (\<forall>n. has_room n s \<longrightarrow> has_room n s')
        else \<exists>s'. check_token e token s = Some (Inr u, s') \<and> sys_ok s'
          \<and> sview s' = sview s \<and> same_rest s s' \<and> (\<forall>n. has_room n s \<longrightarrow> has_room n s')
    | Some _ \<Rightarrow> check_token e token s = None"
proof -
  obtain s1 where s1: "query CACHE_TOKEN token s = Some (sview s Token token, s1)" "sys_ok s1"
    "sview s1 = sview s" "same_rest s s1" "\<And>n. has_room n s \<Longrightarrow> has_room n s1"
    using query_ok [OF ok selectCache_simps(1)] by blast
  obtain s2 where s2: "delete_obj CACHE_TOKEN token s1 = Some s2" "sys_ok s2"
    "sview s2 = (sview s1)(Token := (sview s1 Token)(token := None))" "same_rest s1 s2"
    "\<And>n. has_room n s1 \<Longrightarrow> has_room n s2"
    using delete_obj_ok [OF s1(2) selectCache_simps(1)] by blast
  have rest: "same_rest s s2" "s_tokenFreshTime s1 = s_tokenFreshTime s"
    using s1(4) s2(4) by (auto simp: same_rest_def)
  show ?thesis
  proof (cases "sview s Token token")
    case None
    then show ?thesis using s1 by (simp add: check_token_def)
  next
    case (Some x)
    show ?thesis
    proof (cases x)
      case (OUser u)
      then show ?thesis
        using Some s1 s2 rest by (auto simp: check_token_def expired_def)
    qed (use Some s1 in \<open>simp_all add: check_token_def\<close>)
  qed
qed

end
