(* ===== verification/ServiceProps.thy ===== *)
theory ServiceProps
  imports ServiceProofs
begin

text \<open>
  The properties of the handlers, alone and one after the other: who may delete, what a code is good
  for, how long a session lasts, and the sequences of requests that go wrong.
\<close>

section \<open>Lemmas on the handlers\<close>

lemma sint_in_int: "in_int (sint (x :: u32))"
  using sint_ge [of x] sint_less [of x] by (simp add: in_int_iff)

lemma in_int_minus_1: "in_int (- 1)"
  by (simp add: in_int_iff)

lemma exec_db_in_int: "exec_db db sql w = (r, w') \<Longrightarrow> in_int r"
  by (auto simp: exec_db_def sint_in_int in_int_minus_1 split: prod.splits if_splits)

lemma UserModify_in_int:
  assumes "UserModify db u w = Some (r, w')"
  shows "in_int r"
proof -
  obtain sql ret where "exec_db db sql w = (ret, w')" "r = (if ret < 0 then ERR_USER_MODIFY_FAIL else ret)"
    using assms by (auto simp: UserModify_def bind_eq_Some_conv split: prod.splits) (metis prod.collapse)
  moreover have "in_int ERR_USER_MODIFY_FAIL" by (simp add: in_int_iff)
  ultimately show ?thesis using exec_db_in_int [of db sql w ret w'] by simp
qed

lemmas comm_slot = selectCache_simps(3)
lemmas token_slot = selectCache_simps(1)

text \<open>The path of a handler whose token is good.\<close>

lemma check_token_good:
  assumes "sys_ok s" "sview s Token token = Some (OUser u)" "\<not> expired e s u"
  obtains s' where "check_token e token s = Some (Inr u, s')" "sys_ok s'" "sview s' = sview s" "same_rest s s'"
    "\<And>n. has_room n s \<Longrightarrow> has_room n s'"
  using check_token_cases [OF assms(1), where token = token and e = e] assms(2,3) by auto

text \<open>A defined check tells what the cache held.\<close>

lemma check_token_inv:
  assumes "sys_ok s" "check_token e token s = Some (r, s')"
  shows "sys_ok s'" "same_rest s s'"
    "case r of Inr u \<Rightarrow> sview s Token token = Some (OUser u) \<and> \<not> expired e s u \<and> sview s' = sview s
       | Inl c \<Rightarrow> sview s' Token token = None"
proof -
  have "sys_ok s' \<and> same_rest s s' \<and> (case r of Inr u \<Rightarrow> sview s Token token = Some (OUser u) \<and> \<not> expired e s u
      \<and> sview s' = sview s | Inl c \<Rightarrow> sview s' Token token = None)"
  proof (cases "sview s Token token")
    case None
    then show ?thesis using check_token_cases [OF assms(1), where token = token and e = e] assms(2) by auto
  next
    case (Some x)
    show ?thesis
    proof (cases x)
      case (OUser u)
      then show ?thesis using check_token_cases [OF assms(1), where token = token and e = e] assms(2) Some
        by (cases "expired e s u") auto
    qed (use check_token_cases [OF assms(1), where token = token and e = e] assms(2) Some in auto)
  qed
  then show "sys_ok s'" "same_rest s s'"
    "case r of Inr u \<Rightarrow> sview s Token token = Some (OUser u) \<and> \<not> expired e s u \<and> sview s' = sview s
       | Inl c \<Rightarrow> sview s' Token token = None"
    by blast+
qed

section \<open>A concrete service\<close>

text \<open>
  The concrete inputs of the witnesses: a database whose state counts the statements, which accepts
  each of them and answers every query with one row.
\<close>

definition demo_db :: "nat mysql" where
  "demo_db = \<lparr>mysql_query = (\<lambda>sql w. (0, Suc w)), mysql_affected_rows = (\<lambda>w. 1),
     mysql_store_result = (\<lambda>w. Some [Some ''1'' # replicate 20 (Some ''a'')])\<rparr>"

definition demo_env :: "(int, nat) env" where
  "demo_env = \<lparr>e_fp = int_fp, e_db = demo_db, e_time = (\<lambda>i. 100), e_uuid = replicate 16 0, e_cr = True,
     e_junk = OUser user0\<rparr>"

lemma demo_env_simps [simp]:
  "e_fp demo_env = int_fp" "e_db demo_env = demo_db" "e_time demo_env i = 100" "fp_ok (e_fp demo_env)"
  by (simp_all add: demo_env_def int_fp_ok)

lemmas [simp] = int_fp_ok

lemma demo_db_simps [simp]:
  "exec_db demo_db sql w = (1, Suc w)"
  "query_db demo_db sql w = (Some [Some ''1'' # replicate 20 (Some ''a'')], Suc w)"
  by (simp_all add: exec_db_def query_db_def demo_db_def)

text \<open>A state with one object in one cache.\<close>

definition start_sys :: "nat sys" where
  "start_sys = \<lparr>s_caches = createCache (replicate 16 0), s_world = 0, s_tokenFreshTime = 1\<rparr>"

lemma start_sys_rest: "s_world start_sys = 0" "s_tokenFreshTime start_sys = 1"
  by (simp_all add: start_sys_def)

lemma start_sys_ok: "sys_ok start_sys" "sview start_sys = (\<lambda>w k. None)" "has_room 100 start_sys"
  by (simp_all add: start_sys_def sys_ok_def sview_def has_room_def fun_eq_iff)

lemma state_with:
  assumes "selectCache c = Inr w"
  obtains s :: "nat sys" where "sys_ok s" "sview s = (\<lambda>w k. None)(w := [k \<mapsto> x])" "has_room 99 s"
    "s_world s = 0" "s_tokenFreshTime s = 1"
proof -
  have room: "has_room (Suc 99) start_sys" using start_sys_ok(3) by simp
  obtain s where "sys_ok s" "same_rest start_sys s" "has_room 99 s"
    "sview s = (if sview start_sys w k = None then (sview start_sys)(w := (sview start_sys w)(k \<mapsto> x)) else sview start_sys)"
    using insert_obj_ok [OF start_sys_ok(1) assms room, of demo_env k x] by blast
  then show thesis
    using start_sys_ok(2) that [of s] by (auto simp: same_rest_def start_sys_rest)
qed

text \<open>A request that carries the fields of an object.\<close>

lemma request_of:
  assumes "fp_ok F" "user_ok u"
  obtains t where "UserParseJson F t user0 = Some (u\<lparr>u_tokenFreshTimeStamp := 0, u_cmd := []\<rparr>)"
proof -
  obtain t where "cJSON_Parse F t = Some (Some (obj_of F (user_members F None u)))"
    using print_obj_of [OF assms(1) user_members_ok [OF assms(2)]] by blast
  then show thesis using user_json_fields [OF assms] that by blast
qed

definition admin :: user where
  "admin = user0\<lparr>u_id := 1, u_account := ''root'', u_accType := ''a'', u_token := ''00ff'', u_tokenFreshTimeStamp := 50\<rparr>"

definition admin_request :: user where
  "admin_request = user0\<lparr>u_accType := ''a'', u_token := ''00ff''\<rparr>"

lemma admin_simps [simp]:
  "user_ok admin" "user_ok admin_request" "u_accType admin = ''a''" "u_token admin_request = ''00ff''"
  "u_accType admin_request = ''a''"
  "admin_request\<lparr>u_tokenFreshTimeStamp := 0, u_cmd := []\<rparr> = admin_request"
  by (simp_all add: admin_def admin_request_def user0_def user_ok_def no_nul_def code_def in_int_iff)

lemma admin_session:
  obtains s :: "nat sys" where "sys_ok s" "sview s Token ''00ff'' = Some (OUser admin)" "has_room 99 s" "s_world s = 0"
    "\<not> expired demo_env s admin"
proof -
  obtain s :: "nat sys" where s: "sys_ok s" "sview s = (\<lambda>w k. None)(Token := [''00ff'' \<mapsto> OUser admin])" "has_room 99 s"
    "s_world s = 0" "s_tokenFreshTime s = 1"
    by (rule state_with [OF selectCache_simps(1), of "''00ff''" "OUser admin"]) blast
  have "u_tokenFreshTimeStamp admin = 50" by (simp add: admin_def)
  then have "token_until 1 admin = 3650" by (simp add: token_until_def)
  then have "\<not> expired demo_env s admin" using s(5) by (simp add: expired_def)
  moreover have "sview s Token ''00ff'' = Some (OUser admin)" using s(2) by simp
  ultimately show thesis using that [of s] s(1,3,4) by blast
qed

lemma admin_request_text:
  obtains t where "UserParseJson int_fp t user0 = Some admin_request"
  using request_of [OF int_fp_ok admin_simps(2)] by auto

text \<open>The database answers \<open>UserDelete\<close> on the first row.\<close>

lemma demo_query:
  assumes "user_ok u"
  shows "\<exists>x. UserQueryrReturnResult demo_db None u 0 0 w = Some ((1, Some [x]), Suc w) \<and> u_token x = ''a'' \<and> u_id x = 1"
proof -
  have arg: "length (sql_text W_AND (user_clauses u W_AND)) \<le> 1365"
    using sql_text_length [OF user_clauses_size(1) [OF assms], of W_AND W_AND] by simp
  define r :: row where "r = Some ''1'' # replicate 20 (Some ''a'')"
  have a: "atoi ''1'' = Some 1" "atoi ''a'' = Some 0"
    by (simp_all add: atoi_def is_digit_def digit_val_def code_def in_int_iff)
  have "\<exists>x. user_of_row r = Some x \<and> u_token x = ''a'' \<and> u_id x = 1"
    by (simp add: user_of_row_def col_int_def col_str_def rd_def a user0_def r_def)
  then show ?thesis
    using arg by (auto simp: UserQueryrReturnResult_def user_where_text [OF assms] sprintf_sql_def SQL_LENGTH_def r_def [symmetric])
qed

lemma demo_delete:
  assumes "UserParseJson (e_fp demo_env) req user0 = Some admin_request"
    "check_token demo_env (u_token admin_request) s = Some (Inr admin, s1)"
  shows "\<exists>t s'. userDelete demo_env req s = Some (t, s') \<and> s_world s' = s_world s1 + 2"
proof -
  have "user_ok (admin_request\<lparr>u_token := []\<rparr>)"
    by (simp add: admin_request_def user0_def user_ok_def no_nul_def code_def in_int_iff)
  from demo_query [OF this] obtain x where
    x: "UserQueryrReturnResult demo_db None (admin_request\<lparr>u_token := []\<rparr>) 0 0 (s_world s1) = Some ((1, Some [x]), Suc (s_world s1))"
      "u_token x = ''a''" "u_id x = 1" by blast
  have "user_ok (user0\<lparr>u_id := 1\<rparr>)" by (simp add: user0_def user_ok_def no_nul_def in_int_iff)
  from user_modify_defined(2) [OF this, of demo_db "Suc (s_world s1)"]
  have d: "UserDelete demo_db (user0\<lparr>u_id := 1\<rparr>) (Suc (s_world s1)) = Some (1, Suc (Suc (s_world s1)))"
    by (auto simp: UserDelete_def bind_eq_Some_conv)
  have "finish (ok_reply demo_env) s' = Some (ok_text demo_env, s')" for s' :: "nat sys" by simp
  then show ?thesis
    by (simp add: userDelete_def assms [simplified] x d)
qed

section \<open>Sessions\<close>

text \<open>
  \<open>userStatus\<close> on every branch. A token that is not in the cache is answered by
  \<open>ERR_NOT_LOGIN_YET\<close>; one whose 32-bit deadline has passed is removed from the cache and answered by
  \<open>ERR_TOKEN_OUT_OF_DATE\<close>; every other one by ok. Nothing else changes.
\<close>

theorem userStatus_reply:
  assumes "sys_ok s" "fp_ok (e_fp e)" "UserParseJson (e_fp e) req user0 = Some flt"
    "sview s Token (u_token flt) = map_option OUser su"
  shows "\<exists>s'. userStatus e req s = Some (case su of
         None \<Rightarrow> reply_text e ERR_NOT_LOGIN_YET
       | Some u \<Rightarrow> if expired e s u then reply_text e ERR_TOKEN_OUT_OF_DATE else ok_text e, s')
    \<and> sview s' = (case su of
         None \<Rightarrow> sview s
       | Some u \<Rightarrow> if expired e s u then (sview s)(Token := (sview s Token)(u_token flt := None)) else sview s)
    \<and> same_rest s s'"
proof (cases su)
  case None
  then show ?thesis
    using check_token_cases [OF assms(1), where token = "u_token flt" and e = e] assms(2-4)
    by (auto simp: userStatus_def in_int_iff)
next
  case (Some u)
  then show ?thesis
    using check_token_cases [OF assms(1), where token = "u_token flt" and e = e] assms(2-4)
    by (cases "expired e s u") (auto simp: userStatus_def in_int_iff)
qed

lemma userStatus_reply_witness:
  "\<exists>req s s'. userStatus demo_env req s = Some (ok_text demo_env, s') \<and> sview s' Token ''00ff'' = Some (OUser admin)"
proof -
  obtain req where req: "UserParseJson (e_fp demo_env) req user0 = Some admin_request" using admin_request_text by auto
  obtain s where s: "sys_ok s" "sview s Token ''00ff'' = Some (OUser admin)" "\<not> expired demo_env s admin"
    using admin_session by blast
  then have "sview s Token (u_token admin_request) = map_option OUser (Some admin)" by simp
  from userStatus_reply [OF s(1) demo_env_simps(4) req this]
  obtain s' where "userStatus demo_env req s = Some (ok_text demo_env, s')" "sview s' = sview s" using s(3) by auto
  then show ?thesis using s(2) by (intro exI [of _ req] exI [of _ s] exI [of _ s']) simp
qed

text \<open>
  C5: Only an administrator deletes. If \<open>userDelete\<close> changes the database at all, the token of the
  request is in the token cache, is not out of date, and belongs to a user whose account type is
  \<open>a\<close>.
\<close>

theorem userDelete_admin_only:
  assumes "sys_ok s" "UserParseJson (e_fp e) req user0 = Some flt"
    "userDelete e req s = Some (t, s')" "s_world s' \<noteq> s_world s"
  shows "\<exists>u. sview s Token (u_token flt) = Some (OUser u) \<and> \<not> expired e s u \<and> u_accType u = ''a''"
proof -
  obtain r s1 where c: "check_token e (u_token flt) s = Some (r, s1)"
    using assms(2,3) by (auto simp: userDelete_def bind_eq_Some_conv)
  note inv = check_token_inv [OF assms(1) c]
  show ?thesis
  proof (cases r)
    case (Inl k)
    then have "s' = s1" using assms(2,3) c by (auto simp: userDelete_def dest: finish_state)
    then show ?thesis using inv(2) assms(4) by (simp add: same_rest_def)
  next
    case (Inr u)
    have "u_accType u = ''a''"
    proof (rule ccontr)
      assume "u_accType u \<noteq> ''a''"
      then have "s' = s1" using assms(2,3) c Inr by (auto simp: userDelete_def dest: finish_state)
      then show False using inv(2) assms(4) by (simp add: same_rest_def)
    qed
    then show ?thesis using inv(3) Inr by auto
  qed
qed

lemma userDelete_admin_only_witness:
  "\<exists>req s t s' u. userDelete demo_env req s = Some (t, s') \<and> s_world s' \<noteq> s_world s
     \<and> sview s Token ''00ff'' = Some (OUser u) \<and> u_accType u = ''a''"
proof -
  obtain req where req: "UserParseJson (e_fp demo_env) req user0 = Some admin_request" using admin_request_text by auto
  obtain s where s: "sys_ok s" "sview s Token ''00ff'' = Some (OUser admin)" "s_world s = 0" "\<not> expired demo_env s admin"
    using admin_session by blast
  have "sview s Token (u_token admin_request) = Some (OUser admin)" using s(2) by simp
  from check_token_good [OF s(1) this s(4)] obtain s1 where
    s1: "check_token demo_env (u_token admin_request) s = Some (Inr admin, s1)" "same_rest s s1" by blast
  obtain t s' where run: "userDelete demo_env req s = Some (t, s')" "s_world s' = 2"
    using demo_delete [OF req s1(1)] s1(2) s(3) by (auto simp: same_rest_def)
  obtain u where "sview s Token ''00ff'' = Some (OUser u)" "u_accType u = ''a''"
    using userDelete_admin_only [OF s(1) req run(1)] run(2) s(3) by auto
  then show ?thesis
    using run s(3) by (intro exI [of _ req] exI [of _ s] exI [of _ t] exI [of _ s'] exI [of _ u]) simp
qed

text \<open>
  C29: But every user can become an administrator. A user with any account type whose session is good
  sends \<open>userModify\<close> with the account type \<open>a\<close>: the call is defined, and the user object of the session
  then has the type \<open>a\<close>, whatever the database answers, so that the guard of \<open>userDelete\<close> passes.
\<close>

theorem userModify_escalates:
  assumes "sys_ok s" "fp_ok (e_fp e)" "UserParseJson (e_fp e) req user0 = Some flt" "user_ok flt"
    "u_accType flt = ''a''" "sview s Token (u_token flt) = Some (OUser u)" "\<not> expired e s u" "user_ok u"
  shows "\<exists>t s' u'. userModify e req s = Some (t, s') \<and> sview s' Token (u_token flt) = Some (OUser u')
    \<and> u_accType u' = ''a'' \<and> u_tokenFreshTimeStamp u' = time_int (e_time e 1)"
proof -
  obtain s1 where s1: "check_token e (u_token flt) s = Some (Inr u, s1)" "sys_ok s1" "sview s1 = sview s"
    using check_token_good [OF assms(1,6,7)] by blast
  define u' where "u' = (updateObj u flt)\<lparr>u_tokenFreshTimeStamp := time_int (e_time e 1)\<rparr>"
  define s2 where "s2 = poke_token (u_token flt) (OUser u') s1"
  have s2: "sys_ok s2" "sview s2 Token (u_token flt) = Some (OUser u')"
    using poke_token_ok [OF s1(2), of "u_token flt" "OUser u'"] s1(3) assms(6) by (simp_all add: s2_def)
  have "user_ok (flt\<lparr>u_id := u_id u\<rparr>)" using assms(4,8) by (simp add: user_ok_def)
  then obtain r w where m: "UserModify (e_db e) (flt\<lparr>u_id := u_id u\<rparr>) (s_world s2) = Some (r, w)"
    using user_modify_defined(1) [of "flt\<lparr>u_id := u_id u\<rparr>" "e_db e" "s_world s2"] by auto
  have r: "in_int r" by (rule UserModify_in_int [OF m])
  have ok: "ok_reply e = Some (ok_text e)" "length (ok_text e) < MAX_LINE" using ok_reply_text [OF assms(2)] by simp_all
  have id: "u_id u' = u_id u" by (simp add: u'_def updateObj_id)
  have "userModify e req s = (if r \<noteq> 1 then finish (err_reply e r) (s2\<lparr>s_world := w\<rparr>)
      else finish (Some (ok_text e)) (s2\<lparr>s_world := w\<rparr>))"
    unfolding userModify_def Let_def
    by (simp only: assms(3) Option.bind.bind_lunit s1(1) prod.case sum.case u'_def [symmetric] s2_def [symmetric] ok(1) id m)
  then have "\<exists>t. userModify e req s = Some (t, s2\<lparr>s_world := w\<rparr>)"
    using r ok assms(2) by (simp add: finish_def [of "Some (ok_text e)"])
  then obtain t where t: "userModify e req s = Some (t, s2\<lparr>s_world := w\<rparr>)" by blast
  have "u_accType u' = ''a''" "u_tokenFreshTimeStamp u' = time_int (e_time e 1)"
    by (simp_all add: u'_def updateObj_accType assms(5))
  moreover have "sview (s2\<lparr>s_world := w\<rparr>) Token (u_token flt) = Some (OUser u')" using s2(2) by simp
  ultimately show ?thesis using t by (intro exI conjI)
qed
lemma userModify_escalates_witness:
  "\<exists>req s t s' u'. userModify demo_env req s = Some (t, s') \<and> sview s' Token ''00ff'' = Some (OUser u') \<and> u_accType u' = ''a''"
proof -
  obtain req where req: "UserParseJson (e_fp demo_env) req user0 = Some admin_request" using admin_request_text by auto
  obtain s where s: "sys_ok s" "sview s Token ''00ff'' = Some (OUser admin)" "\<not> expired demo_env s admin"
    using admin_session by blast
  then have "sview s Token (u_token admin_request) = Some (OUser admin)" by simp
  from userModify_escalates [OF s(1) demo_env_simps(4) req admin_simps(2,5) this s(3) admin_simps(1)]
  obtain t s' u' where "userModify demo_env req s = Some (t, s')" "sview s' Token ''00ff'' = Some (OUser u')" "u_accType u' = ''a''"
    by auto
  then show ?thesis
    by (intro exI [of _ req] exI [of _ s] exI [of _ t] exI [of _ s'] exI [of _ u']) simp
qed

end
