(* ===== verification/ServiceInv.thy ===== *)
theory ServiceInv
  imports ServiceProps
begin

text \<open>
  What holds in every state the running service can be in: a step relation of requests, and an
  invariant of the caches by rule induction. The handlers are taken apart by rules for \<open>wp P m\<close>: if
  the execution \<open>m\<close> is defined, its result satisfies \<open>P\<close>.
\<close>

section \<open>Executions and their results\<close>

definition wp :: "('a \<Rightarrow> bool) \<Rightarrow> 'a option \<Rightarrow> bool" where
  "wp P m \<longleftrightarrow> (\<forall>x. m = Some x \<longrightarrow> P x)"

named_theorems wp_rules

lemma wp_simple [wp_rules]:
  "P x \<Longrightarrow> wp P (Some x)"
  "wp P None"
  "wp (\<lambda>x. wp P (f x)) m \<Longrightarrow> wp P (Option.bind m f)"
  by (auto simp: wp_def bind_eq_Some_conv)

lemma wp_branch [wp_rules]:
  "(c \<Longrightarrow> wp P a) \<Longrightarrow> (\<not> c \<Longrightarrow> wp P b) \<Longrightarrow> wp P (if c then a else b)"
  "(\<And>x. r = Some x \<Longrightarrow> wp P (f x)) \<Longrightarrow> (r = None \<Longrightarrow> wp P g) \<Longrightarrow> wp P (case r of None \<Rightarrow> g | Some x \<Rightarrow> f x)"
  "(\<And>x. q = Inl x \<Longrightarrow> wp P (h x)) \<Longrightarrow> (\<And>y. q = Inr y \<Longrightarrow> wp P (k y)) \<Longrightarrow> wp P (case_sum h k q)"
  "(xs = [] \<Longrightarrow> wp P a) \<Longrightarrow> (\<And>y ys. xs = y # ys \<Longrightarrow> wp P (l y ys)) \<Longrightarrow> wp P (case xs of [] \<Rightarrow> a | y # ys \<Rightarrow> l y ys)"
  "(\<And>x y. p = (x, y) \<Longrightarrow> wp P (j x y)) \<Longrightarrow> wp P (case p of (x, y) \<Rightarrow> j x y)"
  by (auto split: option.split sum.split list.split prod.split)

lemma wp_mono: "wp Q m \<Longrightarrow> (\<And>x. Q x \<Longrightarrow> P x) \<Longrightarrow> wp P m"
  by (auto simp: wp_def)

lemma wp_any: "(\<And>x. P x) \<Longrightarrow> wp P m"
  by (auto simp: wp_def)

section \<open>The invariant\<close>

text \<open>What a cache may hold under a key: a session holds the user with that token; a phone number, 11
  characters, holds a code; nothing is ever put into the cache of nicknames.\<close>

fun fits :: "slot \<Rightarrow> string \<Rightarrow> obj \<Rightarrow> bool" where
  "fits Token k (OUser u) = (u_token u = k)"
| "fits Comm k (OMsgCode m) = (length k = 11 \<and> m_code m = ''888888'')"
| "fits _ _ _ = False"

definition good :: "nat \<Rightarrow> 'w sys \<Rightarrow> bool" where
  "good n s \<longleftrightarrow> sys_ok s \<and> (\<forall>w. entries_in (s_caches s) w \<le> n) \<and> (\<forall>w k x. sview s w k = Some x \<longrightarrow> fits w k x)"

lemma good_world [simp]: "good n (s\<lparr>s_world := w\<rparr>) = good n s"
  by (simp add: good_def)

lemma good_fresh [simp]: "good n (s\<lparr>s_tokenFreshTime := t\<rparr>) = good n s"
  by (simp add: good_def sys_ok_def sview_def)

lemma good_Suc: "good n s \<Longrightarrow> good (Suc n) s"
  by (auto simp: good_def intro: le_SucI)

lemma good_fits: "good n s \<Longrightarrow> sview s w k = Some x \<Longrightarrow> fits w k x"
  by (simp add: good_def)

text \<open>The cache calls.\<close>

lemma query_good:
  assumes "good n s" "selectCache c = Inr w"
  shows "wp (\<lambda>(r, s'). good n s' \<and> r = sview s' w k) (query c k s)"
proof -
  obtain cs where cs: "cacheQuery c (s_caches s) k = Some (cs, view (s_caches s) w k)" "caches_ok cs"
    "view cs = view (s_caches s)" "\<forall>v. entries_in cs v \<le> entries_in (s_caches s) v"
    using cacheQuery_ok [of "s_caches s" c w k] assms by (auto simp: good_def sys_ok_def)
  have "entries_in cs v \<le> n" for v using cs(4) assms(1) by (meson good_def le_trans)
  then show ?thesis using cs assms(1) by (simp add: wp_def query_def good_def sys_ok_def sview_def)
qed

lemma insert_good:
  assumes "good n s" "selectCache c = Inr w" "n < 2 ^ 30" "fits w k x"
  shows "wp (good (Suc n)) (insert_obj e c k x s)"
proof -
  have room: "entries_in (s_caches s) w < 2 ^ 30" using assms(1,3) by (meson good_def le_less_trans)
  obtain cs r where cs: "cacheInsert (e_cr e) (e_junk e) c (s_caches s) k x = Some (cs, r)" "caches_ok cs"
    "view cs = (if view (s_caches s) w k = None
       then (view (s_caches s))(w := (view (s_caches s) w)(k \<mapsto> x)) else view (s_caches s))"
    "\<forall>v. entries_in cs v \<le> Suc (entries_in (s_caches s) v)"
    using cacheInsert_ok [of "s_caches s" c w, OF _ assms(2) room] assms(1) unfolding good_def sys_ok_def by blast
  have "entries_in cs v \<le> Suc n" for v using cs(4) assms(1) by (meson good_def le_trans Suc_le_mono)
  then show ?thesis
    using cs assms(1,4) by (auto simp: wp_def insert_obj_def good_def sys_ok_def sview_def split: if_splits)
qed

lemma delete_good:
  assumes "good n s" "selectCache c = Inr w"
  shows "wp (good n) (delete_obj c k s)"
proof -
  obtain cs r where cs: "cacheDelete c (s_caches s) k = Some (cs, r)" "caches_ok cs"
    "view cs = (view (s_caches s))(w := (view (s_caches s) w)(k := None))"
    "\<forall>v. entries_in cs v \<le> entries_in (s_caches s) v"
    using cacheDelete_ok [of "s_caches s" c w k] assms by (auto simp: good_def sys_ok_def)
  have "entries_in cs v \<le> n" for v using cs(4) assms(1) by (meson good_def le_trans)
  then show ?thesis
    using cs assms(1) by (auto simp: wp_def delete_obj_def good_def sys_ok_def sview_def split: if_splits)
qed

text \<open>Writing through the pointer into a session.\<close>

lemma dict_poke_size: "dictSize (dict_poke d k x) = dictSize d"
  by (simp add: dict_poke_def dictSize_def set_val_at_def set_ht_val_def split: option.split)

lemma poke_good:
  assumes "good n s" "sview s Token k \<noteq> None" "u_token u = k"
  shows "good n (poke_token k (OUser u) s)"
proof -
  have ok: "sys_ok s" using assms(1) by (simp add: good_def)
  have "entries_in (s_caches (poke_token k (OUser u) s)) w = entries_in (s_caches s) w" for w
    by (cases w) (simp_all add: entries_in_def poke_token_def dict_poke_size)
  then show ?thesis
    using poke_token_ok [OF ok assms(2), of "OUser u"] assms(1,3) by (auto simp: good_def split: if_splits)
qed

lemma finish_good: "good n s \<Longrightarrow> wp (\<lambda>(t, s'). good n s') (finish r s)"
  by (auto simp: wp_def finish_def bind_eq_Some_conv)

text \<open>Sequencing: what the first part promises is what the second may use.\<close>

lemma wp_seq: "wp Q m \<Longrightarrow> (\<And>x. Q x \<Longrightarrow> wp P (f x)) \<Longrightarrow> wp P (Option.bind m f)"
  by (auto simp: wp_def bind_eq_Some_conv)

lemma wp_then: "(\<And>x. m = Some x \<Longrightarrow> wp P (f x)) \<Longrightarrow> wp P (Option.bind m f)"
  by (auto simp: wp_def bind_eq_Some_conv)

named_theorems seqs

lemmas [seqs] =
  wp_seq [OF query_good [OF _ selectCache_simps(1)]] wp_seq [OF query_good [OF _ selectCache_simps(3)]]
  wp_seq [OF delete_good [OF _ selectCache_simps(1)]] wp_seq [OF delete_good [OF _ selectCache_simps(3)]]
  wp_seq [OF insert_good [OF _ selectCache_simps(1)]] wp_seq [OF insert_good [OF _ selectCache_simps(3)]]

lemmas [seqs] =
  wp_then [of "UserParseJson F js u" for F js u] wp_then [of "NoticeParseJson F js u" for F js u]
  wp_then [of "AppVerParseJson F js u" for F js u] wp_then [of "UserQueryReturnItemNum db u w" for db u w]
  wp_then [of "UserQueryrReturnResult db q u i j w" for db q u i j w] wp_then [of "UserModify db u w" for db u w]
  wp_then [of "UserDelete db u w" for db u w] wp_then [of "code_until m" for m] wp_then [of "guard b" for b]
  wp_then [of "ok_reply e" for e] wp_then [of "as_user x" for x] wp_then [of "as_msgcode x" for x]
  wp_then [of "as_notice x" for x] wp_then [of "as_appver x" for x]

lemma as_user_eq [simp]: "as_user x = Some u \<longleftrightarrow> x = OUser u" by (cases x) auto
lemma as_notice_eq [simp]: "as_notice x = Some n \<longleftrightarrow> x = ONotice n" by (cases x) auto
lemma as_msgcode_eq [simp]: "as_msgcode x = Some m \<longleftrightarrow> x = OMsgCode m" by (cases x) auto

lemma check_token_wp:
  assumes "good n s"
  shows "wp (\<lambda>(r, s'). good n s' \<and> (\<forall>u. r = Inr u \<longrightarrow> sview s' Token token = Some (OUser u) \<and> u_token u = token))
    (check_token e token s)"
  unfolding check_token_def
  by (auto intro!: seqs wp_rules(1,4-) simp: assms) (drule (1) good_fits, simp)

lemmas [seqs] = wp_seq [OF check_token_wp]

text \<open>The identifier an insertion fills in leaves the token alone.\<close>

lemma UserInsert_token: "wp (\<lambda>((ret, u), w'). u_token u = u_token obj) (UserInsert db obj w)"
  unfolding UserInsert_def Let_def by (auto intro!: wp_then wp_rules(1,2,4-))

lemmas [seqs] = wp_seq [OF UserInsert_token]

section \<open>The handlers keep the invariant\<close>

lemma good_finish: "good n s \<Longrightarrow> wp (\<lambda>(t, s'). good (Suc n) s') (finish r s)"
  using finish_good good_Suc by (fastforce simp: wp_def)

lemma userStatus_good: "good n s \<Longrightarrow> wp (\<lambda>(t, s'). good (Suc n) s') (userStatus e req s)"
  unfolding userStatus_def by (auto intro!: seqs wp_rules(4-) good_finish)

lemma userLogout_good: "good n s \<Longrightarrow> wp (\<lambda>(t, s'). good (Suc n) s') (userLogout e req s)"
  unfolding userLogout_def Let_def by (auto intro!: seqs wp_rules(4-) good_finish)

lemma userModify_good: "good n s \<Longrightarrow> wp (\<lambda>(t, s'). good (Suc n) s') (userModify e req s)"
  unfolding userModify_def Let_def
  by (auto intro!: seqs wp_rules(4-) good_finish poke_good simp: updateObj_token dest: good_fits)

lemma userDelete_good: "good n s \<Longrightarrow> wp (\<lambda>(t, s'). good (Suc n) s') (userDelete e req s)"
  unfolding userDelete_def Let_def by (auto intro!: seqs wp_rules(2,4-) good_finish)

lemma noticeGet_good: "good n s \<Longrightarrow> wp (\<lambda>(t, s'). good (Suc n) s') (noticeGet e req s)"
  unfolding noticeGet_def Let_def by (auto intro!: seqs wp_rules(4-) good_finish)

lemma appVer_good: "good n s \<Longrightarrow> wp (\<lambda>(t, s'). good (Suc n) s') (appVer e req s)"
  unfolding appVer_def Let_def by (auto intro!: seqs wp_rules(4-) good_finish)

lemma verifyBefore_good: "good n s \<Longrightarrow> n < 2 ^ 30 \<Longrightarrow> wp (\<lambda>(t, s'). good (Suc n) s') (verifyBefore e req s)"
  unfolding verifyBefore_def Let_def
  by (auto intro!: seqs wp_then [of "case_option a f r" for a f r] wp_rules(4-) good_finish finish_good intro: good_Suc simp: msgGatewayCode_def msgWangyiCode_def msgcode0_def)

lemma verifyAfter_good: "good n s \<Longrightarrow> n < 2 ^ 30 \<Longrightarrow> wp (\<lambda>(t, s'). good (Suc n) s') (verifyAfter e req s)"
  unfolding verifyAfter_def Let_def
  by (auto intro!: seqs wp_rules(4-) good_finish finish_good intro: good_Suc simp: phone_user_def)

lemma userRegister_good: "good n s \<Longrightarrow> n < 2 ^ 30 \<Longrightarrow> wp (\<lambda>(t, s'). good (Suc n) s') (userRegister e req s)"
  unfolding userRegister_def Let_def
  by (auto intro!: seqs wp_rules(4-) good_finish finish_good intro: good_Suc)

lemma userLogin_good: "good n s \<Longrightarrow> n < 2 ^ 30 \<Longrightarrow> wp (\<lambda>(t, s'). good (Suc n) s') (userLogin e req s)"
  unfolding userLogin_def Let_def
  by (auto intro!: seqs wp_rules(2,4-) good_finish finish_good intro: good_Suc)

lemma run_route_good:
  assumes "good n s" "n < 2 ^ 30"
  shows "wp (\<lambda>(t, s'). good (Suc n) s') (run_route e f req s)"
  using assms
  by (cases f) (simp_all add: userStatus_good userLogout_good userModify_good userDelete_good noticeGet_good
      appVer_good verifyBefore_good verifyAfter_good userRegister_good userLogin_good say_hello_def r_31501_def
      wp_rules(1) good_Suc)

section \<open>Reachable states\<close>

text \<open>
  The states of the running service after \<open>n\<close> requests: the service is started as \<open>regist_service\<close> does it,
  once the connection for its query is taken; each request is served on some route, at some time, with
  some random bytes; between two requests other clients of the database may change it.
\<close>

inductive served :: "'d fp \<Rightarrow> nat \<Rightarrow> 'w sys \<Rightarrow> bool" for F where
  started: "e_fp e = F \<Longrightarrow> load_appVersion e \<lparr>s_caches = createCache seed, s_world = w, s_tokenFreshTime = tft\<rparr> = Some s
    \<Longrightarrow> getServiceConfig conf s = Some (conf', s') \<Longrightarrow> served F 0 s'"
| request: "served F n s \<Longrightarrow> e_fp e = F \<Longrightarrow> run_route e f req s = Some (reply, s') \<Longrightarrow> served F (Suc n) s'"
| database: "served F n s \<Longrightarrow> served F n (s\<lparr>s_world := w\<rparr>)"

lemma regist_service_served:
  assumes "regist_service e cl junk seed conf p v w tft = Some (t, conf', s, p', v')"
  shows "served (e_fp e) 0 s"
proof -
  obtain s0 where "load_appVersion e \<lparr>s_caches = createCache seed, s_world = w, s_tokenFreshTime = tft\<rparr> = Some s0"
    "getServiceConfig conf s0 = Some (conf', s)"
    using assms by (auto simp: regist_service_def loadCacheNecessary_def bind_eq_Some_conv)
  then show ?thesis by (rule served.started [OF refl])
qed

lemma service_start_good:
  assumes "load_appVersion e \<lparr>s_caches = createCache seed, s_world = w, s_tokenFreshTime = tft\<rparr> = Some s"
    "getServiceConfig conf s = Some (conf', s')"
  shows "good 0 s'"
proof -
  have "good 0 \<lparr>s_caches = createCache seed, s_world = w, s_tokenFreshTime = tft\<rparr>" for w
    by (simp add: good_def sys_ok_def sview_def)
  then have "wp (good 0) (load_appVersion e \<lparr>s_caches = createCache seed, s_world = w, s_tokenFreshTime = tft\<rparr>)"
    unfolding load_appVersion_def Let_def by (auto intro!: wp_then wp_rules(1,2,4-))
  then show ?thesis
    using assms by (auto simp: wp_def getServiceConfig_def bind_eq_Some_conv)
qed

lemma served_good: "served F n s \<Longrightarrow> n \<le> 2 ^ 30 \<Longrightarrow> good n s"
proof (induction rule: served.induct)
  case (request n s e f req reply s')
  then have "good n s" "n < 2 ^ 30" by simp_all
  from run_route_good [OF this, of e f req] request.hyps show ?case by (auto simp: wp_def)
qed (auto intro: service_start_good)

section \<open>A service that starts\<close>

text \<open>A database without an application version.\<close>

definition quiet_db :: "nat mysql" where
  "quiet_db = demo_db\<lparr>mysql_store_result := (\<lambda>w. Some [])\<rparr>"

definition quiet_env :: "(int, nat) env" where
  "quiet_env = demo_env\<lparr>e_db := quiet_db\<rparr>"

lemma quiet_simps [simp]:
  "e_fp quiet_env = int_fp" "e_db quiet_env = quiet_db" "query_db quiet_db sql w = (Some [], Suc w)"
  by (simp_all add: quiet_env_def quiet_db_def query_db_def demo_db_def)

definition appver_sql :: string where
  "appver_sql = ''select * from appver where id=(select max(id) from appver);''"

lemma load_appVersion_query:
  "query_db (e_db e) appver_sql (s_world s) = (res, w) \<Longrightarrow>
   AppVerQueryrReturnResult (e_db e) (Some ''select * from appver where id=(select max(id) from appver);'') appver0 0 0 (s_world s)
   = (case res of
        None \<Rightarrow> Some ((ERR_MYSQL_QUERY_FAIL, None), w)
      | Some rows \<Rightarrow>
          if rows = [] then Some ((0, None), w)
          else do {
            objs \<leftarrow> those (map appver_of_row rows);
            Some ((sint (of_nat (length rows) :: u32), Some objs), w) })"
  by (simp add: AppVerQueryrReturnResult_def appver_sql_def sprintf_sql_def SQL_LENGTH_def)

lemma regist_service_runs:
  assumes "query_db (e_db e) appver_sql w = (res, w')" "res = None \<or> res = Some []"
    "getConfig conf ''ThreadpoolQuitType'' = Some (conf', Some v)" "atoi v = Some h"
    "mysqlConnectionPool_GetOneConn cl p x = Some (Some blk, p', x')"
  shows "\<exists>t s. regist_service e cl junk seed conf p x w tft = Some (t, conf', s, p', x')
    \<and> sys_ok s \<and> (\<forall>w k. sview s w k = None) \<and> s_world s = w' \<and> s_tokenFreshTime s = word_of_int h"
proof -
  obtain t where t: "regist_routes (e_cr e) junk seed = Some t" using regist_routes_ok by blast
  let ?s = "\<lparr>s_caches = createCache seed, s_world = w, s_tokenFreshTime = tft\<rparr>"
  have "load_appVersion e ?s = Some (?s\<lparr>s_world := w'\<rparr>)"
    using load_appVersion_query [of e ?s res w'] assms(1,2) by (auto simp: load_appVersion_def)
  then have "loadCacheNecessary e cl p x ?s = Some (?s\<lparr>s_world := w'\<rparr>, p', x')"
    using assms(5) by (simp add: loadCacheNecessary_def)
  then show ?thesis
    using t assms(3,4) by (simp add: regist_service_def getServiceConfig_def sys_ok_def sview_def)
qed

lemma demo_conf:
  obtains conf conf' where "getConfig conf ''ThreadpoolQuitType'' = Some (conf', Some ''1'')"
proof -
  let ?l = "[Assign ''ThreadpoolQuitType'' ''1'']"
  have "list_all line_ok ?l" by (simp add: LF_def CR_def)
  from configer_loop_lines [OF this dictCreateEx_facts(1), of undefined None True None]
  obtain d where d: "dict_inv d" "dict_map d = map_of (map (\<lambda>(k, v). (bytes k, Some v)) (bindings ?l))"
    by auto
  obtain d' where "dictFetchValue d (bytes ''ThreadpoolQuitType'') = Some (d', dict_map d (bytes ''ThreadpoolQuitType''))"
    using dict_kv.fetch_value [OF d(1)] by blast
  then show thesis using that [of d d'] by (simp add: getConfig_def d(2))
qed

text \<open>A pool with one free connection.\<close>

definition one_block :: pool where
  "one_block = demo_conn_pool\<lparr>slq_list := [\<lparr>b_conn = Some 0, lastUseTime = 100\<rparr>], g_mysql_conn_enable := True\<rparr>"

lemma one_block_taken:
  "mysqlConnectionPool_GetOneConn demo_client one_block (0, {}) = Some (Some \<lparr>b_conn = Some 0, lastUseTime = 100\<rparr>, one_block\<lparr>slq_list := []\<rparr>, (0, {}))"
  by (subst mysqlConnectionPool_GetOneConn.simps) (simp add: one_block_def demo_client_def demo_conn_pool_def)

lemma demo_served:
  obtains s where "served int_fp 0 s" "s_tokenFreshTime s = 1" "s_world s = Suc 0" "\<forall>w k. sview s w k = None"
proof -
  obtain conf conf' where c: "getConfig conf ''ThreadpoolQuitType'' = Some (conf', Some ''1'')" using demo_conf by blast
  have a: "atoi ''1'' = Some 1" by (simp add: atoi_def is_digit_def digit_val_def code_def in_int_iff)
  have "query_db (e_db quiet_env) appver_sql 0 = (Some [], Suc 0)" by simp
  from regist_service_runs [OF this _ c a one_block_taken, of "Route.say_hello" "replicate 16 0" 0]
  obtain t s where "regist_service quiet_env demo_client Route.say_hello (replicate 16 0) conf one_block (0, {}) 0 0
      = Some (t, conf', s, one_block\<lparr>slq_list := []\<rparr>, (0, {}))"
    "s_tokenFreshTime s = 1" "s_world s = Suc 0" "\<forall>w k. sview s w k = None" by auto
  moreover from this have "served int_fp 0 s" using regist_service_served [of quiet_env] by simp
  ultimately show thesis using that by blast
qed

section \<open>Properties\<close>

text \<open>
  C4: What the caches hold in every reachable state, within the first 2^30 requests: the dictionaries
  are well formed; a session is found under its own token and is a user; the common cache holds
  verification codes only, under keys of 11 characters, and every code is \<open>888888\<close>; the cache of
  nicknames stays empty.
\<close>

theorem served_invariant:
  assumes "served F n s" "n \<le> 2 ^ 30"
  shows "sys_ok s
    \<and> (\<forall>k x. sview s Token k = Some x \<longrightarrow> (\<exists>u. x = OUser u \<and> u_token u = k))
    \<and> (\<forall>k x. sview s Comm k = Some x \<longrightarrow> (\<exists>m. x = OMsgCode m \<and> length k = 11 \<and> m_code m = ''888888''))
    \<and> (\<forall>k. sview s Nick k = None)"
proof -
  have g: "good n s" by (rule served_good [OF assms])
  have "fits Token k x \<Longrightarrow> \<exists>u. x = OUser u \<and> u_token u = k" for k x by (cases x) auto
  moreover have "fits Comm k x \<Longrightarrow> \<exists>m. x = OMsgCode m \<and> length k = 11 \<and> m_code m = ''888888''" for k x
    by (cases x) auto
  moreover have "\<not> fits Nick k x" for k x by simp
  ultimately show ?thesis using g by (meson good_def not_None_eq)
qed

lemma served_invariant_witness: "\<exists>s :: nat sys. served int_fp 0 s \<and> sys_ok s"
proof -
  obtain s :: "nat sys" where s: "served int_fp 0 s" "s_tokenFreshTime s = 1" "s_world s = Suc 0" "\<forall>w k. sview s w k = None"
    by (rule demo_served)
  have "sys_ok s" using served_invariant [OF s(1)] by simp
  then show ?thesis using s(1) by (intro exI conjI)
qed

text \<open>
  No request for a notice is ever answered with one. In every reachable state \<open>noticeGet\<close>, when it
  is defined, answers that the user is not logged in or that there is no notice: nothing puts a notice
  into the cache it reads.
\<close>

theorem noticeGet_never_delivers:
  fixes s s' :: "'w sys"
  assumes "served F n s" "n \<le> 2 ^ 30" "e_fp e = F" "noticeGet e req s = Some (t, s')"
  shows "Some t = err_reply e ERR_NOT_LOGIN_YET \<or> Some t = err_reply e ERR_NOT_NOTICE_YET"
proof -
  have g: "good n s" by (rule served_good [OF assms(1,2)])
  define P where "P = (\<lambda>(t, s' :: 'w sys). Some t = err_reply e ERR_NOT_LOGIN_YET \<or> Some t = err_reply e ERR_NOT_NOTICE_YET)"
  have f: "wp P (finish (err_reply e ERR_NOT_LOGIN_YET) s)" "wp P (finish (err_reply e ERR_NOT_NOTICE_YET) s)" for s
    by (auto simp: P_def wp_def finish_def bind_eq_Some_conv)
  have no: "wp P (g x)" if "good n b" "sview b Comm k = Some (ONotice x)" for b k x g
    using good_fits [OF that] by simp
  have "wp P (noticeGet e req s)"
    unfolding noticeGet_def Let_def using g by (auto intro!: seqs wp_rules(4-) f intro: no)
  then show ?thesis using assms(4) by (simp add: wp_def P_def)
qed

lemma noticeGet_never_delivers_witness:
  "\<exists>req (s :: nat sys) t s'. noticeGet quiet_env req s = Some (t, s') \<and> Some t = err_reply quiet_env ERR_NOT_LOGIN_YET"
proof -
  obtain s :: "nat sys" where s0: "served int_fp 0 s" "s_tokenFreshTime s = 1" "s_world s = Suc 0" "\<forall>w k. sview s w k = None"
    by (rule demo_served)
  note s = s0(1,4)
  have "notice_ok notice0" by (simp add: notice0_def notice_ok_def no_nul_def in_int_iff)
  from print_obj_of [OF int_fp_ok notice_members_ok [OF this]] obtain req where
    "cJSON_Parse int_fp req = Some (Some (obj_of int_fp (notice_members int_fp None notice0)))" by blast
  from notice_json_fields [OF int_fp_ok \<open>notice_ok notice0\<close> this] obtain n where
    req: "NoticeParseJson int_fp req notice0 = Some n" by blast
  have ok: "sys_ok s" using served_good [OF s(1)] by (simp add: good_def)
  obtain s' where q: "query CACHE_TOKEN (n_token n) s = Some (None, s')"
    using query_ok [OF ok selectCache_simps(1), of "n_token n"] s(2) by metis
  have run: "noticeGet quiet_env req s = Some (reply_text quiet_env ERR_NOT_LOGIN_YET, s')"
    by (simp add: noticeGet_def req q in_int_iff)
  have "(0 :: nat) \<le> 2 ^ 30" by simp
  from noticeGet_never_delivers [OF s(1) this quiet_simps(1) run] show ?thesis using run
    by (intro exI [of _ req] exI [of _ s] exI [of _ "reply_text quiet_env ERR_NOT_LOGIN_YET"] exI [of _ s'])
      (simp add: err_reply_text in_int_iff)
qed

text \<open>
  The service only starts on a database without application versions. When the query for the
  newest version finds one, \<open>regist_service\<close> is undefined: \<open>loadCacheNecessary\<close> copies the eleven bytes
  of \<open>appVersion\<close> into ten. Otherwise it starts, with empty caches, and takes the life of a token from
  the configuration key \<open>ThreadpoolQuitType\<close>.
\<close>

theorem regist_service_starts:
  assumes "query_db (e_db e) appver_sql w = (res, w')" "case res of None \<Rightarrow> True | Some rows \<Rightarrow> length rows \<le> 1"
    "getConfig conf ''ThreadpoolQuitType'' = Some (conf', Some v)" "atoi v = Some h"
    "mysqlConnectionPool_GetOneConn cl p x = Some (Some blk, p', x')"
  shows "case res of
      Some [row] \<Rightarrow> regist_service e cl junk seed conf p x w tft = None
    | _ \<Rightarrow> \<exists>t s. regist_service e cl junk seed conf p x w tft = Some (t, conf', s, p', x')
        \<and> (\<forall>w k. sview s w k = None) \<and> s_world s = w' \<and> s_tokenFreshTime s = word_of_int h"
proof (cases "res = None \<or> res = Some []")
  case True
  then show ?thesis using regist_service_runs [OF assms(1) True assms(3-5), of junk seed tft] by auto
next
  case False
  then obtain row where row: "res = Some [row]"
    using assms(2) by (cases res) (auto simp: le_Suc_eq length_Suc_conv)
  let ?s = "\<lparr>s_caches = createCache seed, s_world = w, s_tokenFreshTime = tft\<rparr>"
  have "load_appVersion e ?s = None"
    using load_appVersion_query [of e ?s res w'] assms(1) row
    by (auto simp: load_appVersion_def split: option.split)
  then have "loadCacheNecessary e cl p x ?s = None" using assms(5) by (simp add: loadCacheNecessary_def)
  then show ?thesis by (simp add: row regist_service_def)
qed

lemma regist_service_starts_witness:
  "\<exists>conf. regist_service demo_env demo_client Route.say_hello (replicate 16 0) conf one_block (0, {}) 0 0 = None"
proof -
  obtain conf conf' where c: "getConfig conf ''ThreadpoolQuitType'' = Some (conf', Some ''1'')" using demo_conf by blast
  have a: "atoi ''1'' = Some 1" by (simp add: atoi_def is_digit_def digit_val_def code_def in_int_iff)
  have "query_db (e_db demo_env) appver_sql 0 = (Some [Some ''1'' # replicate 20 (Some ''a'')], Suc 0)" by simp
  from regist_service_starts [OF this _ c a one_block_taken] show ?thesis by auto
qed

end
