(* ===== verification/VerifyFlow.thy ===== *)
theory VerifyFlow
  imports ServiceInv
begin

text \<open>
  Sequences of requests: registration with a verification code, the life of a code, what a logout does
  to the caches, and a login without a password.
\<close>

section \<open>The length of a document of strings\<close>

lemma print_members_strings:
  "print_members F d fmt (map (\<lambda>(n, i). set_string (Some n) i) (map (\<lambda>(n, s). (n, cJSON_CreateString F s)) ps))
   = Some (map (\<lambda>(n, s). (quoted n, quoted s)) ps)"
  by (induction ps) (auto simp: set_string_def cJSON_CreateString_def print_string_ptr_quoted)

lemma print_object_fits: "print_object 0 True es = Some t \<Longrightarrow>
    length t \<le> 7 + sum_list (map (\<lambda>(n, e). length e + length n + 5) es)"
  by (auto simp: print_object_def Let_def nl_def tabs_def split: if_splits)
    (simp add: numeral_eq_Suc add.commute add.left_commute case_prod_unfold)

lemma strings_document:
  assumes "ps \<noteq> []"
  shows "\<exists>t. cJSON_Print F (obj_of F (map (\<lambda>(n, s). (n, cJSON_CreateString F s)) ps)) = Some t
    \<and> length t \<le> 7 + sum_list (map (\<lambda>(n, s). 6 * length n + 6 * length s + 9) ps)"
proof -
  let ?es = "map (\<lambda>(n, s). (quoted n, quoted s)) ps"
  obtain t where t: "print_object 0 True ?es = Some t" using print_object_text [of ?es 0 True] assms by auto
  have "cJSON_Print F (obj_of F (map (\<lambda>(n, s). (n, cJSON_CreateString F s)) ps)) = Some t"
    using t print_members_strings [of F 1 True ps]
    by (simp add: cJSON_Print_def obj_of_def set_string_def del: map_map)
  moreover have "sum_list (map (\<lambda>(n, e). length e + length n + 5) ?es)
      \<le> sum_list (map (\<lambda>(n, s). 6 * length n + 6 * length s + 9) ps)"
  proof (induction ps)
    case (Cons p ps)
    have "length (quoted (snd p)) + length (quoted (fst p)) + 5 \<le> 6 * length (fst p) + 6 * length (snd p) + 9"
      using quoted_length [of "fst p"] quoted_length [of "snd p"] by simp
    then show ?case using Cons by (simp add: case_prod_unfold)
  qed simp
  ultimately show ?thesis using print_object_fits [OF t] by (meson add_left_mono order_trans)
qed

text \<open>The reply of a registration fits into the buffer.\<close>

lemma phone_reply:
  assumes "length phone = 11" "length token = 16" "u = (phone_user phone now token)\<lparr>u_id := i\<rparr>"
  shows "\<exists>t. UserGenerateJson F u (Some ''id createTime lastModifyTime'') = Some t \<and> length t < MAX_LINE"
proof -
  let ?ps = "[(''token'', token), (''account'', phone), (''password'', '' ''), (''accType'', ''p''),
    (''phone'', phone), (''nickName'', ''test'')]"
  have n: "phone \<noteq> []" "token \<noteq> []" using assms(1,2) by auto
  have "user_members F (Some ''id createTime lastModifyTime'') u = map (\<lambda>(n, s). (n, cJSON_CreateString F s)) ?ps"
    using n by (simp add: user_members_def kv_str_def kv_int_def assms(3) phone_user_def user0_def removed_def)
  moreover obtain t where "cJSON_Print F (obj_of F (map (\<lambda>(n, s). (n, cJSON_CreateString F s)) ?ps)) = Some t"
    "length t \<le> 7 + sum_list (map (\<lambda>(n, s). 6 * length n + 6 * length s + 9) ?ps)"
    using strings_document [of ?ps F] by auto
  ultimately show ?thesis
    using assms(1,2) by (simp add: UserGenerateJson_def user_json_members MAX_LINE_def)
qed

section \<open>Steps\<close>

lemma has_room_mono: "has_room n s \<Longrightarrow> k \<le> n \<Longrightarrow> has_room k s"
  unfolding has_room_def by (meson add_left_mono le_less_trans)

text \<open>The cache calls on the views, as existence of the next state and as rules for \<open>wp\<close>.\<close>

lemma query_ex:
  assumes "sys_ok s" "selectCache c = Inr w"
  shows "\<exists>s'. query c k s = Some (sview s w k, s') \<and> sys_ok s' \<and> sview s' = sview s \<and> same_rest s s'
      \<and> (has_room n s \<longrightarrow> has_room n s')"
  by (rule query_ok [OF assms, of k]) blast

lemma delete_ex:
  assumes "sys_ok s" "selectCache c = Inr w"
  shows "\<exists>s'. delete_obj c k s = Some s' \<and> sys_ok s' \<and> sview s' = (sview s)(w := (sview s w)(k := None))
      \<and> same_rest s s' \<and> (has_room n s \<longrightarrow> has_room n s')"
  by (rule delete_obj_ok [OF assms, of k]) blast

lemma insert_ex:
  assumes "sys_ok s" "selectCache c = Inr w" "has_room (Suc n) s"
  shows "\<exists>s'. insert_obj e c k x s = Some s' \<and> sys_ok s' \<and> same_rest s s' \<and> has_room n s'
      \<and> sview s' = (if sview s w k = None then (sview s)(w := (sview s w)(k \<mapsto> x)) else sview s)"
  by (rule insert_obj_ok [OF assms, of e k x]) blast

lemma query_view:
  assumes "sys_ok s" "selectCache c = Inr w"
  shows "wp (\<lambda>(r, s'). r = sview s w k \<and> sys_ok s' \<and> sview s' = sview s \<and> same_rest s s'
      \<and> (has_room n s \<longrightarrow> has_room n s')) (query c k s)"
  using query_ex [OF assms, of k n] by (auto simp: wp_def)

lemma delete_view:
  assumes "sys_ok s" "selectCache c = Inr w"
  shows "wp (\<lambda>s'. sys_ok s' \<and> sview s' = (sview s)(w := (sview s w)(k := None)) \<and> same_rest s s'
      \<and> (has_room n s \<longrightarrow> has_room n s')) (delete_obj c k s)"
  using delete_ex [OF assms, of k n] by (auto simp: wp_def)

lemma insert_view:
  assumes "sys_ok s" "selectCache c = Inr w" "has_room 1 s"
  shows "wp (\<lambda>s'. sys_ok s' \<and> same_rest s s'
      \<and> sview s' = (if sview s w k = None then (sview s)(w := (sview s w)(k \<mapsto> x)) else sview s)) (insert_obj e c k x s)"
  using insert_ex [OF assms(1,2), of 0 e k x] assms(3) by (auto simp: wp_def)

lemmas token_seqs = wp_seq [OF query_view [where n = 1, OF _ token_slot]] wp_seq [OF delete_view [where n = 1, OF _ token_slot]]
  wp_seq [OF insert_view [OF _ token_slot]]
lemmas comm_seqs = wp_seq [OF query_view [where n = 1, OF _ comm_slot]] wp_seq [OF delete_view [where n = 1, OF _ comm_slot]]
  wp_seq [OF insert_view [OF _ comm_slot]]

lemmas parse_seqs = wp_then [of "UserParseJson F js u" for F js u] wp_then [of "as_msgcode x" for x]
  wp_then [of "code_until m" for m] wp_then [of "UserInsert db u w" for db u w]
  wp_then [of "UserQueryReturnItemNum db u w" for db u w] wp_then [of "case_option a f r" for a f r]

lemma wp_finish: "(\<And>t. P (t, s)) \<Longrightarrow> wp P (finish r s)"
  by (auto simp: wp_def dest: finish_state)

text \<open>The path of \<open>verifyAfter\<close> that makes an account and a session.\<close>

lemma verifyAfter_accepts:
  assumes s: "sys_ok s" "has_room (Suc (Suc 0)) s" "sview s Comm p = Some (OMsgCode m)" "sview s Token token = None"
    and m: "code_until m = Some until" "m_code m = c"
    and r: "fp_ok (e_fp e)" "UserParseJson (e_fp e) req user0 = Some r" "u_phone r = p" "length p = 11"
      "u_password r = c" "e_time e 0 \<le> until" "token = new_token (e_uuid e)" "length token = 16"
      "u = (phone_user p (e_time e 1) token)\<lparr>u_id := i\<rparr>"
    and c: "length c = 6"
    and db: "UserInsert (e_db e) (phone_user p (e_time e 1) token) (s_world s) = Some ((1, u), w')"
  shows "\<exists>t s'. verifyAfter e req s = Some (t, s') \<and> sys_ok s' \<and> sview s' Token token = Some (OUser u)
    \<and> s_world s' = w' \<and> s_tokenFreshTime s' = s_tokenFreshTime s"
proof -
  from query_ex [OF s(1) comm_slot, of p "Suc (Suc 0)"] s(2,3)
  obtain a where a: "query CACHE_COMM p s = Some (Some (OMsgCode m), a)" "sys_ok a" "sview a = sview s"
    "same_rest s a" "has_room (Suc (Suc 0)) a" by auto
  from delete_ex [OF a(2) comm_slot, of p "Suc (Suc 0)"] a(5)
  obtain b where b: "delete_obj CACHE_COMM p a = Some b" "sys_ok b"
    "sview b = (sview a)(Comm := (sview a Comm)(p := None))" "same_rest a b" "has_room (Suc (Suc 0)) b" by auto
  have w: "s_world b = s_world s" "s_tokenFreshTime b = s_tokenFreshTime s"
    using a(4) b(4) by (simp_all add: same_rest_def)
  obtain t where t: "UserGenerateJson (e_fp e) u (Some ''id createTime lastModifyTime'') = Some t" "length t < MAX_LINE"
    using phone_reply [OF r(4,8,9)] by blast
  have "sys_ok (b\<lparr>s_world := w'\<rparr>)" "has_room (Suc (Suc 0)) (b\<lparr>s_world := w'\<rparr>)" "sview (b\<lparr>s_world := w'\<rparr>) Token token = None"
    using b(2,3,5) a(3) s(4) by simp_all
  from insert_ex [OF this(1) token_slot this(2), of e token "OUser u"] this(3)
  obtain s' where s': "insert_obj e CACHE_TOKEN token (OUser u) (b\<lparr>s_world := w'\<rparr>) = Some s'" "sys_ok s'"
    "sview s' Token token = Some (OUser u)" "same_rest (b\<lparr>s_world := w'\<rparr>) s'" by auto
  have "verifyAfter e req s = Some (t, s')"
    using r(2,3,4,5,6) c a(1) b(1) m db w(1) s'(1) t
    by (simp add: verifyAfter_def Let_def r(7) [symmetric] finish_def)
  then show ?thesis using s' w(2) by (auto simp: same_rest_def)
qed

section \<open>A concrete registration\<close>

text \<open>
  The witnesses' database: it counts the statements, and the first four are the count of accounts, the
  test for a duplicate, the insertion and the identifier.
\<close>

definition flow_db :: "nat mysql" where
  "flow_db = demo_db\<lparr>mysql_store_result := (\<lambda>w. Some (if w = 1 then [[Some ''0'']] else if w = 2 then [] else [[Some ''1'']]))\<rparr>"

definition flow_env :: "(int, nat) env" where
  "flow_env = demo_env\<lparr>e_db := flow_db\<rparr>"

lemma flow_simps [simp]:
  "e_fp flow_env = int_fp" "e_db flow_env = flow_db" "e_time flow_env i = 100" "e_uuid flow_env = replicate 16 0"
  "exec_db flow_db sql w = (1, Suc w)"
  "query_db flow_db sql w = (Some (if w = 0 then [[Some ''0'']] else if w = 1 then [] else [[Some ''1'']]), Suc w)"
  by (simp_all add: flow_env_def demo_env_def flow_db_def query_db_def exec_db_def demo_db_def)

lemma small_numbers: "atoi ''0'' = Some 0" "atoi ''1'' = Some 1"
  by (simp_all add: atoi_def is_digit_def digit_val_def code_def in_int_iff)

definition flow_phone :: string where "flow_phone = ''13800000000''"
definition flow_token :: string where "flow_token = ''0000000000000000''"

lemma flow_strings [simp]:
  "length flow_phone = 11" "no_nul flow_phone" "length flow_token = 16" "no_nul flow_token"
  by (simp_all add: flow_phone_def flow_token_def no_nul_def code_def)

lemma time_100: "time_int 100 = 100"
  by (simp add: time_int_def)

lemma flow_token: "new_token (replicate 16 0) = flow_token"
  by (simp add: new_token_def flow_token_def hex_char_def numeral_eq_Suc) code_simp

text \<open>A request with a command and a phone number.\<close>

lemma command_request:
  assumes "fp_ok F" "length c < 10" "no_nul c" "c \<noteq> []" "length p < 16" "no_nul p" "p \<noteq> []"
  obtains t where "UserParseJson F t user0 = Some (user0\<lparr>u_phone := p, u_cmd := c\<rparr>)"
proof -
  let ?kvs = "kv_str F None ''cmd'' c @ kv_str F None ''phone'' p"
  let ?root = "obj_of F ?kvs"
  have "list_all (\<lambda>(n, i). no_nul n \<and> plain_item F i) ?kvs"
    unfolding list_all_append using assms by (intro conjI kv_ok) (simp_all add: no_nul_def code_def)
  from print_obj_of [OF assms(1) this] obtain t where t: "cJSON_Parse F t = Some (Some ?root)" by blast
  have i: "json_int ?root ''id'' 0 = 0" "json_int ?root ''birthday'' 0 = 0" "json_int ?root ''createTime'' 0 = 0"
    "json_int ?root ''lastModifyTime'' 0 = 0"
    unfolding json_int_obj_of member_simps same_nocase_iff user_names by simp_all
  have c: "json_str 10 ?root ''cmd'' [] = Some c" and p: "json_str 16 ?root ''phone'' [] = Some p"
    unfolding json_str_obj_of member_simps same_nocase_iff user_names using assms by (simp_all add: removed_def)
  have z: "json_str k ?root nm [] = Some []"
    if "nm \<in> {''account'', ''password'', ''accType'', ''mail'', ''realName'', ''nickName'', ''prcId'', ''sex'',
      ''country'', ''province'', ''city'', ''district'', ''address'', ''headPortrait'', ''sign'', ''token''}" for k nm
    using that unfolding json_str_obj_of member_simps same_nocase_iff
    by (elim insertE emptyE; simp only: user_names; simp)
  have "UserParseJson F t user0 = Some (user0\<lparr>u_phone := p, u_cmd := c\<rparr>)"
    unfolding UserParseJson_def t user0_def by (simp add: i c p z)
  then show thesis by (rule that)
qed

text \<open>The three requests of the registration, and a state that holds a code.\<close>

definition code_request :: user where
  "code_request = user0\<lparr>u_phone := flow_phone, u_password := ''888888''\<rparr>"

lemma flow_requests:
  obtains req1 req2 req3 where
    "UserParseJson int_fp req1 user0 = Some (user0\<lparr>u_phone := flow_phone, u_cmd := ''regist''\<rparr>)"
    "UserParseJson int_fp req2 user0 = Some code_request"
    "UserParseJson int_fp req3 user0 = Some (user0\<lparr>u_token := flow_token\<rparr>)"
proof -
  obtain req1 where r1: "UserParseJson int_fp req1 user0 = Some (user0\<lparr>u_phone := flow_phone, u_cmd := ''regist''\<rparr>)"
    by (rule command_request [of int_fp "''regist''" flow_phone]) (auto simp: no_nul_def code_def flow_phone_def)
  obtain req2 where r2: "UserParseJson int_fp req2 user0 = Some code_request"
    by (rule request_of [of int_fp code_request])
      (auto simp: code_request_def user_ok_def user0_def in_int_iff no_nul_def code_def flow_phone_def)
  obtain req3 where r3: "UserParseJson int_fp req3 user0 = Some (user0\<lparr>u_token := flow_token\<rparr>)"
    by (rule request_of [of int_fp "user0\<lparr>u_token := flow_token\<rparr>"])
      (auto simp: user_ok_def user0_def in_int_iff no_nul_def code_def flow_token_def)
  from r1 r2 r3 show thesis by (rule that)
qed

definition flow_user :: user where
  "flow_user = (phone_user flow_phone 100 flow_token)\<lparr>u_id := 1\<rparr>"

lemma flow_insert: "UserInsert flow_db (phone_user flow_phone 100 flow_token) 1 = Some ((1, flow_user), 4)"
proof -
  have "user_ok (phone_user flow_phone 100 flow_token)"
    by (simp add: phone_user_def user_ok_def user0_def in_int_iff time_100 no_nul_def code_def flow_phone_def flow_token_def)
  from user_insert_fits [OF this] show ?thesis
    by (simp add: UserInsert_def sprintf_sql_def SQL_LENGTH_def quote_sql_def col_int_def rd_def small_numbers Let_def flow_user_def)
      (simp add: phone_user_def flow_phone_def)
qed

lemma flow_count:
  "UserQueryReturnItemNum flow_db (user0\<lparr>u_phone := flow_phone, u_cmd := ''regist'', u_account := flow_phone\<rparr>) 0 = Some (0, 1)"
  by (simp add: UserQueryReturnItemNum_def UserGetWhereOrSetString_def user0_def int_clause_def str_clause_def
      add_clause_def strcat_sql_def sprintf_sql_def SQL_LENGTH_def clause_text_def sql_head_def sql_end_def sql_flag_def
      Let_def flow_phone_def col_int_def rd_def small_numbers)

lemma flow_code_state:
  assumes "k \<in> {0, 1}"
  obtains s :: "nat sys" where "sys_ok s" "has_room 99 s" "s_world s = k"
    "sview s Comm flow_phone = Some (OMsgCode \<lparr>m_code = ''888888'', m_freshTime = 360, m_timeStamp = n\<rparr>)"
    "sview s Token flow_token = None"
proof -
  obtain s :: "nat sys" where s: "sys_ok s" "has_room 99 s"
    "sview s = (\<lambda>w k. None)(Comm := [flow_phone \<mapsto> OMsgCode \<lparr>m_code = ''888888'', m_freshTime = 360, m_timeStamp = n\<rparr>])"
    using state_with [OF comm_slot, of flow_phone "OMsgCode \<lparr>m_code = ''888888'', m_freshTime = 360, m_timeStamp = n\<rparr>"]
    by blast
  show thesis by (rule that [of "s\<lparr>s_world := k\<rparr>"]) (use s in simp_all)
qed

section \<open>Properties\<close>

text \<open>
  C6: A verification code is needed and used once. If \<open>verifyAfter\<close> changes the database, the cache
  held a code for the phone number, the request carries it, and its deadline had not passed;
  afterwards the cache has no code for the number, so that the next attempt with it is answered by
  \<open>ERR_NOT_FIND_CACHE\<close>.
\<close>

theorem verifyAfter_needs_code:
  fixes s s' :: "'w sys"
  assumes "sys_ok s" "has_room 1 s" "fp_ok (e_fp e)" "UserParseJson (e_fp e) req user0 = Some flt"
    "verifyAfter e req s = Some (t, s')" "s_world s' \<noteq> s_world s"
  shows "(\<exists>m until. sview s Comm (u_phone flt) = Some (OMsgCode m) \<and> u_password flt = m_code m
      \<and> code_until m = Some until \<and> e_time e 0 \<le> until)
    \<and> sview s' Comm (u_phone flt) = None
    \<and> (\<exists>s2. verifyAfter e req s' = Some (reply_text e ERR_NOT_FIND_CACHE, s2) \<and> s_world s2 = s_world s')"
proof -
  define Q where "Q = (\<lambda>s' :: 'w sys. (\<exists>m until. sview s Comm (u_phone flt) = Some (OMsgCode m) \<and> u_password flt = m_code m
      \<and> code_until m = Some until \<and> e_time e 0 \<le> until) \<and> sys_ok s' \<and> sview s' Comm (u_phone flt) = None
      \<and> length (u_phone flt) = 11 \<and> length (u_password flt) = 6)"
  define P where "P = (\<lambda>(t :: string, s' :: 'w sys). s_world s' = s_world s \<or> Q s')"
  have room: "has_room (Suc 0) s" using assms(2) by simp
  have "wp P (verifyAfter e req s)"
    unfolding verifyAfter_def Let_def
    by (auto intro!: parse_seqs comm_seqs token_seqs wp_rules(4-) wp_finish simp: assms(1,4) room P_def Q_def same_rest_def)
  then have "Q s'" using assms(5,6) by (simp add: wp_def P_def)
  then have s': "sys_ok s'" "sview s' Comm (u_phone flt) = None" and len: "length (u_phone flt) = 11" "length (u_password flt) = 6"
    by (simp_all add: Q_def)
  obtain s3 where s3: "query CACHE_COMM (u_phone flt) s' = Some (sview s' Comm (u_phone flt), s3)" "same_rest s' s3"
    using query_ok [OF s'(1) comm_slot, of "u_phone flt"] by blast
  have "verifyAfter e req s' = Some (reply_text e ERR_NOT_FIND_CACHE, s3)"
    using assms(3,4) len s3(1) s'(2) by (simp add: verifyAfter_def in_int_iff)
  then show ?thesis using \<open>Q s'\<close> s3(2) by (auto simp: same_rest_def Q_def)
qed

lemma verifyAfter_needs_code_witness:
  "\<exists>req s t s' s2. verifyAfter flow_env req s = Some (t, s') \<and> s_world s' = 4
     \<and> verifyAfter flow_env req s' = Some (reply_text flow_env ERR_NOT_FIND_CACHE, s2)"
proof -
  obtain req where r: "UserParseJson (e_fp flow_env) req user0 = Some code_request"
    using flow_requests unfolding flow_simps(1) by blast
  obtain s :: "nat sys" where s: "sys_ok s" "has_room 99 s" "s_world s = 1"
    "sview s Comm flow_phone = Some (OMsgCode \<lparr>m_code = ''888888'', m_freshTime = 360, m_timeStamp = 100\<rparr>)"
    "sview s Token flow_token = None"
    by (rule flow_code_state [of 1 100]) auto
  have room: "has_room (Suc (Suc 0)) s" "has_room 1 s" using has_room_mono [OF s(2)] by simp_all
  have "code_until \<lparr>m_code = ''888888'', m_freshTime = 360, m_timeStamp = 100\<rparr> = Some 460"
    by (simp add: code_until_def in_int_iff)
  from verifyAfter_accepts [OF s(1) room(1) s(4,5) this _ _ r, of "''888888''" flow_user 1 4]
  obtain t s' where run: "verifyAfter flow_env req s = Some (t, s')" "s_world s' = 4"
    using flow_insert by (auto simp: code_request_def flow_token flow_user_def s(3))
  then have "s_world s' \<noteq> s_world s" using s(3) by simp
  from verifyAfter_needs_code [OF s(1) room(2) _ r run(1) this]
  obtain s2 where "verifyAfter flow_env req s' = Some (reply_text flow_env ERR_NOT_FIND_CACHE, s2)" by auto
  then show ?thesis using run by (intro exI [of _ req] exI [of _ s] exI [of _ t] exI [of _ s'] exI [of _ s2]) simp
qed

text \<open>
  C31: An expired code shuts its phone number out. When the cache holds a code for the number,
  \<open>verifyBefore\<close> stores no new one, whatever it answers; once the old code is out of date, every
  \<open>verifyAfter\<close> is answered by \<open>ERR_MSG_CODE_OUT_OF_DATE\<close> and leaves the cache as it is.
\<close>

theorem expired_code_locks_out:
  fixes s s1 :: "'w sys"
  assumes "sys_ok s" "has_room 1 s" "sview s Comm (u_phone flt) = Some (OMsgCode m)" "code_until m = Some until"
    "UserParseJson (e_fp e) req user0 = Some flt" "verifyBefore e req s = Some (t, s1)"
    "fp_ok (e_fp e')" "UserParseJson (e_fp e') req' user0 = Some flt'" "u_phone flt' = u_phone flt"
    "length (u_phone flt) = 11" "length (u_password flt') = 6" "until < e_time e' 0"
  shows "sview s1 = sview s
    \<and> (\<exists>s2. verifyAfter e' req' s1 = Some (reply_text e' ERR_MSG_CODE_OUT_OF_DATE, s2) \<and> sview s2 = sview s)"
proof -
  define P where "P = (\<lambda>(t :: string, s1 :: 'w sys). sys_ok s1 \<and> sview s1 = sview s)"
  have room: "has_room (Suc 0) s" using assms(2) by simp
  have "wp P (verifyBefore e req s)"
    unfolding verifyBefore_def Let_def
    by (auto intro!: parse_seqs comm_seqs wp_rules(4-) wp_finish simp: P_def assms(1,3,5) room)
  then have s1: "sys_ok s1" "sview s1 = sview s" using assms(6) by (simp_all add: wp_def P_def)
  obtain s2 where s2: "query CACHE_COMM (u_phone flt) s1 = Some (sview s1 Comm (u_phone flt), s2)" "sview s2 = sview s1"
    using query_ok [OF s1(1) comm_slot, of "u_phone flt"] by blast
  then have "verifyAfter e' req' s1 = Some (reply_text e' ERR_MSG_CODE_OUT_OF_DATE, s2)"
    using assms(3,4,7-12) s1(2) by (simp add: verifyAfter_def in_int_iff)
  then show ?thesis using s1 s2(2) by auto
qed

lemma expired_code_locks_out_witness:
  "\<exists>req req' s t s1 s2. verifyBefore flow_env req s = Some (t, s1)
     \<and> verifyAfter flow_env req' s1 = Some (reply_text flow_env ERR_MSG_CODE_OUT_OF_DATE, s2)"
proof -
  obtain req1 req2 where r: "UserParseJson (e_fp flow_env) req1 user0 = Some (user0\<lparr>u_phone := flow_phone, u_cmd := ''regist''\<rparr>)"
    "UserParseJson (e_fp flow_env) req2 user0 = Some code_request"
    using flow_requests unfolding flow_simps(1) by blast
  let ?m = "\<lparr>m_code = ''888888'', m_freshTime = 360, m_timeStamp = -1000\<rparr>"
  obtain s :: "nat sys" where s: "sys_ok s" "has_room 99 s" "s_world s = 0" "sview s Comm flow_phone = Some (OMsgCode ?m)"
    by (rule flow_code_state [of 0 "-1000"]) auto
  have room: "has_room (Suc 0) s" "has_room 1 s" using has_room_mono [OF s(2)] by simp_all
  have u: "code_until ?m = Some (-640)" by (simp add: code_until_def in_int_iff)
  have "sys_ok (s\<lparr>s_world := 1\<rparr>)" "has_room (Suc 0) (s\<lparr>s_world := 1\<rparr>)" using s(1) room(1) by simp_all
  from query_ex [OF this(1) comm_slot, of flow_phone "Suc 0"] this(2) s(4)
  obtain a where a: "query CACHE_COMM flow_phone (s\<lparr>s_world := 1\<rparr>) = Some (Some (OMsgCode ?m), a)" "sys_ok a" "has_room (Suc 0) a"
    by auto
  from insert_ex [OF a(2) comm_slot a(3)] obtain s1 where
    "insert_obj flow_env CACHE_COMM flow_phone (OMsgCode \<lparr>m_code = ''888888'', m_freshTime = 360, m_timeStamp = 100\<rparr>) a = Some s1"
    by blast
  then have run: "verifyBefore flow_env req1 s = Some (ok_text flow_env, s1)"
    using a(1) flow_count r(1) u by (simp add: verifyBefore_def s(3) msgGatewayCode_6 time_100)
  from expired_code_locks_out [OF s(1) room(2) _ u r(1) run _ r(2)] s(4)
  obtain s2 where "verifyAfter flow_env req2 s1 = Some (reply_text flow_env ERR_MSG_CODE_OUT_OF_DATE, s2)"
    by (auto simp: code_request_def)
  then show ?thesis using run by (intro exI [of _ req1] exI [of _ req2] exI [of _ s] exI [of _ "ok_text flow_env"] exI [of _ s1] exI [of _ s2]) simp
qed

text \<open>
  C3: Registration works. From any state with room in which the number has no code, a client that asks
  for a code to register a number that has no account, sends the code 888888 back within its 360
  seconds, and whose insertion the database accepts, holds a session: both requests are answered, and
  a status request with the new token is answered by ok as long as the token is fresh.
\<close>

theorem registration_succeeds:
  fixes s :: "'w sys"
  assumes s: "sys_ok s" "has_room 3 s" "sview s Comm (u_phone r1) = None" "sview s Token token = None"
    and fp: "fp_ok (e_fp e1)" "fp_ok (e_fp e2)" "fp_ok (e_fp e3)"
    and r1: "UserParseJson (e_fp e1) req1 user0 = Some r1" "u_cmd r1 = ''regist''" "length (u_phone r1) = 11"
      "UserQueryReturnItemNum (e_db e1) (r1\<lparr>u_account := u_phone r1\<rparr>) (s_world s) = Some (0, w1)"
    and r2: "UserParseJson (e_fp e2) req2 user0 = Some r2" "u_phone r2 = u_phone r1" "u_password r2 = ''888888''"
      "in_int (time_int (e_time e1 1) + 360)" "e_time e2 0 \<le> time_int (e_time e1 1) + 360"
      "token = new_token (e_uuid e2)" "length token = 16"
      "u = (phone_user (u_phone r1) (e_time e2 1) token)\<lparr>u_id := i\<rparr>"
      "UserInsert (e_db e2) (phone_user (u_phone r1) (e_time e2 1) token) w1 = Some ((1, u), w2)"
    and r3: "UserParseJson (e_fp e3) req3 user0 = Some r3" "u_token r3 = token"
      "e_time e3 0 \<le> token_until (s_tokenFreshTime s) u"
  shows "\<exists>s1 t s2 s3. verifyBefore e1 req1 s = Some (ok_text e1, s1)
    \<and> verifyAfter e2 req2 s1 = Some (t, s2) \<and> sview s2 Token token = Some (OUser u)
    \<and> userStatus e3 req3 s2 = Some (ok_text e3, s3)"
proof -
  let ?p = "u_phone r1"
  define m where "m = \<lparr>m_code = ''888888'', m_freshTime = 360, m_timeStamp = time_int (e_time e1 1)\<rparr>"
  have gw: "msgGatewayCode (e_time e1 (Suc 0)) MSG_WANGYI 6 msgcode0 = (0, m)"
    by (simp add: msgGatewayCode_def msgWangyiCode_def msgcode0_def m_def)
  have until: "code_until m = Some (time_int (e_time e1 1) + 360)" "m_code m = ''888888''"
    using r2(4) by (simp_all add: code_until_def m_def)
  have room: "has_room (Suc (Suc (Suc 0))) (s\<lparr>s_world := w1\<rparr>)" using s(2) by (simp add: eval_nat_numeral)
  have "sys_ok (s\<lparr>s_world := w1\<rparr>)" using s(1) by simp
  from query_ex [OF this comm_slot, of ?p "Suc (Suc (Suc 0))"] room s(3)
  obtain a where a: "query CACHE_COMM ?p (s\<lparr>s_world := w1\<rparr>) = Some (None, a)" "sys_ok a" "sview a = sview s"
    "same_rest (s\<lparr>s_world := w1\<rparr>) a" "has_room (Suc (Suc (Suc 0))) a" by auto
  from insert_ex [OF a(2) comm_slot a(5), of e1 ?p "OMsgCode m"] a(3) s(3)
  obtain s1 where s1: "insert_obj e1 CACHE_COMM ?p (OMsgCode m) a = Some s1" "sys_ok s1"
    "sview s1 = (sview s)(Comm := (sview s Comm)(?p \<mapsto> OMsgCode m))" "same_rest a s1" "has_room (Suc (Suc 0)) s1" by auto
  have before: "verifyBefore e1 req1 s = Some (ok_text e1, s1)"
    using r1 a(1) s1(1) gw fp(1) by (simp add: verifyBefore_def)
  have w: "s_world s1 = w1" "s_tokenFreshTime s1 = s_tokenFreshTime s"
    using a(4) s1(4) by (simp_all add: same_rest_def)
  have "sview s1 Comm ?p = Some (OMsgCode m)" "sview s1 Token token = None" using s1(3) s(4) by simp_all
  from verifyAfter_accepts [OF s1(2,5) this until fp(2) r2(1,2) r1(3) r2(3,5-8)] r2(9)
  obtain t s2 where s2: "verifyAfter e2 req2 s1 = Some (t, s2)" "sys_ok s2" "sview s2 Token token = Some (OUser u)"
    "s_tokenFreshTime s2 = s_tokenFreshTime s" by (auto simp: w)
  have live: "\<not> expired e3 s2 u" using r3(3) s2(4) by (simp add: expired_def)
  obtain s3 where "check_token e3 token s2 = Some (Inr u, s3)"
    using check_token_good [OF s2(2,3) live] by blast
  then have "userStatus e3 req3 s2 = Some (ok_text e3, s3)"
    using r3(1,2) fp(3) by (simp add: userStatus_def)
  then show ?thesis using before s2(1,3) by blast
qed

lemma registration_succeeds_witness:
  "\<exists>req1 req2 req3 s s1 t s2 s3. verifyBefore flow_env req1 s = Some (ok_text flow_env, s1)
    \<and> verifyAfter flow_env req2 s1 = Some (t, s2) \<and> userStatus flow_env req3 s2 = Some (ok_text flow_env, s3)"
proof -
  obtain req1 req2 req3 where r: "UserParseJson (e_fp flow_env) req1 user0 = Some (user0\<lparr>u_phone := flow_phone, u_cmd := ''regist''\<rparr>)"
    "UserParseJson (e_fp flow_env) req2 user0 = Some code_request"
    "UserParseJson (e_fp flow_env) req3 user0 = Some (user0\<lparr>u_token := flow_token\<rparr>)"
    using flow_requests unfolding flow_simps(1) by blast
  have s: "sys_ok start_sys" "has_room 3 start_sys" "sview start_sys Comm (u_phone (user0\<lparr>u_phone := flow_phone, u_cmd := ''regist''\<rparr>)) = None"
    "sview start_sys Token flow_token = None"
    using start_sys_ok by (simp_all add: has_room_def start_sys_def)
  have t: "token_until 1 flow_user = 3700" by (simp add: token_until_def phone_user_def time_100 flow_user_def)
  from registration_succeeds [OF s _ _ _ r(1) _ _ _ r(2) _ _ _ _ _ _ _ _ r(3),
      where ?w1.0 = 1 and ?w2.0 = 4 and u = flow_user and i = 1] flow_insert flow_count t
  obtain s1 t2 s2 s3 where "verifyBefore flow_env req1 start_sys = Some (ok_text flow_env, s1)"
    "verifyAfter flow_env req2 s1 = Some (t2, s2)" "userStatus flow_env req3 s2 = Some (ok_text flow_env, s3)"
    by (auto simp: time_100 in_int_iff flow_token start_sys_rest code_request_def flow_user_def)
  then show ?thesis
    by (intro exI [of _ req1] exI [of _ req2] exI [of _ req3] exI [of _ start_sys] exI [of _ s1] exI [of _ t2] exI [of _ s2] exI [of _ s3]) simp
qed

text \<open>Logging out takes the token out of the cache, whatever the database answers.\<close>

lemma userLogout_removes:
  assumes s: "sys_ok s" "sview s Token (u_token flt) = Some (OUser u)" "\<not> expired e s u" "in_int (u_id u)"
    and r: "fp_ok (e_fp e)" "UserParseJson (e_fp e) req user0 = Some flt"
  shows "\<exists>t s1. userLogout e req s = Some (t, s1) \<and> sview s1 Token (u_token flt) = None"
proof -
  obtain a where a: "check_token e (u_token flt) s = Some (Inr u, a)" "sys_ok a" "sview a = sview s"
    using check_token_good [OF s(1-3)] by blast
  obtain b where b: "delete_obj CACHE_TOKEN (u_token flt) a = Some b" "sys_ok b" "sview b Token (u_token flt) = None"
    using delete_ex [OF a(2) token_slot, of "u_token flt" 0] by auto
  let ?f = "user0\<lparr>u_id := u_id u, u_token := '' ''\<rparr>"
  have "user_ok ?f" using s(4) by (simp add: user_ok_def user0_def no_nul_def code_def in_int_iff)
  then obtain k w where m: "UserModify (e_db e) ?f (s_world b) = Some (k, w)"
    using user_modify_defined(1) [of ?f "e_db e" "s_world b"] by auto
  have k: "in_int k" by (rule UserModify_in_int [OF m])
  have "in_int 0" by (simp add: in_int_iff)
  from makeErrorJson_fits [OF r(1) this gerErrMsg_length] obtain t0 where
    t0: "makeErrorJson (e_fp e) 0 (gerErrMsg 0) = Some t0" "length t0 < MAX_LINE" by blast
  have "userLogout e req s = (if k \<noteq> 1 then finish (err_reply e k) (b\<lparr>s_world := w\<rparr>)
      else finish (Some t0) (b\<lparr>s_world := w\<rparr>))"
    using r(2) a(1) b(1) m t0(1) by (simp add: userLogout_def Let_def)
  then obtain t where run: "userLogout e req s = Some (t, b\<lparr>s_world := w\<rparr>)"
    using r(1) k t0(2) by (cases "k = 1") (simp_all add: finish_def [of "Some t0"])
  then show ?thesis using b(3) by (intro exI [of _ t] exI [of _ "b\<lparr>s_world := w\<rparr>"]) simp
qed

text \<open>
  No password is needed to log in. A request that names an account and nothing else is looked up by
  the account alone; when the database finds it, the caller gets a session as its user.
\<close>

theorem userLogin_no_password:
  assumes s: "sys_ok s" "has_room 1 s" "sview s Token token = None"
    and r: "fp_ok (e_fp e)" "UserParseJson (e_fp e) req user0 = Some (user0\<lparr>u_account := a\<rparr>)" "a \<noteq> []" "length a < 20"
    and db: "query_db (e_db e) (''select * from user where account='' @ quote_sql a @ '' ;'') (s_world s) = (Some [row], w1)"
      "user_of_row row = Some u" "UserModify (e_db e) (user0\<lparr>u_id := u_id u, u_token := token\<rparr>) w1 = Some (1, w2)"
    and u': "token = new_token (e_uuid e)" "u' = u\<lparr>u_token := token, u_tokenFreshTimeStamp := time_int (e_time e 0)\<rparr>"
      "UserGenerateJson (e_fp e) u' (Some ''id createTime lastModifyTime'') = Some t" "length t < MAX_LINE"
  shows "\<exists>s'. userLogin e req s = Some (t, s') \<and> sview s' Token token = Some (OUser u')"
proof -
  have "UserGetWhereOrSetString (user0\<lparr>u_account := a\<rparr>) W_AND = Some (''where account='' @ quote_sql a)"
    using r(3,4)
    by (simp add: UserGetWhereOrSetString_def user0_def int_clause_def str_clause_def add_clause_def strcat_sql_def
        sprintf_sql_def SQL_LENGTH_def clause_text_def quote_sql_def sql_head_def sql_end_def sql_flag_def Let_def)
  then have q: "UserQueryrReturnResult (e_db e) None (user0\<lparr>u_account := a\<rparr>) 0 0 (s_world s) = Some ((1, Some [u]), w1)"
    using db(1,2) r(4) by (simp add: UserQueryrReturnResult_def sprintf_sql_def SQL_LENGTH_def quote_sql_def)
  define s1 where "s1 = s\<lparr>s_world := w1\<rparr>"
  have s1: "sys_ok s1" "has_room (Suc 0) s1" "sview s1 Token token = None" "s_world s1 = w1"
    using s by (simp_all add: s1_def)
  obtain a1 where a1: "(if length (u_token u) = 16 then delete_obj CACHE_TOKEN (u_token u) s1 else Some s1) = Some a1"
    "sys_ok a1" "has_room (Suc 0) a1" "sview a1 Token token = None" "s_world a1 = w1"
  proof (cases "length (u_token u) = 16")
    case True
    then show thesis
      using that delete_ex [OF s1(1) token_slot, of "u_token u" "Suc 0"] s1(2-4) by (auto simp: same_rest_def)
  qed (use that s1 in simp)
  from insert_ex [OF a1(2) token_slot a1(3), of e token "OUser u'"] a1(4,5)
  obtain s2 where s2: "insert_obj e CACHE_TOKEN token (OUser u') a1 = Some s2" "sview s2 Token token = Some (OUser u')"
    "s_world s2 = w1" by (auto simp: same_rest_def)
  have id: "u_id u' = u_id u" "u_token u' = token" by (simp_all add: u'(2))
  have "userLogin e req s = Some (t, s2\<lparr>s_world := w2\<rparr>)"
    using q r(2) a1(1) s2(1,3) db(3) u'(3,4)
    by (cases "length (u_token u) = 16")
      (simp_all add: userLogin_def Let_def s1_def [symmetric] u'(1) [symmetric] u'(2) [symmetric] id finish_def)
  then show ?thesis using s2(2) by simp
qed

definition login_env :: "(int, nat) env" where
  "login_env = flow_env\<lparr>e_db := demo_db\<lparr>mysql_store_result :=
     (\<lambda>w. Some [[Some ''1'', Some ''bob'', Some ''pw''] @ replicate 18 (Some [])])\<rparr>\<rparr>"

lemma bob_logs_in:
  fixes s :: "nat sys"
  assumes s: "sys_ok s" "has_room 1 s" "sview s Token flow_token = None"
  obtains req t s' u where "userLogin login_env req s = Some (t, s')" "sview s' Token flow_token = Some (OUser u)"
    "u_password u = ''pw''" "u_id u = 1"
proof -
  let ?a = "user0\<lparr>u_account := ''bob''\<rparr>" and ?w = "s_world s"
  have env: "e_fp login_env = int_fp" "e_uuid login_env = replicate 16 0" "e_time login_env 0 = 100"
    by (simp_all add: login_env_def)
  have x: "exec_db (e_db login_env) sql w = (1, Suc w)" for sql w
    by (simp add: login_env_def exec_db_def demo_db_def)
  have ok: "user_ok ?a" by (simp add: user_ok_def user0_def in_int_iff no_nul_def code_def)
  obtain req where r: "UserParseJson (e_fp login_env) req user0 = Some ?a"
    by (rule request_of [of "e_fp login_env", OF _ ok]) (auto simp: user0_def env)
  let ?row = "[Some ''1'', Some ''bob'', Some ''pw''] @ replicate 18 (Some [])"
  define u where "u = user0\<lparr>u_id := 1, u_account := ''bob'', u_password := ''pw''\<rparr>"
  define u' where "u' = u\<lparr>u_token := flow_token, u_tokenFreshTimeStamp := time_int (e_time login_env 0)\<rparr>"
  have "atoi [] = Some 0" by (simp add: atoi_def in_int_iff)
  then have row: "user_of_row ?row = Some u"
    by (simp add: user_of_row_def col_int_def col_str_def rd_def small_numbers user0_def u_def)
  have q: "query_db (e_db login_env) sql ?w = (Some [?row], Suc ?w)" for sql
    by (simp add: login_env_def query_db_def demo_db_def)
  have "user_ok (user0\<lparr>u_id := u_id u, u_token := flow_token\<rparr>)"
    by (simp add: u_def user_ok_def user0_def in_int_iff flow_token_def no_nul_def code_def)
  from user_modify_defined(1) [OF this, of "e_db login_env" "Suc ?w"]
  have m: "UserModify (e_db login_env) (user0\<lparr>u_id := u_id u, u_token := flow_token\<rparr>) (Suc ?w) = Some (1, Suc (Suc ?w))"
    by (auto simp: UserModify_def bind_eq_Some_conv x)
  let ?ps = "[(''token'', flow_token), (''account'', ''bob''), (''password'', ''pw'')]"
  have "user_members int_fp (Some ''id createTime lastModifyTime'') u' = map (\<lambda>(n, s). (n, cJSON_CreateString int_fp s)) ?ps"
    by (simp add: user_members_def kv_str_def kv_int_def u'_def u_def user0_def removed_def flow_token_def)
  moreover obtain t where "cJSON_Print int_fp (obj_of int_fp (map (\<lambda>(n, s). (n, cJSON_CreateString int_fp s)) ?ps)) = Some t"
    "length t \<le> 7 + sum_list (map (\<lambda>(n, s). 6 * length n + 6 * length s + 9) ?ps)"
    using strings_document [of ?ps int_fp] by auto
  ultimately have t: "UserGenerateJson (e_fp login_env) u' (Some ''id createTime lastModifyTime'') = Some t" "length t < MAX_LINE"
    by (simp_all add: UserGenerateJson_def user_json_members MAX_LINE_def env flow_token_def)
  have "flow_token = new_token (e_uuid login_env)" by (simp add: env flow_token)
  from userLogin_no_password [OF s _ r _ _ _ row m this u'_def t] q
  obtain s' where "userLogin login_env req s = Some (t, s')" "sview s' Token flow_token = Some (OUser u')"
    by (auto simp: env)
  then show thesis by (rule that) (simp_all add: u'_def u_def)
qed

lemma userLogin_no_password_witness:
  "\<exists>req s t s' u. userLogin login_env req s = Some (t, s') \<and> sview s' Token flow_token = Some (OUser u) \<and> u_password u = ''pw''"
proof -
  have s: "sys_ok start_sys" "has_room 1 start_sys" "sview start_sys Token flow_token = None"
    using start_sys_ok has_room_mono [of 100 start_sys 1] by simp_all
  obtain req t s' u where "userLogin login_env req start_sys = Some (t, s')" "sview s' Token flow_token = Some (OUser u)"
    "u_password u = ''pw''" "u_id u = 1" by (rule bob_logs_in [OF s])
  then show ?thesis by blast
qed

end
