(* ===== verification/SockFlow.thy ===== *)
theory SockFlow
  imports SockProofs VerifyFlow
begin

text \<open>
  A request from the wire to the wire: the frame that arrives, the JSON document in it, the route, the
  handler, and the frame of the reply; and what goes wrong on the way.
\<close>

section \<open>Texts without a NUL\<close>

lemma no_nul_simps [simp]:
  "no_nul []" "no_nul (c # s) \<longleftrightarrow> code c \<noteq> 0 \<and> no_nul s" "no_nul (s @ t) \<longleftrightarrow> no_nul s \<and> no_nul t"
  by (auto simp: no_nul_def)

lemma escape_no_nul: "no_nul (escape c)"
proof -
  have "code (hex_lower n) \<noteq> 0" if "n < 16" for n using that by (simp add: hex_lower_def code_char_of)
  then have "code (hex_lower (n mod 16)) \<noteq> 0" for n by simp
  then have "no_nul (show_u04x n)" for n
    unfolding show_u04x_def no_nul_simps by (simp only: simp_thms) (simp add: code_def)
  then show ?thesis
    by (simp add: escape_def flagged_def short_escape_def) (auto simp: code_def)
qed

lemma quoted_no_nul: "no_nul (quoted s)"
proof -
  have "no_nul (concat (map escape s))" by (induction s) (auto simp: escape_no_nul)
  then show ?thesis by (simp add: quoted_def code_def)
qed

lemma show_nat_no_nul: "no_nul (show_nat n)"
proof -
  have "code c \<noteq> 0" if "is_digit c" for c using that by (auto simp: is_digit_def code_def)
  then show ?thesis using show_nat_digits [of n] by (auto simp: no_nul_def list_all_iff)
qed

lemma show_int_no_nul: "no_nul (show_int k)"
  by (simp add: show_int_def show_nat_no_nul code_def)

lemma blanks_no_nul [simp]: "no_nul (tabs n)" "no_nul (nl fmt)"
  by (induction n) (auto simp: tabs_def nl_def code_def)

lemma join_entries_no_nul: "list_all no_nul es \<Longrightarrow> no_nul (join_entries fmt es)"
  by (induction fmt es rule: join_entries.induct) (auto simp: code_def)

lemma join_members_no_nul: "list_all (\<lambda>(n, e). no_nul n \<and> no_nul e) es \<Longrightarrow> no_nul (join_members depth fmt es)"
  by (induction depth fmt es rule: join_members.induct) (auto simp: code_def)

lemma print_no_nul:
  shows "fp_ok F \<Longrightarrow> json_ok F v \<Longrightarrow> print_value F depth fmt v = Some t \<Longrightarrow> no_nul t"
    and "fp_ok F \<Longrightarrow> list_all (json_ok F) vs \<Longrightarrow> print_values F depth fmt vs = Some ts \<Longrightarrow> list_all no_nul ts"
    and "fp_ok F \<Longrightarrow> list_all (json_ok F) vs \<Longrightarrow> print_members F depth fmt vs = Some ps \<Longrightarrow> list_all (\<lambda>(n, e). no_nul n \<and> no_nul e) ps"
proof (induction F depth fmt v and F depth fmt vs and F depth fmt vs arbitrary: t and ts and ps
    rule: print_value_print_values_print_members.induct)
  case (1 F depth fmt ty vs vi vd nm cs)
  show ?case
  proof (cases ty)
    case cJSON_Array
    then show ?thesis using 1
      by (auto simp: print_array_def Let_def list_all_iff bind_eq_Some_conv code_def join_entries_no_nul split: if_splits)
  next
    case cJSON_Object
    then have "list_all (json_ok F) cs" using "1.prems"(2) by (auto simp: list_all_iff)
    then have "list_all (\<lambda>(n, e). no_nul n \<and> no_nul e) es" if "print_members F (depth + 1) fmt cs = Some es" for es
      using 1 cJSON_Object that by simp
    then show ?thesis using "1.prems"(3) cJSON_Object
      by (auto simp: print_object_def Let_def bind_eq_Some_conv code_def join_members_no_nul split: if_splits)
  next
    case cJSON_Number
    then show ?thesis using 1 by (auto simp: print_number_int show_int_no_nul)
  next
    case cJSON_String
    then show ?thesis using 1 by (cases vs) (auto simp: print_string_ptr_quoted quoted_no_nul)
  qed (use 1 in \<open>auto simp: code_def\<close>)
next
  case (5 F depth fmt c cs)
  then show ?case by (cases "c_string c") (auto simp: bind_eq_Some_conv print_string_ptr_quoted quoted_no_nul print_string_ptr_def [of None])
qed (auto simp: bind_eq_Some_conv)

section \<open>The text in the buffer\<close>

text \<open>What follows the text in the buffer, up to a NUL, is read with it.\<close>

definition residue :: "u8 list \<Rightarrow> string" where
  "residue tail = map (\<lambda>b. char_of (unat b)) (takeWhile (\<lambda>b. b \<noteq> 0) tail)"

lemma char_byte_0: "char_byte c = 0 \<longleftrightarrow> code c = 0"
  by (simp add: char_byte_def code_def unat_eq_0 [symmetric] unat_of_nat nat_of_char_less_256)

lemma char_of_byte: "char_of (unat (char_byte c)) = c"
  by (simp add: char_byte_def unat_of_nat nat_of_char_less_256)

lemma cstr_bytes:
  assumes "no_nul s" "0 \<in> set tail"
  shows "cstr (bytes s @ tail) = Some (s @ residue tail)"
proof -
  have "takeWhile (\<lambda>b. b \<noteq> 0) (bytes s @ tail) = bytes s @ takeWhile (\<lambda>b. b \<noteq> 0) tail"
    using assms(1) by (intro takeWhile_append2) (auto simp: bytes_def no_nul_def list_all_iff char_byte_0)
  moreover have "map (\<lambda>b. char_of (unat b)) (bytes s) = s"
    by (induction s) (simp_all add: bytes_def char_of_byte)
  ultimately show ?thesis using assms(2) by (simp add: cstr_def residue_def)
qed

lemma cstr_zeros: "no_nul s \<Longrightarrow> 0 < n \<Longrightarrow> cstr (bytes s @ replicate n 0) = Some s"
  using cstr_bytes [of s "replicate n 0"] by (cases n) (auto simp: residue_def)

section \<open>Handling a request\<close>

lemma print_named: "print_value F d fmt (set_string nm v) = print_value F d fmt v"
  by (cases v) (simp add: set_string_def print_number_def split: cjtype.splits)

text \<open>The document a client sends.\<close>

definition request :: "'d fp \<Rightarrow> string \<Rightarrow> 'd cJSON \<Rightarrow> 'd cJSON" where
  "request F route prm = obj_of F [(''route'', cJSON_CreateString F route), (''prm'', prm)]"

lemma request_item:
  "cJSON_GetObjectItem (request F route prm) ''route'' = Some (set_string (Some ''route'') (cJSON_CreateString F route))"
  "cJSON_GetObjectItem (request F route prm) ''prm'' = Some (set_string (Some ''prm'') prm)"
  by (simp_all add: request_def GetObjectItem_obj_of tolower_def code_def)

lemma request_json_ok:
  assumes "fp_ok F" "no_nul route" "json_ok F prm"
  shows "json_ok F (request F route prm)"
proof -
  have "json_ok F (set_string (Some ''prm'') prm)" using assms(3) by (cases prm) (auto simp: set_string_def split: cjtype.splits)
  moreover have "json_ok F (set_string (Some ''route'') (cJSON_CreateString F route))"
    using plain_item_ok [OF assms(1), of "cJSON_CreateString F route"] assms(2) by simp
  ultimately show ?thesis by (simp add: request_def obj_of_def set_string_def code_def)
qed

lemma run_request_some:
  assumes "mysqlConnectionPool_GetOneConn (v_client ce) (v_pool sv) (v_out sv) = Some (blk, p, out)" "routes_ok (v_routes sv)"
    "map_of service_routes route = Some f"
  shows "\<exists>t. routes_ok t \<and> (\<forall>st. run_request ce (Some route) st sv =
    call_handler ce f (st\<lparr>f_sql := blk\<rparr>) (sv\<lparr>v_pool := p, v_out := out, v_routes := t\<rparr>))"
proof -
  obtain t where "get_function_route (v_routes sv) (bytes route) = Some (t, Some f)" "routes_ok t"
    using get_function_route_ok [OF assms(2)] assms(3) by metis
  then show ?thesis using assms(1) by (intro exI [of _ t]) (simp add: run_request_def Let_def)
qed

lemma call_handler_text:
  assumes "cstr (f_buffer st) = Some req" "f_sql st \<noteq> None" "f_used st \<le> MAX_LINE" "length (f_buffer st) = MAX_LINE"
    "run_route (v_env ce) f req (v_sys sv) = Some (reply, sys)" "length reply < MAX_LINE"
  shows "\<exists>buf. length buf = MAX_LINE \<and> take (length reply) buf = bytes reply
    \<and> call_handler ce f st sv = Some (st\<lparr>f_buffer := buf, f_used := length reply\<rparr>, sv\<lparr>v_sys := sys\<rparr>)"
proof -
  let ?old = "if f = Route.say_hello \<or> f = Route.r_31501 then replicate MAX_LINE 0 else f_buffer st"
  have l: "length ?old = MAX_LINE" using assms(4) by simp
  have w: "mem_write ?old 0 (bytes reply @ [0]) = Some ((bytes reply @ [0]) @ drop (length reply + 1) ?old)"
    using mem_write_in [of 0 "bytes reply @ [0]" ?old] l assms(6) by simp
  have r: "run_route (v_env ce) f (if f = Route.say_hello then [] else req) (v_sys sv) = Some (reply, sys)"
    using assms(5) by (auto simp: say_hello_def)
  have c: "(if f = Route.say_hello then Some [] else cstr (f_buffer st)) = Some (if f = Route.say_hello then [] else req)"
    using assms(1) by simp
  have "call_handler ce f st sv = Some (st\<lparr>f_buffer := (bytes reply @ [0]) @ drop (length reply + 1) ?old, f_used := length reply\<rparr>, sv\<lparr>v_sys := sys\<rparr>)"
    unfolding call_handler_def c using assms(2,3) r w by (simp del: append_assoc)
  moreover have "length ((bytes reply @ [0]) @ drop (length reply + 1) ?old) = MAX_LINE" using l assms(6) by simp
  ultimately show ?thesis by (intro exI [of _ "(bytes reply @ [0]) @ drop (length reply + 1) ?old"]) simp
qed

lemma size_t_small:
  assumes "n \<le> 1024"
  shows "nat (int n mod 2 ^ 64) = n"
proof -
  have "int n \<le> 1024" using assms by simp
  then have "int n mod 2 ^ 64 = int n" by (intro mod_pos_pos_trivial) auto
  then show ?thesis by simp
qed

text \<open>The end of a request: a plain reply that fits is framed, and the connection goes back.\<close>

lemma send_reply_plain:
  assumes "length (f_buffer st) = MAX_LINE" "14 + f_used st \<le> MAX_LINE" "sk_encFlag (f_sh st) = 0" "f_sql st = Some blk"
    "v_copy ce = memmove_copy \<or> f_used st \<le> 14"
  shows "send_reply ce st sv =
    Some (st\<lparr>f_buffer := frame (v_now ce) (sk_requestType (f_sh st)) 0 (sk_keepAlive (f_sh st)) (take (f_used st) (f_buffer st))
                 @ drop (14 + f_used st) (f_buffer st), f_used := 14 + f_used st, f_written := 14 + f_used st\<rparr>,
          sv\<lparr>v_pool := mysqlConnectionPool_FreeOneConn blk (v_pool sv)\<rparr>)"
proof -
  have n: "nat (int (14 + f_used st) mod 2 ^ 64) = 14 + f_used st"
    by (rule size_t_small) (use assms(2) in \<open>simp add: csize\<close>)
  have "getSocketSendBuff (v_copy ce) (v_enc ce) (v_now ce) (v_rng sv) (Some (f_buffer st)) (f_used st) MAX_LINE
      (sk_requestType (f_sh st)) (sk_encFlag (f_sh st)) (sk_keepAlive (f_sh st)) =
    Some (Some (frame (v_now ce) (sk_requestType (f_sh st)) 0 (sk_keepAlive (f_sh st)) (take (f_used st) (f_buffer st))
        @ drop (14 + f_used st) (f_buffer st)), int (14 + f_used st), v_rng sv)"
    unfolding assms(3) by (rule getSocketSendBuff_plain) (use assms in simp_all)
  then show ?thesis unfolding send_reply_def using n assms(4) by (simp add: Let_def)
qed

text \<open>A plain reply that fits and is longer than the header, where C leaves overlapping copies undefined.\<close>

lemma send_reply_standard:
  assumes "14 + f_used st \<le> MAX_LINE" "sk_encFlag (f_sh st) = 0" "v_copy ce = standard_copy" "14 < f_used st"
  shows "send_reply ce st sv = None"
  using assms getSocketSendBuff_standard [of "f_used st"] by (simp add: send_reply_def)

text \<open>The JSON handler from the document to the handler's text; \<open>tail\<close> is what an earlier use of the
  buffer left behind the document.\<close>

lemma json_handle_request:
  assumes F: "F = e_fp (v_env ce)" "fp_ok F" "no_nul route" "json_ok F prm"
    and js: "cJSON_Print F (request F route prm) = Some js" "f_buffer st = bytes js @ tail" "0 \<in> set tail"
    and pt: "cJSON_Print F prm = Some pt" "length pt < MAX_LINE"
  shows "json_handle ce st sv =
    do { (st, sv) \<leftarrow> run_request ce (Some route) (st\<lparr>f_buffer := bytes pt @ replicate (MAX_LINE - length pt) 0, f_used := length pt\<rparr>) sv;
         guard (f_errcode st = 0);
         send_reply ce st sv }"
proof -
  have ok: "json_ok F (request F route prm)" by (rule request_json_ok [OF F(2-4)])
  have "no_nul js" using print_no_nul(1) [OF F(2) ok] js(1) by (simp add: cJSON_Print_def)
  then have c: "cstr (f_buffer st) = Some (js @ residue tail)" using cstr_bytes js(2,3) by simp
  have "reads F js (request F route prm)"
    using print_reads [OF F(2) ok, of 0 True] js(1) by (simp add: cJSON_Print_def)
  then have p: "cJSON_Parse F (js @ residue tail) = Some (Some (request F route prm))"
    using reads_parse_rest [of F js "request F route prm" "residue tail"] by (simp add: request_def) (simp add: obj_of_def)
  have w: "mem_write (replicate MAX_LINE 0) 0 (bytes pt) = Some (bytes pt @ replicate (MAX_LINE - length pt) 0)"
    using pt(2) by (simp add: mem_write_in)
  have t: "c_valuestring (set_string (Some ''route'') (cJSON_CreateString F route)) = Some route"
    by (simp add: cJSON_CreateString_def set_string_def)
  show ?thesis
    using c p w t pt(1) F(1) by (simp add: json_handle_def request_item cJSON_Print_def print_named)
qed

section \<open>From the wire to the wire\<close>

text \<open>A connection is read until its request is complete; then a worker handles it.\<close>

definition serve ::
  "('d, 'w, 'v) srv_env \<Rightarrow> recv_res list list \<Rightarrow> int list \<Rightarrow> fd_state \<Rightarrow> ('w, 'v) srv \<Rightarrow> ('p, 't, 'f, 'c) aeEventLoop
     \<Rightarrow> (write_end \<times> u8 list \<times> ('w, 'v) srv \<times> ('p, 't, 'f, 'c) aeEventLoop) option"
where
  "serve ce rss ws st sv l =
     do { (e, l) \<leftarrow> read_rounds rss st l;
          (case e of Handed st \<Rightarrow> handle_received_data ce ws st sv l | _ \<Rightarrow> None) }"

text \<open>The state after \<open>parseRecvBuff\<close> of a plain frame.\<close>

lemma handle_frame_plain:
  assumes "14 + length body \<le> MAX_LINE" "length zs = MAX_LINE - (14 + length body)"
    "f_buffer st = frame now ty 0 keep body @ zs" "f_used st = 14 + length body"
    "v_copy ce = memmove_copy \<or> length body \<le> 14"
  shows "handle_frame ce st sv =
    get_handle_function ty ce (st\<lparr>f_buffer := body @ drop (length body) (frame now ty 0 keep body @ zs),
      f_sh := frame_head now ty 0 keep (length body), f_used := length body\<rparr>) sv"
proof -
  have b: "length body < 2 ^ 31" using assms(1) by (simp add: csize)
  have "parseRecvBuff (v_copy ce) (v_dec ce) (f_buffer st) (f_used st) (f_sh st) =
    Some (body @ drop (length body) (frame now ty 0 keep body @ zs), int (length body), frame_head now ty 0 keep (length body))"
    unfolding assms(3,4) by (rule parseRecvBuff_plain [OF b assms(5)])
  then show ?thesis by (simp add: handle_frame_def Let_def del: drop_append)
qed

lemma handle_frame_standard:
  assumes "14 < length body" "14 + length body \<le> MAX_LINE" "f_buffer st = frame now ty 0 keep body @ zs" "f_used st = 14 + length body"
    "v_copy ce = standard_copy"
  shows "handle_frame ce st sv = None"
proof -
  have b: "length body < 2 ^ 31" using assms(2) by (simp add: csize)
  show ?thesis unfolding handle_frame_def assms(3-5) by (simp add: parseRecvBuff_standard [OF assms(1) b])
qed

lemma json_frame_handled:
  assumes doc: "F = e_fp (v_env ce)" "fp_ok F" "no_nul route" "json_ok F prm" "cJSON_Print F (request F route prm) = Some js"
      "14 + length js < MAX_LINE"
    and st: "f_buffer st = frame t REQUEST_TYPE_JSON 0 keep (bytes js) @ replicate (MAX_LINE - (14 + length js)) 0"
      "f_used st = 14 + length js" "f_errcode st = 0"
    and handler: "routes_ok (v_routes sv)" "map_of service_routes route = Some f" "cJSON_Print F prm = Some pt" "length pt < MAX_LINE"
      "run_route (v_env ce) f pt (v_sys sv) = Some (reply, sys)" "14 + length reply \<le> MAX_LINE"
    and db: "mysqlConnectionPool_GetOneConn (v_client ce) (v_pool sv) (v_out sv) = Some (Some blk, p, out)"
    and copy: "v_copy ce = memmove_copy"
  shows "\<exists>routes buf. routes_ok routes \<and> length buf = MAX_LINE \<and>
    handle_frame ce st sv =
      Some (st\<lparr>f_buffer := frame (v_now ce) REQUEST_TYPE_JSON 0 keep (bytes reply) @ drop (14 + length reply) buf,
              f_sh := frame_head t REQUEST_TYPE_JSON 0 keep (length js), f_sql := Some blk,
              f_used := 14 + length reply, f_written := 14 + length reply\<rparr>,
            sv\<lparr>v_sys := sys, v_routes := routes, v_pool := mysqlConnectionPool_FreeOneConn blk p, v_out := out\<rparr>)"
proof -
  let ?f = "frame t REQUEST_TYPE_JSON 0 keep (bytes js) @ replicate (MAX_LINE - (14 + length js)) 0"
  let ?h = "frame_head t REQUEST_TYPE_JSON 0 keep (length js)"
  let ?pt = "bytes pt @ replicate (MAX_LINE - length pt) 0"
  obtain routes where routes: "routes_ok routes" "\<And>st. run_request ce (Some route) st sv =
      call_handler ce f (st\<lparr>f_sql := Some blk\<rparr>) (sv\<lparr>v_pool := p, v_out := out, v_routes := routes\<rparr>)"
    using run_request_some [OF db handler(1,2)] by blast
  define sv1 where "sv1 = sv\<lparr>v_pool := p, v_out := out, v_routes := routes\<rparr>"
  have "0 \<in> set (drop (length js) ?f)" using doc(6) by simp
  then have tail: "0 \<in> set (drop (length (bytes js)) ?f)" by simp
  define st2 where "st2 = st\<lparr>f_buffer := bytes js @ drop (length (bytes js)) ?f, f_sh := ?h, f_used := length js\<rparr>"
  have hf: "handle_frame ce st sv = json_handle ce st2 sv"
    using handle_frame_plain [of "bytes js" "replicate (MAX_LINE - (14 + length js)) 0" st t REQUEST_TYPE_JSON keep ce sv] doc(6) st copy
    by (simp add: st2_def get_handle_function_def REQUEST_TYPE_JSON_def REQUEST_TYPE_SAREAM_def del: drop_append)
  have jh: "json_handle ce st2 sv =
    do { (st, sv) \<leftarrow> run_request ce (Some route) (st2\<lparr>f_buffer := ?pt, f_used := length pt\<rparr>) sv;
         guard (f_errcode st = 0);
         send_reply ce st sv }"
    by (rule json_handle_request [OF doc(1-5) _ tail handler(3,4)]) (simp add: st2_def del: drop_append)
  define st3 where "st3 = st2\<lparr>f_buffer := ?pt, f_used := length pt, f_sql := Some blk\<rparr>"
  have "no_nul pt" using print_no_nul(1) [OF doc(2,4)] handler(3) by (simp add: cJSON_Print_def)
  then have "cstr (f_buffer st3) = Some pt" using cstr_zeros [of pt] handler(4) by (simp add: st3_def)
  moreover have "length reply < MAX_LINE" using handler(6) by simp
  ultimately obtain buf where buf: "length buf = MAX_LINE" "take (length reply) buf = bytes reply"
    "call_handler ce f st3 sv1 = Some (st3\<lparr>f_buffer := buf, f_used := length reply\<rparr>, sv1\<lparr>v_sys := sys\<rparr>)"
    using call_handler_text [of st3 pt ce f sv1 reply sys] handler(4,5) by (auto simp: st3_def sv1_def)
  define st4 where "st4 = st3\<lparr>f_buffer := buf, f_used := length reply\<rparr>"
  have "handle_frame ce st sv = send_reply ce st4 (sv1\<lparr>v_sys := sys\<rparr>)"
    using routes(2) [of "st2\<lparr>f_buffer := ?pt, f_used := length pt\<rparr>"] buf(3) hf jh st(3)
    by (simp add: st4_def st3_def sv1_def) (simp add: st2_def)
  moreover have "send_reply ce st4 (sv1\<lparr>v_sys := sys\<rparr>) =
      Some (st4\<lparr>f_buffer := frame (v_now ce) REQUEST_TYPE_JSON 0 keep (bytes reply) @ drop (14 + length reply) buf,
              f_used := 14 + length reply, f_written := 14 + length reply\<rparr>,
            sv1\<lparr>v_sys := sys, v_pool := mysqlConnectionPool_FreeOneConn blk p\<rparr>)"
    using send_reply_plain [of st4 blk ce "sv1\<lparr>v_sys := sys\<rparr>"] buf(1,2) handler(6) copy
    by (simp add: st4_def st3_def st2_def sv1_def)
  ultimately show ?thesis using routes(1) buf(1)
    by (intro exI [of _ routes] exI [of _ buf]) (simp add: st4_def st3_def st2_def sv1_def)
qed

lemma json_request_answered:
  fixes l :: "('p, 't, 'f, 'c) aeEventLoop"
  assumes doc: "F = e_fp (v_env ce)" "fp_ok F" "no_nul route" "json_ok F prm" "cJSON_Print F (request F route prm) = Some js" "14 + length js < MAX_LINE"
    and arrival: "concat (concat css) = frame t REQUEST_TYPE_JSON 0 keep (bytes js)" "[] \<notin> set (concat css)"
      "3 \<le> length (hd (concat css))" "idle st" "f_errcode st = 0"
    and handler: "routes_ok (v_routes sv)" "map_of service_routes route = Some f" "cJSON_Print F prm = Some pt" "length pt < MAX_LINE"
      "run_route (v_env ce) f pt (v_sys sv) = Some (reply, sys)" "14 + length reply \<le> MAX_LINE"
    and db: "mysqlConnectionPool_GetOneConn (v_client ce) (v_pool sv) (v_out sv) = Some (Some blk, p, out)"
    and sends: "\<forall>r \<in> set ws. 0 < r" "sum_list ws = int (14 + length reply)"
    and copy: "v_copy ce = memmove_copy"
  shows "\<exists>routes h. routes_ok routes \<and>
    serve ce (map (\<lambda>cs. map Got cs @ [Again]) css) ws st sv l =
      do { l \<leftarrow> (if keep = 0 then aeDeleteFileEvent l (f_fd st) AE_READABLE else Some l);
           Some (if keep = 0 then Closed else Kept (new_state (f_fd st)\<lparr>f_sh := h, f_errcode := 0, f_sql := Some blk\<rparr>),
                 frame (v_now ce) REQUEST_TYPE_JSON 0 keep (bytes reply),
                 sv\<lparr>v_sys := sys, v_routes := routes, v_pool := mysqlConnectionPool_FreeOneConn blk p, v_out := out\<rparr>, l) }"
proof -
  let ?h = "frame_head t REQUEST_TYPE_JSON 0 keep (length js)"
  let ?rep = "frame (v_now ce) REQUEST_TYPE_JSON 0 keep (bytes reply)"
  define st1 where "st1 = st\<lparr>f_buffer := frame t REQUEST_TYPE_JSON 0 keep (bytes js) @ replicate (MAX_LINE - (14 + length js)) 0,
    f_used := 14 + length js, f_readFlag := 1\<rparr>"
  obtain routes buf where h: "routes_ok routes" "length buf = MAX_LINE" "handle_frame ce st1 sv =
      Some (st1\<lparr>f_buffer := ?rep @ drop (14 + length reply) buf, f_sh := ?h, f_sql := Some blk,
              f_used := 14 + length reply, f_written := 14 + length reply\<rparr>,
            sv\<lparr>v_sys := sys, v_routes := routes, v_pool := mysqlConnectionPool_FreeOneConn blk p, v_out := out\<rparr>)"
    using json_frame_handled [OF doc _ _ _ handler db copy, of st1 t keep] arrival(5) by (auto simp: st1_def)
  define st5 where "st5 = st1\<lparr>f_buffer := ?rep @ drop (14 + length reply) buf, f_sh := ?h, f_sql := Some blk,
    f_used := 14 + length reply, f_written := 14 + length reply\<rparr>"
  have w: "socketWrite ws st5 l' = Some (if keep = 0 then Closed else Kept (new_state (f_fd st)\<lparr>f_sh := ?h, f_errcode := 0, f_sql := Some blk\<rparr>),
      ?rep, l')" for l' :: "('p, 't, 'f, 'c) aeEventLoop"
    using send_all [OF sends(1), of st5 l'] sends(2) handler(6) arrival(4,5) h(2)
    by (simp add: st5_def st1_def idle_def)
  have "read_rounds (map (\<lambda>cs. map Got cs @ [Again]) css) st l =
      do { l \<leftarrow> (if keep = 0 then aeDeleteFileEvent l (f_fd st) AE_READABLE else Some l); Some (Handed st1, l) }"
    using read_frame [OF _ arrival(1-4), of l] doc(6) by (simp add: st1_def)
  then have "serve ce (map (\<lambda>cs. map Got cs @ [Again]) css) ws st sv l =
      do { l \<leftarrow> (if keep = 0 then aeDeleteFileEvent l (f_fd st) AE_READABLE else Some l);
           Some (if keep = 0 then Closed else Kept (new_state (f_fd st)\<lparr>f_sh := ?h, f_errcode := 0, f_sql := Some blk\<rparr>), ?rep,
             sv\<lparr>v_sys := sys, v_routes := routes, v_pool := mysqlConnectionPool_FreeOneConn blk p, v_out := out\<rparr>, l) }"
    using w h(3) [folded st5_def] by (simp add: serve_def handle_received_data_def split: option.splits)
  then show ?thesis using h(1) by metis
qed

text \<open>The document of a request is longer than the header of its frame.\<close>

lemma c_string_set_string: "c_string (set_string nm v) = nm"
  by (cases v) (simp add: set_string_def split: cjtype.splits)

lemma request_length:
  assumes "cJSON_Print F (request F route prm) = Some js"
  shows "14 < length js"
  using assms
    by (auto simp: cJSON_Print_def c_string_set_string request_def obj_of_def print_object_def bind_eq_Some_conv print_string_ptr_quoted Let_def
        quoted_def escape_length escaped_len_def code_def split: if_splits)

text \<open>
  C2: A JSON request is served from the wire to the wire, where \<open>memcpy\<close> copies overlapping areas. On an
  idle connection without a standing error code, the plain frame of a document with a registered route and
  its parameters, small enough for the buffers and cut by the network in any way that leaves at least three
  bytes in the first piece, is taken to the handler of that route with the printed parameters as its
  request; whatever the handler answers, if it fits a frame and the client takes it, is sent completely as
  one frame, with the state of the server the handler left, and the database connection, which must have
  been there, is back in the pool. This needs a \<open>memcpy\<close> that copies overlapping areas as \<open>memmove\<close>
  does: with what C promises of \<open>memcpy\<close>, no such request is served, since \<open>parseRecvBuff\<close> moves its document over itself.
\<close>

theorem json_request_served:
  fixes l :: "('p, 't, 'f, 'c) aeEventLoop"
  assumes doc: "F = e_fp (v_env ce)" "fp_ok F" "no_nul route" "json_ok F prm" "cJSON_Print F (request F route prm) = Some js" "14 + length js < MAX_LINE"
    and arrival: "concat (concat css) = frame t REQUEST_TYPE_JSON 0 keep (bytes js)" "[] \<notin> set (concat css)"
      "3 \<le> length (hd (concat css))" "idle st" "f_errcode st = 0"
    and handler: "routes_ok (v_routes sv)" "map_of service_routes route = Some f" "cJSON_Print F prm = Some pt" "length pt < MAX_LINE"
      "run_route (v_env ce) f pt (v_sys sv) = Some (reply, sys)" "14 + length reply \<le> MAX_LINE"
    and db: "mysqlConnectionPool_GetOneConn (v_client ce) (v_pool sv) (v_out sv) = Some (Some blk, p, out)"
    and sends: "\<forall>r \<in> set ws. 0 < r" "sum_list ws = int (14 + length reply)"
  shows "(v_copy ce = memmove_copy \<longrightarrow> (\<exists>routes h. routes_ok routes \<and>
        serve ce (map (\<lambda>cs. map Got cs @ [Again]) css) ws st sv l =
          do { l \<leftarrow> (if keep = 0 then aeDeleteFileEvent l (f_fd st) AE_READABLE else Some l);
               Some (if keep = 0 then Closed else Kept (new_state (f_fd st)\<lparr>f_sh := h, f_errcode := 0, f_sql := Some blk\<rparr>),
                     frame (v_now ce) REQUEST_TYPE_JSON 0 keep (bytes reply),
                     sv\<lparr>v_sys := sys, v_routes := routes, v_pool := mysqlConnectionPool_FreeOneConn blk p, v_out := out\<rparr>, l) }))
    \<and> (v_copy ce = standard_copy \<longrightarrow> serve ce (map (\<lambda>cs. map Got cs @ [Again]) css) ws st sv l = None)"
proof (intro conjI impI)
  assume "v_copy ce = memmove_copy"
  from json_request_answered [OF doc arrival handler db sends this]
  show "\<exists>routes h. routes_ok routes \<and>
    serve ce (map (\<lambda>cs. map Got cs @ [Again]) css) ws st sv l =
      do { l \<leftarrow> (if keep = 0 then aeDeleteFileEvent l (f_fd st) AE_READABLE else Some l);
           Some (if keep = 0 then Closed else Kept (new_state (f_fd st)\<lparr>f_sh := h, f_errcode := 0, f_sql := Some blk\<rparr>),
                 frame (v_now ce) REQUEST_TYPE_JSON 0 keep (bytes reply),
                 sv\<lparr>v_sys := sys, v_routes := routes, v_pool := mysqlConnectionPool_FreeOneConn blk p, v_out := out\<rparr>, l) }" .
next
  assume c: "v_copy ce = standard_copy"
  define st1 where "st1 = st\<lparr>f_buffer := frame t REQUEST_TYPE_JSON 0 keep (bytes js) @ replicate (MAX_LINE - (14 + length js)) 0,
    f_used := 14 + length js, f_readFlag := 1\<rparr>"
  have "handle_frame ce st1 sv = None"
    using handle_frame_standard [of "bytes js" st1 t REQUEST_TYPE_JSON keep "replicate (MAX_LINE - (14 + length js)) 0" ce sv]
      request_length [OF doc(5)] doc(6) c by (simp add: st1_def)
  then show "serve ce (map (\<lambda>cs. map Got cs @ [Again]) css) ws st sv l = None"
    using read_frame [OF _ arrival(1-4), of l] doc(6) by (simp add: serve_def handle_received_data_def st1_def bind_eq_None_conv)
qed

text \<open>The server of the witnesses: one free database connection, the routes just registered.\<close>

definition demo_srv_env :: "(int, nat, nat \<times> nat set) srv_env" where
  "demo_srv_env = \<lparr>v_env = flow_env, v_enc = (\<lambda>k b. b), v_dec = (\<lambda>k b. b), v_client = demo_client, v_now = 100, v_copy = memmove_copy\<rparr>"

definition demo_srv :: "(nat, nat \<times> nat set) srv" where
  "demo_srv = \<lparr>v_sys = start_sys, v_routes = the (regist_routes True Route.say_hello (replicate 16 0)), v_rng = rng0,
     v_pool = demo_conn_pool\<lparr>slq_list := [\<lparr>b_conn = Some 7, lastUseTime = 100\<rparr>], g_mysql_conn_enable := True\<rparr>, v_out = (9, {7})\<rparr>"

lemma demo_srv:
  "routes_ok (v_routes demo_srv)"
  "mysqlConnectionPool_GetOneConn (v_client demo_srv_env) (v_pool demo_srv) (v_out demo_srv)
     = Some (Some \<lparr>b_conn = Some 7, lastUseTime = 100\<rparr>, demo_conn_pool\<lparr>slq_list := [], g_mysql_conn_enable := True\<rparr>, (9, {7}))"
proof -
  obtain t where "regist_routes True Route.say_hello (replicate 16 0) = Some t" "routes_ok t"
    using regist_routes_routes_ok by blast
  then show "routes_ok (v_routes demo_srv)" by (simp add: demo_srv_def)
  show "mysqlConnectionPool_GetOneConn (v_client demo_srv_env) (v_pool demo_srv) (v_out demo_srv)
     = Some (Some \<lparr>b_conn = Some 7, lastUseTime = 100\<rparr>, demo_conn_pool\<lparr>slq_list := [], g_mysql_conn_enable := True\<rparr>, (9, {7}))"
    by (subst mysqlConnectionPool_GetOneConn.simps) (simp add: demo_srv_def demo_srv_env_def demo_client_def demo_conn_pool_def)
qed

lemma json_request_served_witness:
  "\<exists>js routes h. cJSON_Print int_fp (request int_fp ''sayhello'' (cJSON_CreateString int_fp ''x'')) = Some js \<and>
    serve demo_srv_env [[Got (take 9 (frame 1 REQUEST_TYPE_JSON 0 1 (bytes js))), Again], [Got (drop 9 (frame 1 REQUEST_TYPE_JSON 0 1 (bytes js))), Again]]
        [20, 2] (new_state 5) demo_srv demo_reader =
      Some (Kept (new_state 5\<lparr>f_sh := h, f_errcode := 0, f_sql := Some \<lparr>b_conn = Some 7, lastUseTime = 100\<rparr>\<rparr>),
            frame 100 REQUEST_TYPE_JSON 0 1 (bytes ''sayhello''), demo_srv\<lparr>v_routes := routes\<rparr>, demo_reader)"
proof -
  let ?F = int_fp and ?p = "cJSON_CreateString int_fp ''x''"
  have r: "request ?F ''sayhello'' ?p = obj_of ?F (map (\<lambda>(n, s). (n, cJSON_CreateString ?F s)) [(''route'', ''sayhello''), (''prm'', ''x'')])"
    by (simp add: request_def)
  obtain js where js: "cJSON_Print ?F (request ?F ''sayhello'' ?p) = Some js" "length js \<le> 127"
    using strings_document [of "[(''route'', ''sayhello''), (''prm'', ''x'')]" ?F] unfolding r by auto
  have p: "cJSON_Print ?F ?p = Some (quoted ''x'')" by (simp add: cJSON_Print_def cJSON_CreateString_def print_string_ptr_quoted)
  have ok: "json_ok ?F ?p" by (simp add: cJSON_CreateString_def int_fp_def code_def)
  let ?f = "frame 1 REQUEST_TYPE_JSON 0 1 (bytes js)"
  have css: "concat (concat [[take 9 ?f], [drop 9 ?f]]) = ?f" "[] \<notin> set (concat [[take 9 ?f], [drop 9 ?f]])"
    "3 \<le> length (hd (concat [[take 9 ?f], [drop 9 ?f]]))"
    by (auto simp: frame_def sock_head_bytes_def frame_head_def)
  have e: "v_env demo_srv_env = flow_env" "v_now demo_srv_env = 100" "f_errcode (new_state 5) = 0" "e_fp flow_env = ?F"
    "v_copy demo_srv_env = memmove_copy"
    by (simp_all add: demo_srv_env_def new_state_def)
  have q: "length (quoted ''x'') < MAX_LINE" by (simp add: quoted_def escape_length escaped_len_def csize)
  have d: "demo_srv\<lparr>v_sys := v_sys demo_srv, v_routes := t, v_pool := mysqlConnectionPool_FreeOneConn \<lparr>b_conn = Some 7, lastUseTime = 100\<rparr>
      (demo_conn_pool\<lparr>slq_list := [], g_mysql_conn_enable := True\<rparr>), v_out := (9, {7})\<rparr> = demo_srv\<lparr>v_routes := t\<rparr>" for t
    by (simp add: demo_srv_def mysqlConnectionPool_FreeOneConn_def)
  have x: "int_fp = e_fp (v_env demo_srv_env)" "no_nul ''sayhello''" "map_of service_routes ''sayhello'' = Some Route.say_hello"
    "run_route (v_env demo_srv_env) Route.say_hello (quoted ''x'') (v_sys demo_srv) = Some (''sayhello'', v_sys demo_srv)"
    "14 + length js < MAX_LINE" "14 + length ''sayhello'' \<le> MAX_LINE"
    using js(2) by (simp_all add: e code_def service_routes_def Service.say_hello_def csize)
  obtain routes h where "serve demo_srv_env (map (\<lambda>cs. map Got cs @ [Again]) [[take 9 ?f], [drop 9 ?f]]) [20, 2] (new_state 5) demo_srv demo_reader =
      do { l \<leftarrow> (if (1 :: u8) = 0 then aeDeleteFileEvent demo_reader (f_fd (new_state 5)) AE_READABLE else Some demo_reader);
           Some (if (1 :: u8) = 0 then Closed else Kept (new_state (f_fd (new_state 5))\<lparr>f_sh := h, f_errcode := 0, f_sql := Some \<lparr>b_conn = Some 7, lastUseTime = 100\<rparr>\<rparr>),
             frame (v_now demo_srv_env) REQUEST_TYPE_JSON 0 1 (bytes ''sayhello''), demo_srv\<lparr>v_routes := routes\<rparr>, l) }"
    using json_request_served [OF x(1) int_fp_ok x(2) ok js(1) x(5) css idle_new e(3) demo_srv(1) x(3) p q x(4) x(6) demo_srv(2),
        where ws = "[20, 2]" and l = demo_reader, unfolded d, THEN conjunct1, THEN mp [OF _ e(5)]] by auto
  then show ?thesis using js(1) by (intro exI [of _ js] exI [of _ routes] exI [of _ h]) (simp add: e(2) new_state_def)
qed

section \<open>Stream requests\<close>

text \<open>Of the registered routes only one has the form of a number, and its handler does not read its data.\<close>

lemma stream_route_known: "map_of service_routes (stream_route hb) = (if stream_route hb = ''r_31501'' then Some Route.r_31501 else None)"
  by (simp add: stream_route_def service_routes_def)

lemma stream_handle_replies:
  assumes st: "length (f_buffer st) = MAX_LINE" "2 \<le> f_used st" "f_used st \<le> MAX_LINE" "0 \<in> set (drop (f_used st) (f_buffer st))"
      "sk_encFlag (f_sh st) = 0"
    and handler: "routes_ok (v_routes sv)"
    and db: "mysqlConnectionPool_GetOneConn (v_client ce) (v_pool sv) (v_out sv) = Some (Some blk, p, out)"
    and ec: "ec = (if stream_route (take 2 (f_buffer st)) = ''r_31501'' then f_errcode st else ERR_UNDEFINED_REQUEST_ROUTE)"
    and msg: "msg = (if ec = 0 then ''sayhellotoo'' else gerErrMsg ec)"
    and copy: "v_copy ce = memmove_copy \<or> f_used st \<le> 4"
  shows "\<exists>routes buf. routes_ok routes \<and> length buf = MAX_LINE \<and> take (length msg) buf = bytes msg \<and>
    stream_handle ce st sv =
      send_reply ce (st\<lparr>f_errcode := ec, f_buffer := buf, f_sql := Some blk, f_used := length msg\<rparr>)
        (sv\<lparr>v_pool := p, v_out := out, v_routes := routes\<rparr>)"
proof -
  let ?hb = "take 2 (f_buffer st)"
  let ?dat = "take (f_used st - 2) (drop 2 (f_buffer st))"
  let ?buf = "?dat @ drop (f_used st - 2) (f_buffer st)"
  have hb: "mem_read (f_buffer st) 0 2 = Some ?hb" using st by (simp add: mem_read_in csize)
  have dat: "mem_read (f_buffer st) 2 (f_used st - 2) = Some ?dat" using st by (simp add: mem_read_in)
  have "length ?dat = f_used st - 2" using st by simp
  then have w: "mem_write (f_buffer st) 0 ?dat = Some ?buf" "length ?buf = MAX_LINE"
    using mem_write_in [of 0 ?dat "f_buffer st"] st by simp_all
  have m: "memcpy_in (v_copy ce) (f_buffer st) 0 2 (f_used st - 2) = Some ?buf"
    using memcpy_in_eq [of "v_copy ce" 0 "f_used st - 2" 2 "f_buffer st"] copy dat w(1) by force
  obtain t where t: "routes_ok t" "get_function_route (v_routes sv) (bytes (stream_route ?hb)) =
      Some (t, if stream_route ?hb = ''r_31501'' then Some Route.r_31501 else None)"
    using get_function_route_ok [OF handler, of "stream_route ?hb"] unfolding stream_route_known by blast
  define st2 where "st2 = st\<lparr>f_buffer := ?buf, f_used := f_used st - 2\<rparr>"
  define sv2 where "sv2 = sv\<lparr>v_pool := p, v_out := out, v_routes := t\<rparr>"
  have len: "length msg \<le> 100" using gerErrMsg_length [of ec] by (simp add: msg)
  obtain buf n where run: "run_request ce (Some (stream_route ?hb)) st2 sv =
      Some (st\<lparr>f_errcode := ec, f_buffer := buf, f_sql := Some blk, f_used := n\<rparr>, sv2)" "length buf = MAX_LINE"
    "ec = 0 \<longrightarrow> n = length msg \<and> take (length msg) buf = bytes msg"
  proof (cases "stream_route ?hb = ''r_31501''")
    case False
    then have "run_request ce (Some (stream_route ?hb)) st2 sv = Some (st\<lparr>f_errcode := ec, f_buffer := ?buf, f_sql := Some blk, f_used := f_used st - 2\<rparr>, sv2)"
      using db t(2) by (simp add: run_request_def ec st2_def sv2_def)
    moreover have "ec \<noteq> 0" using False by (simp add: ec ERR_UNDEFINED_REQUEST_ROUTE_def)
    ultimately show thesis using that w(2) by simp
  next
    case True
    have "0 \<in> set ?buf" using st(4) set_drop_subset_set_drop [of "f_used st - 2" "f_used st" "f_buffer st"] by auto
    then obtain req where req: "cstr ?buf = Some req" by (simp add: cstr_def)
    have "\<exists>buf. length buf = MAX_LINE \<and> take (length ''sayhellotoo'') buf = bytes ''sayhellotoo''
        \<and> call_handler ce Route.r_31501 (st2\<lparr>f_sql := Some blk\<rparr>) sv2
          = Some (st2\<lparr>f_sql := Some blk, f_buffer := buf, f_used := length ''sayhellotoo''\<rparr>, sv2\<lparr>v_sys := v_sys sv2\<rparr>)"
      by (rule call_handler_text [OF _ _ _ _ _]) (use req st w(2) in \<open>simp_all add: st2_def Service.r_31501_def csize\<close>)
    then obtain buf where buf: "length buf = MAX_LINE" "take (length ''sayhellotoo'') buf = bytes ''sayhellotoo''"
      "call_handler ce Route.r_31501 (st2\<lparr>f_sql := Some blk\<rparr>) sv2
          = Some (st2\<lparr>f_sql := Some blk, f_buffer := buf, f_used := length ''sayhellotoo''\<rparr>, sv2\<lparr>v_sys := v_sys sv2\<rparr>)" by blast
    have "run_request ce (Some (stream_route ?hb)) st2 sv =
        Some (st\<lparr>f_errcode := ec, f_buffer := buf, f_sql := Some blk, f_used := length ''sayhellotoo''\<rparr>, sv2)"
      using db t(2) buf(3) True by (simp add: run_request_def ec st2_def sv2_def)
    then show thesis using that buf(1,2) by (simp add: msg)
  qed
  define st4 where "st4 = st\<lparr>f_errcode := ec, f_buffer := bytes msg @ drop (length msg) buf, f_sql := Some blk, f_used := length msg\<rparr>"
  have "stream_handle ce st sv = send_reply ce st4 sv2"
  proof (cases "ec = 0")
    case True
    then have "bytes msg @ drop (length msg) buf = buf" using run(3) append_take_drop_id [of "length msg" buf] by simp
    then show ?thesis using hb m run st(2) True unfolding stream_handle_def st2_def
      by (simp add: st4_def Let_def del: mem_read_Some)
  next
    case False
    then have "mem_write buf 0 (bytes (gerErrMsg ec)) = Some (bytes msg @ drop (length msg) buf)"
      using run(2) len by (simp add: msg mem_write_in csize)
    moreover have "st4 = st\<lparr>f_errcode := ec, f_sql := Some blk, f_buffer := bytes msg @ drop (length msg) buf, f_used := length msg\<rparr>"
      by (simp add: st4_def)
    ultimately show ?thesis using hb m run(1) st(2) False unfolding stream_handle_def st2_def
      by (simp add: msg Let_def del: mem_read_Some)
  qed
  moreover have "length (f_buffer st4) = MAX_LINE" "take (length msg) (f_buffer st4) = bytes msg"
    using run(2) len by (simp_all add: st4_def csize)
  moreover have "st4 = st\<lparr>f_errcode := ec, f_buffer := f_buffer st4, f_sql := Some blk, f_used := length msg\<rparr>"
    by (simp add: st4_def)
  ultimately show ?thesis using t(1) unfolding sv2_def by metis
qed

lemma stream_handle_plain:
  assumes st: "length (f_buffer st) = MAX_LINE" "2 \<le> f_used st" "f_used st \<le> MAX_LINE" "0 \<in> set (drop (f_used st) (f_buffer st))"
      "sk_encFlag (f_sh st) = 0"
    and handler: "routes_ok (v_routes sv)"
    and db: "mysqlConnectionPool_GetOneConn (v_client ce) (v_pool sv) (v_out sv) = Some (Some blk, p, out)"
    and ec: "ec = (if stream_route (take 2 (f_buffer st)) = ''r_31501'' then f_errcode st else ERR_UNDEFINED_REQUEST_ROUTE)"
    and msg: "msg = (if ec = 0 then ''sayhellotoo'' else gerErrMsg ec)"
    and copy: "v_copy ce = memmove_copy \<or> f_used st \<le> 4 \<and> length msg \<le> 14"
shows "\<exists>routes buf. routes_ok routes \<and> length buf = MAX_LINE \<and>
    stream_handle ce st sv =
      Some (st\<lparr>f_errcode := ec, f_buffer := frame (v_now ce) (sk_requestType (f_sh st)) 0 (sk_keepAlive (f_sh st)) (bytes msg) @ drop (14 + length msg) buf,
               f_sql := Some blk, f_used := 14 + length msg, f_written := 14 + length msg\<rparr>,
            sv\<lparr>v_routes := routes, v_pool := mysqlConnectionPool_FreeOneConn blk p, v_out := out\<rparr>)"
proof -
  have c: "v_copy ce = memmove_copy \<or> f_used st \<le> 4" "v_copy ce = memmove_copy \<or> length msg \<le> 14" using copy by auto
  obtain routes buf where h: "routes_ok routes" "length buf = MAX_LINE" "take (length msg) buf = bytes msg" "stream_handle ce st sv =
      send_reply ce (st\<lparr>f_errcode := ec, f_buffer := buf, f_sql := Some blk, f_used := length msg\<rparr>)
        (sv\<lparr>v_pool := p, v_out := out, v_routes := routes\<rparr>)"
    using stream_handle_replies [OF st handler db ec msg c(1)] by blast
  define st4 where "st4 = st\<lparr>f_errcode := ec, f_buffer := buf, f_sql := Some blk, f_used := length msg\<rparr>"
  have "length (f_buffer st4) = MAX_LINE" "14 + f_used st4 \<le> MAX_LINE" "sk_encFlag (f_sh st4) = 0" "f_sql st4 = Some blk"
    "v_copy ce = memmove_copy \<or> f_used st4 \<le> 14"
    using h(2) c(2) st(5) gerErrMsg_length [of ec] by (simp_all add: st4_def msg csize)
  from send_reply_plain [OF this] show ?thesis using h
    by (intro exI [of _ routes] exI [of _ buf]) (simp add: st4_def)
qed

text \<open>Where C leaves overlapping copies undefined, more than two bytes of data or a reply of more than 14.\<close>

lemma stream_handle_standard:
  assumes st: "length (f_buffer st) = MAX_LINE" "2 \<le> f_used st" "f_used st \<le> MAX_LINE" "0 \<in> set (drop (f_used st) (f_buffer st))"
      "sk_encFlag (f_sh st) = 0"
    and handler: "routes_ok (v_routes sv)"
    and db: "mysqlConnectionPool_GetOneConn (v_client ce) (v_pool sv) (v_out sv) = Some (Some blk, p, out)"
    and ec: "ec = (if stream_route (take 2 (f_buffer st)) = ''r_31501'' then f_errcode st else ERR_UNDEFINED_REQUEST_ROUTE)"
    and msg: "msg = (if ec = 0 then ''sayhellotoo'' else gerErrMsg ec)"
    and copy: "v_copy ce = standard_copy" "4 < f_used st \<or> 14 < length msg"
  shows "stream_handle ce st sv = None"
proof (cases "4 < f_used st")
  case True
  then have "memcpy_in standard_copy (f_buffer st) 0 2 (f_used st - 2) = None" by (intro memcpy_in_standard) simp_all
  then show ?thesis using copy(1) by (simp add: stream_handle_def bind_eq_None_conv)
next
  case False
  then obtain routes buf where h: "stream_handle ce st sv =
      send_reply ce (st\<lparr>f_errcode := ec, f_buffer := buf, f_sql := Some blk, f_used := length msg\<rparr>)
        (sv\<lparr>v_pool := p, v_out := out, v_routes := routes\<rparr>)"
    using stream_handle_replies [OF st handler db ec msg] by force
  moreover have "14 + length msg \<le> MAX_LINE" using gerErrMsg_length [of ec] by (simp add: msg csize)
  ultimately show ?thesis unfolding h using copy False st(5) by (intro send_reply_standard) simp_all
qed

lemma stream_frame_handled:
  assumes st: "14 + length body < MAX_LINE" "2 \<le> length body" "f_used st = 14 + length body"
      "f_buffer st = frame t REQUEST_TYPE_SAREAM 0 keep body @ replicate (MAX_LINE - (14 + length body)) 0"
    and handler: "routes_ok (v_routes sv)"
    and db: "mysqlConnectionPool_GetOneConn (v_client ce) (v_pool sv) (v_out sv) = Some (Some blk, p, out)"
    and ec: "ec = (if stream_route (take 2 body) = ''r_31501'' then f_errcode st else ERR_UNDEFINED_REQUEST_ROUTE)"
    and msg: "msg = (if ec = 0 then ''sayhellotoo'' else gerErrMsg ec)"
    and copy: "v_copy ce = memmove_copy \<or> length body \<le> 4 \<and> length msg \<le> 14"
  shows "\<exists>routes buf. routes_ok routes \<and> length buf = MAX_LINE \<and>
    handle_frame ce st sv =
      Some (st\<lparr>f_errcode := ec, f_sh := frame_head t REQUEST_TYPE_SAREAM 0 keep (length body),
               f_buffer := frame (v_now ce) REQUEST_TYPE_SAREAM 0 keep (bytes msg) @ drop (14 + length msg) buf,
               f_sql := Some blk, f_used := 14 + length msg, f_written := 14 + length msg\<rparr>,
            sv\<lparr>v_routes := routes, v_pool := mysqlConnectionPool_FreeOneConn blk p, v_out := out\<rparr>)"
proof -
  have copy14: "v_copy ce = memmove_copy \<or> length body \<le> 14" using copy by auto
  let ?f = "frame t REQUEST_TYPE_SAREAM 0 keep body @ replicate (MAX_LINE - (14 + length body)) 0"
  define st2 where "st2 = st\<lparr>f_buffer := body @ drop (length body) ?f, f_sh := frame_head t REQUEST_TYPE_SAREAM 0 keep (length body), f_used := length body\<rparr>"
  have hf: "handle_frame ce st sv = stream_handle ce st2 sv"
    using handle_frame_plain [of body "replicate (MAX_LINE - (14 + length body)) 0" st t REQUEST_TYPE_SAREAM keep ce sv] st(1,3,4) copy14
    by (simp add: st2_def get_handle_function_def del: drop_append)
  have "0 \<in> set (drop (length body) ?f)" using st(1) by simp
  moreover have "drop (f_used st2) (f_buffer st2) = drop (length body) ?f" by (simp add: st2_def del: drop_append) simp
  ultimately have tail: "0 \<in> set (drop (f_used st2) (f_buffer st2))" by (simp only:)
  have "length (f_buffer st2) = MAX_LINE" "2 \<le> f_used st2" "f_used st2 \<le> MAX_LINE" "sk_encFlag (f_sh st2) = 0"
    "take 2 (f_buffer st2) = take 2 body" "f_errcode st2 = f_errcode st"
    "v_copy ce = memmove_copy \<or> f_used st2 \<le> 4 \<and> length msg \<le> 14"
    using st(1,2) copy by (simp_all add: st2_def)
  moreover from this have "ec = (if stream_route (take 2 (f_buffer st2)) = ''r_31501'' then f_errcode st2 else ERR_UNDEFINED_REQUEST_ROUTE)"
    using ec by (simp only:)
  ultimately obtain routes buf where r: "routes_ok routes" "length buf = MAX_LINE" "stream_handle ce st2 sv =
      Some (st2\<lparr>f_errcode := ec, f_buffer := frame (v_now ce) (sk_requestType (f_sh st2)) 0 (sk_keepAlive (f_sh st2)) (bytes msg) @ drop (14 + length msg) buf,
               f_sql := Some blk, f_used := 14 + length msg, f_written := 14 + length msg\<rparr>,
            sv\<lparr>v_routes := routes, v_pool := mysqlConnectionPool_FreeOneConn blk p, v_out := out\<rparr>)"
    using stream_handle_plain [OF _ _ _ tail _ handler db _ msg] by blast
  then show ?thesis using hf by (intro exI [of _ routes] exI [of _ buf]) (simp add: st2_def)
qed

lemma stream_frame_standard:
  assumes st: "14 + length body < MAX_LINE" "2 \<le> length body" "f_used st = 14 + length body"
      "f_buffer st = frame t REQUEST_TYPE_SAREAM 0 keep body @ replicate (MAX_LINE - (14 + length body)) 0"
    and handler: "routes_ok (v_routes sv)"
    and db: "mysqlConnectionPool_GetOneConn (v_client ce) (v_pool sv) (v_out sv) = Some (Some blk, p, out)"
    and ec: "ec = (if stream_route (take 2 body) = ''r_31501'' then f_errcode st else ERR_UNDEFINED_REQUEST_ROUTE)"
    and msg: "msg = (if ec = 0 then ''sayhellotoo'' else gerErrMsg ec)"
    and copy: "v_copy ce = standard_copy" "4 < length body \<or> 14 < length msg"
  shows "handle_frame ce st sv = None"
proof (cases "14 < length body")
  case True
  then show ?thesis using handle_frame_standard [OF True _ st(4,3) copy(1)] st(1) by simp
next
  case False
  let ?f = "frame t REQUEST_TYPE_SAREAM 0 keep body @ replicate (MAX_LINE - (14 + length body)) 0"
  define st2 where "st2 = st\<lparr>f_buffer := body @ drop (length body) ?f, f_sh := frame_head t REQUEST_TYPE_SAREAM 0 keep (length body), f_used := length body\<rparr>"
  have hf: "handle_frame ce st sv = stream_handle ce st2 sv"
    using handle_frame_plain [of body "replicate (MAX_LINE - (14 + length body)) 0" st t REQUEST_TYPE_SAREAM keep ce sv] st(1,3,4) False
    by (simp add: st2_def get_handle_function_def del: drop_append)
  have "0 \<in> set (drop (length body) ?f)" using st(1) by simp
  moreover have "drop (f_used st2) (f_buffer st2) = drop (length body) ?f" by (simp add: st2_def del: drop_append) simp
  ultimately have tail: "0 \<in> set (drop (f_used st2) (f_buffer st2))" by (simp only:)
  have "length (f_buffer st2) = MAX_LINE" "2 \<le> f_used st2" "f_used st2 \<le> MAX_LINE" "sk_encFlag (f_sh st2) = 0"
    "take 2 (f_buffer st2) = take 2 body" "f_errcode st2 = f_errcode st"
    "4 < f_used st2 \<or> 14 < length msg"
    using st(1,2) copy(2) by (simp_all add: st2_def)
  moreover from this have "ec = (if stream_route (take 2 (f_buffer st2)) = ''r_31501'' then f_errcode st2 else ERR_UNDEFINED_REQUEST_ROUTE)"
    using ec by (simp only:)
  ultimately have "stream_handle ce st2 sv = None"
    using stream_handle_standard [OF _ _ _ tail _ handler db _ msg copy(1)] by blast
  then show ?thesis using hf by simp
qed

lemma stream_request_answered:
  fixes l :: "('p, 't, 'f, 'c) aeEventLoop" and sv :: "('w, 'v) srv"
  assumes arrival: "14 + length body < MAX_LINE" "2 \<le> length body" "concat (concat css) = frame t REQUEST_TYPE_SAREAM 0 keep body"
      "[] \<notin> set (concat css)" "3 \<le> length (hd (concat css))" "idle st"
    and handler: "routes_ok (v_routes sv)"
    and db: "mysqlConnectionPool_GetOneConn (v_client ce) (v_pool sv) (v_out sv) = Some (Some blk, p, out)"
    and ec: "ec = (if stream_route (take 2 body) = ''r_31501'' then f_errcode st else ERR_UNDEFINED_REQUEST_ROUTE)"
    and msg: "msg = (if ec = 0 then ''sayhellotoo'' else gerErrMsg ec)"
    and sends: "\<forall>r \<in> set ws. 0 < r" "sum_list ws = int (14 + length msg)"
    and copy: "v_copy ce = memmove_copy \<or> length body \<le> 4 \<and> length msg \<le> 14"
  shows "\<exists>routes h. routes_ok routes \<and>
    serve ce (map (\<lambda>cs. map Got cs @ [Again]) css) ws st sv l =
      do { l \<leftarrow> (if keep = 0 then aeDeleteFileEvent l (f_fd st) AE_READABLE else Some l);
           Some (if keep = 0 then Closed else Kept (new_state (f_fd st)\<lparr>f_sh := h, f_errcode := ec, f_sql := Some blk\<rparr>),
                 frame (v_now ce) REQUEST_TYPE_SAREAM 0 keep (bytes msg),
                 sv\<lparr>v_routes := routes, v_pool := mysqlConnectionPool_FreeOneConn blk p, v_out := out\<rparr>, l) }"
proof -
  let ?h = "frame_head t REQUEST_TYPE_SAREAM 0 keep (length body)"
  let ?rep = "frame (v_now ce) REQUEST_TYPE_SAREAM 0 keep (bytes msg)"
  have len: "14 + length msg \<le> MAX_LINE" using gerErrMsg_length [of ec] by (simp add: msg csize)
  define st1 where "st1 = st\<lparr>f_buffer := frame t REQUEST_TYPE_SAREAM 0 keep body @ replicate (MAX_LINE - (14 + length body)) 0,
    f_used := 14 + length body, f_readFlag := 1\<rparr>"
  have "f_errcode st1 = f_errcode st" by (simp add: st1_def)
  then have ec1: "ec = (if stream_route (take 2 body) = ''r_31501'' then f_errcode st1 else ERR_UNDEFINED_REQUEST_ROUTE)"
    using ec by (simp only:)
  obtain routes buf where h: "routes_ok routes" "length buf = MAX_LINE" "handle_frame ce st1 sv =
      Some (st1\<lparr>f_errcode := ec, f_sh := ?h, f_buffer := ?rep @ drop (14 + length msg) buf,
               f_sql := Some blk, f_used := 14 + length msg, f_written := 14 + length msg\<rparr>,
            sv\<lparr>v_routes := routes, v_pool := mysqlConnectionPool_FreeOneConn blk p, v_out := out\<rparr>)"
    using stream_frame_handled [OF arrival(1,2) _ _ handler db ec1 msg copy, of t keep] by (auto simp: st1_def)
  define st5 where "st5 = st1\<lparr>f_errcode := ec, f_sh := ?h, f_buffer := ?rep @ drop (14 + length msg) buf,
    f_sql := Some blk, f_used := 14 + length msg, f_written := 14 + length msg\<rparr>"
  have w: "socketWrite ws st5 l' = Some (if keep = 0 then Closed else Kept (new_state (f_fd st)\<lparr>f_sh := ?h, f_errcode := ec, f_sql := Some blk\<rparr>),
      ?rep, l')" for l' :: "('p, 't, 'f, 'c) aeEventLoop"
    using send_all [OF sends(1), of st5 l'] sends(2) len arrival(6) h(2)
    by (simp add: st5_def st1_def idle_def)
  have "read_rounds (map (\<lambda>cs. map Got cs @ [Again]) css) st l =
      do { l \<leftarrow> (if keep = 0 then aeDeleteFileEvent l (f_fd st) AE_READABLE else Some l); Some (Handed st1, l) }"
    using read_frame [OF _ arrival(3-6), of l] arrival(1) by (simp add: st1_def)
  then have "serve ce (map (\<lambda>cs. map Got cs @ [Again]) css) ws st sv l =
      do { l \<leftarrow> (if keep = 0 then aeDeleteFileEvent l (f_fd st) AE_READABLE else Some l);
           Some (if keep = 0 then Closed else Kept (new_state (f_fd st)\<lparr>f_sh := ?h, f_errcode := ec, f_sql := Some blk\<rparr>), ?rep,
             sv\<lparr>v_routes := routes, v_pool := mysqlConnectionPool_FreeOneConn blk p, v_out := out\<rparr>, l) }"
    using w h(3) [folded st5_def] by (simp add: serve_def handle_received_data_def split: option.splits)
  then show ?thesis using h(1) by metis
qed

text \<open>A code left by an earlier request of the connection leads a JSON request into the branch for errors.\<close>

lemma run_request_errcode:
  "run_request ce r st sv = Some (st', sv') \<Longrightarrow> f_errcode st \<noteq> 0 \<Longrightarrow> f_errcode st' \<noteq> 0"
  by (auto simp: run_request_def call_handler_def bind_eq_Some_conv Let_def ERR_UNDEFINED_REQUEST_ROUTE_def split: option.splits)

lemma json_handle_errcode:
  assumes "f_errcode st \<noteq> 0"
  shows "json_handle ce st sv = None"
proof -
  have e: "run_request ce r (st\<lparr>f_buffer := buf, f_used := n\<rparr>) sv = Some (st', sv') \<Longrightarrow> f_errcode st' \<noteq> 0" for r buf n st' sv'
    using run_request_errcode [of ce r "st\<lparr>f_buffer := buf, f_used := n\<rparr>" sv st' sv'] assms by simp
  have False if "json_handle ce st sv = Some res" for res
    using that assms by (auto simp: json_handle_def ERR_JSON_PARSE_FAIL_def bind_eq_Some_conv Let_def split: option.splits dest: e)
  then show ?thesis by (cases "json_handle ce st sv") blast+
qed

text \<open>
  C12: Stream requests, and an error that sticks. Let a plain stream request, with the two bytes of its route
  number, come in on an idle connection, fit the buffer and be cut in any way that leaves three bytes in the first piece, let a database
  connection be there, and let the client take the answer. A request for the one registered number is
  answered by its text, any other by the message of \<open>ERR_UNDEFINED_REQUEST_ROUTE\<close>; but the error code
  stays on a connection that is kept, so that after one unknown number every later stream request of the
  connection, the registered one too, is answered by the error message, and every later JSON request is
  undefined. The answer comes where \<open>memcpy\<close> copies overlapping areas as \<open>memmove\<close> does, or where no
  areas overlap: at most two bytes behind the route number and a reply of at most 14. In the other cases
  the request is undefined with what C promises of \<open>memcpy\<close>.
\<close>

theorem stream_requests:
  fixes l :: "('p, 't, 'f, 'c) aeEventLoop" and sv :: "('w, 'v) srv"
  assumes arrival: "14 + length body < MAX_LINE" "2 \<le> length body" "concat (concat css) = frame t REQUEST_TYPE_SAREAM 0 keep body"
      "[] \<notin> set (concat css)" "3 \<le> length (hd (concat css))" "idle st"
    and handler: "routes_ok (v_routes sv)"
    and db: "mysqlConnectionPool_GetOneConn (v_client ce) (v_pool sv) (v_out sv) = Some (Some blk, p, out)"
    and ec: "ec = (if stream_route (take 2 body) = ''r_31501'' then f_errcode st else ERR_UNDEFINED_REQUEST_ROUTE)"
    and msg: "msg = (if ec = 0 then ''sayhellotoo'' else gerErrMsg ec)"
    and sends: "\<forall>r \<in> set ws. 0 < r" "sum_list ws = int (14 + length msg)"
  shows "(v_copy ce = memmove_copy \<or> length body \<le> 4 \<and> length msg \<le> 14 \<longrightarrow> (\<exists>routes h. routes_ok routes \<and>
        serve ce (map (\<lambda>cs. map Got cs @ [Again]) css) ws st sv l =
          do { l \<leftarrow> (if keep = 0 then aeDeleteFileEvent l (f_fd st) AE_READABLE else Some l);
               Some (if keep = 0 then Closed else Kept (new_state (f_fd st)\<lparr>f_sh := h, f_errcode := ec, f_sql := Some blk\<rparr>),
                     frame (v_now ce) REQUEST_TYPE_SAREAM 0 keep (bytes msg),
                     sv\<lparr>v_routes := routes, v_pool := mysqlConnectionPool_FreeOneConn blk p, v_out := out\<rparr>, l) }))
    \<and> (v_copy ce = standard_copy \<and> (4 < length body \<or> 14 < length msg) \<longrightarrow>
        serve ce (map (\<lambda>cs. map Got cs @ [Again]) css) ws st sv l = None)
    \<and> (ec \<noteq> 0 \<longrightarrow> (\<forall>st' sv'. f_errcode st' = ec \<longrightarrow> json_handle ce st' sv' = None))"
proof (intro conjI impI allI)
  assume "v_copy ce = memmove_copy \<or> length body \<le> 4 \<and> length msg \<le> 14"
  from stream_request_answered [OF arrival handler db ec msg sends this]
  show "\<exists>routes h. routes_ok routes \<and>
    serve ce (map (\<lambda>cs. map Got cs @ [Again]) css) ws st sv l =
      do { l \<leftarrow> (if keep = 0 then aeDeleteFileEvent l (f_fd st) AE_READABLE else Some l);
           Some (if keep = 0 then Closed else Kept (new_state (f_fd st)\<lparr>f_sh := h, f_errcode := ec, f_sql := Some blk\<rparr>),
                 frame (v_now ce) REQUEST_TYPE_SAREAM 0 keep (bytes msg),
                 sv\<lparr>v_routes := routes, v_pool := mysqlConnectionPool_FreeOneConn blk p, v_out := out\<rparr>, l) }" .
next
  assume c: "v_copy ce = standard_copy \<and> (4 < length body \<or> 14 < length msg)"
  define st1 where "st1 = st\<lparr>f_buffer := frame t REQUEST_TYPE_SAREAM 0 keep body @ replicate (MAX_LINE - (14 + length body)) 0,
    f_used := 14 + length body, f_readFlag := 1\<rparr>"
  have "f_errcode st1 = f_errcode st" by (simp add: st1_def)
  then have ec1: "ec = (if stream_route (take 2 body) = ''r_31501'' then f_errcode st1 else ERR_UNDEFINED_REQUEST_ROUTE)"
    using ec by (simp only:)
  have "handle_frame ce st1 sv = None"
    by (rule stream_frame_standard [OF arrival(1,2) _ _ handler db ec1 msg]) (use c in \<open>simp_all add: st1_def\<close>)
  then show "serve ce (map (\<lambda>cs. map Got cs @ [Again]) css) ws st sv l = None"
    using read_frame [OF _ arrival(3-6), of l] arrival(1) by (simp add: serve_def handle_received_data_def st1_def bind_eq_None_conv)
next
  fix st' :: fd_state and sv' :: "('w, 'v) srv"
  assume "ec \<noteq> 0" "f_errcode st' = ec"
  then show "json_handle ce st' sv' = None" by (intro json_handle_errcode) simp
qed

lemma stream_requests_witness:
  "\<exists>routes h. serve demo_srv_env [[Got (frame 1 REQUEST_TYPE_SAREAM 0 1 [0x7B, 0x0D]), Again]]
      [int (14 + length (gerErrMsg ERR_UNDEFINED_REQUEST_ROUTE))] (new_state 5\<lparr>f_errcode := ERR_UNDEFINED_REQUEST_ROUTE\<rparr>) demo_srv demo_reader =
     Some (Kept (new_state 5\<lparr>f_sh := h, f_errcode := ERR_UNDEFINED_REQUEST_ROUTE, f_sql := Some \<lparr>b_conn = Some 7, lastUseTime = 100\<rparr>\<rparr>),
           frame 100 REQUEST_TYPE_SAREAM 0 1 (bytes (gerErrMsg ERR_UNDEFINED_REQUEST_ROUTE)), demo_srv\<lparr>v_routes := routes\<rparr>, demo_reader)"
proof -
  let ?f = "frame 1 REQUEST_TYPE_SAREAM 0 1 [0x7B, 0x0D]" and ?st = "new_state 5\<lparr>f_errcode := ERR_UNDEFINED_REQUEST_ROUTE\<rparr>"
  have r: "stream_route (take 2 [0x7B, 0x0D]) = ''r_31501''"
    by (simp add: stream_route_def ENDIAN_WORD_def show_nat.simps) (simp add: char_code_iff code_char_of, simp add: code_def)
  have css: "concat (concat [[?f]]) = ?f" "[] \<notin> set (concat [[?f]])" "3 \<le> length (hd (concat [[?f]]))"
    by (auto simp: frame_def sock_head_bytes_def frame_head_def)
  have st: "idle ?st" "f_errcode ?st = ERR_UNDEFINED_REQUEST_ROUTE" by (simp_all add: idle_def new_state_def)
  have d: "demo_srv\<lparr>v_routes := t, v_pool := mysqlConnectionPool_FreeOneConn \<lparr>b_conn = Some 7, lastUseTime = 100\<rparr>
      (demo_conn_pool\<lparr>slq_list := [], g_mysql_conn_enable := True\<rparr>), v_out := (9, {7})\<rparr> = demo_srv\<lparr>v_routes := t\<rparr>" for t
    by (simp add: demo_srv_def mysqlConnectionPool_FreeOneConn_def)
  have len: "14 + length [0x7B, 0x0D :: u8] < MAX_LINE" "2 \<le> length [0x7B, 0x0D :: u8]" by (simp_all add: csize)
  define ec where "ec = ERR_UNDEFINED_REQUEST_ROUTE"
  define msg where "msg = gerErrMsg ec"
  have x: "ec = (if stream_route (take 2 [0x7B, 0x0D]) = ''r_31501'' then f_errcode ?st else ERR_UNDEFINED_REQUEST_ROUTE)"
    "msg = (if ec = 0 then ''sayhellotoo'' else gerErrMsg ec)"
    unfolding r st(2) by (simp_all add: ec_def msg_def ERR_UNDEFINED_REQUEST_ROUTE_def)
  have copy: "v_copy demo_srv_env = memmove_copy" by (simp add: demo_srv_env_def)
  have w: "\<forall>r \<in> set [int (14 + length msg)]. 0 < r" "sum_list [int (14 + length msg)] = int (14 + length msg)" by simp_all
  obtain routes h where "serve demo_srv_env (map (\<lambda>cs. map Got cs @ [Again]) [[?f]]) [int (14 + length msg)] ?st demo_srv demo_reader =
      do { l \<leftarrow> (if (1 :: u8) = 0 then aeDeleteFileEvent demo_reader (f_fd ?st) AE_READABLE else Some demo_reader);
           Some (if (1 :: u8) = 0 then Closed else Kept (new_state (f_fd ?st)\<lparr>f_sh := h, f_errcode := ec, f_sql := Some \<lparr>b_conn = Some 7, lastUseTime = 100\<rparr>\<rparr>),
             frame (v_now demo_srv_env) REQUEST_TYPE_SAREAM 0 1 (bytes msg), demo_srv\<lparr>v_routes := routes\<rparr>, l) }"
    using stream_requests [OF len css st(1) demo_srv x w, of demo_reader, unfolded d, THEN conjunct1, THEN mp [OF _ disjI1 [OF copy]]] by blast
  moreover have "f_fd ?st = 5" "v_now demo_srv_env = 100" by (simp_all add: new_state_def demo_srv_env_def)
  ultimately show ?thesis unfolding ec_def [symmetric] msg_def [symmetric]
    by (intro exI [of _ routes] exI [of _ h]) (simp only: list.map append.simps zero_neq_one if_False Option.bind.simps simp_thms, simp)
qed

section \<open>What goes wrong\<close>

text \<open>
  C33: No JSON request is refused properly. A text that is no document, a document without a route or
  without parameters, a route that is no string, and a route nobody registered: each makes
  \<open>json_handle\<close> undefined, through a null pointer or through the length of the text it has just freed.
\<close>

theorem json_errors_undefined:
  assumes "cstr (f_buffer st) = Some js" "cJSON_Parse (e_fp (v_env ce)) js = Some doc" "routes_ok (v_routes sv)"
    "doc = None \<or> (\<exists>json. doc = Some json \<and>
       (cJSON_GetObjectItem json ''route'' = None \<or> cJSON_GetObjectItem json ''prm'' = None
        \<or> (\<exists>item. cJSON_GetObjectItem json ''route'' = Some item
             \<and> (case c_valuestring item of None \<Rightarrow> True | Some r \<Rightarrow> map_of service_routes r = None))))"
  shows "json_handle ce st sv = None"
proof (cases doc)
  case None
  then show ?thesis using assms(1,2) by (simp add: json_handle_def ERR_JSON_PARSE_FAIL_def)
next
  case (Some json)
  have run: "run_request ce None s' sv = None" for s'
    by (cases "mysqlConnectionPool_GetOneConn (v_client ce) (v_pool sv) (v_out sv)") (auto simp: run_request_def)
  have unknown: "f_errcode s'' \<noteq> 0" if un: "map_of service_routes r = None" "run_request ce (Some r) s' sv = Some (s'', sv')" for r s' s'' sv'
  proof -
    obtain t where "get_function_route (v_routes sv) (bytes r) = Some (t, None)"
      using get_function_route_ok [OF assms(3), of r] un(1) by auto
    then show ?thesis using un(2) by (auto simp: run_request_def bind_eq_Some_conv Let_def ERR_UNDEFINED_REQUEST_ROUTE_def)
  qed
  have none: "do { (st, sv) \<leftarrow> run_request ce r s' sv; guard (f_errcode st = 0); send_reply ce st sv } = None"
    if "case r of None \<Rightarrow> True | Some r \<Rightarrow> map_of service_routes r = None" for r s'
    using that run [of s'] unknown by (cases r; cases "run_request ce r s' sv") auto
  have "json_handle ce st sv = None" if "cJSON_GetObjectItem json ''route'' = Some item"
    "case c_valuestring item of None \<Rightarrow> True | Some r \<Rightarrow> map_of service_routes r = None" for item
    using assms(1,2) Some that(1) none [OF that(2)]
    by (simp add: json_handle_def bind_eq_None_conv [of "cJSON_GetObjectItem json ''prm''"]
        bind_eq_None_conv [of "cJSON_Print F x" for F x] bind_eq_None_conv [of "mem_write b i x" for b i x])
  then show ?thesis using assms(1,2,4) Some by (auto simp: json_handle_def split: option.splits)
qed

lemma json_errors_undefined_witness:
  "\<exists>js. cJSON_Parse int_fp js = Some (Some (request int_fp ''nosuch'' (cJSON_CreateString int_fp ''x'')))
     \<and> json_handle demo_srv_env (new_state 5\<lparr>f_buffer := bytes js @ [0]\<rparr>) demo_srv = None"
proof -
  let ?q = "request int_fp ''nosuch'' (cJSON_CreateString int_fp ''x'')"
  have ok: "json_ok int_fp ?q"
    by (rule request_json_ok [OF int_fp_ok]) (simp_all add: cJSON_CreateString_def int_fp_def code_def)
  then obtain js where js: "cJSON_Print int_fp ?q = Some js" "reads int_fp js ?q"
    using print_reads [OF int_fp_ok, of ?q 0 True] unfolding cJSON_Print_def by blast
  then have p: "cJSON_Parse int_fp js = Some (Some ?q)" using reads_parse [of int_fp js ?q] by (simp add: request_def)
  have "no_nul js" using print_no_nul(1) [OF int_fp_ok ok] js(1) by (simp add: cJSON_Print_def)
  then have c: "cstr (f_buffer (new_state 5\<lparr>f_buffer := bytes js @ [0]\<rparr>)) = Some js" using cstr_zeros [of js 1] by simp
  have e: "e_fp (v_env demo_srv_env) = int_fp" by (simp add: demo_srv_env_def)
  have "map_of service_routes ''nosuch'' = None" by (simp add: service_routes_def)
  then have "json_handle demo_srv_env (new_state 5\<lparr>f_buffer := bytes js @ [0]\<rparr>) demo_srv = None"
    using json_errors_undefined [OF c _ demo_srv(1), where ce = demo_srv_env, unfolded e, OF p]
    by (auto simp: request_item cJSON_CreateString_def set_string_def)
  then show ?thesis using p by blast
qed

text \<open>
  A request of an unknown type closes a connection that the loop goes on watching. The handler for
  unknown types clears the flag that keeps the connection, but the event was left in place because the
  request had it set: the state is freed while the loop still holds it.
\<close>

theorem unknown_type_dangles:
  assumes "14 + length body \<le> MAX_LINE" "ty \<notin> {REQUEST_TYPE_SAREAM, REQUEST_TYPE_JSON}" "keep \<noteq> 0" "idle st"
    "v_copy ce = memmove_copy \<or> length body \<le> 14"
  shows "serve ce [[Got (frame t ty 0 keep body), Again]] [1] st sv l =
    Some (Closed, [word_of_int ERR_UNDEFINED_REQUEST_TYPE], sv, l)"
proof -
  let ?f = "frame t ty 0 keep body" and ?zs = "replicate (MAX_LINE - (14 + length body)) (0 :: u8)"
  define st1 where "st1 = st\<lparr>f_buffer := ?f @ ?zs, f_used := 14 + length body, f_readFlag := 1\<rparr>"
  have "?f \<noteq> []" "3 \<le> length ?f" by (simp_all add: frame_def sock_head_bytes_def frame_head_def)
  then have r: "read_rounds [[Got ?f, Again]] st l = Some (Handed st1, l)"
    using read_frame [of body "[[?f]]" t ty 0 keep st l] assms by (simp add: st1_def del: read_rounds.simps)
  define st2 where "st2 = undefined_handle (st1\<lparr>f_buffer := body @ drop (length body) (?f @ ?zs), f_sh := frame_head t ty 0 keep (length body), f_used := length body\<rparr>)"
  have h: "handle_frame ce st1 sv = Some (st2, sv)"
    using handle_frame_plain [of body ?zs st1 t ty keep ce sv] assms(1,2,5)
    by (simp add: st1_def st2_def get_handle_function_def del: drop_append)
  have "length (f_buffer st2) \<noteq> 0" "take 1 (f_buffer st2) = [word_of_int ERR_UNDEFINED_REQUEST_TYPE]"
    by (simp_all add: st2_def undefined_handle_def frame_def sock_head_bytes_def take_Suc del: drop_append)
      (cases body; simp add: magic_def)
  moreover have "f_written st2 = 1" "f_upto st2 = 0" "sk_keepAlive (f_sh st2) = 0"
    using assms(4) by (simp_all add: st2_def undefined_handle_def st1_def idle_def)
  ultimately have "socketWrite [1] st2 l = Some (Closed, [word_of_int ERR_UNDEFINED_REQUEST_TYPE], l)"
    using send_all [of "[1]" st2 l] by (simp add: Suc_le_eq)
  then show ?thesis using r h by (simp add: serve_def handle_received_data_def del: read_rounds.simps)
qed

lemma unknown_type_dangles_witness:
  "serve demo_srv_env [[Got (frame 1 9 0 1 [7]), Again]] [1] (new_state 5) demo_srv demo_reader =
     Some (Closed, [word_of_int ERR_UNDEFINED_REQUEST_TYPE], demo_srv, demo_reader)"
  by (rule unknown_type_dangles) (simp_all add: idle_new csize REQUEST_TYPE_SAREAM_def REQUEST_TYPE_JSON_def)

text \<open>
  C34: A long reply is sent from beyond the buffer. A plain reply of 1011 to 1024 bytes does not fit with
  its header; the error code of \<open>getSocketSendBuff\<close> is stored as the length to send, a \<open>size_t\<close>, and the
  first \<open>send\<close> reads far outside the buffer.
\<close>

theorem oversized_reply_undefined:
  assumes "length (f_buffer st) = MAX_LINE" "MAX_LINE < 14 + f_used st" "sk_encFlag (f_sh st) = 0" "f_upto st = 0"
  shows "\<exists>st' sv'. send_reply ce st sv = Some (st', sv') \<and> f_written st' = 2 ^ 64 - 3 \<and> socketWrite (r # rs) st' l = None"
proof -
  have g: "getSocketSendBuff (v_copy ce) (v_enc ce) (v_now ce) (v_rng sv) (Some (f_buffer st)) (f_used st) MAX_LINE
      (sk_requestType (f_sh st)) (sk_encFlag (f_sh st)) (sk_keepAlive (f_sh st)) = Some (Some (f_buffer st), -3, v_rng sv)"
    using assms(2,3) by (simp add: getSocketSendBuff_def sizeof_sock_head_def)
  obtain st' sv' where s: "send_reply ce st sv = Some (st', sv')" "f_written st' = 2 ^ 64 - 3" "f_buffer st' = f_buffer st" "f_upto st' = 0"
    using g assms(4) by (simp add: send_reply_def Let_def)
  then have "mem_read (f_buffer st') (f_upto st') (f_written st' - f_upto st') = None"
    using assms(1) by (simp add: mem_read_def csize)
  then have "socketWrite (r # rs) st' l = None" using s(4) by (simp add: socketWrite_def)
  then show ?thesis using s(1,2) by blast
qed

lemma oversized_reply_undefined_witness:
  "\<exists>st' sv'. send_reply demo_srv_env (new_state 5\<lparr>f_used := 1011\<rparr>) demo_srv = Some (st', sv') \<and> f_written st' = 2 ^ 64 - 3
     \<and> socketWrite [1] st' demo_reader = None"
  by (rule oversized_reply_undefined) (simp_all add: new_state_def csize zero_head_def)

end
