(* ===== verification/MemPool.thy ===== *)
theory MemPool
  imports CPrelude
begin

text \<open>
  The memory pool of \<open>utils/memory_pool.c\<close>: columns of blocks of one size, each a region of memory with
  a stack of its free blocks. An address is an integer; \<open>heap\<close> holds the start of every region that
  \<open>malloc\<close> gave and \<open>free\<close> has not taken back. What \<open>malloc\<close> returns is an argument, \<open>None\<close> for
  \<open>NULL\<close>. The contents of the blocks are not modelled. The spin lock makes the change of a column one
  step.
\<close>

section \<open>State\<close>

record mcol =
  total_count :: nat
  remain_count :: nat
  block_len :: nat
  addr_start :: int
  addr_end :: int
  header :: "int list"

record mpool =
  b_p :: "mcol list"
  heap :: "int set"

section \<open>Operations\<close>

text \<open>One column; sizes are products of \<open>unsigned int\<close>.\<close>

definition init_column :: "nat \<Rightarrow> nat \<Rightarrow> int \<Rightarrow> mcol" where
  "init_column len cnt addr =
     \<lparr>total_count = cnt, remain_count = cnt, block_len = len, addr_start = addr,
      addr_end = addr + int ((len * cnt) mod 2 ^ 32) - 1,
      header = map (\<lambda>j. addr + int ((j * len) mod 2 ^ 32)) [0..<cnt]\<rparr>"

text \<open>\<open>MALLOC_INIT\<close>: the lengths, the counts and the regions \<open>malloc\<close> gives; \<open>NULL\<close> is written to.\<close>

fun init_columns :: "nat list \<Rightarrow> nat list \<Rightarrow> int option list \<Rightarrow> mcol list option" where
  "init_columns (len # lens) (cnt # cnts) (Some addr # addrs) =
     map_option ((#) (init_column len cnt addr)) (init_columns lens cnts addrs)"
| "init_columns [] [] [] = Some []"
| "init_columns _ _ _ = None"

definition MALLOC_INIT :: "nat list \<Rightarrow> nat list \<Rightarrow> int option list \<Rightarrow> int set \<Rightarrow> mpool option" where
  "MALLOC_INIT lens cnts addrs hp =
     do { cs \<leftarrow> init_columns lens cnts addrs; Some \<lparr>b_p = cs, heap = hp \<union> set (map addr_start cs)\<rparr> }"

text \<open>The loop of \<open>MALLOC\<close>: the first column whose blocks are large enough and not used up.\<close>

fun malloc_loop :: "nat \<Rightarrow> mcol list \<Rightarrow> (mcol list \<times> int) option option" where
  "malloc_loop n [] = Some None"
| "malloc_loop n (c # cs) =
     (if n > block_len c \<or> remain_count c = 0
      then map_option (map_option (apfst ((#) c))) (malloc_loop n cs)
      else do { buffer \<leftarrow> rd (header c) (remain_count c - 1);
                Some (Some (c\<lparr>remain_count := remain_count c - 1\<rparr> # cs, buffer)) })"

text \<open>\<open>malloc\<close> of the system; the buffer is cleared before it is compared with \<open>NULL\<close>.\<close>

definition sys_malloc :: "int option \<Rightarrow> mpool \<Rightarrow> (mpool \<times> int) option" where
  "sys_malloc addr p = do { a \<leftarrow> addr; Some (p\<lparr>heap := insert a (heap p)\<rparr>, a) }"

definition MALLOC :: "int option \<Rightarrow> nat \<Rightarrow> mpool \<Rightarrow> (mpool \<times> int) option" where
  "MALLOC addr n p =
     (if b_p p = [] then None
      else if n > block_len (last (b_p p)) then sys_malloc addr p
      else do {
        r \<leftarrow> malloc_loop n (b_p p);
        (case r of
           None \<Rightarrow> sys_malloc addr p
         | Some (cs, buffer) \<Rightarrow> Some (p\<lparr>b_p := cs\<rparr>, buffer)) })"

text \<open>The loop of \<open>FREE\<close>: the first column whose region holds the address.\<close>

fun free_loop :: "int \<Rightarrow> mcol list \<Rightarrow> mcol list option option" where
  "free_loop buffer [] = Some None"
| "free_loop buffer (c # cs) =
     (if buffer > addr_start c \<and> buffer < addr_end c
      then do {
        guard (remain_count c < length (header c));
        Some (Some (c\<lparr>header := (header c)[remain_count c := buffer], remain_count := remain_count c + 1\<rparr> # cs)) }
      else map_option (map_option ((#) c)) (free_loop buffer cs))"

definition sys_free :: "int \<Rightarrow> mpool \<Rightarrow> mpool option" where
  "sys_free a p = (if a \<in> heap p then Some (p\<lparr>heap := heap p - {a}\<rparr>) else None)"

definition FREE :: "int \<Rightarrow> mpool \<Rightarrow> mpool option" where
  "FREE buffer p =
     do { r \<leftarrow> free_loop buffer (b_p p);
          (case r of Some cs \<Rightarrow> Some (p\<lparr>b_p := cs\<rparr>) | None \<Rightarrow> sys_free buffer p) }"

text \<open>\<open>memoryPoolUnInit\<close> frees the regions; the result code is -5 when there is no pool.\<close>

fun free_all :: "int list \<Rightarrow> mpool \<Rightarrow> mpool option" where
  "free_all [] p = Some p"
| "free_all (a # as) p = do { p \<leftarrow> sys_free a p; free_all as p }"

definition memoryPoolUnInit :: "mpool option \<Rightarrow> (mpool option \<times> int) option" where
  "memoryPoolUnInit pool =
     (case pool of
        None \<Rightarrow> Some (None, -5)
      | Some p \<Rightarrow> do { p \<leftarrow> free_all (map addr_start (b_p p)) p; Some (None, 0) })"

section \<open>Blocks\<close>

definition blocks :: "mcol \<Rightarrow> int set" where
  "blocks c = (\<lambda>j. addr_start c + int (j * block_len c)) ` {..<total_count c}"

definition free_blocks :: "mcol \<Rightarrow> int list" where
  "free_blocks c = take (remain_count c) (header c)"

definition used :: "mcol \<Rightarrow> int set" where
  "used c = blocks c - set (free_blocks c)"

definition col_ok :: "mcol \<Rightarrow> bool" where
  "col_ok c \<longleftrightarrow> 2 \<le> block_len c \<and> 0 < total_count c \<and> length (header c) = total_count c
     \<and> remain_count c \<le> total_count c \<and> distinct (free_blocks c) \<and> set (free_blocks c) \<subseteq> blocks c
     \<and> addr_end c = addr_start c + int (block_len c * total_count c) - 1"

definition apart :: "mcol \<Rightarrow> mcol \<Rightarrow> bool" where
  "apart c d \<longleftrightarrow> addr_end c < addr_start d \<or> addr_end d < addr_start c"

definition cols_ok :: "mcol list \<Rightarrow> bool" where
  "cols_ok cs \<longleftrightarrow> (\<forall>c \<in> set cs. col_ok c) \<and> sorted_wrt apart cs"

definition in_use :: "mcol list \<Rightarrow> int set" where
  "in_use cs = (\<Union>c \<in> set cs. used c)"

lemma block_range: "col_ok c \<Longrightarrow> b \<in> blocks c \<Longrightarrow> addr_start c \<le> b \<and> b + int (block_len c) \<le> addr_end c + 1"
proof -
  assume c: "col_ok c" and b: "b \<in> blocks c"
  obtain j where j: "j < total_count c" "b = addr_start c + int (j * block_len c)" using b by (auto simp: blocks_def)
  have "Suc j * block_len c \<le> total_count c * block_len c" using j(1) by (intro mult_le_mono) auto
  then have "int (j * block_len c) + int (block_len c) \<le> int (block_len c * total_count c)"
    by (simp only: of_nat_add [symmetric] of_nat_le_iff) (simp add: mult.commute)
  then show ?thesis using c j(2) by (simp add: col_ok_def)
qed

lemma blocks_apart:
  assumes "col_ok c" "col_ok d" "apart c d"
  shows "blocks c \<inter> blocks d = {}"
proof -
  have "False" if "b \<in> blocks c" "b \<in> blocks d" for b
    using block_range [OF assms(1) that(1)] block_range [OF assms(2) that(2)] assms by (auto simp: apart_def col_ok_def)
  then show ?thesis by blast
qed

lemma card_blocks: "col_ok c \<Longrightarrow> card (blocks c) = total_count c"
  unfolding blocks_def by (subst card_image) (auto simp: inj_on_def col_ok_def)

text \<open>The shape of a column never changes.\<close>

definition shape :: "mcol \<Rightarrow> nat \<times> nat \<times> int \<times> int" where
  "shape c = (total_count c, block_len c, addr_start c, addr_end c)"

lemma shape_same: "shape c = shape d \<Longrightarrow> blocks c = blocks d" "shape c = shape d \<Longrightarrow> apart e c = apart e d"
  "shape c = shape d \<Longrightarrow> apart c e = apart d e"
  by (simp_all add: shape_def blocks_def apart_def)

lemma shapes_apart: "map shape cs = map shape ds \<Longrightarrow> (\<forall>x \<in> set cs. apart c x) = (\<forall>x \<in> set ds. apart c x)"
proof (induction cs arbitrary: ds)
  case (Cons x cs)
  then obtain d ds' where "ds = d # ds'" "shape x = shape d" "map shape cs = map shape ds'" by (cases ds) auto
  then show ?case using Cons.IH [of ds'] shape_same(2) [of x d c] by simp
qed simp

text \<open>Taking the block on top of the stack, and putting one back.\<close>

lemma take_block:
  assumes "col_ok c" "remain_count c \<noteq> 0"
  defines "b \<equiv> header c ! (remain_count c - 1)" and "d \<equiv> c\<lparr>remain_count := remain_count c - 1\<rparr>"
  shows "rd (header c) (remain_count c - 1) = Some b" "col_ok d" "shape d = shape c" "b \<in> blocks c" "b \<notin> used c"
    "used d = insert b (used c)"
proof -
  have r: "remain_count c - 1 < length (header c)" "remain_count c = Suc (remain_count c - 1)"
    using assms(1,2) by (auto simp: col_ok_def)
  have f: "free_blocks c = free_blocks d @ [b]"
    using take_Suc_conv_app_nth [OF r(1)] r(2) by (simp add: free_blocks_def d_def b_def)
  have bl: "blocks d = blocks c" by (simp add: blocks_def d_def)
  show "rd (header c) (remain_count c - 1) = Some b" using r(1) by (simp add: rd_def b_def)
  show "shape d = shape c" by (simp add: shape_def d_def)
  show "b \<in> blocks c" "b \<notin> used c" using assms(1) f by (auto simp: col_ok_def used_def)
  have "distinct (free_blocks d)" "set (free_blocks d) \<subseteq> blocks d" "b \<notin> set (free_blocks d)"
    using assms(1) f bl by (auto simp: col_ok_def)
  then show "col_ok d" "used d = insert b (used c)"
    using assms(1) f bl by (auto simp: col_ok_def used_def d_def)
qed

lemma put_block:
  assumes "col_ok c" "b \<in> used c"
  defines "d \<equiv> c\<lparr>header := (header c)[remain_count c := b], remain_count := remain_count c + 1\<rparr>"
  shows "remain_count c < length (header c)" "col_ok d" "shape d = shape c" "used d = used c - {b}"
proof -
  have b: "b \<in> blocks c" "b \<notin> set (free_blocks c)" using assms(2) by (auto simp: used_def)
  have "set (free_blocks c) \<subset> blocks c" using assms(1) b by (auto simp: col_ok_def)
  moreover have "finite (blocks c)" by (simp add: blocks_def)
  ultimately have "card (set (free_blocks c)) < total_count c"
    using psubset_card_mono card_blocks [OF assms(1)] by metis
  moreover have "card (set (free_blocks c)) = remain_count c"
    using assms(1) by (simp add: distinct_card col_ok_def) (simp add: free_blocks_def)
  ultimately show l: "remain_count c < length (header c)" using assms(1) by (simp add: col_ok_def)
  have f: "free_blocks d = free_blocks c @ [b]"
    using l by (simp add: free_blocks_def d_def take_Suc_conv_app_nth)
  have bl: "blocks d = blocks c" by (simp add: blocks_def d_def)
  show "shape d = shape c" by (simp add: shape_def d_def)
  have "distinct (free_blocks d)" "set (free_blocks d) \<subseteq> blocks d" using assms(1) f b bl by (auto simp: col_ok_def)
  then show "col_ok d" "used d = used c - {b}"
    using assms(1) f bl l by (auto simp: col_ok_def used_def d_def)
qed

lemma blocks_elsewhere:
  assumes "cols_ok (c # cs)" "b \<in> blocks c"
  shows "b \<notin> in_use cs"
proof
  assume "b \<in> in_use cs"
  then obtain d where d: "d \<in> set cs" "b \<in> blocks d" by (auto simp: in_use_def used_def)
  then have "col_ok c" "col_ok d" "apart c d" using assms(1) by (auto simp: cols_ok_def)
  then show False using blocks_apart d(2) assms(2) by blast
qed

lemma malloc_loop_ok:
  "cols_ok cs \<Longrightarrow>
   (malloc_loop n cs = Some None \<and> (\<forall>c \<in> set cs. n > block_len c \<or> remain_count c = 0))
   \<or> (\<exists>cs' b. malloc_loop n cs = Some (Some (cs', b)) \<and> cols_ok cs' \<and> map shape cs' = map shape cs
       \<and> b \<notin> in_use cs \<and> in_use cs' = insert b (in_use cs) \<and> (\<exists>c \<in> set cs. b \<in> blocks c \<and> n \<le> block_len c))"
proof (induction cs)
  case (Cons c cs)
  have ok: "col_ok c" "cols_ok cs" "\<forall>d \<in> set cs. apart c d" using Cons.prems by (auto simp: cols_ok_def)
  show ?case
  proof (cases "n > block_len c \<or> remain_count c = 0")
    case True
    have h: "b \<notin> used c" if "d \<in> set cs" "b \<in> blocks d" for b d
      using that blocks_apart [of c d] ok by (auto simp: cols_ok_def used_def)
    from Cons.IH [OF ok(2)] show ?thesis
    proof (elim disjE exE conjE bexE)
      fix cs' b d
      assume a: "malloc_loop n cs = Some (Some (cs', b))" "cols_ok cs'" "map shape cs' = map shape cs" "b \<notin> in_use cs"
        "in_use cs' = insert b (in_use cs)" "d \<in> set cs" "b \<in> blocks d" "n \<le> block_len d"
      have "cols_ok (c # cs')" using a(2) ok(1,3) shapes_apart [OF a(3), of c] by (simp add: cols_ok_def)
      moreover have "malloc_loop n (c # cs) = Some (Some (c # cs', b))" using True a(1) by simp
      moreover have "b \<notin> in_use (c # cs)" "in_use (c # cs') = insert b (in_use (c # cs))"
        using a(4,5) h [OF a(6,7)] by (auto simp: in_use_def)
      ultimately show ?thesis using a(3,6-8) by (intro disjI2 exI [of _ "c # cs'"] exI [of _ b]) auto
    qed (use True in simp)
  next
    case False
    note t = take_block [OF ok(1)]
    let ?d = "c\<lparr>remain_count := remain_count c - 1\<rparr>" and ?b = "header c ! (remain_count c - 1)"
    have r: "remain_count c \<noteq> 0" using False by simp
    have "apart ?d x = apart c x" for x by (rule shape_same(3) [OF t(3) [OF r]])
    then have "cols_ok (?d # cs)" using ok t(2) [OF r] by (simp add: cols_ok_def)
    moreover have "?b \<notin> in_use cs" by (rule blocks_elsewhere [OF Cons.prems t(4) [OF r]])
    moreover have "malloc_loop n (c # cs) = Some (Some (?d # cs, ?b))" using False t(1) [OF r] by simp
    ultimately show ?thesis
      using False t(3-6) [OF r] by (intro disjI2 exI [of _ "?d # cs"] exI [of _ ?b]) (simp add: in_use_def)
  qed
qed simp

lemma free_loop_ok:
  "cols_ok cs \<Longrightarrow> b \<in> in_use cs \<Longrightarrow> b \<notin> addr_start ` set cs \<Longrightarrow>
   \<exists>cs'. free_loop b cs = Some (Some cs') \<and> cols_ok cs' \<and> map shape cs' = map shape cs \<and> in_use cs' = in_use cs - {b}"
proof (induction cs)
  case (Cons c cs)
  have ok: "col_ok c" "cols_ok cs" "\<forall>d \<in> set cs. apart c d" using Cons.prems(1) by (auto simp: cols_ok_def)
  show ?case
  proof (cases "b \<in> used c")
    case True
    note p = put_block [OF ok(1) True]
    let ?d = "c\<lparr>header := (header c)[remain_count c := b], remain_count := remain_count c + 1\<rparr>"
    have "b \<in> blocks c" using True by (simp add: used_def)
    then have "addr_start c < b" "b < addr_end c"
      using block_range [OF ok(1), of b] Cons.prems(3) ok(1) by (auto simp: col_ok_def)
    moreover have "apart ?d x = apart c x" for x by (rule shape_same(3) [OF p(3)])
    then have "cols_ok (?d # cs)" using ok p(2) by (simp add: cols_ok_def)
    moreover have "b \<notin> in_use cs" by (rule blocks_elsewhere [OF Cons.prems(1) \<open>b \<in> blocks c\<close>])
    then have "in_use (?d # cs) = in_use (c # cs) - {b}" using p(4) by (auto simp: in_use_def)
    ultimately show ?thesis using p(1,3) by (intro exI [of _ "?d # cs"]) simp
  next
    case False
    then have u: "b \<in> in_use cs" using Cons.prems(2) by (auto simp: in_use_def)
    then obtain d where d: "d \<in> set cs" "b \<in> blocks d" by (auto simp: in_use_def used_def)
    have "col_ok d" "apart c d" using ok d(1) by (auto simp: cols_ok_def)
    then have "\<not> (addr_start c < b \<and> b < addr_end c)" using block_range [of d b] d(2) by (auto simp: apart_def)
    moreover obtain cs' where cs': "free_loop b cs = Some (Some cs')" "cols_ok cs'" "map shape cs' = map shape cs"
      "in_use cs' = in_use cs - {b}" using Cons.IH [OF ok(2) u] Cons.prems(3) by auto
    moreover have "cols_ok (c # cs')" using cs'(2) ok(1,3) shapes_apart [OF cs'(3), of c] by (simp add: cols_ok_def)
    moreover have "in_use (c # cs') = in_use (c # cs) - {b}" using cs'(4) False by (auto simp: in_use_def)
    ultimately show ?thesis by (intro exI [of _ "c # cs'"]) auto
  qed
qed (simp add: in_use_def)

lemma init_column_ok:
  assumes "2 \<le> len" "0 < cnt" "len * cnt < 2 ^ 32"
  shows "col_ok (init_column len cnt addr)" "used (init_column len cnt addr) = {}"
proof -
  let ?c = "init_column len cnt addr"
  have small: "(j * len) mod 2 ^ 32 = j * len" if "j < cnt" for j
  proof -
    have "j * len \<le> cnt * len" using that by (intro mult_le_mono1) simp
    then have "j * len < 2 ^ 32" using assms(3) mult.commute [of len cnt] by linarith
    then show ?thesis by (rule mod_less)
  qed
  have f: "free_blocks ?c = map (\<lambda>j. addr + int (j * len)) [0..<cnt]"
    using small by (simp add: free_blocks_def init_column_def)
  moreover have b: "blocks ?c = set (free_blocks ?c)"
    unfolding f by (auto simp: blocks_def init_column_def)
  ultimately show "col_ok ?c" "used ?c = {}"
    using assms by (auto simp: col_ok_def used_def distinct_map inj_on_def init_column_def)
qed

lemma init_columns_ok:
  "init_columns lens cnts addrs = Some cs \<Longrightarrow> \<forall>(l, c) \<in> set (zip lens cnts). 2 \<le> l \<and> 0 < c \<and> l * c < 2 ^ 32 \<Longrightarrow>
   (\<forall>c \<in> set cs. col_ok c) \<and> in_use cs = {}"
  by (induction lens cnts addrs arbitrary: cs rule: init_columns.induct)
    (auto simp: in_use_def init_column_ok)

lemma free_loop_start:
  assumes "cols_ok cs" "c \<in> set cs"
  shows "free_loop (addr_start c) cs = Some None"
proof -
  have "\<not> (addr_start d < addr_start c \<and> addr_start c < addr_end d)" if "d \<in> set cs" for d
  proof (cases "d = c")
    case False
    have "apart c d \<or> apart d c"
      using assms(1) that assms(2) False unfolding cols_ok_def
      by (metis in_set_conv_nth linorder_neqE_nat sorted_wrt_nth_less)
    moreover have "addr_start c \<le> addr_end c" "addr_start d \<le> addr_end d"
      using assms that by (auto simp: cols_ok_def col_ok_def)
    ultimately show ?thesis by (auto simp: apart_def)
  qed simp
  then show ?thesis by (induction cs) auto
qed

lemma free_all_missing: "a \<in> set as \<Longrightarrow> a \<notin> heap p \<Longrightarrow> free_all as p = None"
  by (induction as p rule: free_all.induct) (auto simp: sys_free_def)

section \<open>Properties\<close>

text \<open>
  C23: The pool allocates as an allocator should, except for one block of every column. A call of
  \<open>MALLOC\<close> that takes a block from a column takes one that is large enough and that no caller has; the
  others are untouched; every other call goes to \<open>malloc\<close>. \<open>FREE\<close> of a block that a caller has puts it
  back, unless it is the first of its column. The columns that \<open>MALLOC_INIT\<close> makes from regions that
  do not overlap start with no block in use.
\<close>

theorem pool_allocation:
  assumes "cols_ok (b_p p)"
  shows "(MALLOC addr n p = Some (p', b) \<longrightarrow>
      (b_p p' = b_p p \<and> addr = Some b \<and> heap p' = insert b (heap p))
      \<or> (cols_ok (b_p p') \<and> heap p' = heap p \<and> b \<notin> in_use (b_p p) \<and> in_use (b_p p') = insert b (in_use (b_p p))
          \<and> (\<exists>c \<in> set (b_p p). b \<in> blocks c \<and> n \<le> block_len c)))
    \<and> (a \<in> in_use (b_p p) \<and> a \<notin> addr_start ` set (b_p p) \<longrightarrow>
      (\<exists>q. FREE a p = Some q \<and> cols_ok (b_p q) \<and> heap q = heap p \<and> in_use (b_p q) = in_use (b_p p) - {a}))
    \<and> (init_columns lens cnts addrs = Some cs \<and> sorted_wrt apart cs
        \<and> (\<forall>(l, c) \<in> set (zip lens cnts). 2 \<le> l \<and> 0 < c \<and> l * c < 2 ^ 32) \<longrightarrow> cols_ok cs \<and> in_use cs = {})"
proof (intro conjI impI)
  assume m: "MALLOC addr n p = Some (p', b)"
  consider "sys_malloc addr p = Some (p', b)"
    | cs where "malloc_loop n (b_p p) = Some (Some (cs, b))" "p' = p\<lparr>b_p := cs\<rparr>"
    using m by (auto simp: MALLOC_def bind_eq_Some_conv split: if_splits option.splits)
  then show "(b_p p' = b_p p \<and> addr = Some b \<and> heap p' = insert b (heap p))
      \<or> (cols_ok (b_p p') \<and> heap p' = heap p \<and> b \<notin> in_use (b_p p) \<and> in_use (b_p p') = insert b (in_use (b_p p))
          \<and> (\<exists>c \<in> set (b_p p). b \<in> blocks c \<and> n \<le> block_len c))"
  proof cases
    case 1
    then show ?thesis by (auto simp: sys_malloc_def bind_eq_Some_conv)
  next
    case (2 cs)
    then have "cols_ok cs" "b \<notin> in_use (b_p p)" "in_use cs = insert b (in_use (b_p p))"
      "\<exists>c \<in> set (b_p p). b \<in> blocks c \<and> n \<le> block_len c"
      using malloc_loop_ok [OF assms, of n] by auto
    then show ?thesis using 2(2) by simp
  qed
next
  assume "a \<in> in_use (b_p p) \<and> a \<notin> addr_start ` set (b_p p)"
  then obtain cs' where "free_loop a (b_p p) = Some (Some cs')" "cols_ok cs'" "in_use cs' = in_use (b_p p) - {a}"
    using free_loop_ok [OF assms, of a] by blast
  then show "\<exists>q. FREE a p = Some q \<and> cols_ok (b_p q) \<and> heap q = heap p \<and> in_use (b_p q) = in_use (b_p p) - {a}"
    by (intro exI [of _ "p\<lparr>b_p := cs'\<rparr>"]) (simp add: FREE_def)
next
  assume "init_columns lens cnts addrs = Some cs \<and> sorted_wrt apart cs
        \<and> (\<forall>(l, c) \<in> set (zip lens cnts). 2 \<le> l \<and> 0 < c \<and> l * c < 2 ^ 32)"
  then show "cols_ok cs" "in_use cs = {}" using init_columns_ok [of lens cnts addrs cs] by (auto simp: cols_ok_def)
qed

text \<open>
  The first block of a column is lost. Its address is the start of the region, which the strict
  comparison in \<open>FREE\<close> excludes: the address goes to \<open>free\<close>, which takes the whole region of the column
  back while its other blocks are still handed out; the block itself never returns to the stack; and
  \<open>memoryPoolUnInit\<close> then frees the region a second time, which is undefined.
\<close>

theorem pool_first_block:
  assumes "cols_ok (b_p p)" "c \<in> set (b_p p)" "addr_start c \<in> heap p"
  shows "\<exists>q. FREE (addr_start c) p = Some q \<and> b_p q = b_p p \<and> addr_start c \<notin> heap q
    \<and> memoryPoolUnInit (Some q) = None"
proof -
  let ?q = "p\<lparr>heap := heap p - {addr_start c}\<rparr>"
  have "FREE (addr_start c) p = Some ?q"
    using free_loop_start [OF assms(1,2)] assms(3) by (simp add: FREE_def sys_free_def)
  moreover have "memoryPoolUnInit (Some ?q) = None"
    using free_all_missing [of "addr_start c" "map addr_start (b_p p)" ?q] assms(2) by (simp add: memoryPoolUnInit_def)
  ultimately show ?thesis by (intro exI [of _ ?q]) simp
qed

text \<open>Two columns of two blocks, for the witnesses.\<close>

definition demo_mpool :: mpool where
  "demo_mpool = \<lparr>b_p = [init_column 16 2 1000, init_column 32 2 2000], heap = {1000, 2000}\<rparr>"

lemma demo_columns:
  "init_column 16 2 1000 = \<lparr>total_count = 2, remain_count = 2, block_len = 16, addr_start = 1000, addr_end = 1031, header = [1000, 1016]\<rparr>"
  "init_column 32 2 2000 = \<lparr>total_count = 2, remain_count = 2, block_len = 32, addr_start = 2000, addr_end = 2063, header = [2000, 2032]\<rparr>"
  by (simp_all add: init_column_def upt_conv_Cons)

lemma demo_mpool_ok: "cols_ok (b_p demo_mpool)"
  using init_column_ok(1) [of 16 2 1000] init_column_ok(1) [of 32 2 2000]
  by (simp add: cols_ok_def demo_mpool_def apart_def demo_columns)

lemma pool_allocation_witness:
  "\<exists>p q. MALLOC None 16 demo_mpool = Some (p, 1016) \<and> in_use (b_p p) = insert 1016 (in_use (b_p demo_mpool))
     \<and> FREE 1016 p = Some q \<and> in_use (b_p q) = in_use (b_p p) - {1016}"
proof -
  obtain p where m: "MALLOC None 16 demo_mpool = Some (p, 1016)"
    by (simp add: MALLOC_def demo_mpool_def demo_columns rd_def)
  then have p: "cols_ok (b_p p)" "in_use (b_p p) = insert 1016 (in_use (b_p demo_mpool))"
    using pool_allocation [OF demo_mpool_ok, of None 16 p 1016] by auto
  have "1016 \<notin> addr_start ` set (b_p p)"
    using m by (auto simp: MALLOC_def demo_mpool_def demo_columns rd_def)
  moreover have "1016 \<in> in_use (b_p p)" using p(2) by simp
  ultimately obtain q where "FREE 1016 p = Some q" "in_use (b_p q) = in_use (b_p p) - {1016}"
    using pool_allocation [OF p(1), of None 0 p 0 1016 "[]" "[]" "[]" "[]"] by blast
  then show ?thesis using p(2) m by (intro exI [of _ p] exI [of _ q]) simp
qed

lemma pool_first_block_witness: "\<exists>q. FREE 1000 demo_mpool = Some q \<and> memoryPoolUnInit (Some q) = None"
  using pool_first_block [OF demo_mpool_ok, of "init_column 16 2 1000"]
  by (auto simp: demo_mpool_def demo_columns)

end
