(* ===== verification/MemConfig.thy ===== *)
theory MemConfig
  imports MemPool SqlText
begin

text \<open>
  \<open>memoryPoolInit\<close> of \<open>utils/memory_pool.c\<close>: the number of columns, their block lengths and their block
  counts are read from three texts of the configuration.
\<close>

section \<open>Reading the lists\<close>

fun split_on :: "char \<Rightarrow> string \<Rightarrow> string list" where
  "split_on d [] = [[]]"
| "split_on d (c # s) =
     (if c = d then [] # split_on d s
      else case split_on d s of [] \<Rightarrow> [[c]] | t # ts \<Rightarrow> (c # t) # ts)"

text \<open>The tokens that repeated calls of \<open>strtok\<close> give.\<close>

definition strtok_all :: "string \<Rightarrow> string list" where
  "strtok_all s = filter (\<lambda>t. t \<noteq> []) (split_on (CHR '','') s)"

text \<open>The text behind the first character, ended at the first closing bracket.\<close>

definition cut_brackets :: "string \<Rightarrow> string option" where
  "cut_brackets s =
     (if CHR '']'' \<notin> set s then None
      else
        let i = length (takeWhile (\<lambda>c. c \<noteq> CHR '']'') s)
        in Some (if i = 0 then drop 1 s else take (i - 1) (drop 1 s)))"

fun all_numbers :: "string list \<Rightarrow> int list option" where
  "all_numbers [] = Some []"
| "all_numbers (t # ts) = do { k \<leftarrow> atoi t; ks \<leftarrow> all_numbers ts; Some (k # ks) }"

text \<open>The first \<open>n\<close> numbers, as \<open>unsigned int\<close>; \<open>atoi\<close> of a missing one follows \<open>NULL\<close>.\<close>

definition column_numbers :: "nat \<Rightarrow> string \<Rightarrow> nat list option" where
  "column_numbers n s =
     do { txts \<leftarrow> cut_brackets s;
          let ts = strtok_all txts;
          guard (n \<le> length ts);
          ks \<leftarrow> all_numbers (take n ts);
          Some (map (\<lambda>k. nat (k mod 2 ^ 32)) ks) }"

text \<open>No columns are as good as any other number; a negative one is undefined: \<open>malloc\<close> is asked for a size
  near 2^64, and its null result is followed unless a second one fails as well.\<close>

definition memoryPoolInit :: "string \<Rightarrow> string \<Rightarrow> string \<Rightarrow> int option list \<Rightarrow> int set \<Rightarrow> (mpool \<times> int) option" where
  "memoryPoolInit colume_no_str block_len_str block_count_str addrs hp =
     do { colume_no \<leftarrow> atoi colume_no_str;
          guard (0 \<le> colume_no);
          block_len \<leftarrow> column_numbers (nat colume_no) block_len_str;
          block_count \<leftarrow> column_numbers (nat colume_no) block_count_str;
          p \<leftarrow> MALLOC_INIT block_len block_count addrs hp;
          Some (p, 0) }"

section \<open>Lists that are written properly\<close>

fun list_text :: "string list \<Rightarrow> string" where
  "list_text [] = []"
| "list_text [t] = t"
| "list_text (t # ts) = t @ CHR '','' # list_text ts"

definition entry_ok :: "string \<Rightarrow> bool" where
  "entry_ok t \<longleftrightarrow> t \<noteq> [] \<and> CHR '','' \<notin> set t \<and> CHR '']'' \<notin> set t"

lemma split_on_none: "d \<notin> set s \<Longrightarrow> split_on d s = [s]"
  by (induction s) auto

lemma split_on_at: "d \<notin> set s \<Longrightarrow> split_on d (s @ d # r) = s # split_on d r"
  by (induction s) auto

lemma strtok_list_text: "list_all entry_ok ts \<Longrightarrow> strtok_all (list_text ts) = ts"
  by (induction ts rule: list_text.induct) (auto simp: strtok_all_def entry_ok_def split_on_none split_on_at)

lemma list_text_brackets: "list_all entry_ok ts \<Longrightarrow> CHR '']'' \<notin> set (list_text ts)"
  by (induction ts rule: list_text.induct) (auto simp: entry_ok_def)

lemma cut_brackets_list: "CHR '']'' \<notin> set s \<Longrightarrow> cut_brackets (''['' @ s @ '']'') = Some s"
proof -
  assume "CHR '']'' \<notin> set s"
  then have "\<forall>c \<in> set s. c \<noteq> CHR '']''" by blast
  then have "takeWhile (\<lambda>c. c \<noteq> CHR '']'') (s @ '']'') = s" by (simp add: takeWhile_append2)
  then have "takeWhile (\<lambda>c. c \<noteq> CHR '']'') (CHR ''['' # s @ '']'') = CHR ''['' # s" by simp
  then show ?thesis by (simp add: cut_brackets_def)
qed

lemma all_numbers_list: "list_all2 (\<lambda>t k. atoi t = Some k) ts ks \<Longrightarrow> all_numbers ts = Some ks"
  by (induction ts ks rule: list_all2_induct) auto

lemma column_numbers_list:
  assumes "list_all entry_ok ts" "list_all2 (\<lambda>t k. atoi t = Some (int k)) ts ks" "list_all (\<lambda>k. k < 2 ^ 32) ks" "n = length ts"
  shows "column_numbers n (''['' @ list_text ts @ '']'') = Some ks"
proof -
  have "all_numbers ts = Some (map int ks)"
    by (rule all_numbers_list) (use assms(2) in \<open>simp add: list_all2_map2\<close>)
  moreover have "map (\<lambda>k. nat (k mod 2 ^ 32)) (map int ks) = ks"
    using assms(3) by (induction ks) (auto simp: nat_mod_distrib)
  ultimately show ?thesis
    using cut_brackets_list [OF list_text_brackets [OF assms(1)]] strtok_list_text [OF assms(1)] assms(4)
    by (simp add: column_numbers_def)
qed

text \<open>A pool without columns is made, and the first \<open>MALLOC\<close> reads before its array.\<close>

lemma memoryPoolInit_zero:
  assumes "atoi lev = Some 0" "CHR '']'' \<in> set a" "CHR '']'' \<in> set b"
  shows "memoryPoolInit lev a b [] hp = Some (\<lparr>b_p = [], heap = hp\<rparr>, 0)" "MALLOC addr n \<lparr>b_p = [], heap = hp\<rparr> = None"
  using assms by (simp_all add: memoryPoolInit_def column_numbers_def cut_brackets_def MALLOC_INIT_def MALLOC_def Let_def)

text \<open>The pool of a configuration has the columns it lists.\<close>

lemma memoryPoolInit_lists:
  assumes "list_all entry_ok ls" "list_all2 (\<lambda>t k. atoi t = Some (int k)) ls lens" "list_all (\<lambda>k. k < 2 ^ 32) lens"
    and "list_all entry_ok ns" "list_all2 (\<lambda>t k. atoi t = Some (int k)) ns cnts" "list_all (\<lambda>k. k < 2 ^ 32) cnts"
    and "atoi lev = Some (int (length ls))" "ls \<noteq> []" "length ns = length ls"
  shows "memoryPoolInit lev (''['' @ list_text ls @ '']'') (''['' @ list_text ns @ '']'') addrs hp =
    map_option (\<lambda>p. (p, 0)) (MALLOC_INIT lens cnts addrs hp)"
  using column_numbers_list [OF assms(1-3)] column_numbers_list [OF assms(4-6)] assms(7-9)
  by (cases "MALLOC_INIT lens cnts addrs hp") (simp_all add: memoryPoolInit_def)

end
