(* ===== verification/ThreadPool.thy ===== *)
theory ThreadPool
  imports CPrelude "HOL-Library.Multiset"
begin

text \<open>
  The thread pool of \<open>utils/thread_pool.c\<close>. What a thread does between taking and releasing the
  mutex is one step; the steps of different threads interleave freely. A worker that waits for the
  condition variable may wake up at any time. The mutex and the condition variable are valid, so that
  the calls on them do not fail; the queue is the FIFO list of \<open>ListRep\<close>. \<open>None\<close> is an undefined
  execution.
\<close>

section \<open>State\<close>

text \<open>Where a worker is: before the mutex, waiting for the condition, running a task without the
  mutex, or gone.\<close>

datatype 'a worker = Ready | Waiting | Running 'a | Exited

record 'a tpool =
  task_list :: "'a list"
  shutdown :: int
  thread_count :: int
  workers :: "'a worker list"
  freed :: bool

definition immediate_shutdown :: int where "immediate_shutdown = 1"
definition graceful_shutdown :: int where "graceful_shutdown = 2"
definition threadpool_invalid :: int where "threadpool_invalid = -1"
definition threadpool_shutdown :: int where "threadpool_shutdown = -4"
definition threadpool_graceful :: int where "threadpool_graceful = 1"
definition MAX_THREADS :: int where "MAX_THREADS = 100000"

lemmas pool_codes [simp] = immediate_shutdown_def graceful_shutdown_def threadpool_invalid_def
  threadpool_shutdown_def threadpool_graceful_def

section \<open>Operations\<close>

text \<open>
  \<open>threadpool_create\<close>: its result and the pool it leaves in \<open>G_THREAD_POOL\<close>. The arguments after the
  count say whether the allocations succeeded and how many threads could be started. The result is 0
  on every path, since the failures return \<open>NULL\<close>.
\<close>

definition threadpool_create :: "int \<Rightarrow> bool \<Rightarrow> int \<Rightarrow> int \<times> 'a tpool option" where
  "threadpool_create num alloc started =
     (if num \<le> 0 \<or> num > MAX_THREADS then (0, None)
      else if \<not> alloc then (0, None)
      else if started < num then (0, None)
      else (0, Some \<lparr>task_list = [], shutdown = 0, thread_count = num,
                     workers = replicate (nat num) Ready, freed = False\<rparr>))"

text \<open>\<open>pthread_cond_signal\<close> wakes a waiting thread \<open>w\<close> when there is one.\<close>

definition cond_signal :: "nat \<Rightarrow> 'a worker list \<Rightarrow> 'a worker list option" where
  "cond_signal w ws =
     (if \<not> list_ex (\<lambda>x. x = Waiting) ws then Some ws
      else if w < length ws \<and> ws ! w = Waiting then Some (ws[w := Ready]) else None)"

definition cond_broadcast :: "'a worker list \<Rightarrow> 'a worker list" where
  "cond_broadcast ws = map (\<lambda>x. case x of Waiting \<Rightarrow> Ready | _ \<Rightarrow> x) ws"

text \<open>\<open>threadpool_add\<close>; a null function is \<open>None\<close>.\<close>

definition threadpool_add :: "nat \<Rightarrow> 'a option \<Rightarrow> 'a tpool option \<Rightarrow> ('a tpool option \<times> int) option" where
  "threadpool_add w task pool =
     (case (pool, task) of
        (Some p, Some t) \<Rightarrow>
          if freed p then None
          else if shutdown p \<noteq> 0 then Some (Some p, threadpool_shutdown)
          else do {
            let p = p\<lparr>task_list := task_list p @ [t]\<rparr>;
            ws \<leftarrow> cond_signal w (workers p);
            Some (Some (p\<lparr>workers := ws\<rparr>), 0) }
      | _ \<Rightarrow> Some (pool, threadpool_invalid))"

text \<open>\<open>threadpool_destroy\<close> under the mutex: the shutdown begins and every waiting worker is woken.\<close>

definition destroy_begin :: "int \<Rightarrow> 'a tpool \<Rightarrow> 'a tpool" where
  "destroy_begin flags p =
     p\<lparr>shutdown := (if flags mod 2 = threadpool_graceful then graceful_shutdown else immediate_shutdown),
       workers := cond_broadcast (workers p)\<rparr>"

definition threadpool_free :: "'a tpool option \<Rightarrow> ('a tpool option \<times> int) option" where
  "threadpool_free pool =
     (case pool of
        None \<Rightarrow> Some (None, -1)
      | Some p \<Rightarrow> if freed p then None
          else if thread_count p > 0 then Some (Some p, -1) else Some (Some (p\<lparr>freed := True\<rparr>), 0))"

text \<open>
  The joins, without the mutex: the loop reads \<open>thread_count\<close>, which the leaving workers count down, and
  waits for one thread after the other. What the other threads do meanwhile is an argument: \<open>run (2 * i)\<close>
  before the test of round \<open>i\<close>, \<open>run (2 * i + 1)\<close> until its thread has gone.
\<close>

fun join_loop :: "(nat \<Rightarrow> 'a tpool \<Rightarrow> 'a tpool option) \<Rightarrow> nat list \<Rightarrow> 'a tpool \<Rightarrow> 'a tpool option" where
  "join_loop run [] p = Some p"
| "join_loop run (i # is) p =
     do { p \<leftarrow> run (2 * i) p;
          if thread_count p \<le> int i then Some p
          else do {
            p \<leftarrow> run (2 * i + 1) p;
            guard (workers p ! i = Exited);
            join_loop run is p } }"

text \<open>The result of \<open>threadpool_free\<close> is not looked at. A pool that is already shutting down is left with
  its mutex locked, which is not part of the state.\<close>

definition threadpool_destroy ::
  "int \<Rightarrow> (nat \<Rightarrow> 'a tpool \<Rightarrow> 'a tpool option) \<Rightarrow> 'a tpool option \<Rightarrow> ('a tpool option \<times> int) option"
where
  "threadpool_destroy flags run pool =
     (case pool of
        None \<Rightarrow> Some (None, threadpool_invalid)
      | Some p \<Rightarrow>
          if freed p then None
          else if shutdown p \<noteq> 0 then Some (Some p, threadpool_shutdown)
          else do {
            p \<leftarrow> join_loop run [0..<length (workers p)] (destroy_begin flags p);
            (pool, _) \<leftarrow> threadpool_free (Some p);
            Some (pool, 0) })"

text \<open>One pass of the loop of \<open>threadpool_thread\<close> under the mutex.\<close>

definition worker_pass :: "nat \<Rightarrow> 'a tpool \<Rightarrow> 'a tpool option" where
  "worker_pass i p =
     (if task_list p = [] \<and> shutdown p = 0 then Some (p\<lparr>workers := (workers p)[i := Waiting]\<rparr>)
      else if shutdown p = immediate_shutdown \<or> (shutdown p = graceful_shutdown \<and> task_list p = [])
      then Some (p\<lparr>workers := (workers p)[i := Exited], thread_count := thread_count p - 1\<rparr>)
      else
        (case task_list p of
           [] \<Rightarrow> None
         | t # ts \<Rightarrow> Some (p\<lparr>task_list := ts, workers := (workers p)[i := Running t]\<rparr>)))"

section \<open>Runs\<close>

datatype 'a event = Added 'a | Taken 'a | Done 'a | Other

text \<open>The steps, each with what it does to the tasks.\<close>

inductive pool_step :: "'a tpool \<Rightarrow> 'a event \<Rightarrow> 'a tpool \<Rightarrow> bool" where
  add: "threadpool_add w (Some t) (Some p) = Some (Some p', 0) \<Longrightarrow> pool_step p (Added t) p'"
| destroy: "\<not> freed p \<Longrightarrow> shutdown p = 0 \<Longrightarrow> pool_step p Other (destroy_begin flags p)"
| pass: "\<not> freed p \<Longrightarrow> i < length (workers p) \<Longrightarrow> workers p ! i = Ready \<Longrightarrow> worker_pass i p = Some p' \<Longrightarrow>
    workers p' ! i \<in> {Waiting, Exited} \<Longrightarrow> pool_step p Other p'"
| take: "\<not> freed p \<Longrightarrow> i < length (workers p) \<Longrightarrow> workers p ! i = Ready \<Longrightarrow> worker_pass i p = Some p' \<Longrightarrow>
    workers p' ! i = Running t \<Longrightarrow> pool_step p (Taken t) p'"
| finish: "i < length (workers p) \<Longrightarrow> workers p ! i = Running t \<Longrightarrow>
    pool_step p (Done t) (p\<lparr>workers := (workers p)[i := Ready]\<rparr>)"
| wake: "i < length (workers p) \<Longrightarrow> workers p ! i = Waiting \<Longrightarrow>
    pool_step p Other (p\<lparr>workers := (workers p)[i := Ready]\<rparr>)"

inductive pool_run :: "int \<Rightarrow> 'a event list \<Rightarrow> 'a tpool \<Rightarrow> bool" for n where
  created: "threadpool_create n True n = (0, Some p) \<Longrightarrow> pool_run n [] p"
| step: "pool_run n tr p \<Longrightarrow> pool_step p e p' \<Longrightarrow> pool_run n (tr @ [e]) p'"

inductive_cases pool_stepE: "pool_step p e p'"

text \<open>The tasks of a run.\<close>

fun added :: "'a event list \<Rightarrow> 'a list" where
  "added [] = []"
| "added (Added t # tr) = t # added tr"
| "added (_ # tr) = added tr"

fun taken :: "'a event list \<Rightarrow> 'a list" where
  "taken [] = []"
| "taken (Taken t # tr) = t # taken tr"
| "taken (_ # tr) = taken tr"

fun finished :: "'a event list \<Rightarrow> 'a list" where
  "finished [] = []"
| "finished (Done t # tr) = t # finished tr"
| "finished (_ # tr) = finished tr"

fun running :: "'a worker list \<Rightarrow> 'a multiset" where
  "running [] = {#}"
| "running (Running t # ws) = add_mset t (running ws)"
| "running (_ # ws) = running ws"

section \<open>Lemmas\<close>

lemma trace_append [simp]:
  "added (tr @ tr') = added tr @ added tr'" "taken (tr @ tr') = taken tr @ taken tr'"
  "finished (tr @ tr') = finished tr @ finished tr'"
  by (induction tr rule: added.induct; simp)+

lemma running_append [simp]: "running (xs @ ys) = running xs + running ys"
  by (induction xs rule: running.induct) auto

lemma running_replicate_Ready [simp]: "running (replicate k Ready) = {#}"
  by (induction k) auto

text \<open>Replacing one worker.\<close>

lemma running_update:
  "i < length ws \<Longrightarrow> running (ws[i := x]) + running [ws ! i] = running ws + running [x]"
  using running_append [of "take i ws" "ws ! i # drop (Suc i) ws"] running_append [of "take i ws" "x # drop (Suc i) ws"]
    running_append [of "[ws ! i]" "drop (Suc i) ws"] running_append [of "[x]" "drop (Suc i) ws"]
  by (simp add: upd_conv_take_nth_drop id_take_nth_drop [symmetric] ac_simps)

lemma running_same:
  "i < length ws \<Longrightarrow> running [ws ! i] = {#} \<Longrightarrow> running [x] = {#} \<Longrightarrow> running (ws[i := x]) = running ws"
  using running_update [of i ws x] by simp

lemma running_broadcast [simp]: "running (cond_broadcast ws) = running ws"
  by (induction ws rule: running.induct) (auto simp: cond_broadcast_def)

lemma running_signal: "cond_signal w ws = Some ws' \<Longrightarrow> running ws' = running ws"
  by (auto simp: cond_signal_def running_same split: if_splits)

text \<open>A step, by its effect on the queue and on the running tasks.\<close>

lemma pool_step_tasks:
  assumes "pool_step p e p'"
  shows "taken [e] @ task_list p' = task_list p @ added [e]
    \<and> mset (finished [e]) + running (workers p') = mset (taken [e]) + running (workers p)"
  using assms
proof (cases)
  case (add w t)
  then show ?thesis
    by (auto simp: threadpool_add_def bind_eq_Some_conv Let_def running_signal split: if_splits)
next
  case (destroy flags)
  then show ?thesis by (auto simp: destroy_begin_def)
next
  case (pass i)
  then show ?thesis by (auto simp: worker_pass_def running_same split: if_splits list.splits)
next
  case (take i t)
  then show ?thesis
    using running_update [of i "workers p" "Running t"]
    by (auto simp: worker_pass_def split: if_splits list.splits)
next
  case (finish i t)
  then show ?thesis using running_update [of i "workers p" Ready] by auto
next
  case (wake i)
  then show ?thesis by (auto simp: running_same)
qed

text \<open>What holds of the workers in every state of a run: their number, the count of those that have
  not gone, no one waits once the pool shuts down, and no one waits for nothing.\<close>

definition pool_inv :: "int \<Rightarrow> 'a tpool \<Rightarrow> bool" where
  "pool_inv n p \<longleftrightarrow> 0 < n \<and> int (length (workers p)) = n
     \<and> shutdown p \<in> {0, immediate_shutdown, graceful_shutdown}
     \<and> thread_count p = int (length (filter (\<lambda>x. x \<noteq> Exited) (workers p)))
     \<and> (shutdown p = 0 \<longrightarrow> Exited \<notin> set (workers p))
     \<and> (shutdown p \<noteq> 0 \<longrightarrow> Waiting \<notin> set (workers p))
     \<and> (shutdown p = graceful_shutdown \<and> Exited \<in> set (workers p) \<longrightarrow> task_list p = [])
     \<and> (task_list p \<noteq> [] \<and> shutdown p = 0 \<longrightarrow> (\<exists>x \<in> set (workers p). x \<noteq> Waiting))"

lemma set_broadcast: "Waiting \<notin> set (cond_broadcast ws)" "Exited \<in> set (cond_broadcast ws) \<longleftrightarrow> Exited \<in> set ws"
  "length (cond_broadcast ws) = length ws"
  "length (filter (\<lambda>x. x \<noteq> Exited) (cond_broadcast ws)) = length (filter (\<lambda>x. x \<noteq> Exited) ws)"
proof -
  show "Waiting \<notin> set (cond_broadcast ws)" by (auto simp: cond_broadcast_def split: worker.splits)
  show "Exited \<in> set (cond_broadcast ws) \<longleftrightarrow> Exited \<in> set ws"
    by (force simp: cond_broadcast_def split: worker.splits)
  show "length (cond_broadcast ws) = length ws" by (simp add: cond_broadcast_def)
  show "length (filter (\<lambda>x. x \<noteq> Exited) (cond_broadcast ws)) = length (filter (\<lambda>x. x \<noteq> Exited) ws)"
    by (induction ws) (auto simp: cond_broadcast_def split: worker.splits)
qed

lemma count_update:
  "i < length ws \<Longrightarrow> length (filter P (ws[i := x])) + (if P (ws ! i) then 1 else 0)
     = length (filter P ws) + (if P x then 1 else 0)"
proof -
  assume i: "i < length ws"
  have "length (filter P ws) = length (filter P (take i ws)) + (if P (ws ! i) then 1 else 0) + length (filter P (drop (Suc i) ws))"
    by (subst id_take_nth_drop [OF i]) simp
  then show ?thesis using i by (simp add: upd_conv_take_nth_drop)
qed

lemma count_same:
  "i < length ws \<Longrightarrow> P (ws ! i) = P x \<Longrightarrow> length (filter P (ws[i := x])) = length (filter P ws)"
  using count_update [of i ws P x] by simp

lemma set_update_sub: "y \<in> set (ws[i := x]) \<Longrightarrow> y = x \<or> y \<in> set ws"
  using set_update_subset_insert [of ws i x] by blast

lemma update_has: "i < length ws \<Longrightarrow> x \<noteq> Waiting \<Longrightarrow> \<exists>y \<in> set (ws[i := x]). y \<noteq> Waiting"
  using set_update_memI [of i ws x] by blast

lemma inv_created: "threadpool_create n True n = (0, Some p) \<Longrightarrow> pool_inv n p"
  by (auto simp: threadpool_create_def pool_inv_def split: if_splits)

lemma inv_signal:
  assumes "cond_signal w ws = Some ws'" "ws \<noteq> []"
  shows "length ws' = length ws \<and> length (filter (\<lambda>x. x \<noteq> Exited) ws') = length (filter (\<lambda>x. x \<noteq> Exited) ws)
    \<and> (Exited \<in> set ws' \<longrightarrow> Exited \<in> set ws) \<and> (\<exists>x \<in> set ws'. x \<noteq> Waiting)"
proof -
  have ex: "list_ex (\<lambda>x. x = Waiting) ws \<longleftrightarrow> Waiting \<in> set ws" by (simp add: list_ex_iff)
  consider "ws' = ws" "Waiting \<notin> set ws" | "w < length ws" "ws ! w = Waiting" "ws' = ws[w := Ready]"
    using assms(1) unfolding cond_signal_def ex by (metis option.distinct(1) option.inject)
  then show ?thesis
  proof cases
    case 1
    then show ?thesis using assms(2) by (auto simp: neq_Nil_conv)
  next
    case 2
    then show ?thesis using update_has [of w ws Ready] by (auto simp: count_same dest: set_update_sub)
  qed
qed

lemma inv_step:
  assumes "pool_step p e p'" "pool_inv n p"
  shows "pool_inv n p'"
  using assms(1)
proof cases
  case (add w t)
  then have sh: "shutdown p = 0" and ws: "cond_signal w (workers p) = Some (workers p')"
    and eq: "shutdown p' = 0" "thread_count p' = thread_count p" "task_list p' = task_list p @ [t]"
    by (auto simp: threadpool_add_def bind_eq_Some_conv Let_def split: if_splits)
  have "workers p \<noteq> []" using assms(2) by (auto simp: pool_inv_def)
  from inv_signal [OF ws this] show ?thesis using assms(2) sh eq by (auto simp: pool_inv_def)
next
  case (destroy flags)
  then show ?thesis
    using assms(2) set_broadcast [of "workers p"] by (auto simp: destroy_begin_def pool_inv_def)
next
  case (pass i)
  note c = count_update [OF pass(3), of "\<lambda>x. x \<noteq> Exited"]
  show ?thesis
  proof (cases "task_list p = [] \<and> shutdown p = 0")
    case True
    then have "p' = p\<lparr>workers := (workers p)[i := Waiting]\<rparr>" using pass by (simp add: worker_pass_def)
    then show ?thesis
      using assms(2) True pass c [of Waiting] set_update_sub [of _ "workers p" i Waiting] by (auto simp: pool_inv_def)
  next
    case False
    then have "p' = p\<lparr>workers := (workers p)[i := Exited], thread_count := thread_count p - 1\<rparr>"
      "shutdown p = immediate_shutdown \<or> (shutdown p = graceful_shutdown \<and> task_list p = [])"
      using pass by (auto simp: worker_pass_def split: if_splits list.splits)
    then show ?thesis
      using assms(2) False pass c [of Exited] set_update_sub [of _ "workers p" i Exited] by (auto simp: pool_inv_def)
  qed
next
  case (take i t)
  then have p': "p' = p\<lparr>task_list := tl (task_list p), workers := (workers p)[i := Running t]\<rparr>" "task_list p \<noteq> []"
    by (auto simp: worker_pass_def split: if_splits list.splits)
  then show ?thesis
    using assms(2) take update_has [of i "workers p" "Running t"] set_update_sub [of _ "workers p" i "Running t"]
      count_same [OF take(3), of "\<lambda>x. x \<noteq> Exited" "Running t"] by (auto simp: pool_inv_def)
next
  case (finish i t)
  then show ?thesis
    using assms(2) update_has [of i "workers p" Ready] set_update_sub [of _ "workers p" i Ready]
      count_same [of i "workers p" "\<lambda>x. x \<noteq> Exited" Ready] by (auto simp: pool_inv_def)
next
  case (wake i)
  then show ?thesis
    using assms(2) update_has [of i "workers p" Ready] set_update_sub [of _ "workers p" i Ready]
      count_same [of i "workers p" "\<lambda>x. x \<noteq> Exited" Ready] by (auto simp: pool_inv_def)
qed

lemma run_inv: "pool_run n tr p \<Longrightarrow> pool_inv n p"
  by (induction rule: pool_run.induct) (auto intro: inv_created inv_step)

text \<open>The work left when the pool drains.\<close>

fun weight :: "'a worker \<Rightarrow> nat" where
  "weight Ready = 1"
| "weight Waiting = 2"
| "weight (Running _) = 2"
| "weight Exited = 0"

definition work_left :: "'a tpool \<Rightarrow> nat" where
  "work_left p = 3 * length (task_list p) + sum_list (map weight (workers p))"

lemma weight_update:
  "i < length ws \<Longrightarrow> sum_list (map weight (ws[i := x])) + weight (ws ! i) = sum_list (map weight ws) + weight x"
proof -
  assume i: "i < length ws"
  have "sum_list (map weight ws) = sum_list (map weight (take i ws)) + weight (ws ! i) + sum_list (map weight (drop (Suc i) ws))"
    by (subst id_take_nth_drop [OF i]) simp
  then show ?thesis using i by (simp add: upd_conv_take_nth_drop)
qed

lemma drain_step:
  assumes "pool_inv n p" "shutdown p = graceful_shutdown" "\<not> freed p" "x \<in> set (workers p)" "x \<noteq> Exited"
  obtains e p' where "pool_step p e p'" "shutdown p' = graceful_shutdown" "\<not> freed p'" "work_left p' < work_left p" "added [e] = []"
proof -
  obtain i where i: "i < length (workers p)" "workers p ! i = x" using assms(4) by (auto simp: in_set_conv_nth)
  show thesis
  proof (cases x)
    case Ready
    show thesis
    proof (cases "task_list p")
      case Nil
      let ?p = "p\<lparr>workers := (workers p)[i := Exited], thread_count := thread_count p - 1\<rparr>"
      have "pool_step p Other ?p"
        by (rule pool_step.pass [of p i]) (use assms i Ready Nil in \<open>simp_all add: worker_pass_def\<close>)
      then show thesis
        using that [of Other ?p] assms weight_update [OF i(1), of Exited] i(2) Ready by (simp add: work_left_def)
    next
      case (Cons t ts)
      let ?p = "p\<lparr>task_list := ts, workers := (workers p)[i := Running t]\<rparr>"
      have "pool_step p (Taken t) ?p"
        by (rule pool_step.take [of p i]) (use assms i Ready Cons in \<open>simp_all add: worker_pass_def\<close>)
      then show thesis
        using that [of "Taken t" ?p] assms weight_update [OF i(1), of "Running t"] i(2) Ready Cons by (simp add: work_left_def)
    qed
  next
    case (Running t)
    let ?p = "p\<lparr>workers := (workers p)[i := Ready]\<rparr>"
    have "pool_step p (Done t) ?p" using i Running by (intro pool_step.finish) simp_all
    then show thesis
      using that [of "Done t" ?p] assms weight_update [OF i(1), of Ready] i(2) Running by (simp add: work_left_def)
  next
    case Waiting
    then show thesis using assms by (simp add: pool_inv_def)
  qed (use assms in simp)
qed

lemma drains:
  "pool_run n tr p \<Longrightarrow> shutdown p = graceful_shutdown \<Longrightarrow> \<not> freed p \<Longrightarrow>
   \<exists>tr' p'. pool_run n (tr @ tr') p' \<and> added tr' = [] \<and> shutdown p' = graceful_shutdown \<and> \<not> freed p'
     \<and> (\<forall>x \<in> set (workers p'). x = Exited)"
proof (induction "work_left p" arbitrary: tr p rule: less_induct)
  case less
  show ?case
  proof (cases "\<forall>x \<in> set (workers p). x = Exited")
    case True
    then show ?thesis using less.prems by (intro exI [of _ "[]"] exI [of _ p]) simp
  next
    case False
    then obtain x where x: "x \<in> set (workers p)" "x \<noteq> Exited" by blast
    obtain e p1 where p1: "pool_step p e p1" "shutdown p1 = graceful_shutdown" "\<not> freed p1"
      "work_left p1 < work_left p" "added [e] = []"
      by (rule drain_step [OF run_inv [OF less.prems(1)] less.prems(2,3) x])
    from less.hyps [OF p1(4) pool_run.step [OF less.prems(1) p1(1)] p1(2,3)]
    obtain tr' p' where "pool_run n ((tr @ [e]) @ tr') p'" "added tr' = []" "shutdown p' = graceful_shutdown" "\<not> freed p'"
      "\<forall>x \<in> set (workers p'). x = Exited" by blast
    then show ?thesis
      using p1(5) trace_append(1) [of "[e]" tr'] by (intro exI [of _ "e # tr'"] exI [of _ p']) simp
  qed
qed

lemma run_tasks:
  "pool_run n tr p \<Longrightarrow> added tr = taken tr @ task_list p \<and> mset (taken tr) = mset (finished tr) + running (workers p)"
proof (induction rule: pool_run.induct)
  case (created p)
  then show ?case by (auto simp: threadpool_create_def split: if_splits)
next
  case (step tr p e p')
  from pool_step_tasks [OF step.hyps(2)] step.IH show ?case by (simp add: ac_simps)
qed

lemma running_Exited: "\<forall>x \<in> set ws. x = Exited \<Longrightarrow> running ws = {#}"
  by (induction ws rule: running.induct) auto

section \<open>Properties\<close>

text \<open>
  C7: Every task accepted by \<open>threadpool_add\<close> is taken by at most one worker, in the order in which the
  tasks were added, under every interleaving of adders and workers: the tasks added are the tasks
  taken followed by the tasks in the queue, and those taken are the finished and the running ones.
\<close>

theorem pool_tasks_once:
  assumes "pool_run n tr p"
  shows "added tr = taken tr @ task_list p \<and> mset (taken tr) = mset (finished tr) + running (workers p)"
  by (rule run_tasks [OF assms])

text \<open>
  C8: No wake-up is lost. In every reachable state with a task in the queue, unless the pool shuts down
  at once, some worker is running or about to look at the queue; and once the pool shuts down, no
  worker waits for the condition.
\<close>

theorem pool_no_lost_wakeup:
  assumes "pool_run n tr p"
  shows "(task_list p \<noteq> [] \<and> shutdown p \<noteq> immediate_shutdown \<longrightarrow>
      (\<exists>x \<in> set (workers p). x = Ready \<or> (\<exists>t. x = Running t)))
    \<and> (shutdown p \<noteq> 0 \<longrightarrow> Waiting \<notin> set (workers p))"
proof -
  have inv: "pool_inv n p" by (rule run_inv [OF assms])
  have ne: "workers p \<noteq> []" using inv by (auto simp: pool_inv_def)
  have "\<exists>x \<in> set (workers p). x = Ready \<or> (\<exists>t. x = Running t)"
    if t: "task_list p \<noteq> []" and s: "shutdown p \<noteq> immediate_shutdown"
  proof -
    have "\<exists>x \<in> set (workers p). x \<noteq> Waiting \<and> x \<noteq> Exited"
    proof (cases "shutdown p = 0")
      case True
      then show ?thesis using inv t by (auto simp: pool_inv_def)
    next
      case False
      then have "Waiting \<notin> set (workers p)" "Exited \<notin> set (workers p)"
        using inv s t by (auto simp: pool_inv_def)
      then show ?thesis using ne by (auto simp: neq_Nil_conv)
    qed
    then obtain x where x: "x \<in> set (workers p)" "x \<noteq> Waiting" "x \<noteq> Exited" by blast
    then have "x = Ready \<or> (\<exists>t. x = Running t)" by (cases x rule: worker.exhaust) simp_all
    then show ?thesis using x(1) by blast
  qed
  then show ?thesis using inv by (auto simp: pool_inv_def)
qed

text \<open>
  C9: A graceful shutdown drains the pool. From every state in which it has begun, the workers can run
  on until the last one has gone, without any new task; in every such final state all tasks ever
  accepted are finished, and \<open>threadpool_free\<close> succeeds.
\<close>

theorem pool_graceful_drains:
  assumes "pool_run n tr p" "shutdown p = graceful_shutdown" "\<not> freed p"
  shows "\<exists>tr' p'. pool_run n (tr @ tr') p' \<and> added tr' = [] \<and> (\<forall>x \<in> set (workers p'). x = Exited)
    \<and> mset (finished (tr @ tr')) = mset (added (tr @ tr')) \<and> threadpool_free (Some p') = Some (Some (p'\<lparr>freed := True\<rparr>), 0)"
proof -
  obtain tr' p' where p': "pool_run n (tr @ tr') p'" "added tr' = []" "shutdown p' = graceful_shutdown" "\<not> freed p'"
    "\<forall>x \<in> set (workers p'). x = Exited"
    using drains [OF assms] by blast
  have inv: "pool_inv n p'" by (rule run_inv [OF p'(1)])
  have "Exited \<in> set (workers p')" using inv p'(5) by (cases "workers p'") (auto simp: pool_inv_def)
  then have "task_list p' = []" using inv p'(3) by (simp add: pool_inv_def)
  then have "mset (finished (tr @ tr')) = mset (added (tr @ tr'))"
    using run_tasks [OF p'(1)] running_Exited [OF p'(5)] by simp
  moreover have "filter (\<lambda>x. x \<noteq> Exited) (workers p') = []" using p'(5) by (simp add: filter_empty_conv)
  then have "threadpool_free (Some p') = Some (Some (p'\<lparr>freed := True\<rparr>), 0)"
    using inv p'(4) by (simp add: threadpool_free_def pool_inv_def)
  ultimately show ?thesis using p' by blast
qed

text \<open>Threads that have gone are joined at once.\<close>

lemma join_loop_gone:
  assumes "\<forall>i > 0. \<forall>r. run i r = Some r" "thread_count q \<le> int j" "\<forall>i < j. workers q ! i = Exited"
  shows "0 < a \<Longrightarrow> a \<le> b \<Longrightarrow> j \<le> b \<Longrightarrow> join_loop run [a..<b] q = Some q"
proof (induction "b - a" arbitrary: a)
  case (Suc k)
  then have "[a..<b] = a # [Suc a..<b]" by (simp add: upt_conv_Cons)
  then show ?case using Suc assms by (cases "a < j") auto
qed simp

text \<open>
  \<open>threadpool_destroy\<close> reports success whether or not the workers have gone. The loop of the joins
  counts up to \<open>thread_count\<close>, while every worker that leaves counts it down. When, before the loop begins,
  the first \<open>j\<close> workers have left and at most \<open>j\<close> are there, it ends without a join of the others; if
  these include one that has not left, the result is 0, the pool is not freed, and the worker goes on
  with the caller believing that the pool is gone. If all have left, the pool is freed.
\<close>

theorem threadpool_destroy_unjoined:
  assumes "pool_run n tr q" "\<not> freed q" "\<not> freed p" "shutdown p = 0" "length (workers p) = nat n"
    and "run 0 (destroy_begin flags p) = Some q" "\<forall>i > 0. \<forall>r. run i r = Some r"
    and "j \<le> nat n" "\<forall>i < j. workers q ! i = Exited" "thread_count q \<le> int j"
  shows "threadpool_destroy flags run (Some p) =
    (if \<forall>x \<in> set (workers q). x = Exited then Some (Some (q\<lparr>freed := True\<rparr>), 0) else Some (Some q, 0))"
proof -
  have inv: "pool_inv n q" by (rule run_inv [OF assms(1)])
  then have n: "0 < nat n" "thread_count q = int (length (filter (\<lambda>x. x \<noteq> Exited) (workers q)))"
    by (auto simp: pool_inv_def)
  then have e: "thread_count q = 0 \<longleftrightarrow> (\<forall>x \<in> set (workers q). x = Exited)" "0 \<le> thread_count q" by (auto simp: filter_empty_conv)
  have "join_loop run [0..<nat n] (destroy_begin flags p) = Some q"
  proof -
    have "[0..<nat n] = 0 # [1..<nat n]" using n(1) by (simp add: upt_conv_Cons)
    moreover have "join_loop run [1..<nat n] q = Some q" by (rule join_loop_gone [OF assms(7,10,9)]) (use n(1) assms(8) in auto)
    moreover have "0 < thread_count q \<Longrightarrow> workers q ! 0 = Exited" using assms(9,10) by simp
    ultimately show ?thesis using assms(6,7) by (simp add: not_le)
  qed
  then show ?thesis using assms(2-5) e by (auto simp: threadpool_destroy_def threadpool_free_def)
qed

text \<open>A run of two workers and one task, for the witnesses.\<close>

definition demo_pool :: "nat tpool" where
  "demo_pool = \<lparr>task_list = [], shutdown = 0, thread_count = 2, workers = [Ready, Ready], freed = False\<rparr>"

lemma demo_run:
  "pool_run 2 [Added 7] (demo_pool\<lparr>task_list := [7]\<rparr>)"
  "pool_run 2 [Added 7, Other] (demo_pool\<lparr>task_list := [7], shutdown := 2\<rparr>)"
proof -
  have "pool_run 2 [] demo_pool"
    by (rule pool_run.created) (simp add: threadpool_create_def demo_pool_def MAX_THREADS_def eval_nat_numeral)
  from pool_run.step [OF this pool_step.add [of 0 7 demo_pool]]
  show a: "pool_run 2 [Added 7] (demo_pool\<lparr>task_list := [7]\<rparr>)"
    by (simp add: threadpool_add_def demo_pool_def cond_signal_def)
  from pool_run.step [OF a pool_step.destroy [of _ 1]]
  show "pool_run 2 [Added 7, Other] (demo_pool\<lparr>task_list := [7], shutdown := 2\<rparr>)"
    by (simp add: destroy_begin_def demo_pool_def cond_broadcast_def)
qed

text \<open>The second of two workers runs the task; the first leaves, and the second is not waited for.\<close>

lemma threadpool_destroy_unjoined_witness:
  "\<exists>run (q :: nat tpool). threadpool_destroy 0 run (Some (demo_pool\<lparr>workers := [Ready, Running 7]\<rparr>)) = Some (Some q, 0)
     \<and> workers q = [Exited, Running 7] \<and> \<not> freed q"
proof -
  let ?p = "demo_pool\<lparr>workers := [Ready, Running 7]\<rparr>"
  define q where "q = destroy_begin 0 ?p\<lparr>workers := [Exited, Running 7], thread_count := 1\<rparr>"
  have "pool_run 2 ([Added 7] @ [Taken 7]) ?p"
    by (rule pool_run.step [OF demo_run(1) pool_step.take [of _ 1]]) (simp_all add: demo_pool_def worker_pass_def)
  from pool_run.step [OF this pool_step.destroy [of ?p 0]]
  have b: "pool_run 2 (([Added 7] @ [Taken 7]) @ [Other]) (destroy_begin 0 ?p)" by (simp add: demo_pool_def)
  have c: "pool_run 2 ((([Added 7] @ [Taken 7]) @ [Other]) @ [Other]) q"
    by (rule pool_run.step [OF b pool_step.pass [of _ 0]])
      (simp_all add: demo_pool_def worker_pass_def destroy_begin_def cond_broadcast_def q_def)
  have "threadpool_destroy 0 (\<lambda>i r. if i = 0 then Some q else Some r) (Some ?p) =
      (if \<forall>x \<in> set (workers q). x = Exited then Some (Some (q\<lparr>freed := True\<rparr>), 0) else Some (Some q, 0))"
    by (rule threadpool_destroy_unjoined [OF c, where j = 1]) (simp_all add: q_def demo_pool_def destroy_begin_def)
  then show ?thesis by (intro exI [of _ "\<lambda>i r. if i = 0 then Some q else Some r"] exI [of _ q]) (simp add: q_def demo_pool_def destroy_begin_def)
qed

lemma pool_tasks_once_witness: "\<exists>p :: nat tpool. pool_run 2 [Added 7] p \<and> added [Added 7] = taken [Added 7] @ task_list p"
  using pool_tasks_once [OF demo_run(1)] demo_run(1) by blast

lemma pool_no_lost_wakeup_witness:
  "\<exists>p :: nat tpool. pool_run 2 [Added 7] p \<and> task_list p = [7] \<and> (\<exists>x \<in> set (workers p). x = Ready \<or> (\<exists>t. x = Running t))"
  using pool_no_lost_wakeup [OF demo_run(1)] demo_run(1) by (auto simp: demo_pool_def)

lemma pool_graceful_drains_witness:
  "\<exists>tr' p'. pool_run 2 ([Added (7 :: nat), Other] @ tr') p' \<and> mset (finished ([Added 7, Other] @ tr')) = mset (added ([Added 7, Other] @ tr'))"
proof -
  have "shutdown (demo_pool\<lparr>task_list := [7], shutdown := 2\<rparr>) = graceful_shutdown" "\<not> freed (demo_pool\<lparr>task_list := [7], shutdown := 2\<rparr>)"
    by (simp_all add: demo_pool_def)
  from pool_graceful_drains [OF demo_run(2) this] show ?thesis by blast
qed

end
