(* ===== verification/Log.thy ===== *)
theory Log
  imports ErrCode
begin

text \<open>
  The log of \<open>utils/log.c\<close>: callers format a line and put it into a list, one thread takes the lines out
  and appends them to the file of the day. The clock, the text \<open>vsprintf\<close> makes and whether \<open>fopen\<close>
  succeeds are arguments; \<open>malloc\<close> succeeds. The list is used at both ends as a queue; the spin lock
  makes putting and taking one step each. The mutex is a flag on which the log thread waits and which
  every caller clears: POSIX leaves unlocking a mutex of another thread undefined, the model takes
  what the default mutex of Linux does.
\<close>

section \<open>State\<close>

record tm =
  tm_year :: nat
  tm_mon :: nat
  tm_mday :: nat
  tm_hour :: nat
  tm_min :: nat
  tm_sec :: nat

record log_msg =
  lm_level :: int
  data_body :: "string option"

record logger =
  g_log_enable :: bool
  g_logFile :: "string option"
  g_logPath :: string
  g_log_name :: string
  g_log_level :: int
  g_oldDay :: nat
  g_log_save_days :: int
  log_list :: "log_msg list"
  disk :: "string \<Rightarrow> string"

definition L_ERROR :: int where "L_ERROR = 0"
definition L_WARNING :: int where "L_WARNING = 1"
definition L_INFO :: int where "L_INFO = 2"
definition L_DEBUG :: int where "L_DEBUG = 3"

lemmas log_levels = L_ERROR_def L_WARNING_def L_INFO_def L_DEBUG_def

definition ga_str_log_level :: "string list" where
  "ga_str_log_level = [''ERROR'', ''WARNING'', ''INFO '', ''DEBUG'']"

definition logger0 :: logger where
  "logger0 = \<lparr>g_log_enable = False, g_logFile = None, g_logPath = [], g_log_name = [], g_log_level = 3, g_oldDay = 0,
     g_log_save_days = 30, log_list = [], disk = (\<lambda>f. [])\<rparr>"

section \<open>Operations\<close>

text \<open>A number with \<open>%0\<close> and a width.\<close>

definition padded_nat :: "nat \<Rightarrow> nat \<Rightarrow> string" where
  "padded_nat k n = replicate (k - length (show_nat n)) (CHR ''0'') @ show_nat n"

definition day_text :: "tm \<Rightarrow> string" where
  "day_text t = padded_nat 4 (tm_year t + 1900) @ ''-'' @ padded_nat 2 (tm_mon t + 1) @ ''-'' @ padded_nat 2 (tm_mday t)"

text \<open>\<open>update_logname\<close>: the name, when the day of the month is another one.\<close>

definition update_logname :: "tm \<Rightarrow> logger \<Rightarrow> string option \<times> logger" where
  "update_logname t l =
     (if tm_mday t \<noteq> g_oldDay l
      then (Some (''LOG'' @ day_text t @ ''.log''), l\<lparr>g_oldDay := tm_mday t\<rparr>)
      else (None, l))"

text \<open>The two paths built in a buffer of 512 characters, the old one for nothing.\<close>

definition log_rotate :: "(string \<Rightarrow> bool) \<Rightarrow> string \<Rightarrow> logger \<Rightarrow> (bool \<times> logger) option" where
  "log_rotate can_open name l =
     do { guard (length (g_logPath l) + length (g_log_name l) < 512);
          guard (g_logFile l \<noteq> None);
          guard (length (g_logPath l) + length name < 512);
          guard (length name < 64);
          let path = g_logPath l @ name;
          Some (can_open path, l\<lparr>g_log_name := name, g_logFile := (if can_open path then Some path else None)\<rparr>) }"

definition log_handle :: "(string \<Rightarrow> bool) \<Rightarrow> tm \<Rightarrow> log_msg option \<Rightarrow> logger \<Rightarrow> logger option" where
  "log_handle can_open t Param l =
     (case Param of
        None \<Rightarrow> Some l
      | Some msg \<Rightarrow> do {
          let (name_new, l) = update_logname t l;
          (opened, l) \<leftarrow> (case name_new of None \<Rightarrow> Some (True, l) | Some name \<Rightarrow> log_rotate can_open name l);
          if \<not> opened then Some l
          else if lm_level msg > g_log_level l then Some l
          else
            (case data_body msg of
               None \<Rightarrow> Some l
             | Some s \<Rightarrow> do { f \<leftarrow> g_logFile l; Some (l\<lparr>disk := (disk l)(f := disk l f @ s)\<rparr>) }) })"

text \<open>\<open>log_init\<close> up to the start of the thread. The character it compares with a slash is the one behind
  the path, its NUL.\<close>

definition log_init ::
  "(string \<Rightarrow> bool) \<Rightarrow> tm \<Rightarrow> string option \<Rightarrow> int \<Rightarrow> int \<Rightarrow> logger \<Rightarrow> (logger \<times> int) option"
where
  "log_init can_open t log_root_path log_level log_save_days l =
     (case log_root_path of
        None \<Rightarrow> Some (l, ERR_LOG_PATH_INVALID)
      | Some root \<Rightarrow> do {
          let p = (if (root @ [CHR 0x00]) ! length root \<noteq> CHR ''/'' then root @ ''/'' else root);
          guard (length p < 512);
          let (name, l) = update_logname t (l\<lparr>g_logPath := p\<rparr>);
          let l = (case name of None \<Rightarrow> l | Some name \<Rightarrow> l\<lparr>g_log_name := name\<rparr>);
          guard (length (g_log_name l) < 64);
          guard (length p + length (g_log_name l) < 512);
          let path = p @ g_log_name l;
          let l = l\<lparr>g_logFile := (if can_open path then Some path else None)\<rparr>;
          if \<not> can_open path then Some (l, ERR_CONFIG_FILE_OPEN_FAIL)
          else if log_level < L_ERROR \<or> log_level > L_DEBUG then Some (l, ERR_LOG_LEVEL_INVALID)
          else
            let l = l\<lparr>g_log_level := log_level\<rparr> in
            if log_save_days < 0 \<or> log_save_days > 365 then Some (l, ERR_LOG_SAVE_DAYS_INVALID)
            else
              let l = (if log_save_days \<noteq> 0 then l\<lparr>g_log_save_days := log_save_days\<rparr> else l)
              in Some (l\<lparr>log_list := [], g_log_enable := True\<rparr>, 0) })"

definition log_uninit :: "logger \<Rightarrow> (logger \<times> int) option" where
  "log_uninit l =
     (if g_log_enable l
      then do { guard (g_logFile l \<noteq> None); Some (l\<lparr>g_logFile := None, g_log_enable := False\<rparr>, 0) }
      else Some (l, 0))"

text \<open>The start of a line; \<open>pos\<close> is the file, function and line of \<open>log_print\<close> itself. For a level that is
  none, the buffer stays as \<open>malloc\<close> gave it.\<close>

definition log_head :: "string \<Rightarrow> int \<Rightarrow> tm \<Rightarrow> string option" where
  "log_head pos level t =
     (if level < L_ERROR \<or> level > L_DEBUG then None
      else
        let time = ''['' @ day_text t @ '' '' @ padded_nat 2 (tm_hour t) @ '':'' @ padded_nat 2 (tm_min t) @ '':'' @ padded_nat 2 (tm_sec t) @ '']'';
            lev = ''['' @ ga_str_log_level ! nat level @ '']''
        in Some (lev @ time @ (if level \<le> L_WARNING then pos else [])))"

text \<open>\<open>log_print\<close> up to the unlock: \<open>line\<close> is what \<open>vsprintf\<close> writes. Both buffers have 500 characters.\<close>

definition log_print :: "string \<Rightarrow> int \<Rightarrow> string \<Rightarrow> tm \<Rightarrow> logger \<Rightarrow> (logger \<times> int) option" where
  "log_print pos level line t l =
     (if \<not> g_log_enable l then Some (l, ERR_LOG_NOT_INIT)
      else do {
        buffer \<leftarrow> log_head pos level t;
        guard (length buffer < 500);
        guard (length line < 500);
        let buffer = buffer @ line @ [CHR 0x0A];
        guard (length buffer < 500);
        Some (l\<lparr>log_list := \<lparr>lm_level = level, data_body = Some buffer\<rparr> # log_list l\<rparr>, 0) })"

section \<open>The log thread and its callers\<close>

datatype log_thread = Locking | Draining

datatype log_event = Printed log_msg | Handled log_msg | Silent

record log_state =
  lg :: logger
  log_lock :: bool
  log_pid :: log_thread
  unlocking :: nat

text \<open>A caller puts its line and then unlocks; the thread of \<open>log_thread_handle\<close> locks, takes lines until
  there is none, and locks again.\<close>

inductive log_step :: "(string \<Rightarrow> bool) \<Rightarrow> log_state \<Rightarrow> log_event \<Rightarrow> log_state \<Rightarrow> bool" for can_open where
  put: "log_print pos level line t (lg s) = Some (l, 0) \<Longrightarrow> log_list l = m # ms \<Longrightarrow>
    log_step can_open s (Printed m) (s\<lparr>lg := l, unlocking := Suc (unlocking s)\<rparr>)"
| unlock: "unlocking s = Suc n \<Longrightarrow> log_step can_open s Silent (s\<lparr>unlocking := n, log_lock := False\<rparr>)"
| lock: "log_pid s = Locking \<Longrightarrow> \<not> log_lock s \<Longrightarrow> log_step can_open s Silent (s\<lparr>log_pid := Draining, log_lock := True\<rparr>)"
| take: "log_pid s = Draining \<Longrightarrow> log_list (lg s) = ms @ [m] \<Longrightarrow>
    log_handle can_open t (Some m) ((lg s)\<lparr>log_list := ms\<rparr>) = Some l \<Longrightarrow>
    log_step can_open s (Handled m) (s\<lparr>lg := l\<rparr>)"
| empty: "log_pid s = Draining \<Longrightarrow> log_list (lg s) = [] \<Longrightarrow> log_step can_open s Silent (s\<lparr>log_pid := Locking\<rparr>)"

inductive log_run :: "(string \<Rightarrow> bool) \<Rightarrow> log_event list \<Rightarrow> log_state \<Rightarrow> bool" for can_open where
  started: "log_init can_open t root level days l0 = Some (l, 0) \<Longrightarrow>
    log_run can_open [] \<lparr>lg = l, log_lock = True, log_pid = Locking, unlocking = 0\<rparr>"
| step: "log_run can_open tr s \<Longrightarrow> log_step can_open s e s' \<Longrightarrow> log_run can_open (tr @ [e]) s'"

inductive_cases log_stepE: "log_step can_open s e s'"

fun printed :: "log_event list \<Rightarrow> log_msg list" where
  "printed [] = []"
| "printed (Printed m # tr) = m # printed tr"
| "printed (_ # tr) = printed tr"

fun handled :: "log_event list \<Rightarrow> log_msg list" where
  "handled [] = []"
| "handled (Handled m # tr) = m # handled tr"
| "handled (_ # tr) = handled tr"

section \<open>Lemmas\<close>

lemma log_events_append [simp]: "printed (tr @ tr') = printed tr @ printed tr'" "handled (tr @ tr') = handled tr @ handled tr'"
  by (induction tr rule: printed.induct; simp)+

lemma log_handle_list: "log_handle can_open t m l = Some l' \<Longrightarrow> log_list l' = log_list l"
  by (auto simp: log_handle_def log_rotate_def update_logname_def Let_def bind_eq_Some_conv split: option.splits if_splits)

lemma log_init_list: "log_init can_open t root level days l0 = Some (l, 0) \<Longrightarrow> log_list l = [] \<and> g_logFile l \<noteq> None \<and> g_log_enable l"
  by (auto simp: log_init_def Let_def bind_eq_Some_conv ERR_LOG_PATH_INVALID_def ERR_CONFIG_FILE_OPEN_FAIL_def
      ERR_LOG_LEVEL_INVALID_def ERR_LOG_SAVE_DAYS_INVALID_def split: option.splits if_splits prod.splits)

lemma log_print_list: "log_print pos level line t l = Some (l', 0) \<Longrightarrow> \<exists>m. log_list l' = m # log_list l \<and> l' = l\<lparr>log_list := log_list l'\<rparr>"
  by (auto simp: log_print_def Let_def bind_eq_Some_conv ERR_LOG_NOT_INIT_def split: if_splits)

lemma run_order:
  "log_run can_open tr s \<Longrightarrow> printed tr = handled tr @ rev (log_list (lg s))
     \<and> (log_list (lg s) \<noteq> [] \<longrightarrow> log_pid s = Draining \<or> \<not> log_lock s \<or> 0 < unlocking s)"
proof (induction rule: log_run.induct)
  case (started t root level days l0 l)
  then show ?case using log_init_list by auto
next
  case (step tr s e s')
  show ?case using step.hyps(2)
  proof (cases rule: log_step.cases)
    case (put pos level line t l m ms)
    then show ?thesis using step.IH log_print_list [OF put(3)] by auto
  next
    case (take ms m t l)
    then show ?thesis using step.IH log_handle_list [OF take(5)] by auto
  qed (use step.IH in auto)
qed

text \<open>A line handled on the day the file was opened.\<close>

definition lines_of :: "int \<Rightarrow> log_msg list \<Rightarrow> string" where
  "lines_of level ms = concat (map (\<lambda>m. case data_body m of None \<Rightarrow> [] | Some s \<Rightarrow> s) (filter (\<lambda>m. lm_level m \<le> level) ms))"


lemma log_handle_same_day:
  assumes "tm_mday t = g_oldDay l" "g_logFile l = Some f"
  shows "log_handle can_open t (Some m) l = Some (l\<lparr>disk := (disk l)(f := disk l f @ lines_of (g_log_level l) [m])\<rparr>)"
  using assms by (auto simp: log_handle_def update_logname_def lines_of_def Let_def split: option.splits)


section \<open>Properties\<close>

text \<open>
  C21: The log keeps every line, in order, and its thread never sleeps on one. Under every interleaving of
  callers and log thread, the lines printed are those the thread has handled followed by those that
  wait; and while one waits, the thread is taking lines, or the lock on which it waits is free, or a
  caller is about to free it.
\<close>

theorem log_in_order:
  assumes "log_run can_open tr s"
  shows "printed tr = handled tr @ rev (log_list (lg s))
    \<and> (log_list (lg s) \<noteq> [] \<longrightarrow> log_pid s = Draining \<or> \<not> log_lock s \<or> 0 < unlocking s)"
  by (rule run_order [OF assms])

text \<open>A run for the witnesses: the log is started on a day and one line is printed.\<close>

definition demo_tm :: tm where
  "demo_tm = \<lparr>tm_year = 124, tm_mon = 0, tm_mday = 5, tm_hour = 12, tm_min = 30, tm_sec = 0\<rparr>"

lemma padded_nat_length: "0 < k \<Longrightarrow> n < 10 ^ k \<Longrightarrow> length (padded_nat k n) = k"
  using show_nat_length [of n "k - 1"] by (cases k) (simp_all add: padded_nat_def)

lemma demo_tm_text: "length (day_text demo_tm) = 10" "\<exists>b. log_head [] 2 demo_tm = Some b \<and> length b = 28"
proof -
  have p: "length (padded_nat 2 n) = 2" if "n < 100" for n
    by (rule padded_nat_length) (use that in simp_all)
  have y: "length (padded_nat 4 2024) = 4" by (rule padded_nat_length) simp_all
  show d: "length (day_text demo_tm) = 10" using y by (simp add: day_text_def demo_tm_def p)
  have "ga_str_log_level ! nat 2 = ''INFO ''" by (simp add: ga_str_log_level_def)
  moreover have "length (padded_nat 2 (tm_hour demo_tm)) = 2" "length (padded_nat 2 (tm_min demo_tm)) = 2" "length (padded_nat 2 (tm_sec demo_tm)) = 2"
    by (simp_all add: demo_tm_def p)
  ultimately show "\<exists>b. log_head [] 2 demo_tm = Some b \<and> length b = 28"
    using d by (simp add: log_head_def log_levels)
qed

lemma demo_log:
  "\<exists>s m f. log_run (\<lambda>f. True) [Printed m] s \<and> log_list (lg s) = [m] \<and> g_logFile (lg s) = Some f
    \<and> g_log_level (lg s) = 3 \<and> g_logPath (lg s) = ''/log/'' \<and> g_oldDay (lg s) = 5 \<and> length (g_log_name (lg s)) = 17"
proof -
  obtain b where b: "log_head [] 2 demo_tm = Some b" "length b = 28" using demo_tm_text(2) by blast
  define l where "l = logger0\<lparr>g_logPath := ''/log/'', g_oldDay := 5, g_log_name := ''LOG'' @ day_text demo_tm @ ''.log'',
    g_logFile := Some (''/log/'' @ ''LOG'' @ day_text demo_tm @ ''.log''), g_log_level := 3, g_log_save_days := 30, log_list := [], g_log_enable := True\<rparr>"
  have "tm_mday demo_tm = 5" by (simp add: demo_tm_def)
  then have "log_init (\<lambda>f. True) demo_tm (Some ''/log'') 3 30 logger0 = Some (l, 0)"
    using demo_tm_text(1) by (simp add: log_init_def update_logname_def logger0_def log_levels l_def)
  note r = log_run.started [OF this]
  define m where "m = \<lparr>lm_level = 2, data_body = Some (b @ ''hi'' @ [CHR 0x0A])\<rparr>"
  have "log_print [] 2 ''hi'' demo_tm l = Some (l\<lparr>log_list := [m]\<rparr>, 0)"
    using b by (simp add: log_print_def l_def m_def)
  then have p: "log_print [] 2 ''hi'' demo_tm (lg \<lparr>lg = l, log_lock = True, log_pid = Locking, unlocking = 0\<rparr>) = Some (l\<lparr>log_list := [m]\<rparr>, 0)"
    by simp
  define s where "s = \<lparr>lg = l\<lparr>log_list := [m]\<rparr>, log_lock = True, log_pid = Locking, unlocking = 1\<rparr>"
  have "log_run (\<lambda>f. True) [Printed m] s"
    using log_run.step [OF r log_step.put [OF p, of m "[]"]] by (simp add: s_def)
  moreover have "log_list (lg s) = [m]" "g_logFile (lg s) = Some (''/log/'' @ ''LOG'' @ day_text demo_tm @ ''.log'')" "g_log_level (lg s) = 3"
    "g_logPath (lg s) = ''/log/''" "g_oldDay (lg s) = 5" "length (g_log_name (lg s)) = 17"
    using demo_tm_text(1) by (simp_all add: s_def l_def)
  ultimately show ?thesis by blast
qed

lemma log_in_order_witness:
  "\<exists>tr s. log_run (\<lambda>f. True) tr s \<and> length (printed tr) = 1 \<and> printed tr = handled tr @ rev (log_list (lg s)) \<and> (\<not> log_lock s \<or> log_pid s = Draining \<or> 0 < unlocking s)"
proof -
  obtain s m where s: "log_run (\<lambda>f. True) [Printed m] s" "log_list (lg s) = [m]" using demo_log by blast
  from log_in_order [OF s(1)] s show ?thesis by (intro exI [of _ "[Printed m]"] exI [of _ s]) auto
qed



text \<open>
  The file of the day is chosen by the day of the month. A line of the same day of another month goes
  into the file of the old month; and when the file of a new day cannot be opened, the line is lost and
  the next line of that day is written through a null pointer.
\<close>

theorem log_rotation:
  assumes "g_logFile l = Some f"
  shows "(tm_mday t = g_oldDay l \<longrightarrow>
      log_handle can_open t (Some m) l = Some (l\<lparr>disk := (disk l)(f := disk l f @ lines_of (g_log_level l) [m])\<rparr>))
    \<and> (tm_mday t \<noteq> g_oldDay l \<and> \<not> can_open (g_logPath l @ ''LOG'' @ day_text t @ ''.log'') \<and> length (g_logPath l) < 400
        \<and> length (g_log_name l) < 64 \<and> length (day_text t) < 40 \<longrightarrow>
      (\<exists>l'. log_handle can_open t (Some m) l = Some l' \<and> disk l' = disk l
         \<and> (lm_level m' \<le> g_log_level l \<and> data_body m' \<noteq> None \<longrightarrow> log_handle can_open t (Some m') l' = None)))"
proof (intro conjI impI)
  show "tm_mday t = g_oldDay l \<Longrightarrow>
      log_handle can_open t (Some m) l = Some (l\<lparr>disk := (disk l)(f := disk l f @ lines_of (g_log_level l) [m])\<rparr>)"
    by (rule log_handle_same_day [OF _ assms])
next
  assume a: "tm_mday t \<noteq> g_oldDay l \<and> \<not> can_open (g_logPath l @ ''LOG'' @ day_text t @ ''.log'') \<and> length (g_logPath l) < 400
        \<and> length (g_log_name l) < 64 \<and> length (day_text t) < 40"
  let ?l = "l\<lparr>g_oldDay := tm_mday t, g_log_name := ''LOG'' @ day_text t @ ''.log'', g_logFile := None\<rparr>"
  have "log_handle can_open t (Some m) l = Some ?l"
    using a assms by (simp add: log_handle_def update_logname_def log_rotate_def Let_def)
  moreover have "log_handle can_open t (Some m') ?l = None" if "lm_level m' \<le> g_log_level l \<and> data_body m' \<noteq> None"
    using that by (auto simp: log_handle_def update_logname_def Let_def)
  ultimately show "\<exists>l'. log_handle can_open t (Some m) l = Some l' \<and> disk l' = disk l
         \<and> (lm_level m' \<le> g_log_level l \<and> data_body m' \<noteq> None \<longrightarrow> log_handle can_open t (Some m') l' = None)"
    by (intro exI [of _ ?l]) simp
qed

lemma log_rotation_witness:
  "\<exists>l l' m. log_handle (\<lambda>f. False) demo_tm (Some m) (l\<lparr>g_oldDay := 4\<rparr>) = Some l' \<and> log_handle (\<lambda>f. False) demo_tm (Some m) l' = None
     \<and> log_handle (\<lambda>f. False) (demo_tm\<lparr>tm_mon := 7\<rparr>) (Some m) l \<noteq> None"
proof -
  obtain s :: log_state and f where s: "g_logFile (lg s) = Some f" "g_log_level (lg s) = 3" "g_logPath (lg s) = ''/log/''" "g_oldDay (lg s) = 5"
    "length (g_log_name (lg s)) = 17" using demo_log by blast
  let ?m = "\<lparr>lm_level = 2, data_body = Some ''x''\<rparr>"
  have "g_logFile ((lg s)\<lparr>g_oldDay := 4\<rparr>) = Some f" "tm_mday demo_tm = 5" using s(1) by (simp_all add: demo_tm_def)
  from log_rotation [OF this(1), of demo_tm "\<lambda>f. False" ?m ?m] this(2) s demo_tm_text(1)
  obtain l' where l': "log_handle (\<lambda>f. False) demo_tm (Some ?m) ((lg s)\<lparr>g_oldDay := 4\<rparr>) = Some l'"
    "log_handle (\<lambda>f. False) demo_tm (Some ?m) l' = None" by auto
  have "log_handle (\<lambda>f. False) (demo_tm\<lparr>tm_mon := 7\<rparr>) (Some ?m) (lg s) \<noteq> None"
    using log_rotation [OF s(1), of "demo_tm\<lparr>tm_mon := 7\<rparr>" "\<lambda>f. False" ?m ?m] s(4) by (simp add: demo_tm_def)
  then show ?thesis using l' by (intro exI [of _ "lg s"] exI [of _ l'] exI [of _ ?m]) simp
qed

end
