(* ===== verification/Start.thy ===== *)
theory Start
  imports SockFlow MemConfig ThreadPool Log Lcg DictIter
begin

text \<open>
  The program of \<open>src/main.c\<close>: the order in which the components are started from the configuration, and
  the shutdown behind the label \<open>exit\<close>. What the outside gives (the configuration file, the regions of
  \<open>malloc\<close>, the threads that could be started, what they do while the shutdown waits for them, the
  descriptor of \<open>listen\<close>, the clock) is a record of arguments. The order in which C evaluates several \<open>getConfig\<close> calls of one statement is open and only
  moves entries of the table. The log thread is left out: the lines printed here wait in the list.
  \<open>aeMain\<close> is where the model stops; nothing sets its \<open>stop\<close>.
\<close>

section \<open>State\<close>

record ('d, 'w, 'v, 'p) outside =
  o_env :: "('d, 'w) env"
  o_client :: "'v client"
  o_file :: "string option"
  o_seed :: "u8 list"
  o_addrs :: "int option list"
  o_alloc :: bool
  o_started :: int
  o_can_open :: "string \<Rightarrow> bool"
  o_tm :: tm
  o_pos :: string
  o_banner :: string
  o_listen :: "int \<Rightarrow> int \<Rightarrow> int"
  o_accept :: 'p
  o_now :: int
  o_tables :: "u64 \<times> u64"
  o_join :: "nat \<Rightarrow> nat tpool \<Rightarrow> nat tpool option"

record ('w, 'v) program =
  p_conf :: "config option"
  p_rng :: rng
  p_mem :: "mpool option"
  p_threads :: "nat tpool option"
  p_log :: logger
  p_mysql :: pool
  p_out :: 'v
  p_world :: 'w
  p_service :: "(route_table \<times> 'w sys) option"

text \<open>The globals before \<open>main\<close>.\<close>

definition pool0 :: pool where
  "pool0 = \<lparr>sqlC = \<lparr>sc_ip = [], sc_port = 0, sc_account = [], sc_password = [], sc_databaseName = [],
     connectionTimeout = 0, connectCount = 0\<rparr>, slq_list = [], g_mysql_conn_enable = False\<rparr>"

definition program0 :: "'v \<Rightarrow> 'w \<Rightarrow> ('w, 'v) program" where
  "program0 out w = \<lparr>p_conf = None, p_rng = rng0, p_mem = None, p_threads = None, p_log = logger0, p_mysql = pool0,
     p_out = out, p_world = w, p_service = None\<rparr>"

section \<open>The steps of the start\<close>

text \<open>A value of the configuration; a missing one is \<open>NULL\<close>, which most of its readers follow.\<close>

definition conf_value :: "string \<Rightarrow> ('w, 'v) program \<Rightarrow> (string option \<times> ('w, 'v) program) option" where
  "conf_value key p = do { d \<leftarrow> p_conf p; (d, v) \<leftarrow> getConfig d key; Some (v, p\<lparr>p_conf := Some d\<rparr>) }"

definition conf_text :: "string \<Rightarrow> ('w, 'v) program \<Rightarrow> (string \<times> ('w, 'v) program) option" where
  "conf_text key p = do { (v, p) \<leftarrow> conf_value key p; s \<leftarrow> v; Some (s, p) }"

definition conf_int :: "string \<Rightarrow> ('w, 'v) program \<Rightarrow> (int \<times> ('w, 'v) program) option" where
  "conf_int key p = do { (s, p) \<leftarrow> conf_text key p; n \<leftarrow> atoi s; Some (n, p) }"

definition say :: "('d, 'w, 'v, 'p) outside \<Rightarrow> string \<Rightarrow> ('w, 'v) program \<Rightarrow> ('w, 'v) program option" where
  "say oe line p = do { (l, _) \<leftarrow> log_print (o_pos oe) L_INFO line (o_tm oe) (p_log p); Some (p\<lparr>p_log := l\<rparr>) }"

text \<open>\<open>print_config\<close>: an iterator over the table, never released; printing does not touch the table. A null
  value is undefined for \<open>%s\<close>.\<close>

definition text_of :: "u8 list \<Rightarrow> string" where
  "text_of k = map (\<lambda>b. char_of (unat b)) k"

definition entry_line :: "(u8 list, string option) dictEntry \<Rightarrow> string option" where
  "entry_line entry =
     do { v \<leftarrow> e_val entry; Some (''['' @ text_of (e_key entry) @ '']:['' @ v @ '']'' @ [CHR 0x0A]) }"

fun say_entries ::
  "('d, 'w, 'v, 'p) outside \<Rightarrow> (u8 list, string option) dictEntry list \<Rightarrow> ('w, 'v) program \<Rightarrow> ('w, 'v) program option"
where
  "say_entries oe [] p = Some p"
| "say_entries oe (e # es) p = do { line \<leftarrow> entry_line e; p \<leftarrow> say oe line p; say_entries oe es p }"

definition table_start :: string where
  "table_start = ''--------------------start print config table-------------------------'' @ [CHR 0x0A]"

definition table_end :: string where
  "table_end = ''---------------------end print config table--------------------------'' @ [CHR 0x0A]"

definition print_config :: "('d, 'w, 'v, 'p) outside \<Rightarrow> ('w, 'v) program \<Rightarrow> ('w, 'v) program option" where
  "print_config oe p =
     do { p \<leftarrow> say oe table_start p;
          d \<leftarrow> p_conf p;
          (d, iter, es) \<leftarrow> dict_iterate (o_tables oe) (\<lambda>e d. Some d) d dictGetIterator;
          p \<leftarrow> say_entries oe es (p\<lparr>p_conf := Some d\<rparr>);
          say oe table_end p }"

text \<open>Each step says whether it succeeded.\<close>

definition main_config :: "('d, 'w, 'v, 'p) outside \<Rightarrow> ('w, 'v) program \<Rightarrow> (bool \<times> ('w, 'v) program) option" where
  "main_config oe p =
     do { (d, ret) \<leftarrow> configerInit (e_cr (o_env oe)) None (o_seed oe) (o_file oe);
          Some (ret = RETURN_OK, p\<lparr>p_conf := Some d\<rparr>) }"

definition main_memory :: "('d, 'w, 'v, 'p) outside \<Rightarrow> ('w, 'v) program \<Rightarrow> (bool \<times> ('w, 'v) program) option" where
  "main_memory oe p =
     do { (lev, p) \<leftarrow> conf_text ''memoryPoolLevel'' p;
          (cap, p) \<leftarrow> conf_text ''memoryPoolCap'' p;
          (size, p) \<leftarrow> conf_text ''memoryPoolSize'' p;
          (m, ret) \<leftarrow> memoryPoolInit lev cap size (o_addrs oe) {};
          Some (ret = RETURN_OK, p\<lparr>p_mem := Some m\<rparr>) }"

definition main_threads :: "('d, 'w, 'v, 'p) outside \<Rightarrow> ('w, 'v) program \<Rightarrow> (bool \<times> ('w, 'v) program) option" where
  "main_threads oe p =
     do { (n, p) \<leftarrow> conf_int ''ThreadpoolCount'' p;
          let (ret, th) = threadpool_create n (o_alloc oe) (o_started oe);
          Some (ret = 0, p\<lparr>p_threads := th\<rparr>) }"

definition main_log :: "('d, 'w, 'v, 'p) outside \<Rightarrow> ('w, 'v) program \<Rightarrow> (bool \<times> ('w, 'v) program) option" where
  "main_log oe p =
     do { (path, p) \<leftarrow> conf_value ''LogPath'' p;
          (level, p) \<leftarrow> conf_int ''LogLevel'' p;
          (days, p) \<leftarrow> conf_int ''LogSaveDays'' p;
          (l, ret) \<leftarrow> log_init (o_can_open oe) (o_tm oe) path level days (p_log p);
          if ret \<noteq> RETURN_OK then Some (False, p\<lparr>p_log := l\<rparr>)
          else do { p \<leftarrow> say oe (o_banner oe) (p\<lparr>p_log := l\<rparr>); p \<leftarrow> print_config oe p; Some (True, p) } }"

definition main_mysql :: "('d, 'w, 'v, 'p) outside \<Rightarrow> ('w, 'v) program \<Rightarrow> (bool \<times> ('w, 'v) program) option" where
  "main_mysql oe p =
     do { (en, p) \<leftarrow> conf_text ''MysqlEnable'' p;
          if en \<noteq> ''1'' then Some (True, p)
          else do {
            (ip, p) \<leftarrow> conf_text ''MysqlIP'' p;
            (port, p) \<leftarrow> conf_text ''MysqlPort'' p;
            (account, p) \<leftarrow> conf_text ''MysqlAccount'' p;
            (password, p) \<leftarrow> conf_text ''MysqlPassword'' p;
            (db, p) \<leftarrow> conf_text ''DatabaseName'' p;
            (timeout, p) \<leftarrow> conf_text ''MysqlConnectionTimeout'' p;
            (cnt, p) \<leftarrow> conf_text ''MysqlConnectionPoolMaxCount'' p;
            (pl, ret, out) \<leftarrow> mysqlConnectionPoolInit (o_client oe) ip port account password db timeout cnt (p_mysql p) (p_out p);
            let p = p\<lparr>p_mysql := pl, p_out := out\<rparr>;
            if ret \<noteq> RETURN_OK then Some (False, p)
            else do {
              (cnt, p) \<leftarrow> conf_text ''MysqlConnectionPoolMaxCount'' p;
              p \<leftarrow> say oe (''['' @ cnt @ ''] mysql connection create success, mysql connection pool init success!!'' @ [CHR 0x0A]) p;
              Some (True, p) } } }"

definition main_service :: "('d, 'w, 'v, 'p) outside \<Rightarrow> ('w, 'v) program \<Rightarrow> (bool \<times> ('w, 'v) program) option" where
  "main_service oe p =
     do { d \<leftarrow> p_conf p;
          (t, d, s, pl, out) \<leftarrow> regist_service (o_env oe) (o_client oe) Route.say_hello (o_seed oe) d (p_mysql p) (p_out p) (p_world p) 0;
          Some (True, p\<lparr>p_conf := Some d, p_mysql := pl, p_out := out, p_service := Some (t, s)\<rparr>) }"

fun all_steps ::
  "(('w, 'v) program \<Rightarrow> (bool \<times> ('w, 'v) program) option) list \<Rightarrow> ('w, 'v) program \<Rightarrow> (bool \<times> ('w, 'v) program) option"
where
  "all_steps [] p = Some (True, p)"
| "all_steps (f # fs) p = do { (ok, p) \<leftarrow> f p; if ok then all_steps fs p else Some (False, p) }"

definition main_start :: "('d, 'w, 'v, 'p) outside \<Rightarrow> u32 \<Rightarrow> ('w, 'v) program \<Rightarrow> (bool \<times> ('w, 'v) program) option" where
  "main_start oe t p =
     all_steps [main_config oe, main_memory oe, main_threads oe, main_log oe, main_mysql oe, main_service oe]
       (p\<lparr>p_rng := srand_init t\<rparr>)"

section \<open>The program\<close>

datatype ('w, 'v, 'p, 't, 'f, 'c) main_end = Serving "('w, 'v) program" "('p, 't, 'f, 'c) aeEventLoop" | Ended "('w, 'v) program"

text \<open>The shutdown; \<open>configerUnInit\<close> releases keys and values that \<open>Trim\<close> allocated. \<open>getConfig\<close> of a table that was never made and the release of a route table that was
  never made follow \<open>NULL\<close>; a released key that \<open>malloc\<close> did not give is undefined, and every key of the
  route table is a literal.\<close>

definition main_exit :: "('d, 'w, 'v, 'p) outside \<Rightarrow> ('w, 'v) program \<Rightarrow> ('w, 'v) program option" where
  "main_exit oe p =
     do { let (pl, out) = mysqlConnectionPoolUnInit (o_client oe) (p_mysql p) (p_out p);
          p \<leftarrow> say oe (''mysql connection pool uninit success'' @ [CHR 0x0A]) (p\<lparr>p_mysql := pl, p_out := out\<rparr>);
          (k, p) \<leftarrow> conf_int ''ThreadpoolQuitType'' p;
          (th, _) \<leftarrow> threadpool_destroy k (o_join oe) (p_threads p);
          p \<leftarrow> say oe (''log module uninit success'' @ [CHR 0x0A]) (p\<lparr>p_threads := th, p_conf := None\<rparr>);
          p \<leftarrow> say oe (''log module uninit start!'' @ [CHR 0x0A]) p;
          (l, _) \<leftarrow> log_uninit (p_log p);
          (t, s) \<leftarrow> p_service p;
          ks \<leftarrow> uninit_function_route t;
          guard (ks = []);
          (m, _) \<leftarrow> memoryPoolUnInit (p_mem p);
          Some (p\<lparr>p_log := l, p_service := Some (init_function_route (o_seed oe), s), p_mem := m\<rparr>) }"

text \<open>\<open>main\<close>, with the number of its arguments. The port is a \<open>short\<close>.\<close>

definition main ::
  "('d, 'w, 'v, 'p) outside \<Rightarrow> int \<Rightarrow> u32 \<Rightarrow> ('w, 'v) program \<Rightarrow> ('w, 'v, 'p, 't, 'f, 'c) main_end option"
where
  "main oe argc t p =
     do { (ok, p) \<leftarrow> (if argc \<noteq> 2 then Some (False, p) else main_start oe t p);
          if ok
          then do {
            (port, p) \<leftarrow> conf_int ''ServerPort'' p;
            (backlog, p) \<leftarrow> conf_int ''BackLog'' p;
            (l, _) \<leftarrow> socket_server_start (o_now oe) (o_listen oe (sint (word_of_int port :: 16 word)) backlog) (o_accept oe);
            Some (Serving p l) }
          else do { p \<leftarrow> main_exit oe p; Some (Ended p) } }"

end
