(* ===== verification/StartFlow.thy ===== *)
theory StartFlow
  imports Start
begin

text \<open>
  What the start and the shutdown of \<open>src/main.c\<close> do: with a well formed configuration and all resources
  the program comes to serve, with every component in its initial state; a start that fails, and a loop
  that would end, lead to undefined behaviour.
\<close>

section \<open>The shutdown\<close>

lemma conf_service:
  "conf_value key p = Some (v, p') \<Longrightarrow> p_service p' = p_service p"
  "conf_text key p = Some (s, p') \<Longrightarrow> p_service p' = p_service p"
  "conf_int key p = Some (n, p') \<Longrightarrow> p_service p' = p_service p"
  by (auto simp: conf_value_def conf_text_def conf_int_def bind_eq_Some_conv split: prod.splits)

lemma say_service: "say oe line p = Some p' \<Longrightarrow> p_service p' = p_service p"
  by (auto simp: say_def bind_eq_Some_conv split: prod.splits)

lemma say_entries_service: "say_entries oe es p = Some p' \<Longrightarrow> p_service p' = p_service p"
  by (induction es arbitrary: p) (auto simp: bind_eq_Some_conv dest: say_service)

lemma print_config_service: "print_config oe p = Some p' \<Longrightarrow> p_service p' = p_service p"
  by (auto simp: print_config_def bind_eq_Some_conv split: prod.splits dest!: say_service say_entries_service)

text \<open>No step before the last one registers the service.\<close>

lemma steps_service:
  "main_config oe p = Some (ok, p') \<Longrightarrow> p_service p' = p_service p"
  "main_memory oe p = Some (ok, p') \<Longrightarrow> p_service p' = p_service p"
  "main_threads oe p = Some (ok, p') \<Longrightarrow> p_service p' = p_service p"
  "main_log oe p = Some (ok, p') \<Longrightarrow> p_service p' = p_service p"
  by (auto simp: main_config_def main_memory_def main_threads_def main_log_def bind_eq_Some_conv case_prod_beta Let_def
      split: if_splits dest!: conf_service say_service print_config_service)

lemma main_mysql_service: "main_mysql oe p = Some (ok, p') \<Longrightarrow> p_service p' = p_service p"
  by (auto simp: main_mysql_def bind_eq_Some_conv Let_def split: prod.splits if_splits dest!: conf_service say_service)

lemma main_service_succeeds: "main_service oe p = Some (ok, p') \<Longrightarrow> ok"
  by (auto simp: main_service_def bind_eq_Some_conv split: prod.splits)

lemma steps_fail:
  assumes "\<forall>q ok q'. g q = Some (ok, q') \<longrightarrow> ok"
  shows "list_all (\<lambda>f. \<forall>q ok q'. f q = Some (ok, q') \<longrightarrow> p_service q' = p_service q) fs \<Longrightarrow>
    all_steps (fs @ [g]) q = Some (False, p') \<Longrightarrow> p_service p' = p_service q"
proof (induction fs arbitrary: q)
  case Nil
  then show ?case using assms by (auto simp: bind_eq_Some_conv split: prod.splits if_splits)
next
  case (Cons f fs)
  obtain ok q' where f: "f q = Some (ok, q')" "if ok then all_steps (fs @ [g]) q' = Some (False, p') else q' = p'"
    using Cons.prems(2) by (auto simp: bind_eq_Some_conv split: prod.splits if_splits)
  then have "p_service q' = p_service q" using Cons.prems(1) by simp
  then show ?case using Cons.IH [of q'] Cons.prems(1) f(2) by (cases ok) simp_all
qed

lemma failed_start_service:
  assumes "main_start oe t p = Some (False, p')"
  shows "p_service p' = p_service p"
proof -
  let ?fs = "[main_config oe, main_memory oe, main_threads oe, main_log oe, main_mysql oe]"
  have a: "all_steps (?fs @ [main_service oe]) (p\<lparr>p_rng := srand_init t\<rparr>) = Some (False, p')"
    using assms by (simp add: main_start_def del: all_steps.simps(2))
  have "list_all (\<lambda>f. \<forall>q ok q'. f q = Some (ok, q') \<longrightarrow> p_service q' = p_service q) ?fs"
    by (auto dest: steps_service main_mysql_service)
  from steps_fail [OF _ this a] main_service_succeeds [of oe] show ?thesis by (metis program.select_convs(9) program.surjective program.update_convs(2))
qed

text \<open>The route table of a running service: made by the registration and moved by lookups.\<close>

inductive live_routes :: "route_table \<Rightarrow> bool" where
  registered: "regist_routes cr junk seed = Some t \<Longrightarrow> live_routes t"
| looked_up: "live_routes t \<Longrightarrow> get_function_route t key = Some (t', r) \<Longrightarrow> live_routes t'"

lemma live_routes_entries:
  "live_routes t \<Longrightarrow> \<exists>d. t = Some d \<and> dict_inv d \<and> keyDestructor (d_type d) \<and> entries d \<noteq> []"
proof (induction rule: live_routes.induct)
  case (registered cr junk seed t)
  obtain d where d: "regist_routes cr junk seed = Some (Some d)" "dict_inv d" "d_type d = BenchmarkDictTypeNoFreeValue seed"
    "dict_map d = map_of (rev (map (apfst bytes) service_routes))" using regist_routes_ok by blast
  have "dict_ok d" using d(2) by (simp add: dict_inv_def)
  from keys_dom [OF this] have "entries d \<noteq> []" by (auto simp: d(4) service_routes_def)
  then show ?case using d(1-3) registered by (auto simp: BenchmarkDictTypeNoFreeValue_def BenchmarkDictType_def)
next
  case (looked_up t key t' r)
  obtain d where d: "t = Some d" "dict_inv d" "keyDestructor (d_type d)" "entries d \<noteq> []" using looked_up.IH by blast
  obtain d' where d': "dictFetchValue d key = Some (d', dict_map d key)" "dict_inv d'" "same_entries d d'"
    using dictFetchValue_ok [OF d(2)] by blast
  have "t' = Some d'" using looked_up.hyps(2) d(1) d'(1) by (simp add: get_function_route_def)
  moreover have "entries d' \<noteq> []" using set_entries_same [OF d'(3)] d(4) by auto
  ultimately show ?case using d'(2,3) d(3) by (auto simp: same_entries_def)
qed

lemma live_routes_free: "live_routes t \<Longrightarrow> uninit_function_route t \<noteq> Some []"
proof
  assume "live_routes t" "uninit_function_route t = Some []"
  then obtain d where d: "t = Some d" "dict_ok d" "keyDestructor (d_type d)" "entries d \<noteq> []"
    using live_routes_entries by (auto simp: dict_inv_def)
  then show False using \<open>uninit_function_route t = Some []\<close> dictRelease_eq [OF d(2)]
    by (simp add: uninit_function_route_def keys_freed_def)
qed

lemma main_exit_routes:
  assumes "\<And>t s. p_service p = Some (t, s) \<Longrightarrow> uninit_function_route t \<noteq> Some []"
  shows "main_exit oe p = None"
proof (rule ccontr)
  assume "main_exit oe p \<noteq> None"
  then obtain t s where "Some (t, s) = p_service p" "uninit_function_route t = Some []"
    by (auto simp: main_exit_def bind_eq_Some_conv case_prod_beta Let_def dest!: conf_service say_service)
  then show False using assms by (metis)
qed

section \<open>A start that succeeds\<close>

text \<open>A table that holds the configuration \<open>m\<close>.\<close>

definition conf_holds :: "config \<Rightarrow> (string \<Rightarrow> string option) \<Rightarrow> bool" where
  "conf_holds d m \<longleftrightarrow> dict_inv d \<and> (\<forall>key. dict_map d (bytes key) = map_option Some (m key))"

definition configured :: "(string \<Rightarrow> string option) \<Rightarrow> ('w, 'v) program \<Rightarrow> bool" where
  "configured m p \<longleftrightarrow> (\<exists>d. p_conf p = Some d \<and> conf_holds d m)"

lemma configuredE:
  assumes "configured m p"
  obtains d where "p_conf p = Some d" "conf_holds d m"
  using assms by (auto simp: configured_def)

lemma getConfig_holds:
  assumes "conf_holds d m"
  shows "\<exists>d'. getConfig d key = Some (d', m key) \<and> conf_holds d' m"
proof -
  have inv: "dict_inv d" using assms by (simp add: conf_holds_def)
  obtain d' where d': "dictFetchValue d (bytes key) = Some (d', dict_map d (bytes key))" "dict_inv d'" "dict_map d' = dict_map d"
    using dict_kv.fetch_value [OF inv] by blast
  then show ?thesis using assms by (cases "m key") (auto simp: getConfig_def conf_holds_def)
qed

text \<open>A read of the configuration moves the table only.\<close>

definition same_but_conf :: "('w, 'v) program \<Rightarrow> ('w, 'v) program \<Rightarrow> bool" where
  "same_but_conf p p' \<longleftrightarrow> (\<exists>d. p' = p\<lparr>p_conf := Some d\<rparr>)"

lemma conf_value_runs:
  assumes "configured m p"
  obtains p' where "conf_value key p = Some (m key, p')" "configured m p'" "same_but_conf p p'"
proof -
  obtain d where d: "p_conf p = Some d" "conf_holds d m" using assms by (rule configuredE)
  obtain d' where d': "getConfig d key = Some (d', m key)" "conf_holds d' m" using getConfig_holds [OF d(2)] by blast
  show thesis
    by (rule that [of "p\<lparr>p_conf := Some d'\<rparr>"]) (use d d' in \<open>auto simp: conf_value_def configured_def same_but_conf_def\<close>)
qed



lemma same_but_conf_simps:
  assumes "same_but_conf p p'"
  shows "p_mem p' = p_mem p" "p_threads p' = p_threads p" "p_log p' = p_log p" "p_mysql p' = p_mysql p" "p_out p' = p_out p"
    "p_world p' = p_world p" "p_service p' = p_service p" "p_rng p' = p_rng p"
  using assms by (auto simp: same_but_conf_def)









section \<open>The steps\<close>





lemma configured_frame [simp]:
  "configured m (p\<lparr>p_mem := a\<rparr>) = configured m p" "configured m (p\<lparr>p_threads := b\<rparr>) = configured m p"
  "configured m (p\<lparr>p_log := c\<rparr>) = configured m p" "configured m (p\<lparr>p_mysql := e\<rparr>) = configured m p"
  "configured m (p\<lparr>p_out := f\<rparr>) = configured m p" "configured m (p\<lparr>p_service := g\<rparr>) = configured m p"
  "configured m (p\<lparr>p_rng := h\<rparr>) = configured m p"
  by (simp_all add: configured_def)

lemma main_config_runs:
  assumes "o_file oe = Some (concat (map line_text lines))" "list_all line_ok lines" "lines \<noteq> []" "length lines < 2 ^ 30"
  obtains p' where "main_config oe p = Some (True, p')" "configured (map_of (bindings lines)) p'" "same_but_conf p p'"
proof -
  obtain d where d: "configer_loop (e_cr (o_env oe)) None (dictCreateEx (o_seed oe)) None (concat (map line_text lines)) = Some d"
    "dict_inv d" "dict_map d = map_of (map (\<lambda>(k, v). (bytes k, Some v)) (bindings lines))"
    using configer_loop_lines [OF assms(2) dictCreateEx_facts(1), where buf = None and cr = "e_cr (o_env oe)" and junk = None] assms(3,4) by auto
  have "dict_map d (bytes key) = map_option Some (map_of (bindings lines) key)" for key
    unfolding d(3) by (induction lines rule: bindings.induct) auto
  then have "conf_holds d (map_of (bindings lines))" using d(2) by (simp add: conf_holds_def)
  then show thesis using d(1) assms(1)
    by (intro that [of "p\<lparr>p_conf := Some d\<rparr>"]) (auto simp: main_config_def configerInit_def configured_def same_but_conf_def)
qed










section \<open>Properties\<close>

text \<open>
  C36: The program never ends cleanly. With the wrong number of arguments, and after any step of the start
  that fails, the code behind \<open>exit\<close> uses what was not started: the configuration table or the route
  table is \<open>NULL\<close>. And if the event loop ever returned, the release of the route table would hand string
  literals to \<open>free\<close>, whatever requests were served before.
\<close>

theorem main_never_ends:
  fixes oe :: "('d, 'w, 'v, 'p) outside"
  shows "(\<forall>p'. main oe argc t (program0 out w) \<noteq> Some (Ended p'))
   \<and> (\<forall>(p :: ('w, 'v) program) tab s. p_service p = Some (tab, s) \<and> live_routes tab \<longrightarrow> main_exit oe p = None)"
proof (intro conjI allI impI notI)
  fix p'
  assume m: "main oe argc t (program0 out w) = Some (Ended p')"
  have s0: "p_service (program0 out w) = None" by (simp add: program0_def)
  obtain p :: "('w, 'v) program" where p: "p_service p = None" "main_exit oe p = Some p'"
  proof (cases "argc = 2")
    case True
    then obtain q where "main_start oe t (program0 out w) = Some (False, q)" "main_exit oe q = Some p'"
      using m by (auto simp: main_def bind_eq_Some_conv split: if_splits prod.splits)
    then show thesis using that failed_start_service s0 by metis
  next
    case False
    then show thesis using that m s0 by (auto simp: main_def bind_eq_Some_conv)
  qed
  then show False using main_exit_routes [of p oe] by simp
next
  fix p :: "('w, 'v) program" and tab s
  assume "p_service p = Some (tab, s) \<and> live_routes tab"
  then show "main_exit oe p = None" using live_routes_free [of tab] by (intro main_exit_routes) simp
qed

text \<open>What holds through a start that leaves the pool of connections off.\<close>

definition no_mysql :: "(string \<Rightarrow> string option) \<Rightarrow> ('w, 'v) program \<Rightarrow> bool" where
  "no_mysql m p \<longleftrightarrow> configured m p \<and> \<not> g_mysql_conn_enable (p_mysql p)"

lemma no_mysql_frame [simp]:
  "no_mysql m (p\<lparr>p_mem := a\<rparr>) = no_mysql m p" "no_mysql m (p\<lparr>p_threads := b\<rparr>) = no_mysql m p"
  "no_mysql m (p\<lparr>p_log := c\<rparr>) = no_mysql m p" "no_mysql m (p\<lparr>p_rng := h\<rparr>) = no_mysql m p"
  by (simp_all add: no_mysql_def)

lemma conf_value_off: "conf_value key p = Some (v, p') \<Longrightarrow> no_mysql m p \<Longrightarrow> no_mysql m p' \<and> v = m key"
  using conf_value_runs [of m p key] by (fastforce simp: no_mysql_def same_but_conf_simps)

lemma conf_text_off: "conf_text key p = Some (s, p') \<Longrightarrow> no_mysql m p \<Longrightarrow> no_mysql m p' \<and> m key = Some s"
  using conf_value_off by (fastforce simp: conf_text_def bind_eq_Some_conv)

lemma conf_int_off: "conf_int key p = Some (n, p') \<Longrightarrow> no_mysql m p \<Longrightarrow> no_mysql m p'"
  using conf_text_off by (fastforce simp: conf_int_def bind_eq_Some_conv)

lemma say_off: "say oe line p = Some p' \<Longrightarrow> no_mysql m p \<Longrightarrow> no_mysql m p'"
  by (auto simp: say_def bind_eq_Some_conv)

lemma say_entries_off: "say_entries oe es p = Some p' \<Longrightarrow> no_mysql m p \<Longrightarrow> no_mysql m p'"
  by (induction es arbitrary: p) (auto simp: bind_eq_Some_conv dest: say_off)

lemma print_config_off:
  assumes "print_config oe p = Some p'" "no_mysql m p"
  shows "no_mysql m p'"
proof -
  obtain p1 where p1: "say oe table_start p = Some p1" "no_mysql m p1"
    using assms say_off by (fastforce simp: print_config_def bind_eq_Some_conv)
  then obtain d where d: "p_conf p1 = Some d" "conf_holds d m" unfolding no_mysql_def by (elim conjE configuredE)
  then have "dict_ok d" by (simp add: conf_holds_def dict_inv_def)
  then obtain iter where it: "dict_iterate (o_tables oe) (\<lambda>e d. Some d) d dictGetIterator = Some (d, iter, entries d)"
    using iterate_plain by blast
  have "p1\<lparr>p_conf := Some d\<rparr> = p1" using d(1) by (cases p1) simp
  then have "no_mysql m (p1\<lparr>p_conf := Some d\<rparr>)" using p1(2) by simp
  then show ?thesis using assms(1) p1(1) d(1) it
    by (auto simp: print_config_def bind_eq_Some_conv dest!: say_entries_off [where m = m] say_off [where m = m])
qed

lemma steps_off:
  "main_memory oe p = Some (ok, p') \<Longrightarrow> no_mysql m p \<Longrightarrow> no_mysql m p'"
  "main_threads oe p = Some (ok, p') \<Longrightarrow> no_mysql m p \<Longrightarrow> no_mysql m p'"
  "main_log oe p = Some (ok, p') \<Longrightarrow> no_mysql m p \<Longrightarrow> no_mysql m p'"
  "main_mysql oe p = Some (ok, p') \<Longrightarrow> no_mysql m p \<Longrightarrow> m ''MysqlEnable'' = Some en \<Longrightarrow> en \<noteq> ''1'' \<Longrightarrow> no_mysql m p'"
  "no_mysql m p \<Longrightarrow> main_service oe p = None"
proof -
  show "main_memory oe p = Some (ok, p') \<Longrightarrow> no_mysql m p \<Longrightarrow> no_mysql m p'"
    by (auto simp: main_memory_def bind_eq_Some_conv dest!: conf_text_off [where m = m])
  show "main_threads oe p = Some (ok, p') \<Longrightarrow> no_mysql m p \<Longrightarrow> no_mysql m p'"
    by (auto simp: main_threads_def bind_eq_Some_conv case_prod_beta Let_def dest!: conf_int_off [where m = m])
  show "main_log oe p = Some (ok, p') \<Longrightarrow> no_mysql m p \<Longrightarrow> no_mysql m p'"
    by (auto simp: main_log_def bind_eq_Some_conv split: if_splits
        dest!: conf_value_off [where m = m] conf_int_off [where m = m] print_config_off [where m = m] say_off [where m = m])
  show "main_mysql oe p = Some (ok, p') \<Longrightarrow> no_mysql m p \<Longrightarrow> m ''MysqlEnable'' = Some en \<Longrightarrow> en \<noteq> ''1'' \<Longrightarrow> no_mysql m p'"
    unfolding main_mysql_def by (cases "conf_text ''MysqlEnable'' p") (auto dest!: conf_text_off [where m = m])
  assume "no_mysql m p"
  then have "mysqlConnectionPool_GetOneConn (o_client oe) (p_mysql p) (p_out p) = Some (None, p_mysql p, p_out p)"
    by (subst mysqlConnectionPool_GetOneConn.simps) (simp add: no_mysql_def)
  then show "main_service oe p = None"
    by (cases "p_conf p"; cases "regist_routes (e_cr (o_env oe)) Route.say_hello (o_seed oe)")
      (simp_all add: main_service_def regist_service_def loadCacheNecessary_def)
qed

text \<open>
  C35: The program does not run without MySQL. A configuration may set \<open>MysqlEnable\<close> to something other
  than \<open>1\<close>, and then the pool of connections is not made; but the start of the service asks it for a
  connection, gets \<open>NULL\<close> and follows it. Whatever else the configuration says and whatever resources are
  there, \<open>main\<close> is undefined.
\<close>

theorem main_needs_mysql:
  fixes oe :: "('d, 'w, 'v, 'p) outside"
  assumes "o_file oe = Some (concat (map line_text lines))" "list_all line_ok lines" "lines \<noteq> []" "length lines < 2 ^ 30"
    and "map_of (bindings lines) ''MysqlEnable'' = Some en" "en \<noteq> ''1''"
  shows "(main oe 2 now (program0 out w) :: ('w, 'v, 'p, 't, 'f, 'c) main_end option) = None"
proof -
  let ?p0 = "(program0 out w)\<lparr>p_rng := srand_init now\<rparr>" and ?m = "map_of (bindings lines)"
  obtain p1 where p1: "main_config oe ?p0 = Some (True, p1)" "configured ?m p1" "same_but_conf ?p0 p1"
    using main_config_runs [OF assms(1-4)] by blast
  then have off: "no_mysql ?m p1" using same_but_conf_simps(4) [OF p1(3)] by (simp add: no_mysql_def program0_def pool0_def)
  have "False" if run: "main_start oe now (program0 out w) = Some (True, q)" for q
  proof -
    obtain p2 where p2: "main_memory oe p1 = Some (True, p2)"
      and r2: "all_steps [main_threads oe, main_log oe, main_mysql oe, main_service oe] p2 = Some (True, q)"
      using run p1(1) by (auto simp: main_start_def bind_eq_Some_conv simp del: all_steps.simps(2) split: if_splits)
        (auto simp: bind_eq_Some_conv split: if_splits)
    obtain p3 where p3: "main_threads oe p2 = Some (True, p3)"
      and r3: "all_steps [main_log oe, main_mysql oe, main_service oe] p3 = Some (True, q)"
      using r2 by (auto simp: bind_eq_Some_conv split: if_splits)
    obtain p4 p5 where p4: "main_log oe p3 = Some (True, p4)" "main_mysql oe p4 = Some (True, p5)" "main_service oe p5 \<noteq> None"
      using r3 by (auto simp: bind_eq_Some_conv split: if_splits)
    have off5: "no_mysql ?m p5"
      using steps_off(4) [where m = ?m, OF p4(2) _ assms(5,6)] steps_off(3) [OF p4(1)] steps_off(2) [OF p3] steps_off(1) [OF p2] off by blast
    from steps_off(5) [OF off5, of oe] p4(3) show False by simp
  qed
  moreover have "main_exit oe q = None" if "main_start oe now (program0 out w) = Some (False, q)" for q
    using failed_start_service [OF that] by (intro main_exit_routes) (simp add: program0_def)
  ultimately show ?thesis unfolding main_def
    by (cases "main_start oe now (program0 out w)") (auto split: prod.splits)
qed


section \<open>A concrete start\<close>

definition demo_lines :: "conf_line list" where
  "demo_lines = [Comment '' the start'', Assign ''memoryPoolLevel'' ''1'', Assign ''memoryPoolCap'' ''[8]'', Assign ''memoryPoolSize'' ''[2]'',
     Assign ''ThreadpoolCount '' '' 2'', Assign ''LogPath'' ''/log'', Assign ''LogLevel'' ''3'', Assign ''LogSaveDays'' ''30'',
     Assign ''MysqlEnable'' ''1'', Assign ''MysqlIP'' ''localhost'', Assign ''MysqlPort'' ''3306'', Assign ''MysqlAccount'' ''root'',
     Assign ''MysqlPassword'' ''secret'', Assign ''MysqlConnectionTimeout'' ''10'', Assign ''DatabaseName'' ''server'',
     Assign ''MysqlConnectionPoolMaxCount'' ''2'', Assign ''ThreadpoolQuitType'' ''1'', Assign ''ServerPort'' ''8888'', Assign ''BackLog'' ''5'']"

definition open_client :: "nat client" where
  "open_client = \<lparr>my_connect = (\<lambda>n. (Some n, Suc n)), my_close = (\<lambda>c n. n), my_time = (\<lambda>n. (100, n))\<rparr>"

definition demo_outside :: "(int, nat, nat, nat) outside" where
  "demo_outside = \<lparr>o_env = quiet_env, o_client = open_client, o_file = Some (concat (map line_text demo_lines)), o_seed = replicate 16 0,
     o_addrs = [Some 1000], o_alloc = True, o_started = 2, o_can_open = (\<lambda>f. True), o_tm = demo_tm, o_pos = [], o_banner = ''hello'',
     o_listen = (\<lambda>port backlog. 3), o_accept = 0, o_now = 0, o_tables = (0, 0), o_join = (\<lambda>i. Some)\<rparr>"










text \<open>The same configuration, with the database switched off.\<close>

definition no_mysql_lines :: "conf_line list" where
  "no_mysql_lines = map (\<lambda>ln. if ln = Assign ''MysqlEnable'' ''1'' then Assign ''MysqlEnable'' ''0'' else ln) demo_lines"

lemma no_mysql_lines_ok:
  "list_all line_ok no_mysql_lines" "no_mysql_lines \<noteq> []" "length no_mysql_lines < 2 ^ 30"
  "map_of (bindings no_mysql_lines) ''MysqlEnable'' = Some ''0''"
  by (simp_all add: no_mysql_lines_def demo_lines_def LF_def CR_def)

lemma main_needs_mysql_witness:
  "(main (demo_outside\<lparr>o_file := Some (concat (map line_text no_mysql_lines))\<rparr>) 2 0 (program0 0 0)
     :: (nat, nat, nat, nat, nat, nat) main_end option) = None"
  by (rule main_needs_mysql [OF _ no_mysql_lines_ok]) simp_all

lemma main_never_ends_witness:
  "\<exists>tab. live_routes tab \<and> main demo_outside 1 0 (program0 0 0) \<noteq> (Some (Ended (program0 0 0)) :: (nat, nat, nat, nat, nat, nat) main_end option)
     \<and> (\<forall>s. main_exit demo_outside ((program0 0 0)\<lparr>p_service := Some (tab, s)\<rparr>) = None)"
proof -
  obtain tab where tab: "live_routes tab"
    using regist_routes_ok [of True Route.say_hello "replicate 16 0"] live_routes.registered by metis
  have "main demo_outside 1 0 (program0 0 0) \<noteq> (Some (Ended (program0 0 0)) :: (nat, nat, nat, nat, nat, nat) main_end option)"
    by (rule main_never_ends [THEN conjunct1, THEN spec])
  moreover have "main_exit demo_outside ((program0 0 0)\<lparr>p_service := Some (tab, s)\<rparr>) = None" for s
    by (rule main_never_ends [THEN conjunct2, THEN spec, THEN spec, THEN spec, THEN mp, of _ tab s]) (simp add: tab)
  ultimately show ?thesis using tab by blast
qed

end
