(* ===== verification/SockBasic.thy ===== *)
theory SockBasic
  imports SockServer "HOL-Library.State_Monad"
begin

text \<open>
  The socket helpers of \<open>utils/socket_basic.c\<close> (the branch for GNU C). The calls of the system are a
  record of functions on a state of the kernel; what is relied on is \<open>kernel_ok\<close>: which calls open and
  close descriptors, allocate address lists and change the flags of a descriptor. The loops around
  \<open>recv\<close> and \<open>send\<close> take the list of the results of those calls instead; its end is a call that has not
  returned. \<open>CERR\<close> only prints.
\<close>

section \<open>The system\<close>

datatype errno = EINTR | EINPROGRESS | E_other

definition ECONNECTED :: errno where "ECONNECTED = EINPROGRESS"

definition INVALID_SOCKET :: int where "INVALID_SOCKET = - 1"
definition SOCKET_ERROR :: int where "SOCKET_ERROR = - 1"

definition AF_UNSPEC :: nat where "AF_UNSPEC = 0"
definition AF_INET :: nat where "AF_INET = 2"
definition PF_INET :: nat where "PF_INET = 2"
definition SOCK_STREAM :: nat where "SOCK_STREAM = 1"
definition SOCK_DGRAM :: nat where "SOCK_DGRAM = 2"
definition IPPROTO_TCP :: nat where "IPPROTO_TCP = 6"
definition IPPROTO_UDP :: nat where "IPPROTO_UDP = 17"
definition SOMAXCONN :: int where "SOMAXCONN = 128"
definition O_NONBLOCK :: u32 where "O_NONBLOCK = 0x800"

datatype sock_opt = SO_REUSEADDR | SO_KEEPALIVE | SO_RCVTIMEO | SO_SNDTIMEO

text \<open>The value of an option: a number or a \<open>timeval\<close>.\<close>

datatype opt_val = Enable int | Time int int

record sockaddr_in =
  sin_family :: nat
  sin_port :: u16
  s_addr :: "u8 list"

record addrinfo =
  ai_family :: nat
  ai_socktype :: nat
  ai_addr :: "u8 list"

text \<open>
  A call gives its result in the code's encoding and the new state of the kernel. \<open>getaddrinfo\<close> takes
  the host, the port and the family, kind and protocol of the hints and gives the first address of its
  list; \<open>select\<close> takes the number of descriptors, the three sets and the time and gives its count and
  the sets.
\<close>

record 's kernel =
  k_socket :: "nat \<Rightarrow> nat \<Rightarrow> nat \<Rightarrow> ('s, int) state"
  k_shutdown :: "int \<Rightarrow> ('s, int) state"
  k_close :: "int \<Rightarrow> ('s, int) state"
  k_getfl :: "int \<Rightarrow> ('s, int) state"
  k_setfl :: "int \<Rightarrow> u32 \<Rightarrow> ('s, int) state"
  k_setsockopt :: "int \<Rightarrow> sock_opt \<Rightarrow> opt_val \<Rightarrow> ('s, int) state"
  k_so_error :: "int \<Rightarrow> ('s, int \<times> int) state"
  k_errno :: "('s, errno) state"
  k_getaddrinfo :: "string \<Rightarrow> string \<Rightarrow> nat \<Rightarrow> nat \<Rightarrow> nat \<Rightarrow> ('s, addrinfo option) state"
  k_freeaddrinfo :: "('s, unit) state"
  k_gethostbyname :: "string \<Rightarrow> ('s, u8 list option) state"
  k_inet_addr :: "string \<Rightarrow> u8 list"
  k_bind :: "int \<Rightarrow> u8 list \<Rightarrow> ('s, int) state"
  k_listen :: "int \<Rightarrow> int \<Rightarrow> ('s, int) state"
  k_accept :: "int \<Rightarrow> ('s, int \<times> sockaddr_in) state"
  k_connect :: "int \<Rightarrow> sockaddr_in \<Rightarrow> ('s, int) state"
  k_select :: "int \<Rightarrow> int set \<Rightarrow> int set \<Rightarrow> int set \<Rightarrow> int \<Rightarrow> int \<Rightarrow> ('s, int \<times> int set \<times> int set \<times> int set) state"

section \<open>Sockets and their options\<close>

definition socket_dgram :: "'s kernel \<Rightarrow> ('s, int) state" where
  "socket_dgram k = k_socket k PF_INET SOCK_DGRAM IPPROTO_UDP"

definition socket_stream :: "'s kernel \<Rightarrow> ('s, int) state" where
  "socket_stream k = k_socket k PF_INET SOCK_STREAM IPPROTO_TCP"

definition socket_close :: "'s kernel \<Rightarrow> int \<Rightarrow> ('s, int) state" where
  "socket_close k s = do { k_shutdown k s; k_close k s }"

definition socket_set_block :: "'s kernel \<Rightarrow> int \<Rightarrow> ('s, int) state" where
  "socket_set_block k s =
     do { mode \<leftarrow> k_getfl k s;
          if mode = SOCKET_ERROR then State_Monad.return SOCKET_ERROR
          else if word_of_int mode AND O_NONBLOCK \<noteq> 0
          then k_setfl k s (word_of_int mode AND NOT O_NONBLOCK)
          else State_Monad.return RETURN_OK }"

definition socket_set_nonblock :: "'s kernel \<Rightarrow> int \<Rightarrow> ('s, int) state" where
  "socket_set_nonblock k s =
     do { mode \<leftarrow> k_getfl k s;
          if mode = SOCKET_ERROR then State_Monad.return SOCKET_ERROR
          else if word_of_int mode AND O_NONBLOCK \<noteq> 0 then State_Monad.return RETURN_OK
          else k_setfl k s (word_of_int mode OR O_NONBLOCK) }"

definition socket_set_enable :: "'s kernel \<Rightarrow> int \<Rightarrow> sock_opt \<Rightarrow> ('s, int) state" where
  "socket_set_enable k s optname = k_setsockopt k s optname (Enable 1)"

definition socket_set_reuseaddr :: "'s kernel \<Rightarrow> int \<Rightarrow> ('s, int) state" where
  "socket_set_reuseaddr k s = socket_set_enable k s SO_REUSEADDR"

definition socket_set_keepalive :: "'s kernel \<Rightarrow> int \<Rightarrow> ('s, int) state" where
  "socket_set_keepalive k s = socket_set_enable k s SO_KEEPALIVE"

definition timeval_of :: "int \<Rightarrow> int \<times> int" where
  "timeval_of ms = (if ms > 0 then (ms div 1000, ms mod 1000 * 1000) else (0, 0))"

definition socket_set_time :: "'s kernel \<Rightarrow> int \<Rightarrow> int \<Rightarrow> sock_opt \<Rightarrow> ('s, int) state" where
  "socket_set_time k s ms optname = k_setsockopt k s optname (case_prod Time (timeval_of ms))"

definition socket_set_recvtimeo :: "'s kernel \<Rightarrow> int \<Rightarrow> int \<Rightarrow> ('s, int) state" where
  "socket_set_recvtimeo k s ms = socket_set_time k s ms SO_RCVTIMEO"

definition socket_set_sendtimeo :: "'s kernel \<Rightarrow> int \<Rightarrow> int \<Rightarrow> ('s, int) state" where
  "socket_set_sendtimeo k s ms = socket_set_time k s ms SO_SNDTIMEO"

text \<open>The number of an error, from \<open>getsockopt\<close> or from \<open>errno\<close>.\<close>

definition socket_get_error :: "'s kernel \<Rightarrow> (errno \<Rightarrow> int) \<Rightarrow> int \<Rightarrow> ('s, int) state" where
  "socket_get_error k num s =
     do { (code, error) \<leftarrow> k_so_error k s;
          if code < 0 then do { e \<leftarrow> k_errno k; State_Monad.return (num e) } else State_Monad.return error }"

section \<open>Addresses\<close>

text \<open>A host address longer than the field is copied over what follows; \<open>sin_zero\<close> is cleared after it
  and holds 8 bytes, so only more than 12 bytes leave the object.\<close>

definition socket_addr :: "'s kernel \<Rightarrow> string option \<Rightarrow> u16 \<Rightarrow> ('s, (int \<times> sockaddr_in option) option) state" where
  "socket_addr k ip port =
     (case ip of
        None \<Rightarrow> State_Monad.return (Some (ERR_PARAM, None))
      | Some [] \<Rightarrow> State_Monad.return (Some (ERR_PARAM, None))
      | Some ip \<Rightarrow>
          let addr = \<lparr>sin_family = AF_INET, sin_port = ENDIAN_WORD port, s_addr = k_inet_addr k ip\<rparr>
          in if s_addr addr = [255, 255, 255, 255]
             then do {
               host \<leftarrow> k_gethostbyname k ip;
               (case host of
                  None \<Rightarrow> State_Monad.return (Some (ERR_PARAM, Some addr))
                | Some h \<Rightarrow>
                    if length h > 12 then State_Monad.return None
                    else State_Monad.return
                      (Some (RETURN_OK, Some (addr\<lparr>s_addr := take 4 h @ drop (length h) (s_addr addr)\<rparr>)))) }
             else State_Monad.return (Some (RETURN_OK, Some addr)))"

definition socket_start :: "('s, unit) state" where
  "socket_start = State_Monad.return ()"

section \<open>Listening\<close>

text \<open>The labels \<open>_failed\<close> and \<open>_failed_fd\<close>.\<close>

definition bind_failed_fd :: "'s kernel \<Rightarrow> ('s, (int \<times> nat option) option) state" where
  "bind_failed_fd k = do { k_freeaddrinfo k; State_Monad.return (Some (INVALID_SOCKET, None)) }"

definition bind_failed :: "'s kernel \<Rightarrow> int \<Rightarrow> ('s, (int \<times> nat option) option) state" where
  "bind_failed k fd = do { socket_close k fd; bind_failed_fd k }"

text \<open>\<open>socket_bind\<close> gives the descriptor and what it writes to \<open>family\<close>.\<close>

definition socket_bind ::
  "'s kernel \<Rightarrow> string option \<Rightarrow> u16 \<Rightarrow> nat \<Rightarrow> ('s, (int \<times> nat option) option) state"
where
  "socket_bind k host port protocol =
     (let host = (case host of None \<Rightarrow> ''0.0.0.0'' | Some h \<Rightarrow> if h = [] then ''0.0.0.0'' else h);
          ports = show_nat (unat port)
      in if protocol \<noteq> IPPROTO_TCP \<and> protocol \<noteq> IPPROTO_UDP then State_Monad.return None
         else do {
           ailist \<leftarrow> k_getaddrinfo k host ports AF_UNSPEC (if protocol = IPPROTO_TCP then SOCK_STREAM else SOCK_DGRAM) protocol;
           (case ailist of
              None \<Rightarrow> State_Monad.return (Some (INVALID_SOCKET, None))
            | Some ai \<Rightarrow> do {
                fd \<leftarrow> k_socket k (ai_family ai) (ai_socktype ai) 0;
                if fd = INVALID_SOCKET then bind_failed_fd k
                else do {
                  r \<leftarrow> socket_set_reuseaddr k fd;
                  if r \<noteq> 0 then bind_failed k fd
                  else do {
                    r \<leftarrow> k_bind k fd (ai_addr ai);
                    if r \<noteq> 0 then bind_failed k fd
                    else do { k_freeaddrinfo k; State_Monad.return (Some (fd, Some (ai_family ai))) } } } }) })"

definition socket_listen :: "'s kernel \<Rightarrow> string option \<Rightarrow> u16 \<Rightarrow> int \<Rightarrow> ('s, int) state" where
  "socket_listen k host port backlog =
     do { b \<leftarrow> socket_bind k host port IPPROTO_TCP;
          let fd = (case b of None \<Rightarrow> INVALID_SOCKET | Some (fd, _) \<Rightarrow> fd);
          if fd = INVALID_SOCKET then State_Monad.return INVALID_SOCKET
          else do {
            r \<leftarrow> k_listen k fd backlog;
            if r \<noteq> 0 then do { socket_close k fd; State_Monad.return INVALID_SOCKET }
            else State_Monad.return fd } }"

definition socket_tcp :: "'s kernel \<Rightarrow> string option \<Rightarrow> u16 \<Rightarrow> ('s, int) state" where
  "socket_tcp k host port = socket_listen k host port SOMAXCONN"

definition socket_udp :: "'s kernel \<Rightarrow> string option \<Rightarrow> u16 \<Rightarrow> ('s, int) state" where
  "socket_udp k host port =
     do { b \<leftarrow> socket_bind k host port IPPROTO_UDP;
          State_Monad.return (case b of None \<Rightarrow> INVALID_SOCKET | Some (fd, _) \<Rightarrow> fd) }"

definition socket_accept :: "'s kernel \<Rightarrow> int \<Rightarrow> ('s, int \<times> sockaddr_in) state" where
  "socket_accept k s = k_accept k s"

section \<open>Connecting\<close>

definition socket_connect :: "'s kernel \<Rightarrow> int \<Rightarrow> sockaddr_in \<Rightarrow> ('s, int) state" where
  "socket_connect k s addr = k_connect k s addr"

definition socket_connects :: "'s kernel \<Rightarrow> int \<Rightarrow> string option \<Rightarrow> u16 \<Rightarrow> ('s, int option) state" where
  "socket_connects k s ip port =
     do { a \<leftarrow> socket_addr k ip port;
          (case a of
             Some (r, Some addr) \<Rightarrow>
               if r < RETURN_OK then State_Monad.return (Some r)
               else do { r \<leftarrow> socket_connect k s addr; State_Monad.return (Some r) }
           | Some (r, None) \<Rightarrow> State_Monad.return (Some r)
           | None \<Rightarrow> State_Monad.return None) }"

text \<open>The label \<open>_return\<close>.\<close>

definition connect_return :: "'s kernel \<Rightarrow> int \<Rightarrow> int \<Rightarrow> ('s, int option) state" where
  "connect_return k s r = do { socket_set_block k s; State_Monad.return (Some r) }"

text \<open>What \<open>select\<close> says about a connection under way.\<close>

definition connect_result :: "'s kernel \<Rightarrow> int \<Rightarrow> int \<times> int set \<times> int set \<times> int set \<Rightarrow> ('s, int) state" where
  "connect_result k s sel =
     (case sel of (n, rset, wset, eset) \<Rightarrow>
        if n \<le> 0 then State_Monad.return ERR_BASE
        else if n = 1 \<and> s \<in> wset then State_Monad.return RETURN_OK
        else if s \<in> eset \<or> n = 2
        then do {
          (code, n) \<leftarrow> k_so_error k s;
          State_Monad.return (if code = 0 \<and> n = 0 then RETURN_OK else ERR_BASE) }
        else State_Monad.return ERR_BASE)"

text \<open>A descriptor from \<open>FD_SETSIZE\<close> on is outside the sets.\<close>

definition socket_connecto :: "'s kernel \<Rightarrow> int \<Rightarrow> sockaddr_in \<Rightarrow> int \<Rightarrow> ('s, int option) state" where
  "socket_connecto k s addr ms =
     (if ms < 0 then do { r \<leftarrow> socket_connect k s addr; State_Monad.return (Some r) }
      else do {
        r \<leftarrow> socket_set_nonblock k s;
        if r < RETURN_OK then State_Monad.return (Some r)
        else do {
          r \<leftarrow> socket_connect k s addr;
          if r \<ge> RETURN_OK then connect_return k s r
          else do {
            e \<leftarrow> k_errno k;
            if e \<noteq> ECONNECTED then connect_return k s r
            else if ms = 0 then connect_return k s ERR_BASE
            else if s < 0 \<or> s \<ge> 1024 then State_Monad.return None
            else do {
              sel \<leftarrow> k_select k (s + 1) {s} {s} {s} (ms div 1000) (ms mod 1000 * 1000);
              r \<leftarrow> connect_result k s sel;
              connect_return k s r } } } })"

text \<open>An address that cannot be resolved gives its error code in the place of a socket.\<close>

definition socket_connectos :: "'s kernel \<Rightarrow> string option \<Rightarrow> u16 \<Rightarrow> int \<Rightarrow> ('s, int option) state" where
  "socket_connectos k host port ms =
     do { s \<leftarrow> socket_stream k;
          if s = INVALID_SOCKET then State_Monad.return (Some INVALID_SOCKET)
          else do {
            a \<leftarrow> socket_addr k host port;
            (case a of
               None \<Rightarrow> State_Monad.return None
             | Some (r, addr) \<Rightarrow>
                 if r < RETURN_OK then State_Monad.return (Some r)
                 else do {
                   r \<leftarrow> socket_connecto k s (the addr) ms;
                   (case r of
                      None \<Rightarrow> State_Monad.return None
                    | Some r \<Rightarrow>
                        if r < RETURN_OK then do { socket_close k s; State_Monad.return (Some INVALID_SOCKET) }
                        else State_Monad.return (Some s)) }) } }"

section \<open>Receiving and sending\<close>

text \<open>One call of \<open>recv\<close> for \<open>len\<close> bytes that is not interrupted: it takes no more than it is asked for, and
  nothing for a length of 0. The results that remain are the second component.\<close>

fun socket_recv :: "recv_res list \<Rightarrow> nat \<Rightarrow> (recv_res \<times> recv_res list) option" where
  "socket_recv [] len = None"
| "socket_recv (Interrupted # rs) len = socket_recv rs len"
| "socket_recv (Got bs # rs) len =
     Some (Got (take len bs), if len < length bs then Got (drop len bs) # rs else rs)"
| "socket_recv (r # rs) len = Some (r, rs)"

text \<open>\<open>socket_recvn\<close>: its result, and what the buffer holds from its start on. A call that would block is an
  error like the others.\<close>

fun recv_weight :: "recv_res \<Rightarrow> nat" where
  "recv_weight (Got bs) = Suc (length bs)"
| "recv_weight _ = 1"

lemma socket_recv_weight:
  "socket_recv rs len = Some (r, rs') \<Longrightarrow> 0 < len \<Longrightarrow>
   sum_list (map recv_weight rs') < sum_list (map recv_weight rs)"
  by (induction rs len rule: socket_recv.induct) (auto split: if_splits)

function recvn_loop :: "recv_res list \<Rightarrow> nat \<Rightarrow> nat \<Rightarrow> (int \<times> u8 list \<times> recv_res list) option" where
  "recvn_loop rs len nlen =
     (if nlen = 0 then Some (int (len - nlen), [], rs)
      else case socket_recv rs nlen of
        None \<Rightarrow> None
      | Some (Got bs, rs) \<Rightarrow>
          if bs = [] then Some (int (len - nlen), [], rs)
          else (case recvn_loop rs len (nlen - length bs) of
                  None \<Rightarrow> None
                | Some (r, bs', rs) \<Rightarrow> Some (r, bs @ bs', rs))
      | Some (Peer_closed, rs) \<Rightarrow> Some (int (len - nlen), [], rs)
      | Some (_, rs) \<Rightarrow> Some (SOCKET_ERROR, [], rs))"
  by pat_completeness auto

termination
  by (relation "measure (\<lambda>(rs, len, nlen). sum_list (map recv_weight rs))") (auto dest: socket_recv_weight)

declare recvn_loop.simps [simp del]

definition socket_recvn :: "recv_res list \<Rightarrow> int \<Rightarrow> (int \<times> u8 list \<times> recv_res list) option" where
  "socket_recvn rs len = (if len \<le> 0 then Some (0, [], rs) else recvn_loop rs (nat len) (nat len))"

datatype send_res = Sent nat | Send_interrupted | Send_failed

text \<open>\<open>send\<close> takes no more than it is given.\<close>

fun socket_send :: "send_res list \<Rightarrow> nat \<Rightarrow> (int \<times> send_res list) option" where
  "socket_send [] len = None"
| "socket_send (Send_interrupted # rs) len = socket_send rs len"
| "socket_send (Sent n # rs) len = Some (int (min n len), rs)"
| "socket_send (Send_failed # rs) len = Some (SOCKET_ERROR, rs)"

lemma socket_send_shorter: "socket_send rs len = Some (r, rs') \<Longrightarrow> length rs' < length rs"
  by (induction rs len rule: socket_send.induct) auto

text \<open>\<open>socket_sendn\<close>: its result and the bytes that went out.\<close>

function sendn_loop :: "send_res list \<Rightarrow> nat \<Rightarrow> u8 list \<Rightarrow> (int \<times> u8 list \<times> send_res list) option" where
  "sendn_loop rs len buf =
     (if buf = [] then Some (int (len - length buf), [], rs)
      else case socket_send rs (length buf) of
        None \<Rightarrow> None
      | Some (r, rs) \<Rightarrow>
          if r = 0 then Some (int (len - length buf), [], rs)
          else if r = SOCKET_ERROR then Some (SOCKET_ERROR, [], rs)
          else (case sendn_loop rs len (drop (nat r) buf) of
                  None \<Rightarrow> None
                | Some (r', out, rs) \<Rightarrow> Some (r', take (nat r) buf @ out, rs)))"
  by pat_completeness auto

termination
  by (relation "measure (\<lambda>(rs, len, buf). length rs)") (auto dest: socket_send_shorter)

declare sendn_loop.simps [simp del]

definition socket_sendn :: "send_res list \<Rightarrow> u8 list \<Rightarrow> (int \<times> u8 list \<times> send_res list) option" where
  "socket_sendn rs buf = sendn_loop rs (length buf) buf"

section \<open>The listener of the server\<close>

text \<open>\<open>socket_server_start\<close> with the socket it opens; a failure of \<open>socket_listen\<close> is not looked at.\<close>

definition server_listen ::
  "'s kernel \<Rightarrow> string option \<Rightarrow> int \<Rightarrow> int \<Rightarrow> int \<Rightarrow> 'p \<Rightarrow> ('s, (('p, 't, 'f, 'c) aeEventLoop \<times> int) option) state"
where
  "server_listen k ip port backlog now proc =
     do { server_listener \<leftarrow> socket_listen k ip (word_of_int port) backlog;
          socket_set_nonblock k server_listener;
          State_Monad.return (socket_server_start now server_listener proc) }"

section \<open>What the loops receive and send\<close>

text \<open>The bytes that arrive before the first call that neither receives nor is interrupted, and that call.\<close>

fun incoming :: "recv_res list \<Rightarrow> u8 list" where
  "incoming (Got bs # rs) = bs @ incoming rs"
| "incoming (Interrupted # rs) = incoming rs"
| "incoming _ = []"

fun verdict :: "recv_res list \<Rightarrow> recv_res option" where
  "verdict [] = None"
| "verdict (Got bs # rs) = verdict rs"
| "verdict (Interrupted # rs) = verdict rs"
| "verdict (r # rs) = Some r"

lemma socket_recv_Some:
  assumes "Got [] \<notin> set rs" "0 < len" "incoming rs \<noteq> []"
  obtains bs rs' where "socket_recv rs len = Some (Got bs, rs')" "bs \<noteq> []" "length bs \<le> len"
    "incoming rs = bs @ incoming rs'" "verdict rs' = verdict rs" "Got [] \<notin> set rs'"
  using assms
proof (induction rs len arbitrary: thesis rule: socket_recv.induct)
  case (3 bs rs len)
  then show ?case
    by (intro "3.prems"(1) [of "take len bs" "if len < length bs then Got (drop len bs) # rs else rs"]) auto
qed auto

lemma socket_recv_empty:
  "incoming rs = [] \<Longrightarrow> Got [] \<notin> set rs \<Longrightarrow>
   (case verdict rs of None \<Rightarrow> socket_recv rs len = None | Some r \<Rightarrow> \<exists>rs'. socket_recv rs len = Some (r, rs'))"
  by (induction rs len rule: socket_recv.induct) (auto split: option.splits)

lemma verdict_cases: "verdict rs \<in> {None, Some Peer_closed, Some Again, Some Failed}"
  by (induction rs rule: verdict.induct) auto

text \<open>The loop against the stream, with \<open>len - nlen\<close> bytes received before.\<close>

definition recvn_spec :: "nat \<Rightarrow> nat \<Rightarrow> recv_res list \<Rightarrow> (int \<times> u8 list \<times> recv_res list) option \<Rightarrow> bool" where
  "recvn_spec len nlen rs res \<longleftrightarrow>
     (if nlen \<le> length (incoming rs)
      then \<exists>rs'. res = Some (int len, take nlen (incoming rs), rs') \<and> incoming rs' = drop nlen (incoming rs)
      else case verdict rs of
        None \<Rightarrow> res = None
      | Some Peer_closed \<Rightarrow> \<exists>rs'. res = Some (int (len - nlen + length (incoming rs)), incoming rs, rs')
      | Some _ \<Rightarrow> \<exists>rs'. res = Some (SOCKET_ERROR, incoming rs, rs'))"

lemma recvn_loop_spec:
  "Got [] \<notin> set rs \<Longrightarrow> nlen \<le> len \<Longrightarrow> recvn_spec len nlen rs (recvn_loop rs len nlen)"
proof (induction rs len nlen rule: recvn_loop.induct)
  case (1 rs len nlen)
  show ?case
  proof (cases "nlen = 0")
    case True
    then show ?thesis by (simp add: recvn_spec_def recvn_loop.simps)
  next
    case n: False
    show ?thesis
    proof (cases "incoming rs = []")
      case True
      then show ?thesis
        using socket_recv_empty [of rs nlen] 1(2) n verdict_cases [of rs]
        by (auto simp: recvn_spec_def recvn_loop.simps [of rs len nlen])
    next
      case False
      obtain bs rs' where r: "socket_recv rs nlen = Some (Got bs, rs')" "bs \<noteq> []" "length bs \<le> nlen"
          "incoming rs = bs @ incoming rs'" "verdict rs' = verdict rs" "Got [] \<notin> set rs'"
        using socket_recv_Some [OF 1(2) _ False, of nlen] n by blast
      have "recvn_spec len (nlen - length bs) rs' (recvn_loop rs' len (nlen - length bs))"
        using 1(1) [OF n r(1) refl] r(2,6) 1(3) by simp
      then show ?thesis
        using n r 1(3) unfolding recvn_spec_def recvn_loop.simps [of rs len nlen]
        by (auto split: if_splits option.splits recv_res.splits)
    qed
  qed
qed

lemma socket_send_Some:
  "socket_send rs n = Some (r, rs') \<Longrightarrow> Sent 0 \<notin> set rs \<Longrightarrow> 0 < n \<Longrightarrow>
   (r = SOCKET_ERROR \<or> 0 < r \<and> r \<le> int n) \<and> Sent 0 \<notin> set rs'"
  by (induction rs n rule: socket_send.induct) (auto simp: min_def)

lemma sendn_loop_Some:
  "sendn_loop rs len buf = Some (r, out, rs') \<Longrightarrow> Sent 0 \<notin> set rs \<Longrightarrow>
   (r = int len \<and> out = buf \<or> r = SOCKET_ERROR \<and> (\<exists>more. more \<noteq> [] \<and> buf = out @ more))"
proof (induction rs len buf arbitrary: r out rs' rule: sendn_loop.induct)
  case (1 rs len buf)
  show ?case
  proof (cases "buf = []")
    case True
    then show ?thesis using 1(2) by (simp add: sendn_loop.simps)
  next
    case b: False
    obtain r1 rs1 where s: "socket_send rs (length buf) = Some (r1, rs1)"
      using 1(2) b by (auto simp: sendn_loop.simps [of rs len buf] split: option.splits)
    have r1: "r1 = SOCKET_ERROR \<or> 0 < r1 \<and> r1 \<le> int (length buf)" "Sent 0 \<notin> set rs1"
      using socket_send_Some [OF s 1(3)] b by auto
    show ?thesis
    proof (cases "r1 = SOCKET_ERROR")
      case True
      then show ?thesis using 1(2) b s by (auto simp: sendn_loop.simps [of rs len buf] SOCKET_ERROR_def)
    next
      case False
      then have pos: "0 < r1" "r1 \<noteq> 0" "nat r1 \<le> length buf" using r1 by auto
      obtain r2 o2 where l: "sendn_loop rs1 len (drop (nat r1) buf) = Some (r2, o2, rs')"
          "r = r2" "out = take (nat r1) buf @ o2"
        using 1(2) b s pos False by (auto simp: sendn_loop.simps [of rs len buf] split: option.splits)
      have "r2 = int len \<and> o2 = drop (nat r1) buf \<or> r2 = SOCKET_ERROR \<and> (\<exists>more. more \<noteq> [] \<and> drop (nat r1) buf = o2 @ more)"
        using 1(1) [OF b s refl pos(2) False l(1) r1(2)] .
      then show ?thesis using l(2,3) by (metis append.assoc append_take_drop_id)
    qed
  qed
qed

section \<open>Resources\<close>

text \<open>What a call leaves, and the rules that take a body apart.\<close>

definition post :: "('s, 'a) state \<Rightarrow> 's \<Rightarrow> ('a \<Rightarrow> 's \<Rightarrow> bool) \<Rightarrow> bool" where
  "post m s Q \<longleftrightarrow> (case run_state m s of (a, s') \<Rightarrow> Q a s')"

lemma post_return [simp]: "post (State_Monad.return a) s Q \<longleftrightarrow> Q a s"
  by (simp add: post_def)

lemma post_bind [simp]: "post (do { a \<leftarrow> m; f a }) s Q \<longleftrightarrow> post m s (\<lambda>a s'. post (f a) s' Q)"
  by (simp add: post_def split: prod.split)

lemma postI: "post m s P \<Longrightarrow> (\<And>a s'. P a s' \<Longrightarrow> Q a s') \<Longrightarrow> post m s Q"
  by (auto simp: post_def split: prod.splits)

lemma postD: "post m s Q \<Longrightarrow> run_state m s = (a, s') \<Longrightarrow> Q a s'"
  by (simp add: post_def)

text \<open>
  What the system promises: the open descriptors and the number of address lists not yet freed are
  changed by \<open>socket\<close>, \<open>close\<close>, \<open>getaddrinfo\<close> and \<open>freeaddrinfo\<close> only (\<open>accept\<close> is not used below). The
  flags of an open descriptor are what was set last.
\<close>

definition keeps :: "('s \<Rightarrow> 'r) \<Rightarrow> ('s, 'a) state \<Rightarrow> bool" where
  "keeps res m \<longleftrightarrow> (\<forall>s. post m s (\<lambda>a s'. res s' = res s))"

definition kernel_ok :: "'s kernel \<Rightarrow> ('s \<Rightarrow> int set \<times> nat) \<Rightarrow> bool" where
  "kernel_ok k res \<longleftrightarrow>
     (\<forall>f t p s. post (k_socket k f t p) s (\<lambda>r s'.
        r = INVALID_SOCKET \<and> res s' = res s \<or>
        0 \<le> r \<and> r \<notin> fst (res s) \<and> res s' = (insert r (fst (res s)), snd (res s)))) \<and>
     (\<forall>fd s. post (k_close k fd) s (\<lambda>r s'. res s' = (fst (res s) - {fd}, snd (res s)))) \<and>
     (\<forall>h p f t q s. post (k_getaddrinfo k h p f t q) s (\<lambda>r s'.
        res s' = (fst (res s), (if r = None then snd (res s) else Suc (snd (res s)))))) \<and>
     (\<forall>s. post (k_freeaddrinfo k) s (\<lambda>r s'. res s' = (fst (res s), snd (res s) - 1))) \<and>
     (\<forall>fd. keeps res (k_shutdown k fd) \<and> keeps res (k_getfl k fd) \<and> keeps res (k_so_error k fd)) \<and>
     (\<forall>fd x. keeps res (k_setfl k fd x)) \<and> (\<forall>fd x y. keeps res (k_setsockopt k fd x y)) \<and>
     keeps res (k_errno k) \<and> (\<forall>x. keeps res (k_gethostbyname k x)) \<and>
     (\<forall>fd x. keeps res (k_bind k fd x)) \<and> (\<forall>fd x. keeps res (k_listen k fd x)) \<and>
     (\<forall>fd x. keeps res (k_connect k fd x)) \<and> (\<forall>n a b c x y. keeps res (k_select k n a b c x y))"

lemma keepsI: "keeps res m \<Longrightarrow> (\<And>a s'. res s' = res s \<Longrightarrow> Q a s') \<Longrightarrow> post m s Q"
  by (auto simp: keeps_def intro: postI)

lemma keeps_return: "keeps res (State_Monad.return a)"
  by (simp add: keeps_def)

lemma keeps_bind: "keeps res m \<Longrightarrow> (\<And>a. keeps res (f a)) \<Longrightarrow> keeps res (do { a \<leftarrow> m; f a })"
  unfolding keeps_def post_bind by (metis (mono_tags, lifting) postI)

lemmas keeps_intros = keeps_return keeps_bind

lemma kernel_keeps:
  assumes "kernel_ok k res"
  shows "keeps res (k_shutdown k fd)" "keeps res (k_getfl k fd)" "keeps res (k_so_error k fd)"
    "keeps res (k_setfl k fd fl)" "keeps res (k_setsockopt k fd opt val)" "keeps res (k_errno k)"
    "keeps res (k_gethostbyname k h)" "keeps res (k_bind k fd addr)" "keeps res (k_listen k fd n)"
    "keeps res (k_connect k fd a)" "keeps res (k_select k m rs ws es sec usec)"
  using assms by (simp_all add: kernel_ok_def)

lemma set_keeps:
  assumes "kernel_ok k res"
  shows "keeps res (socket_set_reuseaddr k fd)" "keeps res (socket_set_block k fd)"
    "keeps res (socket_set_nonblock k fd)" "keeps res (socket_connect k fd a)"
    "keeps res (connect_return k fd r)" "keeps res (connect_result k fd sel)"
  using kernel_keeps [OF assms]
  by (auto simp: socket_set_reuseaddr_def socket_set_enable_def socket_set_block_def socket_set_nonblock_def
      socket_connect_def connect_return_def connect_result_def split: prod.split intro!: keeps_intros)

lemma post_socket:
  assumes "kernel_ok k res" "\<And>s'. res s' = res s \<Longrightarrow> Q INVALID_SOCKET s'"
    "\<And>r s'. 0 \<le> r \<Longrightarrow> r \<notin> fst (res s) \<Longrightarrow> res s' = (insert r (fst (res s)), snd (res s)) \<Longrightarrow> Q r s'"
  shows "post (k_socket k f t p) s Q"
proof -
  have "post (k_socket k f t p) s (\<lambda>r s'.
      r = INVALID_SOCKET \<and> res s' = res s \<or>
      0 \<le> r \<and> r \<notin> fst (res s) \<and> res s' = (insert r (fst (res s)), snd (res s)))"
    using assms(1) by (simp add: kernel_ok_def)
  then show ?thesis by (rule postI) (use assms(2,3) in blast)
qed

lemma post_socket_close:
  assumes "kernel_ok k res" "\<And>r s'. res s' = (fst (res s) - {fd}, snd (res s)) \<Longrightarrow> Q r s'"
  shows "post (socket_close k fd) s Q"
proof -
  have "post (k_close k fd) s1 (\<lambda>r s'. res s' = (fst (res s1) - {fd}, snd (res s1)))" for s1
    using assms(1) by (simp add: kernel_ok_def)
  then have "post (k_close k fd) s1 Q" if "res s1 = res s" for s1
    by (rule postI) (use assms(2) that in simp)
  then show ?thesis by (auto simp: socket_close_def intro!: keepsI [OF kernel_keeps(1) [OF assms(1)]])
qed

lemma post_getaddrinfo:
  assumes "kernel_ok k res" "\<And>s'. res s' = res s \<Longrightarrow> Q None s'"
    "\<And>ai s'. res s' = (fst (res s), Suc (snd (res s))) \<Longrightarrow> Q (Some ai) s'"
  shows "post (k_getaddrinfo k h p f t q) s Q"
proof -
  have "post (k_getaddrinfo k h p f t q) s (\<lambda>r s'.
      res s' = (fst (res s), (if r = None then snd (res s) else Suc (snd (res s)))))"
    using assms(1) by (simp add: kernel_ok_def)
  then show ?thesis
    by (rule postI) (use assms(2,3) in \<open>auto simp: prod_eq_iff split: if_splits\<close>)
qed

lemma post_freeaddrinfo:
  assumes "kernel_ok k res" "\<And>r s'. res s' = (fst (res s), snd (res s) - 1) \<Longrightarrow> Q r s'"
  shows "post (k_freeaddrinfo k) s Q"
proof -
  have "post (k_freeaddrinfo k) s (\<lambda>r s'. res s' = (fst (res s), snd (res s) - 1))"
    using assms(1) by (simp add: kernel_ok_def)
  then show ?thesis by (rule postI) (use assms(2) in blast)
qed

text \<open>A result that is a new descriptor, or none.\<close>

definition opens :: "('s \<Rightarrow> int set \<times> nat) \<Rightarrow> 's \<Rightarrow> int \<Rightarrow> 's \<Rightarrow> bool" where
  "opens res s fd s' \<longleftrightarrow>
     fd = INVALID_SOCKET \<and> res s' = res s \<or>
     0 \<le> fd \<and> fd \<notin> fst (res s) \<and> res s' = (insert fd (fst (res s)), snd (res s))"

lemma socket_bind_opens:
  assumes "kernel_ok k res"
  shows "post (socket_bind k host port protocol) s (\<lambda>r s'.
     case r of None \<Rightarrow> res s' = res s | Some (fd, fam) \<Rightarrow> opens res s fd s')"
proof -
  note rules = post_getaddrinfo [OF assms] post_socket [OF assms] post_freeaddrinfo [OF assms]
    keepsI [OF set_keeps(1) [OF assms]] keepsI [OF kernel_keeps(8) [OF assms]] post_socket_close [OF assms]
  show ?thesis
    unfolding socket_bind_def Let_def bind_failed_def bind_failed_fd_def
    by (auto simp: opens_def INVALID_SOCKET_def prod_eq_iff intro!: rules)
qed

lemma socket_listen_opens:
  assumes "kernel_ok k res"
  shows "post (socket_listen k host port backlog) s (opens res s)"
proof -
  note rules = keepsI [OF kernel_keeps(9) [OF assms]] post_socket_close [OF assms]
  show ?thesis
    unfolding socket_listen_def post_bind
    by (rule postI [OF socket_bind_opens [OF assms]])
      (auto simp: opens_def INVALID_SOCKET_def Let_def prod_eq_iff split: option.splits intro!: rules)
qed

lemma socket_connecto_keeps: "kernel_ok k res \<Longrightarrow> keeps res (socket_connecto k s addr ms)"
  unfolding socket_connecto_def
  by (auto simp: intro!: keeps_intros set_keeps kernel_keeps)

lemma socket_addr_post:
  assumes "kernel_ok k res"
  shows "post (socket_addr k ip port) s (\<lambda>a s'. res s' = res s \<and>
     (case a of None \<Rightarrow> True | Some (r, addr) \<Rightarrow> r = ERR_PARAM \<or> r = RETURN_OK \<and> addr \<noteq> None))"
  unfolding socket_addr_def Let_def
  by (auto split: option.splits list.splits intro!: keepsI [OF kernel_keeps(7) [OF assms]])

text \<open>The result is the new socket, or none with nothing open; or the error of the address, with the
  socket still open.\<close>

definition connected :: "('s \<Rightarrow> int set \<times> nat) \<Rightarrow> 's \<Rightarrow> int \<Rightarrow> 's \<Rightarrow> bool" where
  "connected res s r s' \<longleftrightarrow>
     (if r = ERR_PARAM then \<exists>fd. opens res s fd s' \<and> fd \<noteq> INVALID_SOCKET else opens res s r s')"

text \<open>The end of \<open>socket_connectos\<close>.\<close>

lemma connectos_end:
  assumes "kernel_ok k res" "0 \<le> fd" "fd \<notin> fst (res s)" "res s1 = (insert fd (fst (res s)), snd (res s))"
  shows "post (do { r \<leftarrow> socket_connecto k fd addr ms;
                    (case r of None \<Rightarrow> State_Monad.return None
                     | Some r \<Rightarrow> if r < RETURN_OK then do { socket_close k fd; State_Monad.return (Some INVALID_SOCKET) }
                                 else State_Monad.return (Some fd)) }) s1
      (\<lambda>r s'. case r of None \<Rightarrow> True | Some r \<Rightarrow> connected res s r s')"
  unfolding post_bind
proof (rule keepsI [OF socket_connecto_keeps [OF assms(1)]])
  fix r s2 assume s2: "res s2 = res s1"
  show "post (case r of None \<Rightarrow> State_Monad.return None
       | Some r \<Rightarrow> if r < RETURN_OK then do { socket_close k fd; State_Monad.return (Some INVALID_SOCKET) }
                   else State_Monad.return (Some fd)) s2
      (\<lambda>r s'. case r of None \<Rightarrow> True | Some r \<Rightarrow> connected res s r s')"
  proof (cases "\<exists>x. r = Some x \<and> x < RETURN_OK")
    case True
    then obtain x where "r = Some x" "x < RETURN_OK" by blast
    then show ?thesis
      using assms(2-4) s2
      by (auto simp: connected_def opens_def INVALID_SOCKET_def ERR_PARAM_def prod_eq_iff intro!: post_socket_close [OF assms(1)])
  next
    case False
    then show ?thesis
      using assms(2-4) s2 by (cases r) (auto simp: connected_def opens_def ERR_PARAM_def)
  qed
qed

lemma socket_connectos_opens:
  assumes "kernel_ok k res"
  shows "post (socket_connectos k host port ms) s (\<lambda>r s'.
     case r of None \<Rightarrow> True | Some r \<Rightarrow> connected res s r s')"
  unfolding socket_connectos_def socket_stream_def post_bind
proof (rule post_socket [OF assms], goal_cases)
  case (1 s1)
  then show ?case by (simp add: connected_def opens_def INVALID_SOCKET_def ERR_PARAM_def)
next
  case (2 fd s1)
  then have fd: "fd \<noteq> INVALID_SOCKET" by (auto simp: INVALID_SOCKET_def)
  show ?case
    unfolding if_not_P [OF fd] post_bind
  proof (rule postI [OF socket_addr_post [OF assms]], goal_cases)
    case (1 a s2)
    then have s2: "res s2 = (insert fd (fst (res s)), snd (res s))" using 2(3) by simp
    show ?case
    proof (cases a)
      case (Some ra)
      obtain r addr where ra: "ra = (r, addr)" by fastforce
      consider "r = ERR_PARAM" | "r = RETURN_OK" using 1 Some ra by auto
      then show ?thesis
      proof cases
        case 1
        then show ?thesis using Some ra s2 2 fd by (auto simp: ERR_PARAM_def RETURN_OK_def connected_def opens_def)
      next
        case r: 2
        show ?thesis
          using connectos_end [OF assms 2(1,2) s2, of "the addr" ms]
          unfolding Some ra r option.case prod.case RETURN_OK_def by simp
      qed
    qed simp
  qed
qed

lemma server_listen_opens:
  assumes "kernel_ok k res"
  shows "post (server_listen k ip port backlog now proc :: ('s, (('p, 't, 'f, 'c) aeEventLoop \<times> int) option) state) s
     (\<lambda>r s'. \<exists>fd. opens res s fd s' \<and> r = socket_server_start now fd proc)"
  unfolding server_listen_def post_bind
proof (rule postI [OF socket_listen_opens [OF assms]], goal_cases)
  case (1 fd s1)
  show ?case by (rule keepsI [OF set_keeps(3) [OF assms]]) (use 1 in \<open>auto simp: opens_def intro!: exI [of _ fd]\<close>)
qed

lemma server_start_invalid: "socket_server_start now INVALID_SOCKET proc = None"
  by (simp add: socket_server_start_def aeCreateFileEvent_def INVALID_SOCKET_def aeCreateEventLoop_def)

lemma server_start_ok:
  assumes "0 \<le> fd" "fd < 1024"
  shows "\<exists>l :: ('p, 't, 'f, 'c) aeEventLoop. socket_server_start now fd proc = Some (l, AE_OK)
    \<and> loop_ok l \<and> regs l = (\<lambda>fd. 0)(fd := AE_READABLE)"
proof -
  let ?l = "aeCreateEventLoop 3000 now :: ('p, 't, 'f, 'c) aeEventLoop"
  have f: "fd < FD_SETSIZE" "fd < setsize ?l" "AE_READABLE \<in> {1, 2, 3}"
    using assms(2) by (simp_all add: FD_SETSIZE_def aeCreateEventLoop_def AE_READABLE_def)
  have ok: "loop_ok ?l" by (rule aeCreateEventLoop_ok) simp
  show ?thesis
    using aeCreateFileEvent_ok [OF ok assms(1) f, of proc None]
    by (auto simp: socket_server_start_def aeCreateEventLoop_ok(2))
qed

section \<open>Properties\<close>

text \<open>
  C39: Sockets and address lists are not lost. \<open>socket_bind\<close> and \<open>socket_listen\<close> leave exactly the
  descriptor they return open, and nothing when they fail, and every address list is freed. The server
  registers the listener it got; when there is none, it writes before the table of events.
  \<open>socket_connectos\<close> gives the new socket or leaves nothing open, but for an address that cannot be
  resolved it returns \<open>ERR_PARAM\<close>, which is not \<open>INVALID_SOCKET\<close>, and leaves its socket open.
\<close>

theorem socket_resources:
  assumes "kernel_ok k res"
  shows "(run_state (socket_bind k host port protocol) s = (Some (fd, fam), s') \<longrightarrow> opens res s fd s')
    \<and> (run_state (socket_listen k host port backlog) s = (fd, s') \<longrightarrow> opens res s fd s')
    \<and> (run_state (server_listen k host port' backlog now proc) s = (r, s') \<longrightarrow>
        (\<exists>fd. opens res s fd s' \<and> (fd = INVALID_SOCKET \<longrightarrow> r = None)
          \<and> (0 \<le> fd \<and> fd < 1024 \<longrightarrow> (\<exists>l :: ('p, 't, 'f, 'c) aeEventLoop. r = Some (l, AE_OK)
               \<and> loop_ok l \<and> regs l = (\<lambda>fd. 0)(fd := AE_READABLE)))))
    \<and> (run_state (socket_connectos k host port ms) s = (Some c, s') \<longrightarrow>
        (if c = ERR_PARAM then \<exists>fd. fd \<noteq> INVALID_SOCKET \<and> opens res s fd s' else opens res s c s'))"
proof (intro conjI impI)
  show "run_state (socket_bind k host port protocol) s = (Some (fd, fam), s') \<Longrightarrow> opens res s fd s'"
    using postD [OF socket_bind_opens [OF assms]] by fastforce
  show "run_state (socket_listen k host port backlog) s = (fd, s') \<Longrightarrow> opens res s fd s'"
    by (rule postD [OF socket_listen_opens [OF assms]])
  show "run_state (socket_connectos k host port ms) s = (Some c, s') \<Longrightarrow>
      (if c = ERR_PARAM then \<exists>fd. fd \<noteq> INVALID_SOCKET \<and> opens res s fd s' else opens res s c s')"
    using postD [OF socket_connectos_opens [OF assms], of host port ms s "Some c" s']
    by (auto simp: connected_def split: if_splits)
next
  assume "run_state (server_listen k host port' backlog now proc) s = (r, s')"
  from postD [OF server_listen_opens [OF assms] this]
  obtain fd where "opens res s fd s'" "r = socket_server_start now fd proc" by (elim exE conjE)
  then show "\<exists>fd. opens res s fd s' \<and> (fd = INVALID_SOCKET \<longrightarrow> r = None)
      \<and> (0 \<le> fd \<and> fd < 1024 \<longrightarrow> (\<exists>l :: ('p, 't, 'f, 'c) aeEventLoop. r = Some (l, AE_OK)
           \<and> loop_ok l \<and> regs l = (\<lambda>fd. 0)(fd := AE_READABLE)))"
    using server_start_invalid server_start_ok by (intro exI [of _ fd]) auto
qed

text \<open>
  \<open>socket_recvn\<close> and \<open>socket_sendn\<close>. However the network cuts the stream and however often a call is
  interrupted, \<open>socket_recvn\<close> gives the first \<open>n\<close> bytes and leaves the others; when the peer closes before
  that, it gives what there was, and its number. An error, or a socket that does not block and has
  nothing, gives \<open>SOCKET_ERROR\<close>, and the bytes already taken from the stream are not counted for the
  caller. \<open>socket_sendn\<close> gives the whole length exactly when all bytes went out, in order.
\<close>

theorem socket_transfer:
  assumes "Got [] \<notin> set rs" "0 \<le> n" "Sent 0 \<notin> set ss"
  shows "(nat n \<le> length (incoming rs) \<longrightarrow>
        (\<exists>rs'. socket_recvn rs n = Some (n, take (nat n) (incoming rs), rs') \<and> incoming rs' = drop (nat n) (incoming rs)))
    \<and> (length (incoming rs) < nat n \<longrightarrow>
        (case verdict rs of
           None \<Rightarrow> socket_recvn rs n = None
         | Some Peer_closed \<Rightarrow> \<exists>rs'. socket_recvn rs n = Some (int (length (incoming rs)), incoming rs, rs')
         | Some _ \<Rightarrow> \<exists>rs'. socket_recvn rs n = Some (SOCKET_ERROR, incoming rs, rs')))
    \<and> (socket_sendn ss buf = Some (r, out, ss') \<longrightarrow>
        r = int (length buf) \<and> out = buf \<or> r = SOCKET_ERROR \<and> (\<exists>more. more \<noteq> [] \<and> buf = out @ more))"
proof -
  have loop: "recvn_spec (nat n) (nat n) rs (recvn_loop rs (nat n) (nat n))"
    by (rule recvn_loop_spec [OF assms(1)]) simp
  have zero: "recvn_loop rs 0 0 = Some (0, [], rs)" by (simp add: recvn_loop.simps)
  have "socket_recvn rs n = recvn_loop rs (nat n) (nat n)"
    using assms(2) zero by (simp add: socket_recvn_def)
  then show ?thesis
    using loop assms(2) sendn_loop_Some [OF _ assms(3)]
    by (auto simp: recvn_spec_def socket_sendn_def split: option.splits recv_res.splits)
qed

text \<open>A kernel that numbers its descriptors, resolves no names and refuses the address \<open>[]\<close>.\<close>

type_synonym demo_state = "int list \<times> nat"

definition fresh_fd :: "int list \<Rightarrow> int" where "fresh_fd fds = foldr max fds 2 + 1"

definition done_with :: "'a \<Rightarrow> (demo_state, 'a) state" where "done_with a = State_Monad.return a"

definition demo_kernel :: "demo_state kernel" where
  "demo_kernel = \<lparr>k_socket = (\<lambda>f t p. State (\<lambda>(fds, l). (fresh_fd fds, (fresh_fd fds # fds, l)))),
     k_shutdown = (\<lambda>fd. done_with 0), k_close = (\<lambda>fd. State (\<lambda>(fds, l). (0, (removeAll fd fds, l)))),
     k_getfl = (\<lambda>fd. done_with 2), k_setfl = (\<lambda>fd fl. done_with 0), k_setsockopt = (\<lambda>fd opt v. done_with 0),
     k_so_error = (\<lambda>fd. done_with (0, 0)), k_errno = done_with E_other,
     k_getaddrinfo = (\<lambda>h p f t q. State (\<lambda>(fds, l).
        (Some \<lparr>ai_family = AF_INET, ai_socktype = t, ai_addr = (if h = ''busy'' then [] else [1])\<rparr>, (fds, Suc l)))),
     k_freeaddrinfo = State (\<lambda>(fds, l). ((), (fds, l - 1))), k_gethostbyname = (\<lambda>h. done_with None),
     k_inet_addr = (\<lambda>h. [255, 255, 255, 255]), k_bind = (\<lambda>fd a. done_with (if a = [] then -1 else 0)),
     k_listen = (\<lambda>fd n. done_with 0), k_accept = (\<lambda>fd. done_with (-1, \<lparr>sin_family = 0, sin_port = 0, s_addr = []\<rparr>)),
     k_connect = (\<lambda>fd a. done_with 0), k_select = (\<lambda>n rs ws es sec usec. done_with (0, {}, {}, {}))\<rparr>"

definition demo_res :: "demo_state \<Rightarrow> int set \<times> nat" where "demo_res s = (set (fst s), snd s)"

lemma fresh_fd_above: "fd \<in> set fds \<Longrightarrow> fd < fresh_fd fds" "3 \<le> fresh_fd fds"
  by (induction fds) (auto simp: fresh_fd_def)

lemma fresh_fd_new: "fresh_fd fds \<notin> set fds" "fresh_fd fds \<noteq> - 1" "0 \<le> fresh_fd fds"
  using fresh_fd_above(1) [of "fresh_fd fds" fds] fresh_fd_above(2) [of fds] by auto

lemma demo_kernel_ok: "kernel_ok demo_kernel demo_res"
  by (auto simp: kernel_ok_def keeps_def post_def demo_kernel_def demo_res_def done_with_def INVALID_SOCKET_def fresh_fd_new)

lemma socket_resources_witness:
  "run_state (socket_listen demo_kernel None 8080 5) ([3], 0) = (4, ([4, 3], 0)) \<and> opens demo_res ([3], 0) 4 ([4, 3], 0)
   \<and> run_state (socket_connectos demo_kernel (Some ''nowhere'') 80 10) ([3], 0) = (Some ERR_PARAM, ([4, 3], 0))"
proof -
  have l: "run_state (socket_listen demo_kernel None 8080 5) ([3], 0) = (4, ([4, 3], 0))"
    by (simp add: socket_listen_def socket_bind_def demo_kernel_def done_with_def fresh_fd_def Let_def
        IPPROTO_TCP_def INVALID_SOCKET_def socket_set_reuseaddr_def socket_set_enable_def)
  have c: "run_state (socket_connectos demo_kernel (Some ''nowhere'') 80 10) ([3], 0) = (Some ERR_PARAM, ([4, 3], 0))"
    by (simp add: socket_connectos_def socket_stream_def socket_addr_def demo_kernel_def done_with_def fresh_fd_def
        INVALID_SOCKET_def ERR_PARAM_def RETURN_OK_def)
  show ?thesis using l c conjunct1 [OF conjunct2 [OF socket_resources [OF demo_kernel_ok]], THEN mp, OF l] by simp
qed

lemma socket_transfer_witness:
  "\<exists>rs'. socket_recvn [Got [1, 2], Interrupted, Got [3, 4]] 3 = Some (3, [1, 2, 3], rs') \<and> incoming rs' = [4 :: u8]"
  using socket_transfer [of "[Got [1, 2], Interrupted, Got [3, 4]]" 3 "[]"] by simp

end
