(* ===== verification/AePoll.thy ===== *)
theory AePoll
  imports AeLoop
begin

text \<open>
  The back ends of the event loop that \<open>utils/event/ae.c\<close> can include instead of \<open>ae_select.c\<close>:
  \<open>ae_epoll.c\<close>, \<open>ae_kqueue.c\<close> and \<open>ae_evport.c\<close>, with the part of \<open>aeCreateFileEvent\<close> and
  \<open>aeDeleteFileEvent\<close> that uses them. The system calls are arguments, with what the manual pages promise
  as hypotheses; \<open>None\<close> is \<open>abort\<close> or an access outside a table. The debugging output of
  \<open>ae_evport.c\<close> is off, and \<open>zmalloc\<close> succeeds.
\<close>

section \<open>Registering and removing events over any back end\<close>

text \<open>The masks of \<open>eventLoop->events\<close>; the table holds \<open>n\<close> of them.\<close>

type_synonym masks = "int \<Rightarrow> int"

definition ae_create ::
  "(masks \<Rightarrow> int \<Rightarrow> int \<Rightarrow> 'a \<Rightarrow> (int \<times> 'a) option) \<Rightarrow> int \<Rightarrow> int \<Rightarrow> int \<Rightarrow> masks \<times> 'a \<Rightarrow> (int \<times> masks \<times> 'a) option"
where
  "ae_create api_add n fd msk s =
     (if fd \<ge> n then Some (AE_ERR, s)
      else do {
        guard (0 \<le> fd);
        (r, a) \<leftarrow> api_add (fst s) fd msk (snd s);
        Some (if r = -1 then (AE_ERR, fst s, a) else (AE_OK, (fst s)(fd := fst s fd OR msk), a)) })"

definition ae_delete ::
  "(masks \<Rightarrow> int \<Rightarrow> int \<Rightarrow> 'a \<Rightarrow> 'a option) \<Rightarrow> int \<Rightarrow> int \<Rightarrow> int \<Rightarrow> masks \<times> 'a \<Rightarrow> (masks \<times> 'a) option"
where
  "ae_delete api_del n fd msk s =
     (if fd \<ge> n then Some s
      else do {
        guard (0 \<le> fd);
        if fst s fd = AE_NONE then Some s
        else do {
          a \<leftarrow> api_del (fst s) fd msk (snd s);
          Some ((fst s)(fd := fst s fd AND NOT msk), a) } })"

datatype reg_call = Create int int | Delete int int

text \<open>A sequence of calls as long as each of them succeeds.\<close>

fun reg_calls ::
  "(masks \<Rightarrow> int \<Rightarrow> int \<Rightarrow> 'a \<Rightarrow> (int \<times> 'a) option) \<Rightarrow> (masks \<Rightarrow> int \<Rightarrow> int \<Rightarrow> 'a \<Rightarrow> 'a option)
     \<Rightarrow> int \<Rightarrow> reg_call list \<Rightarrow> masks \<times> 'a \<Rightarrow> (masks \<times> 'a) option"
where
  "reg_calls api_add api_del n [] s = Some s"
| "reg_calls api_add api_del n (Create fd msk # cs) s =
     do { (r, s) \<leftarrow> ae_create api_add n fd msk s; guard (r = AE_OK); reg_calls api_add api_del n cs s }"
| "reg_calls api_add api_del n (Delete fd msk # cs) s =
     do { s \<leftarrow> ae_delete api_del n fd msk s; reg_calls api_add api_del n cs s }"

fun masks_after :: "int \<Rightarrow> reg_call list \<Rightarrow> masks \<Rightarrow> masks" where
  "masks_after n [] ms = ms"
| "masks_after n (Create fd msk # cs) ms = masks_after n cs (ms(fd := ms fd OR msk))"
| "masks_after n (Delete fd msk # cs) ms = masks_after n cs (if fd \<ge> n then ms else ms(fd := ms fd AND NOT msk))"

fun reg_valid :: "reg_call \<Rightarrow> bool" where
  "reg_valid (Create fd msk) \<longleftrightarrow> 0 \<le> fd \<and> fd < FD_SETSIZE \<and> msk \<in> {1, 2, 3}"
| "reg_valid (Delete fd msk) \<longleftrightarrow> 0 \<le> fd \<and> fd < FD_SETSIZE \<and> msk \<in> {1, 2, 3}"

text \<open>What the loop relies on: after a successful call the back end watches what the table says.\<close>

locale registry =
  fixes good :: "'a \<Rightarrow> bool"
    and watched :: "'a \<Rightarrow> masks"
    and api_add :: "masks \<Rightarrow> int \<Rightarrow> int \<Rightarrow> 'a \<Rightarrow> (int \<times> 'a) option"
    and api_del :: "masks \<Rightarrow> int \<Rightarrow> int \<Rightarrow> 'a \<Rightarrow> 'a option"
  assumes add: "good a \<Longrightarrow> 0 \<le> fd \<Longrightarrow> fd < FD_SETSIZE \<Longrightarrow> msk \<in> {1, 2, 3} \<Longrightarrow>
      api_add (watched a) fd msk a = Some (r, a') \<Longrightarrow> r \<noteq> -1 \<Longrightarrow>
      good a' \<and> watched a' = (watched a)(fd := watched a fd OR msk)"
    and del: "good a \<Longrightarrow> 0 \<le> fd \<Longrightarrow> fd < FD_SETSIZE \<Longrightarrow> msk \<in> {1, 2, 3} \<Longrightarrow> watched a fd \<noteq> 0 \<Longrightarrow>
      api_del (watched a) fd msk a = Some a' \<Longrightarrow>
      good a' \<and> watched a' = (watched a)(fd := watched a fd AND NOT msk)"
begin

lemma create_watched:
  assumes "good a" "0 \<le> fd" "fd < FD_SETSIZE" "msk \<in> {1, 2, 3}"
    "ae_create api_add n fd msk (watched a, a) = Some (AE_OK, ms, a')"
  shows "good a' \<and> watched a' = ms \<and> ms = (watched a)(fd := watched a fd OR msk)"
  using assms(5) add [OF assms(1-4)] by (auto simp: ae_create_def bind_eq_Some_conv split: if_splits)

lemma delete_watched:
  assumes "good a" "0 \<le> fd" "fd < FD_SETSIZE" "msk \<in> {1, 2, 3}"
    "ae_delete api_del n fd msk (watched a, a) = Some (ms, a')"
  shows "good a' \<and> watched a' = ms \<and> ms = (if fd \<ge> n then watched a else (watched a)(fd := watched a fd AND NOT msk))"
proof (cases "fd \<ge> n \<or> watched a fd = 0")
  case True
  then show ?thesis using assms(1,2,5) by (auto simp: ae_delete_def fun_upd_idem split: if_splits)
next
  case False
  then obtain a1 where "api_del (watched a) fd msk a = Some a1" "a' = a1" "ms = (watched a)(fd := watched a fd AND NOT msk)"
    using assms(2,5) by (auto simp: ae_delete_def bind_eq_Some_conv)
  then show ?thesis using del [OF assms(1-4)] False by auto
qed

lemma calls_watched:
  "good a \<Longrightarrow> list_all reg_valid cs \<Longrightarrow> reg_calls api_add api_del n cs (watched a, a) = Some (ms, a') \<Longrightarrow>
   good a' \<and> watched a' = ms \<and> ms = masks_after n cs (watched a)"
proof (induction cs arbitrary: a)
  case (Cons c cs)
  show ?case
  proof (cases c)
    case (Create fd msk)
    obtain ms1 a1 where c: "ae_create api_add n fd msk (watched a, a) = Some (AE_OK, ms1, a1)"
        "reg_calls api_add api_del n cs (ms1, a1) = Some (ms, a')"
      using Cons.prems(3) Create by (auto simp: bind_eq_Some_conv)
    have w: "good a1" "watched a1 = ms1" "ms1 = (watched a)(fd := watched a fd OR msk)"
      using create_watched [OF Cons.prems(1) _ _ _ c(1)] Cons.prems(2) Create by simp_all
    have "good a' \<and> watched a' = ms \<and> ms = masks_after n cs ms1"
      using Cons.IH [of a1] w(1,2) Cons.prems(2) c(2) by simp
    then show ?thesis unfolding Create w(3) masks_after.simps .
  next
    case (Delete fd msk)
    obtain ms1 a1 where c: "ae_delete api_del n fd msk (watched a, a) = Some (ms1, a1)"
        "reg_calls api_add api_del n cs (ms1, a1) = Some (ms, a')"
      using Cons.prems(3) Delete by (auto simp: bind_eq_Some_conv)
    have w: "good a1" "watched a1 = ms1" "ms1 = (if fd \<ge> n then watched a else (watched a)(fd := watched a fd AND NOT msk))"
      using delete_watched [OF Cons.prems(1) _ _ _ c(1)] Cons.prems(2) Delete by simp_all
    have "good a' \<and> watched a' = ms \<and> ms = masks_after n cs ms1"
      using Cons.IH [of a1] w(1,2) Cons.prems(2) c(2) by simp
    then show ?thesis unfolding Delete w(3) masks_after.simps .
  qed
qed simp

end

section \<open>select\<close>

definition select_add :: "masks \<Rightarrow> int \<Rightarrow> int \<Rightarrow> ('p, 't, 'f, 'c) aeEventLoop \<Rightarrow> (int \<times> ('p, 't, 'f, 'c) aeEventLoop) option" where
  "select_add ms fd msk l = map_option (Pair 0) (aeApiAddEvent l fd msk)"

definition select_del :: "masks \<Rightarrow> int \<Rightarrow> int \<Rightarrow> ('p, 't, 'f, 'c) aeEventLoop \<Rightarrow> ('p, 't, 'f, 'c) aeEventLoop option" where
  "select_del ms fd msk l = aeApiDelEvent l fd msk"

text \<open>A mask from its two directions.\<close>

definition mask_of :: "bool \<Rightarrow> bool \<Rightarrow> int" where
  "mask_of r w = (if r then AE_READABLE else 0) OR (if w then AE_WRITABLE else 0)"

lemma mask_of_simps:
  "mask_of r w AND AE_READABLE \<noteq> 0 \<longleftrightarrow> r" "mask_of r w AND AE_WRITABLE \<noteq> 0 \<longleftrightarrow> w"
  "mask_of r w = 0 \<longleftrightarrow> \<not> r \<and> \<not> w"
  by (simp_all add: mask_of_def AE_READABLE_def AE_WRITABLE_def)

lemma mask_of_or: "msk \<in> {1, 2, 3} \<Longrightarrow> mask_of r w OR msk = mask_of (r \<or> msk AND AE_READABLE \<noteq> 0) (w \<or> msk AND AE_WRITABLE \<noteq> 0)"
  by (auto simp: mask_of_def AE_READABLE_def AE_WRITABLE_def)

lemma mask_of_and_not:
  "msk \<in> {1, 2, 3} \<Longrightarrow> mask_of r w AND NOT msk = mask_of (r \<and> msk AND AE_READABLE = 0) (w \<and> msk AND AE_WRITABLE = 0)"
  by (auto simp: mask_of_def AE_READABLE_def AE_WRITABLE_def)

definition select_watched :: "('p, 't, 'f, 'c) aeEventLoop \<Rightarrow> masks" where
  "select_watched l fd = mask_of (fd \<in> rfds l) (fd \<in> wfds l)"

interpretation sel: registry "\<lambda>l :: ('p, 't, 'f, 'c) aeEventLoop. True" select_watched select_add select_del
proof
  fix l l' :: "('p, 't, 'f, 'c) aeEventLoop" and fd msk r :: int
  assume fd: "0 \<le> fd" "fd < FD_SETSIZE" and msk: "msk \<in> {1, 2, 3}"
  show "select_add (select_watched l) fd msk l = Some (r, l') \<Longrightarrow>
      True \<and> select_watched l' = (select_watched l)(fd := select_watched l fd OR msk)"
    using fd by (auto simp: select_add_def aeApiAddEvent_def FD_SET_def select_watched_def mask_of_or [OF msk] fun_eq_iff
        bind_eq_Some_conv split: if_splits)
  show "select_del (select_watched l) fd msk l = Some l' \<Longrightarrow>
      True \<and> select_watched l' = (select_watched l)(fd := select_watched l fd AND NOT msk)"
    using fd by (auto simp: select_del_def aeApiDelEvent_def FD_CLR_def select_watched_def mask_of_and_not [OF msk] fun_eq_iff
        bind_eq_Some_conv split: if_splits)
qed

section \<open>epoll\<close>

definition EPOLLIN :: u32 where "EPOLLIN = 0x001"
definition EPOLLOUT :: u32 where "EPOLLOUT = 0x004"
definition EPOLLERR :: u32 where "EPOLLERR = 0x008"
definition EPOLLHUP :: u32 where "EPOLLHUP = 0x010"

datatype epoll_op = EPOLL_CTL_ADD | EPOLL_CTL_DEL | EPOLL_CTL_MOD

text \<open>\<open>epoll_wait\<close> takes the number of entries and the time and gives its result and the entries.\<close>

record 'e epoll_sys =
  epoll_ctl :: "epoll_op \<Rightarrow> int \<Rightarrow> u32 \<Rightarrow> 'e \<Rightarrow> int \<times> 'e"
  epoll_wait :: "int \<Rightarrow> int \<Rightarrow> 'e \<Rightarrow> (int \<times> (int \<times> u32) list) \<times> 'e"

definition epoll_events :: "int \<Rightarrow> u32" where
  "epoll_events msk =
     (let ev = 0;
          ev = (if msk AND AE_READABLE \<noteq> 0 then ev OR EPOLLIN else ev);
          ev = (if msk AND AE_WRITABLE \<noteq> 0 then ev OR EPOLLOUT else ev)
      in ev)"

definition epoll_add :: "'e epoll_sys \<Rightarrow> masks \<Rightarrow> int \<Rightarrow> int \<Rightarrow> 'e \<Rightarrow> (int \<times> 'e) option" where
  "epoll_add k ms fd msk e =
     (let op = (if ms fd = AE_NONE then EPOLL_CTL_ADD else EPOLL_CTL_MOD);
          msk = msk OR ms fd;
          (r, e) = epoll_ctl k op fd (epoll_events msk) e
      in if r = -1 then Some (-1, e) else Some (0, e))"

definition epoll_del :: "'e epoll_sys \<Rightarrow> masks \<Rightarrow> int \<Rightarrow> int \<Rightarrow> 'e \<Rightarrow> 'e option" where
  "epoll_del k ms fd delmask e =
     (let msk = ms fd AND NOT delmask
      in if msk \<noteq> AE_NONE then Some (snd (epoll_ctl k EPOLL_CTL_MOD fd (epoll_events msk) e))
         else Some (snd (epoll_ctl k EPOLL_CTL_DEL fd (epoll_events msk) e)))"

definition epoll_fired :: "int \<times> u32 \<Rightarrow> int \<times> int" where
  "epoll_fired e =
     (let ev = snd e; msk = 0;
          msk = (if ev AND EPOLLIN \<noteq> 0 then msk OR AE_READABLE else msk);
          msk = (if ev AND EPOLLOUT \<noteq> 0 then msk OR AE_WRITABLE else msk);
          msk = (if ev AND EPOLLERR \<noteq> 0 then msk OR AE_WRITABLE else msk);
          msk = (if ev AND EPOLLHUP \<noteq> 0 then msk OR AE_WRITABLE else msk)
      in (fst e, msk))"

text \<open>The milliseconds are computed in \<open>long\<close> and passed as \<open>int\<close>.\<close>

definition epoll_timeout :: "(int \<times> int) option \<Rightarrow> int" where
  "epoll_timeout tvp = (case tvp of None \<Rightarrow> -1 | Some (sec, usec) \<Rightarrow> sint (word_of_int (sec * 1000 + usec sdiv 1000) :: u32))"

definition epoll_poll :: "'e epoll_sys \<Rightarrow> int \<Rightarrow> (int \<times> int) option \<Rightarrow> 'e \<Rightarrow> (int \<times> int) list \<times> 'e" where
  "epoll_poll k n tvp e =
     (let ((retval, evs), e) = epoll_wait k n (epoll_timeout tvp) e
      in (if retval > 0 then map epoll_fired (take (nat retval) evs) else [], e))"

text \<open>
  The manual pages: \<open>EPOLL_CTL_ADD\<close> needs a descriptor that is not in the interest list and may fail; the
  two others need one that is. \<open>epoll_wait\<close> gives each descriptor at most once, what it waits for or an
  error or hang-up, which are always reported.
\<close>

definition epoll_ok :: "'e epoll_sys \<Rightarrow> ('e \<Rightarrow> int \<Rightarrow> u32 option) \<Rightarrow> bool" where
  "epoll_ok k interest \<longleftrightarrow>
     (\<forall>e fd ev r e'. epoll_ctl k EPOLL_CTL_ADD fd ev e = (r, e') \<and> interest e fd = None \<longrightarrow>
        r = 0 \<and> interest e' = (interest e)(fd \<mapsto> ev) \<or> r = -1 \<and> interest e' = interest e) \<and>
     (\<forall>e fd ev r e'. epoll_ctl k EPOLL_CTL_MOD fd ev e = (r, e') \<and> interest e fd \<noteq> None \<longrightarrow>
        r = 0 \<and> interest e' = (interest e)(fd \<mapsto> ev)) \<and>
     (\<forall>e fd ev r e'. epoll_ctl k EPOLL_CTL_DEL fd ev e = (r, e') \<and> interest e fd \<noteq> None \<longrightarrow>
        r = 0 \<and> interest e' = (interest e)(fd := None)) \<and>
     (\<forall>e n t r evs e'. epoll_wait k n t e = ((r, evs), e') \<longrightarrow>
        interest e' = interest e \<and> (0 < r \<longrightarrow> length evs = nat r \<and> r \<le> n) \<and> distinct (map fst evs) \<and>
        (\<forall>(fd, ev) \<in> set evs. \<exists>w. interest e fd = Some w \<and> ev \<noteq> 0 \<and> ev AND NOT (w OR EPOLLERR OR EPOLLHUP) = 0))"

definition epoll_watched :: "('e \<Rightarrow> int \<Rightarrow> u32 option) \<Rightarrow> 'e \<Rightarrow> masks" where
  "epoll_watched interest e fd =
     (case interest e fd of None \<Rightarrow> AE_NONE | Some ev \<Rightarrow> mask_of (ev AND EPOLLIN \<noteq> 0) (ev AND EPOLLOUT \<noteq> 0))"

definition epoll_good :: "'e epoll_sys \<Rightarrow> ('e \<Rightarrow> int \<Rightarrow> u32 option) \<Rightarrow> 'e \<Rightarrow> bool" where
  "epoll_good k interest e \<longleftrightarrow> epoll_ok k interest \<and>
     (\<forall>fd. interest e fd \<in> {None, Some EPOLLIN, Some EPOLLOUT, Some (EPOLLIN OR EPOLLOUT)})"

lemma epoll_bits:
  "EPOLLIN AND EPOLLIN \<noteq> 0" "EPOLLIN AND EPOLLOUT = 0" "EPOLLOUT AND EPOLLIN = 0" "EPOLLOUT AND EPOLLOUT \<noteq> 0"
  "(EPOLLIN OR EPOLLOUT) AND EPOLLIN \<noteq> 0" "(EPOLLIN OR EPOLLOUT) AND EPOLLOUT \<noteq> 0"
  "EPOLLIN \<noteq> 0" "EPOLLOUT \<noteq> 0" "EPOLLIN OR EPOLLOUT \<noteq> 0"
  by (simp_all add: EPOLLIN_def EPOLLOUT_def)

lemma epoll_events_mask:
  "epoll_events (mask_of r w) = (if r then EPOLLIN else 0) OR (if w then EPOLLOUT else 0)"
  by (simp add: epoll_events_def mask_of_simps [simplified] Let_def)

lemma epoll_events_watched:
  "r \<or> w \<Longrightarrow> mask_of (epoll_events (mask_of r w) AND EPOLLIN \<noteq> 0) (epoll_events (mask_of r w) AND EPOLLOUT \<noteq> 0) = mask_of r w"
  "r \<or> w \<Longrightarrow> epoll_events (mask_of r w) \<in> {EPOLLIN, EPOLLOUT, EPOLLIN OR EPOLLOUT}"
  unfolding epoll_events_mask using epoll_bits by (cases r; cases w; simp)+

lemma epoll_watched_mask:
  obtains r w where "epoll_watched interest e fd = mask_of r w"
proof (cases "interest e fd")
  case None
  then have "epoll_watched interest e fd = mask_of False False" by (simp add: epoll_watched_def mask_of_def)
  then show thesis by (rule that)
next
  case (Some ev)
  then show thesis by (intro that) (simp add: epoll_watched_def)
qed

lemma epoll_good_interest: "epoll_good k interest e \<Longrightarrow> interest e fd \<in> {None, Some EPOLLIN, Some EPOLLOUT, Some (EPOLLIN OR EPOLLOUT)}"
  unfolding epoll_good_def by blast

lemma epoll_good_None:
  assumes "epoll_good k interest e"
  shows "interest e fd = None \<longleftrightarrow> epoll_watched interest e fd = 0"
  using epoll_good_interest [OF assms, of fd] epoll_bits
  by (cases "interest e fd") (auto simp: epoll_watched_def mask_of_simps)

lemma epoll_good_upd:
  assumes "epoll_good k interest e" "interest e' = (interest e)(fd \<mapsto> epoll_events (mask_of r w))" "r \<or> w"
  shows "epoll_good k interest e' \<and> epoll_watched interest e' = (epoll_watched interest e)(fd := mask_of r w)"
proof
  show "epoll_good k interest e'"
    using epoll_events_watched(2) [OF assms(3)] epoll_good_interest [OF assms(1)] assms(1,2)
    by (simp add: epoll_good_def)
  show "epoll_watched interest e' = (epoll_watched interest e)(fd := mask_of r w)"
    by (rule ext) (simp add: epoll_watched_def assms(2) epoll_events_watched(1) [OF assms(3)])
qed

lemma epoll_good_clear:
  assumes "epoll_good k interest e" "interest e' = (interest e)(fd := None)"
  shows "epoll_good k interest e' \<and> epoll_watched interest e' = (epoll_watched interest e)(fd := 0)"
  using assms(1) by (auto simp: epoll_good_def epoll_watched_def assms(2) fun_eq_iff)

lemma epoll_okD:
  assumes "epoll_ok k interest"
  shows "epoll_ctl k EPOLL_CTL_ADD fd ev e = (r, e') \<Longrightarrow> interest e fd = None \<Longrightarrow> r \<noteq> -1 \<Longrightarrow>
      interest e' = (interest e)(fd \<mapsto> ev)"
    "epoll_ctl k EPOLL_CTL_MOD fd ev e = (r, e') \<Longrightarrow> interest e fd \<noteq> None \<Longrightarrow> interest e' = (interest e)(fd \<mapsto> ev)"
    "epoll_ctl k EPOLL_CTL_DEL fd ev e = (r, e') \<Longrightarrow> interest e fd \<noteq> None \<Longrightarrow> interest e' = (interest e)(fd := None)"
  using assms unfolding epoll_ok_def by metis+

lemma epoll_add_interest:
  assumes "epoll_good k interest e" "epoll_add k (epoll_watched interest e) fd msk e = Some (r, e')" "r \<noteq> -1"
  shows "interest e' = (interest e)(fd \<mapsto> epoll_events (epoll_watched interest e fd OR msk))"
proof -
  have ok: "epoll_ok k interest" using assms(1) by (simp add: epoll_good_def)
  let ?op = "if epoll_watched interest e fd = AE_NONE then EPOLL_CTL_ADD else EPOLL_CTL_MOD"
  obtain r1 e1 where c: "epoll_ctl k ?op fd (epoll_events (msk OR epoll_watched interest e fd)) e = (r1, e1)" by fastforce
  have e: "e' = e1" "r1 \<noteq> -1" using assms(2,3) c by (auto simp: epoll_add_def Let_def split: if_splits)
  show ?thesis
  proof (cases "epoll_watched interest e fd = 0")
    case True
    then have "interest e fd = None" using epoll_good_None [OF assms(1)] by blast
    moreover have "epoll_ctl k EPOLL_CTL_ADD fd (epoll_events (epoll_watched interest e fd OR msk)) e = (r1, e1)"
      using c True by (simp add: or.commute)
    ultimately show ?thesis using epoll_okD(1) [OF ok] e by blast
  next
    case False
    then have "interest e fd \<noteq> None" using epoll_good_None [OF assms(1)] by blast
    moreover have "epoll_ctl k EPOLL_CTL_MOD fd (epoll_events (epoll_watched interest e fd OR msk)) e = (r1, e1)"
      using c False by (simp add: or.commute)
    ultimately show ?thesis using epoll_okD(2) [OF ok] e(1) by blast
  qed
qed

lemma epoll_del_interest:
  assumes "epoll_good k interest e" "epoll_watched interest e fd \<noteq> 0" "epoll_del k (epoll_watched interest e) fd msk e = Some e'"
  shows "interest e' = (if epoll_watched interest e fd AND NOT msk = 0 then (interest e)(fd := None)
    else (interest e)(fd \<mapsto> epoll_events (epoll_watched interest e fd AND NOT msk)))"
proof -
  have ok: "epoll_ok k interest" and some: "interest e fd \<noteq> None"
    using assms(1,2) epoll_good_None [OF assms(1)] by (simp_all add: epoll_good_def)
  let ?m = "epoll_watched interest e fd AND NOT msk"
  obtain r1 e1 where c: "epoll_ctl k (if ?m = 0 then EPOLL_CTL_DEL else EPOLL_CTL_MOD) fd (epoll_events ?m) e = (r1, e1)" by fastforce
  have e: "e' = e1" using assms(3) c by (auto simp: epoll_del_def Let_def split: if_splits)
  show ?thesis
  proof (cases "?m = 0")
    case True
    then have "epoll_ctl k EPOLL_CTL_DEL fd (epoll_events ?m) e = (r1, e1)" using c by simp
    then have "interest e1 = (interest e)(fd := None)" using epoll_okD(3) [OF ok] some by blast
    then show ?thesis using True e by simp
  next
    case False
    then have "epoll_ctl k EPOLL_CTL_MOD fd (epoll_events ?m) e = (r1, e1)" using c by simp
    then have "interest e1 = (interest e)(fd \<mapsto> epoll_events ?m)" using epoll_okD(2) [OF ok] some by blast
    then show ?thesis using False e by simp
  qed
qed

interpretation ep: registry "epoll_good k interest" "epoll_watched interest" "epoll_add k" "epoll_del k"
  for k :: "'e epoll_sys" and interest
proof
  fix e e' :: 'e and fd msk r :: int
  assume g: "epoll_good k interest e" and msk: "msk \<in> {1, 2, 3}"
  obtain rd wr where w: "epoll_watched interest e fd = mask_of rd wr" by (rule epoll_watched_mask)
  show "epoll_good k interest e' \<and> epoll_watched interest e' = (epoll_watched interest e)(fd := epoll_watched interest e fd OR msk)"
    if "epoll_add k (epoll_watched interest e) fd msk e = Some (r, e')" "r \<noteq> -1"
    using epoll_good_upd [OF g, of e' fd "rd \<or> msk AND AE_READABLE \<noteq> 0" "wr \<or> msk AND AE_WRITABLE \<noteq> 0"]
      epoll_add_interest [OF g that] msk
    unfolding w mask_of_or [OF msk] by (auto simp: AE_READABLE_def AE_WRITABLE_def)
  show "epoll_good k interest e' \<and> epoll_watched interest e' = (epoll_watched interest e)(fd := epoll_watched interest e fd AND NOT msk)"
    if "epoll_watched interest e fd \<noteq> 0" "epoll_del k (epoll_watched interest e) fd msk e = Some e'"
    using epoll_good_upd [OF g, of e' fd "rd \<and> msk AND AE_READABLE = 0" "wr \<and> msk AND AE_WRITABLE = 0"]
      epoll_good_clear [OF g, of e' fd] epoll_del_interest [OF g that]
    unfolding w mask_of_and_not [OF msk] by (auto simp: mask_of_simps split: if_splits)
qed

section \<open>kqueue\<close>

datatype kfilter = EVFILT_READ | EVFILT_WRITE
datatype kflag = EV_ADD | EV_DELETE

text \<open>\<open>kevent\<close> with one change, and \<open>kevent\<close> that waits for at most so many events.\<close>

record 'q kqueue_sys =
  kevent_change :: "int \<Rightarrow> kfilter \<Rightarrow> kflag \<Rightarrow> 'q \<Rightarrow> int \<times> 'q"
  kevent_wait :: "int \<Rightarrow> (int \<times> int) option \<Rightarrow> 'q \<Rightarrow> (int \<times> (int \<times> kfilter) list) \<times> 'q"

definition kqueue_add :: "'q kqueue_sys \<Rightarrow> masks \<Rightarrow> int \<Rightarrow> int \<Rightarrow> 'q \<Rightarrow> (int \<times> 'q) option" where
  "kqueue_add k ms fd msk q =
     (let (r, q) = (if msk AND AE_READABLE \<noteq> 0 then kevent_change k fd EVFILT_READ EV_ADD q else (0, q))
      in if r = -1 then Some (-1, q)
         else let (r, q) = (if msk AND AE_WRITABLE \<noteq> 0 then kevent_change k fd EVFILT_WRITE EV_ADD q else (0, q))
              in if r = -1 then Some (-1, q) else Some (0, q))"

definition kqueue_del :: "'q kqueue_sys \<Rightarrow> masks \<Rightarrow> int \<Rightarrow> int \<Rightarrow> 'q \<Rightarrow> 'q option" where
  "kqueue_del k ms fd msk q =
     (let q = (if msk AND AE_READABLE \<noteq> 0 then snd (kevent_change k fd EVFILT_READ EV_DELETE q) else q);
          q = (if msk AND AE_WRITABLE \<noteq> 0 then snd (kevent_change k fd EVFILT_WRITE EV_DELETE q) else q)
      in Some q)"

definition kqueue_fired :: "int \<times> kfilter \<Rightarrow> int \<times> int" where
  "kqueue_fired e = (fst e, case snd e of EVFILT_READ \<Rightarrow> AE_READABLE | EVFILT_WRITE \<Rightarrow> AE_WRITABLE)"

definition kqueue_poll :: "'q kqueue_sys \<Rightarrow> int \<Rightarrow> (int \<times> int) option \<Rightarrow> 'q \<Rightarrow> (int \<times> int) list \<times> 'q" where
  "kqueue_poll k n tvp q =
     (let ((retval, evs), q) = kevent_wait k n (map_option (\<lambda>(sec, usec). (sec, usec * 1000)) tvp) q
      in (if retval > 0 then map kqueue_fired (take (nat retval) evs) else [], q))"

text \<open>Adding a filter that is there changes nothing else and may fail; deleting one that is not there fails.\<close>

definition kqueue_ok :: "'q kqueue_sys \<Rightarrow> ('q \<Rightarrow> (int \<times> kfilter) set) \<Rightarrow> bool" where
  "kqueue_ok k filters \<longleftrightarrow>
     (\<forall>q fd f r q'. kevent_change k fd f EV_ADD q = (r, q') \<longrightarrow>
        r = 0 \<and> filters q' = insert (fd, f) (filters q) \<or> r = -1 \<and> filters q' = filters q) \<and>
     (\<forall>q fd f r q'. kevent_change k fd f EV_DELETE q = (r, q') \<longrightarrow> filters q' = filters q - {(fd, f)}) \<and>
     (\<forall>q n t r evs q'. kevent_wait k n t q = ((r, evs), q') \<longrightarrow>
        filters q' = filters q \<and> (0 < r \<longrightarrow> length evs = nat r \<and> r \<le> n) \<and> distinct evs \<and> set evs \<subseteq> filters q)"

definition kqueue_watched :: "('q \<Rightarrow> (int \<times> kfilter) set) \<Rightarrow> 'q \<Rightarrow> masks" where
  "kqueue_watched filters q fd = mask_of ((fd, EVFILT_READ) \<in> filters q) ((fd, EVFILT_WRITE) \<in> filters q)"

lemma kqueue_change:
  assumes ok: "kqueue_ok k filters"
  shows "kevent_change k fd f EV_ADD q = (r, q') \<Longrightarrow> r \<noteq> -1 \<Longrightarrow> filters q' = insert (fd, f) (filters q)"
    "filters (snd (kevent_change k fd f EV_DELETE q)) = filters q - {(fd, f)}"
proof -
  have "kevent_change k fd f EV_ADD q = (r, q') \<longrightarrow>
      r = 0 \<and> filters q' = insert (fd, f) (filters q) \<or> r = -1 \<and> filters q' = filters q"
    by (rule ok [unfolded kqueue_ok_def, THEN conjunct1, THEN spec, THEN spec, THEN spec, THEN spec, THEN spec])
  then show "kevent_change k fd f EV_ADD q = (r, q') \<Longrightarrow> r \<noteq> -1 \<Longrightarrow> filters q' = insert (fd, f) (filters q)" by auto
  have "kevent_change k fd f EV_DELETE q = (r, q') \<longrightarrow> filters q' = filters q - {(fd, f)}" for r q'
    by (rule ok [unfolded kqueue_ok_def, THEN conjunct2, THEN conjunct1, THEN spec, THEN spec, THEN spec, THEN spec, THEN spec])
  from this [of "fst (kevent_change k fd f EV_DELETE q)" "snd (kevent_change k fd f EV_DELETE q)"]
  show "filters (snd (kevent_change k fd f EV_DELETE q)) = filters q - {(fd, f)}" by simp
qed

lemma kqueue_add_filters:
  assumes "kqueue_ok k filters" "kqueue_add k ms fd msk q = Some (r, q')" "r \<noteq> -1"
  shows "filters q' = filters q \<union> (if msk AND AE_READABLE \<noteq> 0 then {(fd, EVFILT_READ)} else {})
    \<union> (if msk AND AE_WRITABLE \<noteq> 0 then {(fd, EVFILT_WRITE)} else {})"
proof -
  obtain r1 q1 where 1: "(if msk AND AE_READABLE \<noteq> 0 then kevent_change k fd EVFILT_READ EV_ADD q else (0, q)) = (r1, q1)" by fastforce
  obtain r2 q2 where 2: "(if msk AND AE_WRITABLE \<noteq> 0 then kevent_change k fd EVFILT_WRITE EV_ADD q1 else (0, q1)) = (r2, q2)" by fastforce
  have r: "r1 \<noteq> -1" "r2 \<noteq> -1" "q' = q2"
    using assms(2,3) 1 2 by (auto simp: kqueue_add_def split: if_splits)
  have "filters q1 = filters q \<union> (if msk AND AE_READABLE \<noteq> 0 then {(fd, EVFILT_READ)} else {})"
    using 1 r(1) kqueue_change(1) [OF assms(1), of fd EVFILT_READ q r1 q1] by (auto split: if_splits)
  moreover have "filters q2 = filters q1 \<union> (if msk AND AE_WRITABLE \<noteq> 0 then {(fd, EVFILT_WRITE)} else {})"
    using 2 r(2) kqueue_change(1) [OF assms(1), of fd EVFILT_WRITE q1 r2 q2] by (auto split: if_splits)
  ultimately show ?thesis using r(3) by simp
qed

lemma kqueue_del_filters:
  assumes "kqueue_ok k filters" "kqueue_del k ms fd msk q = Some q'"
  shows "filters q' = filters q - (if msk AND AE_READABLE \<noteq> 0 then {(fd, EVFILT_READ)} else {})
    - (if msk AND AE_WRITABLE \<noteq> 0 then {(fd, EVFILT_WRITE)} else {})"
proof -
  have "q' = (let q = (if msk AND AE_READABLE \<noteq> 0 then snd (kevent_change k fd EVFILT_READ EV_DELETE q) else q)
      in if msk AND AE_WRITABLE \<noteq> 0 then snd (kevent_change k fd EVFILT_WRITE EV_DELETE q) else q)"
    using assms(2) by (simp add: kqueue_del_def Let_def)
  then show ?thesis
    by (cases "msk AND AE_READABLE = 0"; cases "msk AND AE_WRITABLE = 0") (simp_all add: Let_def kqueue_change(2) [OF assms(1)])
qed

lemma kqueue_watched_add:
  assumes "filters q' = filters q \<union> (if msk AND AE_READABLE \<noteq> 0 then {(fd, EVFILT_READ)} else {})
    \<union> (if msk AND AE_WRITABLE \<noteq> 0 then {(fd, EVFILT_WRITE)} else {})" "msk \<in> {1, 2, 3}"
  shows "kqueue_watched filters q' = (kqueue_watched filters q)(fd := kqueue_watched filters q fd OR msk)"
proof
  fix x show "kqueue_watched filters q' x = ((kqueue_watched filters q)(fd := kqueue_watched filters q fd OR msk)) x"
    by (cases "x = fd") (simp_all add: kqueue_watched_def assms(1) mask_of_or [OF assms(2)])
qed

lemma kqueue_watched_del:
  assumes "filters q' = filters q - (if msk AND AE_READABLE \<noteq> 0 then {(fd, EVFILT_READ)} else {})
    - (if msk AND AE_WRITABLE \<noteq> 0 then {(fd, EVFILT_WRITE)} else {})" "msk \<in> {1, 2, 3}"
  shows "kqueue_watched filters q' = (kqueue_watched filters q)(fd := kqueue_watched filters q fd AND NOT msk)"
proof
  fix x show "kqueue_watched filters q' x = ((kqueue_watched filters q)(fd := kqueue_watched filters q fd AND NOT msk)) x"
    by (cases "x = fd") (simp_all add: kqueue_watched_def assms(1) mask_of_and_not [OF assms(2)])
qed

interpretation kq: registry "\<lambda>q. kqueue_ok k filters" "kqueue_watched filters" "kqueue_add k" "kqueue_del k"
  for k :: "'q kqueue_sys" and filters
proof
  fix q q' :: 'q and fd msk r :: int
  assume ok: "kqueue_ok k filters" and msk: "msk \<in> {1, 2, 3}"
  show "kqueue_ok k filters \<and> kqueue_watched filters q' = (kqueue_watched filters q)(fd := kqueue_watched filters q fd OR msk)"
    if "kqueue_add k (kqueue_watched filters q) fd msk q = Some (r, q')" "r \<noteq> -1"
    by (intro conjI ok kqueue_watched_add kqueue_add_filters [OF ok that] msk)
  show "kqueue_ok k filters \<and> kqueue_watched filters q' = (kqueue_watched filters q)(fd := kqueue_watched filters q fd AND NOT msk)"
    if "kqueue_del k (kqueue_watched filters q) fd msk q = Some q'"
    by (intro conjI ok kqueue_watched_del kqueue_del_filters [OF ok that] msk)
qed

section \<open>Event ports\<close>

definition POLLIN :: u32 where "POLLIN = 0x1"
definition POLLOUT :: u32 where "POLLOUT = 0x4"
definition MAX_EVENT_BATCHSZ :: nat where "MAX_EVENT_BATCHSZ = 512"

datatype port_errno = ETIME | Port_EINTR | Port_other

text \<open>\<open>port_getn\<close> gives its result, the error and the events: descriptor, \<open>portev_events\<close> and
  \<open>portev_user\<close>.\<close>

record 'p port_sys =
  port_associate :: "int \<Rightarrow> u32 \<Rightarrow> int \<Rightarrow> 'p \<Rightarrow> int \<times> 'p"
  port_dissociate :: "int \<Rightarrow> 'p \<Rightarrow> int \<times> 'p"
  port_getn :: "(int \<times> int) option \<Rightarrow> 'p \<Rightarrow> (int \<times> port_errno \<times> (int \<times> u32 \<times> int) list) \<times> 'p"

record 'p evport =
  portfd :: 'p
  npending :: nat
  pending_fds :: "int list"
  pending_masks :: "int list"

definition evport_create :: "'p \<Rightarrow> 'p evport" where
  "evport_create p = \<lparr>portfd = p, npending = 0, pending_fds = replicate MAX_EVENT_BATCHSZ (-1),
     pending_masks = replicate MAX_EVENT_BATCHSZ AE_NONE\<rparr>"

definition aeApiLookupPending :: "'p evport \<Rightarrow> int \<Rightarrow> nat option" where
  "aeApiLookupPending st fd = find (\<lambda>i. pending_fds st ! i = fd) [0..<npending st]"

definition aeApiAssociate :: "'p port_sys \<Rightarrow> int \<Rightarrow> int \<Rightarrow> 'p \<Rightarrow> int \<times> 'p" where
  "aeApiAssociate k fd msk p =
     (let events = 0;
          events = (if msk AND AE_READABLE \<noteq> 0 then events OR POLLIN else events);
          events = (if msk AND AE_WRITABLE \<noteq> 0 then events OR POLLOUT else events)
      in port_associate k fd events msk p)"

definition evport_add :: "'p port_sys \<Rightarrow> masks \<Rightarrow> int \<Rightarrow> int \<Rightarrow> 'p evport \<Rightarrow> (int \<times> 'p evport) option" where
  "evport_add k ms fd msk st =
     (let fullmask = msk OR ms fd
      in case aeApiLookupPending st fd of
           Some i \<Rightarrow> Some (0, st\<lparr>pending_masks := (pending_masks st)[i := pending_masks st ! i OR fullmask]\<rparr>)
         | None \<Rightarrow> let (rv, p) = aeApiAssociate k fd fullmask (portfd st) in Some (rv, st\<lparr>portfd := p\<rparr>))"

definition evport_del :: "'p port_sys \<Rightarrow> masks \<Rightarrow> int \<Rightarrow> int \<Rightarrow> 'p evport \<Rightarrow> 'p evport option" where
  "evport_del k ms fd msk st =
     (case aeApiLookupPending st fd of
        Some i \<Rightarrow>
          let m = pending_masks st ! i AND NOT msk;
              st = st\<lparr>pending_masks := (pending_masks st)[i := m]\<rparr>
          in Some (if m = AE_NONE then st\<lparr>pending_fds := (pending_fds st)[i := -1]\<rparr> else st)
      | None \<Rightarrow>
          let fullmask = ms fd;
              (rv, p) = (if fullmask = AE_NONE then port_dissociate k fd (portfd st)
                         else aeApiAssociate k fd fullmask (portfd st))
          in if rv \<noteq> 0 then None else Some (st\<lparr>portfd := p\<rparr>))"

text \<open>The first loop of \<open>aeApiPoll\<close>.\<close>

fun reassociate :: "'p port_sys \<Rightarrow> nat list \<Rightarrow> 'p evport \<Rightarrow> 'p evport option" where
  "reassociate k [] st = Some st"
| "reassociate k (i # is) st =
     (if pending_fds st ! i = -1 then reassociate k is st
      else let (rv, p) = aeApiAssociate k (pending_fds st ! i) (pending_masks st ! i) (portfd st)
           in if rv \<noteq> 0 then None
              else reassociate k is (st\<lparr>portfd := p, pending_masks := (pending_masks st)[i := AE_NONE],
                     pending_fds := (pending_fds st)[i := -1]\<rparr>))"

definition evport_fired :: "int \<times> u32 \<times> int \<Rightarrow> int \<times> int" where
  "evport_fired e =
     (let ev = fst (snd e); msk = 0;
          msk = (if ev AND POLLIN \<noteq> 0 then msk OR AE_READABLE else msk);
          msk = (if ev AND POLLOUT \<noteq> 0 then msk OR AE_WRITABLE else msk)
      in (fst e, msk))"

definition evport_poll :: "'p port_sys \<Rightarrow> (int \<times> int) option \<Rightarrow> 'p evport \<Rightarrow> ((int \<times> int) list \<times> 'p evport) option" where
  "evport_poll k tvp st =
     do { st \<leftarrow> reassociate k [0..<npending st] st;
          let st = st\<lparr>npending := 0\<rparr>;
          let ((rv, err, evs), p) = port_getn k (map_option (\<lambda>(sec, usec). (sec, usec * 1000)) tvp) (portfd st);
          let st = st\<lparr>portfd := p\<rparr>;
          if rv = -1 \<and> (err \<noteq> ETIME \<or> evs = [])
          then if err = ETIME \<or> err = Port_EINTR then Some ([], st) else None
          else do {
            guard (length evs \<le> MAX_EVENT_BATCHSZ);
            Some (map evport_fired evs,
              st\<lparr>npending := length evs,
                 pending_fds := map fst evs @ drop (length evs) (pending_fds st),
                 pending_masks := map (snd \<circ> snd) evs @ drop (length evs) (pending_masks st)\<rparr>) } }"

text \<open>
  The manual pages: an association is replaced by the next one, may be refused, and is gone when its
  event has been retrieved; the user value of an event is the one of its association. A call that fails
  with another error than \<open>ETIME\<close> has retrieved nothing.
\<close>

definition port_ok :: "'p port_sys \<Rightarrow> ('p \<Rightarrow> int \<Rightarrow> int option) \<Rightarrow> bool" where
  "port_ok k assoc \<longleftrightarrow>
     (\<forall>fd ev m p rv p'. port_associate k fd ev m p = (rv, p') \<longrightarrow>
        rv = 0 \<and> assoc p' = (assoc p)(fd \<mapsto> m) \<or> rv = -1 \<and> assoc p' = assoc p) \<and>
     (\<forall>fd p rv p'. port_dissociate k fd p = (rv, p') \<longrightarrow>
        rv = 0 \<and> assoc p' = (assoc p)(fd := None) \<or> rv = -1 \<and> assoc p' = assoc p) \<and>
     (\<forall>t p rv err evs p'. port_getn k t p = ((rv, err, evs), p') \<longrightarrow>
        distinct (map fst evs) \<and> length evs \<le> MAX_EVENT_BATCHSZ \<and> (rv = -1 \<and> err \<noteq> ETIME \<longrightarrow> evs = []) \<and>
        (\<forall>(fd, ev, m) \<in> set evs. 0 \<le> fd \<and> assoc p fd = Some m) \<and>
        assoc p' = restrict_map (assoc p) (- set (map fst evs)))"

text \<open>A descriptor is waited for through its association or through its entry in the pending tables.\<close>

definition evport_watched :: "('p \<Rightarrow> int \<Rightarrow> int option) \<Rightarrow> 'p evport \<Rightarrow> masks" where
  "evport_watched assoc st fd =
     (if fd < 0 then AE_NONE
      else case aeApiLookupPending st fd of
        Some i \<Rightarrow> pending_masks st ! i
      | None \<Rightarrow> (case assoc (portfd st) fd of None \<Rightarrow> AE_NONE | Some m \<Rightarrow> m))"

definition evport_good :: "'p port_sys \<Rightarrow> ('p \<Rightarrow> int \<Rightarrow> int option) \<Rightarrow> 'p evport \<Rightarrow> bool" where
  "evport_good k assoc st \<longleftrightarrow> port_ok k assoc
     \<and> npending st \<le> MAX_EVENT_BATCHSZ
     \<and> length (pending_fds st) = MAX_EVENT_BATCHSZ \<and> length (pending_masks st) = MAX_EVENT_BATCHSZ
     \<and> (\<forall>i < npending st. pending_fds st ! i = -1 \<or>
          0 \<le> pending_fds st ! i \<and> assoc (portfd st) (pending_fds st ! i) = None \<and> pending_masks st ! i \<in> {1, 2, 3}
          \<and> (\<forall>j < npending st. pending_fds st ! j = pending_fds st ! i \<longrightarrow> j = i))
     \<and> (\<forall>fd m. assoc (portfd st) fd = Some m \<longrightarrow> m \<in> {1, 2, 3})"

lemma port_okD:
  assumes ok: "port_ok k assoc"
  shows "aeApiAssociate k fd m p = (rv, p') \<Longrightarrow> rv = 0 \<and> assoc p' = (assoc p)(fd \<mapsto> m) \<or> rv = -1 \<and> assoc p' = assoc p"
    "port_dissociate k fd p = (rv, p') \<Longrightarrow> rv = 0 \<and> assoc p' = (assoc p)(fd := None) \<or> rv = -1 \<and> assoc p' = assoc p"
    "port_getn k t p = ((rv, err, evs), p') \<Longrightarrow> distinct (map fst evs) \<and> length evs \<le> MAX_EVENT_BATCHSZ
       \<and> (rv = -1 \<and> err \<noteq> ETIME \<longrightarrow> evs = []) \<and> (\<forall>(fd, ev, m) \<in> set evs. 0 \<le> fd \<and> assoc p fd = Some m)
       \<and> assoc p' = restrict_map (assoc p) (- set (map fst evs))"
proof -
  show "rv = 0 \<and> assoc p' = (assoc p)(fd \<mapsto> m) \<or> rv = -1 \<and> assoc p' = assoc p" if "aeApiAssociate k fd m p = (rv, p')"
    using ok [unfolded port_ok_def, THEN conjunct1, THEN spec, THEN spec, THEN spec, THEN spec, THEN spec, THEN spec, THEN mp] that
    unfolding aeApiAssociate_def Let_def by blast
  show "rv = 0 \<and> assoc p' = (assoc p)(fd := None) \<or> rv = -1 \<and> assoc p' = assoc p" if "port_dissociate k fd p = (rv, p')"
    by (rule ok [unfolded port_ok_def, THEN conjunct2, THEN conjunct1, THEN spec, THEN spec, THEN spec, THEN spec, THEN mp, OF that])
  show "distinct (map fst evs) \<and> length evs \<le> MAX_EVENT_BATCHSZ \<and> (rv = -1 \<and> err \<noteq> ETIME \<longrightarrow> evs = [])
      \<and> (\<forall>(fd, ev, m) \<in> set evs. 0 \<le> fd \<and> assoc p fd = Some m) \<and> assoc p' = restrict_map (assoc p) (- set (map fst evs))"
    if "port_getn k t p = ((rv, err, evs), p')"
    by (rule ok [unfolded port_ok_def, THEN conjunct2, THEN conjunct2, THEN spec, THEN spec, THEN spec, THEN spec, THEN spec, THEN spec, THEN mp, OF that])
qed

text \<open>The parts of the invariant.\<close>

lemma evport_goodD:
  assumes "evport_good k assoc st"
  shows "port_ok k assoc" "npending st \<le> MAX_EVENT_BATCHSZ"
    "length (pending_fds st) = MAX_EVENT_BATCHSZ" "length (pending_masks st) = MAX_EVENT_BATCHSZ"
    "i < npending st \<Longrightarrow> pending_fds st ! i \<noteq> -1 \<Longrightarrow> 0 \<le> pending_fds st ! i"
    "i < npending st \<Longrightarrow> pending_fds st ! i \<noteq> -1 \<Longrightarrow> assoc (portfd st) (pending_fds st ! i) = None"
    "i < npending st \<Longrightarrow> pending_fds st ! i \<noteq> -1 \<Longrightarrow> pending_masks st ! i \<in> {1, 2, 3}"
    "i < npending st \<Longrightarrow> j < npending st \<Longrightarrow> pending_fds st ! i \<noteq> -1 \<Longrightarrow> pending_fds st ! j = pending_fds st ! i \<Longrightarrow> j = i"
    "assoc (portfd st) fd = Some m \<Longrightarrow> m \<in> {1, 2, 3}"
  using assms unfolding evport_good_def by blast+

lemma evport_goodI:
  assumes "port_ok k assoc" "npending st \<le> MAX_EVENT_BATCHSZ"
    "length (pending_fds st) = MAX_EVENT_BATCHSZ" "length (pending_masks st) = MAX_EVENT_BATCHSZ"
    "\<And>i. i < npending st \<Longrightarrow> pending_fds st ! i \<noteq> -1 \<Longrightarrow>
       0 \<le> pending_fds st ! i \<and> assoc (portfd st) (pending_fds st ! i) = None \<and> pending_masks st ! i \<in> {1, 2, 3}"
    "\<And>i j. i < npending st \<Longrightarrow> j < npending st \<Longrightarrow> pending_fds st ! i \<noteq> -1 \<Longrightarrow> pending_fds st ! j = pending_fds st ! i \<Longrightarrow> j = i"
    "\<And>fd m. assoc (portfd st) fd = Some m \<Longrightarrow> m \<in> {1, 2, 3}"
  shows "evport_good k assoc st"
  unfolding evport_good_def using assms by blast

lemma lookup_pending:
  "aeApiLookupPending st fd = Some i \<Longrightarrow> i < npending st \<and> pending_fds st ! i = fd"
  "aeApiLookupPending st fd = None \<longleftrightarrow> (\<forall>i < npending st. pending_fds st ! i \<noteq> fd)"
  by (auto simp: aeApiLookupPending_def find_Some_iff find_None_iff)

lemma evport_watched_pending:
  assumes "evport_good k assoc st" "i < npending st" "pending_fds st ! i = fd" "0 \<le> fd"
  shows "evport_watched assoc st fd = pending_masks st ! i"
proof (cases "aeApiLookupPending st fd")
  case None
  then show ?thesis using assms(2,3) lookup_pending(2) by blast
next
  case (Some j)
  have "j = i" using lookup_pending(1) [OF Some] evport_goodD(8) [OF assms(1,2), of j] assms(3,4) by auto
  then show ?thesis using Some assms(4) by (simp add: evport_watched_def)
qed

lemma evport_watched_assoc:
  assumes "\<forall>i < npending st. pending_fds st ! i \<noteq> fd" "0 \<le> fd"
  shows "evport_watched assoc st fd = (case assoc (portfd st) fd of None \<Rightarrow> 0 | Some m \<Rightarrow> m)"
  using assms lookup_pending(2) [of st fd] by (simp add: evport_watched_def split: option.split)

lemma evport_watched_cong:
  assumes "\<And>fd. 0 \<le> fd \<Longrightarrow> evport_watched assoc st' fd = f fd" "\<And>fd. fd < 0 \<Longrightarrow> f fd = 0"
  shows "evport_watched assoc st' = f"
proof
  fix fd show "evport_watched assoc st' fd = f fd"
    using assms by (cases "0 \<le> fd") (simp_all add: evport_watched_def)
qed

lemma evport_watched_neg: "fd < 0 \<Longrightarrow> evport_watched assoc st fd = 0"
  by (simp add: evport_watched_def)

text \<open>A new association of a descriptor that is not pending.\<close>

lemma evport_associated:
  assumes g: "evport_good k assoc st" and fd: "0 \<le> fd" and np: "\<forall>i < npending st. pending_fds st ! i \<noteq> fd"
    and p: "assoc p = (assoc (portfd st))(fd := v)" "v \<in> {None, Some 1, Some 2, Some 3}"
  shows "evport_good k assoc (st\<lparr>portfd := p\<rparr>) \<and>
    evport_watched assoc (st\<lparr>portfd := p\<rparr>) = (evport_watched assoc st)(fd := (case v of None \<Rightarrow> 0 | Some m \<Rightarrow> m))"
proof
  let ?st = "st\<lparr>portfd := p\<rparr>"
  show "evport_good k assoc ?st"
  proof (rule evport_goodI)
    fix i assume i: "i < npending ?st" "pending_fds ?st ! i \<noteq> -1"
    then have "pending_fds st ! i \<noteq> fd" using np by simp
    then show "0 \<le> pending_fds ?st ! i \<and> assoc (portfd ?st) (pending_fds ?st ! i) = None \<and> pending_masks ?st ! i \<in> {1, 2, 3}"
      using i evport_goodD(5-7) [OF g, of i] by (simp add: p(1))
  next
    fix x m assume "assoc (portfd ?st) x = Some m"
    then show "m \<in> {1, 2, 3}" using p evport_goodD(9) [OF g, of x m] by (auto split: if_splits)
  qed (use evport_goodD(1-4) [OF g] evport_goodD(8) [OF g] in simp_all)
  show "evport_watched assoc ?st = (evport_watched assoc st)(fd := (case v of None \<Rightarrow> 0 | Some m \<Rightarrow> m))"
  proof (rule evport_watched_cong)
    fix x :: int assume x: "0 \<le> x"
    show "evport_watched assoc ?st x = ((evport_watched assoc st)(fd := (case v of None \<Rightarrow> 0 | Some m \<Rightarrow> m))) x"
    proof (cases "x = fd")
      case True
      then show ?thesis using evport_watched_assoc [of ?st fd assoc] np fd p(1) by simp
    next
      case False
      then show ?thesis using x by (simp add: evport_watched_def aeApiLookupPending_def p(1) split: option.split)
    qed
  qed (use fd in \<open>auto simp: evport_watched_neg\<close>)
qed

text \<open>A change of the mask of a pending descriptor; without a mask its entry is dropped.\<close>

lemma evport_pending_mask:
  assumes g: "evport_good k assoc st" and i: "i < npending st" "pending_fds st ! i = fd" "0 \<le> fd"
    and m: "m \<in> {0, 1, 2, 3}"
    and st': "st' = st\<lparr>pending_masks := (pending_masks st)[i := m],
      pending_fds := (if m = 0 then (pending_fds st)[i := -1] else pending_fds st)\<rparr>"
  shows "evport_good k assoc st' \<and> evport_watched assoc st' = (evport_watched assoc st)(fd := m)"
proof
  have len: "i < length (pending_fds st)" "i < length (pending_masks st)"
    using i(1) evport_goodD(2-4) [OF g] by simp_all
  have f: "pending_fds st' ! j = (if m = 0 \<and> j = i then -1 else pending_fds st ! j)" for j
    using len by (simp add: st' nth_list_update)
  have ms: "pending_masks st' ! j = (if j = i then m else pending_masks st ! j)" for j
    using len by (simp add: st' nth_list_update)
  have np: "npending st' = npending st" "portfd st' = portfd st" by (simp_all add: st')
  show g': "evport_good k assoc st'"
  proof (rule evport_goodI)
    fix j assume j: "j < npending st'" "pending_fds st' ! j \<noteq> -1"
    then have j': "j < npending st" "pending_fds st ! j \<noteq> -1" "\<not> (m = 0 \<and> j = i)" by (auto simp: f np split: if_splits)
    then show "0 \<le> pending_fds st' ! j \<and> assoc (portfd st') (pending_fds st' ! j) = None \<and> pending_masks st' ! j \<in> {1, 2, 3}"
      using evport_goodD(5-7) [OF g j'(1,2)] m by (auto simp: f ms np)
  next
    fix j l assume "j < npending st'" "l < npending st'" "pending_fds st' ! j \<noteq> -1" "pending_fds st' ! l = pending_fds st' ! j"
    then show "l = j" using evport_goodD(8) [OF g, of j l] by (auto simp: f np split: if_splits)
  next
    fix x v assume "assoc (portfd st') x = Some v"
    then show "v \<in> {1, 2, 3}" using evport_goodD(9) [OF g, of x v] by (simp add: np)
  qed (use evport_goodD(1-4) [OF g] in \<open>simp_all add: st'\<close>)
  show "evport_watched assoc st' = (evport_watched assoc st)(fd := m)"
  proof (rule evport_watched_cong)
    fix x :: int assume x: "0 \<le> x"
    consider "x = fd" "m \<noteq> 0" | "x = fd" "m = 0" | j where "x \<noteq> fd" "j < npending st" "pending_fds st ! j = x"
      | "x \<noteq> fd" "\<forall>j < npending st. pending_fds st ! j \<noteq> x" by blast
    then show "evport_watched assoc st' x = ((evport_watched assoc st)(fd := m)) x"
    proof cases
      case 1
      then show ?thesis using evport_watched_pending [OF g', of i fd] i by (simp add: f ms np)
    next
      case 2
      have "pending_fds st' ! j \<noteq> fd" if "j < npending st'" for j
        using evport_goodD(8) [OF g i(1), of j] that i(2,3) 2(2) by (auto simp: f np)
      moreover have "assoc (portfd st') fd = None"
        using evport_goodD(6) [OF g i(1)] i(2,3) by (simp add: np)
      ultimately show ?thesis using evport_watched_assoc [of st' fd assoc] i(3) 2 by simp
    next
      case (3 j)
      then have "j \<noteq> i" using i(2) by auto
      then show ?thesis
        using 3 x evport_watched_pending [OF g', of j x] evport_watched_pending [OF g 3(2,3) x] by (simp add: f ms np)
    next
      case 4
      have "\<forall>j < npending st'. pending_fds st' ! j \<noteq> x" using 4 x by (simp add: f np)
      then show ?thesis
        using 4 x evport_watched_assoc [of st' x assoc] evport_watched_assoc [of st x assoc] by (simp add: np)
    qed
  qed (use i(3) in \<open>auto simp: evport_watched_neg\<close>)
qed

lemma evport_watched_range:
  assumes "evport_good k assoc st"
  shows "evport_watched assoc st fd \<in> {0, 1, 2, 3}"
proof (cases "fd < 0")
  case False
  show ?thesis
  proof (cases "\<exists>i < npending st. pending_fds st ! i = fd")
    case True
    then obtain i where i: "i < npending st" "pending_fds st ! i = fd" by blast
    then show ?thesis
      using evport_watched_pending [OF assms i] evport_goodD(7) [OF assms i(1)] False by auto
  next
    case none: False
    have "assoc (portfd st) fd \<in> {None, Some 1, Some 2, Some 3}"
      using evport_goodD(9) [OF assms, of fd] by (cases "assoc (portfd st) fd") auto
    then show ?thesis using evport_watched_assoc [of st fd assoc] none False by auto
  qed
qed (simp add: evport_watched_neg)

lemma mask_absorb:
  "w \<in> {0, 1, 2, 3 :: int} \<Longrightarrow> msk \<in> {1, 2, 3} \<Longrightarrow> w OR (msk OR w) = w OR msk \<and> msk OR w = w OR msk \<and> w OR msk \<in> {1, 2, 3}"
  "w \<in> {0, 1, 2, 3 :: int} \<Longrightarrow> msk \<in> {1, 2, 3} \<Longrightarrow> w AND NOT msk \<in> {0, 1, 2, 3}"
  by auto

text \<open>\<open>aeApiDelEvent\<close> as its comment wants it called: with the mask of the table already changed.\<close>

definition evport_del_after :: "'p port_sys \<Rightarrow> masks \<Rightarrow> int \<Rightarrow> int \<Rightarrow> 'p evport \<Rightarrow> 'p evport option" where
  "evport_del_after k ms fd msk st = evport_del k (ms(fd := ms fd AND NOT msk)) fd msk st"

lemma evport_add_watched:
  assumes g: "evport_good k assoc st" and fd: "0 \<le> fd" and msk: "msk \<in> {1, 2, 3}"
    and a: "evport_add k (evport_watched assoc st) fd msk st = Some (r, st')" "r \<noteq> -1"
  shows "evport_good k assoc st' \<and> evport_watched assoc st' = (evport_watched assoc st)(fd := evport_watched assoc st fd OR msk)"
proof (cases "aeApiLookupPending st fd")
  case None
  note w = mask_absorb(1) [OF evport_watched_range [OF g, of fd] msk]
  obtain rv p where p: "aeApiAssociate k fd (msk OR evport_watched assoc st fd) (portfd st) = (rv, p)" by fastforce
  have st': "st' = st\<lparr>portfd := p\<rparr>" "rv \<noteq> -1" using a None p by (auto simp: evport_add_def)
  have "assoc p = (assoc (portfd st))(fd := Some (evport_watched assoc st fd OR msk))"
    using port_okD(1) [OF evport_goodD(1) [OF g] p] st'(2) w by simp
  then show ?thesis
    using evport_associated [OF g fd, of p "Some (evport_watched assoc st fd OR msk)"] lookup_pending(2) [of st fd] None w
    unfolding st'(1) by auto
next
  case (Some i)
  note i = lookup_pending(1) [OF Some]
  have w: "evport_watched assoc st fd = pending_masks st ! i" by (rule evport_watched_pending [OF g]) (use i fd in auto)
  note m = mask_absorb(1) [OF evport_watched_range [OF g, of fd] msk]
  have "st' = st\<lparr>pending_masks := (pending_masks st)[i := evport_watched assoc st fd OR msk]\<rparr>"
    using a Some m by (auto simp: evport_add_def w Let_def)
  then show ?thesis using evport_pending_mask [OF g _ _ fd, of i "evport_watched assoc st fd OR msk" st'] i m by auto
qed

lemma evport_del_watched:
  assumes g: "evport_good k assoc st" and fd: "0 \<le> fd" and msk: "msk \<in> {1, 2, 3}"
    and d: "evport_del_after k (evport_watched assoc st) fd msk st = Some st'"
  shows "evport_good k assoc st' \<and> evport_watched assoc st' = (evport_watched assoc st)(fd := evport_watched assoc st fd AND NOT msk)"
proof (cases "aeApiLookupPending st fd")
  case None
  let ?m = "evport_watched assoc st fd AND NOT msk"
  note m = mask_absorb(2) [OF evport_watched_range [OF g, of fd] msk]
  obtain rv p where p: "(if ?m = 0 then port_dissociate k fd (portfd st) else aeApiAssociate k fd ?m (portfd st)) = (rv, p)" by fastforce
  have st': "st' = st\<lparr>portfd := p\<rparr>" "rv = 0"
    using d None p by (auto simp: evport_del_after_def evport_del_def Let_def split: if_splits)
  have "assoc p = (assoc (portfd st))(fd := (if ?m = 0 then None else Some ?m))"
    using port_okD(1) [OF evport_goodD(1) [OF g], of fd ?m "portfd st" rv p]
      port_okD(2) [OF evport_goodD(1) [OF g], of fd "portfd st" rv p] p st'(2) by (auto split: if_splits)
  then show ?thesis
    using evport_associated [OF g fd, of p "if ?m = 0 then None else Some ?m"] lookup_pending(2) [of st fd] None m
    unfolding st'(1) by auto
next
  case (Some i)
  note i = lookup_pending(1) [OF Some]
  have w: "evport_watched assoc st fd = pending_masks st ! i" by (rule evport_watched_pending [OF g]) (use i fd in auto)
  note m = mask_absorb(2) [OF evport_watched_range [OF g, of fd] msk]
  have "st' = st\<lparr>pending_masks := (pending_masks st)[i := evport_watched assoc st fd AND NOT msk],
      pending_fds := (if evport_watched assoc st fd AND NOT msk = 0 then (pending_fds st)[i := -1] else pending_fds st)\<rparr>"
    using d Some by (auto simp: evport_del_after_def evport_del_def w Let_def)
  then show ?thesis using evport_pending_mask [OF g _ _ fd m, of i st'] i by auto
qed

interpretation evp: registry "evport_good k assoc" "evport_watched assoc" "evport_add k" "evport_del_after k"
  for k :: "'p port_sys" and assoc
  apply unfold_locales
  subgoal by (rule evport_add_watched)
  subgoal by (rule evport_del_watched)
  done

section \<open>Polling an event port\<close>

text \<open>One step of the first loop: the descriptor moves from the tables to an association.\<close>

lemma evport_reassociate_one:
  assumes g: "evport_good k assoc st" and i: "i < npending st" "pending_fds st ! i \<noteq> -1"
    and p: "aeApiAssociate k (pending_fds st ! i) (pending_masks st ! i) (portfd st) = (0, p)"
    and st': "st' = st\<lparr>portfd := p, pending_masks := (pending_masks st)[i := AE_NONE], pending_fds := (pending_fds st)[i := -1]\<rparr>"
  shows "evport_good k assoc st' \<and> evport_watched assoc st' = evport_watched assoc st"
proof -
  let ?fd = "pending_fds st ! i" and ?m = "pending_masks st ! i"
  let ?st0 = "st\<lparr>pending_masks := (pending_masks st)[i := 0], pending_fds := (pending_fds st)[i := -1]\<rparr>"
  have fd: "0 \<le> ?fd" by (rule evport_goodD(5) [OF g i])
  have w: "evport_watched assoc st ?fd = ?m" by (rule evport_watched_pending [OF g i(1) refl fd])
  have 0: "evport_good k assoc ?st0" "evport_watched assoc ?st0 = (evport_watched assoc st)(?fd := 0)"
    using evport_pending_mask [OF g i(1) refl fd, of 0 ?st0] by simp_all
  have np: "\<forall>j < npending ?st0. pending_fds ?st0 ! j \<noteq> ?fd"
    using evport_goodD(8) [OF g i(1) _ i(2)] evport_goodD(2,3) [OF g] i by (auto simp: nth_list_update)
  have "assoc p = (assoc (portfd ?st0))(?fd := Some ?m)"
    using port_okD(1) [OF evport_goodD(1) [OF g] p] by simp
  then have "evport_good k assoc (?st0\<lparr>portfd := p\<rparr>) \<and>
      evport_watched assoc (?st0\<lparr>portfd := p\<rparr>) = (evport_watched assoc ?st0)(?fd := ?m)"
    using evport_associated [OF 0(1) fd np, of p "Some ?m"] evport_goodD(7) [OF g i] by auto
  moreover have "st' = ?st0\<lparr>portfd := p\<rparr>" by (simp add: st')
  moreover have "(evport_watched assoc st)(?fd := ?m) = evport_watched assoc st" using w by (simp add: fun_upd_idem)
  ultimately show ?thesis by (simp only: 0(2) fun_upd_upd)
qed

lemma reassociate_keeps:
  "evport_good k assoc st \<Longrightarrow> set is \<subseteq> {..<npending st} \<Longrightarrow> reassociate k is st = Some st' \<Longrightarrow>
   evport_good k assoc st' \<and> evport_watched assoc st' = evport_watched assoc st \<and> npending st' = npending st
   \<and> (\<forall>i \<in> set is. pending_fds st' ! i = -1) \<and> (\<forall>i < npending st. pending_fds st ! i = -1 \<longrightarrow> pending_fds st' ! i = -1)"
proof (induction "is" arbitrary: st)
  case (Cons i "is")
  have i: "i < npending st" using Cons.prems(2) by simp
  show ?case
  proof (cases "pending_fds st ! i = -1")
    case True
    then show ?thesis using Cons.IH [of st] Cons.prems i by simp
  next
    case False
    obtain rv p where p: "aeApiAssociate k (pending_fds st ! i) (pending_masks st ! i) (portfd st) = (rv, p)" by fastforce
    let ?st = "st\<lparr>portfd := p, pending_masks := (pending_masks st)[i := AE_NONE], pending_fds := (pending_fds st)[i := -1]\<rparr>"
    have r: "rv = 0" "reassociate k is ?st = Some st'"
      using Cons.prems(3) False p by (auto split: if_splits)
    have g: "evport_good k assoc ?st \<and> evport_watched assoc ?st = evport_watched assoc st"
      by (rule evport_reassociate_one [OF Cons.prems(1) i False _ refl]) (use p r(1) in simp)
    have len: "i < length (pending_fds st)" using i evport_goodD(2,3) [OF Cons.prems(1)] by simp
    have ih: "evport_good k assoc st' \<and> evport_watched assoc st' = evport_watched assoc ?st \<and> npending st' = npending ?st
        \<and> (\<forall>i \<in> set is. pending_fds st' ! i = -1) \<and> (\<forall>i < npending ?st. pending_fds ?st ! i = -1 \<longrightarrow> pending_fds st' ! i = -1)"
      by (rule Cons.IH) (use g r(2) Cons.prems(2) in simp_all)
    have "pending_fds st' ! i = -1" using ih i len by simp
    moreover have "pending_fds ?st ! j = -1" if "pending_fds st ! j = -1" for j
      using that len by (cases "j = i") simp_all
    ultimately show ?thesis using ih g by simp
  qed
qed simp

lemma evport_emptied:
  assumes g: "evport_good k assoc st" and e: "\<forall>i < npending st. pending_fds st ! i = -1"
  shows "evport_good k assoc (st\<lparr>npending := 0\<rparr>)" "evport_watched assoc (st\<lparr>npending := 0\<rparr>) = evport_watched assoc st"
proof -
  show "evport_good k assoc (st\<lparr>npending := 0\<rparr>)"
    by (rule evport_goodI) (use evport_goodD(1-4,9) [OF g] in simp_all)
  show "evport_watched assoc (st\<lparr>npending := 0\<rparr>) = evport_watched assoc st"
  proof (rule evport_watched_cong)
    fix fd :: int assume fd: "0 \<le> fd"
    then have "\<forall>i < npending st. pending_fds st ! i \<noteq> fd" using e by auto
    then show "evport_watched assoc (st\<lparr>npending := 0\<rparr>) fd = evport_watched assoc st fd"
      using evport_watched_assoc [of "st\<lparr>npending := 0\<rparr>" fd assoc] evport_watched_assoc [of st fd assoc] fd by simp
  qed (simp add: evport_watched_neg)
qed

text \<open>The events that were retrieved become pending.\<close>

lemma evport_retrieved:
  assumes g: "evport_good k assoc st" and np: "npending st = 0"
    and evs: "distinct (map fst evs)" "length evs \<le> MAX_EVENT_BATCHSZ"
      "\<forall>(fd, ev, m) \<in> set evs. 0 \<le> fd \<and> assoc (portfd st) fd = Some m"
      "assoc p = restrict_map (assoc (portfd st)) (- set (map fst evs))"
    and st': "st' = st\<lparr>portfd := p, npending := length evs, pending_fds := map fst evs @ drop (length evs) (pending_fds st),
      pending_masks := map (snd \<circ> snd) evs @ drop (length evs) (pending_masks st)\<rparr>"
  shows "evport_good k assoc st'" "evport_watched assoc st' = evport_watched assoc st"
proof -
  have n: "npending st' = length evs" "portfd st' = p" by (simp_all add: st')
  have f: "pending_fds st' ! i = fst (evs ! i)" "pending_masks st' ! i = snd (snd (evs ! i))" if "i < length evs" for i
    using that by (simp_all add: st' nth_append)
  have e: "0 \<le> fst (evs ! i)" "assoc (portfd st) (fst (evs ! i)) = Some (snd (snd (evs ! i)))" if "i < length evs" for i
    using bspec [OF evs(3) nth_mem [OF that]] by (simp_all add: case_prod_beta)
  have u: "j = i" if "i < length evs" "j < length evs" "fst (evs ! j) = fst (evs ! i)" for i j
    using that nth_eq_iff_index_eq [OF evs(1), of i j] by simp
  show g': "evport_good k assoc st'"
  proof (rule evport_goodI)
    fix i assume i: "i < npending st'"
    then show "0 \<le> pending_fds st' ! i \<and> assoc (portfd st') (pending_fds st' ! i) = None \<and> pending_masks st' ! i \<in> {1, 2, 3}"
      using e [of i] f [of i] evport_goodD(9) [OF g e(2) [of i]] by (simp add: n evs(4))
  next
    fix x m assume "assoc (portfd st') x = Some m"
    then show "m \<in> {1, 2, 3}" using evport_goodD(9) [OF g, of x m] by (auto simp: n evs(4) restrict_map_def split: if_splits)
  next
    fix i j assume ij: "i < npending st'" "j < npending st'" "pending_fds st' ! j = pending_fds st' ! i"
    then show "j = i" using f(1) [of i] f(1) [of j] u [of i j] by (simp add: n)
  qed (use evport_goodD(1-4) [OF g] evs(2) in \<open>simp_all add: st'\<close>)
  show "evport_watched assoc st' = evport_watched assoc st"
  proof (rule evport_watched_cong)
    fix fd :: int assume fd: "0 \<le> fd"
    have old: "evport_watched assoc st fd = (case assoc (portfd st) fd of None \<Rightarrow> 0 | Some m \<Rightarrow> m)"
      by (rule evport_watched_assoc) (use np fd in simp_all)
    show "evport_watched assoc st' fd = evport_watched assoc st fd"
    proof (cases "\<exists>i < length evs. fst (evs ! i) = fd")
      case True
      then obtain i where i: "i < length evs" "fst (evs ! i) = fd" by blast
      then show ?thesis using evport_watched_pending [OF g', of i fd] f [OF i(1)] e [OF i(1)] old fd by (simp add: n)
    next
      case False
      then have "fst x \<noteq> fd" if "x \<in> set evs" for x using that unfolding in_set_conv_nth by blast
      then have "fd \<notin> set (map fst evs)" unfolding set_map by blast
      moreover have "\<forall>i < npending st'. pending_fds st' ! i \<noteq> fd" using False f(1) by (auto simp: n)
      ultimately show ?thesis using evport_watched_assoc [of st' fd assoc] fd old by (simp add: n evs(4) restrict_map_def)
    qed
  qed (simp add: evport_watched_neg)
qed

lemma evport_poll_keeps:
  assumes g: "evport_good k assoc st" and p: "evport_poll k tvp st = Some (evs, st')"
  shows "evport_good k assoc st' \<and> evport_watched assoc st' = evport_watched assoc st
    \<and> (\<forall>(fd, m) \<in> set evs. evport_watched assoc st fd \<noteq> 0 \<and> aeApiLookupPending st' fd \<noteq> None)"
proof -
  obtain st1 where st1: "reassociate k [0..<npending st] st = Some st1"
    using p by (auto simp: evport_poll_def bind_eq_Some_conv)
  have r: "evport_good k assoc st1" "evport_watched assoc st1 = evport_watched assoc st" "\<forall>i < npending st1. pending_fds st1 ! i = -1"
    using reassociate_keeps [OF g _ st1] by (simp_all add: lessThan_atLeast0 [symmetric] atLeast0LessThan)
  let ?st2 = "st1\<lparr>npending := 0\<rparr>"
  note e = evport_emptied [OF r(1,3)]
  obtain rv err ev q where q: "port_getn k (map_option (\<lambda>(sec, usec). (sec, usec * 1000)) tvp) (portfd st1) = ((rv, err, ev), q)"
    by (metis prod.exhaust_sel)
  note ok = port_okD(3) [OF evport_goodD(1) [OF g] q]
  let ?st3 = "st1\<lparr>portfd := q, npending := length ev, pending_fds := map fst ev @ drop (length ev) (pending_fds st1),
      pending_masks := map (snd \<circ> snd) ev @ drop (length ev) (pending_masks st1)\<rparr>"
  have st3: "evport_good k assoc ?st3" "evport_watched assoc ?st3 = evport_watched assoc st"
    using evport_retrieved [OF e(1), of ev q ?st3] ok e(2) r(2) by simp_all
  show ?thesis
  proof (cases "rv = -1 \<and> (err \<noteq> ETIME \<or> ev = [])")
    case True
    then have ev: "ev = []" using ok by blast
    have "evs = []" "st' = st1\<lparr>npending := 0, portfd := q\<rparr>"
      using p True by (auto simp: evport_poll_def st1 q Let_def split: if_splits)
    moreover have "?st3 = st1\<lparr>npending := 0, portfd := q\<rparr>" by (simp add: ev)
    ultimately show ?thesis using st3 by simp
  next
    case False
    then have st': "evs = map evport_fired ev" "st' = ?st3"
      using p by (auto simp: evport_poll_def st1 q Let_def bind_eq_Some_conv split: if_splits)
    have "evport_watched assoc st fd \<noteq> 0 \<and> aeApiLookupPending ?st3 fd \<noteq> None" if "(fd, m) \<in> set evs" for fd m
    proof -
      have "(fd, m) \<in> evport_fired ` set ev" using that st'(1) by simp
      then obtain x where x: "x \<in> set ev" "fd = fst x" unfolding evport_fired_def Let_def by blast
      obtain i where i: "i < length ev" "fd = fst (ev ! i)" using x unfolding in_set_conv_nth by blast
      have "pending_fds ?st3 ! i = fd" "i < npending ?st3" using i by (simp_all add: nth_append)
      moreover have "0 \<le> fd" using ok i nth_mem [OF i(1)] by (auto simp: case_prod_beta)
      ultimately show ?thesis
        using evport_watched_pending [OF st3(1), of i fd] evport_goodD(7) [OF st3(1), of i] st3(2)
          lookup_pending(2) [of ?st3 fd] by fastforce
    qed
    then show ?thesis using st3 st'(2) by blast
  qed
qed

section \<open>Polling epoll and kqueue\<close>

text \<open>What is reported is registered, and reported once (\<open>kqueue\<close>: once for each direction). A hang-up
  becomes \<open>AE_WRITABLE\<close> even where only reading is registered: then no callback matches it.\<close>

lemma epoll_poll_reports:
  assumes g: "epoll_good k interest e" and p: "epoll_poll k n tvp e = (evs, e')"
  shows "epoll_good k interest e' \<and> epoll_watched interest e' = epoll_watched interest e \<and> distinct (map fst evs)
    \<and> (\<forall>(fd, m) \<in> set evs. epoll_watched interest e fd \<noteq> 0)"
proof -
  have ok: "epoll_ok k interest" using g by (simp add: epoll_good_def)
  obtain r ev e1 where w: "epoll_wait k n (epoll_timeout tvp) e = ((r, ev), e1)" by (metis prod.exhaust_sel)
  have l: "interest e1 = interest e \<and> (0 < r \<longrightarrow> length ev = nat r \<and> r \<le> n) \<and> distinct (map fst ev) \<and>
      (\<forall>(fd, v) \<in> set ev. \<exists>w. interest e fd = Some w \<and> v \<noteq> 0 \<and> v AND NOT (w OR EPOLLERR OR EPOLLHUP) = 0)"
    by (rule ok [unfolded epoll_ok_def, THEN conjunct2, THEN conjunct2, THEN conjunct2,
        THEN spec, THEN spec, THEN spec, THEN spec, THEN spec, THEN spec, THEN mp, OF w])
  have e: "e' = e1" "evs = (if r > 0 then map epoll_fired (take (nat r) ev) else [])"
    using p w by (auto simp: epoll_poll_def Let_def split: if_splits)
  have f: "fst (epoll_fired x) = fst x" for x by (simp add: epoll_fired_def Let_def)
  have "distinct (map fst evs)"
    using l e(2) by (auto simp: comp_def f take_map [symmetric] intro: distinct_take)
  moreover have "epoll_watched interest e fd \<noteq> 0" if "(fd, m) \<in> set evs" for fd m
  proof -
    have "(fd, m) \<in> epoll_fired ` set ev" using that e(2) by (auto split: if_splits dest: in_set_takeD)
    then obtain x where x: "x \<in> set ev" "fst x = fd" using f by (metis fst_conv imageE)
    have "interest e fd \<noteq> None" using bspec [OF l [THEN conjunct2, THEN conjunct2, THEN conjunct2] x(1)] x(2) by (auto simp: case_prod_beta)
    then show ?thesis using epoll_good_None [OF g, of fd] by simp
  qed
  ultimately show ?thesis using g l e(1) by (auto simp: epoll_good_def epoll_watched_def fun_eq_iff)
qed

lemma kqueue_poll_reports:
  assumes ok: "kqueue_ok k filters" and p: "kqueue_poll k n tvp q = (evs, q')"
  shows "kqueue_watched filters q' = kqueue_watched filters q \<and> distinct evs
    \<and> (\<forall>(fd, m) \<in> set evs. kqueue_watched filters q fd AND m = m \<and> m \<noteq> 0)"
proof -
  obtain r ev q1 where w: "kevent_wait k n (map_option (\<lambda>(sec, usec). (sec, usec * 1000)) tvp) q = ((r, ev), q1)"
    by (metis prod.exhaust_sel)
  have l: "filters q1 = filters q \<and> (0 < r \<longrightarrow> length ev = nat r \<and> r \<le> n) \<and> distinct ev \<and> set ev \<subseteq> filters q"
    by (rule ok [unfolded kqueue_ok_def, THEN conjunct2, THEN conjunct2,
        THEN spec, THEN spec, THEN spec, THEN spec, THEN spec, THEN spec, THEN mp, OF w])
  have e: "q' = q1" "evs = (if r > 0 then map kqueue_fired (take (nat r) ev) else [])"
    using p w by (auto simp: kqueue_poll_def Let_def split: if_splits)
  have inj: "inj kqueue_fired"
    by (auto simp: inj_def kqueue_fired_def AE_READABLE_def AE_WRITABLE_def split: kfilter.splits)
  have "distinct evs" using l e(2) by (auto simp: distinct_map inj_on_subset [OF inj])
  moreover have "kqueue_watched filters q fd AND m = m \<and> m \<noteq> 0" if "(fd, m) \<in> set evs" for fd m
  proof -
    have "(fd, m) \<in> kqueue_fired ` set ev" using that e(2) by (auto split: if_splits dest: in_set_takeD)
    then obtain f where "(fd, f) \<in> set ev" "m = (case f of EVFILT_READ \<Rightarrow> AE_READABLE | EVFILT_WRITE \<Rightarrow> AE_WRITABLE)"
      by (auto simp: kqueue_fired_def)
    then show ?thesis
      using l by (cases f) (auto simp: kqueue_watched_def mask_of_def AE_READABLE_def AE_WRITABLE_def)
  qed
  ultimately show ?thesis using l e(1) by (auto simp: kqueue_watched_def fun_eq_iff)
qed

lemma epoll_hangup: "epoll_fired (fd, EPOLLHUP) = (fd, AE_WRITABLE)" "AE_READABLE AND snd (epoll_fired (fd, EPOLLHUP)) = 0"
  by (simp_all add: epoll_fired_def EPOLLIN_def EPOLLOUT_def EPOLLERR_def EPOLLHUP_def AE_READABLE_def AE_WRITABLE_def)

section \<open>Waiting for one descriptor\<close>

definition POLLERR :: u32 where "POLLERR = 0x8"
definition POLLHUP :: u32 where "POLLHUP = 0x10"

text \<open>\<open>poll\<close> for one descriptor gives its result and the events that happened.\<close>

definition aeWait :: "(int \<Rightarrow> u32 \<Rightarrow> int \<Rightarrow> int \<times> u32) \<Rightarrow> int \<Rightarrow> int \<Rightarrow> int \<Rightarrow> int" where
  "aeWait poll_call fd msk milliseconds =
     (let ev = 0;
          ev = (if msk AND AE_READABLE \<noteq> 0 then ev OR POLLIN else ev);
          ev = (if msk AND AE_WRITABLE \<noteq> 0 then ev OR POLLOUT else ev);
          (retval, revents) = poll_call fd ev (sint (word_of_int milliseconds :: u32))
      in if retval = 1
         then let retmask = 0;
                  retmask = (if revents AND POLLIN \<noteq> 0 then retmask OR AE_READABLE else retmask);
                  retmask = (if revents AND POLLOUT \<noteq> 0 then retmask OR AE_WRITABLE else retmask);
                  retmask = (if revents AND POLLERR \<noteq> 0 then retmask OR AE_WRITABLE else retmask);
                  retmask = (if revents AND POLLHUP \<noteq> 0 then retmask OR AE_WRITABLE else retmask)
              in retmask
         else retval)"

section \<open>Properties\<close>

text \<open>
  C38: The back ends agree. After any sequence of registrations and removals that succeeds, \<open>select\<close>,
  \<open>epoll\<close> and \<open>kqueue\<close> all wait for exactly what the table of the loop says, which is what the calls
  add up to; each of them is an instance of the same contract.
\<close>

theorem backends_watch_same:
  fixes l l' :: "('p, 't, 'f, 'c) aeEventLoop"
  assumes "list_all reg_valid cs"
    and "rfds l = {}" "wfds l = {}" "reg_calls select_add select_del n cs (\<lambda>_. 0, l) = Some (ms1, l')"
    and "epoll_ok k interest" "\<forall>fd. interest e fd = None" "reg_calls (epoll_add k) (epoll_del k) n cs (\<lambda>_. 0, e) = Some (ms2, e')"
    and "kqueue_ok q filters" "filters s = {}" "reg_calls (kqueue_add q) (kqueue_del q) n cs (\<lambda>_. 0, s) = Some (ms3, s')"
  shows "ms1 = masks_after n cs (\<lambda>_. 0) \<and> ms2 = ms1 \<and> ms3 = ms1
    \<and> select_watched l' = ms1 \<and> epoll_watched interest e' = ms1 \<and> kqueue_watched filters s' = ms1"
proof -
  have w: "select_watched l = (\<lambda>_. 0)" "epoll_watched interest e = (\<lambda>_. 0)" "kqueue_watched filters s = (\<lambda>_. 0)"
    using assms(2,3,6,9) by (simp_all add: fun_eq_iff select_watched_def epoll_watched_def kqueue_watched_def mask_of_def)
  have g: "epoll_good k interest e" using assms(5,6) by (simp add: epoll_good_def)
  have 1: "reg_calls select_add select_del n cs (select_watched l, l) = Some (ms1, l')"
    and 2: "reg_calls (epoll_add k) (epoll_del k) n cs (epoll_watched interest e, e) = Some (ms2, e')"
    and 3: "reg_calls (kqueue_add q) (kqueue_del q) n cs (kqueue_watched filters s, s) = Some (ms3, s')"
    using assms(4,7,10) by (simp_all add: w)
  show ?thesis
    using sel.calls_watched [OF TrueI assms(1) 1] ep.calls_watched [OF g assms(1) 2] kq.calls_watched [OF assms(8,1) 3]
    by (simp add: w)
qed

text \<open>
  C40: Event ports. Polling loses nothing: an event port forgets a descriptor when it gives its event,
  but the pending tables keep it, so \<open>aeApiPoll\<close> leaves every descriptor waited for as before, and what
  it returns was waited for and is pending now. But \<open>aeApiDelEvent\<close> relies on its caller to have
  changed the mask of the table already, and \<open>aeDeleteFileEvent\<close> changes it afterwards: a descriptor that
  is not pending stays associated, with the mask it had, although the loop has deleted its events.
\<close>

theorem evport_accounts:
  assumes g: "evport_good k assoc st"
  shows "(evport_poll k tvp st = Some (evs, st1) \<longrightarrow>
      evport_good k assoc st1 \<and> evport_watched assoc st1 = evport_watched assoc st
      \<and> (\<forall>(fd, m) \<in> set evs. evport_watched assoc st fd \<noteq> 0 \<and> aeApiLookupPending st1 fd \<noteq> None))
    \<and> (0 \<le> fd \<and> fd < n \<and> evport_watched assoc st fd \<noteq> 0 \<and> aeApiLookupPending st fd = None
       \<and> ae_delete (evport_del k) n fd (evport_watched assoc st fd) (evport_watched assoc st, st) = Some (ms, st2) \<longrightarrow>
      ms fd = 0 \<and> evport_watched assoc st2 fd = evport_watched assoc st fd)"
proof (intro conjI impI)
  assume p: "evport_poll k tvp st = Some (evs, st1)"
  note keep = evport_poll_keeps [OF g p]
  show "evport_good k assoc st1" "evport_watched assoc st1 = evport_watched assoc st"
    "\<forall>(fd, m) \<in> set evs. evport_watched assoc st fd \<noteq> 0 \<and> aeApiLookupPending st1 fd \<noteq> None"
    using keep by blast+
next
  let ?m = "evport_watched assoc st fd"
  assume a: "0 \<le> fd \<and> fd < n \<and> ?m \<noteq> 0 \<and> aeApiLookupPending st fd = None
    \<and> ae_delete (evport_del k) n fd ?m (evport_watched assoc st, st) = Some (ms, st2)"
  obtain rv p where p: "aeApiAssociate k fd ?m (portfd st) = (rv, p)" by fastforce
  have st2: "st2 = st\<lparr>portfd := p\<rparr>" "rv = 0" "ms = (evport_watched assoc st)(fd := ?m AND NOT ?m)"
    using a p by (auto simp: ae_delete_def evport_del_def split: if_splits)
  have "assoc p = (assoc (portfd st))(fd := Some ?m)"
    using port_okD(1) [OF evport_goodD(1) [OF g] p] st2(2) by simp
  then have "evport_watched assoc st2 = (evport_watched assoc st)(fd := ?m)"
    using evport_associated [OF g _ _, of fd p "Some ?m"] a lookup_pending(2) [of st fd] evport_watched_range [OF g, of fd]
    unfolding st2(1) by auto
  then show "ms fd = 0" "evport_watched assoc st2 fd = ?m" using st2(3) by simp_all
qed

text \<open>Kernels that refuse nothing; the port always has an event for descriptor 3 when it is associated.\<close>

definition demo_epoll :: "(int \<Rightarrow> u32 option) epoll_sys" where
  "demo_epoll = \<lparr>epoll_ctl = (\<lambda>op fd ev e. (0, case op of EPOLL_CTL_DEL \<Rightarrow> e(fd := None) | _ \<Rightarrow> e(fd \<mapsto> ev))),
     epoll_wait = (\<lambda>n t e. ((0, []), e))\<rparr>"

definition demo_kqueue :: "(int \<times> kfilter) set kqueue_sys" where
  "demo_kqueue = \<lparr>kevent_change = (\<lambda>fd f op q. (0, case op of EV_ADD \<Rightarrow> insert (fd, f) q | EV_DELETE \<Rightarrow> q - {(fd, f)})),
     kevent_wait = (\<lambda>n t q. ((0, []), q))\<rparr>"

definition demo_port :: "(int \<Rightarrow> int option) port_sys" where
  "demo_port = \<lparr>port_associate = (\<lambda>fd ev m p. (0, p(fd \<mapsto> m))),
     port_dissociate = (\<lambda>fd p. if p fd = None then (-1, p) else (0, p(fd := None))),
     port_getn = (\<lambda>t p. case p 3 of None \<Rightarrow> ((-1, ETIME, []), p) | Some m \<Rightarrow> ((0, Port_other, [(3, POLLIN, m)]), p(3 := None)))\<rparr>"

lemma demo_kernels_ok: "epoll_ok demo_epoll (\<lambda>e. e)" "kqueue_ok demo_kqueue (\<lambda>q. q)" "port_ok demo_port (\<lambda>p. p)"
proof -
  show "epoll_ok demo_epoll (\<lambda>e. e)" by (simp add: epoll_ok_def demo_epoll_def)
  show "kqueue_ok demo_kqueue (\<lambda>q. q)" by (simp add: kqueue_ok_def demo_kqueue_def)
  show "port_ok demo_port (\<lambda>p. p)"
    by (auto simp: port_ok_def demo_port_def restrict_map_def fun_eq_iff MAX_EVENT_BATCHSZ_def split: option.splits if_splits)
qed

lemma backends_watch_same_witness:
  "\<exists>ms e'. reg_calls (epoll_add demo_epoll) (epoll_del demo_epoll) 64 [Create 3 3, Delete 3 1] (\<lambda>_. 0, \<lambda>_. None) = Some (ms, e')
     \<and> epoll_watched (\<lambda>e. e) e' = ms \<and> ms 3 = AE_WRITABLE"
proof -
  let ?cs = "[Create 3 3, Delete 3 1]" and ?l = "aeCreateEventLoop 64 0 :: (unit, unit, unit, unit) aeEventLoop"
  have v: "list_all reg_valid ?cs" by (simp add: FD_SETSIZE_def)
  note ds = ae_create_def ae_delete_def AE_READABLE_def AE_WRITABLE_def
  have "\<exists>ms l'. reg_calls select_add select_del 64 ?cs (\<lambda>_. 0, ?l) = Some (ms, l')"
    by (simp add: ds select_add_def select_del_def aeApiAddEvent_def aeApiDelEvent_def FD_SET_def FD_CLR_def FD_SETSIZE_def)
  moreover have "\<exists>ms e'. reg_calls (epoll_add demo_epoll) (epoll_del demo_epoll) 64 ?cs (\<lambda>_. 0, \<lambda>_. None) = Some (ms, e')"
    by (simp add: ds epoll_add_def epoll_del_def demo_epoll_def Let_def)
  moreover have "\<exists>ms s'. reg_calls (kqueue_add demo_kqueue) (kqueue_del demo_kqueue) 64 ?cs (\<lambda>_. 0, {}) = Some (ms, s')"
    by (simp add: ds kqueue_add_def kqueue_del_def demo_kqueue_def Let_def)
  ultimately obtain ms1 l' ms2 e' ms3 s' where
    c: "reg_calls select_add select_del 64 ?cs (\<lambda>_. 0, ?l) = Some (ms1, l')"
      "reg_calls (epoll_add demo_epoll) (epoll_del demo_epoll) 64 ?cs (\<lambda>_. 0, \<lambda>_. None) = Some (ms2, e')"
      "reg_calls (kqueue_add demo_kqueue) (kqueue_del demo_kqueue) 64 ?cs (\<lambda>_. 0, {}) = Some (ms3, s')"
    by (elim exE) blast
  have "rfds ?l = {}" "wfds ?l = {}" by (simp_all add: aeCreateEventLoop_def)
  from backends_watch_same [OF v this c(1) demo_kernels_ok(1) _ c(2) demo_kernels_ok(2) _ c(3)]
  have "ms2 = masks_after 64 ?cs (\<lambda>_. 0)" "epoll_watched (\<lambda>e. e) e' = ms2" by simp_all
  then show ?thesis using c(2) by (intro exI [of _ ms2] exI [of _ e']) (simp add: AE_WRITABLE_def)
qed

text \<open>Descriptor 3 is registered for reading and deleted again, and the next poll still reports it.\<close>

lemma evport_accounts_witness:
  "let st = evport_create ((\<lambda>_. None)(3 \<mapsto> 1))
   in \<exists>ms st2. ae_delete (evport_del demo_port) 64 3 1 ((\<lambda>_. 0)(3 := 1), st) = Some (ms, st2)
      \<and> ms 3 = 0 \<and> evport_watched (\<lambda>p. p) st2 3 = 1 \<and> map_option fst (evport_poll demo_port None st2) = Some [(3, AE_READABLE)]"
proof -
  let ?st = "evport_create ((\<lambda>_. None)(3 :: int \<mapsto> 1 :: int))"
  have g: "evport_good demo_port (\<lambda>p. p) ?st"
    by (simp add: evport_good_def evport_create_def demo_kernels_ok(3))
  have w: "evport_watched (\<lambda>p. p) ?st = (\<lambda>_. 0)(3 := 1)"
    by (rule evport_watched_cong) (simp_all add: evport_watched_def evport_create_def aeApiLookupPending_def)
  have l: "aeApiLookupPending ?st 3 = None" by (simp add: aeApiLookupPending_def evport_create_def)
  have pf: "portfd ?st = (\<lambda>_. None)(3 \<mapsto> 1)" by (simp add: evport_create_def)
  define ms :: masks where "ms = (\<lambda>_. 0)(3 := 1 AND NOT 1)"
  define st2 :: "(int \<Rightarrow> int option) evport" where d2: "st2 = ?st\<lparr>portfd := (\<lambda>_. None)(3 \<mapsto> 1)\<rparr>"
  have d: "ae_delete (evport_del demo_port) 64 3 1 ((\<lambda>_. 0)(3 := 1), ?st) = Some (ms, st2)"
    by (simp add: ae_delete_def evport_del_def l pf aeApiAssociate_def demo_port_def Let_def ms_def d2)
  have "ms 3 = 0 \<and> evport_watched (\<lambda>p. p) st2 3 = 1"
    using evport_accounts [OF g, of None "[]" ?st 3 64 ms st2] l d by (simp add: w)
  moreover have "map_option fst (evport_poll demo_port None st2) = Some [(3, AE_READABLE)]"
    by (simp add: d2 evport_poll_def evport_create_def demo_port_def evport_fired_def POLLIN_def POLLOUT_def
        AE_READABLE_def MAX_EVENT_BATCHSZ_def Let_def)
  ultimately show ?thesis using d unfolding Let_def by blast
qed

end
