(* ===== verification/Session.thy ===== *)
theory Session
  imports VerifyFlow
begin

text \<open>
  The end of a session. A token that is not in the cache stays out of it, whatever requests are served,
  until a login or a registration draws the same token again; and every handler that asks for a token
  refuses it. The step relation and the rules are those of \<open>ServiceInv\<close>, for the invariant with the
  missing token.
\<close>

section \<open>A token that is gone\<close>

definition gone :: "string \<Rightarrow> nat \<Rightarrow> 'w sys \<Rightarrow> bool" where
  "gone tok n s \<longleftrightarrow> good n s \<and> sview s Token tok = None"

lemma gone_world [simp]: "gone tok n (s\<lparr>s_world := w\<rparr>) = gone tok n s"
  by (simp add: gone_def)

lemma gone_Suc: "gone tok n s \<Longrightarrow> gone tok (Suc n) s"
  by (simp add: gone_def good_Suc)

lemma query_gone:
  assumes "gone tok n s" "selectCache c = Inr w"
  shows "wp (\<lambda>(r, s'). gone tok n s' \<and> r = sview s' w k) (query c k s)"
proof -
  have g: "good n s" "sys_ok s" using assms(1) by (simp_all add: gone_def good_def)
  obtain s' where "query c k s = Some (sview s w k, s')" "sview s' = sview s" by (rule query_ok [OF g(2) assms(2)])
  then show ?thesis using query_good [OF g(1) assms(2), of k] assms(1) by (simp add: wp_def gone_def)
qed

lemma insert_gone:
  assumes "gone tok n s" "selectCache c = Inr w" "n < 2 ^ 30" "fits w k x" "w = Token \<Longrightarrow> k \<noteq> tok"
  shows "wp (gone tok (Suc n)) (insert_obj e c k x s)"
proof -
  have g: "good n s" "caches_ok (s_caches s)" using assms(1) by (simp_all add: gone_def good_def sys_ok_def)
  have room: "entries_in (s_caches s) w < 2 ^ 30" using g(1) assms(3) by (meson good_def le_less_trans)
  obtain cs r where "cacheInsert (e_cr e) (e_junk e) c (s_caches s) k x = Some (cs, r)"
    "view cs = (if view (s_caches s) w k = None
       then (view (s_caches s))(w := (view (s_caches s) w)(k \<mapsto> x)) else view (s_caches s))"
    using cacheInsert_ok [OF g(2) assms(2) room] by blast
  then have "wp (\<lambda>s'. sview s' Token tok = None) (insert_obj e c k x s)"
    using assms(1,5) by (auto simp: wp_def insert_obj_def gone_def sview_def split: if_splits)
  then show ?thesis using insert_good [OF g(1) assms(2-4), of e] by (simp add: wp_def gone_def)
qed

lemma delete_gone:
  assumes "gone tok n s" "selectCache c = Inr w"
  shows "wp (gone tok n) (delete_obj c k s)"
proof -
  have g: "good n s" "sys_ok s" using assms(1) by (simp_all add: gone_def good_def)
  obtain s' where "delete_obj c k s = Some s'" "sview s' = (sview s)(w := (sview s w)(k := None))"
    by (rule delete_obj_ok [OF g(2) assms(2)])
  then show ?thesis using delete_good [OF g(1) assms(2), of k] assms(1) by (simp add: wp_def gone_def)
qed

lemma poke_gone:
  assumes "gone tok n s" "sview s Token k \<noteq> None" "u_token u = k"
  shows "gone tok n (poke_token k (OUser u) s)"
  using assms poke_good [of n s k u] poke_token_ok(2) [of s k "OUser u"] by (auto simp: gone_def good_def)

lemma finish_gone: "gone tok n s \<Longrightarrow> wp (\<lambda>(t, s'). gone tok n s') (finish r s)"
  by (auto simp: wp_def finish_def bind_eq_Some_conv)

lemma gone_finish: "gone tok n s \<Longrightarrow> wp (\<lambda>(t, s'). gone tok (Suc n) s') (finish r s)"
  using finish_gone gone_Suc by (fastforce simp: wp_def)

lemma gone_fits: "gone tok n s \<Longrightarrow> sview s w k = Some x \<Longrightarrow> fits w k x"
  unfolding gone_def by (blast intro: good_fits)

named_theorems gseqs

lemmas [gseqs] =
  wp_seq [OF query_gone [OF _ selectCache_simps(1)]] wp_seq [OF query_gone [OF _ selectCache_simps(3)]]
  wp_seq [OF delete_gone [OF _ selectCache_simps(1)]] wp_seq [OF delete_gone [OF _ selectCache_simps(3)]]
  wp_seq [OF insert_gone [OF _ selectCache_simps(1)]] wp_seq [OF insert_gone [OF _ selectCache_simps(3)]]

lemmas [gseqs] =
  wp_then [of "UserParseJson F js u" for F js u] wp_then [of "NoticeParseJson F js u" for F js u]
  wp_then [of "AppVerParseJson F js u" for F js u] wp_then [of "UserQueryReturnItemNum db u w" for db u w]
  wp_then [of "UserQueryrReturnResult db q u i j w" for db q u i j w] wp_then [of "UserModify db u w" for db u w]
  wp_then [of "UserDelete db u w" for db u w] wp_then [of "code_until m" for m] wp_then [of "guard b" for b]
  wp_then [of "ok_reply e" for e] wp_then [of "as_user x" for x] wp_then [of "as_msgcode x" for x]
  wp_then [of "as_notice x" for x] wp_then [of "as_appver x" for x] wp_seq [OF UserInsert_token]

lemma check_token_gone:
  assumes "gone tok n s"
  shows "wp (\<lambda>(r, s'). gone tok n s' \<and> (\<forall>u. r = Inr u \<longrightarrow> sview s' Token token = Some (OUser u) \<and> u_token u = token))
    (check_token e token s)"
  unfolding check_token_def
  by (auto intro!: gseqs wp_rules(1,4-) simp: assms) (drule (1) gone_fits, simp)

lemmas [gseqs] = wp_seq [OF check_token_gone]

lemma token_readers_gone:
  assumes "gone tok n s"
  shows "wp (\<lambda>(t, s'). gone tok (Suc n) s') (userStatus e req s)" "wp (\<lambda>(t, s'). gone tok (Suc n) s') (userLogout e req s)"
    "wp (\<lambda>(t, s'). gone tok (Suc n) s') (noticeGet e req s)" "wp (\<lambda>(t, s'). gone tok (Suc n) s') (appVer e req s)"
  unfolding userStatus_def userLogout_def noticeGet_def appVer_def Let_def
  using assms by (auto intro!: gseqs wp_rules(4-) gone_finish)

lemma userModify_gone: "gone tok n s \<Longrightarrow> wp (\<lambda>(t, s'). gone tok (Suc n) s') (userModify e req s)"
  unfolding userModify_def Let_def
  by (auto intro!: gseqs wp_rules(4-) gone_finish poke_gone simp: updateObj_token dest: gone_fits)

lemma userDelete_gone: "gone tok n s \<Longrightarrow> wp (\<lambda>(t, s'). gone tok (Suc n) s') (userDelete e req s)"
  unfolding userDelete_def Let_def by (auto intro!: gseqs wp_rules(2,4-) gone_finish)

lemma verifyBefore_gone: "gone tok n s \<Longrightarrow> n < 2 ^ 30 \<Longrightarrow> wp (\<lambda>(t, s'). gone tok (Suc n) s') (verifyBefore e req s)"
  unfolding verifyBefore_def Let_def
  by (auto intro!: gseqs wp_then [of "case_option a f r" for a f r] wp_rules(4-) gone_finish finish_gone intro: gone_Suc
      simp: msgGatewayCode_def msgWangyiCode_def msgcode0_def)

lemma token_makers_gone:
  assumes "gone tok n s" "n < 2 ^ 30" "new_token (e_uuid e) \<noteq> tok"
  shows "wp (\<lambda>(t, s'). gone tok (Suc n) s') (verifyAfter e req s)" "wp (\<lambda>(t, s'). gone tok (Suc n) s') (userRegister e req s)"
    "wp (\<lambda>(t, s'). gone tok (Suc n) s') (userLogin e req s)"
  using assms unfolding verifyAfter_def userRegister_def userLogin_def Let_def
  by (auto intro!: gseqs wp_rules(2,4-) gone_finish finish_gone intro: gone_Suc simp: phone_user_def)

lemma run_route_gone:
  assumes "gone tok n s" "n < 2 ^ 30" "new_token (e_uuid e) \<noteq> tok"
  shows "wp (\<lambda>(t, s'). gone tok (Suc n) s') (run_route e f req s)"
  using assms
  by (cases f) (simp_all add: token_readers_gone userModify_gone userDelete_gone verifyBefore_gone token_makers_gone
      say_hello_def r_31501_def wp_rules(1) gone_Suc)

section \<open>Later requests\<close>

text \<open>
  The states \<open>k\<close> requests later, with changes of the database by others in between, when no login and no
  registration among them draws the token \<open>tok\<close>.
\<close>

inductive later :: "'d fp \<Rightarrow> string \<Rightarrow> 'w sys \<Rightarrow> nat \<Rightarrow> 'w sys \<Rightarrow> bool" for F tok s where
  now: "later F tok s 0 s"
| request: "later F tok s k a \<Longrightarrow> e_fp e = F \<Longrightarrow> new_token (e_uuid e) \<noteq> tok \<Longrightarrow> run_route e f req a = Some (reply, b)
    \<Longrightarrow> later F tok s (Suc k) b"
| database: "later F tok s k a \<Longrightarrow> later F tok s k (a\<lparr>s_world := w\<rparr>)"

lemma later_gone: "later F tok s k b \<Longrightarrow> gone tok n s \<Longrightarrow> n + k \<le> 2 ^ 30 \<Longrightarrow> gone tok (n + k) b"
proof (induction rule: later.induct)
  case (request k a e f req reply b)
  then have "gone tok (n + k) a" "n + k < 2 ^ 30" by simp_all
  from run_route_gone [OF this request.hyps(3), of f req] request.hyps(4) show ?case by (auto simp: wp_def)
qed simp_all

text \<open>The token a request shows to the handler it is routed to, where that handler asks for one.\<close>

fun token_shown :: "('d, 'w) env \<Rightarrow> route_fun \<Rightarrow> string \<Rightarrow> string option" where
  "token_shown e Route.userStatus req = map_option u_token (UserParseJson (e_fp e) req user0)"
| "token_shown e Route.userLogout req = map_option u_token (UserParseJson (e_fp e) req user0)"
| "token_shown e Route.userModify req = map_option u_token (UserParseJson (e_fp e) req user0)"
| "token_shown e Route.userDelete req = map_option u_token (UserParseJson (e_fp e) req user0)"
| "token_shown e Route.noticeGet req = map_option n_token (NoticeParseJson (e_fp e) req notice0)"
| "token_shown e Route.appVer req = map_option a_token (AppVerParseJson (e_fp e) req appver0)"
| "token_shown e f req = None"

lemma gone_refused:
  assumes g: "gone tok n s" and t: "fp_ok (e_fp e)" "token_shown e f req = Some tok"
  shows "\<exists>s'. run_route e f req s = Some (reply_text e ERR_NOT_LOGIN_YET, s')"
proof -
  have s: "sys_ok s" "sview s Token tok = None" using g by (simp_all add: gone_def good_def)
  obtain a where a: "check_token e tok s = Some (Inl ERR_NOT_LOGIN_YET, a)"
    using check_token_cases [OF s(1), where token = tok and e = e] s(2) by auto
  obtain b where b: "query CACHE_TOKEN tok s = Some (None, b)"
    using query_ok [OF s(1) selectCache_simps(1), of tok] s(2) by metis
  have c: "in_int ERR_NOT_LOGIN_YET" by (simp add: in_int_iff)
  show ?thesis using t a b c
    by (cases f) (auto simp: userStatus_def userLogout_def userModify_def userDelete_def noticeGet_def appVer_def)
qed

section \<open>Properties\<close>

text \<open>
  C26: Logging out ends the session, for good. In every reachable state, when a live session logs
  out, whatever the database answers to \<open>userLogout\<close>, the token is gone from the cache afterwards; and
  after any number of later requests on any routes, with changes of the database in between, as long as no login or registration draws the very
  same token and all requests are among the first 2^30, every handler that asks for a token, \<open>userStatus\<close>,
  \<open>userLogout\<close>, \<open>userModify\<close>, \<open>userDelete\<close>, \<open>noticeGet\<close> and \<open>appVer\<close>, answers a request that shows this one by
  \<open>ERR_NOT_LOGIN_YET\<close>.
\<close>

theorem userLogout_ends_session:
  assumes s: "served (e_fp e) n s" "sview s Token tok = Some (OUser u)" "\<not> expired e s u" "in_int (u_id u)"
    and r: "fp_ok (e_fp e)" "token_shown e Route.userLogout req = Some tok"
    and n: "Suc n + k \<le> 2 ^ 30"
  shows "\<exists>t s1. userLogout e req s = Some (t, s1) \<and> sview s1 Token tok = None
    \<and> (\<forall>s2 e' f req'. later (e_fp e) tok s1 k s2 \<and> fp_ok (e_fp e') \<and> token_shown e' f req' = Some tok
         \<longrightarrow> (\<exists>s3. run_route e' f req' s2 = Some (reply_text e' ERR_NOT_LOGIN_YET, s3)))"
proof -
  have g: "good n s" "sys_ok s" using served_good [OF s(1)] n by (simp_all add: good_def)
  obtain flt where flt: "UserParseJson (e_fp e) req user0 = Some flt" "u_token flt = tok" using r(2) by auto
  obtain t s1 where run: "userLogout e req s = Some (t, s1)" "sview s1 Token tok = None"
    using userLogout_removes [OF g(2) _ s(3,4) r(1) flt(1)] s(2) flt(2) by auto
  have "gone tok (Suc n) s1" using userLogout_good [OF g(1), of e req] run by (simp add: wp_def gone_def)
  then have "gone tok (Suc n + k) s2" if "later (e_fp e) tok s1 k s2" for s2 using later_gone [OF that] n by blast
  then show ?thesis using run gone_refused by blast
qed

text \<open>A session opened by a request for a token, closed, and asked for one request later.\<close>

definition logout_env :: "(int, nat) env" where
  "logout_env = login_env\<lparr>e_time := (\<lambda>i. 0), e_uuid := replicate 16 1\<rparr>"

lemma bob_session:
  obtains s :: "nat sys" and u where "served int_fp 1 s" "sview s Token flow_token = Some (OUser u)" "u_id u = 1"
proof -
  obtain a :: "nat sys" where a: "served int_fp 0 a" "s_tokenFreshTime a = 1" "s_world a = Suc 0" "\<forall>w k. sview a w k = None"
    by (rule demo_served)
  have "good 0 a" using served_good [OF a(1)] by simp
  then have "sys_ok a" "has_room 1 a" "sview a Token flow_token = None" using a(4) by (simp_all add: good_def has_room_def)
  from bob_logs_in [OF this] obtain req t s u where
    s: "userLogin login_env req a = Some (t, s)" "sview s Token flow_token = Some (OUser u)" "u_id u = 1" by metis
  have login_fp: "e_fp login_env = int_fp" by (simp add: login_env_def)
  have "served int_fp (Suc 0) s"
    by (rule served.request [OF a(1), of login_env Route.userLogin req t]) (simp_all add: s(1) login_fp)
  then show thesis using that s(2,3) by simp
qed

lemma userLogout_ends_session_witness:
  "\<exists>req (s :: nat sys) t s1 s3. userLogout logout_env req s = Some (t, s1) \<and> later int_fp flow_token s1 1 s1
     \<and> run_route logout_env Route.userModify req s1 = Some (reply_text logout_env ERR_NOT_LOGIN_YET, s3)"
proof -
  obtain s :: "nat sys" and u where s: "served int_fp 1 s" "sview s Token flow_token = Some (OUser u)" "u_id u = 1"
    by (rule bob_session)
  have e: "e_fp logout_env = int_fp" "fp_ok (e_fp logout_env)" by (simp_all add: logout_env_def login_env_def)
  have "user_ok (user0\<lparr>u_token := flow_token\<rparr>)" by (simp add: user_ok_def user0_def in_int_iff flow_token_def no_nul_def code_def)
  then obtain req where "UserParseJson int_fp req user0 = Some (user0\<lparr>u_token := flow_token, u_tokenFreshTimeStamp := 0, u_cmd := []\<rparr>)"
    using request_of [OF int_fp_ok] by blast
  then have r: "token_shown logout_env Route.userLogout req = Some flow_token" "token_shown logout_env Route.userModify req = Some flow_token"
    by (simp_all add: e(1))
  have "0 \<le> token_until (s_tokenFreshTime s) u" by (simp add: token_until_def)
  then have x: "\<not> expired logout_env s u" by (simp add: expired_def logout_env_def)
  have "in_int (u_id u)" "Suc 1 + 1 \<le> (2 :: nat) ^ 30" using s(3) by (simp_all add: in_int_iff)
  from userLogout_ends_session [OF s(1) [folded e(1)] s(2) x this(1) e(2) r(1) this(2)] obtain t s1 where
    t: "userLogout logout_env req s = Some (t, s1)"
    "\<And>s2. later (e_fp logout_env) flow_token s1 1 s2 \<Longrightarrow> \<exists>s3. run_route logout_env Route.userModify req s2 = Some (reply_text logout_env ERR_NOT_LOGIN_YET, s3)"
    using e(2) r(2) by blast
  have "new_token (e_uuid logout_env) \<noteq> flow_token"
    by (simp add: logout_env_def new_token_def flow_token_def hex_char_def numeral_eq_Suc) code_simp
  then have "later int_fp flow_token s1 (Suc 0) s1"
    using later.request [OF later.now, of logout_env int_fp flow_token Route.say_hello "[]" s1 "''sayhello''" s1]
    by (simp add: e(1) say_hello_def)
  then have l: "later int_fp flow_token s1 1 s1" by simp
  then obtain s3 where "run_route logout_env Route.userModify req s1 = Some (reply_text logout_env ERR_NOT_LOGIN_YET, s3)"
    using t(2) [of s1] unfolding e(1) by blast
  then show ?thesis using t(1) l by (intro exI [of _ req] exI [of _ s] exI [of _ t] exI [of _ s1] exI [of _ s3] conjI)
qed

end
