(* ===== verification/Uuid.thy ===== *)
theory Uuid
  imports Packet Service
begin

text \<open>
  \<open>srand_get_uuid\<close> of \<open>utils/random.c\<close> and the CBC wrappers of \<open>utils/en_de_crypt.c\<close>, from which the
  tokens of the sessions come. \<open>AES_cbc_encrypt\<close> is an argument: the direction, the key, the
  initialisation vector and the data give the result and the new vector. The contents of the key that
  the code leaves uninitialised are an argument too.
\<close>

type_synonym cbc = "bool \<Rightarrow> u8 list \<Rightarrow> u8 list \<Rightarrow> u8 list \<Rightarrow> u8 list \<times> u8 list"

definition cbc_run :: "cbc \<Rightarrow> bool \<Rightarrow> u8 list \<Rightarrow> u8 list \<Rightarrow> u8 list \<Rightarrow> nat \<Rightarrow> (u8 list \<times> u8 list) option" where
  "cbc_run cbc dir key iv dat len =
     do { bs \<leftarrow> mem_read dat 0 len;
          let (out, iv) = cbc dir key iv bs;
          dat \<leftarrow> mem_write dat 0 out;
          Some (dat, iv) }"

definition DbsAesCbcEncrypt :: "cbc \<Rightarrow> u8 list \<Rightarrow> u8 list \<Rightarrow> u8 list \<Rightarrow> nat \<Rightarrow> (u8 list \<times> u8 list) option" where
  "DbsAesCbcEncrypt cbc key iv dat len = cbc_run cbc True key iv dat len"

definition DbsAesCbcDecrypt :: "cbc \<Rightarrow> u8 list \<Rightarrow> u8 list \<Rightarrow> u8 list \<Rightarrow> nat \<Rightarrow> (u8 list \<times> u8 list) option" where
  "DbsAesCbcDecrypt cbc key iv dat len = cbc_run cbc False key iv dat len"

text \<open>The key is also the initialisation vector; the first four of its bytes are written.\<close>

definition uuid_password :: "u8 list" where
  "uuid_password = bytes ''qewe$%^&*()16gvp''"

definition srand_get_uuid :: "cbc \<Rightarrow> u8 list \<Rightarrow> rng \<Rightarrow> (u8 list \<times> rng) option" where
  "srand_get_uuid cbc junk s =
     do { let (timeee, s) = srand_get_int32 s;
          key \<leftarrow> mem_write junk 0 (mem4 timeee);
          (UUID, iv) \<leftarrow> DbsAesCbcEncrypt cbc key key uuid_password 16;
          Some (UUID, s) }"

section \<open>What a packet says about the generator\<close>

text \<open>The state with a value of 48 bits.\<close>

definition state_of :: "nat \<Rightarrow> rng" where
  "state_of v = \<lparr>x0 = of_nat (v mod 65536), x1 = of_nat (v div 65536 mod 65536), x2 = of_nat (v div 4294967296)\<rparr>"

lemma state_of_rng_val:
  assumes "limbs_ok s"
  shows "state_of (rng_val s) = s"
proof -
  have b: "unat (x0 s) < 65536" "unat (x1 s) < 65536" "unat (x2 s) < 65536"
    using assms by (simp_all add: limbs_ok_def)
  have e: "rng_val s = unat (x0 s) + 65536 * (unat (x1 s) + 65536 * unat (x2 s))" by (simp add: rng_val_def)
  have q: "rng_val s div 65536 = unat (x1 s) + 65536 * unat (x2 s)" using b(1) by (simp add: e)
  have "rng_val s div 4294967296 = rng_val s div 65536 div 65536" by (simp add: div_mult2_eq [symmetric])
  also have "\<dots> = unat (x2 s)" using b(2) by (simp add: q)
  finally have "rng_val s div 4294967296 = unat (x2 s)" .
  moreover have "rng_val s mod 65536 = unat (x0 s)" using b(1) by (simp only: e mod_mult_self2 mod_less)
  moreover have "rng_val s div 65536 mod 65536 = unat (x1 s)" using b(2) by (simp only: q mod_mult_self2 mod_less)
  ultimately show ?thesis by (simp add: state_of_def)
qed

text \<open>The states in which a generator can be that has just given a number, and the tokens they lead to.\<close>

definition hidden :: nat where "hidden = 2 ^ 17"

definition states_after :: "u32 \<Rightarrow> rng list" where
  "states_after random = map (\<lambda>j. state_of (unat random * hidden + j)) [0..<hidden]"

definition guess_tokens :: "cbc \<Rightarrow> u8 list \<Rightarrow> u32 \<Rightarrow> string option list" where
  "guess_tokens cbc junk random = map (\<lambda>s. map_option (new_token \<circ> fst) (srand_get_uuid cbc junk s)) (states_after random)"

lemma states_after_in:
  assumes "limbs_ok s" "srand_get_int32 s = (random, s')"
  shows "s' \<in> set (states_after random)"
proof -
  have s': "s' = srand_next s" "limbs_ok s'"
    using assms limbs_ok_srand_next [OF assms(1)] by (auto simp: srand_get_int32_def Let_def)
  have "unat random = rng_val s' div hidden"
    using srand_get_int32_value [OF assms(1)] assms(2) s'(1) by (simp add: hidden_def)
  then have "rng_val s' = unat random * hidden + rng_val s' mod hidden" by simp
  moreover have "rng_val s' mod hidden < hidden" by (simp add: hidden_def)
  ultimately show ?thesis
    using state_of_rng_val [OF s'(2)] unfolding states_after_def set_map set_upt
    by (intro image_eqI [of _ _ "rng_val s' mod hidden"]) simp_all
qed

text \<open>The header of an encrypted packet carries the number its key was made of.\<close>

lemma encryptData_random:
  assumes "encryptData enc r (Some buf) n maxLen ENC_TYPE_AES = Some (Some buf', k, r')" "0 \<le> k"
  shows "srand_get_int32 r = (of_mem4 (eh_random (enc_head_of (take 10 buf'))), r')"
proof -
  obtain random r1 where r: "srand_get_int32 r = (random, r1)" by fastforce
  define h where "h = \<lparr>eh_type = ENC_TYPE_AES, eh_length = mem4 (ENDIAN_DWRD (of_nat (n + (16 - n mod 16)))),
      eh_padding = of_nat (16 - n mod 16), eh_random = mem4 random\<rparr>"
  have hb: "length (enc_head_bytes h) = 10" "enc_head_of (enc_head_bytes h) = h"
    by (simp_all add: h_def length_enc_head_bytes enc_head_of_bytes)
  obtain tmp buf1 where "mem_write buf 0 (enc_head_bytes h) = Some buf1"
      "mem_write buf1 sizeof_enc_head tmp = Some buf'" "r' = r1"
    using assms r unfolding encryptData_def h_def Let_def
    by (auto simp: bind_eq_Some_conv split: if_splits)
  then have "take 10 buf' = enc_head_bytes h" "r' = r1"
    using hb(1) by (auto simp: mem_write_def sizeof_enc_head_def split: if_splits)
  then show ?thesis using hb(2) r by (simp add: h_def of_mem4_mem4)
qed

section \<open>Properties\<close>

text \<open>
  What an encrypted packet gives away. Its key is the random number in its header, so whoever sees
  the packet can read it; and the number is the top 31 of the 48 bits of the generator that the tokens
  of the sessions come from. With the twelve bytes \<open>srand_get_uuid\<close> leaves uninitialised, which do not
  depend on the generator, the next token is one of at most 131072 that are computed from the header.
\<close>

theorem packet_reveals_token:
  assumes "limbs_ok r" "block_cipher enc dec" "10 + padded_len n \<le> maxLen" "maxLen \<le> length buf" "padded_len n < 2 ^ 31"
    and e: "encryptData enc r (Some buf) n maxLen ENC_TYPE_AES = Some (Some buf', k, r')"
    and u: "srand_get_uuid cbc junk r' = Some (uuid, r'')"
  shows "decryptData dec (Some buf') ENC_TYPE_AES = Some (Some (take n buf @ drop n buf'), int n)
    \<and> Some (new_token uuid) \<in> set (guess_tokens cbc junk (of_mem4 (eh_random (enc_head_of (take 10 buf')))))
    \<and> length (guess_tokens cbc junk (of_mem4 (eh_random (enc_head_of (take 10 buf'))))) = 2 ^ 17"
proof (intro conjI)
  have len: "10 + padded_len n \<le> length buf" using assms(3,4) by simp
  obtain packet r1 where p: "encryptData enc r (Some buf) n maxLen ENC_TYPE_AES
       = Some (Some (packet @ drop (10 + padded_len n) buf), int (10 + padded_len n), r1)"
      "\<And>rest. decryptData dec (Some (packet @ rest)) ENC_TYPE_AES = Some (Some (take n buf @ drop n (packet @ rest)), int n)"
    using encryptData_packet [OF assms(2,3) len assms(5)] by blast
  then have b: "buf' = packet @ drop (10 + padded_len n) buf" "0 \<le> k" using e by simp_all
  show "decryptData dec (Some buf') ENC_TYPE_AES = Some (Some (take n buf @ drop n buf'), int n)"
    unfolding b(1) by (rule p(2))
  have "r' \<in> set (states_after (of_mem4 (eh_random (enc_head_of (take 10 buf')))))"
    by (rule states_after_in [OF assms(1) encryptData_random [OF e b(2)]])
  moreover have "map_option (new_token \<circ> fst) (srand_get_uuid cbc junk r') = Some (new_token uuid)"
    using u by simp
  ultimately show "Some (new_token uuid) \<in> set (guess_tokens cbc junk (of_mem4 (eh_random (enc_head_of (take 10 buf')))))"
    unfolding guess_tokens_def set_map by (metis (no_types, lifting) imageI)
  show "length (guess_tokens cbc junk (of_mem4 (eh_random (enc_head_of (take 10 buf'))))) = 2 ^ 17"
    by (simp only: guess_tokens_def states_after_def length_map length_upt diff_zero hidden_def)
qed

definition demo_cbc :: cbc where
  "demo_cbc dir key iv dat = (xor_cipher key (map2 (XOR) dat iv), iv)"

lemma demo_uuid: "\<exists>uuid s'. srand_get_uuid demo_cbc (replicate 16 0) s = Some (uuid, s')"
proof -
  obtain t s' where t: "srand_get_int32 s = (t, s')" by fastforce
  obtain key where k: "mem_write (replicate 16 0) 0 (mem4 t) = Some key" "length key = 16"
    using mem_write_in [of 0 "mem4 t" "replicate 16 0"] mem_write_length [of "replicate 16 0" 0 "mem4 t"] by simp
  have "length (xor_cipher key (map2 (XOR) uuid_password key)) = 16"
    using k(2) by (simp add: xor_cipher_def uuid_password_def)
  then show ?thesis
    using k by (simp add: srand_get_uuid_def t DbsAesCbcEncrypt_def cbc_run_def demo_cbc_def mem_read_in mem_write_in uuid_password_def)
qed

lemma packet_reveals_token_witness:
  "\<exists>buf' k r' uuid r''. encryptData xor_cipher rng0 (Some (replicate 100 65)) 20 100 ENC_TYPE_AES = Some (Some buf', k, r')
    \<and> srand_get_uuid demo_cbc (replicate 16 0) r' = Some (uuid, r'')
    \<and> Some (new_token uuid) \<in> set (guess_tokens demo_cbc (replicate 16 0) (of_mem4 (eh_random (enc_head_of (take 10 buf')))))"
proof -
  let ?buf = "replicate 100 65 :: u8 list"
  have l: "limbs_ok rng0" by (simp add: limbs_ok_def rng0_def)
  have n: "10 + padded_len 20 \<le> 100" "100 \<le> length ?buf" "10 + padded_len 20 \<le> length ?buf" "padded_len 20 < 2 ^ 31"
    by (simp_all add: padded_len_def)
  obtain packet r' where e: "encryptData xor_cipher rng0 (Some ?buf) 20 100 ENC_TYPE_AES
       = Some (Some (packet @ drop (10 + padded_len 20) ?buf), int (10 + padded_len 20), r')"
    using encryptData_packet [OF xor_cipher n(1,3,4)] by blast
  obtain uuid r'' where u: "srand_get_uuid demo_cbc (replicate 16 0) r' = Some (uuid, r'')" using demo_uuid by blast
  from packet_reveals_token [OF l xor_cipher n(1,2,4) e u] e u show ?thesis by blast
qed

end
