(* ===== verification/ConnShare.thy ===== *)
theory ConnShare
  imports SockServer
begin

text \<open>
  A connection between the thread of the event loop and a worker (\<open>utils/socket_server.c\<close>), in the steps
  in which the two touch what they share: the event, the state \<open>fd_state\<close>, its \<open>readFlag\<close> and the
  descriptor. There is no lock; \<open>SockServer\<close> takes each side as one operation, and what makes that
  right, and when it is not, is the subject here. What arrives, how much is sent and whether the pool
  accepts the task are free choices of the steps.
\<close>

section \<open>State\<close>

text \<open>Where the loop is: \<open>fire_one\<close> has read the client data, \<open>readFlag\<close> was 0, a frame is complete, its event
  has been dealt with, \<open>readFlag\<close> is set; and the label \<open>err\<close> before each of its three calls.\<close>

datatype loop_pc = L_idle | L_fired | L_reading | L_frame bool | L_kept | L_flagged | L_err | L_free | L_close

text \<open>Where a worker is: before the request is handled, before a \<open>send\<close>, after a failed one, before the
  buffer is cleared, and before the two calls of the label \<open>end\<close>.\<close>

datatype work_pc = W_run | W_send bool | W_lost | W_keep | W_close | W_free

record conn =
  c_registered :: bool
  c_allocated :: bool
  c_opened :: bool
  c_readFlag :: bool
  c_keepAlive :: bool
  c_queued :: nat
  c_loop :: loop_pc
  c_workers :: "work_pc list"
  c_fault :: bool

text \<open>After \<open>aeDoAccept\<close>.\<close>

definition accepted :: conn where
  "accepted = \<lparr>c_registered = True, c_allocated = True, c_opened = True, c_readFlag = False, c_keepAlive = False,
     c_queued = 0, c_loop = L_idle, c_workers = [], c_fault = False\<rparr>"

text \<open>An access to the state of a connection is a fault when it has been freed.\<close>

definition touch :: "conn \<Rightarrow> conn" where
  "touch c = c\<lparr>c_fault := c_fault c \<or> \<not> c_allocated c\<rparr>"

section \<open>Steps\<close>

text \<open>The loop: \<open>aeProcessEvents\<close> finds the event, \<open>aeSocketRead\<close> runs.\<close>

inductive loop_step :: "conn \<Rightarrow> conn \<Rightarrow> bool" where
  fire: "c_loop c = L_idle \<Longrightarrow> c_registered c \<Longrightarrow> loop_step c (c\<lparr>c_loop := L_fired\<rparr>)"
| busy: "c_loop c = L_fired \<Longrightarrow> c_readFlag c \<Longrightarrow> loop_step c ((touch c)\<lparr>c_loop := L_idle\<rparr>)"
| enter: "c_loop c = L_fired \<Longrightarrow> \<not> c_readFlag c \<Longrightarrow> loop_step c ((touch c)\<lparr>c_loop := L_reading\<rparr>)"
| part: "c_loop c = L_reading \<Longrightarrow> loop_step c (touch c)"
| wait: "c_loop c = L_reading \<Longrightarrow> loop_step c ((touch c)\<lparr>c_loop := L_idle\<rparr>)"
| broken: "c_loop c = L_reading \<Longrightarrow> loop_step c ((touch c)\<lparr>c_loop := L_err\<rparr>)"
| frame: "c_loop c = L_reading \<Longrightarrow> loop_step c ((touch c)\<lparr>c_loop := L_frame keep\<rparr>)"
| last: "c_loop c = L_frame False \<Longrightarrow> loop_step c ((touch c)\<lparr>c_loop := L_kept, c_keepAlive := False, c_registered := False\<rparr>)"
| more: "c_loop c = L_frame True \<Longrightarrow> loop_step c ((touch c)\<lparr>c_loop := L_kept, c_keepAlive := True\<rparr>)"
| flag: "c_loop c = L_kept \<Longrightarrow> loop_step c ((touch c)\<lparr>c_loop := L_flagged, c_readFlag := True\<rparr>)"
| add: "c_loop c = L_flagged \<Longrightarrow> loop_step c (c\<lparr>c_loop := L_idle, c_queued := c_queued c + 1\<rparr>)"
| refuse: "c_loop c = L_flagged \<Longrightarrow> loop_step c (c\<lparr>c_loop := L_idle\<rparr>)"
| delete: "c_loop c = L_err \<Longrightarrow> loop_step c (c\<lparr>c_loop := L_free, c_registered := False\<rparr>)"
| release: "c_loop c = L_free \<Longrightarrow> loop_step c ((touch c)\<lparr>c_loop := L_close, c_allocated := False\<rparr>)"
| close: "c_loop c = L_close \<Longrightarrow> loop_step c (c\<lparr>c_loop := L_idle, c_opened := False\<rparr>)"

text \<open>
  A worker: \<open>handle_received_data\<close> and \<open>socketWrite\<close>. The first argument allows what goes wrong: a \<open>send\<close>
  that fails, and a request of an unknown type, for which \<open>undefined_handle\<close> clears \<open>keepAlive\<close>.
\<close>

inductive work_step :: "bool \<Rightarrow> conn \<Rightarrow> conn \<Rightarrow> bool" for wrong where
  take: "0 < c_queued c \<Longrightarrow> work_step wrong c (c\<lparr>c_queued := c_queued c - 1, c_workers := W_run # c_workers c\<rparr>)"
| handled: "i < length (c_workers c) \<Longrightarrow> c_workers c ! i = W_run \<Longrightarrow>
    work_step wrong c ((touch c)\<lparr>c_workers := (c_workers c)[i := W_send (c_keepAlive c)]\<rparr>)"
| unknown: "wrong \<Longrightarrow> i < length (c_workers c) \<Longrightarrow> c_workers c ! i = W_run \<Longrightarrow>
    work_step wrong c ((touch c)\<lparr>c_workers := (c_workers c)[i := W_send False]\<rparr>)"
| sent_part: "i < length (c_workers c) \<Longrightarrow> c_workers c ! i = W_send keep \<Longrightarrow> work_step wrong c (touch c)"
| sent: "i < length (c_workers c) \<Longrightarrow> c_workers c ! i = W_send keep \<Longrightarrow>
    work_step wrong c ((touch c)\<lparr>c_workers := (c_workers c)[i := if keep then W_keep else W_close]\<rparr>)"
| failed: "wrong \<Longrightarrow> i < length (c_workers c) \<Longrightarrow> c_workers c ! i = W_send keep \<Longrightarrow>
    work_step wrong c ((touch c)\<lparr>c_workers := (c_workers c)[i := W_lost]\<rparr>)"
| lost: "i < length (c_workers c) \<Longrightarrow> c_workers c ! i = W_lost \<Longrightarrow>
    work_step wrong c ((touch c)\<lparr>c_workers := (c_workers c)[i := W_close], c_registered := False\<rparr>)"
| kept: "i < length (c_workers c) \<Longrightarrow> c_workers c ! i = W_keep \<Longrightarrow>
    work_step wrong c ((touch c)\<lparr>c_workers := take i (c_workers c) @ drop (i + 1) (c_workers c), c_readFlag := False\<rparr>)"
| closed: "i < length (c_workers c) \<Longrightarrow> c_workers c ! i = W_close \<Longrightarrow>
    work_step wrong c ((touch c)\<lparr>c_workers := (c_workers c)[i := W_free], c_opened := False\<rparr>)"
| freed: "i < length (c_workers c) \<Longrightarrow> c_workers c ! i = W_free \<Longrightarrow>
    work_step wrong c ((touch c)\<lparr>c_workers := take i (c_workers c) @ drop (i + 1) (c_workers c), c_allocated := False\<rparr>)"

inductive conn_reach :: "bool \<Rightarrow> conn \<Rightarrow> bool" for wrong where
  start: "conn_reach wrong accepted"
| loops: "conn_reach wrong c \<Longrightarrow> loop_step c c' \<Longrightarrow> conn_reach wrong c'"
| works: "conn_reach wrong c \<Longrightarrow> work_step wrong c c' \<Longrightarrow> conn_reach wrong c'"

section \<open>Who has the connection\<close>

text \<open>As long as nothing goes wrong there is one owner: the loop, a task in the queue, or a worker.\<close>

definition owned :: "conn \<Rightarrow> bool" where
  "owned c \<longleftrightarrow> \<not> c_fault c \<and>
     (if c_queued c + length (c_workers c) = 0
      then (c_loop c = L_close \<and> \<not> c_registered c)
         \<or> (c_loop c = L_idle \<and> \<not> c_registered c)
         \<or> (c_loop c \<noteq> L_close \<and> c_allocated c \<and>
             (c_loop c \<in> {L_fired, L_reading, L_frame False, L_frame True} \<longrightarrow> c_registered c) \<and>
             (c_loop c \<in> {L_kept, L_flagged} \<longrightarrow> (c_registered c \<longleftrightarrow> c_keepAlive c)) \<and>
             (c_loop c = L_flagged \<longrightarrow> c_readFlag c) \<and> (c_loop c = L_free \<longrightarrow> \<not> c_registered c))
      else c_queued c + length (c_workers c) = 1 \<and> c_allocated c \<and> c_readFlag c
         \<and> (c_loop c = L_idle \<or> c_loop c = L_fired \<and> c_registered c) \<and> (c_registered c \<longleftrightarrow> c_keepAlive c)
         \<and> (\<forall>w \<in> set (c_workers c). w \<noteq> W_lost \<and> (\<forall>k. w = W_send k \<longrightarrow> (k \<longleftrightarrow> c_keepAlive c))
              \<and> (w = W_keep \<longrightarrow> c_keepAlive c) \<and> (w \<in> {W_close, W_free} \<longrightarrow> \<not> c_keepAlive c)))"

lemma accepted_owned: "owned accepted"
  by (simp add: owned_def accepted_def)

lemma loop_step_owned: "loop_step c c' \<Longrightarrow> owned c \<Longrightarrow> owned c'"
proof (induction rule: loop_step.induct)
  case (frame c keep)
  then show ?case by (cases keep) (auto simp: owned_def touch_def split: if_splits)
qed (auto simp: owned_def touch_def split: if_splits)

text \<open>A worker that has the connection is the only one.\<close>

lemma owned_worker:
  assumes "owned c" "i < length (c_workers c)"
  shows "c_queued c = 0" "c_workers c = [c_workers c ! 0]" "i = 0" "c_allocated c"
proof -
  have n: "c_queued c + length (c_workers c) \<noteq> 0" using assms(2) by auto
  then have "c_queued c + length (c_workers c) = 1" "c_allocated c" using assms(1) by (auto simp: owned_def)
  then show "c_queued c = 0" "i = 0" "c_allocated c" using assms(2) by auto
  have "length (c_workers c) = 1" using \<open>c_queued c + length (c_workers c) = 1\<close> assms(2) by linarith
  then show "c_workers c = [c_workers c ! 0]" by (cases "c_workers c") auto
qed

definition work_ok :: "bool \<Rightarrow> work_pc \<Rightarrow> bool" where
  "work_ok keep w \<longleftrightarrow> w \<noteq> W_lost \<and> (\<forall>k. w = W_send k \<longrightarrow> (k \<longleftrightarrow> keep))
     \<and> (w = W_keep \<longrightarrow> keep) \<and> (w \<in> {W_close, W_free} \<longrightarrow> \<not> keep)"

lemma work_ok_simps [simp]:
  "work_ok keep W_run" "work_ok keep (W_send k) \<longleftrightarrow> (k \<longleftrightarrow> keep)" "\<not> work_ok keep W_lost"
  "work_ok keep W_keep \<longleftrightarrow> keep" "work_ok keep W_close \<longleftrightarrow> \<not> keep" "work_ok keep W_free \<longleftrightarrow> \<not> keep"
  by (auto simp: work_ok_def)

lemma owned_busy:
  "c_workers c = [w] \<Longrightarrow> c_queued c = 0 \<Longrightarrow>
   owned c \<longleftrightarrow> \<not> c_fault c \<and> c_allocated c \<and> c_readFlag c \<and> (c_loop c = L_idle \<or> c_loop c = L_fired \<and> c_registered c)
     \<and> (c_registered c \<longleftrightarrow> c_keepAlive c) \<and> work_ok (c_keepAlive c) w"
  unfolding owned_def work_ok_def by simp

lemma owned_queued:
  "c_workers c = [] \<Longrightarrow> c_queued c = 1 \<Longrightarrow>
   owned c \<longleftrightarrow> \<not> c_fault c \<and> c_allocated c \<and> c_readFlag c \<and> (c_loop c = L_idle \<or> c_loop c = L_fired \<and> c_registered c)
     \<and> (c_registered c \<longleftrightarrow> c_keepAlive c)"
  unfolding owned_def by simp

lemma take_owned:
  assumes "0 < c_queued c" "owned c"
  shows "owned (c\<lparr>c_queued := c_queued c - 1, c_workers := W_run # c_workers c\<rparr>)"
proof -
  have "c_queued c + length (c_workers c) = 1" using assms by (auto simp: owned_def)
  then have q: "c_queued c = 1" "c_workers c = []" using assms(1) by (cases "c_workers c"; simp)+
  show ?thesis using assms(2) owned_queued [OF q(2,1)] q
    by (subst owned_busy [of _ W_run]) auto
qed

text \<open>A step of the only worker that keeps it, and its last step.\<close>

lemma worker_moves:
  assumes "owned c" "i < length (c_workers c)" "c_workers c ! i = w" "work_ok (c_keepAlive c) w \<Longrightarrow> work_ok (c_keepAlive c) w'"
  shows "owned ((touch c)\<lparr>c_workers := (c_workers c)[i := w']\<rparr>)" "work_ok (c_keepAlive c) w"
proof -
  note v = owned_worker [OF assms(1,2)]
  have c: "c_workers c = [w]" using v(2,3) assms(3) by simp
  note b = owned_busy [OF c v(1), THEN iffD1, OF assms(1)]
  then show "work_ok (c_keepAlive c) w" by blast
  show "owned ((touch c)\<lparr>c_workers := (c_workers c)[i := w']\<rparr>)"
    using b assms(4) v(1,3) c by (subst owned_busy [of _ w']) (auto simp: touch_def)
qed

lemma worker_leaves:
  assumes "owned c" "i < length (c_workers c)" "c_workers c ! i = w"
  shows "w = W_keep \<Longrightarrow> owned ((touch c)\<lparr>c_workers := take i (c_workers c) @ drop (i + 1) (c_workers c), c_readFlag := False\<rparr>)"
    "w = W_free \<Longrightarrow> owned ((touch c)\<lparr>c_workers := take i (c_workers c) @ drop (i + 1) (c_workers c), c_allocated := False\<rparr>)"
proof -
  note v = owned_worker [OF assms(1,2)]
  have c: "c_workers c = [w]" using v(2,3) assms(3) by simp
  note b = owned_busy [OF c v(1), THEN iffD1, OF assms(1)]
  show "owned ((touch c)\<lparr>c_workers := take i (c_workers c) @ drop (i + 1) (c_workers c), c_readFlag := False\<rparr>)" if "w = W_keep"
    using b v(1,3) c that by (auto simp: owned_def touch_def)
  show "owned ((touch c)\<lparr>c_workers := take i (c_workers c) @ drop (i + 1) (c_workers c), c_allocated := False\<rparr>)" if "w = W_free"
    using b v(1,3) c that by (auto simp: owned_def touch_def)
qed

lemma work_step_owned: "work_step wrong c c' \<Longrightarrow> \<not> wrong \<Longrightarrow> owned c \<Longrightarrow> owned c'"
proof (induction rule: work_step.induct)
  case (take c)
  then show ?case by (intro take_owned)
next
  case (handled i c)
  then show ?case using worker_moves(1) [OF _ handled.hyps, of "W_send (c_keepAlive c)"] by simp
next
  case (sent_part i c keep)
  have "(touch c)\<lparr>c_workers := (c_workers c)[i := W_send keep]\<rparr> = touch c"
    using sent_part.hyps list_update_id [of "c_workers c" i] by (cases c) (simp add: touch_def)
  then show ?case using worker_moves(1) [OF sent_part.prems(2) sent_part.hyps, of "W_send keep"] by simp
next
  case (sent i c keep)
  then show ?case using worker_moves(1) [OF sent.prems(2) sent.hyps, of "if keep then W_keep else W_close"] by simp
next
  case (lost i c)
  then show ?case using worker_moves(2) [OF lost.prems(2) lost.hyps, of W_lost] by simp
next
  case (kept i c)
  then show ?case using worker_leaves(1) [OF kept.prems(2) kept.hyps refl] by simp
next
  case (closed i c)
  have o: "owned ((touch c)\<lparr>c_workers := (c_workers c)[i := W_free]\<rparr>)"
    using worker_moves(1) [OF closed.prems(2) closed.hyps, of W_free] by simp
  have "owned (d\<lparr>c_opened := False\<rparr>) = owned d" for d by (simp add: owned_def)
  from this [of "(touch c)\<lparr>c_workers := (c_workers c)[i := W_free]\<rparr>"] o show ?case by simp
next
  case (freed i c)
  then show ?case using worker_leaves(2) [OF freed.prems(2) freed.hyps refl] by simp
qed simp_all

lemma reach_owned: "conn_reach wrong c \<Longrightarrow> \<not> wrong \<Longrightarrow> owned c"
  by (induction rule: conn_reach.induct) (auto simp: accepted_owned dest: loop_step_owned work_step_owned)

section \<open>A failed send\<close>

text \<open>A connection that is kept, and whose client has closed it: the loop has fetched the client data of the
  event once more when the \<open>send\<close> of the worker fails.\<close>

definition kept_conn :: "loop_pc \<Rightarrow> bool \<Rightarrow> nat \<Rightarrow> work_pc list \<Rightarrow> conn" where
  "kept_conn l flag q ws = accepted\<lparr>c_keepAlive := True, c_loop := l, c_readFlag := flag, c_queued := q, c_workers := ws\<rparr>"

lemma kept_sending: "conn_reach wrong (kept_conn L_fired True 0 [W_send True])"
proof -
  have "conn_reach wrong (accepted\<lparr>c_loop := L_fired\<rparr>)"
    using conn_reach.loops [OF conn_reach.start loop_step.fire] by (simp add: accepted_def)
  from conn_reach.loops [OF this loop_step.enter] have "conn_reach wrong (accepted\<lparr>c_loop := L_reading\<rparr>)"
    by (simp add: accepted_def touch_def)
  from conn_reach.loops [OF this loop_step.frame [of _ True]] have "conn_reach wrong (accepted\<lparr>c_loop := L_frame True\<rparr>)"
    by (simp add: accepted_def touch_def)
  from conn_reach.loops [OF this loop_step.more] have "conn_reach wrong (kept_conn L_kept False 0 [])"
    by (simp add: accepted_def touch_def kept_conn_def)
  from conn_reach.loops [OF this loop_step.flag] have "conn_reach wrong (kept_conn L_flagged True 0 [])"
    by (simp add: accepted_def touch_def kept_conn_def)
  from conn_reach.loops [OF this loop_step.add] have "conn_reach wrong (kept_conn L_idle True 1 [])"
    by (simp add: accepted_def kept_conn_def)
  from conn_reach.works [OF this work_step.take] have "conn_reach wrong (kept_conn L_idle True 0 [W_run])"
    by (simp add: accepted_def kept_conn_def)
  from conn_reach.works [OF this work_step.handled [of 0]] have "conn_reach wrong (kept_conn L_idle True 0 [W_send True])"
    by (simp add: accepted_def touch_def kept_conn_def)
  from conn_reach.loops [OF this loop_step.fire] show ?thesis by (simp add: accepted_def kept_conn_def)
qed

lemma send_fails:
  shows "conn_reach True ((kept_conn L_idle True 0 [])\<lparr>c_registered := False, c_opened := False, c_allocated := False, c_fault := True\<rparr>)"
proof -
  from conn_reach.works [OF kept_sending [of True] work_step.failed [of True 0 _ True]]
  have "conn_reach True (kept_conn L_fired True 0 [W_lost])" by (simp add: accepted_def touch_def kept_conn_def)
  from conn_reach.works [OF this work_step.lost [of 0]]
  have "conn_reach True ((kept_conn L_fired True 0 [W_close])\<lparr>c_registered := False\<rparr>)"
    by (simp add: accepted_def touch_def kept_conn_def)
  from conn_reach.works [OF this work_step.closed [of 0]]
  have "conn_reach True ((kept_conn L_fired True 0 [W_free])\<lparr>c_registered := False, c_opened := False\<rparr>)"
    by (simp add: accepted_def touch_def kept_conn_def)
  from conn_reach.works [OF this work_step.freed [of 0]]
  have "conn_reach True ((kept_conn L_fired True 0 [])\<lparr>c_registered := False, c_opened := False, c_allocated := False\<rparr>)"
    by (simp add: accepted_def touch_def kept_conn_def)
  from conn_reach.loops [OF this loop_step.busy] show ?thesis by (simp add: accepted_def touch_def kept_conn_def)
qed

section \<open>Properties\<close>

text \<open>
  C11: A connection has one owner as long as nothing goes wrong, and a failed \<open>send\<close> ends that. As long as
  no \<open>send\<close> fails and no request is of an unknown type, in every interleaving of the loop and the workers
  there is at most one task or worker for a connection, while there is one the loop does no more than look
  at \<open>readFlag\<close>, and nothing is touched after it was freed. But on a connection that is kept, whose event
  stays, a \<open>send\<close> that fails frees the state under the loop: a state is reached where the loop has read
  freed memory.
\<close>

theorem connection_owner:
  "(\<forall>c. conn_reach False c \<longrightarrow> \<not> c_fault c \<and> c_queued c + length (c_workers c) \<le> 1
      \<and> (c_queued c + length (c_workers c) = 1 \<longrightarrow> c_allocated c \<and> c_readFlag c \<and> c_loop c \<in> {L_idle, L_fired}))
   \<and> (\<exists>c. conn_reach True c \<and> c_fault c)"
proof (intro conjI allI impI)
  fix c
  assume "conn_reach False c"
  then have "owned c" by (rule reach_owned) simp
  then show "\<not> c_fault c" "c_queued c + length (c_workers c) \<le> 1" by (auto simp: owned_def split: if_splits)
  show "c_allocated c" "c_readFlag c" "c_loop c \<in> {L_idle, L_fired}" if "c_queued c + length (c_workers c) = 1"
    using \<open>owned c\<close> that by (auto simp: owned_def)
next
  show "\<exists>c. conn_reach True c \<and> c_fault c" using send_fails by (intro exI conjI) auto
qed

lemma connection_owner_witness:
  "conn_reach False (kept_conn L_fired True 0 [W_send True]) \<and> \<not> c_fault (kept_conn L_fired True 0 [W_send True])"
  using connection_owner [THEN conjunct1, THEN spec, THEN mp, OF kept_sending] kept_sending by blast

end
